(* ===== verification/Prelude.thy ===== *)
theory Prelude
  imports Main "HOL-Library.Word"
begin

text \<open>
  Shared vocabulary of the development: the fixed-width integer types of the kernel
  (an i686 target, so \<^verbatim>\<open>size_t\<close>, \<^verbatim>\<open>uintptr_t\<close>, pointers and \<^verbatim>\<open>int\<close> are 32 bits wide), the
  counting loop \<^verbatim>\<open>for (size_t i = a; i < b; i++)\<close> with its reasoning rules, and the facts on
  words that every component uses.
\<close>

unbundle bit_operations_syntax

type_synonym u8 = "8 word"
type_synonym u16 = "16 word"
type_synonym u32 = "32 word"
type_synonym u64 = "64 word"

named_theorems word_nat \<open>readings of word operations as operations on natural numbers\<close>
named_theorems frame_simps \<open>fields and cells an operation leaves alone\<close>

section \<open>Words as numbers\<close>

lemma unat_lt_2p32 [simp]: "unat (x :: u32) < 4294967296"
  using unsigned_less [of x, where ?'a = nat] by simp

lemma unat_add_no_wrap [word_nat]:
  "unat (a :: u32) + unat b < 4294967296 \<Longrightarrow> unat (a + b) = unat a + unat b"
  by (simp add: unat_word_ariths)

lemma unat_add_wrap:
  "unat (a + b :: u32) = (unat a + unat b) mod 4294967296"
  by (simp add: unat_word_ariths)

lemma unat_mult_wrap:
  "unat (a * b :: u32) = (unat a * unat b) mod 4294967296"
  by (simp add: unat_word_ariths)

lemma unat_sub_le [word_nat]:
  "b \<le> a \<Longrightarrow> unat (a - b :: u32) = unat a - unat b"
  by (rule unat_sub)

lemma unat_inc [word_nat]: "(i :: u32) < n \<Longrightarrow> unat (i + 1) = Suc (unat i)"
  by unat_arith

lemma less_inc_iff: "(i :: u32) < n \<Longrightarrow> j < i + 1 \<longleftrightarrow> j < i \<or> j = i"
  by (auto simp: word_less_nat_alt unat_inc word_unat_eq_iff)

lemma unat_of_nat32 [word_nat]: "n < 4294967296 \<Longrightarrow> unat (of_nat n :: u32) = n"
  by (simp add: unat_of_nat)

lemma of_nat_inj32:
  "m < 4294967296 \<Longrightarrow> n < 4294967296 \<Longrightarrow> (of_nat m :: u32) = of_nat n \<longleftrightarrow> m = n"
  by (metis unat_of_nat32)

text \<open>The \<^verbatim>\<open>int32_t\<close> reading of a word is negative exactly when its top bit is set.\<close>

lemma sint_neg_iff: "sint (x :: u32) < 0 \<longleftrightarrow> 2 ^ 31 \<le> unat x"
proof -
  have "sint x < 0 \<longleftrightarrow> bit x 31" using bit_last_iff [of x] by simp
  also have "\<dots> \<longleftrightarrow> odd (unat x div 2 ^ 31)"
    using bit_unsigned_iff [of x 31, where ?'a = nat] by (simp add: bit_iff_odd)
  also have "\<dots> \<longleftrightarrow> 2 ^ 31 \<le> unat x"
  proof -
    have "unat x div 2 ^ 31 < 2" using unat_lt_2p32 [of x] by (simp add: less_mult_imp_div_less)
    then have "unat x div 2 ^ 31 = 0 \<or> unat x div 2 ^ 31 = 1" by linarith
    then show ?thesis by (auto simp: div_eq_0_iff)
  qed
  finally show ?thesis .
qed

lemma unat_minus_one32: "unat (- 1 :: u32) = 4294967295"
  by (simp add: unsigned_minus_1_eq_mask mask_eq_exp_minus_1)

text \<open>Multiples of the page size are closed under addition and subtraction, also when they wrap.\<close>

lemma aligned_sum:
  assumes "unat a mod 4096 = 0" and "unat b mod 4096 = 0"
  shows "unat (a + b :: u32) mod 4096 = 0"
proof -
  have "unat (a + b) mod 4096 = (unat a + unat b) mod 4096"
    unfolding unat_add_wrap by (rule mod_mod_cancel) simp
  with assms show ?thesis by (metis mod_add_eq add_0 mod_0)
qed

lemma aligned_difference:
  assumes "unat a mod 4096 = 0" and "unat b mod 4096 = 0"
  shows "unat (a - b :: u32) mod 4096 = 0"
proof -
  have "unat a mod 4096 = (unat (a - b) + unat b) mod 4096"
    using unat_add_wrap [of "a - b" b] by (simp add: mod_mod_cancel)
  with assms have "4096 dvd unat (a - b) + unat b" and "4096 dvd unat b" by (simp_all add: mod_0_imp_dvd)
  then have "4096 dvd unat (a - b)" by (simp add: dvd_add_left_iff)
  then show ?thesis by simp
qed

section \<open>Counting loops\<close>

text \<open>
  \<^verbatim>\<open>for (size_t i = a; i < b; i++) body\<close> over an explicit state. The increment cannot wrap
  because the guard bounds \<^verbatim>\<open>i\<close> strictly, so the distance to the bound shrinks.
\<close>

function for_range :: "u32 \<Rightarrow> u32 \<Rightarrow> (u32 \<Rightarrow> 's \<Rightarrow> 's) \<Rightarrow> 's \<Rightarrow> 's" where
  "for_range i n f s = (if i < n then for_range (i + 1) n f (f i s) else s)"
  by pat_completeness auto
termination
  by (relation "measure (\<lambda>(i, n, f, s). unat n - unat i)") (auto simp: unat_inc word_less_nat_alt)

declare for_range.simps [simp del]

lemma for_range_done: "\<not> i < n \<Longrightarrow> for_range i n f s = s"
  by (subst for_range.simps) simp

lemma for_range_step: "i < n \<Longrightarrow> for_range i n f s = for_range (i + 1) n f (f i s)"
  by (simp add: for_range.simps [of i n f s])

text \<open>The loop rule: an invariant indexed by the counter, true at the bound when the loop ends.\<close>

lemma for_range_invariant:
  assumes "P i s" and "i \<le> n"
    and "\<And>k s. i \<le> k \<Longrightarrow> k < n \<Longrightarrow> P k s \<Longrightarrow> P (k + 1) (f k s)"
  shows "P n (for_range i n f s)"
  using assms
proof (induction i n f s rule: for_range.induct)
  case (1 i n f s)
  show ?case
  proof (cases "i < n")
    case True
    have "P n (for_range (i + 1) n f (f i s))"
    proof (rule "1.IH" [OF True])
      show "P (i + 1) (f i s)" using "1.prems" True by simp
      show "i + 1 \<le> n" using True by (rule inc_le)
      fix k s assume "i + 1 \<le> k" "k < n" "P k s"
      moreover have "i \<le> k" using \<open>i + 1 \<le> k\<close> True by unat_arith
      ultimately show "P (k + 1) (f k s)" using "1.prems"(3) by blast
    qed
    with True show ?thesis by (simp add: for_range_step)
  next
    case False
    with "1.prems" have "i = n" by simp
    with "1.prems" show ?thesis by (simp add: for_range_done)
  qed
qed

lemma for_range_preserves:
  assumes "P s" and "\<And>k s. i \<le> k \<Longrightarrow> k < n \<Longrightarrow> P s \<Longrightarrow> P (f k s)"
  shows "P (for_range i n f s)"
proof (cases "i \<le> n")
  case True
  show ?thesis
    using for_range_invariant [of "\<lambda>_. P" i s n f] assms True by blast
next
  case False
  with assms show ?thesis by (simp add: for_range_done)
qed

text \<open>The loop as a fold over the numbers it visits, which is how closed instances evaluate.\<close>

lemma for_range_fold:
  "for_range i n f s = fold (\<lambda>k. f (of_nat k)) [unat i ..< unat n] s"
proof (induction i n f s rule: for_range.induct)
  case (1 i n f s)
  show ?case
  proof (cases "i < n")
    case True
    then have "unat i < unat n" by (simp add: word_less_nat_alt)
    with True "1.IH" show ?thesis
      by (simp add: for_range_step upt_conv_Cons unat_inc)
  next
    case False
    then show ?thesis by (simp add: for_range_done word_less_nat_alt)
  qed
qed

end
