(* ===== verification/ByteMemory.thy ===== *)
theory ByteMemory
  imports Prelude
begin

text \<open>
  The byte-addressed memory that pointers refer to: a function from 32-bit addresses to bytes, with the
  little-endian 32-bit loads and stores the compiler emits for \<^verbatim>\<open>size_t\<close> and pointer fields. The
  lemmas give the contract of a store: what it reads back as, and which addresses it leaves alone.
\<close>

type_synonym mem = "u32 \<Rightarrow> u8"

lemma unat_le_max32 [simp]: "unat (x :: u32) \<le> 4294967295"
  using unat_lt_2p32 [of x] by linarith

definition load32 :: "mem \<Rightarrow> u32 \<Rightarrow> u32" where
  "load32 m a = ucast (m a) OR push_bit 8 (ucast (m (a + 1))) OR
     push_bit 16 (ucast (m (a + 2))) OR push_bit 24 (ucast (m (a + 3)))"

definition store32 :: "u32 \<Rightarrow> u32 \<Rightarrow> mem \<Rightarrow> mem" where
  "store32 a v m = m(a := ucast v, a + 1 := ucast (drop_bit 8 v),
     a + 2 := ucast (drop_bit 16 v), a + 3 := ucast (drop_bit 24 v))"

definition store8 :: "u32 \<Rightarrow> u8 \<Rightarrow> mem \<Rightarrow> mem" where
  "store8 a v m = m(a := v)"

text \<open>A 16-bit store, for the cells of the text screen.\<close>

definition store16 :: "u32 \<Rightarrow> u16 \<Rightarrow> mem \<Rightarrow> mem" where
  "store16 a v m = m(a := ucast v, a + 1 := ucast (drop_bit 8 v))"

definition load16 :: "mem \<Rightarrow> u32 \<Rightarrow> u16" where
  "load16 m a = ucast (m a) OR push_bit 8 (ucast (m (a + 1)))"

lemma four_bytes:
  "(ucast (ucast v :: u8) :: u32) OR push_bit 8 (ucast (ucast (drop_bit 8 v) :: u8)) OR
     push_bit 16 (ucast (ucast (drop_bit 16 v) :: u8)) OR
     push_bit 24 (ucast (ucast (drop_bit 24 v) :: u8)) = v" (is "?l = v")
proof (rule bit_word_eqI)
  fix n assume n: "n < LENGTH(32)"
  have "n < 8 \<or> 8 \<le> n \<and> n < 16 \<or> 16 \<le> n \<and> n < 24 \<or> 24 \<le> n" by linarith
  with n show "bit ?l n \<longleftrightarrow> bit v n"
    by (auto simp: bit_simps)
qed

lemma two_bytes:
  "(ucast (ucast v :: u8) :: u16) OR push_bit 8 (ucast (ucast (drop_bit 8 v) :: u8)) = v" (is "?l = v")
proof (rule bit_word_eqI)
  fix n assume n: "n < LENGTH(16)"
  have "n < 8 \<or> 8 \<le> n" by linarith
  with n show "bit ?l n \<longleftrightarrow> bit v n"
    by (auto simp: bit_simps)
qed

lemma load32_store32 [simp]: "load32 (store32 a v m) a = v"
  by (simp add: load32_def store32_def four_bytes)

lemma load16_store16 [simp]: "load16 (store16 a v m) a = v"
  by (simp add: load16_def store16_def two_bytes)

section \<open>Frames\<close>

text \<open>Two memories that agree on the addresses \<open>a\<close> up to \<open>a + n\<close>, as numbers.\<close>

definition same_bytes :: "nat set \<Rightarrow> mem \<Rightarrow> mem \<Rightarrow> bool" where
  "same_bytes A m m' \<longleftrightarrow> (\<forall>x\<in>A. m' (of_nat x) = m (of_nat x))"

lemma same_bytes_refl [simp]: "same_bytes A m m"
  by (simp add: same_bytes_def)

lemma same_bytes_trans: "same_bytes A m m' \<Longrightarrow> same_bytes A m' m'' \<Longrightarrow> same_bytes A m m''"
  by (simp add: same_bytes_def)

lemma same_bytes_mono: "same_bytes A m m' \<Longrightarrow> B \<subseteq> A \<Longrightarrow> same_bytes B m m'"
  by (auto simp: same_bytes_def)

lemma word_of_nat_add: "of_nat x + 1 = (of_nat (x + 1) :: u32)"
  "of_nat x + numeral k = (of_nat (x + numeral k) :: u32)"
  by simp_all

lemma same_bytes_store8:
  assumes "A \<subseteq> {..<4294967296}" and "x < 4294967296" and "x \<notin> A"
  shows "same_bytes A m (store8 (of_nat x) v m)"
  using assms of_nat_inj32 [of _ x] by (fastforce simp: same_bytes_def store8_def)

lemma same_bytes_store32:
  assumes "A \<subseteq> {..<4294967296}" and "x + 4 \<le> 4294967296" and "A \<inter> {x..<x + 4} = {}"
  shows "same_bytes A m (store32 (of_nat x) v m)"
  unfolding same_bytes_def
proof
  fix y assume y: "y \<in> A"
  have "y < 4294967296" "y \<notin> {x..<x + 4}" using y assms by auto
  then have "(of_nat y :: u32) \<noteq> of_nat (x + k)" if "k < 4" for k
    using that assms(2) of_nat_inj32 [of y "x + k"] by auto
  from this [of 0] this [of 1] this [of 2] this [of 3]
  show "store32 (of_nat x) v m (of_nat y) = m (of_nat y)" by (simp add: store32_def add.commute)
qed

lemma load32_same:
  assumes "same_bytes {x..<x + 4} m m'"
  shows "load32 m' (of_nat x) = load32 m (of_nat x)"
proof -
  have "m' (of_nat (x + k)) = m (of_nat (x + k))" if "k < 4" for k
    using assms that by (simp add: same_bytes_def del: of_nat_add)
  from this [of 0] this [of 1] this [of 2] this [of 3]
  show ?thesis by (simp add: load32_def add.commute)
qed

lemma load8_same: "same_bytes A m m' \<Longrightarrow> x \<in> A \<Longrightarrow> m' (of_nat x) = m (of_nat x)"
  by (simp add: same_bytes_def)

end
