(* ===== verification/CString.thy ===== *)
theory CString
  imports ByteMemory "HOL-Library.Monad_Syntax" "HOL-Library.List_Lexorder"
begin

text \<open>
  \<^verbatim>\<open>Kernel/ESTD/CString.{h,cpp}\<close>: the C string and memory functions over byte memory. Counted loops
  recurse on what is left of \<^verbatim>\<open>num\<close>; loops that look for a terminator may run for ever in a memory
  without one, so they are partial functions whose result \<open>None\<close> is that they do not return. A null
  result pointer is the address 0. \<^verbatim>\<open>Strdup\<close> and \<^verbatim>\<open>Strndup\<close>, which allocate, are in the theory of the
  allocator's clients.
\<close>

section \<open>Terminated strings\<close>

partial_function (option) Strlen_loop :: "mem \<Rightarrow> u32 \<Rightarrow> u32 \<Rightarrow> u32 option" where
  "Strlen_loop m str n = (if m (str + n) \<noteq> 0 then Strlen_loop m str (n + 1) else Some n)"

definition Strlen :: "mem \<Rightarrow> u32 \<Rightarrow> u32 option" where
  "Strlen m str = Strlen_loop m str 0"

text \<open>\<^verbatim>\<open>Strnlen\<close> reads \<^verbatim>\<open>str[len]\<close> before it compares \<^verbatim>\<open>len\<close> with the bound.\<close>

function Strnlen_loop :: "mem \<Rightarrow> u32 \<Rightarrow> u32 \<Rightarrow> u32 \<Rightarrow> u32" where
  "Strnlen_loop m str maxlen n =
     (if m (str + n) \<noteq> 0 \<and> n < maxlen then Strnlen_loop m str maxlen (n + 1) else n)"
  by pat_completeness auto
termination
  by (relation "measure (\<lambda>(m, str, maxlen, n). unat maxlen - unat n)")
    (auto simp: unat_inc word_less_nat_alt)

definition Strnlen :: "mem \<Rightarrow> u32 \<Rightarrow> u32 \<Rightarrow> u32" where
  "Strnlen m str maxlen = Strnlen_loop m str maxlen 0"

definition Strrev_swap :: "u32 \<Rightarrow> u32 \<Rightarrow> u32 \<Rightarrow> mem \<Rightarrow> mem" where
  "Strrev_swap str num i m =
     (let tmp = m (str + i); m1 = m(str + i := m (str + (num - 1 - i)))
      in m1(str + (num - 1 - i) := tmp))"

definition Strrev :: "u32 \<Rightarrow> u32 \<Rightarrow> mem \<Rightarrow> mem" where
  "Strrev str num m = for_range 0 (num div 2) (Strrev_swap str num) m"

partial_function (option) Strchr :: "mem \<Rightarrow> u32 \<Rightarrow> u8 \<Rightarrow> u32 option" where
  "Strchr m str ch =
     (if m str = ch then Some str else if m str \<noteq> 0 then Strchr m (str + 1) ch else Some 0)"

partial_function (option) Strrchr_loop :: "mem \<Rightarrow> u32 \<Rightarrow> u8 \<Rightarrow> u32 \<Rightarrow> u32 option" where
  "Strrchr_loop m str ch f =
     Option.bind (Strchr m str ch) (\<lambda>t. if t \<noteq> 0 then Strrchr_loop m (t + 1) ch t else Some f)"

definition Strrchr :: "mem \<Rightarrow> u32 \<Rightarrow> u8 \<Rightarrow> u32 option" where
  "Strrchr m str ch = Strrchr_loop m str ch 0"

partial_function (option) Strspn_loop :: "mem \<Rightarrow> u32 \<Rightarrow> u32 \<Rightarrow> u32 \<Rightarrow> u32 option" where
  "Strspn_loop m str1 str2 n =
     (if m str1 \<noteq> 0
      then Option.bind (Strchr m str2 (m str1))
             (\<lambda>t. if t \<noteq> 0 then Strspn_loop m (str1 + 1) str2 (n + 1) else Some n)
      else Some n)"

definition Strspn :: "mem \<Rightarrow> u32 \<Rightarrow> u32 \<Rightarrow> u32 option" where
  "Strspn m str1 str2 = (if str1 = 0 \<or> str2 = 0 then Some 0 else Strspn_loop m str1 str2 0)"

partial_function (option) Strcspn_loop :: "mem \<Rightarrow> u32 \<Rightarrow> u32 \<Rightarrow> u32 \<Rightarrow> u32 option" where
  "Strcspn_loop m str1 str2 n =
     (if m str1 \<noteq> 0
      then Option.bind (Strchr m str2 (m str1))
             (\<lambda>t. if t \<noteq> 0 then Some n else Strcspn_loop m (str1 + 1) str2 (n + 1))
      else Some n)"

definition Strcspn :: "mem \<Rightarrow> u32 \<Rightarrow> u32 \<Rightarrow> u32 option" where
  "Strcspn m str1 str2 = (if str1 = 0 \<or> str2 = 0 then Some 0 else Strcspn_loop m str1 str2 0)"

text \<open>
  \<^verbatim>\<open>Strtok_r\<close>: the returned token, the new \<^verbatim>\<open>*saveptr\<close> and the memory with the delimiter overwritten.
  \<^verbatim>\<open>Strtok\<close> keeps \<^verbatim>\<open>saveptr\<close> in a static variable, so it is the same function of the saved pointer.
\<close>

definition Strtok_r :: "u32 \<Rightarrow> u32 \<Rightarrow> u32 \<Rightarrow> mem \<Rightarrow> (u32 \<times> u32 \<times> mem) option" where
  "Strtok_r str delim saveptr m =
     (let str = (if str = 0 then saveptr else str)
      in if m str = 0 then Some (0, str, m)
         else do {
           skip \<leftarrow> Strspn m str delim;
           (let str = str + skip
            in if m str = 0 then Some (0, str, m)
               else do {
                 n \<leftarrow> Strcspn m str delim;
                 (let tail = str + n
                  in if m tail = 0 then Some (str, tail, m)
                     else Some (str, tail + 1, m(tail := 0)))
               })
         })"

definition Strtok :: "u32 \<Rightarrow> u32 \<Rightarrow> u32 \<Rightarrow> mem \<Rightarrow> (u32 \<times> u32 \<times> mem) option" where
  "Strtok str delim saveptr m = Strtok_r str delim saveptr m"

section \<open>Copies and comparisons\<close>

text \<open>The two loops of \<^verbatim>\<open>Strncpy\<close>; the number is \<^verbatim>\<open>num - i\<close>.\<close>

primrec Strncpy_fill :: "nat \<Rightarrow> u32 \<Rightarrow> u32 \<Rightarrow> mem \<Rightarrow> mem" where
  "Strncpy_fill 0 str1 i m = m"
| "Strncpy_fill (Suc n) str1 i m = Strncpy_fill n str1 (i + 1) (m(str1 + i := 0))"

primrec Strncpy_copy :: "nat \<Rightarrow> u32 \<Rightarrow> u32 \<Rightarrow> u32 \<Rightarrow> mem \<Rightarrow> mem" where
  "Strncpy_copy 0 str1 str2 i m = m"
| "Strncpy_copy (Suc n) str1 str2 i m =
     (if m (str2 + i) \<noteq> 0 then Strncpy_copy n str1 str2 (i + 1) (m(str1 + i := m (str2 + i)))
      else Strncpy_fill (Suc n) str1 i m)"

definition Strncpy :: "u32 \<Rightarrow> u32 \<Rightarrow> u32 \<Rightarrow> mem \<Rightarrow> mem" where
  "Strncpy str1 str2 num m = Strncpy_copy (unat num) str1 str2 0 m"

text \<open>The difference of two \<^verbatim>\<open>unsigned char\<close> as an \<^verbatim>\<open>int32_t\<close>.\<close>

primrec Strncmp_loop :: "nat \<Rightarrow> mem \<Rightarrow> u32 \<Rightarrow> u32 \<Rightarrow> int" where
  "Strncmp_loop 0 m str1 str2 = 0"
| "Strncmp_loop (Suc n) m str1 str2 =
     (let c1 = m str1; c2 = m str2
      in if c1 \<noteq> c2 then uint c1 - uint c2
         else if c1 = 0 then 0 else Strncmp_loop n m (str1 + 1) (str2 + 1))"

definition Strncmp :: "mem \<Rightarrow> u32 \<Rightarrow> u32 \<Rightarrow> u32 \<Rightarrow> int" where
  "Strncmp m str1 str2 num = Strncmp_loop (unat num) m str1 str2"

primrec Memset_loop :: "nat \<Rightarrow> u32 \<Rightarrow> u8 \<Rightarrow> mem \<Rightarrow> mem" where
  "Memset_loop 0 p1 ch m = m"
| "Memset_loop (Suc n) p1 ch m = Memset_loop n (p1 + 1) ch (m(p1 := ch))"

definition Memset :: "u32 \<Rightarrow> u32 \<Rightarrow> u32 \<Rightarrow> mem \<Rightarrow> mem" where
  "Memset dst ch num m = Memset_loop (unat num) dst (ucast ch) m"

text \<open>The compiler's own name for the same function.\<close>

definition memset :: "u32 \<Rightarrow> u32 \<Rightarrow> u32 \<Rightarrow> mem \<Rightarrow> mem" where
  "memset dst ch num m = Memset_loop (unat num) dst (ucast ch) m"

primrec Memsetw_loop :: "nat \<Rightarrow> u32 \<Rightarrow> u16 \<Rightarrow> mem \<Rightarrow> mem" where
  "Memsetw_loop 0 p1 ch m = m"
| "Memsetw_loop (Suc n) p1 ch m = Memsetw_loop n (p1 + 2) ch (store16 p1 ch m)"

definition Memsetw :: "u32 \<Rightarrow> u16 \<Rightarrow> u32 \<Rightarrow> mem \<Rightarrow> mem" where
  "Memsetw dst ch num m = Memsetw_loop (unat num) dst ch m"

primrec Memcpy_loop :: "nat \<Rightarrow> u32 \<Rightarrow> u32 \<Rightarrow> mem \<Rightarrow> mem" where
  "Memcpy_loop 0 p1 p2 m = m"
| "Memcpy_loop (Suc n) p1 p2 m = Memcpy_loop n (p1 + 1) (p2 + 1) (m(p1 := m p2))"

definition Memcpy :: "u32 \<Rightarrow> u32 \<Rightarrow> u32 \<Rightarrow> mem \<Rightarrow> mem" where
  "Memcpy dst src num m = Memcpy_loop (unat num) dst src m"

primrec Memcmp_loop :: "nat \<Rightarrow> mem \<Rightarrow> u32 \<Rightarrow> u32 \<Rightarrow> int" where
  "Memcmp_loop 0 m p1 p2 = 0"
| "Memcmp_loop (Suc n) m p1 p2 =
     (if m p1 < m p2 then - 1 else if m p1 > m p2 then 1 else Memcmp_loop n m (p1 + 1) (p2 + 1))"

definition Memcmp :: "mem \<Rightarrow> u32 \<Rightarrow> u32 \<Rightarrow> u32 \<Rightarrow> int" where
  "Memcmp m src1 src2 num = Memcmp_loop (unat num) m src1 src2"

section \<open>Counted writes\<close>

lemma word_offset_unat:
  assumes "x \<noteq> (p :: u32)"
  shows "unat (x - p) = Suc (unat (x - (p + 1)))"
proof -
  have "x - p \<noteq> 0" using assms by simp
  then have "unat (x - p - 1) = unat (x - p) - 1"
    using unat_sub_le [of 1 "x - p"] by (simp add: word_le_nat_alt unat_gt_0 Suc_le_eq)
  moreover have "0 < unat (x - p)" using \<open>x - p \<noteq> 0\<close> by (simp add: unat_gt_0)
  ultimately show ?thesis by (simp add: algebra_simps)
qed

lemma word_offset_iff:
  "x \<noteq> p \<Longrightarrow> unat (x - p :: u32) < Suc n \<longleftrightarrow> unat (x - (p + 1)) < n"
  by (simp add: word_offset_unat)

lemma word_offset_self: "n < 4294967296 \<Longrightarrow> \<not> unat (p - (p + 1) :: u32) < n"
  by (simp add: unat_minus_one32)

text \<open>
  A block of memory is read through the offset from its start, so the statements hold for blocks that
  wrap around the end of the address space as well.
\<close>

lemma Memset_loop_eq:
  "n \<le> 4294967295 \<Longrightarrow> Memset_loop n p ch m x = (if unat (x - p) < n then ch else m x)"
proof (induction n arbitrary: p m)
  case (Suc n)
  then show ?case
    using word_offset_iff [of x p n] word_offset_self [of n p] by (cases "x = p") auto
qed simp

lemma Memset_eq:
  "Memset dst ch num m x = (if unat (x - dst) < unat num then ucast ch else m x)"
  by (simp add: Memset_def Memset_loop_eq)

lemma memset_is_Memset: "memset = Memset"
  by (simp add: fun_eq_iff memset_def Memset_def)

lemma words_apart:
  assumes "unat q + j < unat p" and "unat p + k < 4294967296"
  shows "(p + of_nat k :: u32) \<noteq> q + of_nat j"
proof
  assume e: "p + of_nat k = q + of_nat j"
  have "unat (p + of_nat k) = unat p + k" "unat (q + of_nat j) = unat q + j"
    using assms unat_lt_2p32 [of p] by (simp_all add: unat_add_no_wrap unat_of_nat32 del: unat_lt_2p32)
  with e assms(1) show False by simp
qed

definition apart :: "u32 \<Rightarrow> u32 \<Rightarrow> nat \<Rightarrow> bool" where
  "apart p q n \<longleftrightarrow> (\<forall>i<n. \<forall>j<n. p + of_nat i \<noteq> q + of_nat j)"

lemma apart_Suc: "apart p q (Suc n) \<Longrightarrow> apart (p + 1) (q + 1) n" "apart p q (Suc n) \<Longrightarrow> j < n \<Longrightarrow> q + 1 + of_nat j \<noteq> p"
proof -
  assume a: "apart p q (Suc n)"
  have "p + of_nat (Suc i) \<noteq> q + of_nat (Suc j)" if "i < n" "j < n" for i j
    using a that unfolding apart_def by (meson Suc_mono)
  then show "apart (p + 1) (q + 1) n" by (simp add: apart_def ac_simps)
  show "j < n \<Longrightarrow> q + 1 + of_nat j \<noteq> p"
    using a [unfolded apart_def, rule_format, of 0 "Suc j"] by (auto simp: ac_simps)
qed

lemma Memcpy_loop_eq:
  "n \<le> 4294967295 \<Longrightarrow> apart p q n \<Longrightarrow>
    Memcpy_loop n p q m x = (if unat (x - p) < n then m (q + (x - p)) else m x)"
proof (induction n arbitrary: p q m)
  case (Suc n)
  have IH: "Memcpy_loop n (p + 1) (q + 1) (m(p := m q)) x =
      (if unat (x - (p + 1)) < n then (m(p := m q)) (q + 1 + (x - (p + 1))) else (m(p := m q)) x)"
    using Suc.prems apart_Suc(1) by (intro Suc.IH) auto
  have src: "q + 1 + (x - (p + 1)) = q + (x - p)" by simp
  have "q + (x - p) \<noteq> p" if "unat (x - (p + 1)) < n"
    using apart_Suc(2) [OF Suc.prems(2) that] by (simp add: src)
  then show ?case
    using Suc.prems(1) IH word_offset_iff [of x p n] word_offset_self [of n p]
    unfolding src by (cases "x = p") auto
qed simp

lemma Memcpy_eq:
  assumes "apart dst src (unat num)"
  shows "Memcpy dst src num m x = (if unat (x - dst) < unat num then m (src + (x - dst)) else m x)"
  unfolding Memcpy_def by (intro Memcpy_loop_eq assms) simp

lemma Memcmp_loop_zero:
  "Memcmp_loop n m p q = 0 \<longleftrightarrow> (\<forall>i<n. m (p + of_nat i) = m (q + of_nat i))"
proof (induction n arbitrary: p q)
  case (Suc n)
  have "(\<forall>i<Suc n. m (p + of_nat i) = m (q + of_nat i)) \<longleftrightarrow>
      m p = m q \<and> (\<forall>i<n. m (p + 1 + of_nat i) = m (q + 1 + of_nat i))"
    by (simp add: All_less_Suc2 ac_simps)
  with Suc.IH [of "p + 1" "q + 1"] show ?case by (auto simp: not_less)
qed simp

section \<open>Terminated strings\<close>

text \<open>The characters of the terminated string at an address, as a list.\<close>

primrec c_string :: "mem \<Rightarrow> u32 \<Rightarrow> u8 list \<Rightarrow> bool" where
  "c_string m p [] \<longleftrightarrow> m p = 0"
| "c_string m p (c # s) \<longleftrightarrow> c \<noteq> 0 \<and> m p = c \<and> c_string m (p + 1) s"

lemma c_string_nonzero: "c_string m p s \<Longrightarrow> 0 \<notin> set s"
  by (induction s arbitrary: p) auto

lemma c_string_drop: "c_string m p s \<Longrightarrow> n \<le> length s \<Longrightarrow> c_string m (p + of_nat n) (drop n s)"
proof (induction s arbitrary: p n)
  case (Cons c s)
  show ?case
  proof (cases n)
    case (Suc k)
    with Cons.IH [of "p + 1" k] Cons.prems show ?thesis by (simp add: ac_simps)
  qed (use Cons.prems in simp)
qed simp

lemma c_string_head: "c_string m p s \<Longrightarrow> m p = (case s of [] \<Rightarrow> 0 | c # _ \<Rightarrow> c)"
  by (cases s) auto

lemma c_string_head_zero: "c_string m p s \<Longrightarrow> m p = 0 \<longleftrightarrow> s = []"
  by (cases s) auto

lemma Strlen_loop_eq: "c_string m (p + n) s \<Longrightarrow> Strlen_loop m p n = Some (n + of_nat (length s))"
proof (induction s arbitrary: n)
  case Nil
  then show ?case by (subst Strlen_loop.simps) simp
next
  case (Cons c s)
  from Cons.prems have "c_string m (p + (n + 1)) s" by (simp add: ac_simps)
  from Cons.IH [OF this] Cons.prems show ?case by (subst Strlen_loop.simps) (simp add: ac_simps)
qed

lemma Strlen_eq: "c_string m p s \<Longrightarrow> Strlen m p = Some (of_nat (length s))"
  using Strlen_loop_eq [of m p 0 s] by (simp add: Strlen_def)

text \<open>The position of a character in a string; the terminator counts as one of its characters.\<close>

definition position :: "u8 \<Rightarrow> u8 list \<Rightarrow> nat" where
  "position ch s = length (takeWhile (\<lambda>c. c \<noteq> ch) s)"

lemma Strchr_eq:
  "c_string m p s \<Longrightarrow>
    Strchr m p ch = Some (if ch \<in> set s \<or> ch = 0 then p + of_nat (position ch s) else 0)"
proof (induction s arbitrary: p)
  case Nil
  then show ?case by (subst Strchr.simps) (simp add: position_def)
next
  case (Cons c s)
  show ?case
  proof (cases "c = ch")
    case True
    with Cons.prems show ?thesis by (subst Strchr.simps) (simp add: position_def)
  next
    case False
    with Cons.prems Cons.IH [of "p + 1"] show ?thesis
      by (subst Strchr.simps) (auto simp: position_def ac_simps)
  qed
qed

text \<open>A string that does not reach address 0 again: every pointer into it is a non-null pointer.\<close>

definition in_space :: "u32 \<Rightarrow> u8 list \<Rightarrow> bool" where
  "in_space p s \<longleftrightarrow> p \<noteq> 0 \<and> unat p + length s < 4294967296"

lemma in_space_nonnull: "in_space p s \<Longrightarrow> n \<le> length s \<Longrightarrow> p + of_nat n \<noteq> 0"
proof -
  assume a: "in_space p s" "n \<le> length s"
  then have "unat (p + of_nat n) = unat p + n"
    by (simp add: in_space_def unat_add_no_wrap unat_of_nat32)
  moreover have "unat p \<noteq> 0" using a by (simp add: in_space_def unat_eq_0)
  ultimately show "p + of_nat n \<noteq> 0" by auto
qed

lemma Strchr_found:
  assumes "c_string m p s" and "in_space p s" and "ch \<noteq> 0"
  obtains t where "Strchr m p ch = Some t" and "t \<noteq> 0 \<longleftrightarrow> ch \<in> set s"
proof -
  have "position ch s \<le> length s" by (simp add: position_def length_takeWhile_le)
  then have "p + of_nat (position ch s) \<noteq> 0" using in_space_nonnull [OF assms(2)] by blast
  with Strchr_eq [OF assms(1), of ch] assms(3) that show ?thesis by auto
qed

lemma Strspn_loop_eq:
  assumes "c_string m q t" and "in_space q t"
  shows "c_string m p s \<Longrightarrow>
    Strspn_loop m p q n = Some (n + of_nat (length (takeWhile (\<lambda>c. c \<in> set t) s)))"
proof (induction s arbitrary: p n)
  case Nil
  then show ?case by (subst Strspn_loop.simps) simp
next
  case (Cons c s)
  obtain r where r: "Strchr m q c = Some r" "r \<noteq> 0 \<longleftrightarrow> c \<in> set t"
    using Strchr_found [OF assms, of c] Cons.prems by auto
  show ?case
    using Cons.IH [of "p + 1" "n + 1"] Cons.prems r
    by (subst Strspn_loop.simps) (auto simp: ac_simps)
qed

lemma Strcspn_loop_eq:
  assumes "c_string m q t" and "in_space q t"
  shows "c_string m p s \<Longrightarrow>
    Strcspn_loop m p q n = Some (n + of_nat (length (takeWhile (\<lambda>c. c \<notin> set t) s)))"
proof (induction s arbitrary: p n)
  case Nil
  then show ?case by (subst Strcspn_loop.simps) simp
next
  case (Cons c s)
  obtain r where r: "Strchr m q c = Some r" "r \<noteq> 0 \<longleftrightarrow> c \<in> set t"
    using Strchr_found [OF assms, of c] Cons.prems by auto
  show ?case
    using Cons.IH [of "p + 1" "n + 1"] Cons.prems r
    by (subst Strcspn_loop.simps) (auto simp: ac_simps)
qed

lemma Strspn_eq:
  assumes "c_string m p s" and "p \<noteq> 0" and "c_string m q t" and "in_space q t"
  shows "Strspn m p q = Some (of_nat (length (takeWhile (\<lambda>c. c \<in> set t) s)))"
    and "Strcspn m p q = Some (of_nat (length (takeWhile (\<lambda>c. c \<notin> set t) s)))"
  using assms Strspn_loop_eq [OF assms(3,4,1), of 0] Strcspn_loop_eq [OF assms(3,4,1), of 0]
  by (auto simp: Strspn_def Strcspn_def in_space_def)

lemma c_string_iff:
  "c_string m p s \<longleftrightarrow> (\<forall>i<length s. m (p + of_nat i) = s ! i) \<and> 0 \<notin> set s \<and> m (p + of_nat (length s)) = 0"
proof (induction s arbitrary: p)
  case (Cons c s)
  show ?case using Cons.IH [of "p + 1"] by (auto simp: All_less_Suc2 ac_simps)
qed simp

lemma offset_distinct:
  "i < 4294967296 \<Longrightarrow> j < 4294967296 \<Longrightarrow> (p + of_nat i :: u32) = p + of_nat j \<longleftrightarrow> i = j"
  by (simp add: of_nat_inj32)

text \<open>Overwriting a character with the terminator cuts the string in two.\<close>

lemma c_string_cut:
  assumes "c_string m p s" and "n < length s" and "length s < 4294967296"
  shows "c_string (m(p + of_nat n := 0)) p (take n s)"
    and "c_string (m(p + of_nat n := 0)) (p + of_nat n + 1) (drop (Suc n) s)"
proof -
  note c = assms(1) [unfolded c_string_iff]
  show "c_string (m(p + of_nat n := 0)) p (take n s)"
    using c assms(2,3) in_set_takeD [of 0 n s] by (auto simp: c_string_iff of_nat_inj32)
  have "p + of_nat n + 1 + of_nat i \<noteq> p + of_nat n" if "i < length s" for i
    using that assms offset_distinct [of "Suc (n + i)" n p]
      offset_distinct [of "Suc i" 0 "p + of_nat n"] by (simp add: ac_simps)
  moreover have "c_string m (p + of_nat n + 1) (drop (Suc n) s)"
    using c_string_drop [OF assms(1), of "Suc n"] assms(2) by (simp add: ac_simps)
  ultimately show "c_string (m(p + of_nat n := 0)) (p + of_nat n + 1) (drop (Suc n) s)"
    using assms(2) unfolding c_string_iff by simp
qed

lemma take_drop_while:
  "takeWhile P s = take (length (takeWhile P s)) s" "dropWhile P s = drop (length (takeWhile P s)) s"
  by (rule takeWhile_eq_take, rule dropWhile_eq_drop)

lemma Strtok_r_eq:
  assumes "c_string m p s" and "in_space p s" and "c_string m q t" and "in_space q t"
  defines "lead \<equiv> takeWhile (\<lambda>c. c \<in> set t) s"
  defines "tok \<equiv> takeWhile (\<lambda>c. c \<notin> set t) (dropWhile (\<lambda>c. c \<in> set t) s)"
  defines "start \<equiv> p + of_nat (length lead)"
  shows "Strtok_r p q sv m =
    (if dropWhile (\<lambda>c. c \<in> set t) s = [] then Some (0, p + of_nat (length s), m)
     else if length lead + length tok = length s then Some (start, start + of_nat (length tok), m)
     else Some (start, start + of_nat (length tok) + 1, m(start + of_nat (length tok) := 0)))"
proof (cases "s = []")
  case True
  with assms(1,2) show ?thesis by (simp add: Strtok_r_def in_space_def Let_def)
next
  case False
  let ?r = "dropWhile (\<lambda>c. c \<in> set t) s"
  have p: "p \<noteq> 0" "m p \<noteq> 0"
    using assms(1,2) False c_string_head_zero [OF assms(1)] by (auto simp: in_space_def)
  have le: "length lead \<le> length s" by (simp add: lead_def length_takeWhile_le)
  have r: "?r = drop (length lead) s" unfolding lead_def by (rule dropWhile_eq_drop)
  have rest: "c_string m start ?r" using c_string_drop [OF assms(1) le] by (simp add: start_def r)
  have start: "start \<noteq> 0" using in_space_nonnull [OF assms(2) le] by (simp add: start_def)
  have skip: "Strspn m p q = Some (of_nat (length lead))"
    using Strspn_eq(1) [OF assms(1) p(1) assms(3,4)] by (simp add: lead_def)
  show ?thesis
  proof (cases "?r = []")
    case True
    with rest have "m start = 0" by simp
    moreover have "length lead = length s" using True r le by simp
    ultimately show ?thesis using True p skip by (simp add: Strtok_r_def start_def Let_def)
  next
    case False
    have tl: "length tok \<le> length ?r" by (simp add: tok_def length_takeWhile_le)
    have "m start \<noteq> 0" using c_string_head_zero [OF rest] False by simp
    moreover have "Strcspn m start q = Some (of_nat (length tok))"
      using Strspn_eq(2) [OF rest start assms(3,4)] by (simp add: tok_def)
    moreover have "m (start + of_nat (length tok)) = 0 \<longleftrightarrow> length lead + length tok = length s"
      using c_string_head_zero [OF c_string_drop [OF rest tl]] tl le by (auto simp: r)
    ultimately show ?thesis using False p skip
      by (auto simp add: Strtok_r_def Let_def simp flip: start_def)
  qed
qed

section \<open>Comparison and bounded copy of strings\<close>

lemma uint_diff_neg: "uint (c :: u8) - uint d < 0 \<longleftrightarrow> c < d" "uint (c :: u8) - uint d = 0 \<longleftrightarrow> c = d"
  by (simp_all add: word_less_def word_uint_eq_iff)

lemma Strncmp_loop_eq:
  "c_string m p s \<Longrightarrow> c_string m q t \<Longrightarrow>
    (Strncmp_loop n m p q = 0 \<longleftrightarrow> take n s = take n t) \<and>
    (Strncmp_loop n m p q < 0 \<longleftrightarrow> take n s < take n t)"
proof (induction n arbitrary: p q s t)
  case (Suc n)
  show ?case
  proof (cases s)
    case Nil
    with Suc.prems show ?thesis
      using uint_diff_neg [of 0 "m q"] by (cases t) (auto simp: Let_def word_gt_0)
  next
    case s: (Cons c s')
    show ?thesis
    proof (cases t)
      case Nil
      with Suc.prems s show ?thesis
        using uint_diff_neg [of "m p" 0] by (auto simp: Let_def)
    next
      case (Cons d t')
      with Suc.prems s Suc.IH [of "p + 1" s' "q + 1" t'] show ?thesis
        using uint_diff_neg [of c d] by (auto simp: Let_def)
    qed
  qed
qed simp

lemma Strncpy_fill_eq:
  "n \<le> 4294967295 \<Longrightarrow>
    Strncpy_fill n d i m x = (if unat (x - (d + i)) < n then 0 else m x)"
proof (induction n arbitrary: i m)
  case (Suc n)
  then show ?case
    using word_offset_iff [of x "d + i" n] word_offset_self [of n "d + i"]
    by (cases "x = d + i") (auto simp: add.assoc)
qed simp

lemma Strncpy_copy_eq:
  "n \<le> 4294967295 \<Longrightarrow> c_string m (q + i) s \<Longrightarrow>
    (\<And>k j. k < n \<Longrightarrow> j \<le> length s \<Longrightarrow> p + i + of_nat k \<noteq> q + i + of_nat j) \<Longrightarrow>
    Strncpy_copy n p q i m x = (if unat (x - (p + i)) < n
      then (if unat (x - (p + i)) < length s then s ! unat (x - (p + i)) else 0) else m x)"
proof (induction n arbitrary: i m s)
  case (Suc n)
  show ?case
  proof (cases s)
    case Nil
    with Suc.prems(2) have "m (q + i) = 0" by simp
    then show ?thesis
      using Strncpy_fill_eq [OF Suc.prems(1), of p i m x] Nil by (simp del: Strncpy_fill.simps)
  next
    case (Cons c s')
    let ?m = "m(p + i := c)"
    have c: "m (q + i) = c" "c \<noteq> 0" "c_string m (q + (i + 1)) s'"
      using Suc.prems(2) Cons by (auto simp: add.assoc)
    have sep: "p + (i + 1) + of_nat k \<noteq> q + (i + 1) + of_nat j" if "k < n" "j \<le> length s'" for k j
      using Suc.prems(3) [of "Suc k" "Suc j"] that Cons by (simp add: ac_simps)
    have "q + (i + 1) + of_nat j \<noteq> p + i" if "j \<le> length s'" for j
      using Suc.prems(3) [of 0 "Suc j"] that Cons by (auto simp: ac_simps)
    then have cs: "c_string ?m (q + (i + 1)) s'" using c(3) unfolding c_string_iff by auto
    have off: "unat (x - (p + i)) = Suc (unat (x - (p + (i + 1))))" if "x \<noteq> p + i"
      using word_offset_unat [OF that] by (simp only: add.assoc)
    have IH: "Strncpy_copy n p q (i + 1) ?m x = (if unat (x - (p + (i + 1))) < n
        then (if unat (x - (p + (i + 1))) < length s' then s' ! unat (x - (p + (i + 1))) else 0) else ?m x)"
      by (rule Suc.IH [OF _ cs sep]) (use Suc.prems(1) in auto)
    have step: "Strncpy_copy (Suc n) p q i m x = Strncpy_copy n p q (i + 1) ?m x"
      using c(1,2) by simp
    show ?thesis
    proof (cases "x = p + i")
      case True
      then show ?thesis using word_offset_self [of n "p + i"] Suc.prems(1) Cons
        unfolding step IH by (simp add: add.assoc)
    next
      case False
      then show ?thesis unfolding step IH off [OF False] Cons by simp
    qed
  qed
qed simp

section \<open>Blocks and strings as sets of addresses\<close>

lemma offset_in_block:
  assumes "x < 4294967296" and "unat (of_nat x - d :: u32) < k" and "unat d + k \<le> 4294967296"
  shows "x \<in> {unat d..<unat d + k}"
proof -
  let ?o = "of_nat x - d :: u32"
  have "unat (d + ?o) = unat d + unat ?o" using assms(2,3) by (intro unat_add_no_wrap) simp
  then have "x = unat d + unat ?o" using assms(1) by (simp add: unat_of_nat32)
  then show ?thesis using assms(2) by simp
qed

text \<open>The addresses of a string with its terminator.\<close>

definition string_bytes :: "u32 \<Rightarrow> u8 list \<Rightarrow> nat set" where
  "string_bytes p s = {unat p..<unat p + length s + 1}"

lemma c_string_same:
  assumes "c_string m p s" and "same_bytes (string_bytes p s) m m'"
  shows "c_string m' p s"
proof -
  have "m' (p + of_nat i) = m (p + of_nat i)" if "i \<le> length s" for i
  proof -
    have "unat p + i \<in> string_bytes p s" using that by (simp add: string_bytes_def)
    moreover have "of_nat (unat p + i) = p + of_nat i" by simp
    ultimately show ?thesis using assms(2) unfolding same_bytes_def by metis
  qed
  with assms(1) show ?thesis unfolding c_string_iff by simp
qed

section \<open>Blocks of bytes\<close>

text \<open>Memory after a list of bytes was written to a block.\<close>

definition write_list :: "u32 \<Rightarrow> u8 list \<Rightarrow> mem \<Rightarrow> mem" where
  "write_list a s m = (\<lambda>x. if unat (x - a) < length s then s ! unat (x - a) else m x)"

lemma write_list_inside: "i < length s \<Longrightarrow> i < 4294967296 \<Longrightarrow> write_list a s m (a + of_nat i) = s ! i"
  by (simp add: write_list_def unat_of_nat32)

lemma write_list_string:
  assumes "0 \<notin> set s" and "length s < 4294967296"
  shows "c_string (write_list a (s @ 0 # r) m) a s"
  using assms unfolding c_string_iff
  by (auto simp: write_list_inside nth_append)

lemma write_list_outside:
  assumes "unat a + length s \<le> 4294967296"
  shows "same_bytes ({..<4294967296} - {unat a..<unat a + length s}) m (write_list a s m)"
  using offset_in_block [of _ a "length s"] assms by (auto simp: same_bytes_def write_list_def)

lemma write_list_one: "(m(a := v)) = write_list a [v] m"
  by (rule ext) (auto simp: write_list_def unat_eq_zero)

lemma write_list_append:
  assumes "length s + length t < 4294967296"
  shows "write_list (a + of_nat (length s)) t (write_list a s m) = write_list a (s @ t) m"
proof
  fix x
  let ?n = "of_nat (length s) :: u32"
  have n: "unat ?n = length s" using assms by (simp add: unat_of_nat32)
  have sub: "x - (a + ?n) = (x - a) - ?n" by simp
  show "write_list (a + ?n) t (write_list a s m) x = write_list a (s @ t) m x"
  proof (cases "unat (x - a) < length s")
    case True
    have "\<not> unat (x - (a + ?n)) < length t"
    proof
      assume l: "unat (x - (a + ?n)) < length t"
      have "unat (x - (a + ?n) + ?n) = unat (x - (a + ?n)) + unat ?n"
        by (rule unat_add_no_wrap) (use l n assms in linarith)
      moreover have "x - (a + ?n) + ?n = x - a" by simp
      ultimately show False using True n by simp
    qed
    with True show ?thesis by (simp add: write_list_def nth_append)
  next
    case False
    then have "?n \<le> x - a" using n by (simp add: word_le_nat_alt)
    then have "unat (x - (a + ?n)) = unat (x - a) - length s" unfolding sub by (simp add: unat_sub n)
    with False show ?thesis by (auto simp: write_list_def nth_append)
  qed
qed

lemma write_list_snoc:
  "length s + 1 < 4294967296 \<Longrightarrow> (write_list a s m)(a + of_nat (length s) := v) = write_list a (s @ [v]) m"
  unfolding write_list_one by (rule write_list_append) simp

lemma Memcpy_list:
  assumes "\<forall>i<length s. m (q + of_nat i) = s ! i" and "unat num = length s"
    and "unat a + length s \<le> 4294967296" and "unat q + length s \<le> 4294967296"
    and "{unat a..<unat a + length s} \<inter> {unat q..<unat q + length s} = {}"
  shows "Memcpy a q num m = write_list a s m"
proof
  fix x
  have "apart a q (unat num)"
    unfolding apart_def
  proof (intro allI impI notI)
    fix i j assume ij: "i < unat num" "j < unat num" and e: "a + of_nat i = q + of_nat j"
    have "unat (a + of_nat i) = unat a + i" "unat (q + of_nat j) = unat q + j"
      using ij assms(2-4) by (simp_all add: unat_add_no_wrap unat_of_nat32)
    with e have "unat a + i = unat q + j" by simp
    then have "unat a + i \<in> {unat a..<unat a + length s} \<inter> {unat q..<unat q + length s}" using ij assms(2) by simp
    with assms(5) show False by blast
  qed
  note M = Memcpy_eq [OF this]
  have "m (q + (x - a)) = s ! unat (x - a)" if "unat (x - a) < length s"
    using assms(1) [rule_format, OF that] by simp
  then show "Memcpy a q num m x = write_list a s m x" by (simp add: M write_list_def assms(2))
qed

section \<open>Blocks of 16-bit words\<close>

text \<open>The bytes of a block of words, low byte first.\<close>

definition word_byte :: "(nat \<Rightarrow> u16) \<Rightarrow> nat \<Rightarrow> u8" where
  "word_byte w k = (if even k then ucast (w (k div 2)) else ucast (drop_bit 8 (w (k div 2))))"

lemma store16_block:
  assumes i: "i < 2147483648"
    and m: "\<forall>x. m' x = (if unat (x - buf) < 2 * i then word_byte w (unat (x - buf)) else m x)"
  shows "store16 (buf + of_nat (2 * i)) (w i) m' x =
    (if unat (x - buf) < 2 * Suc i then word_byte w (unat (x - buf)) else m x)"
proof -
  let ?k = "unat (x - buf)"
  have x: "x = buf + of_nat ?k" by simp
  have at: "x = buf + of_nat n \<longleftrightarrow> ?k = n" if "n < 4294967296" for n
    using that offset_distinct [of ?k n buf] by simp
  have at0: "x = buf + of_nat (2 * i) \<longleftrightarrow> ?k = 2 * i" using i by (intro at) simp
  have "x = buf + of_nat (2 * i + 1) \<longleftrightarrow> ?k = 2 * i + 1" using i by (intro at) simp
  then have at1: "x = buf + of_nat (2 * i) + 1 \<longleftrightarrow> ?k = 2 * i + 1" by (simp add: ac_simps)
  have cases: "?k < 2 * Suc i \<longleftrightarrow> ?k < 2 * i \<or> ?k = 2 * i \<or> ?k = 2 * i + 1" by auto
  show ?thesis
    unfolding store16_def fun_upd_apply at0 at1 cases using m [rule_format, of x] by (auto simp: word_byte_def)
qed

lemma load16_bytes: "ucast (load16 m a) = m a" "ucast (drop_bit 8 (load16 m a)) = m (a + 1)"
proof -
  show "ucast (load16 m a) = m a"
    by (rule bit_word_eqI) (auto simp: load16_def bit_simps)
  show "ucast (drop_bit 8 (load16 m a)) = m (a + 1)"
    by (rule bit_word_eqI) (auto simp: load16_def bit_simps dest: bit_imp_le_length)
qed

lemma word_byte_load16:
  "word_byte (\<lambda>w. load16 m (a + of_nat (2 * w))) k = m (a + of_nat k)"
proof (cases "even k")
  case True
  then have "2 * (k div 2) = k" by simp
  then show ?thesis using True by (simp only: word_byte_def if_True load16_bytes)
next
  case False
  then have "2 * (k div 2) + 1 = k" by simp
  then have "a + of_nat k = a + of_nat (2 * (k div 2)) + 1" by (metis add.assoc of_nat_1 of_nat_add)
  then show ?thesis using False by (simp only: word_byte_def if_False load16_bytes)
qed


lemma offset_shift:
  assumes "n \<le> 4294967295"
  shows "n \<le> unat (x - p :: u32) \<Longrightarrow> unat (x - (p + of_nat n)) = unat (x - p) - n"
    and "unat (x - p :: u32) < n \<Longrightarrow> unat (x - (p + of_nat n)) = unat (x - p) + 4294967296 - n"
proof -
  let ?y = "x - (p + of_nat n)"
  have n: "unat (of_nat n :: u32) = n" using assms by (simp add: unat_of_nat32)
  have "?y + of_nat n = x - p" by simp
  then have sum: "unat (x - p) = (unat ?y + n) mod 4294967296" using unat_add_wrap [of ?y "of_nat n"] n by simp
  have y: "unat ?y < 4294967296" by simp
  show "n \<le> unat (x - p) \<Longrightarrow> unat ?y = unat (x - p) - n"
    using unat_sub_le [of "of_nat n" "x - p"] n by (simp add: word_le_nat_alt algebra_simps)
  assume lt: "unat (x - p) < n"
  have big: "4294967296 \<le> unat ?y + n"
  proof (rule ccontr)
    assume "\<not> 4294967296 \<le> unat ?y + n"
    then have "unat (x - p) = unat ?y + n" using sum by simp
    with lt show False by simp
  qed
  then have "unat (x - p) = unat ?y + n - 4294967296"
    using sum y assms by (simp add: mod_if del: unat_lt_2p32)
  with big show "unat ?y = unat (x - p) + 4294967296 - n" by simp
qed

lemma Memsetw_loop_eq:
  "2 * n \<le> 4294967296 \<Longrightarrow>
    Memsetw_loop n p ch m x = (if unat (x - p) < 2 * n then word_byte (\<lambda>_. ch) (unat (x - p)) else m x)"
proof (induction n arbitrary: p m)
  case (Suc n)
  have IH: "Memsetw_loop n (p + 2) ch (store16 p ch m) x =
      (if unat (x - (p + 2)) < 2 * n then word_byte (\<lambda>_. ch) (unat (x - (p + 2))) else store16 p ch m x)"
    using Suc.prems by (intro Suc.IH) simp
  have first: "store16 p ch m x = (if unat (x - p) < 2 then word_byte (\<lambda>_. ch) (unat (x - p)) else m x)"
    using store16_block [of 0 m p "\<lambda>_. ch" m x] by simp
  show ?case
  proof (cases "2 \<le> unat (x - p)")
    case True
    then obtain k where k: "unat (x - p) = k + 2" by (metis add.commute le_Suc_ex)
    have "unat (x - (p + 2)) = k" using offset_shift(1) [of 2 x p] True k by simp
    then show ?thesis using IH first k by (simp add: word_byte_def)
  next
    case False
    then have "\<not> unat (x - (p + 2)) < 2 * n" using offset_shift(2) [of 2 x p] Suc.prems by simp
    then show ?thesis using IH first False by simp
  qed
qed simp

lemma Memsetw_eq:
  assumes "2 * unat n \<le> 4294967296"
  shows "Memsetw p ch n m x = (if unat (x - p) < 2 * unat n then word_byte (\<lambda>_. ch) (unat (x - p)) else m x)"
  unfolding Memsetw_def by (rule Memsetw_loop_eq [OF assms])

text \<open>A copy towards lower addresses may overlap its source: it reads every byte before it writes it.\<close>

lemma Memcpy_down:
  assumes "0 < d" and "unat num + d \<le> 4294967296"
  shows "Memcpy p (p + of_nat d) num m x = (if unat (x - p) < unat num then m (x + of_nat d) else m x)"
proof -
  have "Memcpy_loop n p (p + of_nat d) m x = (if unat (x - p) < n then m (x + of_nat d) else m x)"
    if "n + d \<le> 4294967296" for n p m using that
  proof (induction n arbitrary: p m)
    case (Suc n)
    have IH: "Memcpy_loop n (p + 1) (p + 1 + of_nat d) (m(p := m (p + of_nat d))) x =
        (if unat (x - (p + 1)) < n then (m(p := m (p + of_nat d))) (x + of_nat d) else (m(p := m (p + of_nat d))) x)"
      using Suc.prems by (intro Suc.IH) simp
    have src: "x + of_nat d \<noteq> p" if x: "unat (x - (p + 1)) < n"
    proof
      assume "x + of_nat d = p"
      then have "p = x + of_nat d" by simp
      then have "x - (p + 1) + of_nat (d + 1) = 0" by simp
      then have "(unat (x - (p + 1)) + (d + 1)) mod 4294967296 = 0"
        using unat_add_wrap [of "x - (p + 1)" "of_nat (d + 1)"] unat_of_nat32 [of "d + 1"] Suc.prems x
        by (simp del: of_nat_add of_nat_Suc)
      then show False using x Suc.prems by simp
    qed
    show ?case
      using IH src word_offset_iff [of x p n] word_offset_self [of n p] Suc.prems assms(1)
      by (cases "x = p") (auto simp: add.commute add.left_commute)
  qed simp
  then show ?thesis using assms(2) by (simp add: Memcpy_def)
qed

section \<open>Reversal\<close>

text \<open>The bytes after \<open>k\<close> turns: the outer \<open>k\<close> on both sides are exchanged. One turn exchanges the next two.\<close>

definition reversed_outside :: "u32 \<Rightarrow> nat \<Rightarrow> mem \<Rightarrow> nat \<Rightarrow> mem \<Rightarrow> bool" where
  "reversed_outside str n m k m' \<longleftrightarrow> (\<forall>j<n. m' (str + of_nat j) =
     (if j < k \<or> n - k \<le> j then m (str + of_nat (n - 1 - j)) else m (str + of_nat j)))"

lemma Strrev_swap_at:
  assumes "unat k < unat num - 1 - unat k" and "j < unat num"
  shows "Strrev_swap str num k m (str + of_nat j) =
    m (str + of_nat (if j = unat k \<or> j = unat num - 1 - unat k then unat num - 1 - j else j))"
proof -
  let ?n = "unat num"
  have a: "str + k = str + of_nat (unat k)" by simp
  have "1 \<le> num" using assms(1) by (simp add: word_le_nat_alt)
  moreover have "k \<le> num - 1" using assms(1) \<open>1 \<le> num\<close> by (simp add: word_le_nat_alt unat_sub_le)
  ultimately have "unat (num - 1 - k) = ?n - 1 - unat k" by (simp add: unat_sub_le)
  then have b: "str + (num - 1 - k) = str + of_nat (?n - 1 - unat k)"
    by (metis unat_of_nat32 word_unat_eq_iff unat_lt_2p32)
  have lt: "?n < 4294967296" by simp
  have dist: "str + of_nat j = str + of_nat l \<longleftrightarrow> j = l" if "j < ?n" "l < ?n" for j l
    by (rule offset_distinct) (use that lt in linarith)+
  have kk: "unat k < ?n" "?n - 1 - unat k < ?n" using assms(1) by auto
  show ?thesis
    using dist [OF assms(2) kk(1)] dist [OF assms(2) kk(2)] dist [OF kk] assms(1)
    unfolding Strrev_swap_def Let_def a b by auto
qed

lemma Strrev_swap_step:
  assumes "reversed_outside str (unat num) m (unat k) m'" and "unat k < unat num - 1 - unat k"
  shows "reversed_outside str (unat num) m (Suc (unat k)) (Strrev_swap str num k m')"
  unfolding reversed_outside_def
proof (intro allI impI)
  let ?n = "unat num"
  fix j assume j: "j < ?n"
  note at = Strrev_swap_at [OF assms(2) j, of str m']
  have I: "m' (str + of_nat l) = (if l < unat k \<or> ?n - unat k \<le> l then m (str + of_nat (?n - 1 - l)) else m (str + of_nat l))"
    if "l < ?n" for l using assms(1) that by (simp add: reversed_outside_def)
  show "Strrev_swap str num k m' (str + of_nat j) =
      (if j < Suc (unat k) \<or> ?n - Suc (unat k) \<le> j then m (str + of_nat (?n - 1 - j)) else m (str + of_nat j))"
  proof (cases "j = unat k \<or> j = ?n - 1 - unat k")
    case True
    then have "\<not> (?n - 1 - j < unat k \<or> ?n - unat k \<le> ?n - 1 - j)" "?n - 1 - j < ?n"
      "j < Suc (unat k) \<or> ?n - Suc (unat k) \<le> j" using assms(2) by linarith+
    with True show ?thesis unfolding at using I [of "?n - 1 - j"] by simp
  next
    case False
    then have "j < Suc (unat k) \<or> ?n - Suc (unat k) \<le> j \<longleftrightarrow> j < unat k \<or> ?n - unat k \<le> j" using assms(2) by auto
    with False show ?thesis unfolding at using I [OF j] by simp
  qed
qed

lemma Strrev_eq:
  assumes "i < unat num"
  shows "Strrev str num m (str + of_nat i) = m (str + of_nat (unat num - 1 - i))"
proof -
  let ?n = "unat num"
  have "reversed_outside str ?n m (unat (num div 2)) (Strrev str num m)"
    unfolding Strrev_def
  proof (rule for_range_invariant [where P = "\<lambda>k. reversed_outside str ?n m (unat k)"])
    show "reversed_outside str ?n m (unat 0) m" by (auto simp: reversed_outside_def)
    fix k :: u32 and m' assume k: "k < num div 2" and I: "reversed_outside str ?n m (unat k) m'"
    have "unat k < ?n div 2" using k by (simp add: word_less_nat_alt unat_div_distrib)
    then have "unat k < ?n - 1 - unat k" by linarith
    from Strrev_swap_step [OF I this] show "reversed_outside str ?n m (unat (k + 1)) (Strrev_swap str num k m')"
      unfolding unat_inc [OF k] .
  qed simp
  then have "Strrev str num m (str + of_nat i) =
      (if i < ?n div 2 \<or> ?n - ?n div 2 \<le> i then m (str + of_nat (?n - 1 - i)) else m (str + of_nat i))"
    using assms by (simp add: reversed_outside_def unat_div_distrib)
  moreover have "i = ?n - 1 - i" if "\<not> (i < ?n div 2 \<or> ?n - ?n div 2 \<le> i)"
    using that assms by linarith
  ultimately show ?thesis by auto
qed

section \<open>Properties\<close>

text \<open>A memory with the strings \<^verbatim>\<open>",ab,c"\<close> at \<^verbatim>\<open>0x1000\<close> and \<^verbatim>\<open>","\<close> at \<^verbatim>\<open>0x2000\<close>, zero elsewhere.\<close>

definition text_memory :: mem where
  "text_memory = (\<lambda>_. 0)(0x1000 := 0x2C, 0x1001 := 0x61, 0x1002 := 0x62, 0x1003 := 0x2C,
     0x1004 := 0x63, 0x2000 := 0x2C)"

lemma text_memory_strings:
  "c_string text_memory 0x1000 [0x2C, 0x61, 0x62, 0x2C, 0x63]" "c_string text_memory 0x2000 [0x2C]"
  "in_space 0x1000 [0x2C, 0x61, 0x62, 0x2C, 0x63]" "in_space 0x2000 [0x2C]"
  by (simp_all add: text_memory_def in_space_def)

text \<open>
  On a terminated string the scanning functions return and agree with the list functions:
  \<^verbatim>\<open>Strlen\<close> is the length, \<^verbatim>\<open>Strchr\<close> points at the first occurrence or is null, \<^verbatim>\<open>Strspn\<close> and \<^verbatim>\<open>Strcspn\<close>
  are the lengths of the longest prefixes inside and outside the given set of characters.
\<close>

theorem string_scans_agree_with_lists:
  assumes "c_string m p s" and "p \<noteq> 0" and "c_string m q t" and "in_space q t"
  shows "Strlen m p = Some (of_nat (length s)) \<and>
    Strchr m p ch = Some (if ch \<in> set s \<or> ch = 0 then p + of_nat (position ch s) else 0) \<and>
    Strspn m p q = Some (of_nat (length (takeWhile (\<lambda>c. c \<in> set t) s))) \<and>
    Strcspn m p q = Some (of_nat (length (takeWhile (\<lambda>c. c \<notin> set t) s)))"
  using Strlen_eq [OF assms(1)] Strchr_eq [OF assms(1)] Strspn_eq [OF assms] by blast

theorem string_scans_agree_with_lists_witness:
  "Strlen text_memory 0x1000 = Some 5 \<and> Strchr text_memory 0x1000 0x62 = Some 0x1002 \<and>
   Strspn text_memory 0x1000 0x2000 = Some 1"
  using string_scans_agree_with_lists
    [OF text_memory_strings(1) _ text_memory_strings(2,4), of "0x62"]
  by (simp add: position_def)

text \<open>
  C23: \<^verbatim>\<open>Strtok_r\<close> skips the leading delimiters and returns a pointer to the first token, terminated in
  place; the saved pointer is at the rest of the string. When only delimiters are left it returns null
  and changes nothing.
\<close>

theorem strtok_r_cuts_first_token:
  assumes "c_string m p s" and "in_space p s" and "c_string m q t" and "in_space q t"
  shows "\<exists>tok rest p' sv' m'. Strtok_r p q sv m = Some (p', sv', m') \<and>
    dropWhile (\<lambda>c. c \<in> set t) s = tok @ rest \<and> (\<forall>c\<in>set tok. c \<notin> set t) \<and>
    (if dropWhile (\<lambda>c. c \<in> set t) s = [] then p' = 0 \<and> m' = m
     else p' \<noteq> 0 \<and> c_string m' p' tok \<and> (rest = [] \<or> hd rest \<in> set t) \<and> c_string m' sv' (tl rest))"
proof -
  define lead where "lead = takeWhile (\<lambda>c. c \<in> set t) s"
  define r where "r = dropWhile (\<lambda>c. c \<in> set t) s"
  define tok where "tok = takeWhile (\<lambda>c. c \<notin> set t) r"
  define rest where "rest = dropWhile (\<lambda>c. c \<notin> set t) r"
  define start where "start = p + of_nat (length lead)"
  have le: "length lead \<le> length s" unfolding lead_def by (rule length_takeWhile_le)
  have r: "r = drop (length lead) s" unfolding lead_def r_def by (rule dropWhile_eq_drop)
  have cr: "c_string m start r" unfolding r start_def by (rule c_string_drop [OF assms(1) le])
  have start: "start \<noteq> 0" unfolding start_def by (rule in_space_nonnull [OF assms(2) le])
  have len: "length r < 4294967296" using assms(2) by (simp add: in_space_def r less_imp_diff_less)
  have parts: "r = tok @ rest" "\<forall>c\<in>set tok. c \<notin> set t"
    unfolding tok_def rest_def by (auto dest: set_takeWhileD)
  have whole: "length lead + length tok = length s \<longleftrightarrow> rest = []"
  proof -
    have "length s = length lead + length r" using le by (simp add: r)
    then show ?thesis using arg_cong [OF parts(1), of length] by auto
  qed
  note eq = Strtok_r_eq [OF assms, of sv, folded lead_def r_def, folded tok_def start_def, unfolded whole]
  consider "r = []" | "r \<noteq> []" "rest = []" | "r \<noteq> []" "rest \<noteq> []" by blast
  then show ?thesis
  proof cases
    case 1
    then show ?thesis unfolding eq r_def [symmetric] by (intro exI [of _ "[]"]) simp
  next
    case 2
    then have tok: "tok = r" using parts(1) by simp
    have "c_string m (start + of_nat (length tok)) []"
      using c_string_drop [OF cr, of "length r"] tok by simp
    with 2 tok cr start parts(2) show ?thesis unfolding eq r_def [symmetric]
      by (intro exI [of _ tok] exI [of _ "[]"]) auto
  next
    case 3
    then have lt: "length tok < length r" using arg_cong [OF parts(1), of length] by simp
    have "take (length tok) r = tok" "drop (Suc (length tok)) r = tl rest"
      unfolding parts(1) by (simp_all add: drop_Suc tl_drop [symmetric])
    note cut = c_string_cut [OF cr lt len, unfolded this]
    have "hd rest \<in> set t" using hd_dropWhile [of "\<lambda>c. c \<notin> set t" r] 3(2) by (simp add: rest_def)
    with 3 cut start parts show ?thesis unfolding eq r_def [symmetric]
      by (intro exI [of _ tok] exI [of _ rest]) auto
  qed
qed

theorem strtok_r_cuts_first_token_witness:
  "\<exists>p' sv' m'. Strtok_r 0x1000 0x2000 0 text_memory = Some (p', sv', m') \<and> c_string m' p' [0x61, 0x62]"
proof -
  obtain tok rest p' sv' m' where r: "Strtok_r 0x1000 0x2000 0 text_memory = Some (p', sv', m')"
      "[0x61, 0x62, 0x2C, 0x63] = tok @ rest" "\<forall>c\<in>set tok. c \<noteq> (0x2C :: u8)" "c_string m' p' tok"
      "rest = [] \<or> hd rest = 0x2C"
    using strtok_r_cuts_first_token [OF text_memory_strings(1,3,2,4), of 0] by auto
  then have "tok = [0x61, 0x62]" by (auto simp: append_eq_Cons_conv Cons_eq_append_conv)
  with r show ?thesis by blast
qed

text \<open>
  \<^verbatim>\<open>Strncmp\<close> compares the first \<^verbatim>\<open>num\<close> characters of two terminated strings as unsigned
  characters: the result is 0 exactly when these prefixes are equal and negative exactly when the first
  comes before the second in the lexicographic order.
\<close>

theorem strncmp_is_lexicographic:
  assumes "c_string m p s" and "c_string m q t"
  shows "(Strncmp m p q num = 0 \<longleftrightarrow> take (unat num) s = take (unat num) t) \<and>
    (Strncmp m p q num < 0 \<longleftrightarrow> take (unat num) s < take (unat num) t)"
  using Strncmp_loop_eq [OF assms, of "unat num"] by (simp add: Strncmp_def)

theorem strncmp_is_lexicographic_witness: "Strncmp text_memory 0x1000 0x2000 1 = 0"
  using strncmp_is_lexicographic [OF text_memory_strings(1,2), of 1] by simp

text \<open>
  \<^verbatim>\<open>Strncpy\<close> writes exactly \<^verbatim>\<open>num\<close> bytes: the characters of the source, cut off or padded with
  zeros. A source of \<^verbatim>\<open>num\<close> or more characters leaves the copy without a terminator.
\<close>

theorem strncpy_copies_and_pads:
  assumes "c_string m q s"
    and "\<forall>k<unat num. \<forall>j\<le>length s. p + of_nat k \<noteq> q + of_nat j"
  shows "Strncpy p q num m x = (if unat (x - p) < unat num
    then (if unat (x - p) < length s then s ! unat (x - p) else 0) else m x)"
  using Strncpy_copy_eq [of "unat num" m q 0 s p x] assms by (simp add: Strncpy_def)

theorem strncpy_copies_and_pads_witness:
  "Strncpy 0x3000 0x2000 4 text_memory 0x3000 = 0x2C \<and> Strncpy 0x3000 0x2000 4 text_memory 0x3003 = 0"
proof -
  have "(0x3000 + of_nat k :: u32) \<noteq> 0x2000 + of_nat j" if "k < 4" "j \<le> 1" for k j
    using that by (intro words_apart) simp_all
  then show ?thesis
    using strncpy_copies_and_pads [OF text_memory_strings(2), of 4 "0x3000"] by simp
qed

text \<open>
  \<^verbatim>\<open>Memcpy\<close> between blocks that do not overlap changes the destination block and nothing else, and
  \<^verbatim>\<open>Memcmp\<close> then finds the two blocks equal.
\<close>

theorem memcmp_after_memcpy:
  assumes "apart dst src (unat num)"
  shows "Memcmp (Memcpy dst src num m) dst src num = 0 \<and>
    (\<forall>x. \<not> unat (x - dst) < unat num \<longrightarrow> Memcpy dst src num m x = m x)"
proof -
  have "Memcpy dst src num m (dst + of_nat i) = Memcpy dst src num m (src + of_nat i)"
    if i: "i < unat num" for i
  proof -
    have u: "unat (of_nat i :: u32) = i" by (rule unat_of_nat32 [OF less_trans [OF i unat_lt_2p32]])
    have "\<not> unat (src + of_nat i - dst) < unat num"
    proof
      assume lt: "unat (src + of_nat i - dst) < unat num"
      have "dst + of_nat (unat (src + of_nat i - dst)) = src + of_nat i" by simp
      with lt i assms show False unfolding apart_def by blast
    qed
    then show ?thesis using i u by (simp add: Memcpy_eq [OF assms])
  qed
  then show ?thesis by (simp add: Memcmp_def Memcmp_loop_zero Memcpy_eq [OF assms])
qed

theorem memcmp_after_memcpy_witness:
  "Memcmp (Memcpy 0x3000 0x1000 6 text_memory) 0x3000 0x1000 6 = 0"
proof -
  have "apart 0x3000 0x1000 (unat (6 :: u32))"
    unfolding apart_def by (intro allI impI words_apart) simp_all
  from memcmp_after_memcpy [OF this, of text_memory] show ?thesis by simp
qed

text \<open>
  \<^verbatim>\<open>Strrev\<close> reverses the \<^verbatim>\<open>num\<close> bytes at the pointer.
\<close>

theorem strrev_reverses:
  assumes "i < unat num"
  shows "Strrev str num m (str + of_nat i) = m (str + of_nat (unat num - 1 - i))"
  by (rule Strrev_eq [OF assms])

theorem strrev_reverses_witness: "Strrev 0x1000 5 text_memory 0x1001 = 0x2C"
  using strrev_reverses [of 1 5 "0x1000" text_memory] by (simp add: text_memory_def)

end
