(* ===== verification/PortIO.thy ===== *)
theory PortIO
  imports Prelude
begin

text \<open>
  \<^verbatim>\<open>Kernel/Arch/x86/IO.h\<close>: the instructions that read and write I/O ports. What a device answers is not
  the kernel's code, so it is a parameter: a \<open>device\<close> gives the value of the next read of a port from the
  history of everything that was read and written before. The history is the state, newest event first.
\<close>

datatype port_event =
    In8 u16 u8 | Out8 u16 u8 | In16 u16 u16 | Out16 u16 u16 | In32 u16 u32 | Out32 u16 u32

type_synonym port_trace = "port_event list"

record device =
  dev_in8 :: "port_trace \<Rightarrow> u16 \<Rightarrow> u8"
  dev_in16 :: "port_trace \<Rightarrow> u16 \<Rightarrow> u16"
  dev_in32 :: "port_trace \<Rightarrow> u16 \<Rightarrow> u32"

definition INSB :: "device \<Rightarrow> u16 \<Rightarrow> port_trace \<Rightarrow> u8 \<times> port_trace" where
  "INSB d port t = (let v = dev_in8 d t port in (v, In8 port v # t))"

definition OUTB :: "u16 \<Rightarrow> u8 \<Rightarrow> port_trace \<Rightarrow> port_trace" where
  "OUTB port data t = Out8 port data # t"

definition INSW :: "device \<Rightarrow> u16 \<Rightarrow> port_trace \<Rightarrow> u16 \<times> port_trace" where
  "INSW d port t = (let v = dev_in16 d t port in (v, In16 port v # t))"

definition OUTW :: "u16 \<Rightarrow> u16 \<Rightarrow> port_trace \<Rightarrow> port_trace" where
  "OUTW port data t = Out16 port data # t"

text \<open>
  The 32-bit forms take a 32-bit port of which the instruction uses the low half. \<^verbatim>\<open>OUTD\<close> is declared with
  a result and leaves the written value in the result register.
\<close>

definition INSD :: "device \<Rightarrow> u32 \<Rightarrow> port_trace \<Rightarrow> u32 \<times> port_trace" where
  "INSD d port t = (let p = ucast port; v = dev_in32 d t p in (v, In32 p v # t))"

definition OUTD :: "u32 \<Rightarrow> u32 \<Rightarrow> port_trace \<Rightarrow> u32 \<times> port_trace" where
  "OUTD port data t = (data, Out32 (ucast port) data # t)"

section \<open>Repeated reads of a status port\<close>

text \<open>
  A loop that reads a port as long as the value asks for another read: the last value and the history.
  It may run for ever, which is \<open>None\<close>.
\<close>

partial_function (option) read_while ::
  "device \<Rightarrow> u16 \<Rightarrow> (u8 \<Rightarrow> bool) \<Rightarrow> port_trace \<Rightarrow> (u8 \<times> port_trace) option" where
  "read_while d port again t =
     (let (v, t1) = INSB d port t in if again v then read_while d port again t1 else Some (v, t1))"

declare read_while.simps [code]

text \<open>The history after \<open>n\<close> reads of a port in a row, and the value of the read after those.\<close>

primrec in8_reads :: "device \<Rightarrow> u16 \<Rightarrow> nat \<Rightarrow> port_trace \<Rightarrow> port_trace" where
  "in8_reads d p 0 t = t"
| "in8_reads d p (Suc n) t = snd (INSB d p (in8_reads d p n t))"

definition in8_value :: "device \<Rightarrow> u16 \<Rightarrow> nat \<Rightarrow> port_trace \<Rightarrow> u8" where
  "in8_value d p n t = fst (INSB d p (in8_reads d p n t))"

lemma in8_value_0 [simp]: "in8_value d p 0 t = fst (INSB d p t)"
  by (simp add: in8_value_def)

lemma in8_reads_shift: "in8_reads d p n (snd (INSB d p t)) = in8_reads d p (Suc n) t"
  by (induction n) simp_all

lemma in8_value_shift: "in8_value d p n (snd (INSB d p t)) = in8_value d p (Suc n) t"
  by (simp add: in8_value_def in8_reads_shift del: in8_reads.simps)

lemma in8_reads_add: "in8_reads d p m (in8_reads d p n t) = in8_reads d p (n + m) t"
  by (induction m) simp_all

lemma in8_value_add: "in8_value d p m (in8_reads d p n t) = in8_value d p (n + m) t"
  by (simp add: in8_value_def in8_reads_add)

text \<open>
  The loop returns exactly when some read ends it, and then after the first such read.
\<close>

definition reads_until :: "device \<Rightarrow> u16 \<Rightarrow> (u8 \<Rightarrow> bool) \<Rightarrow> nat \<Rightarrow> port_trace \<Rightarrow> bool" where
  "reads_until d p again n t \<longleftrightarrow> (\<forall>i<n. again (in8_value d p i t)) \<and> \<not> again (in8_value d p n t)"

lemma reads_until_0: "reads_until d p again 0 t \<longleftrightarrow> \<not> again (fst (INSB d p t))"
  by (simp add: reads_until_def)

lemma reads_until_Suc:
  "reads_until d p again (Suc n) t \<longleftrightarrow>
    again (fst (INSB d p t)) \<and> reads_until d p again n (snd (INSB d p t))"
  by (auto simp: reads_until_def in8_value_shift less_Suc_eq_0_disj)

lemma read_while_step:
  "read_while d p again t = (if again (fst (INSB d p t)) then read_while d p again (snd (INSB d p t))
    else Some (INSB d p t))"
  by (subst read_while.simps) (simp add: split_beta)

lemma read_while_returns:
  "reads_until d p again n t \<Longrightarrow>
    read_while d p again t = Some (in8_value d p n t, in8_reads d p (Suc n) t)"
proof (induction n arbitrary: t)
  case (Suc n)
  then show ?case
    by (subst read_while_step)
      (simp add: reads_until_Suc in8_value_shift in8_reads_shift del: in8_reads.simps)
qed (subst read_while_step, simp add: reads_until_0)

lemma read_while_ends:
  assumes "read_while d p again t = Some r"
  shows "\<exists>n. reads_until d p again n t"
proof (rule read_while.raw_induct [OF _ assms, where P = "\<lambda>d p again t r. \<exists>n. reads_until d p again n t"])
  fix rec d p again t r
  assume IH: "\<And>d p again t r. rec d p again t = Some r \<Longrightarrow> \<exists>n. reads_until d p again n t"
    and run: "(let (v, t1) = INSB d p t in if again v then rec d p again t1 else Some (v, t1)) = Some r"
  show "\<exists>n. reads_until d p again n t"
  proof (cases "again (fst (INSB d p t))")
    case True
    with run have "rec d p again (snd (INSB d p t)) = Some r" by (simp add: split_beta)
    with IH obtain n where "reads_until d p again n (snd (INSB d p t))" by blast
    with True have "reads_until d p again (Suc n) t" by (simp add: reads_until_Suc)
    then show ?thesis ..
  qed (use reads_until_0 in blast)
qed

lemma read_while_iff:
  "read_while d p again t = Some r \<longleftrightarrow>
    (\<exists>n. reads_until d p again n t \<and> r = (in8_value d p n t, in8_reads d p (Suc n) t))"
proof
  assume run: "read_while d p again t = Some r"
  then obtain n where n: "reads_until d p again n t" using read_while_ends by blast
  with run read_while_returns [OF n] have "r = (in8_value d p n t, in8_reads d p (Suc n) t)" by simp
  with n show "\<exists>n. reads_until d p again n t \<and> r = (in8_value d p n t, in8_reads d p (Suc n) t)" by blast
qed (use read_while_returns in blast)

text \<open>A counted loop of reads whose values are dropped.\<close>

lemma for_range_reads:
  "for_range 0 n (\<lambda>_ t. snd (INSB d p t)) t = in8_reads d p (unat n) t"
proof -
  have "for_range 0 n (\<lambda>_ t. snd (INSB d p t)) t = in8_reads d p (unat n) t"
    by (rule for_range_invariant [where P = "\<lambda>i t'. t' = in8_reads d p (unat i) t"])
      (auto simp: unat_inc)
  then show ?thesis .
qed

text \<open>What earlier events say about a register: the value last written to it.\<close>

primrec last_out8 :: "u16 \<Rightarrow> port_trace \<Rightarrow> u8" where
  "last_out8 p [] = 0"
| "last_out8 p (e # t) = (case e of Out8 q v \<Rightarrow> if q = p then v else last_out8 p t | _ \<Rightarrow> last_out8 p t)"

lemma last_out8_in [simp]: "last_out8 p (snd (INSB d q t)) = last_out8 p t"
  "last_out8 p (snd (INSW d q t)) = last_out8 p t"
  by (simp_all add: INSB_def INSW_def Let_def)

lemma last_out8_out [simp]: "last_out8 p (OUTB q v t) = (if q = p then v else last_out8 p t)"
  "last_out8 p (OUTW q w t) = last_out8 p t"
  by (simp_all add: OUTB_def OUTW_def)

lemma last_out8_reads [simp]: "last_out8 p (in8_reads d q n t) = last_out8 p t"
  by (induction n) simp_all

end
