(* ===== verification/VGA.thy ===== *)
theory VGA
  imports CString PortIO
begin

text \<open>
  \<^verbatim>\<open>Kernel/Drivers/Graphics/VGA.{h,cpp}\<close>: the text screen. The static members of the class, memory (which
  holds the screen from \<^verbatim>\<open>0xB8000\<close> on, two bytes per character) and the history of port accesses are the
  state. \<^verbatim>\<open>WriteStr\<close> is \<open>None\<close> when its argument has no terminator.
\<close>

section \<open>State\<close>

datatype VGAColor = Black | Blue | Green | Cyan | Red | Magenta | Brown | LightGrey | DarkGrey | LightBlue
  | LightGreen | LightCyan | LightRed | LightMagenta | LightBrown | White

primrec VGAColor_value :: "VGAColor \<Rightarrow> u8" where
  "VGAColor_value Black = 0"
| "VGAColor_value Blue = 1"
| "VGAColor_value Green = 2"
| "VGAColor_value Cyan = 3"
| "VGAColor_value Red = 4"
| "VGAColor_value Magenta = 5"
| "VGAColor_value Brown = 6"
| "VGAColor_value LightGrey = 7"
| "VGAColor_value DarkGrey = 8"
| "VGAColor_value LightBlue = 9"
| "VGAColor_value LightGreen = 10"
| "VGAColor_value LightCyan = 11"
| "VGAColor_value LightRed = 12"
| "VGAColor_value LightMagenta = 13"
| "VGAColor_value LightBrown = 14"
| "VGAColor_value White = 15"

record console =
  s_VideoAddress :: u32
  s_Col :: u16
  s_Row :: u16
  s_Color :: VGAColor
  s_CtrlAddressRegister :: u16
  s_CtrlDataRegister :: u16
  con_bytes :: mem
  con_ports :: port_trace

definition VGA_VIDEO_ADDRESS :: u32 where "VGA_VIDEO_ADDRESS = 0xB8000"
definition VGA_WIDTH :: u32 where "VGA_WIDTH = 80"
definition VGA_HEIGHT :: u16 where "VGA_HEIGHT = 25"

definition VGA_TEXT_ENCODE :: "u8 \<Rightarrow> u8 \<Rightarrow> u16" where
  "VGA_TEXT_ENCODE ch color = push_bit 8 (ucast color) OR ucast ch"

definition VGA_GET_TEXT_OFFSET :: "u16 \<Rightarrow> u16 \<Rightarrow> u32" where
  "VGA_GET_TEXT_OFFSET col row = ucast row * VGA_WIDTH + ucast col"

section \<open>Operations\<close>

text \<open>The cursor functions save the index of the selected register and select it again at the end.\<close>

definition VGA_EnableCursor :: "device \<Rightarrow> console \<Rightarrow> console" where
  "VGA_EnableCursor d c =
     (let (addrRegBak, t1) = INSB d (s_CtrlAddressRegister c) (con_ports c);
          t2 = OUTB (s_CtrlAddressRegister c) 0x0A t1;
          (cursorStartRegData, t3) = INSB d (s_CtrlDataRegister c) t2;
          cursorStartRegData = cursorStartRegData AND NOT (push_bit 5 1);
          t4 = OUTB (s_CtrlDataRegister c) cursorStartRegData t3
      in c\<lparr>con_ports := OUTB (s_CtrlAddressRegister c) addrRegBak t4\<rparr>)"

definition VGA_DisableCursor :: "device \<Rightarrow> console \<Rightarrow> console" where
  "VGA_DisableCursor d c =
     (let (addrRegBak, t1) = INSB d (s_CtrlAddressRegister c) (con_ports c);
          t2 = OUTB (s_CtrlAddressRegister c) 0x0A t1;
          (cursorStartRegData, t3) = INSB d (s_CtrlDataRegister c) t2;
          cursorStartRegData = cursorStartRegData OR push_bit 5 1;
          t4 = OUTB (s_CtrlDataRegister c) cursorStartRegData t3
      in c\<lparr>con_ports := OUTB (s_CtrlAddressRegister c) addrRegBak t4\<rparr>)"

definition VGA_SetCursor :: "device \<Rightarrow> u16 \<Rightarrow> console \<Rightarrow> console" where
  "VGA_SetCursor d offset c =
     (let (addrRegBak, t1) = INSB d (s_CtrlAddressRegister c) (con_ports c);
          t2 = OUTB (s_CtrlAddressRegister c) 0x0F t1;
          t3 = OUTB (s_CtrlDataRegister c) (ucast (offset AND 0xFF)) t2;
          t4 = OUTB (s_CtrlAddressRegister c) 0x0E t3;
          t5 = OUTB (s_CtrlDataRegister c) (ucast (drop_bit 8 offset AND 0xFF)) t4
      in c\<lparr>con_ports := OUTB (s_CtrlAddressRegister c) addrRegBak t5\<rparr>)"

definition VGA_GetCursor :: "device \<Rightarrow> console \<Rightarrow> u16 \<times> console" where
  "VGA_GetCursor d c =
     (let (addrRegBak, t1) = INSB d (s_CtrlAddressRegister c) (con_ports c);
          t2 = OUTB (s_CtrlAddressRegister c) 0x0F t1;
          (low, t3) = INSB d (s_CtrlDataRegister c) t2;
          offset = ucast low;
          t4 = OUTB (s_CtrlAddressRegister c) 0x0E t3;
          (high, t5) = INSB d (s_CtrlDataRegister c) t4;
          offset = offset OR push_bit 8 (ucast high)
      in (offset, c\<lparr>con_ports := OUTB (s_CtrlAddressRegister c) addrRegBak t5\<rparr>))"

definition VGA_WriteCharLocation :: "u16 \<Rightarrow> u16 \<Rightarrow> u8 \<Rightarrow> VGAColor \<Rightarrow> console \<Rightarrow> console" where
  "VGA_WriteCharLocation col row ch color c =
     c\<lparr>con_bytes := store16 (s_VideoAddress c + 2 * (ucast row * VGA_WIDTH + ucast col))
        (VGA_TEXT_ENCODE ch (VGAColor_value color)) (con_bytes c)\<rparr>"

definition VGA_ScrollDown :: "console \<Rightarrow> console" where
  "VGA_ScrollDown c =
     (let start = s_VideoAddress c + VGA_WIDTH * 2;
          siz = ucast (s_Row c) * VGA_WIDTH * 2;
          m1 = Memcpy (s_VideoAddress c) start siz (con_bytes c);
          start = s_VideoAddress c + siz;
          m2 = Memsetw start (VGA_TEXT_ENCODE 0x20 (VGAColor_value Black)) siz m1
      in c\<lparr>con_bytes := m2, s_Row := s_Row c - 1\<rparr>)"

definition VGA_WriteCharColor :: "device \<Rightarrow> u8 \<Rightarrow> VGAColor \<Rightarrow> console \<Rightarrow> console" where
  "VGA_WriteCharColor d ch color c =
     (if ch = 0 then c
      else let c1 = (if s_Row c \<ge> VGA_HEIGHT then VGA_ScrollDown c else c)
           in if ch = 0x0A then c1\<lparr>s_Col := 0, s_Row := s_Row c1 + 1\<rparr>
              else let c2 = VGA_WriteCharLocation (s_Col c1) (s_Row c1) ch color c1;
                       c3 = c2\<lparr>s_Col := s_Col c2 + 1\<rparr>;
                       c4 = (if ucast (s_Col c3) \<ge> VGA_WIDTH then c3\<lparr>s_Col := 0, s_Row := s_Row c3 + 1\<rparr> else c3)
                   in VGA_SetCursor d (ucast (VGA_GET_TEXT_OFFSET (s_Col c4) (s_Row c4))) c4)"

definition VGA_WriteChar :: "device \<Rightarrow> u8 \<Rightarrow> console \<Rightarrow> console" where
  "VGA_WriteChar d ch c = VGA_WriteCharColor d ch (s_Color c) c"

text \<open>The length is computed again before every character.\<close>

partial_function (option) WriteStr_loop :: "device \<Rightarrow> u32 \<Rightarrow> u32 \<Rightarrow> console \<Rightarrow> console option" where
  "WriteStr_loop d str i c =
     Option.bind (Strlen (con_bytes c) str) (\<lambda>n.
       if i < n then WriteStr_loop d str (i + 1) (VGA_WriteChar d (con_bytes c (str + i)) c) else Some c)"

definition VGA_WriteStr :: "device \<Rightarrow> u32 \<Rightarrow> console \<Rightarrow> console option" where
  "VGA_WriteStr d str c = WriteStr_loop d str 0 c"

definition VGA_ClearScreen :: "device \<Rightarrow> console \<Rightarrow> console" where
  "VGA_ClearScreen d c =
     VGA_SetCursor d 0
       (for_range 0 (ucast VGA_HEIGHT) (\<lambda>y. for_range 0 VGA_WIDTH (\<lambda>x c.
          VGA_WriteCharLocation (ucast x) (ucast y) 0x20 (s_Color c) c)) c)"

definition VGA_GetColor :: "console \<Rightarrow> VGAColor" where
  "VGA_GetColor c = s_Color c"

definition VGA_SetColor :: "VGAColor \<Rightarrow> console \<Rightarrow> console" where
  "VGA_SetColor color c = c\<lparr>s_Color := color\<rparr>"

text \<open>
  The two messages are string literals; their addresses are parameters. \<^verbatim>\<open>Init\<close> switches to the
  monochrome registers when the I/O address select bit is clear.
\<close>

definition VGA_Init :: "device \<Rightarrow> u32 \<Rightarrow> console \<Rightarrow> (int \<times> console) option" where
  "VGA_Init d msg c =
     (let c1 = c\<lparr>s_VideoAddress := VGA_VIDEO_ADDRESS, s_Col := 0, s_Row := 0, s_Color := LightBrown\<rparr>;
          (v, t) = INSB d 0x3CC (con_ports c1);
          IOAS = drop_bit 0 v AND 1;
          c2 = c1\<lparr>con_ports := t\<rparr>;
          c3 = (if IOAS = 0 then c2\<lparr>s_CtrlAddressRegister := 0x3B4, s_CtrlDataRegister := 0x3B5\<rparr> else c2);
          c4 = VGA_EnableCursor d (VGA_DisableCursor d c3)
      in do { c5 \<leftarrow> VGA_WriteStr d msg c4; Some (0, c5) })"

definition VGA_Shutdown :: "device \<Rightarrow> u32 \<Rightarrow> console \<Rightarrow> console option" where
  "VGA_Shutdown d msg c = VGA_WriteStr d msg c"

declare WriteStr_loop.simps [code]


section \<open>The terminal\<close>

text \<open>
  What the screen shows: a character and color per cell of the 25 rows, and of the row below them, which
  scrolling brings in; and the position of the next character. Nothing else of the state matters to the
  terminal, and it is at home in the standard place of text memory.
\<close>

type_synonym grid = "nat \<Rightarrow> nat \<Rightarrow> u16"
type_synonym terminal = "grid \<times> nat \<times> nat"

definition cell_address :: "nat \<Rightarrow> nat \<Rightarrow> u32" where
  "cell_address r x = VGA_VIDEO_ADDRESS + of_nat (2 * (r * 80 + x))"

definition grid_of :: "mem \<Rightarrow> grid" where
  "grid_of m = (\<lambda>r x. if r \<le> 25 \<and> x < 80 then load16 m (cell_address r x) else 0)"

definition terminal_of :: "console \<Rightarrow> terminal" where
  "terminal_of c = (grid_of (con_bytes c), unat (s_Col c), unat (s_Row c))"

definition console_wf :: "console \<Rightarrow> bool" where
  "console_wf c \<longleftrightarrow> s_VideoAddress c = VGA_VIDEO_ADDRESS \<and> unat (s_Col c) < 80 \<and> unat (s_Row c) \<le> 25"

text \<open>The bytes that the terminal owns: scrolling also blanks 8000 bytes below the screen.\<close>

definition video_bytes :: "nat set" where
  "video_bytes = {0xB8000..<0xB8000 + 12000}"

definition blank :: u16 where
  "blank = 0x0020"

definition put_cell :: "nat \<Rightarrow> nat \<Rightarrow> u16 \<Rightarrow> grid \<Rightarrow> grid" where
  "put_cell r x v g = (\<lambda>r' x'. if r' = r \<and> x' = x then v else g r' x')"

definition scroll_grid :: "grid \<Rightarrow> grid" where
  "scroll_grid g = (\<lambda>r x. if r < 25 then g (r + 1) x else if r = 25 \<and> x < 80 then blank else 0)"

definition terminal_char :: "VGAColor \<Rightarrow> u8 \<Rightarrow> terminal \<Rightarrow> terminal" where
  "terminal_char color ch = (\<lambda>(g, col, row).
     if ch = 0 then (g, col, row)
     else let (g, row) = (if 25 \<le> row then (scroll_grid g, row - 1) else (g, row))
          in if ch = 0x0A then (g, 0, row + 1)
             else (put_cell row col (VGA_TEXT_ENCODE ch (VGAColor_value color)) g,
                   if col + 1 < 80 then (col + 1, row) else (0, row + 1)))"

section \<open>Operations on the terminal\<close>

lemma cell_address_unat:
  "r \<le> 25 \<Longrightarrow> x < 80 \<Longrightarrow> unat (cell_address r x) = 0xB8000 + 2 * (r * 80 + x)"
proof -
  assume "r \<le> 25" "x < 80"
  then have "2 * (r * 80 + x) < 4160" by simp
  then show ?thesis
    unfolding cell_address_def VGA_VIDEO_ADDRESS_def by (simp add: unat_add_no_wrap unat_of_nat32 del: of_nat_add of_nat_mult)
qed

lemma cell_address_code:
  assumes "unat col < 80" and "unat row \<le> 25"
  shows "VGA_VIDEO_ADDRESS + 2 * (ucast (row :: u16) * VGA_WIDTH + ucast (col :: u16)) =
    cell_address (unat row) (unat col)"
proof -
  have "(ucast w :: u32) = of_nat (unat w)" for w :: u16 by simp
  then show ?thesis by (simp add: cell_address_def VGA_WIDTH_def algebra_simps)
qed

lemma load16_store16_other:
  assumes "unat a + 2 \<le> 4294967296" and "unat b + 2 \<le> 4294967296"
    and "unat a + 2 \<le> unat b \<or> unat b + 2 \<le> unat a"
  shows "load16 (store16 a v m) b = load16 m b"
proof -
  have "unat (a + 1) = unat a + 1" "unat (b + 1) = unat b + 1"
    using assms(1,2) by (simp_all add: unat_add_no_wrap)
  then have "a \<noteq> b" "a \<noteq> b + 1" "a + 1 \<noteq> b" "a + 1 \<noteq> b + 1" using assms(3) by auto
  then show ?thesis by (auto simp: load16_def store16_def)
qed

lemma grid_put:
  assumes "r \<le> 25" and "x < 80"
  shows "grid_of (store16 (cell_address r x) v m) = put_cell r x v (grid_of m)"
proof (intro ext)
  fix r' x'
  show "grid_of (store16 (cell_address r x) v m) r' x' = put_cell r x v (grid_of m) r' x'"
  proof (cases "r' \<le> 25 \<and> x' < 80 \<and> \<not> (r' = r \<and> x' = x)")
    case True
    have "2 * (r * 80 + x) + 2 \<le> 2 * (r' * 80 + x') \<or> 2 * (r' * 80 + x') + 2 \<le> 2 * (r * 80 + x)"
      using True assms by (cases r r' rule: linorder_cases) auto
    then have "load16 (store16 (cell_address r x) v m) (cell_address r' x') = load16 m (cell_address r' x')"
      using True assms by (intro load16_store16_other) (auto simp: cell_address_unat)
    with True show ?thesis by (auto simp: grid_of_def put_cell_def)
  next
    case False
    then consider "r' = r" "x' = x" | "\<not> (r' \<le> 25 \<and> x' < 80)" by blast
    then show ?thesis
    proof cases
      case 1
      then show ?thesis using assms by (simp only: grid_of_def put_cell_def load16_store16) simp
    next
      case 2
      then have "\<not> (r' = r \<and> x' = x)" using assms by blast
      with 2 show ?thesis by (simp only: grid_of_def put_cell_def if_False)
    qed
  qed
qed

text \<open>Memory changes outside the terminal's bytes do not show.\<close>

lemma grid_same:
  assumes "same_bytes video_bytes m m'"
  shows "grid_of m' = grid_of m"
proof -
  have "load16 m' (cell_address r x) = load16 m (cell_address r x)" if "r \<le> 25" "x < 80" for r x
  proof -
    let ?a = "0xB8000 + 2 * (r * 80 + x)"
    have a: "cell_address r x = of_nat ?a" by (simp add: cell_address_def VGA_VIDEO_ADDRESS_def)
    have "?a \<in> video_bytes" "?a + 1 \<in> video_bytes" using that by (auto simp: video_bytes_def)
    then have "m' (of_nat ?a) = m (of_nat ?a)" "m' (of_nat (?a + 1)) = m (of_nat (?a + 1))"
      using assms unfolding same_bytes_def by blast+
    then show ?thesis unfolding a load16_def by (simp add: add.commute)
  qed
  then show ?thesis by (auto simp: grid_of_def fun_eq_iff)
qed


lemma text_blank: "VGA_TEXT_ENCODE 0x20 (VGAColor_value Black) = blank"
  by (simp add: VGA_TEXT_ENCODE_def blank_def)

lemma scroll_memory:
  assumes "s_VideoAddress c = VGA_VIDEO_ADDRESS" and "s_Row c = 25"
  shows "con_bytes (VGA_ScrollDown c) x =
    (if unat (x - (VGA_VIDEO_ADDRESS + 4000)) < 8000
     then word_byte (\<lambda>_. blank) (unat (x - (VGA_VIDEO_ADDRESS + 4000)))
     else if unat (x - VGA_VIDEO_ADDRESS) < 4000 then con_bytes c (x + 160) else con_bytes c x)"
proof -
  have copy: "Memcpy VGA_VIDEO_ADDRESS (VGA_VIDEO_ADDRESS + 160) 4000 m x =
      (if unat (x - VGA_VIDEO_ADDRESS) < 4000 then m (x + 160) else m x)" for m x
    using Memcpy_down [of 160 4000 VGA_VIDEO_ADDRESS m x] by simp
  have fill: "Memsetw (VGA_VIDEO_ADDRESS + 4000) blank 4000 m x =
      (if unat (x - (VGA_VIDEO_ADDRESS + 4000)) < 8000
       then word_byte (\<lambda>_. blank) (unat (x - (VGA_VIDEO_ADDRESS + 4000))) else m x)" for m
    using Memsetw_eq [of 4000 "VGA_VIDEO_ADDRESS + 4000" blank m x] by simp
  have siz: "ucast (s_Row c) * VGA_WIDTH * 2 = 4000" "VGA_WIDTH * 2 = 160"
    using assms(2) by (simp_all add: VGA_WIDTH_def)
  show ?thesis
    unfolding VGA_ScrollDown_def Let_def siz assms(1) text_blank
    by (simp add: fill copy)
qed

lemma video_offset:
  assumes "n < 4294213632"
  shows "unat (of_nat (0xB8000 + n) - VGA_VIDEO_ADDRESS :: u32) = n"
    and "unat (of_nat (0xB8000 + n) - (VGA_VIDEO_ADDRESS + 4000) :: u32) =
      (if 4000 \<le> n then n - 4000 else n + 4294963296)"
proof -
  have e: "(of_nat (0xB8000 + n) :: u32) - VGA_VIDEO_ADDRESS = of_nat n"
    by (simp add: VGA_VIDEO_ADDRESS_def)
  then show u: "unat (of_nat (0xB8000 + n) - VGA_VIDEO_ADDRESS :: u32) = n"
    using unat_of_nat32 [of n] assms by simp
  show "unat (of_nat (0xB8000 + n) - (VGA_VIDEO_ADDRESS + 4000) :: u32) =
      (if 4000 \<le> n then n - 4000 else n + 4294963296)"
    using offset_shift [of 4000 "of_nat (0xB8000 + n)" VGA_VIDEO_ADDRESS] u by simp
qed

lemma load16_of_nat: "load16 m (of_nat a) = ucast (m (of_nat a)) OR push_bit 8 (ucast (m (of_nat (a + 1))))"
  by (simp add: load16_def add.commute)

lemma scroll_grid_of:
  assumes "s_VideoAddress c = VGA_VIDEO_ADDRESS" and "s_Row c = 25"
  shows "grid_of (con_bytes (VGA_ScrollDown c)) = scroll_grid (grid_of (con_bytes c))"
proof (intro ext)
  fix r x
  let ?m = "con_bytes c" and ?m' = "con_bytes (VGA_ScrollDown c)"
  have cell: "cell_address r x = of_nat (0xB8000 + 2 * (r * 80 + x))" for r x
    by (simp add: cell_address_def VGA_VIDEO_ADDRESS_def)
  have byte: "?m' (of_nat (0xB8000 + n)) = (if n < 4000 then ?m (of_nat (0xB8000 + n + 160))
      else word_byte (\<lambda>_. blank) (n - 4000))" if "n < 4160" for n
  proof -
    have n: "n < 4294213632" using that by simp
    have shift: "of_nat (0xB8000 + n) + 160 = (of_nat (0xB8000 + n + 160) :: u32)" by simp
    show ?thesis
      unfolding scroll_memory [OF assms] video_offset [OF n] shift using that by auto
  qed
  show "grid_of ?m' r x = scroll_grid (grid_of ?m) r x"
  proof (cases "r \<le> 25 \<and> x < 80")
    case True
    let ?n = "2 * (r * 80 + x)"
    have n: "?n < 4160" "?n + 1 < 4160" using True by auto
    show ?thesis
    proof (cases "r < 25")
      case up: True
      then have lt: "?n < 4000" "?n + 1 < 4000" using True by auto
      have "load16 ?m' (cell_address r x) = load16 ?m (cell_address (r + 1) x)"
        unfolding cell load16_of_nat using byte [OF n(1)] byte [OF n(2)] lt
        by (simp add: algebra_simps)
      with True up show ?thesis by (simp add: grid_of_def scroll_grid_def)
    next
      case False
      then have r: "r = 25" using True by simp
      have "load16 ?m' (cell_address r x) = blank"
        unfolding cell load16_of_nat using byte [OF n(1)] byte [OF n(2)] r
        by (simp add: word_byte_def two_bytes add.assoc)
      with True r show ?thesis by (simp add: grid_of_def scroll_grid_def)
    qed
  next
    case False
    then show ?thesis by (auto simp: grid_of_def scroll_grid_def)
  qed
qed


text \<open>Everything that is not the terminal's.\<close>

definition other_bytes :: "nat set" where
  "other_bytes = {..<4294967296} - video_bytes"

lemma scroll_frame:
  assumes "s_VideoAddress c = VGA_VIDEO_ADDRESS" and "s_Row c = 25"
  shows "same_bytes other_bytes (con_bytes c) (con_bytes (VGA_ScrollDown c))"
  unfolding same_bytes_def
proof
  fix x assume x: "x \<in> other_bytes"
  have v: "unat VGA_VIDEO_ADDRESS = 0xB8000" "unat (VGA_VIDEO_ADDRESS + 4000) = 0xB8000 + 4000"
    by (simp_all add: VGA_VIDEO_ADDRESS_def)
  have "\<not> unat (of_nat x - VGA_VIDEO_ADDRESS) < 4000"
    using x offset_in_block [of x VGA_VIDEO_ADDRESS 4000] v by (auto simp: other_bytes_def video_bytes_def)
  moreover have "\<not> unat (of_nat x - (VGA_VIDEO_ADDRESS + 4000)) < 8000"
    using x offset_in_block [of x "VGA_VIDEO_ADDRESS + 4000" 8000] v by (auto simp: other_bytes_def video_bytes_def)
  ultimately show "con_bytes (VGA_ScrollDown c) (of_nat x) = con_bytes c (of_nat x)"
    unfolding scroll_memory [OF assms] by simp
qed

lemma cell_frame:
  assumes "r \<le> 25" and "x < 80"
  shows "same_bytes other_bytes m (store16 (cell_address r x) v m)"
  unfolding same_bytes_def
proof
  fix y assume y: "y \<in> other_bytes"
  have b: "2 * (r * 80 + x) + 1 < 12000" using assms by auto
  have a: "unat (cell_address r x) = 0xB8000 + 2 * (r * 80 + x)" by (rule cell_address_unat [OF assms])
  then have a1: "unat (cell_address r x + 1) = 0xB8000 + 2 * (r * 80 + x) + 1"
    using b by (simp add: unat_add_no_wrap)
  have "unat (of_nat y :: u32) = y" using y by (simp add: other_bytes_def unat_of_nat32)
  then have "of_nat y \<noteq> cell_address r x" "of_nat y \<noteq> cell_address r x + 1"
    using y a a1 b by (auto simp: other_bytes_def video_bytes_def)
  then show "store16 (cell_address r x) v m (of_nat y) = m (of_nat y)" by (simp add: store16_def)
qed

lemma SetCursor_frame [frame_simps]:
  "s_VideoAddress (VGA_SetCursor d w c) = s_VideoAddress c" "s_Col (VGA_SetCursor d w c) = s_Col c"
  "s_Row (VGA_SetCursor d w c) = s_Row c" "s_Color (VGA_SetCursor d w c) = s_Color c"
  "con_bytes (VGA_SetCursor d w c) = con_bytes c"
  "s_CtrlAddressRegister (VGA_SetCursor d w c) = s_CtrlAddressRegister c"
  "s_CtrlDataRegister (VGA_SetCursor d w c) = s_CtrlDataRegister c"
  by (simp_all add: VGA_SetCursor_def split_beta Let_def)

lemma ScrollDown_frame [frame_simps]:
  "s_VideoAddress (VGA_ScrollDown c) = s_VideoAddress c" "s_Col (VGA_ScrollDown c) = s_Col c"
  "s_Row (VGA_ScrollDown c) = s_Row c - 1" "s_Color (VGA_ScrollDown c) = s_Color c"
  by (simp_all add: VGA_ScrollDown_def Let_def)

text \<open>One character, after any scrolling: the row is on the screen.\<close>

lemma WriteChar_visible:
  assumes wf: "console_wf c" and row: "unat (s_Row c) < 25" and ch: "ch \<noteq> 0"
  shows "terminal_of (VGA_WriteCharColor d ch color c) = terminal_char color ch (terminal_of c)"
    and "console_wf (VGA_WriteCharColor d ch color c)"
    and "same_bytes other_bytes (con_bytes c) (con_bytes (VGA_WriteCharColor d ch color c))"
proof -
  let ?row = "unat (s_Row c)" and ?col = "unat (s_Col c)"
  have low: "\<not> s_Row c \<ge> VGA_HEIGHT" using row by (simp add: VGA_HEIGHT_def word_le_nat_alt)
  have V: "s_VideoAddress c = VGA_VIDEO_ADDRESS" and col: "?col < 80" using wf by (auto simp: console_wf_def)
  have row1: "unat (s_Row c + 1) = ?row + 1"
    using row by (subst unat_word_ariths) (simp add: mod_less)
  have col1: "unat (s_Col c + 1) = ?col + 1"
    using col by (subst unat_word_ariths) (simp add: mod_less)
  have wrap: "VGA_WIDTH \<le> ucast (s_Col c + 1) \<longleftrightarrow> \<not> ?col + 1 < 80"
  proof -
    have "unat (ucast (s_Col c + 1) :: u32) = ?col + 1"
      using col1 col by (simp add: unsigned_ucast_eq take_bit_nat_eq_self)
    then show ?thesis by (simp add: VGA_WIDTH_def word_le_nat_alt not_less)
  qed
  let ?v = "VGA_TEXT_ENCODE ch (VGAColor_value color)"
  have put: "con_bytes (VGA_WriteCharLocation (s_Col c) (s_Row c) ch color c) =
      store16 (cell_address ?row ?col) ?v (con_bytes c)"
    unfolding VGA_WriteCharLocation_def V cell_address_code [OF col less_imp_le [OF row]] by simp
  have grid: "grid_of (store16 (cell_address ?row ?col) ?v (con_bytes c)) = put_cell ?row ?col ?v (grid_of (con_bytes c))"
    using row col by (intro grid_put) simp_all
  have others: "s_VideoAddress (VGA_WriteCharLocation x y ch color c) = s_VideoAddress c"
    "s_Col (VGA_WriteCharLocation x y ch color c) = s_Col c"
    "s_Row (VGA_WriteCharLocation x y ch color c) = s_Row c" for x y
    by (simp_all add: VGA_WriteCharLocation_def)
  show "terminal_of (VGA_WriteCharColor d ch color c) = terminal_char color ch (terminal_of c)"
    using ch low row row1 col1
    by (simp add: VGA_WriteCharColor_def terminal_of_def terminal_char_def frame_simps Let_def wrap others put grid)
  show "console_wf (VGA_WriteCharColor d ch color c)"
    using ch low row row1 col1 wf col
    by (simp add: VGA_WriteCharColor_def console_wf_def frame_simps Let_def wrap others)
  have "same_bytes other_bytes (con_bytes c) (store16 (cell_address ?row ?col) ?v (con_bytes c))"
    using row col by (intro cell_frame) simp_all
  then show "same_bytes other_bytes (con_bytes c) (con_bytes (VGA_WriteCharColor d ch color c))"
    using ch low by (simp add: VGA_WriteCharColor_def frame_simps Let_def wrap put)
qed

lemma WriteCharColor_terminal:
  assumes wf: "console_wf c"
  shows "terminal_of (VGA_WriteCharColor d ch color c) = terminal_char color ch (terminal_of c)"
    and "console_wf (VGA_WriteCharColor d ch color c)"
    and "same_bytes other_bytes (con_bytes c) (con_bytes (VGA_WriteCharColor d ch color c))"
    and "s_Color (VGA_WriteCharColor d ch color c) = s_Color c"
proof -
  show "s_Color (VGA_WriteCharColor d ch color c) = s_Color c"
    by (simp add: VGA_WriteCharColor_def frame_simps VGA_WriteCharLocation_def Let_def)
  have "terminal_of (VGA_WriteCharColor d ch color c) = terminal_char color ch (terminal_of c) \<and>
    console_wf (VGA_WriteCharColor d ch color c) \<and>
    same_bytes other_bytes (con_bytes c) (con_bytes (VGA_WriteCharColor d ch color c))"
  proof (cases "ch = 0 \<or> unat (s_Row c) < 25")
    case True
    then show ?thesis
      using WriteChar_visible [OF wf] wf
      by (cases "ch = 0") (simp_all add: VGA_WriteCharColor_def terminal_char_def terminal_of_def)
  next
    case False
    then have row: "unat (s_Row c) = 25" and ch: "ch \<noteq> 0" using wf by (auto simp: console_wf_def)
    then have row': "s_Row c = 25" by (simp add: word_unat_eq_iff)
    have V: "s_VideoAddress c = VGA_VIDEO_ADDRESS" using wf by (simp add: console_wf_def)
    let ?c = "VGA_ScrollDown c"
    have up: "unat (s_Row ?c) = 24" using row' by (simp add: frame_simps)
    then have wf': "console_wf ?c" using wf by (simp add: console_wf_def frame_simps)
    have scrolled: "VGA_WriteCharColor d ch color c = VGA_WriteCharColor d ch color ?c"
      using ch row' up by (simp add: VGA_WriteCharColor_def VGA_HEIGHT_def word_le_nat_alt frame_simps)
    have "terminal_char color ch (terminal_of ?c) = terminal_char color ch (terminal_of c)"
      using ch row up scroll_grid_of [OF V row'] by (simp add: terminal_char_def terminal_of_def frame_simps)
    then show ?thesis
      using WriteChar_visible [OF wf' _ ch, of d color] up scroll_frame [OF V row'] same_bytes_trans
      unfolding scrolled by auto
  qed
  then show "terminal_of (VGA_WriteCharColor d ch color c) = terminal_char color ch (terminal_of c)"
    and "console_wf (VGA_WriteCharColor d ch color c)"
    and "same_bytes other_bytes (con_bytes c) (con_bytes (VGA_WriteCharColor d ch color c))"
    by blast+
qed


section \<open>Strings on the terminal\<close>

definition terminal_string :: "VGAColor \<Rightarrow> u8 list \<Rightarrow> terminal \<Rightarrow> terminal" where
  "terminal_string color s = fold (terminal_char color) s"

lemma WriteStr_loop_terminal:
  assumes "console_wf c" and "c_string (con_bytes c) str s" and "string_bytes str s \<subseteq> other_bytes"
    and "i \<le> length s"
  shows "\<exists>c'. WriteStr_loop d str (of_nat i) c = Some c' \<and>
    terminal_of c' = terminal_string (s_Color c) (drop i s) (terminal_of c) \<and> console_wf c' \<and>
    same_bytes other_bytes (con_bytes c) (con_bytes c') \<and> s_Color c' = s_Color c"
  using assms
proof (induction "length s - i" arbitrary: i c)
  case 0
  have "unat str + length s \<in> string_bytes str s" by (simp add: string_bytes_def)
  with 0 have "i = length s" by simp
  moreover have "Strlen (con_bytes c) str = Some (of_nat (length s))" using Strlen_eq 0 by blast
  ultimately show ?case using 0 by (subst WriteStr_loop.simps) (simp add: terminal_string_def)
next
  case (Suc n)
  then have i: "i < length s" by simp
  have len: "length s < 4294967296"
  proof -
    have "unat str + length s \<in> other_bytes" using Suc.prems(3) by (auto simp: string_bytes_def)
    then show ?thesis by (simp add: other_bytes_def)
  qed
  then have lt: "(of_nat i :: u32) < of_nat (length s)" using i by (simp add: word_less_nat_alt unat_of_nat32)
  have ch: "con_bytes c (str + of_nat i) = s ! i" using Suc.prems(2) i by (simp add: c_string_iff)
  let ?c = "VGA_WriteChar d (s ! i) c"
  note W = WriteCharColor_terminal [OF Suc.prems(1), of d "s ! i" "s_Color c", folded VGA_WriteChar_def]
  have "c_string (con_bytes ?c) str s"
    by (rule c_string_same [OF Suc.prems(2) same_bytes_mono [OF W(3) Suc.prems(3)]])
  moreover have "n = length s - Suc i" "Suc i \<le> length s" using Suc.hyps(2) i by auto
  ultimately obtain c' where C: "WriteStr_loop d str (of_nat (Suc i)) ?c = Some c'"
    "terminal_of c' = terminal_string (s_Color ?c) (drop (Suc i) s) (terminal_of ?c)" "console_wf c'"
    "same_bytes other_bytes (con_bytes ?c) (con_bytes c')" "s_Color c' = s_Color ?c"
    using Suc.hyps(1) [of "Suc i" ?c] W(2) Suc.prems(3) by blast
  have "WriteStr_loop d str (of_nat i) c = Some c'"
    using C(1) lt ch Strlen_eq [OF Suc.prems(2)]
    by (subst WriteStr_loop.simps) (simp add: add.commute)
  moreover have "terminal_string (s_Color c) (drop i s) (terminal_of c) = terminal_of c'"
    using i C(2) W(1,4) by (simp add: terminal_string_def Cons_nth_drop_Suc [symmetric])
  ultimately show ?case using C(3-5) W(3,4) same_bytes_trans by metis
qed

lemma WriteStr_terminal:
  assumes "console_wf c" and "c_string (con_bytes c) str s" and "string_bytes str s \<subseteq> other_bytes"
  obtains c' where "VGA_WriteStr d str c = Some c'"
    and "terminal_of c' = terminal_string (s_Color c) s (terminal_of c)" and "console_wf c'"
    and "same_bytes other_bytes (con_bytes c) (con_bytes c')" and "s_Color c' = s_Color c"
  using WriteStr_loop_terminal [OF assms, of 0 d] by (auto simp: VGA_WriteStr_def)

section \<open>The cursor\<close>

text \<open>
  A display controller: the data port reads what was last written to it while the same register was
  selected at the index port.
\<close>

primrec crtc_register :: "u16 \<Rightarrow> u16 \<Rightarrow> u8 \<Rightarrow> port_trace \<Rightarrow> u8" where
  "crtc_register a p r [] = 0"
| "crtc_register a p r (e # t) = (case e of
     Out8 q v \<Rightarrow> if q = p \<and> last_out8 a t = r then v else crtc_register a p r t
   | _ \<Rightarrow> crtc_register a p r t)"

definition crtc :: "device \<Rightarrow> u16 \<Rightarrow> u16 \<Rightarrow> bool" where
  "crtc d a p \<longleftrightarrow> a \<noteq> p \<and> (\<forall>t. dev_in8 d t p = crtc_register a p (last_out8 a t) t)"

lemma crtc_register_io [simp]:
  "crtc_register a p r (snd (INSB d q t)) = crtc_register a p r t"
  "crtc_register a p r (OUTB q v t) =
    (if q = p \<and> last_out8 a t = r then v else crtc_register a p r t)"
  by (simp_all add: INSB_def OUTB_def Let_def)

lemma crtc_read: "crtc d a p \<Longrightarrow> fst (INSB d p t) = crtc_register a p (last_out8 a t) t"
  by (simp add: crtc_def INSB_def Let_def)

lemma low_byte: "ucast (w AND 0xFF :: u16) = (ucast w :: u8)"
proof (rule bit_word_eqI)
  have m: "(0xFF :: u16) = mask 8" by (simp add: mask_eq_exp_minus_1)
  fix n assume "n < LENGTH(8)"
  then show "bit (ucast (w AND 0xFF) :: u8) n = bit (ucast w :: u8) n"
    unfolding m by (auto simp: bit_simps)
qed

lemma GetCursor_eq:
  assumes "crtc d (s_CtrlAddressRegister c) (s_CtrlDataRegister c)"
  shows "fst (VGA_GetCursor d c) =
    ucast (crtc_register (s_CtrlAddressRegister c) (s_CtrlDataRegister c) 0x0F (con_ports c)) OR
    push_bit 8 (ucast (crtc_register (s_CtrlAddressRegister c) (s_CtrlDataRegister c) 0x0E (con_ports c)))"
  using assms crtc_read [OF assms] by (simp add: VGA_GetCursor_def split_beta Let_def crtc_def)

lemma SetCursor_registers:
  assumes "s_CtrlAddressRegister c \<noteq> s_CtrlDataRegister c"
  shows "crtc_register (s_CtrlAddressRegister c) (s_CtrlDataRegister c) 0x0F (con_ports (VGA_SetCursor d w c)) =
      ucast w"
    and "crtc_register (s_CtrlAddressRegister c) (s_CtrlDataRegister c) 0x0E (con_ports (VGA_SetCursor d w c)) =
      ucast (drop_bit 8 w)"
  using assms
  by (simp_all add: VGA_SetCursor_def split_beta Let_def low_byte)

lemma GetCursor_after_SetCursor:
  assumes "crtc d (s_CtrlAddressRegister c) (s_CtrlDataRegister c)"
  shows "fst (VGA_GetCursor d (VGA_SetCursor d w c)) = w"
proof -
  have "s_CtrlAddressRegister c \<noteq> s_CtrlDataRegister c" using assms by (simp add: crtc_def)
  then show ?thesis
    using GetCursor_eq [of d "VGA_SetCursor d w c"] SetCursor_registers [of c d w] assms
    by (simp add: frame_simps two_bytes)
qed


section \<open>Clearing and initialisation\<close>

text \<open>A console in which the first \<open>n\<close> cells, row by row, are blanks of a color.\<close>

definition cleared :: "VGAColor \<Rightarrow> nat \<Rightarrow> grid \<Rightarrow> grid" where
  "cleared color n g = (\<lambda>r x. if r \<le> 25 \<and> x < 80 \<and> 80 * r + x < n
     then VGA_TEXT_ENCODE 0x20 (VGAColor_value color) else g r x)"

lemma cleared_step:
  "r < 25 \<Longrightarrow> x < 80 \<Longrightarrow>
    put_cell r x (VGA_TEXT_ENCODE 0x20 (VGAColor_value color)) (cleared color (80 * r + x) g) =
    cleared color (80 * r + x + 1) g"
proof (intro ext)
  fix r' x' assume b: "r < 25" "x < 80"
  have "80 * r' + x' < 80 * r + x + 1 \<longleftrightarrow> 80 * r' + x' < 80 * r + x \<or> r' = r \<and> x' = x"
    if "x' < 80" using that b by (cases r r' rule: linorder_cases) auto
  with b show "put_cell r x (VGA_TEXT_ENCODE 0x20 (VGAColor_value color)) (cleared color (80 * r + x) g) r' x' =
      cleared color (80 * r + x + 1) g r' x'"
    by (auto simp: put_cell_def cleared_def)
qed

text \<open>What clearing keeps of a console.\<close>

definition same_statics :: "console \<Rightarrow> console \<Rightarrow> bool" where
  "same_statics c c' \<longleftrightarrow> s_VideoAddress c' = s_VideoAddress c \<and> s_Col c' = s_Col c \<and> s_Row c' = s_Row c \<and>
     s_Color c' = s_Color c \<and> s_CtrlAddressRegister c' = s_CtrlAddressRegister c \<and>
     s_CtrlDataRegister c' = s_CtrlDataRegister c"

text \<open>The console \<open>k\<close> is \<open>c\<close> with its first \<open>n\<close> cells cleared; one cell more, and a row more.\<close>

definition cleared_upto :: "console \<Rightarrow> nat \<Rightarrow> console \<Rightarrow> bool" where
  "cleared_upto c n k \<longleftrightarrow> s_VideoAddress c = VGA_VIDEO_ADDRESS \<and>
     grid_of (con_bytes k) = cleared (s_Color c) n (grid_of (con_bytes c)) \<and> same_statics c k"

lemma clear_cell:
  assumes "cleared_upto c (80 * r + x) k" and "r < 25" and "x < 80"
  shows "cleared_upto c (80 * r + x + 1) (VGA_WriteCharLocation (of_nat x) (of_nat r) 0x20 (s_Color k) k)"
proof -
  have k: "s_VideoAddress k = VGA_VIDEO_ADDRESS" "s_Color k = s_Color c" "same_statics c k" "s_VideoAddress c = VGA_VIDEO_ADDRESS"
    and g: "grid_of (con_bytes k) = cleared (s_Color c) (80 * r + x) (grid_of (con_bytes c))"
    using assms(1) by (auto simp: cleared_upto_def same_statics_def)
  have n: "unat (of_nat r :: u16) = r" "unat (of_nat x :: u16) = x"
    using assms(2,3) by (simp_all add: unat_of_nat)
  have "con_bytes (VGA_WriteCharLocation (of_nat x) (of_nat r) 0x20 (s_Color k) k) =
      store16 (cell_address r x) (VGA_TEXT_ENCODE 0x20 (VGAColor_value (s_Color c))) (con_bytes k)"
    using cell_address_code [of "of_nat x" "of_nat r"] assms(2,3)
    unfolding VGA_WriteCharLocation_def k n by simp
  then have "grid_of (con_bytes (VGA_WriteCharLocation (of_nat x) (of_nat r) 0x20 (s_Color k) k)) =
      cleared (s_Color c) (80 * r + x + 1) (grid_of (con_bytes c))"
    using grid_put [of r x] cleared_step [OF assms(2,3)] assms(2,3) g by simp
  then show ?thesis using k(3,4) by (simp add: cleared_upto_def same_statics_def VGA_WriteCharLocation_def)
qed

lemma clear_row:
  assumes r: "cleared_upto c (80 * r) k" "r < 25"
  shows "cleared_upto c (80 * (r + 1))
    (for_range 0 VGA_WIDTH (\<lambda>x c. VGA_WriteCharLocation (ucast x) (ucast (of_nat r :: u32)) 0x20 (s_Color c) c) k)"
proof -
  let ?f = "\<lambda>x c. VGA_WriteCharLocation (ucast x) (ucast (of_nat r :: u32)) 0x20 (s_Color c) c"
  have rr: "ucast (of_nat r :: u32) = (of_nat r :: u16)" using r(2) by (simp add: unsigned_of_nat take_bit_nat_eq_self)
  have "cleared_upto c (80 * r + unat VGA_WIDTH) (for_range 0 VGA_WIDTH ?f k)"
  proof (rule for_range_invariant [where P = "\<lambda>x. cleared_upto c (80 * r + unat x)"])
    show "cleared_upto c (80 * r + unat 0) k" using r(1) by simp
    fix x :: u32 and k' assume x: "x < VGA_WIDTH" and I: "cleared_upto c (80 * r + unat x) k'"
    have "unat x < 80" using x by (simp add: VGA_WIDTH_def word_less_nat_alt)
    moreover have "ucast x = (of_nat (unat x) :: u16)" by simp
    ultimately show "cleared_upto c (80 * r + unat (x + 1)) (?f x k')"
      using clear_cell [OF I r(2)] rr unat_inc [OF x] by simp
  qed simp
  moreover have "unat VGA_WIDTH = 80" by (simp add: VGA_WIDTH_def)
  ultimately show ?thesis by (simp add: add.commute)
qed

lemma ClearScreen_cells:
  assumes V: "s_VideoAddress c = VGA_VIDEO_ADDRESS"
  defines "c' \<equiv> for_range 0 (ucast VGA_HEIGHT) (\<lambda>y. for_range 0 VGA_WIDTH (\<lambda>x c.
          VGA_WriteCharLocation (ucast x) (ucast y) 0x20 (s_Color c) c)) c"
  shows "grid_of (con_bytes c') = cleared (s_Color c) 2000 (grid_of (con_bytes c)) \<and> same_statics c c'"
proof -
  have "cleared_upto c (80 * unat (ucast VGA_HEIGHT :: u32)) c'"
    unfolding c'_def
  proof (rule for_range_invariant [where P = "\<lambda>y. cleared_upto c (80 * unat y)"])
    show "cleared_upto c (80 * unat 0) c" using V by (simp add: cleared_upto_def cleared_def same_statics_def)
    fix y :: u32 and k assume y: "y < ucast VGA_HEIGHT" and I: "cleared_upto c (80 * unat y) k"
    have "unat y < 25" using y by (simp add: VGA_HEIGHT_def word_less_nat_alt)
    then show "cleared_upto c (80 * unat (y + 1)) (for_range 0 VGA_WIDTH (\<lambda>x c.
        VGA_WriteCharLocation (ucast x) (ucast y) 0x20 (s_Color c) c) k)"
      using clear_row [OF I] unat_inc [OF y] by simp
  qed simp
  then show ?thesis by (simp add: cleared_upto_def VGA_HEIGHT_def)
qed
lemma ClearScreen_terminal:
  assumes "console_wf c"
  shows "terminal_of (VGA_ClearScreen d c) =
      (cleared (s_Color c) 2000 (grid_of (con_bytes c)), unat (s_Col c), unat (s_Row c))"
    and "console_wf (VGA_ClearScreen d c)"
  using ClearScreen_cells [of c] assms
  by (simp_all add: VGA_ClearScreen_def terminal_of_def frame_simps same_statics_def console_wf_def)

lemma cursor_frame [frame_simps]:
  "con_bytes (VGA_EnableCursor d c) = con_bytes c" "s_VideoAddress (VGA_EnableCursor d c) = s_VideoAddress c"
  "s_Col (VGA_EnableCursor d c) = s_Col c" "s_Row (VGA_EnableCursor d c) = s_Row c"
  "s_Color (VGA_EnableCursor d c) = s_Color c"
  "con_bytes (VGA_DisableCursor d c) = con_bytes c" "s_VideoAddress (VGA_DisableCursor d c) = s_VideoAddress c"
  "s_Col (VGA_DisableCursor d c) = s_Col c" "s_Row (VGA_DisableCursor d c) = s_Row c"
  "s_Color (VGA_DisableCursor d c) = s_Color c"
  by (simp_all add: VGA_EnableCursor_def VGA_DisableCursor_def split_beta Let_def)

lemma Init_terminal:
  assumes "c_string (con_bytes c) msg s" and "string_bytes msg s \<subseteq> other_bytes"
  obtains c' where "VGA_Init d msg c = Some (0, c')" and "console_wf c'"
    and "terminal_of c' = terminal_string LightBrown s (grid_of (con_bytes c), 0, 0)"
    and "same_bytes other_bytes (con_bytes c) (con_bytes c')" and "s_Color c' = LightBrown"
proof -
  define c4 where "c4 = (let c1 = c\<lparr>s_VideoAddress := VGA_VIDEO_ADDRESS, s_Col := 0, s_Row := 0, s_Color := LightBrown\<rparr>;
          (v, t) = INSB d 0x3CC (con_ports c1); IOAS = drop_bit 0 v AND 1; c2 = c1\<lparr>con_ports := t\<rparr>;
          c3 = (if IOAS = 0 then c2\<lparr>s_CtrlAddressRegister := 0x3B4, s_CtrlDataRegister := 0x3B5\<rparr> else c2)
      in VGA_EnableCursor d (VGA_DisableCursor d c3))"
  have c4: "con_bytes c4 = con_bytes c" "s_VideoAddress c4 = VGA_VIDEO_ADDRESS" "s_Col c4 = 0" "s_Row c4 = 0"
    "s_Color c4 = LightBrown"
    by (simp_all add: c4_def split_beta Let_def frame_simps)
  then have wf: "console_wf c4" by (simp add: console_wf_def)
  obtain c' where C: "VGA_WriteStr d msg c4 = Some c'"
    "terminal_of c' = terminal_string (s_Color c4) s (terminal_of c4)" "console_wf c'"
    "same_bytes other_bytes (con_bytes c4) (con_bytes c')" "s_Color c' = s_Color c4"
    by (rule WriteStr_terminal [OF wf]) (use assms c4 in auto)
  have "VGA_Init d msg c = Some (0, c')"
    using C(1) by (simp add: VGA_Init_def c4_def split_beta Let_def)
  with C show ?thesis by (intro that) (simp_all add: c4 terminal_of_def)
qed


section \<open>Properties\<close>

text \<open>
  A console at the standard place in a memory with strings, and a machine whose display controller is
  the one described above.
\<close>

definition console_0 :: console where
  "console_0 = \<lparr>s_VideoAddress = VGA_VIDEO_ADDRESS, s_Col = 0, s_Row = 0, s_Color = LightBrown,
     s_CtrlAddressRegister = 0x3D4, s_CtrlDataRegister = 0x3D5, con_bytes = text_memory, con_ports = []\<rparr>"

definition crtc_device :: device where
  "crtc_device = \<lparr>dev_in8 = (\<lambda>t q. if q = 0x3D5 then crtc_register 0x3D4 0x3D5 (last_out8 0x3D4 t) t else 1),
     dev_in16 = (\<lambda>t q. 0), dev_in32 = (\<lambda>t q. 0)\<rparr>"

lemma console_0_wf: "console_wf console_0"
  by (simp add: console_wf_def console_0_def)

lemma text_memory_other: "length s < 4096 \<Longrightarrow> string_bytes 0x1000 s \<subseteq> other_bytes"
  by (auto simp: string_bytes_def other_bytes_def video_bytes_def)

text \<open>
  C25: \<^verbatim>\<open>WriteStr\<close> of a terminated string outside the screen's memory returns, and refines writing its
  characters one by one to a terminal of 25 rows and 80 columns that wraps lines, scrolls when the next
  row is below the screen and ignores nothing but the terminator. No byte outside the screen's memory
  changes.
\<close>

theorem vga_writestr_refines_terminal:
  assumes "console_wf c" and "c_string (con_bytes c) str s" and "string_bytes str s \<subseteq> other_bytes"
  shows "\<exists>c'. VGA_WriteStr d str c = Some c' \<and> console_wf c' \<and>
    terminal_of c' = terminal_string (s_Color c) s (terminal_of c) \<and>
    same_bytes other_bytes (con_bytes c) (con_bytes c')"
  using WriteStr_terminal [OF assms] by metis

theorem vga_writestr_refines_terminal_witness:
  "\<exists>c'. VGA_WriteStr crtc_device 0x1000 console_0 = Some c' \<and>
     terminal_of c' = terminal_string LightBrown [0x2C, 0x61, 0x62, 0x2C, 0x63] (terminal_of console_0)"
  using vga_writestr_refines_terminal [OF console_0_wf, of "0x1000" "[0x2C, 0x61, 0x62, 0x2C, 0x63]" crtc_device]
    text_memory_strings text_memory_other by (auto simp: console_0_def)

text \<open>
  When the position is below the last row, \<^verbatim>\<open>ScrollDown\<close> moves every row up and puts the position on
  the last row. What appears there is the memory below the screen, which the function blanks only after
  it has copied it: the first scroll shows whatever that memory held. The 8000 bytes below the screen are
  blanked, twice the screen, because the word count is a byte count.
\<close>

theorem vga_scroll_shows_memory_below:
  assumes "console_wf c" and "s_Row c = 25"
  shows "grid_of (con_bytes (VGA_ScrollDown c)) = scroll_grid (grid_of (con_bytes c)) \<and>
    console_wf (VGA_ScrollDown c) \<and>
    (\<forall>x<80. grid_of (con_bytes (VGA_ScrollDown c)) 24 x = grid_of (con_bytes c) 25 x) \<and>
    (\<forall>k<8000. con_bytes (VGA_ScrollDown c) (VGA_VIDEO_ADDRESS + 4000 + of_nat k) = word_byte (\<lambda>_. blank) k)"
proof -
  have V: "s_VideoAddress c = VGA_VIDEO_ADDRESS" using assms(1) by (simp add: console_wf_def)
  note G = scroll_grid_of [OF V assms(2)]
  have "console_wf (VGA_ScrollDown c)" using assms by (simp add: console_wf_def frame_simps)
  moreover have "grid_of (con_bytes (VGA_ScrollDown c)) 24 x = grid_of (con_bytes c) 25 x" for x
    unfolding G by (simp add: scroll_grid_def)
  moreover have "con_bytes (VGA_ScrollDown c) (VGA_VIDEO_ADDRESS + 4000 + of_nat k) = word_byte (\<lambda>_. blank) k"
    if "k < 8000" for k
  proof -
    have "unat (VGA_VIDEO_ADDRESS + 4000 + of_nat k - (VGA_VIDEO_ADDRESS + 4000)) = k"
      using that by (simp add: unat_of_nat32)
    with that show ?thesis unfolding scroll_memory [OF V assms(2)] by simp
  qed
  ultimately show ?thesis using G by blast
qed

theorem vga_scroll_shows_memory_below_witness:
  "grid_of (con_bytes (VGA_ScrollDown (console_0\<lparr>s_Row := 25, con_bytes := (\<lambda>_. 0)(0xB8FA0 := 0x21)\<rparr>))) 24 0 = 0x21"
proof -
  let ?c = "console_0\<lparr>s_Row := 25, con_bytes := (\<lambda>_. 0)(0xB8FA0 := 0x21)\<rparr>"
  have "console_wf ?c" by (simp add: console_wf_def console_0_def)
  with vga_scroll_shows_memory_below [of ?c]
  have "grid_of (con_bytes (VGA_ScrollDown ?c)) 24 0 = grid_of (con_bytes ?c) 25 0" by auto
  also have "\<dots> = 0x21"
    by (simp add: grid_of_def cell_address_def VGA_VIDEO_ADDRESS_def load16_def)
  finally show ?thesis .
qed

text \<open>
  With a display controller that keeps its registers, \<^verbatim>\<open>GetCursor\<close> reads back what \<^verbatim>\<open>SetCursor\<close> wrote,
  and after a printable character the cursor is at the position where the next one goes.
\<close>

theorem vga_cursor_follows_text:
  assumes "crtc d (s_CtrlAddressRegister c) (s_CtrlDataRegister c)" and "ch \<noteq> 0" and "ch \<noteq> 0x0A"
  shows "fst (VGA_GetCursor d (VGA_SetCursor d w c)) = w \<and>
    (let c' = VGA_WriteChar d ch c in fst (VGA_GetCursor d c') = s_Row c' * 80 + s_Col c')"
proof -
  define c1 where "c1 = (if s_Row c \<ge> VGA_HEIGHT then VGA_ScrollDown c else c)"
  have ctrl1: "s_CtrlAddressRegister c1 = s_CtrlAddressRegister c" "s_CtrlDataRegister c1 = s_CtrlDataRegister c"
    by (simp_all add: c1_def VGA_ScrollDown_def Let_def)
  obtain c4 where c4: "VGA_WriteChar d ch c = VGA_SetCursor d (ucast (VGA_GET_TEXT_OFFSET (s_Col c4) (s_Row c4))) c4"
    "s_CtrlAddressRegister c4 = s_CtrlAddressRegister c" "s_CtrlDataRegister c4 = s_CtrlDataRegister c"
    using assms(2,3) ctrl1 by (auto simp: VGA_WriteChar_def VGA_WriteCharColor_def Let_def c1_def [symmetric] VGA_WriteCharLocation_def)
  have "ucast (VGA_GET_TEXT_OFFSET col row) = row * 80 + col" for col row
  proof -
    have c: "(ucast w :: u32) = of_nat (unat w)" for w :: u16 by simp
    have e: "(of_nat (unat row) * 80 + of_nat (unat col) :: u32) = of_nat (unat row * 80 + unat col)" by simp
    have "(ucast (of_nat n :: u32) :: u16) = of_nat n" for n
      by (simp add: word_unat_eq_iff unsigned_of_nat unsigned_ucast_eq)
    then have "(ucast (VGA_GET_TEXT_OFFSET col row) :: u16) = of_nat (unat row * 80 + unat col)"
      unfolding VGA_GET_TEXT_OFFSET_def VGA_WIDTH_def c e by blast
    then show ?thesis by simp
  qed
  then show ?thesis
    using GetCursor_after_SetCursor [of d c] GetCursor_after_SetCursor [of d c4] assms(1) c4
    by (simp add: Let_def frame_simps)
qed

theorem vga_cursor_follows_text_witness:
  "fst (VGA_GetCursor crtc_device (VGA_WriteChar crtc_device 0x41 (console_0\<lparr>s_Row := 3, s_Col := 7\<rparr>))) = 248"
proof -
  let ?c = "console_0\<lparr>s_Row := 3, s_Col := 7\<rparr>"
  have "crtc crtc_device (s_CtrlAddressRegister ?c) (s_CtrlDataRegister ?c)"
    by (simp add: crtc_def crtc_device_def console_0_def)
  moreover have "s_Row (VGA_WriteChar crtc_device 0x41 ?c) = 3" "s_Col (VGA_WriteChar crtc_device 0x41 ?c) = 8"
    by (simp_all add: VGA_WriteChar_def VGA_WriteCharColor_def VGA_WriteCharLocation_def frame_simps console_0_def
        VGA_HEIGHT_def VGA_WIDTH_def Let_def)
  ultimately show ?thesis using vga_cursor_follows_text [of crtc_device ?c "0x41"] by (simp add: Let_def)
qed

end
