(* ===== verification/TypeConverter.thy ===== *)
theory TypeConverter
  imports CString
begin

text \<open>
  \<^verbatim>\<open>Kernel/ESTD/TypeConverter.{h,cpp}\<close>: printing a number into a buffer. Words stand for \<^verbatim>\<open>int32_t\<close>; the
  operands of \<^verbatim>\<open>num % base\<close> and \<^verbatim>\<open>num /= base\<close> are converted to \<^verbatim>\<open>uint32_t\<close>, the comparisons of \<^verbatim>\<open>num\<close> and
  \<^verbatim>\<open>rem\<close> are signed. \<open>None\<close> is the division by a base of 0.
\<close>

section \<open>Operations\<close>

definition IntToStr_digit :: "u32 \<Rightarrow> u8" where
  "IntToStr_digit rem = (if sint rem > 9 then ucast (rem - 10 + 0x41) else ucast (rem + 0x30))"

function IntToStr_loop :: "u32 \<Rightarrow> u32 \<Rightarrow> u32 \<Rightarrow> u32 \<Rightarrow> u32 \<Rightarrow> mem \<Rightarrow> u32 \<times> mem" where
  "IntToStr_loop buf n base i num m =
     (if num \<noteq> 0 \<and> i < n
      then IntToStr_loop buf n base (i + 1) (num div base) (m(buf + i := IntToStr_digit (num mod base)))
      else (i, m))"
  by pat_completeness auto
termination
  by (relation "measure (\<lambda>(buf, n, base, i, num, m). unat n - unat i)") (auto simp: unat_inc word_less_nat_alt)

declare IntToStr_loop.simps [simp del]

definition IntToStr :: "u32 \<Rightarrow> u32 \<Rightarrow> u32 \<Rightarrow> u32 \<Rightarrow> mem \<Rightarrow> (int \<times> mem) option" where
  "IntToStr num buf n base m =
     (if n = 0 then Some (- 1, m)
      else if num = 0 then Some (0, m(buf := 0x30, buf + 1 := 0))
      else let neg = sint num < 0 \<and> base = 10;
               num1 = (if neg then - num else num)
           in if base = 0 then None
              else let (i, m1) = IntToStr_loop buf n base 0 num1 m;
                       m2 = (if neg then m1(buf + i := 0x2D) else m1);
                       i2 = (if neg then i + 1 else i)
                   in Some (0, Strrev buf i2 (m2(buf + i2 := 0))))"

text \<open>\<^verbatim>\<open>char\<close> is signed.\<close>

definition CharToInt :: "u8 \<Rightarrow> int" where
  "CharToInt ch = sint ch - 48"

section \<open>Digits\<close>

text \<open>The digits of a number, least significant first, and their characters.\<close>

fun digits :: "nat \<Rightarrow> nat \<Rightarrow> nat list" where
  "digits b n = (if n = 0 \<or> b < 2 then [] else n mod b # digits b (n div b))"

declare digits.simps [simp del]

definition digit_char :: "nat \<Rightarrow> u8" where
  "digit_char d = (if d < 10 then of_nat (d + 48) else of_nat (d + 55))"

definition char_digit :: "u8 \<Rightarrow> nat" where
  "char_digit c = (if unat c < 58 then unat c - 48 else unat c - 55)"

text \<open>The value of a list of characters in a base, as a reader of the text sees it.\<close>

definition text_value :: "nat \<Rightarrow> u8 list \<Rightarrow> nat" where
  "text_value b s = foldl (\<lambda>v c. v * b + char_digit c) 0 s"

definition signed_text_value :: "nat \<Rightarrow> u8 list \<Rightarrow> int" where
  "signed_text_value b s =
     (case s of c # s' \<Rightarrow> if c = 0x2D then - int (text_value b s') else int (text_value b s) | [] \<Rightarrow> 0)"

lemma digits_0 [simp]: "digits b 0 = []"
  by (simp add: digits.simps)

lemma digits_step: "n \<noteq> 0 \<Longrightarrow> 2 \<le> b \<Longrightarrow> digits b n = n mod b # digits b (n div b)"
  by (subst digits.simps) simp

lemma digits_small: "2 \<le> b \<Longrightarrow> \<forall>d\<in>set (digits b n). d < b"
  by (induction b n rule: digits.induct) (subst digits.simps, auto)

lemma char_digit_char: "d < 36 \<Longrightarrow> char_digit (digit_char d) = d"
proof -
  assume d: "d < 36"
  have "unat (of_nat (d + 48) :: u8) = d + 48" "unat (of_nat (d + 55) :: u8) = d + 55"
    using d by (simp_all add: unat_of_nat del: of_nat_add)
  then show ?thesis using d by (simp add: char_digit_def digit_char_def)
qed

lemma digit_char_nonzero: "d < 36 \<Longrightarrow> digit_char d \<noteq> 0 \<and> digit_char d \<noteq> 0x2D"
proof -
  assume d: "d < 36"
  have "unat (of_nat (d + 48) :: u8) = d + 48" "unat (of_nat (d + 55) :: u8) = d + 55"
    using d by (simp_all add: unat_of_nat del: of_nat_add)
  then have "unat (digit_char d) = (if d < 10 then d + 48 else d + 55)" by (simp add: digit_char_def)
  then have "unat (digit_char d) \<noteq> unat (0 :: u8)" "unat (digit_char d) \<noteq> unat (0x2D :: u8)" using d by auto
  then show ?thesis by metis
qed

lemma text_value_snoc: "text_value b (s @ [c]) = text_value b s * b + char_digit c"
  by (simp add: text_value_def)

lemma text_value_digits:
  "2 \<le> b \<Longrightarrow> b \<le> 36 \<Longrightarrow> text_value b (List.map digit_char (rev (digits b n))) = n"
proof (induction b n rule: digits.induct)
  case (1 b n)
  show ?case
  proof (cases "n = 0")
    case False
    have "n mod b < 36" using 1(2,3) mod_less_divisor [of b n] by linarith
    with False 1 show ?thesis
      by (simp add: digits_step text_value_snoc char_digit_char)
  qed (simp add: text_value_def)
qed

lemma digits_length: "2 \<le> b \<Longrightarrow> n < b ^ k \<Longrightarrow> length (digits b n) \<le> k"
proof (induction k arbitrary: n)
  case (Suc k)
  show ?case
  proof (cases "n = 0")
    case False
    have "n div b < b ^ k" using Suc.prems by (simp add: less_mult_imp_div_less mult.commute)
    with Suc False show ?thesis by (simp add: digits_step)
  qed simp
qed simp

section \<open>The loop\<close>

lemma sint_small: "unat (x :: u32) < 2147483648 \<Longrightarrow> sint x = int (unat x)"
proof -
  assume "unat x < 2147483648"
  moreover have u: "uint x = int (unat x)" by (rule uint_nat)
  ultimately have "uint x < 2147483648" by linarith
  moreover have "- 2147483648 \<le> uint x" using uint_ge_0 [of x] by linarith
  ultimately have "signed_take_bit 31 (uint x) = uint x" by (intro signed_take_bit_int_eq_self) simp_all
  then show "sint x = int (unat x)" by (simp add: sint_uint)
qed

lemma ucast8_of_nat: "ucast (x :: u32) = (of_nat (unat x) :: u8)"
  by simp

lemma IntToStr_digit_eq:
  assumes "unat r < 36"
  shows "IntToStr_digit r = digit_char (unat r)"
proof -
  have s: "sint r = int (unat r)"
    using assms by (intro sint_small) simp
  show ?thesis
  proof (cases "unat r < 10")
    case True
    have "ucast (r + 0x30) = (of_nat (unat r + 48) :: u8)"
      using True by (simp add: ucast8_of_nat unat_add_no_wrap del: of_nat_unat)
    moreover have "\<not> 9 < sint r" using True unfolding s by linarith
    ultimately show ?thesis using True by (simp add: IntToStr_digit_def digit_char_def)
  next
    case False
    have "ucast (r - 10 + 0x41) = (of_nat (unat r + 55) :: u8)"
      using False assms by (simp add: ucast8_of_nat unat_add_no_wrap del: of_nat_unat)
    moreover have "9 < sint r" using False unfolding s by linarith
    ultimately show ?thesis using False by (simp add: IntToStr_digit_def digit_char_def)
  qed
qed

lemma IntToStr_loop_eq:
  "2 \<le> unat base \<Longrightarrow> unat base \<le> 36 \<Longrightarrow>
    unat i + length (digits (unat base) (unat num)) \<le> unat n \<Longrightarrow>
    \<exists>m'. IntToStr_loop buf n base i num m = (i + of_nat (length (digits (unat base) (unat num))), m') \<and>
      (\<forall>k<length (digits (unat base) (unat num)).
        m' (buf + i + of_nat k) = digit_char (digits (unat base) (unat num) ! k)) \<and>
      (\<forall>x. length (digits (unat base) (unat num)) \<le> unat (x - (buf + i)) \<longrightarrow> m' x = m x)"
proof (induction buf n base i num m rule: IntToStr_loop.induct)
  case (1 buf n base i num m)
  show ?case
  proof (cases "num = 0")
    case True
    then show ?thesis by (subst IntToStr_loop.simps) simp
  next
    case False
    let ?b = "unat base"
    let ?ds = "digits ?b (unat (num div base))" and ?m = "m(buf + i := IntToStr_digit (num mod base))"
    have ds: "digits ?b (unat num) = unat num mod ?b # ?ds"
      using False "1.prems" by (simp add: digits_step unat_eq_0 unat_div_distrib)
    have i: "unat i + length ?ds + 1 \<le> unat n" using "1.prems"(3) by (simp add: ds)
    then have lt: "i < n" by (simp add: word_less_nat_alt)
    have i1: "unat (i + 1) = Suc (unat i)" using lt by (rule unat_inc)
    have small: "unat (num mod base) < 36"
      using "1.prems" mod_less_divisor [of ?b "unat num"] by (simp add: unat_mod_distrib del: mod_less_divisor)
    have "unat (i + 1) + length ?ds \<le> unat n" using i unfolding i1 by simp
    with "1.IH" False lt "1.prems" obtain m' where
      L: "IntToStr_loop buf n base (i + 1) (num div base) ?m = (i + 1 + of_nat (length ?ds), m')"
      and W: "\<forall>k<length ?ds. m' (buf + (i + 1) + of_nat k) = digit_char (?ds ! k)"
      and F: "\<forall>x. length ?ds \<le> unat (x - (buf + (i + 1))) \<longrightarrow> m' x = ?m x" by blast
    have "IntToStr_loop buf n base i num m = (i + of_nat (Suc (length ?ds)), m')"
      using False lt L by (subst IntToStr_loop.simps) (simp add: ac_simps)
    moreover have "m' (buf + i + of_nat k) = digit_char ((unat num mod ?b # ?ds) ! k)"
      if k: "k < Suc (length ?ds)" for k
    proof (cases k)
      case 0
      have "length ?ds \<le> unat n" using i by simp
      then have "length ?ds \<le> 4294967295" using unat_le_max32 [of n] by linarith
      then have "m' (buf + i) = ?m (buf + i)" by (intro F [rule_format]) (simp add: unat_minus_one32)
      then show ?thesis using 0 small by (simp add: IntToStr_digit_eq unat_mod_distrib)
    next
      case (Suc j)
      with W [rule_format, of j] k show ?thesis by (simp add: ac_simps)
    qed
    moreover have "m' x = m x" if x: "Suc (length ?ds) \<le> unat (x - (buf + i))" for x
    proof -
      have "x \<noteq> buf + i" using x by auto
      moreover from this have "unat (x - (buf + i)) = Suc (unat (x - (buf + i + 1)))" by (rule word_offset_unat)
      ultimately show ?thesis using x F [rule_format, of x] by (simp add: add.assoc)
    qed
    ultimately show ?thesis unfolding ds by (intro exI [of _ m']) simp
  qed
qed


lemma Strrev_frame:
  assumes "unat num \<le> unat (x - str)"
  shows "Strrev str num m x = m x"
  unfolding Strrev_def
proof (rule for_range_preserves [where P = "\<lambda>m'. m' x = m x"])
  fix k m' assume k: "k < num div 2" and eq: "m' x = m x"
  have uk: "2 * unat k < unat num" using k by (simp add: word_less_nat_alt unat_div_distrib)
  have "1 \<le> num" using uk by (simp add: word_le_nat_alt)
  then have n1: "unat (num - 1) = unat num - 1" by (simp add: unat_sub_le)
  have "k \<le> num - 1" using uk unfolding word_le_nat_alt n1 by linarith
  then have n2: "unat (num - 1 - k) = unat num - 1 - unat k" by (simp add: unat_sub_le n1)
  have "x \<noteq> str + k" using assms uk by auto
  moreover have "x \<noteq> str + (num - 1 - k)"
  proof
    assume "x = str + (num - 1 - k)"
    then have "unat (x - str) = unat num - 1 - unat k" using n2 by simp
    with assms uk show False by linarith
  qed
  ultimately show "Strrev_swap str num k m' x = m x" using eq by (simp add: Strrev_swap_def Let_def)
qed simp

section \<open>The text of a number\<close>

lemma sint_big: "2147483648 \<le> unat x \<Longrightarrow> sint x = int (unat x) - 4294967296" for x :: u32
proof -
  assume "2147483648 \<le> unat x"
  then have "bit x 31" using sint_neg_iff [of x] bit_last_iff [of x] by simp
  then have "bit (uint x) 31" by (simp add: bit_uint_iff)
  then have "sint x = take_bit 32 (uint x) - 4294967296"
    by (simp add: sint_uint signed_take_bit_eq_take_bit_minus)
  moreover have "take_bit 32 (uint x) = uint x" using uint_bounded [of x] by (simp add: take_bit_int_eq_self)
  ultimately show ?thesis using uint_nat [of x] by linarith
qed

lemma unat_uminus: "x \<noteq> 0 \<Longrightarrow> unat (- x) + unat x = 4294967296" for x :: u32
proof -
  assume "x \<noteq> 0"
  then have pos: "0 < unat x" by (simp add: unat_gt_0)
  have "(unat (- x) + unat x) mod 4294967296 = 0" using unat_add_wrap [of "- x" x] by simp
  then obtain k where k: "unat (- x) + unat x = 4294967296 * k" by (metis mod_0_imp_dvd dvdE)
  moreover have "unat (- x) + unat x < 2 * 4294967296" using unat_lt_2p32 [of x] unat_lt_2p32 [of "- x"] by linarith
  ultimately have "k = 1" using pos by linarith
  with k show ?thesis by simp
qed

definition prints_sign :: "u32 \<Rightarrow> u32 \<Rightarrow> bool" where
  "prints_sign num base \<longleftrightarrow> sint num < 0 \<and> base = 10"

definition magnitude :: "u32 \<Rightarrow> u32 \<Rightarrow> nat" where
  "magnitude num base = (if prints_sign num base then unat (- num) else unat num)"

definition number_text :: "u32 \<Rightarrow> u32 \<Rightarrow> u8 list" where
  "number_text num base =
     (if num = 0 then [0x30]
      else (if prints_sign num base then [0x2D] else []) @
        List.map digit_char (rev (digits (unat base) (magnitude num base))))"

lemma magnitude_zero: "magnitude num base = 0 \<longleftrightarrow> num = 0"
  by (simp add: magnitude_def unat_eq_0)

lemma number_text_printable:
  assumes "2 \<le> unat base" and "unat base \<le> 36"
  shows "0 \<notin> set (number_text num base)"
proof -
  have "digit_char d \<noteq> 0" if "d \<in> set (digits (unat base) (magnitude num base))" for d
    using digits_small [OF assms(1)] that assms(2) digit_char_nonzero by fastforce
  then have "0 \<notin> digit_char ` set (digits (unat base) (magnitude num base))" by force
  then show ?thesis by (auto simp: number_text_def)
qed

text \<open>The value of the text is the number, signed in base 10 and unsigned in every other base.\<close>

lemma number_text_value:
  assumes b: "2 \<le> unat base" "unat base \<le> 36"
  shows "signed_text_value (unat base) (number_text num base) = (if base = 10 then sint num else uint num)"
proof (cases "num = 0")
  case True
  then show ?thesis
    by (simp add: number_text_def signed_text_value_def text_value_def char_digit_def)
next
  case False
  let ?ds = "rev (digits (unat base) (magnitude num base))"
  have val: "text_value (unat base) (List.map digit_char ?ds) = magnitude num base"
    by (rule text_value_digits [OF b])
  have "digits (unat base) (magnitude num base) \<noteq> []"
    using False magnitude_zero b by (simp add: digits_step)
  then obtain d ds where ds: "?ds = d # ds" by (cases ?ds) auto
  have "d \<in> set (digits (unat base) (magnitude num base))" using ds by (metis list.set_intros(1) set_rev)
  then have "d < 36" using digits_small [OF b(1)] b(2) by fastforce
  then have nosign: "digit_char d \<noteq> 0x2D" using digit_char_nonzero by blast
  have shown: "signed_text_value (unat base) (number_text num base) =
      (if prints_sign num base then - int (magnitude num base) else int (magnitude num base))"
    using False nosign val by (simp add: number_text_def signed_text_value_def ds)
  show ?thesis
  proof (cases "sint num < 0 \<and> base = 10")
    case True
    then have big: "2147483648 \<le> unat num" using sint_neg_iff [of num] by simp
    have "int (unat (- num)) = - sint num" using unat_uminus [OF False] sint_big [OF big] by linarith
    with True shown show ?thesis by (simp add: prints_sign_def magnitude_def)
  next
    case neg: False
    then have "sint num = int (unat num)" if "base = 10"
      using that sint_small [of num] sint_neg_iff [of num] by auto
    then show ?thesis using neg shown by (auto simp: prints_sign_def magnitude_def)
  qed
qed


lemma Strrev_list:
  assumes "\<forall>k<length t. m (buf + of_nat k) = t ! k" and "length t < 4294967296" and "k < length t"
  shows "Strrev buf (of_nat (length t)) m (buf + of_nat k) = rev t ! k"
proof -
  have n: "unat (of_nat (length t) :: u32) = length t" using assms(2) by (simp add: unat_of_nat32)
  have "Strrev buf (of_nat (length t)) m (buf + of_nat k) = m (buf + of_nat (length t - 1 - k))"
    using Strrev_eq [of k "of_nat (length t)" buf m] assms(3) n by simp
  also have "\<dots> = t ! (length t - 1 - k)" by (rule assms(1) [rule_format]) (use assms(3) in simp)
  finally show ?thesis using assms(3) by (simp add: rev_nth)
qed

text \<open>The last step: the characters are in the buffer in reverse, are terminated and turned round.\<close>

lemma reversed_text:
  assumes at: "\<forall>k<length t. m (buf + of_nat k) = t ! k" and "0 \<notin> set t" and lim: "length t < 4294967296"
  defines "m' \<equiv> Strrev buf (of_nat (length t)) (m(buf + of_nat (length t) := 0))"
  shows "c_string m' buf (rev t)" and "\<forall>x. length t < unat (x - buf) \<longrightarrow> m' x = m x"
proof -
  let ?n = "of_nat (length t) :: u32" and ?m = "m(buf + of_nat (length t) := 0)"
  have n: "unat ?n = length t" by (rule unat_of_nat32 [OF lim])
  have "?m (buf + of_nat k) = t ! k" if "k < length t" for k
  proof -
    have "(of_nat k :: u32) \<noteq> ?n" using that lim of_nat_inj32 [of k "length t"] by simp
    then show ?thesis using at that by simp
  qed
  then have "m' (buf + of_nat k) = rev t ! k" if "k < length t" for k
    unfolding m'_def using that lim by (intro Strrev_list) simp_all
  moreover have "m' (buf + ?n) = 0" using Strrev_frame [of ?n "buf + ?n" buf ?m] n by (simp add: m'_def)
  ultimately show "c_string m' buf (rev t)" using assms(2) unfolding c_string_iff by simp
  have "m' x = m x" if "length t < unat (x - buf)" for x
  proof -
    have "x \<noteq> buf + ?n" using that n by auto
    then show ?thesis using Strrev_frame [of ?n x buf ?m] that n by (simp add: m'_def)
  qed
  then show "\<forall>x. length t < unat (x - buf) \<longrightarrow> m' x = m x" by blast
qed

text \<open>How many bytes the text and its terminator take.\<close>

definition text_size :: "u32 \<Rightarrow> u32 \<Rightarrow> nat" where
  "text_size num base = length (number_text num base) + 1"

lemma IntToStr_eq:
  assumes b: "2 \<le> unat base" "unat base \<le> 36" and room: "text_size num base \<le> unat n"
  shows "\<exists>m'. IntToStr num buf n base m = Some (0, m') \<and> c_string m' buf (number_text num base) \<and>
    (\<forall>x. text_size num base \<le> unat (x - buf) \<longrightarrow> m' x = m x)"
proof (cases "num = 0")
  case True
  have "n \<noteq> 0" using room by (auto simp: text_size_def)
  moreover have "x \<noteq> buf \<and> x \<noteq> buf + 1" if "2 \<le> unat (x - buf)" for x using that by auto
  ultimately show ?thesis
    using True by (simp add: IntToStr_def number_text_def text_size_def)
next
  case False
  let ?num = "if prints_sign num base then - num else num"
  let ?ds = "digits (unat base) (magnitude num base)"
  let ?t = "List.map digit_char ?ds @ (if prints_sign num base then [0x2D] else [])"
  have mag: "unat ?num = magnitude num base" by (simp add: magnitude_def)
  have rev: "number_text num base = rev ?t" using False by (simp add: number_text_def rev_map)
  have len: "length ?t + 1 \<le> unat n" using room by (simp add: text_size_def rev)
  then have lim: "length ?t < 4294967296" and nz: "n \<noteq> 0" "base \<noteq> 0" using unat_lt_2p32 [of n] b by (linarith, auto)
  have fits: "unat (0 :: u32) + length (digits (unat base) (unat ?num)) \<le> unat n" using len unfolding mag by simp
  obtain m1 where L: "IntToStr_loop buf n base 0 ?num m = (of_nat (length ?ds), m1)"
    and W: "\<forall>k<length ?ds. m1 (buf + of_nat k) = digit_char (?ds ! k)"
    and F: "\<forall>x. length ?ds \<le> unat (x - buf) \<longrightarrow> m1 x = m x"
    using IntToStr_loop_eq [OF b fits, of buf m] unfolding mag by auto
  let ?m2 = "if prints_sign num base then m1(buf + of_nat (length ?ds) := 0x2D) else m1"
  have at: "\<forall>k<length ?t. ?m2 (buf + of_nat k) = ?t ! k"
    using W lim of_nat_inj32 by (auto simp: nth_append less_Suc_eq)
  let ?m' = "Strrev buf (of_nat (length ?t)) (?m2(buf + of_nat (length ?t) := 0))"
  have run: "IntToStr num buf n base m = Some (0, ?m')"
    using False L nz by (simp add: IntToStr_def prints_sign_def [symmetric] Let_def)
  have "0 \<notin> set ?t" using number_text_printable [OF b, of num] unfolding rev by simp
  note R = reversed_text [OF at this lim]
  have "?m' x = m x" if x: "text_size num base \<le> unat (x - buf)" for x
  proof -
    have x: "length ?t < unat (x - buf)" using x by (simp add: text_size_def rev)
    then have "x \<noteq> buf + of_nat (length ?ds)" using lim unat_of_nat32 [of "length ?ds"] by auto
    with R(2) F x show ?thesis by (simp split: if_splits)
  qed
  then show ?thesis using run R(1) rev by auto
qed


section \<open>Any base and any buffer\<close>

lemma IntToStr_loop_frame:
  "unat i \<le> unat n \<Longrightarrow> IntToStr_loop buf n base i num m = (j, m') \<Longrightarrow>
    unat j \<le> unat n \<and> (\<forall>x. unat n \<le> unat (x - buf) \<longrightarrow> m' x = m x)"
proof (induction buf n base i num m rule: IntToStr_loop.induct)
  case (1 buf n base i num m)
  show ?case
  proof (cases "num \<noteq> 0 \<and> i < n")
    case True
    then have i1: "unat (i + 1) \<le> unat n" using unat_inc [of i n] by (simp add: word_less_nat_alt)
    from True "1.prems"(2) have
      "IntToStr_loop buf n base (i + 1) (num div base) (m(buf + i := IntToStr_digit (num mod base))) = (j, m')"
      by (subst (asm) IntToStr_loop.simps) simp
    note R = "1.IH" [OF True i1 this]
    have "x \<noteq> buf + i" if "unat n \<le> unat (x - buf)" for x using that True by (auto simp: word_less_nat_alt)
    with R show ?thesis by auto
  next
    case False
    with "1.prems" show ?thesis by (subst (asm) IntToStr_loop.simps) auto
  qed
qed

lemma IntToStr_None: "IntToStr num buf n base m = None \<longleftrightarrow> base = 0 \<and> num \<noteq> 0 \<and> n \<noteq> 0"
  by (simp add: IntToStr_def Let_def split_beta)

text \<open>At most the two bytes behind the buffer are written to: a sign and the terminator.\<close>

lemma IntToStr_frame:
  assumes run: "IntToStr num buf n base m = Some (r, m')" and x: "unat n + 2 \<le> unat (x - buf)"
  shows "m' x = m x"
proof -
  have top: "unat n + 2 < 4294967296" using x unat_lt_2p32 [of "x - buf"] by linarith
  consider "n = 0" | "n \<noteq> 0" "num = 0" | "n \<noteq> 0" "num \<noteq> 0" by blast
  then show ?thesis
  proof cases
    case 3
    let ?neg = "sint num < 0 \<and> base = 10"
    obtain j m1 where L: "IntToStr_loop buf n base 0 (if ?neg then - num else num) m = (j, m1)" by fastforce
    let ?j = "if ?neg then j + 1 else j" and ?m = "if ?neg then m1(buf + j := 0x2D) else m1"
    have m': "m' = Strrev buf ?j (?m(buf + ?j := 0))"
      using run 3 L by (auto simp: IntToStr_def Let_def split: if_splits)
    have F: "unat j \<le> unat n" "\<forall>x. unat n \<le> unat (x - buf) \<longrightarrow> m1 x = m x"
      using IntToStr_loop_frame [OF _ L] by simp_all
    have "unat (j + 1) = unat j + 1" using F(1) top by (simp add: unat_add_no_wrap)
    then have j: "unat ?j \<le> unat n + 1" using F(1) by simp
    then have "m' x = (?m(buf + ?j := 0)) x" unfolding m' using x by (intro Strrev_frame) linarith
    moreover have "x \<noteq> buf + j" "x \<noteq> buf + ?j" using x F(1) j by auto
    ultimately show ?thesis using F(2) x by simp
  qed (use run x in \<open>auto simp: IntToStr_def\<close>)
qed

section \<open>Properties\<close>

text \<open>
  C35: \<^verbatim>\<open>IntToStr\<close> returns for every number, every buffer and every base but 0, where it divides by 0 unless there
  is nothing to print or no room for it; and it writes nowhere but into the buffer and the two bytes behind it, where
  the sign and the terminator go if the buffer is too small. With a base from 2 to 36 and a buffer large enough for the
  text and its terminator, it returns 0, leaves a terminated string in the buffer and writes nowhere else; reading the
  string gives the number back, signed in base 10 (the smallest \<^verbatim>\<open>int32_t\<close> included) and unsigned in every other base.
\<close>

theorem inttostr_text_reads_back:
  "(IntToStr num buf n base m = None \<longleftrightarrow> base = 0 \<and> num \<noteq> 0 \<and> n \<noteq> 0) \<and>
   (\<forall>r m' x. IntToStr num buf n base m = Some (r, m') \<and> unat n + 2 \<le> unat (x - buf) \<longrightarrow> m' x = m x) \<and>
   (2 \<le> unat base \<and> unat base \<le> 36 \<and> text_size num base \<le> unat n \<longrightarrow>
     (\<exists>s m'. IntToStr num buf n base m = Some (0, m') \<and> c_string m' buf s \<and>
       signed_text_value (unat base) s = (if base = 10 then sint num else uint num) \<and>
       (\<forall>x. unat n \<le> unat (x - buf) \<longrightarrow> m' x = m x)))"
proof (intro conjI allI impI)
  assume a: "2 \<le> unat base \<and> unat base \<le> 36 \<and> text_size num base \<le> unat n"
  then obtain m' where "IntToStr num buf n base m = Some (0, m')" "c_string m' buf (number_text num base)"
    "\<forall>x. text_size num base \<le> unat (x - buf) \<longrightarrow> m' x = m x"
    using IntToStr_eq [of base num n buf m] by blast
  moreover have "\<forall>x. unat n \<le> unat (x - buf) \<longrightarrow> m' x = m x"
    using calculation(3) a le_trans by blast
  ultimately show "\<exists>s m'. IntToStr num buf n base m = Some (0, m') \<and> c_string m' buf s \<and>
      signed_text_value (unat base) s = (if base = 10 then sint num else uint num) \<and>
      (\<forall>x. unat n \<le> unat (x - buf) \<longrightarrow> m' x = m x)"
    using number_text_value [of base num] a by blast
qed (simp add: IntToStr_None, elim conjE, rule IntToStr_frame)

lemma text_size_decimal: "text_size num 10 \<le> 12"
proof -
  have "magnitude num 10 < 10 ^ 10"
    using unat_lt_2p32 [of num] unat_lt_2p32 [of "- num"] by (auto simp: magnitude_def simp del: unat_lt_2p32)
  then have "length (digits 10 (magnitude num 10)) \<le> 10" by (intro digits_length) simp_all
  then show ?thesis by (auto simp: text_size_def number_text_def)
qed

lemma text_size_hex: "text_size num 16 \<le> 12"
proof -
  have "magnitude num 16 < 16 ^ 8" using unat_lt_2p32 [of num] by (simp add: magnitude_def prints_sign_def)
  then have "length (digits 16 (magnitude num 16)) \<le> 8" by (intro digits_length) simp_all
  then show ?thesis by (auto simp: text_size_def number_text_def prints_sign_def)
qed

text \<open>The smallest number in base 10; and a buffer of one byte, behind which the terminator goes.\<close>

theorem inttostr_text_reads_back_witness:
  "(\<exists>s m'. IntToStr 0x80000000 0x1000 12 10 text_memory = Some (0, m') \<and> c_string m' 0x1000 s \<and>
     signed_text_value 10 s = - 2147483648) \<and>
   (\<exists>m'. IntToStr 7 0x1000 1 10 text_memory = Some (0, m') \<and> m' 0x1001 = 0 \<and> text_memory 0x1001 \<noteq> 0 \<and>
     m' 0x1003 = text_memory 0x1003)"
proof
  have "sint (0x80000000 :: u32) = - 2147483648" by (simp add: sint_big)
  then show "\<exists>s m'. IntToStr 0x80000000 0x1000 12 10 text_memory = Some (0, m') \<and> c_string m' 0x1000 s \<and>
      signed_text_value 10 s = - 2147483648"
    using inttostr_text_reads_back [of "0x80000000" "0x1000" 12 10 text_memory] text_size_decimal by auto
  have digit: "IntToStr_loop 0x1000 1 10 0 7 text_memory = (1, text_memory(0x1000 := 0x37))"
    by (subst IntToStr_loop.simps, subst IntToStr_loop.simps) (simp add: IntToStr_digit_eq digit_char_def)
  have one: "Strrev 0x1000 1 m = m" for m by (simp add: Strrev_def for_range_done)
  have sign: "\<not> sint (7 :: u32) < 0" by (simp add: sint_small)
  have "IntToStr 7 0x1000 1 10 text_memory = Some (0, text_memory(0x1000 := 0x37, 0x1001 := 0))"
    by (simp add: IntToStr_def Let_def digit one sign)
  moreover from this inttostr_text_reads_back [of 7 "0x1000" 1 10 text_memory]
  have "(text_memory(0x1000 := 0x37, 0x1001 := 0)) 0x1003 = text_memory 0x1003" by simp
  moreover have "text_memory 0x1001 \<noteq> 0" by (simp add: text_memory_def)
  ultimately show "\<exists>m'. IntToStr 7 0x1000 1 10 text_memory = Some (0, m') \<and> m' 0x1001 = 0 \<and> text_memory 0x1001 \<noteq> 0 \<and>
      m' 0x1003 = text_memory 0x1003" by auto
qed

end
