(* ===== verification/KPrintf.thy ===== *)
theory KPrintf
  imports VGA TypeConverter
begin

text \<open>
  \<^verbatim>\<open>Kernel/Kern/KPrintf.{h,cpp}\<close> and \<^verbatim>\<open>Kernel/Kern/KPanic.{h,cpp}\<close>: formatted output on the screen. The
  variable arguments are the 32-bit words the caller pushed, which is how the i686 calling convention
  passes them, so \<^verbatim>\<open>va_arg\<close> takes the next word whatever its type; \<open>None\<close> is an argument that was not
  passed or a string without terminator. The address of the local buffer \<^verbatim>\<open>tmp\<close> is a parameter.
\<close>

section \<open>Operations\<close>

definition KPrint :: "device \<Rightarrow> u32 \<Rightarrow> console \<Rightarrow> console option" where
  "KPrint d str c = VGA_WriteStr d str c"

definition KPrintChar :: "device \<Rightarrow> u8 \<Rightarrow> console \<Rightarrow> console" where
  "KPrintChar d ch c = VGA_WriteChar d ch c"

text \<open>The conversions of a number: the text is made in \<^verbatim>\<open>tmp\<close> and printed from there.\<close>

definition KPrintf_number :: "device \<Rightarrow> u32 \<Rightarrow> u32 \<Rightarrow> u32 \<Rightarrow> console \<Rightarrow> console option" where
  "KPrintf_number d tmp base val c = do {
     (r, m) \<leftarrow> IntToStr val tmp 12 base (con_bytes c);
     KPrint d tmp (c\<lparr>con_bytes := m\<rparr>)
   }"

partial_function (option) KPrintf_loop ::
  "device \<Rightarrow> u32 \<Rightarrow> u32 \<Rightarrow> u32 list \<Rightarrow> console \<Rightarrow> console option" where
  "KPrintf_loop d tmp ptr args c =
     (if con_bytes c ptr = 0 then Some c
      else if con_bytes c ptr \<noteq> 0x25
      then KPrintf_loop d tmp (ptr + 1) args (KPrintChar d (con_bytes c ptr) c)
      else let ptr = ptr + 1; ch = con_bytes c ptr
           in if ch = 0x64 \<or> ch = 0x75 \<or> ch = 0x69
              then (case args of [] \<Rightarrow> None | val # args \<Rightarrow>
                Option.bind (KPrintf_number d tmp 10 val c) (KPrintf_loop d tmp (ptr + 1) args))
              else if ch = 0x78
              then (case args of [] \<Rightarrow> None | val # args \<Rightarrow>
                Option.bind (KPrintf_number d tmp 16 val c) (KPrintf_loop d tmp (ptr + 1) args))
              else if ch = 0x63
              then (case args of [] \<Rightarrow> None | val # args \<Rightarrow>
                KPrintf_loop d tmp (ptr + 1) args (KPrintChar d (ucast val) c))
              else if ch = 0x73
              then (case args of [] \<Rightarrow> None | val # args \<Rightarrow>
                Option.bind (KPrint d val c) (KPrintf_loop d tmp (ptr + 1) args))
              else KPrintf_loop d tmp (ptr + 1) args (KPrintChar d ch c))"

definition KPrintf :: "device \<Rightarrow> u32 \<Rightarrow> u32 \<Rightarrow> u32 list \<Rightarrow> console \<Rightarrow> (int \<times> console) option" where
  "KPrintf d tmp fmt args c = do { c' \<leftarrow> KPrintf_loop d tmp fmt args c; Some (0, c') }"

text \<open>
  \<^verbatim>\<open>KPanic\<close> prints its argument, as a format, and never returns: the value is the console it stops with.
\<close>

definition KPanic :: "device \<Rightarrow> u32 \<Rightarrow> u32 \<Rightarrow> console \<Rightarrow> console option" where
  "KPanic d tmp str c = do { (r, c') \<leftarrow> KPrintf d tmp str [] c; Some c' }"

declare KPrintf_loop.simps [code]

section \<open>The text of a format\<close>

text \<open>
  The text a format stands for, given the strings behind the pointers among its arguments; \<open>None\<close> when
  an argument is missing or the format ends in the middle of a conversion.
\<close>

fun format_text :: "(u32 \<Rightarrow> u8 list) \<Rightarrow> u8 list \<Rightarrow> u32 list \<Rightarrow> u8 list option" where
  "format_text strs [] args = Some []"
| "format_text strs (ch # s) args =
     (if ch \<noteq> 0x25 then map_option ((#) ch) (format_text strs s args)
      else case s of
        [] \<Rightarrow> None
      | ch1 # s1 \<Rightarrow>
          if ch1 \<in> {0x64, 0x75, 0x69, 0x78, 0x63, 0x73}
          then (case args of
            [] \<Rightarrow> None
          | val # args1 \<Rightarrow>
              map_option ((@) (if ch1 = 0x78 then number_text val 16
                               else if ch1 = 0x63 then [ucast val]
                               else if ch1 = 0x73 then strs val
                               else number_text val 10))
                (format_text strs s1 args1))
          else map_option ((#) ch1) (format_text strs s1 args))"

text \<open>The arguments that are used as strings.\<close>

fun string_args :: "u8 list \<Rightarrow> u32 list \<Rightarrow> u32 set" where
  "string_args [] args = {}"
| "string_args (ch # s) args =
     (if ch \<noteq> 0x25 then string_args s args
      else case s of
        [] \<Rightarrow> {}
      | ch1 # s1 \<Rightarrow>
          if ch1 \<in> {0x64, 0x75, 0x69, 0x78, 0x63, 0x73}
          then (case args of
            [] \<Rightarrow> {}
          | val # args1 \<Rightarrow> (if ch1 = 0x73 then {val} else {}) \<union> string_args s1 args1)
          else string_args s1 args)"

lemma terminal_string_append:
  "terminal_string color (s @ s') t = terminal_string color s' (terminal_string color s t)"
  by (simp add: terminal_string_def)

lemma terminal_string_Cons:
  "terminal_string color (ch # s) t = terminal_string color s (terminal_char color ch t)"
  by (simp add: terminal_string_def)

text \<open>
  The state of the loop: a good console whose memory still holds what the format and the strings among
  the arguments need, all of it away from the screen and from the buffer.
\<close>

definition tmp_bytes :: "u32 \<Rightarrow> nat set" where
  "tmp_bytes tmp = {unat tmp..<unat tmp + 12}"

definition quiet_bytes :: "u32 \<Rightarrow> nat set" where
  "quiet_bytes tmp = other_bytes - tmp_bytes tmp"

definition prints :: "console \<Rightarrow> u8 list \<Rightarrow> u32 \<Rightarrow> console \<Rightarrow> bool" where
  "prints c s tmp c' \<longleftrightarrow> console_wf c' \<and> s_Color c' = s_Color c \<and>
     terminal_of c' = terminal_string (s_Color c) s (terminal_of c) \<and>
     same_bytes (quiet_bytes tmp) (con_bytes c) (con_bytes c')"

lemma prints_trans: "prints c s tmp c1 \<Longrightarrow> prints c1 s' tmp c2 \<Longrightarrow> prints c (s @ s') tmp c2"
  unfolding prints_def terminal_string_append by (metis same_bytes_trans)

lemma prints_none: "console_wf c \<Longrightarrow> prints c [] tmp c"
  by (simp add: prints_def terminal_string_def)

lemma prints_char: "console_wf c \<Longrightarrow> prints c [ch] tmp (KPrintChar d ch c)"
  using WriteCharColor_terminal [of c d ch "s_Color c"] same_bytes_mono [of other_bytes _ _ "quiet_bytes tmp"]
  by (auto simp: prints_def KPrintChar_def VGA_WriteChar_def terminal_string_def quiet_bytes_def)

lemma prints_str:
  assumes "console_wf c" and "c_string (con_bytes c) p s" and "string_bytes p s \<subseteq> other_bytes"
  obtains c' where "KPrint d p c = Some c'" and "prints c s tmp c'"
proof -
  obtain c' where "VGA_WriteStr d p c = Some c'" "terminal_of c' = terminal_string (s_Color c) s (terminal_of c)"
    "console_wf c'" "same_bytes other_bytes (con_bytes c) (con_bytes c')" "s_Color c' = s_Color c"
    by (rule WriteStr_terminal [OF assms])
  then show ?thesis
    using same_bytes_mono [of other_bytes _ _ "quiet_bytes tmp"]
    by (intro that) (auto simp: KPrint_def prints_def quiet_bytes_def)
qed

text \<open>A number: the buffer changes, but it is not on the screen.\<close>

lemma prints_number:
  assumes wf: "console_wf c" and base: "base = 10 \<or> base = 16" and tmp: "tmp_bytes tmp \<subseteq> other_bytes"
  obtains c' where "KPrintf_number d tmp base val c = Some c'" and "prints c (number_text val base) tmp c'"
proof -
  have size: "text_size val base \<le> 12" using base text_size_decimal text_size_hex by auto
  have b: "2 \<le> unat base" "unat base \<le> 36" using base by auto
  have top: "unat tmp + 12 \<le> 4294967296"
  proof -
    have "unat tmp + 11 \<in> other_bytes" using tmp by (auto simp: tmp_bytes_def)
    then show ?thesis by (simp add: other_bytes_def)
  qed
  obtain m where M: "IntToStr val tmp 12 base (con_bytes c) = Some (0, m)" "c_string m tmp (number_text val base)"
    "\<forall>x. text_size val base \<le> unat (x - tmp) \<longrightarrow> m x = con_bytes c x"
    using IntToStr_eq [OF b, of val 12 tmp "con_bytes c"] size by auto
  have keep: "same_bytes ({..<4294967296} - tmp_bytes tmp) (con_bytes c) m"
    unfolding same_bytes_def
  proof
    fix x assume x: "x \<in> {..<4294967296} - tmp_bytes tmp"
    then have "\<not> unat (of_nat x - tmp) < 12" using offset_in_block [of x tmp 12] top by (auto simp: tmp_bytes_def)
    then show "m (of_nat x) = con_bytes c (of_nat x)" using M(3) size by simp
  qed
  let ?c = "c\<lparr>con_bytes := m\<rparr>"
  have "video_bytes \<subseteq> {..<4294967296} - tmp_bytes tmp"
    using tmp by (auto simp: other_bytes_def video_bytes_def)
  then have grid: "grid_of m = grid_of (con_bytes c)" by (intro grid_same same_bytes_mono [OF keep])
  have inside: "string_bytes tmp (number_text val base) \<subseteq> other_bytes"
    using size tmp by (fastforce simp: string_bytes_def tmp_bytes_def text_size_def)
  have wf': "console_wf ?c" using wf by (simp add: console_wf_def)
  have str: "c_string (con_bytes ?c) tmp (number_text val base)" using M(2) by simp
  obtain c' where "KPrint d tmp ?c = Some c'" "prints ?c (number_text val base) tmp c'"
    by (rule prints_str [OF wf' str inside])
  moreover have "same_bytes (quiet_bytes tmp) (con_bytes c) m"
    by (rule same_bytes_mono [OF keep]) (auto simp: quiet_bytes_def other_bytes_def)
  ultimately show ?thesis
    using that [of c'] M(1) grid same_bytes_trans
    by (auto simp: KPrintf_number_def prints_def terminal_of_def)
qed


section \<open>The loop\<close>

text \<open>What the loop needs from memory: the rest of the format, and the strings it will print.\<close>

definition format_ready :: "u32 \<Rightarrow> (u32 \<Rightarrow> u8 list) \<Rightarrow> u8 list \<Rightarrow> u32 \<Rightarrow> u32 set \<Rightarrow> mem \<Rightarrow> bool" where
  "format_ready tmp strs s ptr S m \<longleftrightarrow>
     c_string m ptr s \<and> string_bytes ptr s \<subseteq> quiet_bytes tmp \<and>
     (\<forall>p\<in>S. c_string m p (strs p) \<and> string_bytes p (strs p) \<subseteq> quiet_bytes tmp)"

lemma format_ready_same:
  "format_ready tmp strs s ptr S m \<Longrightarrow> same_bytes (quiet_bytes tmp) m m' \<Longrightarrow> format_ready tmp strs s ptr S m'"
  unfolding format_ready_def using c_string_same same_bytes_mono by blast

lemma format_ready_tail:
  assumes "format_ready tmp strs (ch # s) ptr S m" and "S' \<subseteq> S"
  shows "m ptr = ch" and "ch \<noteq> 0" and "format_ready tmp strs s (ptr + 1) S' m"
proof -
  have "unat ptr + length (ch # s) \<in> string_bytes ptr (ch # s)" by (simp add: string_bytes_def)
  then have "unat ptr + length (ch # s) < 4294967296"
    using assms(1) by (auto simp: format_ready_def quiet_bytes_def other_bytes_def)
  then have "unat (ptr + 1) = unat ptr + 1" by (simp add: unat_add_no_wrap)
  then have "string_bytes (ptr + 1) s \<subseteq> string_bytes ptr (ch # s)" by (auto simp: string_bytes_def)
  with assms show "m ptr = ch" "ch \<noteq> 0" "format_ready tmp strs s (ptr + 1) S' m"
    by (auto simp: format_ready_def)
qed

text \<open>One step of output, then the rest of the format.\<close>

lemma format_continue:
  assumes step: "prints c out tmp c1" and ready: "format_ready tmp strs s ptr S (con_bytes c)"
    and rest: "\<And>c. console_wf c \<Longrightarrow> format_ready tmp strs s ptr S (con_bytes c) \<Longrightarrow>
      \<exists>c'. KPrintf_loop d tmp ptr args c = Some c' \<and> prints c shown tmp c'"
  shows "\<exists>c'. KPrintf_loop d tmp ptr args c1 = Some c' \<and> prints c (out @ shown) tmp c'"
proof -
  have "console_wf c1" "format_ready tmp strs s ptr S (con_bytes c1)"
    using step format_ready_same [OF ready] by (auto simp: prints_def)
  then obtain c' where "KPrintf_loop d tmp ptr args c1 = Some c'" "prints c1 shown tmp c'" using rest by blast
  then show ?thesis using prints_trans [OF step] by blast
qed

text \<open>One conversion with its argument.\<close>

definition conversion_text :: "(u32 \<Rightarrow> u8 list) \<Rightarrow> u8 \<Rightarrow> u32 \<Rightarrow> u8 list" where
  "conversion_text strs ch val =
     (if ch = 0x78 then number_text val 16 else if ch = 0x63 then [ucast val] else if ch = 0x73 then strs val
      else number_text val 10)"

lemma conversion_step:
  assumes wf: "console_wf c" and tmp: "tmp_bytes tmp \<subseteq> other_bytes"
    and at: "con_bytes c ptr = 0x25" "con_bytes c (ptr + 1) = ch" and ch: "ch \<in> {0x64, 0x75, 0x69, 0x78, 0x63, 0x73}"
    and str: "ch = 0x73 \<Longrightarrow> c_string (con_bytes c) val (strs val) \<and> string_bytes val (strs val) \<subseteq> other_bytes"
  obtains c1 where "KPrintf_loop d tmp ptr (val # args) c = KPrintf_loop d tmp (ptr + 1 + 1) args c1"
    and "prints c (conversion_text strs ch val) tmp c1"
proof -
  consider "ch = 0x63" | "ch = 0x73" | "ch = 0x78" | "ch \<in> {0x64, 0x75, 0x69}" using ch by auto
  then show ?thesis
  proof cases
    case 1
    then have "KPrintf_loop d tmp ptr (val # args) c =
        KPrintf_loop d tmp (ptr + 1 + 1) args (KPrintChar d (ucast val) c)"
      using at by (subst KPrintf_loop.simps) (simp add: Let_def)
    then show ?thesis using that prints_char [OF wf] 1 by (auto simp: conversion_text_def)
  next
    case 2
    then obtain c1 where c1: "KPrint d val c = Some c1" "prints c (strs val) tmp c1"
      using prints_str [OF wf] str by metis
    then have "KPrintf_loop d tmp ptr (val # args) c = KPrintf_loop d tmp (ptr + 1 + 1) args c1"
      using at 2 by (subst KPrintf_loop.simps) (simp add: Let_def)
    with that c1(2) 2 show ?thesis by (auto simp: conversion_text_def)
  next
    case 3
    obtain c1 where c1: "KPrintf_number d tmp 16 val c = Some c1" "prints c (number_text val 16) tmp c1"
      by (rule prints_number [OF wf disjI2 [OF refl] tmp])
    then have "KPrintf_loop d tmp ptr (val # args) c = KPrintf_loop d tmp (ptr + 1 + 1) args c1"
      using at 3 by (subst KPrintf_loop.simps) (simp add: Let_def)
    with that c1(2) 3 show ?thesis by (auto simp: conversion_text_def)
  next
    case 4
    obtain c1 where c1: "KPrintf_number d tmp 10 val c = Some c1" "prints c (number_text val 10) tmp c1"
      by (rule prints_number [OF wf disjI1 [OF refl] tmp])
    then have "KPrintf_loop d tmp ptr (val # args) c = KPrintf_loop d tmp (ptr + 1 + 1) args c1"
      using at 4 by (subst KPrintf_loop.simps) (auto simp: Let_def)
    with that c1(2) 4 show ?thesis by (auto simp: conversion_text_def)
  qed
qed

lemma KPrintf_loop_prints:
  assumes tmp: "tmp_bytes tmp \<subseteq> other_bytes"
  shows "format_text strs s args = Some shown \<Longrightarrow> console_wf c \<Longrightarrow>
    format_ready tmp strs s ptr (string_args s args) (con_bytes c) \<Longrightarrow>
    \<exists>c'. KPrintf_loop d tmp ptr args c = Some c' \<and> prints c shown tmp c'"
proof (induction strs s args arbitrary: shown ptr c rule: format_text.induct)
  case (1 strs args)
  then have "con_bytes c ptr = 0" by (simp add: format_ready_def)
  with 1 show ?case by (subst KPrintf_loop.simps) (simp add: prints_none)
next
  case (2 strs ch s args)
  note head = format_ready_tail(1,2) [OF "2.prems"(3) subset_refl]
  show ?case
  proof (cases "ch = 0x25")
    case False
    with "2.prems" obtain rest1 where t: "format_text strs s args = Some rest1" "shown = [ch] @ rest1" by auto
    have ready: "format_ready tmp strs s (ptr + 1) (string_args s args) (con_bytes c)"
      by (rule format_ready_tail(3) [OF "2.prems"(3)]) (simp add: False)
    have run: "KPrintf_loop d tmp ptr args c = KPrintf_loop d tmp (ptr + 1) args (KPrintChar d ch c)"
      using head False by (subst KPrintf_loop.simps) simp
    show ?thesis unfolding run t(2)
      by (rule format_continue [OF prints_char [OF "2.prems"(2)] ready]) (rule "2.IH"(1) [OF False t(1)])
  next
    case pc: True
    then have npc: "\<not> ch \<noteq> 0x25" by simp
    from pc "2.prems"(1) obtain ch1 s1 where s: "s = ch1 # s1" by (cases s) auto
    let ?S = "string_args (ch # s) args"
    have mid: "format_ready tmp strs (ch1 # s1) (ptr + 1) ?S (con_bytes c)"
      using format_ready_tail(3) [OF "2.prems"(3) subset_refl] unfolding s .
    have ch1: "con_bytes c (ptr + 1) = ch1" using format_ready_tail(1) [OF mid subset_refl] .
    have ready: "format_ready tmp strs s1 (ptr + 1 + 1) S (con_bytes c)" if "S \<subseteq> ?S" for S
      by (rule format_ready_tail(3) [OF mid that])
    have pt: "con_bytes c ptr = 0x25" using head pc by simp
    show ?thesis
    proof (cases "ch1 \<in> {0x64, 0x75, 0x69, 0x78, 0x63, 0x73}")
      case False
      with "2.prems"(1) s pc obtain rest1 where t: "format_text strs s1 args = Some rest1" "shown = [ch1] @ rest1" by auto
      have run: "KPrintf_loop d tmp ptr args c = KPrintf_loop d tmp (ptr + 1 + 1) args (KPrintChar d ch1 c)"
        using pt ch1 False by (subst KPrintf_loop.simps) (simp add: Let_def)
      have sub: "string_args s1 args \<subseteq> ?S" using False s pc by simp
      show ?thesis unfolding run t(2)
        by (rule format_continue [OF prints_char [OF "2.prems"(2)] ready [OF sub]])
          (rule "2.IH"(3) [OF npc s False t(1)])
    next
      case True
      with "2.prems"(1) s pc obtain val args1 where args: "args = val # args1" by (cases args) auto
      then obtain rest1 where t: "format_text strs s1 args1 = Some rest1" "shown = conversion_text strs ch1 val @ rest1"
        using "2.prems"(1) s pc True by (auto simp: conversion_text_def)
      have S: "?S = (if ch1 = 0x73 then {val} else {}) \<union> string_args s1 args1" using s pc args True by simp
      then have "ch1 = 0x73 \<Longrightarrow> c_string (con_bytes c) val (strs val) \<and> string_bytes val (strs val) \<subseteq> other_bytes"
        using "2.prems"(3) by (auto simp: format_ready_def quiet_bytes_def)
      then obtain c1 where c1: "KPrintf_loop d tmp ptr args c = KPrintf_loop d tmp (ptr + 1 + 1) args1 c1"
        "prints c (conversion_text strs ch1 val) tmp c1"
        unfolding args by (rule conversion_step [OF "2.prems"(2) tmp pt ch1 True])
      have sub: "string_args s1 args1 \<subseteq> ?S" unfolding S by blast
      show ?thesis unfolding c1(1) t(2)
        by (rule format_continue [OF c1(2) ready [OF sub]]) (rule "2.IH"(2) [OF npc s True args t(1)])
    qed
  qed
qed


section \<open>Properties\<close>

text \<open>
  C26: \<^verbatim>\<open>KPrintf\<close> with a complete format and its arguments returns 0 and prints on the terminal exactly the
  text the format stands for: numbers in decimal or hexadecimal, characters, strings, and everything else
  literally. It writes to the screen and its own buffer only.
\<close>

theorem kprintf_prints_format_text:
  assumes "console_wf c" and "c_string (con_bytes c) fmt s" and "format_text strs s args = Some out"
    and "\<forall>p\<in>string_args s args. c_string (con_bytes c) p (strs p) \<and> string_bytes p (strs p) \<subseteq> quiet_bytes tmp"
    and "string_bytes fmt s \<subseteq> quiet_bytes tmp" and "tmp_bytes tmp \<subseteq> other_bytes"
  shows "\<exists>c'. KPrintf d tmp fmt args c = Some (0, c') \<and> console_wf c' \<and>
    terminal_of c' = terminal_string (s_Color c) out (terminal_of c) \<and>
    same_bytes (quiet_bytes tmp) (con_bytes c) (con_bytes c')"
proof -
  have "format_ready tmp strs s fmt (string_args s args) (con_bytes c)"
    using assms(2,4,5) by (simp add: format_ready_def)
  from KPrintf_loop_prints [OF assms(6,3,1) this] obtain c' where
    "KPrintf_loop d tmp fmt args c = Some c'" "prints c out tmp c'" by blast
  then show ?thesis by (simp add: KPrintf_def prints_def)
qed

text \<open>The console with the format \<^verbatim>\<open>"%d:%s"\<close> at \<^verbatim>\<open>0x3000\<close> in memory.\<close>

definition console_fmt :: console where
  "console_fmt = console_0\<lparr>con_bytes := text_memory(0x3000 := 0x25, 0x3001 := 0x64, 0x3002 := 0x3A,
     0x3003 := 0x25, 0x3004 := 0x73)\<rparr>"

theorem kprintf_prints_format_text_witness:
  "\<exists>c'. KPrintf crtc_device 0x8000 0x3000 [- 7, 0x2000] console_fmt = Some (0, c') \<and>
     terminal_of c' = terminal_string LightBrown (number_text (- 7) 10 @ [0x3A, 0x2C]) (terminal_of console_fmt)"
proof -
  let ?s = "[0x25, 0x64, 0x3A, 0x25, 0x73] :: u8 list" and ?strs = "\<lambda>_. [0x2C] :: u8 list"
  have wf: "console_wf console_fmt" using console_0_wf by (simp add: console_fmt_def console_wf_def)
  have str: "c_string (con_bytes console_fmt) 0x3000 ?s" by (simp add: console_fmt_def text_memory_def)
  have out: "format_text ?strs ?s [- 7, 0x2000] = Some (number_text (- 7) 10 @ [0x3A, 0x2C])" by simp
  have quiet: "string_bytes p s \<subseteq> quiet_bytes 0x8000" if "unat p + length s < 0x8000" for p s
    using that by (auto simp: quiet_bytes_def string_bytes_def other_bytes_def video_bytes_def tmp_bytes_def)
  have args: "\<forall>p\<in>string_args ?s [- 7, 0x2000].
      c_string (con_bytes console_fmt) p (?strs p) \<and> string_bytes p (?strs p) \<subseteq> quiet_bytes 0x8000"
    using quiet [of "0x2000" "[0x2C]"] by (simp add: console_fmt_def text_memory_def)
  have tmp: "tmp_bytes 0x8000 \<subseteq> other_bytes" by (auto simp: tmp_bytes_def other_bytes_def video_bytes_def)
  have color: "s_Color console_fmt = LightBrown" by (simp add: console_fmt_def console_0_def)
  from kprintf_prints_format_text [OF wf str out args quiet tmp, of crtc_device] color show ?thesis by auto
qed

end
