(* ===== verification/EstdAlgorithm.thy ===== *)
theory EstdAlgorithm
  imports Prelude
begin

text \<open>
  \<^verbatim>\<open>Kernel/ESTD/Algorithm.h\<close> and \<^verbatim>\<open>Kernel/ESTD/Bitwise.h\<close>: the alignment helpers the memory
  managers use and the mask operations the page entries are written with, at their
  \<^verbatim>\<open>uint32_t\<close> instances (the only ones the kernel makes, but for one signed \<^verbatim>\<open>BitTest\<close>).
\<close>

section \<open>Algorithm.h\<close>

definition ESTD_Min :: "u32 \<Rightarrow> u32 \<Rightarrow> u32" where
  "ESTD_Min a b = (if a < b then a else b)"

definition ESTD_Max :: "u32 \<Rightarrow> u32 \<Rightarrow> u32" where
  "ESTD_Max a b = (if a > b then a else b)"

definition AlignUp :: "u32 \<Rightarrow> u32 \<Rightarrow> u32" where
  "AlignUp data alignment =
     (if data mod alignment \<noteq> 0 then (data + alignment - 1) AND NOT (alignment - 1) else data)"

definition AlignDown :: "u32 \<Rightarrow> u32 \<Rightarrow> u32" where
  "AlignDown data alignment =
     (if data mod alignment \<noteq> 0 then data AND NOT (alignment - 1) else data)"

definition IsAligned :: "u32 \<Rightarrow> u32 \<Rightarrow> bool" where
  "IsAligned data alignment \<longleftrightarrow> data mod alignment = 0"

section \<open>Bitwise.h\<close>

definition BitSet :: "u32 \<Rightarrow> nat \<Rightarrow> u32" where
  "BitSet number pos = number OR push_bit pos 1"

definition BitClear :: "u32 \<Rightarrow> nat \<Rightarrow> u32" where
  "BitClear number pos = number AND NOT (push_bit pos 1)"

definition BitToggle :: "u32 \<Rightarrow> nat \<Rightarrow> u32" where
  "BitToggle number pos = number XOR push_bit pos 1"

definition BitTest :: "u32 \<Rightarrow> nat \<Rightarrow> bool" where
  "BitTest number pos \<longleftrightarrow> drop_bit pos number AND 1 \<noteq> 0"

definition BitmaskSet :: "u32 \<Rightarrow> u32 \<Rightarrow> u32" where
  "BitmaskSet number msk = number OR msk"

definition BitmaskClear :: "u32 \<Rightarrow> u32 \<Rightarrow> u32" where
  "BitmaskClear number msk = number AND NOT msk"

definition BitmaskToggle :: "u32 \<Rightarrow> u32 \<Rightarrow> u32" where
  "BitmaskToggle number msk = number XOR msk"

definition BitmaskTestOne :: "u32 \<Rightarrow> u32 \<Rightarrow> bool" where
  "BitmaskTestOne number msk \<longleftrightarrow> number AND msk \<noteq> 0"

definition BitmaskTestAll :: "u32 \<Rightarrow> u32 \<Rightarrow> bool" where
  "BitmaskTestAll number msk \<longleftrightarrow> \<not> (NOT number AND msk \<noteq> 0)"

lemmas bitmask_defs = BitmaskSet_def BitmaskClear_def BitmaskToggle_def BitmaskTestOne_def
  BitmaskTestAll_def

section \<open>Bits\<close>

lemma BitTest_iff: "BitTest x n \<longleftrightarrow> bit x n"
  by (simp add: BitTest_def and_one_eq bit_iff_odd_drop_bit odd_iff_mod_2_eq_one)

lemma BitmaskTestAll_iff: "BitmaskTestAll x m \<longleftrightarrow> x AND m = m"
  by (auto simp: BitmaskTestAll_def bit_eq_iff bit_simps)

lemma bit_BitSet: "pos < 32 \<Longrightarrow> bit (BitSet x pos) n \<longleftrightarrow> bit x n \<or> n = pos"
  by (auto simp: BitSet_def bit_simps)

lemma bit_BitClear: "pos < 32 \<Longrightarrow> bit (BitClear x pos) n \<longleftrightarrow> bit x n \<and> n \<noteq> pos"
  by (auto simp: BitClear_def bit_simps dest: bit_imp_le_length)

section \<open>Alignment\<close>

text \<open>
  The helpers mask with \<^verbatim>\<open>~(alignment - 1)\<close>, so they compute what their names say exactly for
  powers of two: \<open>2 ^ k\<close> with \<open>k < 32\<close>.
\<close>

lemma unat_exp32: "k < 32 \<Longrightarrow> unat (2 ^ k :: u32) = 2 ^ k"
  using unat_of_nat32 [of "2 ^ k"] power_strict_increasing [of k 32 "2::nat"] by simp

lemma and_not_alignment:
  assumes "k < 32"
  shows "unat ((x :: u32) AND NOT (2 ^ k - 1)) = unat x - unat x mod 2 ^ k"
proof -
  have "x AND NOT (2 ^ k - 1) = x - take_bit k x"
  proof -
    have "(x AND NOT (mask k)) + (x AND mask k) = (x AND NOT (mask k)) OR (x AND mask k)"
      by (rule disjunctive_add_eq_or) (auto simp: bit_eq_iff bit_simps)
    also have "\<dots> = x" by (auto simp: bit_eq_iff bit_simps)
    finally show ?thesis by (simp add: take_bit_eq_mask eq_diff_eq mask_eq_exp_minus_1)
  qed
  moreover have "unat (take_bit k x) = unat x mod 2 ^ k"
    unfolding unsigned_take_bit_eq by (rule take_bit_eq_mod)
  moreover have "take_bit k x \<le> x"
    using \<open>unat (take_bit k x) = _\<close> by (simp add: word_le_nat_alt)
  ultimately show ?thesis by (simp add: unat_sub_le)
qed

lemma IsAligned_iff: "IsAligned x a \<longleftrightarrow> unat x mod unat a = 0"
  by (simp add: IsAligned_def unat_mod_distrib flip: unat_eq_0)

lemma IsAligned_4096: "IsAligned x 4096 \<longleftrightarrow> unat x mod 4096 = 0"
  by (simp add: IsAligned_iff)

lemma AlignDown_unat:
  assumes "k < 32"
  shows "unat (AlignDown x (2 ^ k)) = unat x div 2 ^ k * 2 ^ k"
proof -
  have "x mod 2 ^ k = 0 \<longleftrightarrow> unat x mod 2 ^ k = 0"
    using IsAligned_iff [of x "2 ^ k"] assms by (simp add: IsAligned_def unat_exp32)
  then show ?thesis
    using assms by (auto simp: AlignDown_def and_not_alignment minus_mod_eq_div_mult)
qed

lemma AlignUp_unat:
  assumes "k < 32" and "unat x + 2 ^ k \<le> 2 ^ 32"
  shows "unat (AlignUp x (2 ^ k)) = (unat x + 2 ^ k - 1) div 2 ^ k * 2 ^ k"
proof (cases "unat x mod 2 ^ k = 0")
  case True
  then obtain q where q: "unat x = q * 2 ^ k" by (metis dvd_def mod_0_imp_dvd mult.commute)
  have "AlignUp x (2 ^ k) = x"
    using True IsAligned_iff [of x "2 ^ k"] assms(1)
    by (simp add: AlignUp_def IsAligned_def unat_exp32)
  moreover have "(q * 2 ^ k + 2 ^ k - 1) div 2 ^ k = q"
  proof (rule div_nat_eqI)
    have "0 < (2 :: nat) ^ k" by simp
    then show "2 ^ k * q \<le> q * 2 ^ k + 2 ^ k - 1" and "q * 2 ^ k + 2 ^ k - 1 < 2 ^ k * Suc q"
      by (simp_all only: mult.commute [of q] mult_Suc_right)
  qed
  ultimately show ?thesis using q by simp
next
  case False
  then have "x mod 2 ^ k \<noteq> 0"
    using IsAligned_iff [of x "2 ^ k"] assms(1) by (simp add: IsAligned_def unat_exp32)
  then have "AlignUp x (2 ^ k) = (x + 2 ^ k - 1) AND NOT (2 ^ k - 1)"
    by (simp add: AlignUp_def)
  moreover have "unat (x + 2 ^ k - 1) = unat x + 2 ^ k - 1"
  proof -
    have step: "unat (2 ^ k - 1 :: u32) = 2 ^ k - 1"
      using assms(1) by (simp add: unat_sub_le unat_exp32 word_le_nat_alt)
    have "0 < (2 :: nat) ^ k" by simp
    then have "unat (x + (2 ^ k - 1)) = unat x + (2 ^ k - 1)"
      using assms step by (subst unat_add_no_wrap) auto
    then show ?thesis using \<open>0 < 2 ^ k\<close> by (simp only: add_diff_eq)
  qed
  ultimately show ?thesis
    using assms(1) by (simp add: and_not_alignment minus_mod_eq_div_mult)
qed

end
