(* ===== verification/Processor.thy ===== *)
theory Processor
  imports KPrintf EstdAlgorithm
begin

text \<open>
  \<^verbatim>\<open>Kernel/Arch/x86\<close>: the descriptor tables (\<^verbatim>\<open>GDT\<close>, \<^verbatim>\<open>IDT\<close>), the interrupt gates and the fault handler
  (\<^verbatim>\<open>ISR\<close>), the interrupt controller (\<^verbatim>\<open>PIC8259\<close>) and \<^verbatim>\<open>Processor::Init\<close>. The addresses the linker gives to
  the tables and to the assembly stubs are parameters; \<^verbatim>\<open>lgdt\<close> and \<^verbatim>\<open>lidt\<close> are events. An index beyond a
  table would write behind it: the result is then \<open>None\<close>.
\<close>

section \<open>Enumerations\<close>

datatype SegmentSelector = KernelCode | KernelData | UserCode | UserData

primrec SegmentSelector_value :: "SegmentSelector \<Rightarrow> u16" where
  "SegmentSelector_value KernelCode = 0x08"
| "SegmentSelector_value KernelData = 0x10"
| "SegmentSelector_value UserCode = 0x18"
| "SegmentSelector_value UserData = 0x20"

datatype InterruptGateType = TaskGate | InterruptGate16 | TrapGate16 | InterruptGate32 | TrapGate32

primrec InterruptGateType_value :: "InterruptGateType \<Rightarrow> u8" where
  "InterruptGateType_value TaskGate = 0x05"
| "InterruptGateType_value InterruptGate16 = 0x06"
| "InterruptGateType_value TrapGate16 = 0x07"
| "InterruptGateType_value InterruptGate32 = 0x0E"
| "InterruptGateType_value TrapGate32 = 0x0F"

datatype CPUPrivilegeLevel = Ring0 | Ring1 | Ring2 | Ring3

primrec CPUPrivilegeLevel_value :: "CPUPrivilegeLevel \<Rightarrow> u8" where
  "CPUPrivilegeLevel_value Ring0 = 0"
| "CPUPrivilegeLevel_value Ring1 = 1"
| "CPUPrivilegeLevel_value Ring2 = 2"
| "CPUPrivilegeLevel_value Ring3 = 3"

text \<open>Privilege levels are ordered as the processor compares them.\<close>

instantiation CPUPrivilegeLevel :: linorder
begin

definition less_eq_CPUPrivilegeLevel :: "CPUPrivilegeLevel \<Rightarrow> CPUPrivilegeLevel \<Rightarrow> bool" where
  "less_eq_CPUPrivilegeLevel a b \<longleftrightarrow> CPUPrivilegeLevel_value a \<le> CPUPrivilegeLevel_value b"

definition less_CPUPrivilegeLevel :: "CPUPrivilegeLevel \<Rightarrow> CPUPrivilegeLevel \<Rightarrow> bool" where
  "less_CPUPrivilegeLevel a b \<longleftrightarrow> CPUPrivilegeLevel_value a < CPUPrivilegeLevel_value b"

instance
proof
  fix x y z :: CPUPrivilegeLevel
  show "x < y \<longleftrightarrow> x \<le> y \<and> \<not> y \<le> x"
    by (auto simp: less_CPUPrivilegeLevel_def less_eq_CPUPrivilegeLevel_def)
  show "x \<le> x" by (simp add: less_eq_CPUPrivilegeLevel_def)
  show "x \<le> y \<Longrightarrow> y \<le> z \<Longrightarrow> x \<le> z" by (auto simp: less_eq_CPUPrivilegeLevel_def)
  show "x \<le> y \<Longrightarrow> y \<le> x \<Longrightarrow> x = y"
    by (cases x; cases y) (simp_all add: less_eq_CPUPrivilegeLevel_def word_le_nat_alt)
  show "x \<le> y \<or> y \<le> x" by (auto simp: less_eq_CPUPrivilegeLevel_def)
qed

end

record InterruptFrame =
  DS :: u32
  EDI :: u32
  ESI :: u32
  EBP :: u32
  IESP :: u32
  EBX :: u32
  EDX :: u32
  ECX :: u32
  EAX :: u32
  InterruptNumber :: u32
  ErrorCode :: u32
  EIP :: u32
  CS :: u32
  EFLAGS :: u32
  ESP :: u32
  SS :: u32

section \<open>Tables\<close>

record GDTDesc =
  LimitLow :: u16
  BaseLow :: u16
  BaseMid :: u8
  Access :: u8
  Granularity :: u8
  BaseHigh :: u8

record GDTRDesc =
  GDTR_Limit :: u16
  GDTR_Base :: u32

record IDTDesc =
  OffsetLow :: u16
  Selector :: u16
  IDT_Reserved :: u8
  Flags :: u8
  OffsetHigh :: u16

record IDTRDesc =
  IDTR_Limit :: u16
  IDTR_Base :: u32

datatype table_event = GDTLoad u16 u32 | IDTLoad u16 u32

record processor =
  s_GDTR :: GDTRDesc
  s_GDT :: "GDTDesc list"
  s_IDTR :: IDTRDesc
  s_IDT :: "IDTDesc list"
  table_trace :: "table_event list"
  cpu_ports :: port_trace

text \<open>The addresses of the two tables and of the stubs \<^verbatim>\<open>ISR0\<close> to \<^verbatim>\<open>ISR31\<close>.\<close>

record table_symbols =
  addr_s_GDT :: u32
  addr_s_IDT :: u32
  addr_ISR :: "nat \<Rightarrow> u32"

definition x86_GDT_TOTAL_SEGMENTS :: nat where "x86_GDT_TOTAL_SEGMENTS = 5"
definition x86_IDT_TOTAL_INTERRUPTS :: nat where "x86_IDT_TOTAL_INTERRUPTS = 256"

text \<open>Both descriptors are 8 bytes.\<close>

definition GDT_SetGate :: "u32 \<Rightarrow> u32 \<Rightarrow> u32 \<Rightarrow> u8 \<Rightarrow> u8 \<Rightarrow> processor \<Rightarrow> processor option" where
  "GDT_SetGate seg base limit access gran p =
     (if unat seg < length (s_GDT p)
      then let g = s_GDT p ! unat seg;
               g = g\<lparr>BaseLow := ucast (base AND 0xffff), BaseMid := ucast (drop_bit 16 base AND 0xff),
                 BaseHigh := ucast (drop_bit 24 base AND 0xff), LimitLow := ucast (limit AND 0x0000ffff),
                 Granularity := ucast (drop_bit 16 limit AND 0x0F)\<rparr>;
               g = g\<lparr>Granularity := Granularity g OR (gran AND 0xF0), Access := access\<rparr>
           in Some (p\<lparr>s_GDT := (s_GDT p)[unat seg := g]\<rparr>)
      else None)"

definition GDT_Init :: "table_symbols \<Rightarrow> processor \<Rightarrow> (int \<times> processor) option" where
  "GDT_Init sy p = do {
     p0 \<leftarrow> Some (p\<lparr>s_GDTR := \<lparr>GDTR_Limit = of_nat (8 * x86_GDT_TOTAL_SEGMENTS) - 1, GDTR_Base = addr_s_GDT sy\<rparr>\<rparr>);
     p1 \<leftarrow> GDT_SetGate 0 0 0 0 0 p0;
     p2 \<leftarrow> GDT_SetGate 1 0 0xffffffff 0x9a 0xcf p1;
     p3 \<leftarrow> GDT_SetGate 2 0 0xffffffff 0x92 0xcf p2;
     p4 \<leftarrow> GDT_SetGate 3 0 0xffffffff 0xf8 0xcf p3;
     p5 \<leftarrow> GDT_SetGate 4 0 0xffffffff 0xf2 0xcf p4;
     Some (0, p5\<lparr>table_trace := GDTLoad (GDTR_Limit (s_GDTR p5)) (GDTR_Base (s_GDTR p5)) # table_trace p5\<rparr>)
   }"

definition IDT_SetGate ::
  "u32 \<Rightarrow> u32 \<Rightarrow> SegmentSelector \<Rightarrow> InterruptGateType \<Rightarrow> CPUPrivilegeLevel \<Rightarrow> processor \<Rightarrow> processor option" where
  "IDT_SetGate interrupt base selector gate dpl p =
     (if unat interrupt < length (s_IDT p)
      then let g = s_IDT p ! unat interrupt;
               g = g\<lparr>OffsetLow := ucast (base AND 0xFFFF), Selector := SegmentSelector_value selector,
                 IDT_Reserved := 0,
                 Flags := push_bit 7 1 OR push_bit 5 (CPUPrivilegeLevel_value dpl) OR InterruptGateType_value gate,
                 OffsetHigh := ucast (drop_bit 16 base AND 0xFFFF)\<rparr>
           in Some (p\<lparr>s_IDT := (s_IDT p)[unat interrupt := g]\<rparr>)
      else None)"

text \<open>The 32 calls, in order.\<close>

primrec ISRInstall_from :: "(nat \<Rightarrow> u32) \<Rightarrow> nat \<Rightarrow> nat \<Rightarrow> processor \<Rightarrow> processor option" where
  "ISRInstall_from isr 0 i p = Some p"
| "ISRInstall_from isr (Suc n) i p = do {
     p1 \<leftarrow> IDT_SetGate (of_nat i) (isr i) KernelCode InterruptGate32 Ring0 p;
     ISRInstall_from isr n (Suc i) p1
   }"

definition ISRInstall :: "table_symbols \<Rightarrow> processor \<Rightarrow> processor option" where
  "ISRInstall sy p = ISRInstall_from (addr_ISR sy) 32 0 p"

definition IDT_Init :: "table_symbols \<Rightarrow> processor \<Rightarrow> (int \<times> processor) option" where
  "IDT_Init sy p = do {
     p1 \<leftarrow> ISRInstall sy
       (p\<lparr>s_IDTR := \<lparr>IDTR_Limit = of_nat (8 * x86_IDT_TOTAL_INTERRUPTS) - 1, IDTR_Base = addr_s_IDT sy\<rparr>\<rparr>);
     Some (0, p1\<lparr>table_trace := IDTLoad (IDTR_Limit (s_IDTR p1)) (IDTR_Base (s_IDTR p1)) # table_trace p1\<rparr>)
   }"

section \<open>The interrupt controller\<close>

definition PIC1_COMMAND :: u16 where "PIC1_COMMAND = 0x20"
definition PIC1_DATA :: u16 where "PIC1_DATA = 0x21"
definition PIC2_COMMAND :: u16 where "PIC2_COMMAND = 0xA0"
definition PIC2_DATA :: u16 where "PIC2_DATA = 0xA1"
definition PIC_EOI :: u8 where "PIC_EOI = 0x20"
definition PIC1_OFFSET :: u8 where "PIC1_OFFSET = 0x20"
definition PIC2_OFFSET :: u8 where "PIC2_OFFSET = 0x28"

lemmas pic_constants = PIC1_COMMAND_def PIC1_DATA_def PIC2_COMMAND_def PIC2_DATA_def PIC_EOI_def
  PIC1_OFFSET_def PIC2_OFFSET_def

definition PIC8259_Remap :: "device \<Rightarrow> port_trace \<Rightarrow> int \<times> port_trace" where
  "PIC8259_Remap d t =
     (let (a1, t1) = INSB d PIC1_DATA t;
          (a2, t2) = INSB d PIC2_DATA t1;
          t3 = OUTB PIC1_COMMAND (0x10 OR 0x01) t2;
          t4 = OUTB PIC1_DATA PIC1_OFFSET t3;
          t5 = OUTB PIC1_DATA 4 t4;
          t6 = OUTB PIC1_DATA 0x01 t5;
          t7 = OUTB PIC2_COMMAND (0x10 OR 0x01) t6;
          t8 = OUTB PIC2_DATA PIC2_OFFSET t7;
          t9 = OUTB PIC2_DATA 2 t8;
          t10 = OUTB PIC2_DATA 0x01 t9;
          t11 = OUTB PIC1_DATA a1 t10
      in (0, OUTB PIC2_DATA a2 t11))"

definition PIC8259_Init :: "device \<Rightarrow> port_trace \<Rightarrow> int \<times> port_trace" where
  "PIC8259_Init d t = PIC8259_Remap d t"

definition PIC8259_Shutdown :: "port_trace \<Rightarrow> port_trace" where
  "PIC8259_Shutdown t = OUTB PIC2_DATA 0xFF (OUTB PIC1_DATA 0xFF t)"

definition PIC8259_SendEOI :: "u32 \<Rightarrow> port_trace \<Rightarrow> port_trace" where
  "PIC8259_SendEOI irq t =
     OUTB PIC1_COMMAND PIC_EOI (if irq \<ge> 8 then OUTB PIC2_COMMAND PIC_EOI t else t)"

text \<open>
  None of the three parts can fail, so \<^verbatim>\<open>KPanic\<close> is never reached; its branches are \<open>Inl\<close> with the part
  that failed.
\<close>

datatype init_failure = GDT_failed | IDT_failed | PIC_failed

definition Processor_Init ::
  "device \<Rightarrow> table_symbols \<Rightarrow> processor \<Rightarrow> (init_failure + int \<times> processor) option" where
  "Processor_Init d sy p = do {
     (r1, p1) \<leftarrow> GDT_Init sy p;
     (if r1 \<noteq> 0 then Some (Inl GDT_failed)
      else do {
        (r2, p2) \<leftarrow> IDT_Init sy p1;
        (if r2 \<noteq> 0 then Some (Inl IDT_failed)
         else let (r3, t) = PIC8259_Init d (cpu_ports p2)
              in if r3 \<noteq> 0 then Some (Inl PIC_failed) else Some (Inr (0, p2\<lparr>cpu_ports := t\<rparr>)))
      })
   }"

section \<open>The fault handler\<close>

text \<open>
  The string literals the handler prints: the two messages about a page fault and the table of exception
  messages. \<^verbatim>\<open>cr2\<close> is the address the processor reports. The result is the console, and whether the kernel
  has stopped in \<^verbatim>\<open>KPanic\<close>.
\<close>

record fault_literals =
  msg_PageFault :: u32
  msg_IsPresent :: u32
  ExceptionMessages :: "nat \<Rightarrow> u32"

definition x86ISRFaultHandler ::
  "device \<Rightarrow> fault_literals \<Rightarrow> u32 \<Rightarrow> u32 \<Rightarrow> InterruptFrame \<Rightarrow> console \<Rightarrow> (bool \<times> console) option" where
  "x86ISRFaultHandler d lit tmp cr2 frame c = do {
     c1 \<leftarrow> (if InterruptNumber frame = 14
           then do {
             (r, c0) \<leftarrow> KPrintf d tmp (msg_PageFault lit) [cr2] c;
             (r, c1) \<leftarrow> KPrintf d tmp (msg_IsPresent lit) [if BitTest (ErrorCode frame) 0 then 1 else 0] c0;
             Some c1
           }
           else Some c);
     (if InterruptNumber frame < 32
      then do { c2 \<leftarrow> KPanic d tmp (ExceptionMessages lit (unat (InterruptNumber frame))) c1; Some (True, c2) }
      else Some (False, c1))
   }"

section \<open>What the descriptors say\<close>

text \<open>The fields as the processor puts them together again.\<close>

definition segment_base :: "GDTDesc \<Rightarrow> u32" where
  "segment_base g = ucast (BaseLow g) OR push_bit 16 (ucast (BaseMid g)) OR push_bit 24 (ucast (BaseHigh g))"

definition segment_limit :: "GDTDesc \<Rightarrow> u32" where
  "segment_limit g = ucast (LimitLow g) OR push_bit 16 (ucast (Granularity g AND 0x0F))"

definition segment_flags :: "GDTDesc \<Rightarrow> u8" where
  "segment_flags g = drop_bit 4 (Granularity g)"

definition descriptor_present :: "u8 \<Rightarrow> bool" where
  "descriptor_present access = bit access 7"

definition descriptor_level :: "u8 \<Rightarrow> u8" where
  "descriptor_level access = drop_bit 5 access AND 3"

definition gate_offset :: "IDTDesc \<Rightarrow> u32" where
  "gate_offset g = ucast (OffsetLow g) OR push_bit 16 (ucast (OffsetHigh g))"

definition gate_type :: "IDTDesc \<Rightarrow> u8" where
  "gate_type g = Flags g AND 0x0F"

text \<open>The constants that cut a word are masks of its low bits.\<close>

lemma low_masks:
  "x AND 0xff = take_bit 8 x" "x AND 0xffff = take_bit 16 x" "x AND 0x0F = take_bit 4 x" for x :: u32
  by (simp_all add: take_bit_eq_mask mask_eq_exp_minus_1)

lemma low_mask_byte: "x AND 0x0F = take_bit 4 x" for x :: u8
  by (simp add: take_bit_eq_mask mask_eq_exp_minus_1)

lemma high_mask_byte: "x AND 0xF0 = push_bit 4 (drop_bit 4 x)" for x :: u8
proof -
  have m: "(0xF0 :: u8) = push_bit 4 (mask 4)" by (simp add: mask_eq_exp_minus_1)
  show ?thesis unfolding m by (rule bit_word_eqI) (auto simp: bit_simps)
qed

lemma word_of_three:
  "ucast (ucast (base AND 0xffff :: u32) :: u16) OR push_bit 16 (ucast (ucast (drop_bit 16 base AND 0xff) :: u8))
    OR push_bit 24 (ucast (ucast (drop_bit 24 base AND 0xff) :: u8)) = base"
proof (rule bit_word_eqI)
  fix n assume "n < LENGTH(32)"
  then consider "n < 16" | "16 \<le> n" "n < 24" | "24 \<le> n" "n < 32" by fastforce
  then show "bit (ucast (ucast (base AND 0xffff :: u32) :: u16) OR
      push_bit 16 (ucast (ucast (drop_bit 16 base AND 0xff) :: u8)) OR
      push_bit 24 (ucast (ucast (drop_bit 24 base AND 0xff) :: u8)) :: u32) n \<longleftrightarrow> bit base n"
    by cases (auto simp: low_masks bit_simps)
qed

lemma word_of_two:
  "ucast (ucast (base AND 0xffff :: u32) :: u16) OR push_bit 16 (ucast (ucast (drop_bit 16 base AND 0xffff) :: u16))
    = base"
  by (rule bit_word_eqI) (auto simp: low_masks bit_simps)

lemma limit_of_two:
  "ucast (ucast (limit AND 0xffff :: u32) :: u16) OR
    push_bit 16 (ucast ((ucast (drop_bit 16 limit AND 0x0F) OR (gran AND 0xF0) :: u8) AND 0x0F)) = take_bit 20 limit"
  by (rule bit_word_eqI) (auto simp: low_masks low_mask_byte high_mask_byte bit_simps)

lemma flags_of_two:
  "drop_bit 4 (ucast (drop_bit 16 limit AND 0x0F :: u32) OR (gran AND 0xF0) :: u8) = drop_bit 4 gran"
  by (rule bit_word_eqI) (auto simp: low_masks high_mask_byte bit_simps dest: bit_imp_le_length)

lemma GDT_SetGate_fields:
  assumes "unat seg < length (s_GDT p)"
  obtains g where "GDT_SetGate seg base limit access gran p = Some (p\<lparr>s_GDT := (s_GDT p)[unat seg := g]\<rparr>)"
    and "segment_base g = base" and "segment_limit g = take_bit 20 limit"
    and "segment_flags g = drop_bit 4 gran" and "Access g = access"
  using assms
  by (intro that [of "(s_GDT p ! unat seg)\<lparr>BaseLow := ucast (base AND 0xffff),
      BaseMid := ucast (drop_bit 16 base AND 0xff), BaseHigh := ucast (drop_bit 24 base AND 0xff),
      LimitLow := ucast (limit AND 0x0000ffff),
      Granularity := ucast (drop_bit 16 limit AND 0x0F) OR (gran AND 0xF0), Access := access\<rparr>"])
    (simp_all add: GDT_SetGate_def segment_base_def segment_limit_def segment_flags_def Let_def
      word_of_three limit_of_two flags_of_two del: drop_bit_or)

lemma IDT_SetGate_fields:
  assumes "unat i < length (s_IDT p)"
  obtains g where "IDT_SetGate i base sel gate dpl p = Some (p\<lparr>s_IDT := (s_IDT p)[unat i := g]\<rparr>)"
    and "gate_offset g = base" and "Selector g = SegmentSelector_value sel"
    and "gate_type g = InterruptGateType_value gate" and "descriptor_present (Flags g)"
    and "descriptor_level (Flags g) = CPUPrivilegeLevel_value dpl"
proof -
  let ?f = "push_bit 7 1 OR push_bit 5 (CPUPrivilegeLevel_value dpl) OR InterruptGateType_value gate :: u8"
  have flags: "?f AND 0x0F = InterruptGateType_value gate" "bit ?f 7" "drop_bit 5 ?f AND 3 = CPUPrivilegeLevel_value dpl"
    by (cases gate; cases dpl; simp add: push_bit_eq_mult)+
  show ?thesis
    using assms flags
    by (intro that [of "(s_IDT p ! unat i)\<lparr>OffsetLow := ucast (base AND 0xFFFF),
        Selector := SegmentSelector_value sel, IDT_Reserved := 0, Flags := ?f,
        OffsetHigh := ucast (drop_bit 16 base AND 0xFFFF)\<rparr>"])
      (simp_all add: IDT_SetGate_def gate_offset_def gate_type_def descriptor_present_def descriptor_level_def
        word_of_two Let_def)
qed

text \<open>The gates of \<open>ISRInstall\<close>: each names its stub, in the kernel's code segment, for ring 0 only.\<close>

definition isr_gate :: "u32 \<Rightarrow> IDTDesc \<Rightarrow> bool" where
  "isr_gate stub g \<longleftrightarrow> gate_offset g = stub \<and> Selector g = 0x08 \<and> gate_type g = 0x0E \<and>
     descriptor_present (Flags g) \<and> descriptor_level (Flags g) = 0"

lemma ISRInstall_from_gates:
  assumes "i + n \<le> length (s_IDT p)" and "length (s_IDT p) \<le> 256"
  shows "\<exists>l. ISRInstall_from isr n i p = Some (p\<lparr>s_IDT := l\<rparr>) \<and> length l = length (s_IDT p) \<and>
    (\<forall>j<length l. if i \<le> j \<and> j < i + n then isr_gate (isr j) (l ! j) else l ! j = s_IDT p ! j)"
  using assms
proof (induction n arbitrary: i p)
  case (Suc n)
  have i: "unat (of_nat i :: u32) = i" using Suc.prems by (simp add: unat_of_nat32)
  have "unat (of_nat i :: u32) < length (s_IDT p)" using i Suc.prems by simp
  then obtain g where g: "IDT_SetGate (of_nat i) (isr i) KernelCode InterruptGate32 Ring0 p =
      Some (p\<lparr>s_IDT := (s_IDT p)[i := g]\<rparr>)" "isr_gate (isr i) g"
    by (rule IDT_SetGate_fields [where base = "isr i" and sel = KernelCode and gate = InterruptGate32 and dpl = Ring0])
      (auto simp: i isr_gate_def)
  obtain l where l: "ISRInstall_from isr n (Suc i) (p\<lparr>s_IDT := (s_IDT p)[i := g]\<rparr>) = Some (p\<lparr>s_IDT := l\<rparr>)"
    "length l = length (s_IDT p)"
    "\<forall>j<length l. if Suc i \<le> j \<and> j < Suc i + n then isr_gate (isr j) (l ! j) else l ! j = (s_IDT p)[i := g] ! j"
    using Suc.IH [of "Suc i" "p\<lparr>s_IDT := (s_IDT p)[i := g]\<rparr>"] Suc.prems by auto
  have "if i \<le> j \<and> j < i + Suc n then isr_gate (isr j) (l ! j) else l ! j = s_IDT p ! j" if "j < length l" for j
  proof (cases "j = i")
    case True
    with l(2,3) g(2) that show ?thesis by auto
  next
    case False
    with l(3) that show ?thesis by (auto split: if_splits)
  qed
  with l(2) have "length l = length (s_IDT p) \<and>
      (\<forall>j<length l. if i \<le> j \<and> j < i + Suc n then isr_gate (isr j) (l ! j) else l ! j = s_IDT p ! j)" by blast
  moreover have "ISRInstall_from isr (Suc n) i p = Some (p\<lparr>s_IDT := l\<rparr>)" using g(1) l(1) by simp
  ultimately show ?case by blast
next
  case 0
  show ?case by (rule exI [of _ "s_IDT p"]) (cases p; auto)
qed

text \<open>A segment of 4 GB from address 0 with the given access byte.\<close>

definition flat_segment :: "u8 \<Rightarrow> GDTDesc \<Rightarrow> bool" where
  "flat_segment access g \<longleftrightarrow> segment_base g = 0 \<and> segment_limit g = 0xFFFFF \<and> segment_flags g = 0xC \<and>
     Access g = access"

lemma flat_gate:
  assumes "unat seg = i" and "i < length (s_GDT p)"
  obtains g where "GDT_SetGate seg 0 0xffffffff access 0xcf p = Some (p\<lparr>s_GDT := (s_GDT p)[i := g]\<rparr>)"
    and "flat_segment access g"
proof -
  have "take_bit 20 (0xffffffff :: u32) = 0xFFFFF" "drop_bit 4 (0xcf :: u8) = 0xC"
    by (simp_all add: take_bit_eq_mod drop_bit_eq_div)
  then show ?thesis
    using GDT_SetGate_fields [of seg p 0 "0xffffffff" access "0xcf"] assms that by (metis flat_segment_def)
qed

lemma GDT_Init_segments:
  assumes "length (s_GDT p) = 5"
  obtains r g0 g1 g2 g3 g4 where "GDT_Init sy p = Some (0, p\<lparr>s_GDTR := r, s_GDT := [g0, g1, g2, g3, g4],
      table_trace := GDTLoad 39 (addr_s_GDT sy) # table_trace p\<rparr>)"
    and "Access g0 = 0" and "flat_segment 0x9a g1" and "flat_segment 0x92 g2" and "flat_segment 0xf8 g3"
    and "flat_segment 0xf2 g4"
proof -
  obtain a b c d e where l: "s_GDT p = [a, b, c, d, e]"
    using assms by (auto simp: length_Suc_conv eval_nat_numeral)
  let ?p0 = "p\<lparr>s_GDTR := \<lparr>GDTR_Limit = 39, GDTR_Base = addr_s_GDT sy\<rparr>\<rparr>"
  obtain g0 where g0: "GDT_SetGate 0 0 0 0 0 ?p0 = Some (?p0\<lparr>s_GDT := [g0, b, c, d, e]\<rparr>)" "Access g0 = 0"
    by (rule GDT_SetGate_fields [of 0 ?p0 0 0 0 0]) (auto simp: l)
  obtain g1 where g1: "GDT_SetGate 1 0 0xffffffff 0x9a 0xcf (?p0\<lparr>s_GDT := [g0, b, c, d, e]\<rparr>) =
      Some (?p0\<lparr>s_GDT := [g0, g1, c, d, e]\<rparr>)" "flat_segment 0x9a g1"
    by (rule flat_gate [of 1 "Suc 0" "?p0\<lparr>s_GDT := [g0, b, c, d, e]\<rparr>" "0x9a"]) auto
  obtain g2 where g2: "GDT_SetGate 2 0 0xffffffff 0x92 0xcf (?p0\<lparr>s_GDT := [g0, g1, c, d, e]\<rparr>) =
      Some (?p0\<lparr>s_GDT := [g0, g1, g2, d, e]\<rparr>)" "flat_segment 0x92 g2"
    by (rule flat_gate [of 2 "Suc (Suc 0)" "?p0\<lparr>s_GDT := [g0, g1, c, d, e]\<rparr>" "0x92"]) auto
  obtain g3 where g3: "GDT_SetGate 3 0 0xffffffff 0xf8 0xcf (?p0\<lparr>s_GDT := [g0, g1, g2, d, e]\<rparr>) =
      Some (?p0\<lparr>s_GDT := [g0, g1, g2, g3, e]\<rparr>)" "flat_segment 0xf8 g3"
    by (rule flat_gate [of 3 "Suc (Suc (Suc 0))" "?p0\<lparr>s_GDT := [g0, g1, g2, d, e]\<rparr>" "0xf8"]) auto
  obtain g4 where g4: "GDT_SetGate 4 0 0xffffffff 0xf2 0xcf (?p0\<lparr>s_GDT := [g0, g1, g2, g3, e]\<rparr>) =
      Some (?p0\<lparr>s_GDT := [g0, g1, g2, g3, g4]\<rparr>)" "flat_segment 0xf2 g4"
    by (rule flat_gate [of 4 "Suc (Suc (Suc (Suc 0)))" "?p0\<lparr>s_GDT := [g0, g1, g2, g3, e]\<rparr>" "0xf2"]) auto
  have "GDT_Init sy p = Some (0, p\<lparr>s_GDTR := \<lparr>GDTR_Limit = 39, GDTR_Base = addr_s_GDT sy\<rparr>,
      s_GDT := [g0, g1, g2, g3, g4], table_trace := GDTLoad 39 (addr_s_GDT sy) # table_trace p\<rparr>)"
    using g0(1) g1(1) g2(1) g3(1) g4(1) by (simp add: GDT_Init_def x86_GDT_TOTAL_SEGMENTS_def)
  from that [OF this g0(2) g1(2) g2(2) g3(2) g4(2)] show ?thesis .
qed

lemma IDT_Init_gates:
  assumes "length (s_IDT p) = 256"
  obtains r l where "IDT_Init sy p = Some (0, p\<lparr>s_IDTR := r, s_IDT := l,
      table_trace := IDTLoad 2047 (addr_s_IDT sy) # table_trace p\<rparr>)"
    and "length l = 256" and "\<forall>j<32. isr_gate (addr_ISR sy j) (l ! j)" and "\<forall>j\<in>{32..<256}. l ! j = s_IDT p ! j"
proof -
  let ?r = "\<lparr>IDTR_Limit = 2047, IDTR_Base = addr_s_IDT sy\<rparr>"
  let ?p = "p\<lparr>s_IDTR := ?r\<rparr>"
  have fits: "0 + 32 \<le> length (s_IDT ?p)" "length (s_IDT ?p) \<le> 256" using assms by simp_all
  from ISRInstall_from_gates [OF fits, of "addr_ISR sy"] obtain l where
    l: "ISRInstall_from (addr_ISR sy) 32 0 ?p = Some (?p\<lparr>s_IDT := l\<rparr>)" "length l = length (s_IDT ?p)"
    "\<forall>j<length l. if 0 \<le> j \<and> j < 0 + 32 then isr_gate (addr_ISR sy j) (l ! j) else l ! j = s_IDT ?p ! j"
    by blast
  from l(2) assms have len: "length l = 256" by simp
  have "IDT_Init sy p = Some (0, p\<lparr>s_IDTR := ?r, s_IDT := l,
      table_trace := IDTLoad 2047 (addr_s_IDT sy) # table_trace p\<rparr>)"
    using l(1) by (simp add: IDT_Init_def ISRInstall_def x86_IDT_TOTAL_INTERRUPTS_def)
  moreover have "isr_gate (addr_ISR sy j) (l ! j)" if "j < 32" for j
    using l(3) [rule_format, of j] that len by simp
  moreover have "l ! j = s_IDT p ! j" if "j \<in> {32..<256}" for j
    using l(3) [rule_format, of j] that len by simp
  ultimately show ?thesis using that len by blast
qed

section \<open>The controllers\<close>

text \<open>
  An 8259 as its data sheet describes it, for what the kernel writes: a write to the command port with bit 4
  set is ICW1, which clears the mask and announces the words that follow on the data port (ICW3 unless bit 1
  is set, ICW4 if bit 0 is set). Otherwise a write to the data port is the mask, which is also what a read
  of that port returns.
\<close>

datatype icw = ICW2 | ICW3 | ICW4

record pic =
  pic_expect :: "icw list"
  pic_vector :: u8
  pic_cascade :: u8
  pic_mode :: u8
  pic_mask :: u8

definition pic_data :: "u8 \<Rightarrow> pic \<Rightarrow> pic" where
  "pic_data v s = (case pic_expect s of
     [] \<Rightarrow> s\<lparr>pic_mask := v\<rparr>
   | ICW2 # r \<Rightarrow> s\<lparr>pic_vector := v AND 0xF8, pic_expect := r\<rparr>
   | ICW3 # r \<Rightarrow> s\<lparr>pic_cascade := v, pic_expect := r\<rparr>
   | ICW4 # r \<Rightarrow> s\<lparr>pic_mode := v, pic_expect := r\<rparr>)"

definition pic_event :: "u16 \<Rightarrow> port_event \<Rightarrow> pic \<Rightarrow> pic" where
  "pic_event base e s = (case e of
     Out8 q v \<Rightarrow>
       if q = base then (if bit v 4 then s\<lparr>pic_mask := 0,
         pic_expect := ICW2 # (if bit v 1 then [] else [ICW3]) @ (if bit v 0 then [ICW4] else [])\<rparr> else s)
       else if q = base + 1 then pic_data v s else s
   | _ \<Rightarrow> s)"

definition pic_view :: "u16 \<Rightarrow> pic \<Rightarrow> port_trace \<Rightarrow> pic" where
  "pic_view base ini t = foldr (pic_event base) t ini"

definition pic_device :: "device \<Rightarrow> pic \<Rightarrow> pic \<Rightarrow> bool" where
  "pic_device d ini1 ini2 \<longleftrightarrow>
     (\<forall>t. pic_expect (pic_view PIC1_COMMAND ini1 t) = [] \<longrightarrow>
        dev_in8 d t PIC1_DATA = pic_mask (pic_view PIC1_COMMAND ini1 t)) \<and>
     (\<forall>t. pic_expect (pic_view PIC2_COMMAND ini2 t) = [] \<longrightarrow>
        dev_in8 d t PIC2_DATA = pic_mask (pic_view PIC2_COMMAND ini2 t))"

lemma pic_view_Cons [simp]: "pic_view b ini (e # t) = pic_event b e (pic_view b ini t)"
  by (simp add: pic_view_def)

lemma pic_view_in [simp]: "pic_view b ini (snd (INSB d q t)) = pic_view b ini t"
  by (simp add: INSB_def pic_event_def Let_def)

lemma pic_view_out:
  "pic_view b ini (OUTB q v t) = (let s = pic_view b ini t in
     if q = b then (if bit v 4 then s\<lparr>pic_mask := 0,
       pic_expect := ICW2 # (if bit v 1 then [] else [ICW3]) @ (if bit v 0 then [ICW4] else [])\<rparr> else s)
     else if q = b + 1 then pic_data v s else s)"
  by (simp add: OUTB_def pic_event_def)

text \<open>The vector of an interrupt line, and whether the two controllers let it through.\<close>

definition irq_vector :: "pic \<Rightarrow> pic \<Rightarrow> nat \<Rightarrow> nat" where
  "irq_vector master slave irq =
     (if irq < 8 then unat (pic_vector master) + irq else unat (pic_vector slave) + (irq - 8))"

lemma Remap_view:
  assumes d: "pic_device d ini1 ini2"
    and ready: "pic_expect (pic_view PIC1_COMMAND ini1 t) = []" "pic_expect (pic_view PIC2_COMMAND ini2 t) = []"
  obtains t' where "PIC8259_Init d t = (0, t')"
    and "pic_view PIC1_COMMAND ini1 t' = \<lparr>pic_expect = [], pic_vector = 0x20, pic_cascade = 4, pic_mode = 1,
      pic_mask = pic_mask (pic_view PIC1_COMMAND ini1 t)\<rparr>"
    and "pic_view PIC2_COMMAND ini2 t' = \<lparr>pic_expect = [], pic_vector = 0x28, pic_cascade = 2, pic_mode = 1,
      pic_mask = pic_mask (pic_view PIC2_COMMAND ini2 t)\<rparr>"
proof -
  have a1: "fst (INSB d PIC1_DATA t) = pic_mask (pic_view PIC1_COMMAND ini1 t)"
    using d ready by (simp add: pic_device_def INSB_def Let_def)
  have a2: "fst (INSB d PIC2_DATA (snd (INSB d PIC1_DATA t))) = pic_mask (pic_view PIC2_COMMAND ini2 t)"
    using d ready by (simp add: pic_device_def INSB_def Let_def pic_event_def)
  have ports: "PIC1_DATA = PIC1_COMMAND + 1" "PIC2_DATA = PIC2_COMMAND + 1" "PIC1_COMMAND \<noteq> PIC2_COMMAND"
    "PIC1_COMMAND \<noteq> PIC2_COMMAND + 1" "PIC2_COMMAND \<noteq> PIC1_COMMAND + 1" by (simp_all add: pic_constants)
  obtain e1 v1 c1 m1 k1 where s1: "pic_view PIC1_COMMAND ini1 t = \<lparr>pic_expect = e1, pic_vector = v1,
    pic_cascade = c1, pic_mode = m1, pic_mask = k1\<rparr>" by (cases "pic_view PIC1_COMMAND ini1 t") simp
  obtain e2 v2 c2 m2 k2 where s2: "pic_view PIC2_COMMAND ini2 t = \<lparr>pic_expect = e2, pic_vector = v2,
    pic_cascade = c2, pic_mode = m2, pic_mask = k2\<rparr>" by (cases "pic_view PIC2_COMMAND ini2 t") simp
  have bits: "bit (0x10 OR 0x01 :: u8) 4" "\<not> bit (0x10 OR 0x01 :: u8) 1" "bit (0x10 OR 0x01 :: u8) 0"
    "PIC1_OFFSET AND 0xF8 = 0x20" "PIC2_OFFSET AND 0xF8 = 0x28" by (simp_all add: pic_constants)
  obtain t' where t': "PIC8259_Init d t = (0, t')" by (simp add: PIC8259_Init_def PIC8259_Remap_def split_beta Let_def)
  have m: "pic_view PIC1_COMMAND ini1 t' = \<lparr>pic_expect = [], pic_vector = 0x20, pic_cascade = 4, pic_mode = 1,
      pic_mask = pic_mask (pic_view PIC1_COMMAND ini1 t)\<rparr>"
    using t' a1 a2 bits s1
    by (auto simp: PIC8259_Init_def PIC8259_Remap_def split_beta Let_def pic_view_out pic_data_def ports(1,2)
        ports(3-5) ports(3-5) [symmetric])
  have s: "pic_view PIC2_COMMAND ini2 t' = \<lparr>pic_expect = [], pic_vector = 0x28, pic_cascade = 2, pic_mode = 1,
      pic_mask = pic_mask (pic_view PIC2_COMMAND ini2 t)\<rparr>"
    using t' a1 a2 bits s2
    by (auto simp: PIC8259_Init_def PIC8259_Remap_def split_beta Let_def pic_view_out pic_data_def ports(1,2)
        ports(3-5) ports(3-5) [symmetric])
  from that [OF t' m s] show ?thesis .
qed

lemma Shutdown_masks:
  assumes "pic_expect (pic_view PIC1_COMMAND ini1 t) = []" and "pic_expect (pic_view PIC2_COMMAND ini2 t) = []"
  shows "pic_mask (pic_view PIC1_COMMAND ini1 (PIC8259_Shutdown t)) = 0xFF"
    and "pic_mask (pic_view PIC2_COMMAND ini2 (PIC8259_Shutdown t)) = 0xFF"
  using assms by (simp_all add: PIC8259_Shutdown_def pic_view_out pic_data_def pic_constants Let_def)

text \<open>An acknowledgement goes to the master always, and to the slave for the lines behind it.\<close>

lemma SendEOI_events:
  "PIC8259_SendEOI irq t =
     Out8 PIC1_COMMAND PIC_EOI # (if 8 \<le> unat irq then [Out8 PIC2_COMMAND PIC_EOI] else []) @ t"
  by (simp add: PIC8259_SendEOI_def OUTB_def word_le_nat_alt)

section \<open>The text of a fault\<close>

definition exception_messages :: "string list" where
  "exception_messages =
    [''Division By Zero'', ''Debug'', ''Non Maskable Interrupt'', ''Breakpoint'',
     ''Into Detected Overflow'', ''Out of Bounds'', ''Invalid Opcode'', ''No Coprocessor'',
     ''Double Fault'', ''Coprocessor Segment Overrun'', ''Bad TSS'', ''Segment Not Present'',
     ''Stack Fault'', ''General Protection Fault'', ''Page Fault'', ''Unknown Interrupt'',
     ''Coprocessor Fault'', ''Alignment Check'', ''Machine Check''] @ replicate 13 ''Reserved''"

definition bytes_of :: "string \<Rightarrow> u8 list" where
  "bytes_of s = map of_char s"

definition page_fault_format :: "u8 list" where
  "page_fault_format = bytes_of ''Page Fault For Address: 0x%x'' @ [0x0A]"

definition present_format :: "u8 list" where
  "present_format = bytes_of ''IsPresent: %d'' @ [0x0A]"

text \<open>What the handler shows for an exception, given the address the processor reports.\<close>

definition fault_text :: "u32 \<Rightarrow> InterruptFrame \<Rightarrow> u8 list" where
  "fault_text cr2 frame =
     (if InterruptNumber frame = 14
      then bytes_of ''Page Fault For Address: 0x'' @ number_text cr2 16 @ [0x0A] @
        bytes_of ''IsPresent: '' @ number_text (if bit (ErrorCode frame) 0 then 1 else 0) 10 @ [0x0A]
      else []) @ bytes_of (exception_messages ! unat (InterruptNumber frame))"

text \<open>The literals are in memory, away from the screen and the buffer.\<close>

definition literal_at :: "u32 \<Rightarrow> mem \<Rightarrow> u32 \<Rightarrow> u8 list \<Rightarrow> bool" where
  "literal_at tmp m p s \<longleftrightarrow> c_string m p s \<and> string_bytes p s \<subseteq> quiet_bytes tmp"

definition fault_memory :: "fault_literals \<Rightarrow> u32 \<Rightarrow> InterruptFrame \<Rightarrow> mem \<Rightarrow> bool" where
  "fault_memory lit tmp frame m \<longleftrightarrow> tmp_bytes tmp \<subseteq> other_bytes \<and>
     (InterruptNumber frame = 14 \<longrightarrow> literal_at tmp m (msg_PageFault lit) page_fault_format \<and>
        literal_at tmp m (msg_IsPresent lit) present_format) \<and>
     (InterruptNumber frame < 32 \<longrightarrow> literal_at tmp m (ExceptionMessages lit (unat (InterruptNumber frame)))
        (bytes_of (exception_messages ! unat (InterruptNumber frame))))"

lemma literal_same: "literal_at tmp m p s \<Longrightarrow> same_bytes (quiet_bytes tmp) m m' \<Longrightarrow> literal_at tmp m' p s"
  unfolding literal_at_def using c_string_same same_bytes_mono by blast

lemma printf_literal:
  assumes "console_wf c" and "literal_at tmp (con_bytes c) fmt s" and "tmp_bytes tmp \<subseteq> other_bytes"
    and "format_text (\<lambda>_. []) s args = Some out" and "string_args s args = {}"
  obtains c' where "KPrintf d tmp fmt args c = Some (0, c')" and "prints c out tmp c'"
proof -
  have "format_ready tmp (\<lambda>_. []) s fmt (string_args s args) (con_bytes c)"
    using assms(2,5) by (simp add: format_ready_def literal_at_def)
  from KPrintf_loop_prints [OF assms(3,4,1) this] obtain c' where
    "KPrintf_loop d tmp fmt args c = Some c'" "prints c out tmp c'" by blast
  with that show ?thesis by (auto simp: KPrintf_def)
qed

lemma plain_format: "0x25 \<notin> set s \<Longrightarrow> format_text strs s args = Some s \<and> string_args s args = {}"
  by (induction s) auto

lemma exception_messages_plain:
  assumes "i < 32" shows "0x25 \<notin> set (bytes_of (exception_messages ! i))"
proof -
  have "\<forall>s\<in>set exception_messages. (0x25 :: u8) \<notin> set (bytes_of s)"
    by (simp add: exception_messages_def bytes_of_def)
  moreover have "exception_messages ! i \<in> set exception_messages"
    using assms by (intro nth_mem) (simp add: exception_messages_def)
  ultimately show ?thesis by blast
qed

lemma fault_formats:
  "format_text strs page_fault_format [v] =
     Some (bytes_of ''Page Fault For Address: 0x'' @ number_text v 16 @ [0x0A])"
  "string_args page_fault_format [v] = {}"
  "format_text strs present_format [v] = Some (bytes_of ''IsPresent: '' @ number_text v 10 @ [0x0A])"
  "string_args present_format [v] = {}"
  by (simp_all add: page_fault_format_def present_format_def bytes_of_def)

lemma fault_handler_prints:
  assumes wf: "console_wf c" and mem: "fault_memory lit tmp frame (con_bytes c)"
    and i: "InterruptNumber frame < 32"
  obtains c' where "x86ISRFaultHandler d lit tmp cr2 frame c = Some (True, c')"
    and "prints c (fault_text cr2 frame) tmp c'"
proof -
  let ?i = "unat (InterruptNumber frame)"
  let ?fault = "InterruptNumber frame = 14"
  let ?bit = "if BitTest (ErrorCode frame) 0 then 1 else 0 :: u32"
  let ?page = "bytes_of ''Page Fault For Address: 0x'' @ number_text cr2 16 @ [0x0A]"
  let ?pres = "bytes_of ''IsPresent: '' @ number_text ?bit 10 @ [0x0A]"
  have tmp: "tmp_bytes tmp \<subseteq> other_bytes" using mem by (simp add: fault_memory_def)
  have ilt: "?i < 32" using i by (simp add: word_less_nat_alt)
  have msg: "literal_at tmp (con_bytes c) (ExceptionMessages lit ?i) (bytes_of (exception_messages ! ?i))"
    using mem i by (simp add: fault_memory_def)
  have bit: "BitTest (ErrorCode frame) 0 \<longleftrightarrow> bit (ErrorCode frame) 0"
    by (rule BitTest_iff)
  obtain c1 where c1: "(if ?fault then do {
             (r, c0) \<leftarrow> KPrintf d tmp (msg_PageFault lit) [cr2] c;
             (r, c1) \<leftarrow> KPrintf d tmp (msg_IsPresent lit) [?bit] c0;
             Some c1
           } else Some c) = Some c1" "prints c (if ?fault then ?page @ ?pres else []) tmp c1"
  proof (cases ?fault)
    case True
    with mem have L: "literal_at tmp (con_bytes c) (msg_PageFault lit) page_fault_format"
      "literal_at tmp (con_bytes c) (msg_IsPresent lit) present_format" by (simp_all add: fault_memory_def)
    obtain c0 where c0: "KPrintf d tmp (msg_PageFault lit) [cr2] c = Some (0, c0)" "prints c ?page tmp c0"
      by (rule printf_literal [OF wf L(1) tmp fault_formats(1,2)])
    have w0: "console_wf c0" using c0(2) by (simp add: prints_def)
    have L0: "literal_at tmp (con_bytes c0) (msg_IsPresent lit) present_format"
      using literal_same [OF L(2)] c0(2) by (simp add: prints_def)
    obtain c1 where "KPrintf d tmp (msg_IsPresent lit) [?bit] c0 = Some (0, c1)" "prints c0 ?pres tmp c1"
      by (rule printf_literal [OF w0 L0 tmp fault_formats(3,4)])
    with c0 prints_trans [OF c0(2)] True show ?thesis by (intro that [of c1]) auto
  qed (use that prints_none [OF wf] in auto)
  have w1: "console_wf c1" using c1(2) by (simp add: prints_def)
  have m1: "literal_at tmp (con_bytes c1) (ExceptionMessages lit ?i) (bytes_of (exception_messages ! ?i))"
    using literal_same [OF msg] c1(2) by (simp add: prints_def)
  note plain = plain_format [OF exception_messages_plain [OF ilt]]
  obtain c2 where c2: "KPrintf d tmp (ExceptionMessages lit ?i) [] c1 = Some (0, c2)"
    "prints c1 (bytes_of (exception_messages ! ?i)) tmp c2"
    by (rule printf_literal [OF w1 m1 tmp plain [THEN conjunct1] plain [THEN conjunct2]])
  have "x86ISRFaultHandler d lit tmp cr2 frame c = Some (True, c2)"
    using c1(1) c2(1) i by (simp add: x86ISRFaultHandler_def KPanic_def)
  moreover have "prints c (fault_text cr2 frame) tmp c2"
    using prints_trans [OF c1(2) c2(2)] unfolding fault_text_def bit
    by (cases ?fault) simp_all
  ultimately show ?thesis by (rule that)
qed

lemma Processor_Init_ok:
  assumes "length (s_GDT p) = 5" and "length (s_IDT p) = 256"
  obtains p' where "Processor_Init d sy p = Some (Inr (0, p'))"
    and "table_trace p' = [IDTLoad 2047 (addr_s_IDT sy), GDTLoad 39 (addr_s_GDT sy)] @ table_trace p"
    and "\<forall>i<32. isr_gate (addr_ISR sy i) (s_IDT p' ! i)" and "\<forall>i\<in>{32..<256}. s_IDT p' ! i = s_IDT p ! i"
    and "length (s_GDT p') = 5" and "Access (s_GDT p' ! 0) = 0"
    and "\<forall>sel. flat_segment ([0, 0x9a, 0x92, 0xf8, 0xf2] ! (unat (SegmentSelector_value sel) div 8))
       (s_GDT p' ! (unat (SegmentSelector_value sel) div 8))"
    and "cpu_ports p' = snd (PIC8259_Init d (cpu_ports p))"
proof -
  obtain r g0 g1 g2 g3 g4 where G: "GDT_Init sy p = Some (0, p\<lparr>s_GDTR := r, s_GDT := [g0, g1, g2, g3, g4],
      table_trace := GDTLoad 39 (addr_s_GDT sy) # table_trace p\<rparr>)" "Access g0 = 0"
    "flat_segment 0x9a g1" "flat_segment 0x92 g2" "flat_segment 0xf8 g3" "flat_segment 0xf2 g4"
    by (rule GDT_Init_segments [OF assms(1)])
  let ?p1 = "p\<lparr>s_GDTR := r, s_GDT := [g0, g1, g2, g3, g4],
      table_trace := GDTLoad 39 (addr_s_GDT sy) # table_trace p\<rparr>"
  have "length (s_IDT ?p1) = 256" using assms(2) by simp
  then obtain q l where I: "IDT_Init sy ?p1 = Some (0, ?p1\<lparr>s_IDTR := q, s_IDT := l,
      table_trace := IDTLoad 2047 (addr_s_IDT sy) # table_trace ?p1\<rparr>)" "length l = 256"
    "\<forall>j<32. isr_gate (addr_ISR sy j) (l ! j)" "\<forall>j\<in>{32..<256}. l ! j = s_IDT ?p1 ! j"
    by (rule IDT_Init_gates)
  obtain t where t: "PIC8259_Init d (cpu_ports p) = (0, t)"
    by (simp add: PIC8259_Init_def PIC8259_Remap_def split_beta Let_def)
  have run: "Processor_Init d sy p = Some (Inr (0, ?p1\<lparr>s_IDTR := q, s_IDT := l,
      table_trace := IDTLoad 2047 (addr_s_IDT sy) # table_trace ?p1, cpu_ports := t\<rparr>))"
    using G(1) I(1) t by (simp add: Processor_Init_def)
  have seg: "flat_segment ([0, 0x9a, 0x92, 0xf8, 0xf2] ! (unat (SegmentSelector_value sel) div 8))
      ([g0, g1, g2, g3, g4] ! (unat (SegmentSelector_value sel) div 8))" for sel
    using G(3-6) by (cases sel) simp_all
  show ?thesis using I(3,4) G(2) seg t by (intro that [OF run]) auto
qed

section \<open>Properties\<close>

text \<open>
  C27: \<^verbatim>\<open>Processor::Init\<close> never fails, loads both tables with their size less one and their address, and
  installs exactly the gates of the 32 exceptions: each names its stub, is present, of type 32-bit interrupt,
  for ring 0, and selects the segment at \<^verbatim>\<open>0x08\<close>. That is the kernel code segment of the new segment table:
  present, executable, ring 0, 4 GB from address 0. The kernel's data segment and the user's segments follow,
  the latter for ring 3; but the user's code segment is not readable, unlike the kernel's.
\<close>

theorem processor_init_installs_tables:
  assumes "length (s_GDT p) = 5" and "length (s_IDT p) = 256"
  shows "\<exists>p'. Processor_Init d sy p = Some (Inr (0, p')) \<and>
    table_trace p' = [IDTLoad 2047 (addr_s_IDT sy), GDTLoad 39 (addr_s_GDT sy)] @ table_trace p \<and>
    (\<forall>i<32. isr_gate (addr_ISR sy i) (s_IDT p' ! i)) \<and> (\<forall>i\<in>{32..<256}. s_IDT p' ! i = s_IDT p ! i) \<and>
    length (s_GDT p') = 5 \<and> \<not> descriptor_present (Access (s_GDT p' ! 0)) \<and>
    (\<forall>sel. flat_segment ([0, 0x9a, 0x92, 0xf8, 0xf2] ! (unat (SegmentSelector_value sel) div 8))
       (s_GDT p' ! (unat (SegmentSelector_value sel) div 8)))"
proof -
  obtain p' where "Processor_Init d sy p = Some (Inr (0, p'))"
    "table_trace p' = [IDTLoad 2047 (addr_s_IDT sy), GDTLoad 39 (addr_s_GDT sy)] @ table_trace p"
    "\<forall>i<32. isr_gate (addr_ISR sy i) (s_IDT p' ! i)" "\<forall>i\<in>{32..<256}. s_IDT p' ! i = s_IDT p ! i"
    "length (s_GDT p') = 5" "Access (s_GDT p' ! 0) = 0"
    "\<forall>sel. flat_segment ([0, 0x9a, 0x92, 0xf8, 0xf2] ! (unat (SegmentSelector_value sel) div 8))
       (s_GDT p' ! (unat (SegmentSelector_value sel) div 8))"
    by (rule Processor_Init_ok [OF assms])
  moreover from this have "\<not> descriptor_present (Access (s_GDT p' ! 0))" by (simp add: descriptor_present_def)
  ultimately show ?thesis by blast
qed

text \<open>The processor before it is set up: both tables empty.\<close>

definition processor_0 :: processor where
  "processor_0 = \<lparr>s_GDTR = \<lparr>GDTR_Limit = 0, GDTR_Base = 0\<rparr>,
     s_GDT = replicate 5 \<lparr>LimitLow = 0, BaseLow = 0, BaseMid = 0, Access = 0, Granularity = 0, BaseHigh = 0\<rparr>,
     s_IDTR = \<lparr>IDTR_Limit = 0, IDTR_Base = 0\<rparr>,
     s_IDT = replicate 256 \<lparr>OffsetLow = 0, Selector = 0, IDT_Reserved = 0, Flags = 0, OffsetHigh = 0\<rparr>,
     table_trace = [], cpu_ports = []\<rparr>"

definition symbols_0 :: table_symbols where
  "symbols_0 = \<lparr>addr_s_GDT = 0xC0020000, addr_s_IDT = 0xC0021000, addr_ISR = (\<lambda>i. 0xC0001000 + 16 * of_nat i)\<rparr>"

theorem processor_init_installs_tables_witness:
  "\<exists>p'. Processor_Init crtc_device symbols_0 processor_0 = Some (Inr (0, p')) \<and>
     gate_offset (s_IDT p' ! 14) = 0xC00010E0 \<and> flat_segment 0x9a (s_GDT p' ! 1)"
proof -
  have len: "length (s_GDT processor_0) = 5" "length (s_IDT processor_0) = 256"
    by (simp_all add: processor_0_def)
  from processor_init_installs_tables [OF len, of crtc_device symbols_0]
  obtain p' where p': "Processor_Init crtc_device symbols_0 processor_0 = Some (Inr (0, p'))"
    "\<forall>i<32. isr_gate (addr_ISR symbols_0 i) (s_IDT p' ! i)"
    "\<forall>sel. flat_segment ([0, 0x9a, 0x92, 0xf8, 0xf2] ! (unat (SegmentSelector_value sel) div 8))
       (s_GDT p' ! (unat (SegmentSelector_value sel) div 8))" by blast
  have "gate_offset (s_IDT p' ! 14) = 0xC00010E0"
    using p'(2) [rule_format, of 14] by (simp add: isr_gate_def symbols_0_def)
  moreover have "flat_segment 0x9a (s_GDT p' ! 1)" using p'(3) [rule_format, of KernelCode] by simp
  ultimately show ?thesis using p'(1) by blast
qed

text \<open>
  C28: With two controllers that behave as their data sheet says and are not being initialised,
  \<^verbatim>\<open>PIC8259::Init\<close> leaves both ready, in 8086 mode, cascaded over line 2, with the masks they had before, and
  gives the lines 0 to 15 the vectors 32 to 47, so none collides with an exception of the processor.
\<close>

theorem pic_init_remaps_and_keeps_masks:
  assumes "pic_device d ini1 ini2" and "pic_expect (pic_view PIC1_COMMAND ini1 t) = []"
    and "pic_expect (pic_view PIC2_COMMAND ini2 t) = []"
  shows "\<exists>t'. PIC8259_Init d t = (0, t') \<and>
    (let master = pic_view PIC1_COMMAND ini1 t'; slave = pic_view PIC2_COMMAND ini2 t' in
      pic_expect master = [] \<and> pic_expect slave = [] \<and> pic_mode master = 1 \<and> pic_mode slave = 1 \<and>
      pic_cascade master = push_bit (unat (pic_cascade slave)) 1 \<and>
      pic_mask master = pic_mask (pic_view PIC1_COMMAND ini1 t) \<and>
      pic_mask slave = pic_mask (pic_view PIC2_COMMAND ini2 t) \<and>
      (\<forall>irq<16. irq_vector master slave irq = 32 + irq))"
  by (rule Remap_view [OF assms]) (auto simp: irq_vector_def Let_def)

text \<open>Two controllers as a boot loader leaves them: vectors 8 and 112, some lines masked.\<close>

definition pic_boot :: "u8 \<Rightarrow> u8 \<Rightarrow> pic" where
  "pic_boot v k = \<lparr>pic_expect = [], pic_vector = v, pic_cascade = 2, pic_mode = 1, pic_mask = k\<rparr>"

definition pic_machine :: device where
  "pic_machine = \<lparr>dev_in8 = (\<lambda>t q. if q = PIC1_DATA then pic_mask (pic_view PIC1_COMMAND (pic_boot 8 0xB8) t)
       else pic_mask (pic_view PIC2_COMMAND (pic_boot 0x70 0x8E) t)),
     dev_in16 = (\<lambda>t q. 0), dev_in32 = (\<lambda>t q. 0)\<rparr>"

theorem pic_init_remaps_and_keeps_masks_witness:
  "\<exists>t'. PIC8259_Init pic_machine [] = (0, t') \<and>
     pic_mask (pic_view PIC1_COMMAND (pic_boot 8 0xB8) t') = 0xB8 \<and>
     irq_vector (pic_view PIC1_COMMAND (pic_boot 8 0xB8) t') (pic_view PIC2_COMMAND (pic_boot 0x70 0x8E) t') 9 = 41"
proof -
  have d: "pic_device pic_machine (pic_boot 8 0xB8) (pic_boot 0x70 0x8E)"
    by (simp add: pic_device_def pic_machine_def pic_constants)
  have e: "pic_expect (pic_view PIC1_COMMAND (pic_boot 8 0xB8) []) = []"
    "pic_expect (pic_view PIC2_COMMAND (pic_boot 0x70 0x8E) []) = []"
    by (simp_all add: pic_view_def pic_boot_def)
  have m: "pic_mask (pic_view PIC1_COMMAND (pic_boot 8 0xB8) []) = 0xB8" by (simp add: pic_view_def pic_boot_def)
  from pic_init_remaps_and_keeps_masks [OF d e] m show ?thesis by (auto simp: Let_def)
qed

text \<open>
  C29: The fault handler stops the kernel for every exception of the processor, after it has printed the
  message of that exception; before that, for a page fault, the address the processor reports and
  whether the page was present. Other interrupt numbers it ignores.
\<close>

theorem fault_handler_reports_and_stops:
  assumes "console_wf c" and "fault_memory lit tmp frame (con_bytes c)"
  shows "if InterruptNumber frame < 32
    then \<exists>c'. x86ISRFaultHandler d lit tmp cr2 frame c = Some (True, c') \<and> console_wf c' \<and>
      terminal_of c' = terminal_string (s_Color c) (fault_text cr2 frame) (terminal_of c)
    else x86ISRFaultHandler d lit tmp cr2 frame c = Some (False, c)"
proof (cases "InterruptNumber frame < 32")
  case True
  obtain c' where "x86ISRFaultHandler d lit tmp cr2 frame c = Some (True, c')"
    "prints c (fault_text cr2 frame) tmp c'" by (rule fault_handler_prints [OF assms True])
  with True show ?thesis by (auto simp: prints_def)
next
  case False
  then have "InterruptNumber frame \<noteq> 14" by auto
  with False show ?thesis by (simp add: x86ISRFaultHandler_def)
qed

text \<open>A memory that holds the three literals of a page fault at \<^verbatim>\<open>0x3000\<close>, \<^verbatim>\<open>0x3100\<close> and \<^verbatim>\<open>0x3200\<close>.\<close>

definition text_at :: "u32 \<Rightarrow> u8 list \<Rightarrow> mem \<Rightarrow> mem" where
  "text_at p s m = (\<lambda>x. if unat (x - p) < 256 then (if unat (x - p) < length s then s ! unat (x - p) else 0) else m x)"

definition console_fault :: console where
  "console_fault = console_0\<lparr>con_bytes := text_at 0x3000 page_fault_format (text_at 0x3100 present_format
     (text_at 0x3200 (bytes_of ''Page Fault'') (\<lambda>_. 0)))\<rparr>"

definition literals_fault :: fault_literals where
  "literals_fault = \<lparr>msg_PageFault = 0x3000, msg_IsPresent = 0x3100, ExceptionMessages = (\<lambda>_. 0x3200)\<rparr>"

definition frame_fault :: InterruptFrame where
  "frame_fault = \<lparr>DS = 0x10, EDI = 0, ESI = 0, EBP = 0, IESP = 0, EBX = 0, EDX = 0, ECX = 0, EAX = 0,
     InterruptNumber = 14, ErrorCode = 2, EIP = 0xC0001234, CS = 8, EFLAGS = 2, ESP = 0, SS = 0\<rparr>"

lemma text_at_string:
  assumes "0 \<notin> set s" and "length s < 256"
  shows "c_string (text_at p s m) p s"
  unfolding c_string_iff using assms by (auto simp: text_at_def unat_of_nat32)

lemma text_at_other:
  assumes "c_string m q s" and "unat q + length s < unat p \<or> unat p + 256 \<le> unat q"
    and "unat q + length s < 4294967296" and "unat p + 256 < 4294967296"
  shows "c_string (text_at p s' m) q s"
proof -
  have "\<not> unat (q + of_nat i - p) < 256" if "i \<le> length s" for i
  proof -
    have e: "q + of_nat i = of_nat (unat q + i)" by simp
    show ?thesis unfolding e using offset_in_block [of "unat q + i" p 256] assms(2-4) that by auto
  qed
  then show ?thesis using assms(1) unfolding c_string_iff text_at_def by auto
qed

lemma fault_strings:
  "c_string (con_bytes console_fault) 0x3000 page_fault_format"
  "c_string (con_bytes console_fault) 0x3100 present_format"
  "c_string (con_bytes console_fault) 0x3200 (bytes_of ''Page Fault'')"
proof -
  have l: "0 \<notin> set page_fault_format" "length page_fault_format < 256" "0 \<notin> set present_format"
    "length present_format < 256" "0 \<notin> set (bytes_of ''Page Fault'')" "length (bytes_of ''Page Fault'') < 256"
    by (simp_all add: page_fault_format_def present_format_def bytes_of_def)
  note s = text_at_string [OF l(1,2)] text_at_string [OF l(3,4)] text_at_string [OF l(5,6)]
  have m: "con_bytes console_fault = text_at 0x3000 page_fault_format (text_at 0x3100 present_format
     (text_at 0x3200 (bytes_of ''Page Fault'') (\<lambda>_. 0)))" by (simp add: console_fault_def)
  show "c_string (con_bytes console_fault) 0x3000 page_fault_format" unfolding m by (rule s(1))
  show "c_string (con_bytes console_fault) 0x3100 present_format"
    unfolding m by (rule text_at_other [OF s(2)]) (use l in auto)
  show "c_string (con_bytes console_fault) 0x3200 (bytes_of ''Page Fault'')"
    unfolding m by (rule text_at_other [OF text_at_other [OF s(3)]]) (use l in auto)
qed

theorem fault_handler_reports_and_stops_witness:
  "\<exists>c'. x86ISRFaultHandler crtc_device literals_fault 0x8000 0xDEADBEEF frame_fault console_fault = Some (True, c') \<and>
     terminal_of c' = terminal_string LightBrown (fault_text 0xDEADBEEF frame_fault) (terminal_of console_fault)"
proof -
  have wf: "console_wf console_fault" using console_0_wf by (simp add: console_fault_def console_wf_def)
  have quiet: "string_bytes p s \<subseteq> quiet_bytes 0x8000" if "unat p + length s < 0x8000" for p s
    using that by (auto simp: quiet_bytes_def string_bytes_def other_bytes_def video_bytes_def tmp_bytes_def)
  have msg: "exception_messages ! 14 = ''Page Fault''" by (simp add: exception_messages_def)
  have "literal_at 0x8000 (con_bytes console_fault) 0x3000 page_fault_format"
    "literal_at 0x8000 (con_bytes console_fault) 0x3100 present_format"
    "literal_at 0x8000 (con_bytes console_fault) 0x3200 (bytes_of ''Page Fault'')"
    using fault_strings quiet by (simp_all add: literal_at_def page_fault_format_def present_format_def bytes_of_def)
  moreover have "tmp_bytes 0x8000 \<subseteq> other_bytes" by (auto simp: tmp_bytes_def other_bytes_def video_bytes_def)
  ultimately have mem: "fault_memory literals_fault 0x8000 frame_fault (con_bytes console_fault)"
    by (simp add: fault_memory_def literals_fault_def frame_fault_def msg)
  have color: "s_Color console_fault = LightBrown" by (simp add: console_fault_def console_0_def)
  have num: "InterruptNumber frame_fault < 32" by (simp add: frame_fault_def)
  from fault_handler_reports_and_stops [OF wf mem, of crtc_device "0xDEADBEEF"] color num show ?thesis by auto
qed

end
