(* ===== verification/Report.thy ===== *)
theory Report
  imports Processor
begin

text \<open>
  What a function prints as a list of calls of \<^verbatim>\<open>KPrintf\<close>, each a string literal and its argument words; a
  64-bit argument is two words, low word first. \<open>lit\<close> gives the address of a literal. The section on the text
  of a report shows that printing it puts that text on the terminal.
\<close>

section \<open>Reports\<close>

type_synonym report = "(string \<times> u32 list) list"

definition text_line :: "string \<Rightarrow> string" where
  "text_line s = s @ [CHR 0x0A]"

definition opening_line :: "string \<Rightarrow> string" where
  "opening_line s = CHR 0x0A # text_line s"

text \<open>One call whose literal ends in a line feed.\<close>

definition message :: "string \<Rightarrow> u32 list \<Rightarrow> report" where
  "message f args = [(text_line f, args)]"

primrec print_report :: "device \<Rightarrow> (string \<Rightarrow> u32) \<Rightarrow> u32 \<Rightarrow> report \<Rightarrow> console \<Rightarrow> console option" where
  "print_report d lit tmp [] c = Some c"
| "print_report d lit tmp (call # r) c = do {
     (n, c1) \<leftarrow> KPrintf d tmp (lit (fst call)) (snd call) c;
     print_report d lit tmp r c1
   }"

lemma print_report_append:
  "print_report d lit tmp (r @ r') c = Option.bind (print_report d lit tmp r c) (print_report d lit tmp r')"
  by (induction r arbitrary: c) (auto intro: bind_option_cong)

section \<open>The text of a report\<close>

fun report_text :: "(u32 \<Rightarrow> u8 list) \<Rightarrow> report \<Rightarrow> u8 list option" where
  "report_text strs [] = Some []"
| "report_text strs ((f, args) # r) = do {
     s \<leftarrow> format_text strs (bytes_of f) args;
     s' \<leftarrow> report_text strs r;
     Some (s @ s')
   }"

lemma report_text_append:
  "report_text strs r = Some s \<Longrightarrow> report_text strs r' = Some s' \<Longrightarrow> report_text strs (r @ r') = Some (s @ s')"
  by (induction r arbitrary: s rule: report_text.induct [of _ strs]) (fastforce simp: bind_eq_Some_conv)+

lemma report_text_concat:
  "(\<And>x. x \<in> set xs \<Longrightarrow> report_text strs (f x) = Some (g x)) \<Longrightarrow>
    report_text strs (concat (List.map f xs)) = Some (concat (List.map g xs))"
  by (induction xs) (auto intro: report_text_append)

text \<open>The literals and the strings among the arguments are in memory, away from the screen and the buffer.\<close>

definition literals_ready :: "(string \<Rightarrow> u32) \<Rightarrow> u32 \<Rightarrow> mem \<Rightarrow> string set \<Rightarrow> bool" where
  "literals_ready lit tmp m S \<longleftrightarrow> tmp_bytes tmp \<subseteq> other_bytes \<and> (\<forall>s\<in>S. literal_at tmp m (lit s) (bytes_of s))"

definition call_strings :: "string \<times> u32 list \<Rightarrow> u32 set" where
  "call_strings call = string_args (bytes_of (fst call)) (snd call)"

definition strings_ready :: "u32 \<Rightarrow> (u32 \<Rightarrow> u8 list) \<Rightarrow> mem \<Rightarrow> report \<Rightarrow> bool" where
  "strings_ready tmp strs m r \<longleftrightarrow> (\<forall>call\<in>set r. \<forall>p\<in>call_strings call. literal_at tmp m p (strs p))"

lemma literals_ready_same:
  "literals_ready lit tmp m S \<Longrightarrow> same_bytes (quiet_bytes tmp) m m' \<Longrightarrow> literals_ready lit tmp m' S"
  by (auto simp: literals_ready_def intro: literal_same)

lemma strings_ready_same:
  "strings_ready tmp strs m r \<Longrightarrow> same_bytes (quiet_bytes tmp) m m' \<Longrightarrow> strings_ready tmp strs m' r"
  by (auto simp: strings_ready_def intro: literal_same)

lemma strings_ready_append [simp]:
  "strings_ready tmp strs m (r @ r') \<longleftrightarrow> strings_ready tmp strs m r \<and> strings_ready tmp strs m r'"
  by (auto simp: strings_ready_def)

lemma call_prints:
  assumes "console_wf c" and "literals_ready lit tmp (con_bytes c) S" and "f \<in> S"
    and "strings_ready tmp strs (con_bytes c) [(f, args)]" and "format_text strs (bytes_of f) args = Some out"
  obtains c' where "KPrintf d tmp (lit f) args c = Some (0, c')" and "prints c out tmp c'"
    and "console_wf c'" and "literals_ready lit tmp (con_bytes c') S"
    and "same_bytes (quiet_bytes tmp) (con_bytes c) (con_bytes c')"
proof -
  have l: "literal_at tmp (con_bytes c) (lit f) (bytes_of f)" and tmp: "tmp_bytes tmp \<subseteq> other_bytes"
    using assms(2,3) by (simp_all add: literals_ready_def)
  have "format_ready tmp strs (bytes_of f) (lit f) (string_args (bytes_of f) args) (con_bytes c)"
    using l assms(4) by (simp add: format_ready_def literal_at_def strings_ready_def call_strings_def)
  from KPrintf_loop_prints [OF tmp assms(5,1) this] obtain c' where
    "KPrintf_loop d tmp (lit f) args c = Some c'" "prints c out tmp c'" by blast
  then show ?thesis using literals_ready_same [OF assms(2)] by (intro that) (auto simp: KPrintf_def prints_def)
qed

lemma print_report_prints:
  "report_text strs r = Some out \<Longrightarrow> strings_ready tmp strs (con_bytes c) r \<Longrightarrow> console_wf c \<Longrightarrow>
    literals_ready lit tmp (con_bytes c) S \<Longrightarrow> fst ` set r \<subseteq> S \<Longrightarrow>
    \<exists>c'. print_report d lit tmp r c = Some c' \<and> prints c out tmp c'"
proof (induction strs r arbitrary: out c rule: report_text.induct)
  case (1 strs)
  then show ?case by (simp add: prints_none)
next
  case (2 strs f args r)
  from "2.prems"(1) obtain s s' where t: "format_text strs (bytes_of f) args = Some s" "report_text strs r = Some s'"
    "out = s @ s'" by (auto simp: bind_eq_Some_conv)
  have f: "f \<in> S" "fst ` set r \<subseteq> S" using "2.prems"(5) by auto
  have sr: "strings_ready tmp strs (con_bytes c) [(f, args)]" "strings_ready tmp strs (con_bytes c) r"
    using "2.prems"(2) by (simp_all add: strings_ready_def)
  obtain c1 where c1: "KPrintf d tmp (lit f) args c = Some (0, c1)" "prints c s tmp c1" "console_wf c1"
    "literals_ready lit tmp (con_bytes c1) S" "same_bytes (quiet_bytes tmp) (con_bytes c) (con_bytes c1)"
    by (rule call_prints [OF "2.prems"(3,4) f(1) sr(1) t(1)])
  from "2.IH" [OF t(1,2) strings_ready_same [OF sr(2) c1(5)] c1(3,4) f(2)] obtain c2 where
    "print_report d lit tmp r c1 = Some c2" "prints c1 s' tmp c2" by blast
  then show ?case using c1(1) prints_trans [OF c1(2)] by (auto simp: t(3))
qed

section \<open>Complete reports\<close>

text \<open>
  A report is complete if every conversion has its argument and no argument is a string: then it has a text in
  every memory.
\<close>

definition complete_report :: "report \<Rightarrow> bool" where
  "complete_report r \<longleftrightarrow> (\<forall>call\<in>set r. call_strings call = {} \<and>
     format_text (\<lambda>_. []) (bytes_of (fst call)) (snd call) \<noteq> None)"

lemma complete_report_simps [simp]:
  "complete_report []" "complete_report (r @ r') \<longleftrightarrow> complete_report r \<and> complete_report r'"
  by (auto simp: complete_report_def)

lemma complete_report_Cons: "complete_report (call # r) \<longleftrightarrow> complete_report [call] \<and> complete_report r"
  by (simp add: complete_report_def)

lemma complete_report_concat: "(\<And>x. complete_report (f x)) \<Longrightarrow> complete_report (concat (List.map f xs))"
  by (auto simp: complete_report_def)

lemma complete_report_map: "(\<And>x. complete_report [f x]) \<Longrightarrow> complete_report (List.map f xs)"
  by (auto simp: complete_report_def)

lemma complete_report_ready: "complete_report r \<Longrightarrow> strings_ready tmp strs m r"
  by (auto simp: complete_report_def strings_ready_def)

lemma complete_report_text: "complete_report r \<Longrightarrow> \<exists>out. report_text (\<lambda>_. []) r = Some out"
proof (induction r)
  case (Cons call r)
  obtain f args where call: "call = (f, args)" by (cases call)
  obtain s where "format_text (\<lambda>_. []) (bytes_of f) args = Some s"
    using Cons.prems by (auto simp: complete_report_def call)
  moreover obtain s' where "report_text (\<lambda>_. []) r = Some s'" using Cons complete_report_Cons [of call r] by auto
  ultimately show ?case by (simp add: call)
qed simp

text \<open>Whether the formats are complete is evaluated; numbers stay symbolic.\<close>

lemmas complete_defs = complete_report_def call_strings_def message_def text_line_def opening_line_def bytes_of_def

section \<open>Literals in memory\<close>

text \<open>For the witnesses: up to 32 literals from \<^verbatim>\<open>0x3000\<close> on, 256 bytes apart.\<close>

definition literal_memory :: "string list \<Rightarrow> mem" where
  "literal_memory ss = (\<lambda>x.
     let i = (unat x - 0x3000) div 256; j = (unat x - 0x3000) mod 256
     in if 0x3000 \<le> unat x \<and> i < length ss \<and> j < length (ss ! i) then of_char (ss ! i ! j) else 0)"

definition literal_address :: "string list \<Rightarrow> string \<Rightarrow> u32" where
  "literal_address ss s = of_nat (0x3000 + 256 * length (takeWhile (\<lambda>t. t \<noteq> s) ss))"

lemma literal_place:
  assumes n: "length ss \<le> 32" and s: "s \<in> set ss"
  obtains i where "i < length ss" and "ss ! i = s" and "unat (literal_address ss s) = 0x3000 + 256 * i"
    and "literal_address ss s = of_nat (0x3000 + 256 * i)"
proof -
  let ?i = "length (takeWhile (\<lambda>t. t \<noteq> s) ss)"
  have i: "?i < length ss" "ss ! ?i = s"
    using s nth_length_takeWhile [of "\<lambda>t. t \<noteq> s" ss] takeWhile_eq_all_conv [of "\<lambda>t. t \<noteq> s" ss]
      length_takeWhile_le [of "\<lambda>t. t \<noteq> s" ss] takeWhile_eq_take [of "\<lambda>t. t \<noteq> s" ss]
    by (force simp: le_less)+
  moreover have "unat (literal_address ss s) = 0x3000 + 256 * ?i"
    using i(1) n by (simp add: literal_address_def unat_of_nat32 del: of_nat_add)
  ultimately show ?thesis by (intro that) (simp_all add: literal_address_def)
qed

lemma literal_inside:
  assumes "length ss \<le> 32" and "s \<in> set ss" and "length s < 256"
  shows "string_bytes (literal_address ss s) (bytes_of s) \<subseteq> {0x3000..<0x5000}"
proof (rule literal_place [OF assms(1,2)])
  fix i assume "i < length ss" "unat (literal_address ss s) = 0x3000 + 256 * i"
  then show ?thesis using assms(1,3) by (auto simp: string_bytes_def bytes_of_def)
qed

lemma literal_memory_ready:
  assumes n: "length ss \<le> 32" and ok: "\<forall>s\<in>set ss. length s < 256 \<and> 0 \<notin> set (bytes_of s)"
    and m: "same_bytes {0x3000..<0x5000} (literal_memory ss) m"
  shows "literals_ready (literal_address ss) 0x8000 m (set ss)"
  unfolding literals_ready_def
proof (intro conjI ballI)
  show "tmp_bytes 0x8000 \<subseteq> other_bytes" by (auto simp: tmp_bytes_def other_bytes_def video_bytes_def)
  fix s assume s: "s \<in> set ss"
  have len: "length s < 256" "0 \<notin> set (bytes_of s)" "length (bytes_of s) = length s"
    using ok s by (auto simp: bytes_of_def)
  note inside = literal_inside [OF n s len(1)]
  obtain i where i: "i < length ss" "ss ! i = s" "literal_address ss s = of_nat (0x3000 + 256 * i)"
    by (rule literal_place [OF n s])
  have byte: "literal_memory ss (literal_address ss s + of_nat j) = (if j < length s then of_char (s ! j) else 0)"
    if "j \<le> length s" for j
  proof -
    have "unat (literal_address ss s + of_nat j) = 0x3000 + 256 * i + j"
      using that len(1) i(1) n by (simp add: i(3) unat_of_nat32 flip: of_nat_add)
    moreover have "(0x3000 + 256 * i + j - 0x3000) div 256 = i" "(0x3000 + 256 * i + j - 0x3000) mod 256 = j"
      using that len(1) by simp_all
    ultimately show ?thesis using i by (simp add: literal_memory_def Let_def)
  qed
  have "c_string (literal_memory ss) (literal_address ss s) (bytes_of s)"
    using byte len by (simp add: c_string_iff bytes_of_def)
  then have "c_string m (literal_address ss s) (bytes_of s)" using c_string_same same_bytes_mono [OF m inside] by blast
  moreover have "{0x3000..<0x5000} \<subseteq> quiet_bytes 0x8000"
    by (auto simp: quiet_bytes_def other_bytes_def video_bytes_def tmp_bytes_def)
  ultimately show "literal_at 0x8000 m (literal_address ss s) (bytes_of s)"
    using inside by (simp add: literal_at_def)
qed

end
