(* ===== verification/Bitmap.thy ===== *)
theory Bitmap
  imports Prelude
begin

text \<open>
  \<^verbatim>\<open>Kernel/ESTD/Bitmap.h\<close> and \<^verbatim>\<open>Kernel/ESTD/Bitset.h\<close>. The template parameter \<^verbatim>\<open>TSize\<close> is a field
  of the model, the array \<^verbatim>\<open>uint8_t m_Bits[TSize]\<close> a list of bytes (one byte per bit: eight
  times the room the bits need). The byte operations are written at the width of \<^verbatim>\<open>int\<close>, to which
  C++ promotes the byte, and truncated by the assignment. The locale \<open>bit_array\<close> is the contract
  of single bits, \<open>run_store\<close> the contract of runs the two page allocators rely on.
\<close>

section \<open>State and operations of Bitmap\<close>

record bitmap =
  TSize :: u32
  m_Bits :: "u8 list"

definition byte_or_bit :: "u8 \<Rightarrow> u32 \<Rightarrow> u8" where
  "byte_or_bit x k = ucast ((ucast x :: u32) OR push_bit (unat k) 1)"

definition byte_clear_bit :: "u8 \<Rightarrow> u32 \<Rightarrow> u8" where
  "byte_clear_bit x k = ucast ((ucast x :: u32) AND NOT (push_bit (unat k) 1))"

definition byte_xor_bit :: "u8 \<Rightarrow> u32 \<Rightarrow> u8" where
  "byte_xor_bit x k = ucast ((ucast x :: u32) XOR push_bit (unat k) 1)"

definition byte_test_bit :: "u8 \<Rightarrow> u32 \<Rightarrow> bool" where
  "byte_test_bit x k \<longleftrightarrow> (ucast x :: u32) AND push_bit (unat k) 1 \<noteq> 0"

definition Bitmap_Set :: "u32 \<Rightarrow> bitmap \<Rightarrow> bitmap" where
  "Bitmap_Set pos b =
     (if pos > TSize b then b
      else let byteIndex = unat (pos div 8); bitIndex = pos mod 8
           in b\<lparr>m_Bits := (m_Bits b)[byteIndex := byte_or_bit (m_Bits b ! byteIndex) bitIndex]\<rparr>)"

definition Bitmap_SetAll :: "bitmap \<Rightarrow> bitmap" where
  "Bitmap_SetAll b = b\<lparr>m_Bits := replicate (length (m_Bits b)) 1\<rparr>"

definition Bitmap_Test :: "bitmap \<Rightarrow> u32 \<Rightarrow> bool" where
  "Bitmap_Test b pos =
     (if pos > TSize b then False
      else let byteIndex = unat (pos div 8); bitIndex = pos mod 8
           in byte_test_bit (m_Bits b ! byteIndex) bitIndex)"

definition Bitmap_Reset :: "u32 \<Rightarrow> bitmap \<Rightarrow> bitmap" where
  "Bitmap_Reset pos b =
     (if pos > TSize b then b
      else let byteIndex = unat (pos div 8); bitIndex = pos mod 8
           in b\<lparr>m_Bits := (m_Bits b)[byteIndex := byte_clear_bit (m_Bits b ! byteIndex) bitIndex]\<rparr>)"

definition Bitmap_ResetAll :: "bitmap \<Rightarrow> bitmap" where
  "Bitmap_ResetAll b = b\<lparr>m_Bits := replicate (length (m_Bits b)) 0\<rparr>"

definition Bitmap_Toggle :: "u32 \<Rightarrow> bitmap \<Rightarrow> bitmap" where
  "Bitmap_Toggle pos b =
     (if pos > TSize b then b
      else let byteIndex = unat (pos div 8); bitIndex = pos mod 8
           in b\<lparr>m_Bits := (m_Bits b)[byteIndex := byte_xor_bit (m_Bits b ! byteIndex) bitIndex]\<rparr>)"

text \<open>
  The loop of \<^verbatim>\<open>FindUnsetBits\<close>, with its two variables; \<^verbatim>\<open>int32_t firstBit\<close> is a word whose
  \<open>-1\<close> is the sentinel, \<^verbatim>\<open>break\<close> returns it.
\<close>

function FindUnsetBits_loop :: "bitmap \<Rightarrow> u32 \<Rightarrow> u32 \<Rightarrow> u32 \<Rightarrow> u32 \<Rightarrow> u32" where
  "FindUnsetBits_loop b count i firstBit currentBit =
     (if i < TSize b then
        (if Bitmap_Test b i then FindUnsetBits_loop b count (i + 1) (- 1) 0
         else (let firstBit' = (if firstBit = - 1 then i else firstBit);
                   currentBit' = currentBit + 1
               in if currentBit' = count then firstBit'
                  else FindUnsetBits_loop b count (i + 1) firstBit' currentBit'))
      else firstBit)"
  by pat_completeness auto
termination
  by (relation "measure (\<lambda>(b, count, i, f, c). unat (TSize b) - unat i)")
    (auto simp: unat_inc word_less_nat_alt)

declare FindUnsetBits_loop.simps [simp del]

definition Bitmap_FindUnsetBits :: "bitmap \<Rightarrow> u32 \<Rightarrow> u32" where
  "Bitmap_FindUnsetBits b count =
     (let firstBit = FindUnsetBits_loop b count 0 (- 1) 0
      in if firstBit = - 1 then - 1 else firstBit)"

definition Bitmap_SetBits :: "u32 \<Rightarrow> u32 \<Rightarrow> bitmap \<Rightarrow> bitmap" where
  "Bitmap_SetBits start count b =
     (if start + count > TSize b then b else for_range start (start + count) Bitmap_Set b)"

definition Bitmap_ClearBits :: "u32 \<Rightarrow> u32 \<Rightarrow> bitmap \<Rightarrow> bitmap" where
  "Bitmap_ClearBits start count b =
     (if start + count > TSize b then b else for_range start (start + count) Bitmap_Reset b)"

section \<open>State and operations of Bitset\<close>

record bitset =
  bs_TSize :: u32
  bs_Bits :: "u8 list"

definition Bitset_Set :: "u32 \<Rightarrow> bitset \<Rightarrow> bitset" where
  "Bitset_Set pos b =
     (if pos > bs_TSize b then b
      else let byteIndex = unat (pos div 8); bitIndex = pos mod 8
           in b\<lparr>bs_Bits := (bs_Bits b)[byteIndex := byte_or_bit (bs_Bits b ! byteIndex) bitIndex]\<rparr>)"

text \<open>
  \<^verbatim>\<open>Bitset::Test\<close> has a \<^verbatim>\<open>return;\<close> without a value on the out-of-range branch of a \<^verbatim>\<open>bool\<close>
  function; the model gives no value there.
\<close>

definition Bitset_Test :: "bitset \<Rightarrow> u32 \<Rightarrow> bool option" where
  "Bitset_Test b pos =
     (if pos > bs_TSize b then None
      else let byteIndex = unat (pos div 8); bitIndex = pos mod 8
           in Some (byte_test_bit (bs_Bits b ! byteIndex) bitIndex))"

definition Bitset_Reset :: "u32 \<Rightarrow> bitset \<Rightarrow> bitset" where
  "Bitset_Reset pos b =
     (if pos > bs_TSize b then b
      else let byteIndex = unat (pos div 8); bitIndex = pos mod 8
           in b\<lparr>bs_Bits := (bs_Bits b)[byteIndex := byte_clear_bit (bs_Bits b ! byteIndex) bitIndex]\<rparr>)"

definition Bitset_Toggle :: "u32 \<Rightarrow> bitset \<Rightarrow> bitset" where
  "Bitset_Toggle pos b =
     (if pos > bs_TSize b then b
      else let byteIndex = unat (pos div 8); bitIndex = pos mod 8
           in b\<lparr>bs_Bits := (bs_Bits b)[byteIndex := byte_xor_bit (bs_Bits b ! byteIndex) bitIndex]\<rparr>)"

section \<open>Bits of a byte\<close>

lemma bit_byte_or_bit: "unat k < 8 \<Longrightarrow> bit (byte_or_bit x k) n \<longleftrightarrow> bit x n \<or> n = unat k"
  by (auto simp: byte_or_bit_def bit_simps dest: bit_imp_le_length)

lemma bit_byte_clear_bit: "unat k < 8 \<Longrightarrow> bit (byte_clear_bit x k) n \<longleftrightarrow> bit x n \<and> n \<noteq> unat k"
  by (auto simp: byte_clear_bit_def bit_simps dest: bit_imp_le_length)

lemma bit_byte_xor_bit: "unat k < 8 \<Longrightarrow> bit (byte_xor_bit x k) n \<longleftrightarrow> (bit x n \<noteq> (n = unat k))"
  by (auto simp: byte_xor_bit_def bit_simps dest: bit_imp_le_length)

lemma byte_test_bit_iff: "unat k < 8 \<Longrightarrow> byte_test_bit x k \<longleftrightarrow> bit x (unat k)"
  by (auto simp: byte_test_bit_def push_bit_eq_mult and_exp_eq_0_iff_not_bit bit_unsigned_iff
      dest: bit_imp_le_length)

lemmas byte_bits = bit_byte_or_bit bit_byte_clear_bit bit_byte_xor_bit byte_test_bit_iff

lemma unat_mod8: "unat (pos mod 8 :: u32) = unat pos mod 8"
  by (simp add: unat_mod_distrib)

lemma unat_div8: "unat (pos div 8 :: u32) = unat pos div 8"
  by (simp add: unat_div_distrib)

lemma mod8_lt [simp]: "unat (pos mod 8 :: u32) < 8"
  by (simp add: unat_mod8)

section \<open>The contract of a bit array\<close>

text \<open>
  What a client of \<^verbatim>\<open>Bitmap\<close> or \<^verbatim>\<open>Bitset\<close> relies on: \<open>bits\<close> reads the array as a set of positions,
  each operation changes the one position it names and keeps the size and the invariant.
\<close>

locale bit_array =
  fixes sz :: "'b \<Rightarrow> nat"
    and inv :: "'b \<Rightarrow> bool"
    and bits :: "'b \<Rightarrow> nat \<Rightarrow> bool"
    and tst :: "'b \<Rightarrow> u32 \<Rightarrow> bool"
    and set1 :: "u32 \<Rightarrow> 'b \<Rightarrow> 'b"
    and reset1 :: "u32 \<Rightarrow> 'b \<Rightarrow> 'b"
    and toggle1 :: "u32 \<Rightarrow> 'b \<Rightarrow> 'b"
  assumes tst_bits: "inv b \<Longrightarrow> unat p < sz b \<Longrightarrow> tst b p \<longleftrightarrow> bits b (unat p)"
    and bits_set1: "inv b \<Longrightarrow> unat p < sz b \<Longrightarrow> bits (set1 p b) k \<longleftrightarrow> bits b k \<or> k = unat p"
    and bits_reset1: "inv b \<Longrightarrow> unat p < sz b \<Longrightarrow> bits (reset1 p b) k \<longleftrightarrow> bits b k \<and> k \<noteq> unat p"
    and bits_toggle1:
      "inv b \<Longrightarrow> unat p < sz b \<Longrightarrow> bits (toggle1 p b) k \<longleftrightarrow> (bits b k \<noteq> (k = unat p))"
    and inv_set1: "inv b \<Longrightarrow> inv (set1 p b)"
    and inv_reset1: "inv b \<Longrightarrow> inv (reset1 p b)"
    and inv_toggle1: "inv b \<Longrightarrow> inv (toggle1 p b)"
    and sz_set1: "sz (set1 p b) = sz b"
    and sz_reset1: "sz (reset1 p b) = sz b"
    and sz_toggle1: "sz (toggle1 p b) = sz b"
begin

lemma test_set_other:
  "inv b \<Longrightarrow> unat p < sz b \<Longrightarrow> unat q < sz b \<Longrightarrow> tst (set1 p b) q \<longleftrightarrow> tst b q \<or> q = p"
  by (auto simp: tst_bits inv_set1 sz_set1 bits_set1 word_unat_eq_iff)

lemma test_reset_other:
  "inv b \<Longrightarrow> unat p < sz b \<Longrightarrow> unat q < sz b \<Longrightarrow> tst (reset1 p b) q \<longleftrightarrow> tst b q \<and> q \<noteq> p"
  by (auto simp: tst_bits inv_reset1 sz_reset1 bits_reset1 word_unat_eq_iff)

lemma test_toggle_other:
  "inv b \<Longrightarrow> unat p < sz b \<Longrightarrow> unat q < sz b \<Longrightarrow> tst (toggle1 p b) q \<longleftrightarrow> (tst b q \<noteq> (q = p))"
  by (auto simp: tst_bits inv_toggle1 sz_toggle1 bits_toggle1 word_unat_eq_iff)

lemma toggle_twice:
  "inv b \<Longrightarrow> unat p < sz b \<Longrightarrow> bits (toggle1 p (toggle1 p b)) k \<longleftrightarrow> bits b k"
  by (auto simp: bits_toggle1 inv_toggle1 sz_toggle1)

text \<open>The loops of \<^verbatim>\<open>SetBits\<close> and \<^verbatim>\<open>ClearBits\<close>, over any bit array.\<close>

lemma range_keeps:
  assumes "inv b"
  shows "inv (for_range s e set1 b) \<and> sz (for_range s e set1 b) = sz b"
    and "inv (for_range s e reset1 b) \<and> sz (for_range s e reset1 b) = sz b"
  using for_range_preserves [of "\<lambda>c. inv c \<and> sz c = sz b" b s e] assms
  by (auto simp: inv_set1 inv_reset1 sz_set1 sz_reset1)

lemma bits_set_range:
  assumes "inv b" and "unat e \<le> sz b"
  shows "bits (for_range s e set1 b) k \<longleftrightarrow> bits b k \<or> unat s \<le> k \<and> k < unat e"
proof (cases "s \<le> e")
  case True
  let ?P = "\<lambda>i c. inv c \<and> sz c = sz b \<and>
    (\<forall>k. bits c k \<longleftrightarrow> bits b k \<or> unat s \<le> k \<and> k < unat i)"
  have "?P e (for_range s e set1 b)"
  proof (rule for_range_invariant [of ?P])
    show "?P s b" using assms by auto
    show "s \<le> e" by fact
    fix i c assume i: "s \<le> i" "i < e" and c: "?P i c"
    then have r: "unat i < sz c" using assms(2) by (simp add: word_less_nat_alt)
    have "unat s \<le> unat i" using i(1) by (simp add: word_le_nat_alt)
    then have "unat s \<le> k \<and> k < unat (i + 1) \<longleftrightarrow> unat s \<le> k \<and> k < unat i \<or> k = unat i" for k
      using i(2) by (auto simp: unat_inc)
    with c r show "?P (i + 1) (set1 i c)"
      by (simp add: inv_set1 sz_set1 bits_set1)
  qed
  then show ?thesis by blast
next
  case False
  then have "\<not> s < e" and "unat e < unat s" by (simp_all add: word_le_nat_alt word_less_nat_alt)
  then show ?thesis by (auto simp: for_range_done)
qed

lemma bits_reset_range:
  assumes "inv b" and "unat e \<le> sz b"
  shows "bits (for_range s e reset1 b) k \<longleftrightarrow> bits b k \<and> \<not> (unat s \<le> k \<and> k < unat e)"
proof (cases "s \<le> e")
  case True
  let ?P = "\<lambda>i c. inv c \<and> sz c = sz b \<and>
    (\<forall>k. bits c k \<longleftrightarrow> bits b k \<and> \<not> (unat s \<le> k \<and> k < unat i))"
  have "?P e (for_range s e reset1 b)"
  proof (rule for_range_invariant [of ?P])
    show "?P s b" using assms by auto
    show "s \<le> e" by fact
    fix i c assume i: "s \<le> i" "i < e" and c: "?P i c"
    then have r: "unat i < sz c" using assms(2) by (simp add: word_less_nat_alt)
    have "unat s \<le> unat i" using i(1) by (simp add: word_le_nat_alt)
    then have "unat s \<le> k \<and> k < unat (i + 1) \<longleftrightarrow> unat s \<le> k \<and> k < unat i \<or> k = unat i" for k
      using i(2) by (auto simp: unat_inc)
    with c r show "?P (i + 1) (reset1 i c)"
      by (simp add: inv_reset1 sz_reset1 bits_reset1)
  qed
  then show ?thesis by blast
next
  case False
  then have "\<not> s < e" and "unat e < unat s" by (simp_all add: word_le_nat_alt word_less_nat_alt)
  then show ?thesis by (auto simp: for_range_done)
qed

end

section \<open>Bitmap and Bitset are bit arrays\<close>

definition bitmap_wf :: "bitmap \<Rightarrow> bool" where
  "bitmap_wf b \<longleftrightarrow> length (m_Bits b) = unat (TSize b) \<and> 0 < TSize b \<and> unat (TSize b) < 2 ^ 31"

definition bitmap_bits :: "bitmap \<Rightarrow> nat \<Rightarrow> bool" where
  "bitmap_bits b k \<longleftrightarrow> bit (m_Bits b ! (k div 8)) (k mod 8)"

definition bitset_wf :: "bitset \<Rightarrow> bool" where
  "bitset_wf b \<longleftrightarrow> length (bs_Bits b) = unat (bs_TSize b) \<and> 0 < bs_TSize b"

definition bitset_bits :: "bitset \<Rightarrow> nat \<Rightarrow> bool" where
  "bitset_bits b k \<longleftrightarrow> bit (bs_Bits b ! (k div 8)) (k mod 8)"

text \<open>
  The guard is \<^verbatim>\<open>pos > TSize\<close>, not \<^verbatim>\<open>pos >= TSize\<close>: position \<^verbatim>\<open>TSize\<close> passes. The array is eight
  times as long as the bits need, so the byte it touches is still inside.
\<close>

lemma byte_index_in_range:
  "0 < n \<Longrightarrow> pos \<le> (n :: u32) \<Longrightarrow> unat pos div 8 < unat n"
  by (simp add: word_le_nat_alt word_less_nat_alt)

lemma div_mod_8_eq: "(k :: nat) = j \<longleftrightarrow> k div 8 = j div 8 \<and> k mod 8 = j mod 8"
  by (metis div_mult_mod_eq)

lemmas bitmap_op_defs = Bitmap_Set_def Bitmap_Reset_def Bitmap_Toggle_def Bitmap_Test_def
lemmas bitset_op_defs = Bitset_Set_def Bitset_Reset_def Bitset_Toggle_def Bitset_Test_def

lemma bitmap_wf_ops [simp]:
  "bitmap_wf b \<Longrightarrow> bitmap_wf (Bitmap_Set p b)"
  "bitmap_wf b \<Longrightarrow> bitmap_wf (Bitmap_Reset p b)"
  "bitmap_wf b \<Longrightarrow> bitmap_wf (Bitmap_Toggle p b)"
  by (auto simp: bitmap_wf_def bitmap_op_defs Let_def)

lemma TSize_ops [simp, frame_simps]:
  "TSize (Bitmap_Set p b) = TSize b"
  "TSize (Bitmap_Reset p b) = TSize b"
  "TSize (Bitmap_Toggle p b) = TSize b"
  by (auto simp: bitmap_op_defs Let_def)

lemma Bitmap_Test_bits:
  "p \<le> TSize b \<Longrightarrow> Bitmap_Test b p \<longleftrightarrow> bitmap_bits b (unat p)"
  by (simp add: Bitmap_Test_def bitmap_bits_def byte_test_bit_iff unat_div8 unat_mod8 Let_def leD)

lemma bitmap_bits_Set:
  assumes "bitmap_wf b" and "p \<le> TSize b"
  shows "bitmap_bits (Bitmap_Set p b) k \<longleftrightarrow> bitmap_bits b k \<or> k = unat p"
  using assms byte_index_in_range [of "TSize b" p]
  by (auto simp: bitmap_wf_def Bitmap_Set_def bitmap_bits_def bit_byte_or_bit unat_div8 unat_mod8
      nth_list_update Let_def leD div_mod_8_eq [of k])

lemma bitmap_bits_Reset:
  assumes "bitmap_wf b" and "p \<le> TSize b"
  shows "bitmap_bits (Bitmap_Reset p b) k \<longleftrightarrow> bitmap_bits b k \<and> k \<noteq> unat p"
  using assms byte_index_in_range [of "TSize b" p]
  by (auto simp: bitmap_wf_def Bitmap_Reset_def bitmap_bits_def bit_byte_clear_bit unat_div8
      unat_mod8 nth_list_update Let_def leD div_mod_8_eq [of k])

lemma bitmap_bits_Toggle:
  assumes "bitmap_wf b" and "p \<le> TSize b"
  shows "bitmap_bits (Bitmap_Toggle p b) k \<longleftrightarrow> (bitmap_bits b k \<noteq> (k = unat p))"
  using assms byte_index_in_range [of "TSize b" p]
  by (auto simp: bitmap_wf_def Bitmap_Toggle_def bitmap_bits_def bit_byte_xor_bit unat_div8
      unat_mod8 nth_list_update Let_def leD div_mod_8_eq [of k])

interpretation bm: bit_array "\<lambda>b. unat (TSize b)" bitmap_wf bitmap_bits Bitmap_Test Bitmap_Set
  Bitmap_Reset Bitmap_Toggle
  by unfold_locales
    (simp_all add: Bitmap_Test_bits bitmap_bits_Set bitmap_bits_Reset bitmap_bits_Toggle
      word_le_nat_alt)

interpretation bs: bit_array "\<lambda>b. unat (bs_TSize b)" bitset_wf bitset_bits
  "\<lambda>b p. Bitset_Test b p = Some True" Bitset_Set Bitset_Reset Bitset_Toggle
proof unfold_locales
  fix b :: bitset and p :: u32 and k :: nat
  assume wf: "bitset_wf b" and p: "unat p < unat (bs_TSize b)"
  then have r: "unat p div 8 < length (bs_Bits b)" and le: "\<not> p > bs_TSize b"
    by (auto simp: bitset_wf_def word_less_nat_alt)
  show "(Bitset_Test b p = Some True) = bitset_bits b (unat p)"
    using le by (simp add: Bitset_Test_def Let_def bitset_bits_def byte_test_bit_iff unat_div8 unat_mod8)
  show "bitset_bits (Bitset_Set p b) k = (bitset_bits b k \<or> k = unat p)"
    and "bitset_bits (Bitset_Reset p b) k = (bitset_bits b k \<and> k \<noteq> unat p)"
    and "bitset_bits (Bitset_Toggle p b) k = (bitset_bits b k \<noteq> (k = unat p))"
    using le r
    by (auto simp: bitset_op_defs Let_def bitset_bits_def byte_bits unat_div8 unat_mod8 nth_list_update
        div_mod_8_eq [of k])
qed (auto simp: bitset_wf_def bitset_op_defs Let_def)

section \<open>Runs of clear bits\<close>

text \<open>
  The reference for the search: \<open>first_run\<close> is the first position where \<open>n\<close> consecutive bits are
  clear and inside the array, \<open>free_tail\<close> the start of the clear stretch at its end (the size
  itself when the last bit is set).
\<close>

definition run_free :: "nat \<Rightarrow> (nat \<Rightarrow> bool) \<Rightarrow> nat \<Rightarrow> nat \<Rightarrow> bool" where
  "run_free lim f s n \<longleftrightarrow> s + n \<le> lim \<and> (\<forall>k\<in>{s..<s + n}. \<not> f k)"

definition first_run :: "nat \<Rightarrow> (nat \<Rightarrow> bool) \<Rightarrow> nat \<Rightarrow> nat option" where
  "first_run lim f n = List.find (\<lambda>s. run_free lim f s n) [0..<lim]"

primrec free_tail :: "nat \<Rightarrow> (nat \<Rightarrow> bool) \<Rightarrow> nat" where
  "free_tail 0 f = 0"
| "free_tail (Suc m) f = (if f m then Suc m else free_tail m f)"

definition search_result :: "nat \<Rightarrow> (nat \<Rightarrow> bool) \<Rightarrow> nat \<Rightarrow> u32" where
  "search_result lim f n =
     (case first_run lim f n of
        Some s \<Rightarrow> of_nat s
      | None \<Rightarrow> (if free_tail lim f = lim then - 1 else of_nat (free_tail lim f)))"

lemma first_run_Some_iff:
  assumes "0 < n"
  shows "first_run lim f n = Some s \<longleftrightarrow>
    run_free lim f s n \<and> (\<forall>r < s. \<not> run_free lim f r n)"
proof -
  have "first_run lim f n = Some s \<longleftrightarrow>
      (s < lim \<and> run_free lim f s n \<and> (\<forall>r < s. \<not> run_free lim f r n))"
    unfolding first_run_def find_Some_iff by (auto intro!: exI [of _ s])
  also have "\<dots> \<longleftrightarrow> run_free lim f s n \<and> (\<forall>r < s. \<not> run_free lim f r n)"
    using assms by (auto simp: run_free_def)
  finally show ?thesis .
qed

lemma first_run_None_iff:
  assumes "0 < n"
  shows "first_run lim f n = None \<longleftrightarrow> (\<forall>s. \<not> run_free lim f s n)"
  using assms by (auto simp: first_run_def find_None_iff run_free_def)

lemma free_tail_le: "free_tail m f \<le> m"
  by (induction m) auto

lemma free_tail_clear: "free_tail m f \<le> k \<Longrightarrow> k < m \<Longrightarrow> \<not> f k"
  by (induction m) (auto simp: less_Suc_eq split: if_splits)

lemma free_tail_least:
  "s \<le> m \<Longrightarrow> (\<And>k. s \<le> k \<Longrightarrow> k < m \<Longrightarrow> \<not> f k) \<Longrightarrow> free_tail m f \<le> s"
proof (induction m)
  case (Suc m)
  show ?case
  proof (cases "s = Suc m")
    case True
    then show ?thesis using free_tail_le [of "Suc m" f] by simp
  next
    case False
    with Suc show ?thesis by auto
  qed
qed simp

lemma free_tail_cong: "(\<And>k. k < m \<Longrightarrow> f k = g k) \<Longrightarrow> free_tail m f = free_tail m g"
  by (induction m) auto

lemma run_free_cong: "(\<And>k. k < lim \<Longrightarrow> f k = g k) \<Longrightarrow> run_free lim f s n = run_free lim g s n"
  by (auto simp: run_free_def)

lemma free_tail_no_run:
  assumes "0 < n" and "first_run lim f n = None"
  shows "lim < free_tail lim f + n"
proof (rule ccontr)
  assume "\<not> lim < free_tail lim f + n"
  then have "run_free lim f (free_tail lim f) n"
    using free_tail_clear [of lim f] by (auto simp: run_free_def)
  with assms show False by (simp add: first_run_None_iff)
qed

lemma run_free_shorter: "run_free lim f s n \<Longrightarrow> m \<le> n \<Longrightarrow> run_free lim f s m"
  by (auto simp: run_free_def)

subsection \<open>The search loop is the reference\<close>

definition search_state :: "(nat \<Rightarrow> bool) \<Rightarrow> u32 \<Rightarrow> u32 \<Rightarrow> u32 \<Rightarrow> u32 \<Rightarrow> bool" where
  "search_state f count i firstBit currentBit \<longleftrightarrow>
     currentBit < count \<and> unat i = free_tail (unat i) f + unat currentBit \<and>
     firstBit = (if currentBit = 0 then - 1 else of_nat (free_tail (unat i) f)) \<and>
     (\<forall>s. s + unat count \<le> unat i \<longrightarrow> \<not> run_free (unat i) f s (unat count))"

lemma run_free_prefix:
  "s + n \<le> m \<Longrightarrow> m \<le> lim \<Longrightarrow> run_free m f s n \<longleftrightarrow> run_free lim f s n"
  by (auto simp: run_free_def)

lemma search_state_init: "0 < count \<Longrightarrow> search_state f count 0 (- 1) 0"
  by (auto simp: search_state_def run_free_def word_less_nat_alt)

lemma search_state_set:
  assumes "search_state f count i fb cb" and "i < lim" and "f (unat i)"
  shows "search_state f count (i + 1) (- 1) 0"
proof -
  have i: "unat (i + 1) = Suc (unat i)" using assms(2) by (rule unat_inc)
  have "\<not> run_free (Suc (unat i)) f s (unat count)" for s
  proof
    assume r: "run_free (Suc (unat i)) f s (unat count)"
    with assms(3) have "s + unat count \<noteq> Suc (unat i)"
      using assms(1) by (auto simp: run_free_def search_state_def word_less_nat_alt)
    with r have "s + unat count \<le> unat i" by (auto simp: run_free_def)
    with r assms(1) show False
      by (auto simp: search_state_def run_free_def)
  qed
  with assms i show ?thesis by (auto simp: search_state_def word_less_nat_alt)
qed

text \<open>The three facts about a clear bit: the start of the run, the end of the search, the next state.\<close>

lemma search_state_no_run:
  assumes "search_state f count i fb cb" and "unat i \<le> lim" and "s + unat count \<le> unat i"
  shows "\<not> run_free lim f s (unat count)"
  using assms run_free_prefix [of s "unat count" "unat i" lim f] by (auto simp: search_state_def)

lemma search_state_first_bit:
  assumes st: "search_state f count i fb cb" and i: "unat i < 2 ^ 31"
  shows "(if fb = - 1 then i else fb) = of_nat (free_tail (unat i) f)"
proof (cases "cb = 0")
  case True
  then show ?thesis using st by (auto simp: search_state_def)
next
  case False
  let ?t = "free_tail (unat i) f"
  have "fb = of_nat ?t" "?t < 2 ^ 31" using False st i by (auto simp: search_state_def)
  moreover have "(of_nat ?t :: u32) \<noteq> - 1"
  proof
    assume "(of_nat ?t :: u32) = - 1"
    then have "unat (of_nat ?t :: u32) = unat (- 1 :: u32)" by simp
    then show False using \<open>?t < 2 ^ 31\<close> by (simp add: unat_of_nat32 unat_minus_one32)
  qed
  ultimately show ?thesis by simp
qed

lemma search_state_found:
  assumes st: "search_state f count i fb cb" and i: "i < lim" and clear: "\<not> f (unat i)" and n: "unat count = Suc (unat cb)"
  shows "first_run (unat lim) f (unat count) = Some (free_tail (unat i) f)"
proof -
  let ?t = "free_tail (unat i) f"
  have cb: "unat i = ?t + unat cb" using st by (simp add: search_state_def)
  have "run_free (unat lim) f ?t (unat count)"
    using n cb i clear free_tail_clear [of "unat i" f] by (auto simp: run_free_def word_less_nat_alt less_Suc_eq)
  moreover have "\<not> run_free (unat lim) f r (unat count)" if "r < ?t" for r
    by (rule search_state_no_run [OF st]) (use i that n cb in \<open>auto simp: word_less_nat_alt\<close>)
  ultimately show ?thesis using n by (simp add: first_run_Some_iff)
qed

lemma search_state_not_yet:
  assumes st: "search_state f count i fb cb" and lt: "Suc (unat cb) < unat count"
  shows "\<not> run_free (Suc (unat i)) f s (unat count)"
proof (cases "s + unat count \<le> unat i")
  case True
  then show ?thesis by (intro search_state_no_run [OF st]) simp_all
next
  case False
  show ?thesis
  proof
    assume r: "run_free (Suc (unat i)) f s (unat count)"
    with False have e: "s + unat count = Suc (unat i)" by (auto simp: run_free_def)
    then have "s \<le> unat i" using lt by simp
    moreover have "\<not> f k" if "s \<le> k" "k < unat i" for k using r e that by (auto simp: run_free_def)
    ultimately have "free_tail (unat i) f \<le> s" by (rule free_tail_least)
    with e lt st show False by (simp add: search_state_def)
  qed
qed

lemma search_state_clear:
  assumes st: "search_state f count i fb cb" and i: "i < lim" and clear: "\<not> f (unat i)"
    and bound: "unat lim < 2 ^ 31" and fb': "fb' = (if fb = - 1 then i else fb)"
  shows "fb' = of_nat (free_tail (Suc (unat i)) f)"
    and "cb + 1 = count \<Longrightarrow> first_run (unat lim) f (unat count) = Some (free_tail (Suc (unat i)) f)"
    and "cb + 1 \<noteq> count \<Longrightarrow> search_state f count (i + 1) fb' (cb + 1)"
proof -
  have t: "free_tail (Suc (unat i)) f = free_tail (unat i) f" using clear by simp
  have cb: "unat i = free_tail (unat i) f + unat cb" "cb < count" using st by (auto simp: search_state_def)
  have cb': "unat (cb + 1) = Suc (unat cb)" using cb(2) by (rule unat_inc)
  have i': "unat (i + 1) = Suc (unat i)" using i by (rule unat_inc)
  show fb_eq: "fb' = of_nat (free_tail (Suc (unat i)) f)"
    unfolding fb' t by (rule search_state_first_bit [OF st]) (use i bound in \<open>simp add: word_less_nat_alt\<close>)
  show "first_run (unat lim) f (unat count) = Some (free_tail (Suc (unat i)) f)" if "cb + 1 = count"
    unfolding t using that cb' by (intro search_state_found [OF st i clear]) auto
  show "search_state f count (i + 1) fb' (cb + 1)" if neq: "cb + 1 \<noteq> count"
  proof -
    have lt: "unat (cb + 1) < unat count"
      using cb(2) cb' neq by (metis Suc_leI le_neq_implies_less word_less_nat_alt word_unat_eq_iff)
    moreover have "cb + 1 \<noteq> 0" using cb' by auto
    ultimately show ?thesis
      using fb_eq cb(1) cb' i' t search_state_not_yet [OF st] by (auto simp: search_state_def word_less_nat_alt)
  qed
qed

lemma FindUnsetBits_loop_eq:
  assumes "bitmap_wf b" and "search_state (bitmap_bits b) count i fb cb" and "i \<le> TSize b"
  shows "FindUnsetBits_loop b count i fb cb =
    search_result (unat (TSize b)) (bitmap_bits b) (unat count)"
  using assms
proof (induction b count i fb cb rule: FindUnsetBits_loop.induct)
  case (1 b count i fb cb)
  let ?f = "bitmap_bits b" and ?fb = "if fb = - 1 then i else fb"
  note unfold = FindUnsetBits_loop.simps [of b count i fb cb]
  have bound: "unat (TSize b) < 2 ^ 31" using "1.prems"(1) by (simp add: bitmap_wf_def)
  show ?case
  proof (cases "i < TSize b")
    case True
    have le: "i + 1 \<le> TSize b" using True by (rule inc_le)
    have test: "Bitmap_Test b i \<longleftrightarrow> ?f (unat i)"
      using True by (simp add: Bitmap_Test_bits)
    show ?thesis
    proof (cases "?f (unat i)")
      case bit: True
      have "search_state ?f count (i + 1) (- 1) 0"
        by (rule search_state_set [OF "1.prems"(2) True bit])
      with True bit test le "1.IH"(1) "1.prems"(1) show ?thesis by (simp add: unfold)
    next
      case clear: False
      note next_state = search_state_clear [OF "1.prems"(2) True clear bound refl]
      show ?thesis
      proof (cases "cb + 1 = count")
        case found: True
        have "first_run (unat (TSize b)) ?f (unat count) = Some (free_tail (Suc (unat i)) ?f)"
          by (rule next_state(2) [OF found])
        with True clear test found next_state(1) show ?thesis
          by (simp add: unfold search_result_def)
      next
        case more: False
        with True clear test le "1.IH"(2) "1.prems"(1) next_state(3) [OF more] show ?thesis
          by (simp add: unfold Let_def)
      qed
    qed
  next
    case False
    then have i: "unat i = unat (TSize b)"
      using "1.prems"(3) by simp
    have pos: "0 < unat count"
      using "1.prems"(2) by (auto simp: search_state_def word_less_nat_alt)
    have no: "first_run (unat (TSize b)) ?f (unat count) = None"
      using "1.prems"(2) i pos
      by (auto simp: first_run_None_iff search_state_def) (auto simp: run_free_def)
    have "cb = 0 \<longleftrightarrow> free_tail (unat (TSize b)) ?f = unat (TSize b)"
      using "1.prems"(2) i by (auto simp: search_state_def unat_eq_0)
    then have "fb = search_result (unat (TSize b)) ?f (unat count)"
      using "1.prems"(2) i no by (auto simp: search_result_def search_state_def)
    with False show ?thesis by (subst unfold) simp
  qed
qed

lemma FindUnsetBits_eq:
  assumes "bitmap_wf b" and "0 < count"
  shows "Bitmap_FindUnsetBits b count =
    search_result (unat (TSize b)) (bitmap_bits b) (unat count)"
  using FindUnsetBits_loop_eq [OF assms(1) search_state_init [OF assms(2)]]
  by (simp add: Bitmap_FindUnsetBits_def)

section \<open>The contract of a run store\<close>

text \<open>
  What \<^verbatim>\<open>PhysicalMemoryManager\<close> and \<^verbatim>\<open>VirtualMemoryAllocator\<close> rely on: the search is the
  reference search, \<open>setr\<close> and \<open>clearr\<close> change exactly the run they are given when it lies inside
  the array and refuse it otherwise.
\<close>

locale run_store = bit_array sz inv bits tst set1 reset1 toggle1
  for sz :: "'b \<Rightarrow> nat" and inv bits tst set1 reset1 toggle1 +
  fixes find :: "'b \<Rightarrow> u32 \<Rightarrow> u32"
    and setr :: "u32 \<Rightarrow> u32 \<Rightarrow> 'b \<Rightarrow> 'b"
    and clearr :: "u32 \<Rightarrow> u32 \<Rightarrow> 'b \<Rightarrow> 'b"
  assumes sz_bound: "inv b \<Longrightarrow> sz b < 2 ^ 31"
    and find_eq: "inv b \<Longrightarrow> 0 < n \<Longrightarrow> find b n = search_result (sz b) (bits b) (unat n)"
    and bits_setr: "inv b \<Longrightarrow> unat s + unat n \<le> sz b \<Longrightarrow>
      bits (setr s n b) k \<longleftrightarrow> bits b k \<or> unat s \<le> k \<and> k < unat s + unat n"
    and bits_clearr: "inv b \<Longrightarrow> unat s + unat n \<le> sz b \<Longrightarrow>
      bits (clearr s n b) k \<longleftrightarrow> bits b k \<and> \<not> (unat s \<le> k \<and> k < unat s + unat n)"
    and setr_refused: "inv b \<Longrightarrow> sz b < unat s + unat n \<Longrightarrow> setr s n b = b"
    and clearr_refused: "inv b \<Longrightarrow> sz b < unat s + unat n \<Longrightarrow> clearr s n b = b"
    and inv_setr: "inv b \<Longrightarrow> inv (setr s n b)"
    and inv_clearr: "inv b \<Longrightarrow> inv (clearr s n b)"
    and sz_setr: "inv b \<Longrightarrow> sz (setr s n b) = sz b"
    and sz_clearr: "inv b \<Longrightarrow> sz (clearr s n b) = sz b"
begin

lemma find_run:
  assumes "inv b" and "0 < n" and "first_run (sz b) (bits b) (unat n) = Some s"
  shows "find b n = of_nat s" and "unat (find b n) = s" and "s + unat n \<le> sz b"
    and "\<not> sint (find b n) < 0"
proof -
  show f: "find b n = of_nat s" using assms by (simp add: find_eq search_result_def)
  have "0 < unat n" using assms(2) by (simp add: word_less_nat_alt)
  with assms(3) show le: "s + unat n \<le> sz b" by (simp add: first_run_Some_iff run_free_def)
  then have s: "s < 2 ^ 31" using sz_bound [OF assms(1)] by simp
  with f show u: "unat (find b n) = s" by (simp add: unat_of_nat32)
  then show "\<not> sint (find b n) < 0" using s by (simp add: sint_neg_iff)
qed

lemma find_none:
  assumes "inv b" and "0 < n" and "first_run (sz b) (bits b) (unat n) = None"
  shows "sz b < unat (find b n) + unat n \<or> sint (find b n) < 0"
proof -
  let ?t = "free_tail (sz b) (bits b)"
  have n: "0 < unat n" using assms(2) by (simp add: word_less_nat_alt)
  show ?thesis
  proof (cases "?t = sz b")
    case True
    then have "find b n = - 1" using assms by (simp add: find_eq search_result_def)
    then show ?thesis by simp
  next
    case False
    then have f: "find b n = of_nat ?t" using assms by (simp add: find_eq search_result_def)
    have "?t < 2 ^ 31" using free_tail_le [of "sz b" "bits b"] sz_bound [OF assms(1)] by simp
    then have "unat (find b n) = ?t" using f by (simp add: unat_of_nat32)
    then show ?thesis using free_tail_no_run [OF n assms(3)] by simp
  qed
qed

text \<open>Taking the run found, as both allocators do.\<close>

lemma take_run:
  assumes "inv b" and "0 < n" and "first_run (sz b) (bits b) (unat n) = Some s"
  shows "\<forall>k. s \<le> k \<and> k < s + unat n \<longrightarrow> \<not> bits b k"
    and "bits (setr (find b n) n b) k \<longleftrightarrow> bits b k \<or> s \<le> k \<and> k < s + unat n"
proof -
  have "0 < unat n" using assms(2) by (simp add: word_less_nat_alt)
  with assms(3) show "\<forall>k. s \<le> k \<and> k < s + unat n \<longrightarrow> \<not> bits b k"
    by (simp add: first_run_Some_iff run_free_def)
  show "bits (setr (find b n) n b) k \<longleftrightarrow> bits b k \<or> s \<le> k \<and> k < s + unat n"
    using bits_setr [OF assms(1), of "find b n" n k] find_run [OF assms] by simp
qed

lemma give_back:
  assumes "inv b" and "0 < n" and "first_run (sz b) (bits b) (unat n) = Some s"
  shows "bits (clearr (find b n) n (setr (find b n) n b)) k \<longleftrightarrow> bits b k"
  using take_run [OF assms] find_run [OF assms] assms(1)
  by (auto simp: bits_clearr inv_setr sz_setr)

lemma no_run_no_change:
  assumes "inv b" and "0 < n" and "first_run (sz b) (bits b) (unat n) = None"
    and "\<not> sint (find b n) < 0"
  shows "setr (find b n) n b = b"
  using find_none [OF assms(1-3)] assms(1,4) by (auto intro: setr_refused)

end

section \<open>Bitmap is a run store\<close>

lemma range_guard:
  "\<not> lim < s + n \<Longrightarrow> unat lim < unat s + unat n \<Longrightarrow> \<not> s < (s + n :: u32)"
  by unat_arith

lemma range_end:
  "unat s + unat n \<le> unat (lim :: u32) \<Longrightarrow> unat (s + n) = unat s + unat n \<and> \<not> lim < s + n"
  using unat_add_no_wrap [of s n] unat_lt_2p32 [of lim] by (auto simp: word_less_nat_alt)

lemma SetBits_refused: "unat (TSize b) < unat s + unat n \<Longrightarrow> Bitmap_SetBits s n b = b"
  using range_guard [of "TSize b" s n] by (simp add: Bitmap_SetBits_def for_range_done)

lemma ClearBits_refused: "unat (TSize b) < unat s + unat n \<Longrightarrow> Bitmap_ClearBits s n b = b"
  using range_guard [of "TSize b" s n] by (simp add: Bitmap_ClearBits_def for_range_done)

lemma SetBits_keeps [simp]:
  "bitmap_wf b \<Longrightarrow> bitmap_wf (Bitmap_SetBits s n b)"
  "bitmap_wf b \<Longrightarrow> TSize (Bitmap_SetBits s n b) = TSize b"
  using bm.range_keeps(1) [of b s "s + n"] by (simp_all add: Bitmap_SetBits_def word_unat_eq_iff)

lemma ClearBits_keeps [simp]:
  "bitmap_wf b \<Longrightarrow> bitmap_wf (Bitmap_ClearBits s n b)"
  "bitmap_wf b \<Longrightarrow> TSize (Bitmap_ClearBits s n b) = TSize b"
  using bm.range_keeps(2) [of b s "s + n"] by (simp_all add: Bitmap_ClearBits_def word_unat_eq_iff)

interpretation rs: run_store "\<lambda>b. unat (TSize b)" bitmap_wf bitmap_bits Bitmap_Test Bitmap_Set
  Bitmap_Reset Bitmap_Toggle Bitmap_FindUnsetBits Bitmap_SetBits Bitmap_ClearBits
proof unfold_locales
  fix b :: bitmap and s n :: u32 and k :: nat
  assume wf: "bitmap_wf b" and r: "unat s + unat n \<le> unat (TSize b)"
  note e = range_end [OF r]
  show "bitmap_bits (Bitmap_SetBits s n b) k =
      (bitmap_bits b k \<or> unat s \<le> k \<and> k < unat s + unat n)"
    using bm.bits_set_range [OF wf, of "s + n"] e r by (simp add: Bitmap_SetBits_def)
  show "bitmap_bits (Bitmap_ClearBits s n b) k =
      (bitmap_bits b k \<and> \<not> (unat s \<le> k \<and> k < unat s + unat n))"
    using bm.bits_reset_range [OF wf, of "s + n"] e r by (simp add: Bitmap_ClearBits_def)
qed (simp_all add: FindUnsetBits_eq SetBits_refused ClearBits_refused, simp add: bitmap_wf_def)

section \<open>SetAll and ResetAll\<close>

lemma byte_index_nat: "bitmap_wf b \<Longrightarrow> k \<le> unat (TSize b) \<Longrightarrow> k div 8 < length (m_Bits b)"
  by (auto simp: bitmap_wf_def word_less_nat_alt)

lemma bits_ResetAll:
  "bitmap_wf b \<Longrightarrow> k \<le> unat (TSize b) \<Longrightarrow> \<not> bitmap_bits (Bitmap_ResetAll b) k"
  using byte_index_nat [of b k] by (simp add: bitmap_bits_def Bitmap_ResetAll_def)

text \<open>
  \<^verbatim>\<open>SetAll\<close> fills the bytes with the value 1, not \<^verbatim>\<open>0xFF\<close>: only the lowest bit of every byte.
\<close>

lemma bits_SetAll:
  "bitmap_wf b \<Longrightarrow> k \<le> unat (TSize b) \<Longrightarrow> bitmap_bits (Bitmap_SetAll b) k \<longleftrightarrow> k mod 8 = 0"
  using byte_index_nat [of b k] by (simp add: bitmap_bits_def Bitmap_SetAll_def bit_1_iff)

lemma SetAll_keeps [simp]:
  "bitmap_wf (Bitmap_SetAll b) \<longleftrightarrow> bitmap_wf b" "TSize (Bitmap_SetAll b) = TSize b"
  "bitmap_wf (Bitmap_ResetAll b) \<longleftrightarrow> bitmap_wf b" "TSize (Bitmap_ResetAll b) = TSize b"
  by (simp_all add: bitmap_wf_def Bitmap_SetAll_def Bitmap_ResetAll_def)

section \<open>Properties\<close>

definition bitmap_16 :: bitmap where
  "bitmap_16 = \<lparr>TSize = 16, m_Bits = 7 # replicate 15 0\<rparr>"

lemma bitmap_16_wf: "bitmap_wf bitmap_16"
  by (simp add: bitmap_wf_def bitmap_16_def)

text \<open>
  After \<^verbatim>\<open>Set\<close>, \<^verbatim>\<open>Reset\<close> or \<^verbatim>\<open>Toggle\<close> of one position, \<^verbatim>\<open>Test\<close> of any position answers as before
  except at that position, where it answers true, false and the negation; packing eight positions
  into a byte never disturbs a neighbour.
\<close>

theorem bitmap_single_bit_operations:
  assumes "bitmap_wf b" and "p < TSize b" and "q < TSize b"
  shows "(Bitmap_Test (Bitmap_Set p b) q \<longleftrightarrow> q = p \<or> Bitmap_Test b q) \<and>
    (Bitmap_Test (Bitmap_Reset p b) q \<longleftrightarrow> q \<noteq> p \<and> Bitmap_Test b q) \<and>
    (Bitmap_Test (Bitmap_Toggle p b) q \<longleftrightarrow> (if q = p then \<not> Bitmap_Test b q else Bitmap_Test b q))"
  using bm.test_set_other bm.test_reset_other bm.test_toggle_other assms
  by (auto simp: word_less_nat_alt)

theorem bitmap_single_bit_operations_witness:
  "Bitmap_Test (Bitmap_Set 9 bitmap_16) 9 \<and> \<not> Bitmap_Test (Bitmap_Reset 1 bitmap_16) 1"
  using bitmap_single_bit_operations [OF bitmap_16_wf, of 9 9]
    bitmap_single_bit_operations [OF bitmap_16_wf, of 1 1]
  by (simp add: bitmap_16_def)

text \<open>
  \<^verbatim>\<open>SetBits\<close> and \<^verbatim>\<open>ClearBits\<close> change exactly the run they are given when it fits the bitmap, and
  change nothing at all when it does not, also when \<^verbatim>\<open>start + count\<close> wraps around.
\<close>

theorem bitmap_run_operations:
  assumes "bitmap_wf b" and "q < TSize b"
  shows "(Bitmap_Test (Bitmap_SetBits s n b) q \<longleftrightarrow>
      Bitmap_Test b q \<or>
      (unat s + unat n \<le> unat (TSize b) \<and> unat s \<le> unat q \<and> unat q < unat s + unat n)) \<and>
    (Bitmap_Test (Bitmap_ClearBits s n b) q \<longleftrightarrow>
      Bitmap_Test b q \<and>
      \<not> (unat s + unat n \<le> unat (TSize b) \<and> unat s \<le> unat q \<and> unat q < unat s + unat n))"
  using rs.bits_setr rs.bits_clearr rs.setr_refused rs.clearr_refused assms
  by (cases "unat s + unat n \<le> unat (TSize b)") (auto simp: Bitmap_Test_bits)

theorem bitmap_run_operations_witness:
  "Bitmap_Test (Bitmap_SetBits 4 3 bitmap_16) 6 \<and> \<not> Bitmap_Test (Bitmap_SetBits 4 0xFFFFFFFE bitmap_16) 6"
proof -
  have "\<not> Bitmap_Test bitmap_16 6" by code_simp
  then show ?thesis
    using bitmap_run_operations [OF bitmap_16_wf, of 6 4 3]
      bitmap_run_operations [OF bitmap_16_wf, of 6 4 "0xFFFFFFFE"]
    by (simp add: bitmap_16_def)
qed

text \<open>
  C12: The search loop of \<^verbatim>\<open>FindUnsetBits\<close> is the reference search: the first position where
  \<^verbatim>\<open>count\<close> consecutive bits are clear, and when there is none the start of the clear stretch at the
  end of the bitmap, or -1 if the last bit is set.
\<close>

theorem bitmap_find_unset_bits_reference:
  assumes "bitmap_wf b" and "0 < count"
  shows "Bitmap_FindUnsetBits b count =
    search_result (unat (TSize b)) (bitmap_bits b) (unat count)"
  using assms by (rule FindUnsetBits_eq)

theorem bitmap_find_unset_bits_reference_witness:
  "Bitmap_FindUnsetBits bitmap_16 4 = 3 \<and> Bitmap_FindUnsetBits bitmap_16 14 = 3"
proof -
  have "search_result (unat (TSize bitmap_16)) (bitmap_bits bitmap_16) (unat (4 :: u32)) = 3"
    "search_result (unat (TSize bitmap_16)) (bitmap_bits bitmap_16) (unat (14 :: u32)) = 3"
    by code_simp+
  then show ?thesis
    using bitmap_find_unset_bits_reference [OF bitmap_16_wf, of 4]
      bitmap_find_unset_bits_reference [OF bitmap_16_wf, of 14] by simp
qed

text \<open>
  \<^verbatim>\<open>SetAll\<close> does not set all bits: it fills the bytes with the value 1, so afterwards only the
  positions divisible by eight test as set. \<^verbatim>\<open>ResetAll\<close> does clear every position.
\<close>

theorem bitmap_set_all_sets_every_eighth:
  assumes "bitmap_wf b" and "q < TSize b"
  shows "(Bitmap_Test (Bitmap_SetAll b) q \<longleftrightarrow> q mod 8 = 0) \<and> \<not> Bitmap_Test (Bitmap_ResetAll b) q"
proof -
  have "unat q mod 8 = 0 \<longleftrightarrow> q mod 8 = 0" by (simp flip: unat_mod8 add: unat_eq_0)
  then show ?thesis
    using assms bits_SetAll [of b "unat q"] bits_ResetAll [of b "unat q"]
    by (simp add: Bitmap_Test_bits word_less_nat_alt word_le_nat_alt)
qed

theorem bitmap_set_all_sets_every_eighth_witness:
  "Bitmap_Test (Bitmap_SetAll bitmap_16) 8 \<and> \<not> Bitmap_Test (Bitmap_SetAll bitmap_16) 7"
  using bitmap_set_all_sets_every_eighth [OF bitmap_16_wf, of 8]
    bitmap_set_all_sets_every_eighth [OF bitmap_16_wf, of 7]
  by (simp add: bitmap_16_def)

end
