(* ===== verification/Boot.thy ===== *)
theory Boot
  imports Prelude
begin

text \<open>
  \<^verbatim>\<open>Kernel/Boot/MemoryMap.h\<close>, \<^verbatim>\<open>Kernel/Boot/BootInfo.h\<close>, \<^verbatim>\<open>Kernel/Boot/Multiboot.h\<close>, and the part
  of \<^verbatim>\<open>KMain\<close> that turns the bootloader's record into a \<^verbatim>\<open>BootInfo\<close>.
  A pointer to an array of regions is a function from the index.
\<close>

section \<open>Memory map\<close>

text \<open>
  The enumeration has a fixed underlying type and is read from memory the bootloader wrote, so any
  32-bit value may occur.
\<close>

datatype MemoryRegionType = Available | Reserved | ACPIReclaimable | NVS | BadRAM | Unlisted u32

definition region_type_of :: "u32 \<Rightarrow> MemoryRegionType" where
  "region_type_of v =
     (if v = 1 then Available else if v = 2 then Reserved else if v = 3 then ACPIReclaimable
      else if v = 4 then NVS else if v = 5 then BadRAM else Unlisted v)"

primrec region_type_value :: "MemoryRegionType \<Rightarrow> u32" where
  "region_type_value Available = 1"
| "region_type_value Reserved = 2"
| "region_type_value ACPIReclaimable = 3"
| "region_type_value NVS = 4"
| "region_type_value BadRAM = 5"
| "region_type_value (Unlisted v) = v"

lemma region_type_value_of [simp]: "region_type_value (region_type_of v) = v"
  by (simp add: region_type_of_def)

text \<open>
  A region of the memory map. The word \<^verbatim>\<open>_Reserved\<close> at its end is left out: nothing reads or writes it.
\<close>

record MemoryRegion =
  BaseAddress :: u64
  Length :: u64
  Type :: MemoryRegionType

record MemoryMap =
  MemoryAddressLow :: u32
  MemoryAddressHigh :: u32
  RegionCount :: u32
  Regions :: "u32 \<Rightarrow> MemoryRegion"

record BootInfo =
  Signature :: u32
  BootloaderPhysicalStartAddress :: u32
  BootloaderPhysicalEndAddress :: u32
  BootloaderSize :: u32
  KernelPhysicalStartAddress :: u32
  KernelPhysicalEndAddress :: u32
  KernelVirtualStartAddress :: u32
  KernelVirtualEndAddress :: u32
  KernelSize :: u32
  SystemMemoryMap :: MemoryMap

section \<open>The multiboot record\<close>

record MultibootSymbolTable =
  symtab_TabSize :: u32
  symtab_StringSize :: u32
  symtab_Address :: u32
  symtab_Reserved :: u32

record MultibootELFSectionHeaderTable =
  elf_Number :: u32
  elf_Size :: u32
  elf_Address :: u32
  elf_Shndx :: u32

record MultibootModule =
  module_StartAddress :: u32
  module_EndAddress :: u32
  module_CommandLine :: u32
  module_Pad :: u32

text \<open>
  The entries of the multiboot memory map as the bootloader lays them out: 24 bytes, a size that
  the kernel's own view of the same bytes calls \<^verbatim>\<open>_Reserved\<close>, base, length and type. The type is kept as the
  word the bootloader wrote; \<open>MultibootMemoryMapType_value\<close> gives the words that have a name.
\<close>

datatype MultibootMemoryMapType = MultibootAvailable | MultibootReserved | MultibootACPIReclaimable |
  MultibootNVS | MultibootBADRAM

primrec MultibootMemoryMapType_value :: "MultibootMemoryMapType \<Rightarrow> u32" where
  "MultibootMemoryMapType_value MultibootAvailable = 0x1"
| "MultibootMemoryMapType_value MultibootReserved = 0x2"
| "MultibootMemoryMapType_value MultibootACPIReclaimable = 0x3"
| "MultibootMemoryMapType_value MultibootNVS = 0x4"
| "MultibootMemoryMapType_value MultibootBADRAM = 0x5"

record MultibootMemoryMap =
  mmap_Size :: u32
  mmap_BaseAddress :: u64
  mmap_Length :: u64
  mmap_Type :: u32

datatype MultibootFramebufferType = FramebufferIndexed | FramebufferRGB | FramebufferEGAText

primrec MultibootFramebufferType_value :: "MultibootFramebufferType \<Rightarrow> u8" where
  "MultibootFramebufferType_value FramebufferIndexed = 0x0"
| "MultibootFramebufferType_value FramebufferRGB = 0x1"
| "MultibootFramebufferType_value FramebufferEGAText = 0x2"

text \<open>
  The record itself. A member of an enumeration type is the number in memory. Of each of the two unions the
  record keeps one member, which holds all of its bytes; the other member is a view of it, below.
\<close>

record MultibootInfo =
  MultibootFlags :: u32
  MemoryLower :: u32
  MemoryUpper :: u32
  BootDevice :: u32
  CommandLine :: u32
  ModCount :: u32
  ModAddress :: u32
  Sym_SymbolTable :: MultibootSymbolTable
  MemoryMapLength :: u32
  MemoryMapAddress :: "u32 \<Rightarrow> MultibootMemoryMap"
  DrivesLength :: u32
  DrivesAddress :: u32
  ConfigTable :: u32
  BootloaderName :: u32
  APMTable :: u32
  VBEControlInfo :: u32
  VBEModeInfo :: u32
  VBEMode :: u16
  VBEInterfaceSegment :: u16
  VBEInterfaceOffset :: u16
  VBEInterfaceLength :: u16
  FramebufferAddress :: u64
  FramebufferPitch :: u32
  FramebufferWidth :: u32
  FramebufferHeight :: u32
  FramebufferBPP :: u8
  FramebufferType :: u8
  FramebufferRedFieldPosition :: u8
  FramebufferRedMaskSize :: u8
  FramebufferGreenFieldPosition :: u8
  FramebufferGreenMaskSize :: u8
  FramebufferBlueFieldPosition :: u8
  FramebufferBlueMaskSize :: u8

definition Sym_ELFHeaderTable :: "MultibootInfo \<Rightarrow> MultibootELFSectionHeaderTable" where
  "Sym_ELFHeaderTable mb = (let s = Sym_SymbolTable mb in
     \<lparr>elf_Number = symtab_TabSize s, elf_Size = symtab_StringSize s, elf_Address = symtab_Address s,
      elf_Shndx = symtab_Reserved s\<rparr>)"

definition FramebufferPaletteAddress :: "MultibootInfo \<Rightarrow> u32" where
  "FramebufferPaletteAddress mb = ucast (FramebufferRedFieldPosition mb) OR
     push_bit 8 (ucast (FramebufferRedMaskSize mb)) OR push_bit 16 (ucast (FramebufferGreenFieldPosition mb)) OR
     push_bit 24 (ucast (FramebufferGreenMaskSize mb))"

definition FramebufferPaletteNumColors :: "MultibootInfo \<Rightarrow> u16" where
  "FramebufferPaletteNumColors mb = ucast (FramebufferBlueFieldPosition mb) OR
     push_bit 8 (ucast (FramebufferBlueMaskSize mb))"

text \<open>The kernel's own enumeration gives the types of the memory map the same numbers.\<close>

primrec region_type_of_multiboot :: "MultibootMemoryMapType \<Rightarrow> MemoryRegionType" where
  "region_type_of_multiboot MultibootAvailable = Available"
| "region_type_of_multiboot MultibootReserved = Reserved"
| "region_type_of_multiboot MultibootACPIReclaimable = ACPIReclaimable"
| "region_type_of_multiboot MultibootNVS = NVS"
| "region_type_of_multiboot MultibootBADRAM = BadRAM"

lemma multiboot_types_agree:
  "region_type_of (MultibootMemoryMapType_value ty) = region_type_of_multiboot ty"
  by (cases ty) (simp_all add: region_type_of_def)

section \<open>From the multiboot record to BootInfo\<close>

text \<open>The addresses the linker script defines.\<close>

record linker_symbols =
  bootloader_physical_start :: u32
  bootloader_physical_end :: u32
  kernel_physical_start :: u32
  kernel_physical_end :: u32
  kernel_virtual_start :: u32
  kernel_virtual_end :: u32

definition MULTIBOOT_BOOTLOADER_MAGIC :: u32 where
  "MULTIBOOT_BOOTLOADER_MAGIC = 0x2BADB002"

definition EAGLEOS_BOOT_SIGNATURE :: u32 where
  "EAGLEOS_BOOT_SIGNATURE = 0xDEADD432"

definition region_view :: "MultibootMemoryMap \<Rightarrow> MemoryRegion" where
  "region_view m =
     \<lparr>BaseAddress = mmap_BaseAddress m, Length = mmap_Length m, Type = region_type_of (mmap_Type m)\<rparr>"

definition KMain_bootInfo :: "linker_symbols \<Rightarrow> MultibootInfo \<Rightarrow> BootInfo" where
  "KMain_bootInfo ls mb =
     \<lparr>Signature = EAGLEOS_BOOT_SIGNATURE,
      BootloaderPhysicalStartAddress = bootloader_physical_start ls,
      BootloaderPhysicalEndAddress = bootloader_physical_end ls,
      BootloaderSize = bootloader_physical_end ls - bootloader_physical_start ls,
      KernelPhysicalStartAddress = kernel_physical_start ls,
      KernelPhysicalEndAddress = kernel_physical_end ls,
      KernelVirtualStartAddress = kernel_virtual_start ls,
      KernelVirtualEndAddress = kernel_virtual_end ls,
      KernelSize = kernel_virtual_end ls - kernel_virtual_start ls,
      SystemMemoryMap =
        \<lparr>MemoryAddressLow = MemoryLower mb * 1024,
         MemoryAddressHigh = MemoryUpper mb * 1024,
         RegionCount = MemoryMapLength mb div 24,
         Regions = region_view \<circ> MemoryMapAddress mb\<rparr>\<rparr>"

end
