(* ===== verification/PhysMem.thy ===== *)
theory PhysMem
  imports Bitmap Boot
begin

text \<open>
  \<^verbatim>\<open>Kernel/Memory/PhysicalMemoryManager.{h,cpp}\<close>: the allocator of physical page frames over one
  bitmap. Every method of the class is a definition over the record of its fields; what a method
  prints is in the theory \<open>Messages\<close>.
\<close>

section \<open>State\<close>

datatype PageState = PageFree | PageReserved

record pmm =
  pmm_PageSize :: u32
  pmm_MemorySizeBytes :: u32
  pmm_PageCount :: u32
  pmm_StartAddress :: u32
  pmm_EndAddress :: u32
  pmm_Bitmap :: bitmap

section \<open>Operations\<close>

definition PMM_AddressToPageNumber :: "pmm \<Rightarrow> u32 \<Rightarrow> u32" where
  "PMM_AddressToPageNumber p address = (address - pmm_StartAddress p) div pmm_PageSize p"

definition PMM_PageNumberToAddress :: "pmm \<Rightarrow> u32 \<Rightarrow> u32" where
  "PMM_PageNumberToAddress p pageNumber = pmm_StartAddress p + pageNumber * pmm_PageSize p"

definition PMM_AllocatePages :: "u32 \<Rightarrow> pmm \<Rightarrow> u32 \<times> pmm" where
  "PMM_AllocatePages pageCount p =
     (if pageCount = 0 then (0, p)
      else let firstPage = Bitmap_FindUnsetBits (pmm_Bitmap p) pageCount
           in if sint firstPage < 0 then (0, p)
              else (let p' = p\<lparr>pmm_Bitmap := Bitmap_SetBits firstPage pageCount (pmm_Bitmap p)\<rparr>
                    in (PMM_PageNumberToAddress p' firstPage, p')))"

definition PMM_AllocatePage :: "pmm \<Rightarrow> u32 \<times> pmm" where
  "PMM_AllocatePage p = PMM_AllocatePages 1 p"

definition PMM_FreePages :: "u32 \<Rightarrow> u32 \<Rightarrow> pmm \<Rightarrow> pmm" where
  "PMM_FreePages address pageCount p =
     (if address = 0 then p
      else p\<lparr>pmm_Bitmap :=
        Bitmap_ClearBits (PMM_AddressToPageNumber p address) pageCount (pmm_Bitmap p)\<rparr>)"

definition PMM_FreePage :: "u32 \<Rightarrow> pmm \<Rightarrow> pmm" where
  "PMM_FreePage address p = PMM_FreePages address 1 p"

definition PMM_ReservePages :: "u32 \<Rightarrow> u32 \<Rightarrow> pmm \<Rightarrow> pmm" where
  "PMM_ReservePages address pageCount p =
     p\<lparr>pmm_Bitmap := Bitmap_SetBits (PMM_AddressToPageNumber p address) pageCount (pmm_Bitmap p)\<rparr>"

definition PMM_ReservePage :: "u32 \<Rightarrow> pmm \<Rightarrow> pmm" where
  "PMM_ReservePage address p = PMM_ReservePages address 1 p"

definition PMM_GetPageSize :: "pmm \<Rightarrow> u32" where
  "PMM_GetPageSize p = pmm_PageSize p"

definition PMM_SetRegionState :: "u32 \<Rightarrow> u32 \<Rightarrow> PageState \<Rightarrow> pmm \<Rightarrow> pmm" where
  "PMM_SetRegionState address sizeBytes state p =
     (let pageNumber = PMM_AddressToPageNumber p address;
          pageCount = sizeBytes div pmm_PageSize p
      in case state of
           PageFree \<Rightarrow> p\<lparr>pmm_Bitmap := Bitmap_ClearBits pageNumber pageCount (pmm_Bitmap p)\<rparr>
         | PageReserved \<Rightarrow> p\<lparr>pmm_Bitmap := Bitmap_SetBits pageNumber pageCount (pmm_Bitmap p)\<rparr>)"

subsection \<open>Initialisation\<close>

text \<open>The loop of \<^verbatim>\<open>InitMemory\<close> over the pair \<^verbatim>\<open>(memoryStart, memoryEnd)\<close>, in 64 bits.\<close>

definition InitMemory_step :: "MemoryMap \<Rightarrow> u32 \<Rightarrow> u64 \<times> u64 \<Rightarrow> u64 \<times> u64" where
  "InitMemory_step mm i s =
     (let (memoryStart, memoryEnd) = s; r = Regions mm i;
          memoryStart' = (if BaseAddress r < memoryStart then BaseAddress r else memoryStart);
          memoryEnd' = (if BaseAddress r \<le> ucast (MemoryAddressHigh mm) \<and>
                           BaseAddress r + Length r > memoryEnd
                        then BaseAddress r + Length r else memoryEnd)
      in (memoryStart', memoryEnd'))"

definition PMM_InitMemory :: "BootInfo \<Rightarrow> pmm \<Rightarrow> bool \<times> pmm" where
  "PMM_InitMemory bootInfo p =
     (let mm = SystemMemoryMap bootInfo;
          (memoryStart, memoryEnd) = for_range 0 (RegionCount mm) (InitMemory_step mm) (- 1, 0);
          startAddress = ucast memoryStart; endAddress = ucast memoryEnd;
          sizeBytes = endAddress - startAddress
      in (True, p\<lparr>pmm_StartAddress := startAddress, pmm_EndAddress := endAddress,
                  pmm_MemorySizeBytes := sizeBytes, pmm_PageCount := sizeBytes div pmm_PageSize p\<rparr>))"

definition PMM_InitBitmap :: "BootInfo \<Rightarrow> pmm \<Rightarrow> bool \<times> pmm" where
  "PMM_InitBitmap bootInfo p = (True, p\<lparr>pmm_Bitmap := Bitmap_SetAll (pmm_Bitmap p)\<rparr>)"

definition InitFreeMemory_step :: "MemoryMap \<Rightarrow> u32 \<Rightarrow> pmm \<Rightarrow> pmm" where
  "InitFreeMemory_step mm i p =
     (let region = Regions mm i
      in if Type region = Available \<and> Length region > 0
         then PMM_SetRegionState (ucast (BaseAddress region)) (ucast (Length region)) PageFree p
         else p)"

definition PMM_InitFreeMemory :: "BootInfo \<Rightarrow> pmm \<Rightarrow> bool \<times> pmm" where
  "PMM_InitFreeMemory bootInfo p =
     (let mm = SystemMemoryMap bootInfo
      in (True, for_range 0 (RegionCount mm) (InitFreeMemory_step mm) p))"

definition PMM_Init :: "BootInfo \<Rightarrow> pmm \<Rightarrow> bool \<times> pmm" where
  "PMM_Init bootInfo p0 =
     (let p1 = p0\<lparr>pmm_PageSize := 4096\<rparr>; (ok1, p2) = PMM_InitMemory bootInfo p1
      in if \<not> ok1 then (False, p2)
         else let (ok2, p3) = PMM_InitBitmap bootInfo p2
              in if \<not> ok2 then (False, p3)
                 else let (ok3, p4) = PMM_InitFreeMemory bootInfo p3
                      in if \<not> ok3 then (False, p4) else (True, p4))"

section \<open>Invariant and frame\<close>

text \<open>
  4 KB pages, a well-formed bitmap, and no more pages than 32-bit addresses can number (the class
  has 131072 of them).
\<close>

definition pmm_wf :: "pmm \<Rightarrow> bool" where
  "pmm_wf p \<longleftrightarrow> bitmap_wf (pmm_Bitmap p) \<and> pmm_PageSize p = 4096 \<and>
     unat (TSize (pmm_Bitmap p)) \<le> 2 ^ 20"

abbreviation pmm_size :: "pmm \<Rightarrow> nat" where
  "pmm_size p \<equiv> unat (TSize (pmm_Bitmap p))"

abbreviation page_taken :: "pmm \<Rightarrow> nat \<Rightarrow> bool" where
  "page_taken p \<equiv> bitmap_bits (pmm_Bitmap p)"

abbreviation pmm_first_run :: "pmm \<Rightarrow> u32 \<Rightarrow> nat option" where
  "pmm_first_run p n \<equiv> first_run (pmm_size p) (page_taken p) (unat n)"

lemma pmm_wfD:
  "pmm_wf p \<Longrightarrow> bitmap_wf (pmm_Bitmap p)" "pmm_wf p \<Longrightarrow> pmm_PageSize p = 4096"
  "pmm_wf p \<Longrightarrow> pmm_size p \<le> 1048576"
  by (auto simp: pmm_wf_def)

lemma page_address_unat:
  assumes "k < 1048576"
  shows "unat (of_nat k * 4096 :: u32) = k * 4096"
  using assms by (simp add: unat_mult_wrap unat_of_nat32)

lemma page_round_trip [simp]:
  assumes "k < 1048576"
  shows "(of_nat k * 4096 :: u32) div 4096 = of_nat k"
  using assms by (simp add: word_unat_eq_iff unat_div_distrib page_address_unat unat_of_nat32)

lemma page_address_inj:
  assumes "j < 1048576" and "k < 1048576"
  shows "(start + of_nat j * 4096 :: u32) = start + of_nat k * 4096 \<longleftrightarrow> j = k"
proof -
  have "(start + of_nat j * 4096 = start + of_nat k * 4096) \<longleftrightarrow>
      unat (of_nat j * 4096 :: u32) = unat (of_nat k * 4096 :: u32)"
    by (simp flip: word_unat_eq_iff)
  with assms show ?thesis by (simp add: page_address_unat)
qed

lemma PMM_number_of_address:
  "pmm_wf p \<Longrightarrow> k < 1048576 \<Longrightarrow>
    PMM_AddressToPageNumber p (PMM_PageNumberToAddress p (of_nat k)) = of_nat k"
  by (simp add: PMM_AddressToPageNumber_def PMM_PageNumberToAddress_def pmm_wfD page_round_trip)

lemma pmm_wf_bitmap_update:
  "pmm_wf p \<Longrightarrow> bitmap_wf b \<Longrightarrow> TSize b = TSize (pmm_Bitmap p) \<Longrightarrow> pmm_wf (p\<lparr>pmm_Bitmap := b\<rparr>)"
  by (simp add: pmm_wf_def)

lemmas pmm_op_defs = PMM_FreePages_def PMM_ReservePages_def PMM_SetRegionState_def

lemma pmm_wf_AllocatePages: "pmm_wf p \<Longrightarrow> pmm_wf (snd (PMM_AllocatePages n p))"
  by (auto simp: PMM_AllocatePages_def Let_def pmm_wf_def)

lemma pmm_wf_updates [simp]:
  "pmm_wf p \<Longrightarrow> pmm_wf (PMM_FreePages a n p)"
  "pmm_wf p \<Longrightarrow> pmm_wf (PMM_ReservePages a n p)"
  "pmm_wf p \<Longrightarrow> pmm_wf (PMM_SetRegionState a n st p)"
  by (auto simp: pmm_op_defs Let_def pmm_wf_def split: PageState.split)

lemma pmm_fields [frame_simps, simp]:
  "pmm_StartAddress (PMM_FreePages a n p) = pmm_StartAddress p"
  "pmm_StartAddress (PMM_ReservePages a n p) = pmm_StartAddress p"
  "pmm_StartAddress (PMM_SetRegionState a n st p) = pmm_StartAddress p"
  "pmm_StartAddress (snd (PMM_AllocatePages n p)) = pmm_StartAddress p"
  "pmm_PageSize (PMM_FreePages a n p) = pmm_PageSize p"
  "pmm_PageSize (PMM_ReservePages a n p) = pmm_PageSize p"
  "pmm_PageSize (PMM_SetRegionState a n st p) = pmm_PageSize p"
  "pmm_PageSize (snd (PMM_AllocatePages n p)) = pmm_PageSize p"
  by (auto simp: pmm_op_defs PMM_AllocatePages_def Let_def split: PageState.split)

lemma pmm_size_updates [frame_simps, simp]:
  "pmm_wf p \<Longrightarrow> TSize (pmm_Bitmap (PMM_FreePages a n p)) = TSize (pmm_Bitmap p)"
  "pmm_wf p \<Longrightarrow> TSize (pmm_Bitmap (PMM_ReservePages a n p)) = TSize (pmm_Bitmap p)"
  "pmm_wf p \<Longrightarrow> TSize (pmm_Bitmap (PMM_SetRegionState a n st p)) = TSize (pmm_Bitmap p)"
  "pmm_wf p \<Longrightarrow> TSize (pmm_Bitmap (snd (PMM_AllocatePages n p))) = TSize (pmm_Bitmap p)"
  by (auto simp: pmm_op_defs PMM_AllocatePages_def Let_def pmm_wfD split: PageState.split)

section \<open>Allocation\<close>

lemma PMM_AllocatePages_run:
  assumes "pmm_wf p" and "0 < n" and "pmm_first_run p n = Some s"
  shows "fst (PMM_AllocatePages n p) = pmm_StartAddress p + of_nat s * 4096"
    and "page_taken (snd (PMM_AllocatePages n p)) k \<longleftrightarrow>
      page_taken p k \<or> s \<le> k \<and> k < s + unat n"
    and "s \<le> k \<and> k < s + unat n \<Longrightarrow> \<not> page_taken p k"
    and "s + unat n \<le> pmm_size p"
proof -
  note wf = pmm_wfD [OF assms(1)]
  note found = rs.find_run [OF wf(1) assms(2,3)]
  have n: "n \<noteq> 0" using assms(2) by auto
  show "fst (PMM_AllocatePages n p) = pmm_StartAddress p + of_nat s * 4096"
    using n found wf(2) by (simp add: PMM_AllocatePages_def PMM_PageNumberToAddress_def Let_def)
  show "page_taken (snd (PMM_AllocatePages n p)) k \<longleftrightarrow>
      page_taken p k \<or> s \<le> k \<and> k < s + unat n"
    using n found(4) rs.take_run(2) [OF wf(1) assms(2,3), of k]
    by (simp add: PMM_AllocatePages_def Let_def)
  show "s \<le> k \<and> k < s + unat n \<Longrightarrow> \<not> page_taken p k"
    using rs.take_run(1) [OF wf(1) assms(2,3)] by blast
  show "s + unat n \<le> pmm_size p" by (rule found(3))
qed

lemma PMM_AllocatePages_no_run:
  assumes "pmm_wf p" and "0 < n" and "pmm_first_run p n = None"
  shows "PMM_AllocatePages n p =
    (if free_tail (pmm_size p) (page_taken p) = pmm_size p then 0
     else pmm_StartAddress p + of_nat (free_tail (pmm_size p) (page_taken p)) * 4096, p)"
proof -
  let ?t = "free_tail (pmm_size p) (page_taken p)"
  note wf = pmm_wfD [OF assms(1)]
  have find: "Bitmap_FindUnsetBits (pmm_Bitmap p) n = (if ?t = pmm_size p then - 1 else of_nat ?t)"
    using rs.find_eq [OF wf(1) assms(2)] assms(3) by (simp add: search_result_def)
  show ?thesis
  proof (cases "?t = pmm_size p")
    case True
    with find show ?thesis by (simp add: PMM_AllocatePages_def Let_def)
  next
    case False
    have "?t < 2 ^ 31"
      using free_tail_le [of "pmm_size p" "page_taken p"] wf(3) by simp
    then have pos: "\<not> sint (of_nat ?t :: u32) < 0" by (simp add: sint_neg_iff unat_of_nat32)
    with find False have "Bitmap_SetBits (of_nat ?t) n (pmm_Bitmap p) = pmm_Bitmap p"
      using rs.no_run_no_change [OF wf(1) assms(2,3)] by simp
    with find False pos wf(2) assms(2) show ?thesis
      by (auto simp: PMM_AllocatePages_def PMM_PageNumberToAddress_def Let_def)
  qed
qed

lemma page_taken_FreePages:
  assumes "pmm_wf p" and "a \<noteq> 0" and "a = pmm_StartAddress p + of_nat s * 4096"
    and "s + unat n \<le> pmm_size p"
  shows "page_taken (PMM_FreePages a n p) k \<longleftrightarrow> page_taken p k \<and> \<not> (s \<le> k \<and> k < s + unat n)"
proof (cases "unat n = 0")
  case True
  note wf = pmm_wfD [OF assms(1)]
  show ?thesis
  proof -
    have "n = 0" using True by (simp add: unat_eq_0)
    then show ?thesis using assms(2) True
      by (simp add: PMM_FreePages_def Bitmap_ClearBits_def for_range_done)
  qed
next
  case False
  note wf = pmm_wfD [OF assms(1)]
  have s: "s < 1048576" using False assms(4) wf(3) by simp
  have "PMM_AddressToPageNumber p a = of_nat s"
    using assms(3) s wf(2) by (simp add: PMM_AddressToPageNumber_def page_round_trip)
  with assms(2) s rs.bits_clearr [OF wf(1), of "of_nat s" n k] assms(4) show ?thesis
    by (simp add: PMM_FreePages_def unat_of_nat32)
qed

section \<open>Initialisation\<close>

text \<open>The pages a region of the memory map frees: those it covers, if all are inside the bitmap.\<close>

definition region_frees :: "pmm \<Rightarrow> MemoryRegion \<Rightarrow> nat \<Rightarrow> bool" where
  "region_frees p r k \<longleftrightarrow>
     (let s = unat (PMM_AddressToPageNumber p (ucast (BaseAddress r)));
          n = unat (ucast (Length r) div pmm_PageSize p)
      in Type r = Available \<and> Length r > 0 \<and> s + n \<le> pmm_size p \<and> s \<le> k \<and> k < s + n)"

lemma region_frees_cong:
  "pmm_StartAddress q = pmm_StartAddress p \<Longrightarrow> pmm_PageSize q = pmm_PageSize p \<Longrightarrow>
    pmm_size q = pmm_size p \<Longrightarrow> region_frees q r k \<longleftrightarrow> region_frees p r k"
  by (simp add: region_frees_def PMM_AddressToPageNumber_def)

lemma page_taken_SetRegionState:
  assumes "pmm_wf p"
  shows "page_taken (PMM_SetRegionState a sz PageFree p) k \<longleftrightarrow> page_taken p k \<and>
    \<not> (unat (PMM_AddressToPageNumber p a) + unat (sz div pmm_PageSize p) \<le> pmm_size p \<and>
       unat (PMM_AddressToPageNumber p a) \<le> k \<and>
       k < unat (PMM_AddressToPageNumber p a) + unat (sz div pmm_PageSize p))"
  using rs.bits_clearr [OF pmm_wfD(1) [OF assms], of "PMM_AddressToPageNumber p a" "sz div pmm_PageSize p" k]
    rs.clearr_refused [OF pmm_wfD(1) [OF assms], of "PMM_AddressToPageNumber p a" "sz div pmm_PageSize p"]
  by (cases "unat (PMM_AddressToPageNumber p a) + unat (sz div pmm_PageSize p) \<le> pmm_size p")
    (auto simp: PMM_SetRegionState_def)

lemma InitFreeMemory_step_taken:
  "pmm_wf p \<Longrightarrow>
    page_taken (InitFreeMemory_step mm i p) k \<longleftrightarrow> page_taken p k \<and> \<not> region_frees p (Regions mm i) k"
  by (auto simp: InitFreeMemory_step_def region_frees_def page_taken_SetRegionState Let_def)

lemma InitFreeMemory_step_keeps:
  "pmm_wf p \<Longrightarrow> pmm_wf (InitFreeMemory_step mm i p)"
  "pmm_StartAddress (InitFreeMemory_step mm i p) = pmm_StartAddress p"
  "pmm_PageSize (InitFreeMemory_step mm i p) = pmm_PageSize p"
  "pmm_wf p \<Longrightarrow> TSize (pmm_Bitmap (InitFreeMemory_step mm i p)) = TSize (pmm_Bitmap p)"
  by (auto simp: InitFreeMemory_step_def Let_def)

lemma InitFreeMemory_taken:
  assumes "pmm_wf p" and q_def: "q = for_range 0 (RegionCount mm) (InitFreeMemory_step mm) p"
  shows "pmm_wf q \<and> pmm_StartAddress q = pmm_StartAddress p \<and> pmm_size q = pmm_size p \<and>
    (\<forall>k. page_taken q k \<longleftrightarrow> page_taken p k \<and> (\<forall>i < RegionCount mm. \<not> region_frees p (Regions mm i) k))"
proof -
  let ?I = "\<lambda>i q. pmm_wf q \<and> pmm_StartAddress q = pmm_StartAddress p \<and>
    pmm_PageSize q = pmm_PageSize p \<and> pmm_size q = pmm_size p \<and>
    (\<forall>k. page_taken q k \<longleftrightarrow> page_taken p k \<and> (\<forall>j < i. \<not> region_frees p (Regions mm j) k))"
  have "?I (RegionCount mm) q" unfolding q_def
  proof (rule for_range_invariant [of ?I])
    show "?I 0 p" using assms by simp
    show "0 \<le> RegionCount mm" by simp
    fix i r assume "0 \<le> i" and i: "i < RegionCount mm" and I: "?I i r"
    have "region_frees r x k \<longleftrightarrow> region_frees p x k" for x k
      using I by (intro region_frees_cong) auto
    with I show "?I (i + 1) (InitFreeMemory_step mm i r)"
      by (auto simp: InitFreeMemory_step_keeps InitFreeMemory_step_taken less_inc_iff [OF i])
  qed
  then show ?thesis by blast
qed

lemma PMM_Init_unfold:
  "PMM_Init bi p = (True,
     snd (PMM_InitFreeMemory bi (snd (PMM_InitBitmap bi
       (snd (PMM_InitMemory bi (p\<lparr>pmm_PageSize := 4096\<rparr>)))))))"
  by (simp add: PMM_Init_def PMM_InitMemory_def PMM_InitBitmap_def PMM_InitFreeMemory_def Let_def
      split: prod.split)

lemma PMM_InitMemory_frame [frame_simps]:
  "pmm_Bitmap (snd (PMM_InitMemory bi p)) = pmm_Bitmap p"
  "pmm_PageSize (snd (PMM_InitMemory bi p)) = pmm_PageSize p"
  by (simp_all add: PMM_InitMemory_def Let_def split: prod.split)

lemma PMM_Init_taken:
  assumes "bitmap_wf (pmm_Bitmap p)" and "pmm_size p \<le> 2 ^ 20"
    and q_def: "q = snd (PMM_Init bi p)"
  shows "pmm_wf q" and "pmm_size q = pmm_size p"
    and "pmm_StartAddress q = pmm_StartAddress (snd (PMM_InitMemory bi (p\<lparr>pmm_PageSize := 4096\<rparr>)))"
    and "k < pmm_size p \<Longrightarrow> page_taken q k \<longleftrightarrow> k mod 8 = 0 \<and>
      (\<forall>i < RegionCount (SystemMemoryMap bi). \<not> region_frees q (Regions (SystemMemoryMap bi) i) k)"
proof -
  let ?mm = "SystemMemoryMap bi"
  let ?p1 = "snd (PMM_InitBitmap bi (snd (PMM_InitMemory bi (p\<lparr>pmm_PageSize := 4096\<rparr>))))"
  have p1: "pmm_wf ?p1" "pmm_size ?p1 = pmm_size p"
    "pmm_StartAddress ?p1 = pmm_StartAddress (snd (PMM_InitMemory bi (p\<lparr>pmm_PageSize := 4096\<rparr>)))"
    using assms(1,2) by (simp_all add: pmm_wf_def PMM_InitBitmap_def PMM_InitMemory_frame)
  have taken1: "page_taken ?p1 k \<longleftrightarrow> k mod 8 = 0" if "k < pmm_size p"
    using that assms(1) by (simp add: PMM_InitBitmap_def PMM_InitMemory_frame bits_SetAll)
  have q: "q = for_range 0 (RegionCount ?mm) (InitFreeMemory_step ?mm) ?p1"
    by (simp add: q_def PMM_Init_unfold PMM_InitFreeMemory_def Let_def)
  note I = InitFreeMemory_taken [OF p1(1) q]
  show "pmm_wf q" "pmm_size q = pmm_size p"
    "pmm_StartAddress q = pmm_StartAddress (snd (PMM_InitMemory bi (p\<lparr>pmm_PageSize := 4096\<rparr>)))"
    using I p1 by auto
  have "region_frees q r k \<longleftrightarrow> region_frees ?p1 r k" for r
    using I p1 by (intro region_frees_cong) (auto simp: pmm_wfD)
  then show "k < pmm_size p \<Longrightarrow> page_taken q k \<longleftrightarrow> k mod 8 = 0 \<and>
      (\<forall>i < RegionCount ?mm. \<not> region_frees q (Regions ?mm i) k)"
    using I taken1 by auto
qed

text \<open>The bounds \<^verbatim>\<open>InitMemory\<close> finds, before they are truncated to 32 bits.\<close>

definition memory_bounds :: "MemoryMap \<Rightarrow> u64 \<times> u64" where
  "memory_bounds mm = for_range 0 (RegionCount mm) (InitMemory_step mm) (- 1, 0)"

definition bounds_after :: "MemoryMap \<Rightarrow> u32 \<Rightarrow> u64 \<times> u64 \<Rightarrow> bool" where
  "bounds_after mm i b \<longleftrightarrow>
     (\<forall>j < i. fst b \<le> BaseAddress (Regions mm j)) \<and>
     (fst b = - 1 \<or> (\<exists>j < i. fst b = BaseAddress (Regions mm j))) \<and>
     (\<forall>j < i. BaseAddress (Regions mm j) \<le> ucast (MemoryAddressHigh mm) \<longrightarrow>
        BaseAddress (Regions mm j) + Length (Regions mm j) \<le> snd b) \<and>
     (snd b = 0 \<or> (\<exists>j < i. BaseAddress (Regions mm j) \<le> ucast (MemoryAddressHigh mm) \<and>
        snd b = BaseAddress (Regions mm j) + Length (Regions mm j)))"

lemma InitMemory_step_components:
  "fst (InitMemory_step mm i b) =
     (if BaseAddress (Regions mm i) < fst b then BaseAddress (Regions mm i) else fst b)"
  "snd (InitMemory_step mm i b) =
     (if BaseAddress (Regions mm i) \<le> ucast (MemoryAddressHigh mm) \<and>
         BaseAddress (Regions mm i) + Length (Regions mm i) > snd b
      then BaseAddress (Regions mm i) + Length (Regions mm i) else snd b)"
  by (simp_all add: InitMemory_step_def Let_def split: prod.split)

lemma bounds_after_step:
  assumes i: "i < n" and I: "bounds_after mm i b"
  shows "bounds_after mm (i + 1) (InitMemory_step mm i b)"
proof -
  have lt: "j < i + 1 \<longleftrightarrow> j < i \<or> j = i" for j using i by (rule less_inc_iff)
  have ball: "(\<forall>j < i + 1. P j) \<longleftrightarrow> (\<forall>j < i. P j) \<and> P i"
    and bex: "(\<exists>j < i + 1. P j) \<longleftrightarrow> (\<exists>j < i. P j) \<or> P i" for P
    using lt by blast+
  show ?thesis
    using I unfolding bounds_after_def InitMemory_step_components ball bex
    by (cases "BaseAddress (Regions mm i) < fst b";
        cases "BaseAddress (Regions mm i) \<le> ucast (MemoryAddressHigh mm) \<and>
          BaseAddress (Regions mm i) + Length (Regions mm i) > snd b")
      (simp_all, (meson order_trans less_imp_le not_less)+)
qed

lemma memory_bounds_after: "bounds_after mm (RegionCount mm) (memory_bounds mm)"
  unfolding memory_bounds_def
proof (rule for_range_invariant [of "bounds_after mm"])
  show "bounds_after mm 0 (- 1, 0)" by (simp add: bounds_after_def)
qed (auto intro: bounds_after_step)

lemma PMM_InitMemory_bounds:
  "pmm_StartAddress (snd (PMM_InitMemory bi p)) = ucast (fst (memory_bounds (SystemMemoryMap bi)))"
  "pmm_EndAddress (snd (PMM_InitMemory bi p)) = ucast (snd (memory_bounds (SystemMemoryMap bi)))"
  by (simp_all add: PMM_InitMemory_def memory_bounds_def Let_def split: prod.split)

section \<open>The contract of a page allocator\<close>

text \<open>
  What a client of a page allocator relies on: if some run of free pages is long enough (and the
  allocator is otherwise ready), the first such run is handed out and becomes taken, and nothing else
  changes. The result is an option so that the contract also fits the virtual memory allocator.
\<close>

locale page_allocator =
  fixes alloc :: "u32 \<Rightarrow> 's \<Rightarrow> (u32 \<times> 's) option"
    and start :: "'s \<Rightarrow> u32"
    and npages :: "'s \<Rightarrow> nat"
    and taken :: "'s \<Rightarrow> nat \<Rightarrow> bool"
    and inv :: "'s \<Rightarrow> bool"
    and ready :: "u32 \<Rightarrow> 's \<Rightarrow> bool"
  assumes alloc_law: "inv s \<Longrightarrow> 0 < n \<Longrightarrow> ready n s \<Longrightarrow>
      first_run (npages s) (taken s) (unat n) = Some r \<Longrightarrow>
      \<exists>s'. alloc n s = Some (start s + of_nat r * 4096, s') \<and> inv s' \<and> start s' = start s \<and>
        npages s' = npages s \<and> (\<forall>k. taken s' k \<longleftrightarrow> taken s k \<or> r \<le> k \<and> k < r + unat n)"
begin

lemma alloc_run_free:
  assumes "0 < n" and "first_run (npages s) (taken s) (unat n) = Some r"
  shows "r + unat n \<le> npages s" and "r \<le> k \<Longrightarrow> k < r + unat n \<Longrightarrow> \<not> taken s k"
  using assms by (auto simp: first_run_Some_iff run_free_def word_less_nat_alt)

lemma alloc_twice:
  assumes "inv s" and "0 < n" and "0 < m" and "ready n s"
    and "first_run (npages s) (taken s) (unat n) = Some r"
    and "alloc n s = Some (a, s')" and "ready m s'"
    and "first_run (npages s') (taken s') (unat m) = Some t"
  shows "\<exists>s''. alloc m s' = Some (start s + of_nat t * 4096, s'') \<and>
    a = start s + of_nat r * 4096 \<and> {r..<r + unat n} \<inter> {t..<t + unat m} = {}"
proof -
  have first: "a = start s + of_nat r * 4096" "inv s'" "start s' = start s"
      "\<And>k. taken s' k \<longleftrightarrow> taken s k \<or> r \<le> k \<and> k < r + unat n"
    using alloc_law [OF assms(1,2,4,5)] assms(6) by auto
  have "\<not> (r \<le> k \<and> k < r + unat n)" if "t \<le> k" "k < t + unat m" for k
    using alloc_run_free(2) [OF assms(3,8) that] first(4) by blast
  then have "{r..<r + unat n} \<inter> {t..<t + unat m} = {}" by fastforce
  with first alloc_law [OF first(2) assms(3,7,8)] show ?thesis by auto
qed

end

interpretation pa: page_allocator "\<lambda>n p. Some (PMM_AllocatePages n p)" pmm_StartAddress pmm_size
  page_taken pmm_wf "\<lambda>_ _. True"
proof
  fix p :: pmm and n :: u32 and r
  assume a: "pmm_wf p" "0 < n" "pmm_first_run p n = Some r"
  note run = PMM_AllocatePages_run(1,2) [OF a]
  show "\<exists>p'. Some (PMM_AllocatePages n p) = Some (pmm_StartAddress p + of_nat r * 4096, p') \<and>
      pmm_wf p' \<and> pmm_StartAddress p' = pmm_StartAddress p \<and> pmm_size p' = pmm_size p \<and>
      (\<forall>k. page_taken p' k \<longleftrightarrow> page_taken p k \<or> r \<le> k \<and> k < r + unat n)"
    using run pmm_wf_AllocatePages [OF a(1)] a(1)
    by (intro exI [of _ "snd (PMM_AllocatePages n p)"]) (simp add: prod_eq_iff)
qed

section \<open>Properties\<close>

text \<open>
  A small instance for the witnesses: 16 pages from 1 MB on, the first three taken, and a memory map
  of one reserved and one available region.
\<close>

definition pmm_16 :: pmm where
  "pmm_16 = \<lparr>pmm_PageSize = 4096, pmm_MemorySizeBytes = 65536, pmm_PageCount = 16,
     pmm_StartAddress = 0x100000, pmm_EndAddress = 0x110000, pmm_Bitmap = bitmap_16\<rparr>"

definition regions_2 :: "u32 \<Rightarrow> MemoryRegion" where
  "regions_2 i = (if i = 0 then \<lparr>BaseAddress = 0, Length = 0x4000, Type = Reserved\<rparr>
     else \<lparr>BaseAddress = 0x4000, Length = 0x8000, Type = Available\<rparr>)"

definition boot_2 :: BootInfo where
  "boot_2 = \<lparr>Signature = EAGLEOS_BOOT_SIGNATURE, BootloaderPhysicalStartAddress = 0x100000,
     BootloaderPhysicalEndAddress = 0x110000, BootloaderSize = 0x10000,
     KernelPhysicalStartAddress = 0x200000, KernelPhysicalEndAddress = 0x22C000,
     KernelVirtualStartAddress = 0xC0000000, KernelVirtualEndAddress = 0xC002C000,
     KernelSize = 0x2C000,
     SystemMemoryMap = \<lparr>MemoryAddressLow = 0x9FC00, MemoryAddressHigh = 0x7EE0000,
       RegionCount = 2, Regions = regions_2\<rparr>\<rparr>"

lemma pmm_16_wf: "pmm_wf pmm_16"
  by (simp add: pmm_wf_def pmm_16_def bitmap_16_wf) (simp add: bitmap_16_def)

lemma pmm_16_run: "pmm_first_run pmm_16 4 = Some 3"
  by code_simp

text \<open>
  When some run of \<^verbatim>\<open>pageCount\<close> free pages exists, \<^verbatim>\<open>AllocatePages\<close> hands out the first such run:
  the address is that of its first page, every page of it was free, exactly those pages become taken,
  and the invariant of the manager is kept.
\<close>

theorem pmm_allocate_takes_first_free_run:
  assumes "pmm_wf p" and "0 < n" and "pmm_first_run p n = Some s"
    and "PMM_AllocatePages n p = (a, p')"
  shows "a = pmm_StartAddress p + of_nat s * 4096 \<and> s + unat n \<le> pmm_size p \<and>
    (\<forall>k. page_taken p' k \<longleftrightarrow> page_taken p k \<or> s \<le> k \<and> k < s + unat n) \<and>
    (\<forall>k. s \<le> k \<and> k < s + unat n \<longrightarrow> \<not> page_taken p k) \<and> pmm_wf p'"
  using PMM_AllocatePages_run [OF assms(1-3)] pmm_wf_AllocatePages [OF assms(1), of n] assms(4)
  by auto

theorem pmm_allocate_takes_first_free_run_witness:
  "fst (PMM_AllocatePages 4 pmm_16) = 0x103000 \<and> page_taken (snd (PMM_AllocatePages 4 pmm_16)) 6"
  using pmm_allocate_takes_first_free_run [OF pmm_16_wf _ pmm_16_run prod.collapse [symmetric]]
  by (simp add: pmm_16_def)

text \<open>
  Two allocations in a row never share a page, as long as each finds a run of the size asked for.
\<close>

theorem pmm_allocations_disjoint:
  assumes "pmm_wf p" and "0 < n" and "0 < m"
    and "PMM_AllocatePages n p = (a, p')" and "PMM_AllocatePages m p' = (b, p'')"
    and "pmm_first_run p n = Some s" and "pmm_first_run p' m = Some t"
  shows "a = pmm_StartAddress p + of_nat s * 4096 \<and> b = pmm_StartAddress p + of_nat t * 4096 \<and>
    {s..<s + unat n} \<inter> {t..<t + unat m} = {}"
proof -
  have eq: "Some (PMM_AllocatePages n p) = Some (a, p')" using assms(4) by simp
  show ?thesis using pa.alloc_twice [OF assms(1-3) _ assms(6) eq _ assms(7)] assms(5) by simp
qed

theorem pmm_allocations_disjoint_witness:
  "fst (PMM_AllocatePages 2 pmm_16) = 0x103000 \<and>
   fst (PMM_AllocatePages 3 (snd (PMM_AllocatePages 2 pmm_16))) = 0x105000"
proof -
  have "pmm_first_run pmm_16 2 = Some 3" "pmm_first_run (snd (PMM_AllocatePages 2 pmm_16)) 3 = Some 5"
    by code_simp+
  then show ?thesis
    using pmm_allocations_disjoint [OF pmm_16_wf, of 2 3, OF _ _ prod.collapse [symmetric]
        prod.collapse [symmetric], of 3 5]
    by (simp add: pmm_16_def)
qed

text \<open>
  Freeing what was just allocated restores the set of taken pages, unless the run starts at
  physical address 0, which \<^verbatim>\<open>FreePages\<close> takes for a null pointer.
\<close>

theorem pmm_free_after_allocate:
  assumes "pmm_wf p" and "0 < n" and "pmm_first_run p n = Some s"
    and "PMM_AllocatePages n p = (a, p')" and "a \<noteq> 0"
  shows "page_taken (PMM_FreePages a n p') k \<longleftrightarrow> page_taken p k"
proof -
  have p': "pmm_wf p'" "pmm_StartAddress p' = pmm_StartAddress p" "pmm_size p' = pmm_size p"
    using pmm_wf_AllocatePages [OF assms(1), of n] pmm_fields(4) [of n p]
      pmm_size_updates(4) [OF assms(1), of n] assms(4) by auto
  note run = PMM_AllocatePages_run [OF assms(1-3)]
  have "page_taken (PMM_FreePages a n p') k \<longleftrightarrow>
      page_taken p' k \<and> \<not> (s \<le> k \<and> k < s + unat n)"
    using run(1,4) assms(4,5) p' by (intro page_taken_FreePages) auto
  then show ?thesis using run(2) [of k] run(3) [of k] assms(4) by auto
qed

theorem pmm_free_after_allocate_witness:
  "\<not> page_taken (PMM_FreePages 0x103000 4 (snd (PMM_AllocatePages 4 pmm_16))) 5"
proof -
  have a: "PMM_AllocatePages 4 pmm_16 = (0x103000, snd (PMM_AllocatePages 4 pmm_16))"
    by (rule prod_eqI) (code_simp, simp)
  have "\<not> page_taken pmm_16 5" by code_simp
  then show ?thesis using pmm_free_after_allocate [OF pmm_16_wf _ pmm_16_run a] by simp
qed

text \<open>
  When no run of the size asked for exists but the last page is free, \<^verbatim>\<open>AllocatePages\<close> does not
  report failure: it returns the address of the (too short) free stretch at the end of memory and
  marks nothing as taken, so the next caller is given the same pages again.
\<close>

theorem pmm_allocate_without_run_hands_out_unreserved_tail:
  assumes "pmm_wf p" and "0 < n" and "pmm_first_run p n = None"
    and "\<not> page_taken p (pmm_size p - 1)"
  shows "\<exists>s < pmm_size p. pmm_size p < s + unat n \<and>
    PMM_AllocatePages n p = (pmm_StartAddress p + of_nat s * 4096, p)"
proof -
  let ?t = "free_tail (pmm_size p) (page_taken p)"
  have n: "0 < unat n" using assms(2) by (simp add: word_less_nat_alt)
  have pos: "0 < pmm_size p"
    using pmm_wfD(1) [OF assms(1)] by (auto simp: bitmap_wf_def word_less_nat_alt)
  have "?t \<le> pmm_size p - 1"
  proof (rule free_tail_least)
    fix k assume "pmm_size p - 1 \<le> k" and "k < pmm_size p"
    then have "k = pmm_size p - 1" by linarith
    with assms(4) show "\<not> page_taken p k" by simp
  qed simp
  then have "?t < pmm_size p" using pos by simp
  with PMM_AllocatePages_no_run [OF assms(1-3)] free_tail_no_run [OF n assms(3)] show ?thesis
    by (intro exI [of _ ?t]) simp
qed

theorem pmm_allocate_without_run_hands_out_unreserved_tail_witness:
  "\<exists>s < pmm_size pmm_16. PMM_AllocatePages 14 pmm_16 = (0x100000 + of_nat s * 4096, pmm_16)"
proof -
  have "pmm_first_run pmm_16 14 = None" "\<not> page_taken pmm_16 (pmm_size pmm_16 - 1)"
    by code_simp+
  then show ?thesis
    using pmm_allocate_without_run_hands_out_unreserved_tail [OF pmm_16_wf, of 14]
    by (auto simp: pmm_16_def)
qed

text \<open>
  The addresses \<^verbatim>\<open>Init\<close> stores are the bounds of the memory map: the start is the least base
  address of all regions, the end the greatest end of the regions that begin below the upper memory
  limit (both cut to 32 bits), the size and the page count follow from them.
\<close>

theorem pmm_init_memory_bounds:
  assumes "PMM_InitMemory bi p = (ok, q)" and "0 < RegionCount (SystemMemoryMap bi)"
  shows "\<exists>lo hi. ok \<and> bounds_after (SystemMemoryMap bi) (RegionCount (SystemMemoryMap bi)) (lo, hi) \<and>
    pmm_StartAddress q = ucast lo \<and> pmm_EndAddress q = ucast hi \<and>
    pmm_MemorySizeBytes q = ucast hi - ucast lo \<and>
    pmm_PageCount q = (ucast hi - ucast lo) div pmm_PageSize p"
  using memory_bounds_after [of "SystemMemoryMap bi"] assms
  by (intro exI [of _ "fst (memory_bounds (SystemMemoryMap bi))"]
        exI [of _ "snd (memory_bounds (SystemMemoryMap bi))"])
    (auto simp: PMM_InitMemory_def memory_bounds_def Let_def split: prod.splits)

theorem pmm_init_memory_bounds_witness:
  "\<exists>lo hi. pmm_StartAddress (snd (PMM_InitMemory boot_2 pmm_16)) = ucast (lo :: u64) \<and>
     pmm_EndAddress (snd (PMM_InitMemory boot_2 pmm_16)) = ucast (hi :: u64)"
  using pmm_init_memory_bounds [of boot_2 pmm_16, OF prod.collapse [symmetric]]
  by (auto simp: boot_2_def)

text \<open>
  C19: After \<^verbatim>\<open>Init\<close> a page is taken exactly when its number is divisible by eight and no available
  region that fits the bitmap covers it. So the pages of every accepted available region are free,
  and because of \<^verbatim>\<open>SetAll\<close> seven out of eight pages of reserved memory are free too.
\<close>

theorem pmm_init_taken_pages:
  assumes "bitmap_wf (pmm_Bitmap p)" and "pmm_size p \<le> 2 ^ 20" and "PMM_Init bi p = (ok, q)"
  shows "ok \<and> pmm_wf q \<and> (\<forall>k < pmm_size q. page_taken q k \<longleftrightarrow> k mod 8 = 0 \<and>
    \<not> (\<exists>i < RegionCount (SystemMemoryMap bi). region_frees q (Regions (SystemMemoryMap bi) i) k))"
proof -
  have "ok" "q = snd (PMM_Init bi p)" using assms(3) by (simp_all add: PMM_Init_unfold)
  then show ?thesis using PMM_Init_taken [OF assms(1,2), of q bi] by auto
qed

theorem pmm_init_taken_pages_witness:
  "\<not> page_taken (snd (PMM_Init boot_2 pmm_16)) 1"
proof -
  have wf: "bitmap_wf (pmm_Bitmap pmm_16)" "pmm_size pmm_16 \<le> 2 ^ 20"
    using pmm_16_wf by (auto simp: pmm_wf_def)
  have "1 < pmm_size (snd (PMM_Init boot_2 pmm_16))"
    using PMM_Init_taken(2) [OF wf, of "snd (PMM_Init boot_2 pmm_16)" boot_2]
    by (simp add: pmm_16_def bitmap_16_def)
  then show ?thesis using pmm_init_taken_pages [OF wf prod.collapse [symmetric], of boot_2] by auto
qed

end
