(* ===== verification/MemoryUtil.thy ===== *)
theory MemoryUtil
  imports Boot
begin

text \<open>
  \<^verbatim>\<open>Kernel/Memory/MemoryUtil.{h,cpp}\<close>: the two static fields of the class and the conversions
  between addresses of the higher-half kernel image and physical addresses. The record is shared
  by the components that call the class.
\<close>

record memory_util =
  s_KernelVirtualStartAddress :: u32
  s_KernelPhysicalStartAddress :: u32

definition MemoryUtil_Init :: "BootInfo \<Rightarrow> memory_util \<Rightarrow> bool \<times> memory_util" where
  "MemoryUtil_Init bootInfo mu =
     (True, mu\<lparr>s_KernelVirtualStartAddress := KernelVirtualStartAddress bootInfo,
               s_KernelPhysicalStartAddress := KernelPhysicalStartAddress bootInfo\<rparr>)"

definition KernelVirtualToPhysicalAddress :: "memory_util \<Rightarrow> u32 \<Rightarrow> u32" where
  "KernelVirtualToPhysicalAddress mu virtualAddress =
     (virtualAddress - s_KernelVirtualStartAddress mu) + s_KernelPhysicalStartAddress mu"

definition KernelPhysicalToVirtualAddress :: "memory_util \<Rightarrow> u32 \<Rightarrow> u32" where
  "KernelPhysicalToVirtualAddress mu physicalAddress =
     (physicalAddress + s_KernelVirtualStartAddress mu) - s_KernelPhysicalStartAddress mu"

lemma virtual_physical_virtual [simp]:
  "KernelPhysicalToVirtualAddress mu (KernelVirtualToPhysicalAddress mu a) = a"
  by (simp add: KernelPhysicalToVirtualAddress_def KernelVirtualToPhysicalAddress_def)

lemma physical_virtual_physical [simp]:
  "KernelVirtualToPhysicalAddress mu (KernelPhysicalToVirtualAddress mu a) = a"
  by (simp add: KernelPhysicalToVirtualAddress_def KernelVirtualToPhysicalAddress_def)

end
