(* ===== verification/PageEntry.thy ===== *)
theory PageEntry
  imports EstdAlgorithm MemoryUtil
begin

text \<open>
  The entry classes of \<^verbatim>\<open>Kernel/Memory/PageDirectory.{h,cpp}\<close> and \<^verbatim>\<open>Kernel/Memory/PageTable.{h,cpp}\<close>,
  and the index macros of \<^verbatim>\<open>Kernel/Memory/PageInfo.h\<close>. An entry is its one field \<^verbatim>\<open>m_Entry\<close>, a
  32-bit word. Both classes repeat the same accessors, so the locale \<open>page_entry\<close> states what the
  virtual memory manager relies on and is interpreted for both. The dump methods
  are in the theory \<open>Dump\<close>.
\<close>

section \<open>Address arithmetic of PageInfo.h\<close>

definition PAGE_SIZE :: u32 where
  "PAGE_SIZE = 4096"

definition PAGE_DIRECTORY_TABLE_INDEX :: "u32 \<Rightarrow> u32" where
  "PAGE_DIRECTORY_TABLE_INDEX vaddr = vaddr div (1024 * PAGE_SIZE)"

definition PAGE_TABLE_ENTRY_INDEX :: "u32 \<Rightarrow> u32" where
  "PAGE_TABLE_ENTRY_INDEX vaddr = vaddr mod (1024 * PAGE_SIZE) div PAGE_SIZE"

text \<open>Every setter takes a \<^verbatim>\<open>bool value\<close> and ignores it: it sets the flag in either case.\<close>

section \<open>PageDirectoryEntry\<close>

datatype PageDirectoryFlags =
  PDE_Present | PDE_ReadWrite | PDE_User | PDE_WriteThrough | PDE_CacheDisable | PDE_Accessed | PDE_PageSize

fun PDE_flag :: "PageDirectoryFlags \<Rightarrow> u32" where
  "PDE_flag PDE_Present = 0x1"
| "PDE_flag PDE_ReadWrite = 0x2"
| "PDE_flag PDE_User = 0x4"
| "PDE_flag PDE_WriteThrough = 0x8"
| "PDE_flag PDE_CacheDisable = 0x10"
| "PDE_flag PDE_Accessed = 0x20"
| "PDE_flag PDE_PageSize = 0x80"

type_synonym pde = u32

definition PDE_Clear :: "pde \<Rightarrow> pde" where
  "PDE_Clear m_Entry = 0"

definition PDE_IsPresent :: "pde \<Rightarrow> bool" where
  "PDE_IsPresent m_Entry \<longleftrightarrow> BitmaskTestOne m_Entry (PDE_flag PDE_Present)"

definition PDE_SetPresent :: "pde \<Rightarrow> bool \<Rightarrow> pde" where
  "PDE_SetPresent m_Entry v = BitmaskSet m_Entry (PDE_flag PDE_Present)"

definition PDE_IsWritable :: "pde \<Rightarrow> bool" where
  "PDE_IsWritable m_Entry \<longleftrightarrow> BitmaskTestOne m_Entry (PDE_flag PDE_ReadWrite)"

definition PDE_SetWritable :: "pde \<Rightarrow> bool \<Rightarrow> pde" where
  "PDE_SetWritable m_Entry v = BitmaskSet m_Entry (PDE_flag PDE_ReadWrite)"

definition PDE_IsUser :: "pde \<Rightarrow> bool" where
  "PDE_IsUser m_Entry \<longleftrightarrow> BitmaskTestOne m_Entry (PDE_flag PDE_User)"

definition PDE_SetUser :: "pde \<Rightarrow> bool \<Rightarrow> pde" where
  "PDE_SetUser m_Entry v = BitmaskSet m_Entry (PDE_flag PDE_User)"

definition PDE_IsWriteThrough :: "pde \<Rightarrow> bool" where
  "PDE_IsWriteThrough m_Entry \<longleftrightarrow> BitmaskTestOne m_Entry (PDE_flag PDE_WriteThrough)"

definition PDE_SetWriteThrough :: "pde \<Rightarrow> bool \<Rightarrow> pde" where
  "PDE_SetWriteThrough m_Entry v = BitmaskSet m_Entry (PDE_flag PDE_WriteThrough)"

definition PDE_IsCacheDisable :: "pde \<Rightarrow> bool" where
  "PDE_IsCacheDisable m_Entry \<longleftrightarrow> BitmaskTestOne m_Entry (PDE_flag PDE_CacheDisable)"

definition PDE_SetCacheDisable :: "pde \<Rightarrow> bool \<Rightarrow> pde" where
  "PDE_SetCacheDisable m_Entry v = BitmaskSet m_Entry (PDE_flag PDE_CacheDisable)"

definition PDE_IsAccessed :: "pde \<Rightarrow> bool" where
  "PDE_IsAccessed m_Entry \<longleftrightarrow> BitmaskTestOne m_Entry (PDE_flag PDE_Accessed)"

definition PDE_GetPageSize :: "pde \<Rightarrow> u32" where
  "PDE_GetPageSize m_Entry = (if BitmaskTestOne m_Entry (PDE_flag PDE_PageSize) then 4194304 else 4096)"

definition PDE_GetAddress :: "pde \<Rightarrow> u32" where
  "PDE_GetAddress m_Entry = m_Entry AND NOT 0xFFF"

definition PDE_SetAddress :: "pde \<Rightarrow> u32 \<Rightarrow> pde" where
  "PDE_SetAddress m_Entry address = (m_Entry AND NOT 0x7FFFF000) OR address"

section \<open>PageTableEntry\<close>

datatype PageTableFlags =
  PTE_Present | PTE_ReadWrite | PTE_User | PTE_WriteThrough | PTE_CacheDisable | PTE_Accessed | PTE_Dirty | PTE_PAT | PTE_Global

fun PTE_flag :: "PageTableFlags \<Rightarrow> u32" where
  "PTE_flag PTE_Present = 0x1"
| "PTE_flag PTE_ReadWrite = 0x2"
| "PTE_flag PTE_User = 0x4"
| "PTE_flag PTE_WriteThrough = 0x8"
| "PTE_flag PTE_CacheDisable = 0x10"
| "PTE_flag PTE_Accessed = 0x20"
| "PTE_flag PTE_Dirty = 0x40"
| "PTE_flag PTE_PAT = 0x80"
| "PTE_flag PTE_Global = 0x100"

type_synonym pte = u32

definition PTE_Clear :: "pte \<Rightarrow> pte" where
  "PTE_Clear m_Entry = 0"

definition PTE_IsPresent :: "pte \<Rightarrow> bool" where
  "PTE_IsPresent m_Entry \<longleftrightarrow> BitmaskTestOne m_Entry (PTE_flag PTE_Present)"

definition PTE_SetPresent :: "pte \<Rightarrow> bool \<Rightarrow> pte" where
  "PTE_SetPresent m_Entry v = BitmaskSet m_Entry (PTE_flag PTE_Present)"

definition PTE_IsWritable :: "pte \<Rightarrow> bool" where
  "PTE_IsWritable m_Entry \<longleftrightarrow> BitmaskTestOne m_Entry (PTE_flag PTE_ReadWrite)"

definition PTE_SetWritable :: "pte \<Rightarrow> bool \<Rightarrow> pte" where
  "PTE_SetWritable m_Entry v = BitmaskSet m_Entry (PTE_flag PTE_ReadWrite)"

definition PTE_IsUser :: "pte \<Rightarrow> bool" where
  "PTE_IsUser m_Entry \<longleftrightarrow> BitmaskTestOne m_Entry (PTE_flag PTE_User)"

definition PTE_SetUser :: "pte \<Rightarrow> bool \<Rightarrow> pte" where
  "PTE_SetUser m_Entry v = BitmaskSet m_Entry (PTE_flag PTE_User)"

definition PTE_IsWriteThrough :: "pte \<Rightarrow> bool" where
  "PTE_IsWriteThrough m_Entry \<longleftrightarrow> BitmaskTestOne m_Entry (PTE_flag PTE_WriteThrough)"

definition PTE_SetWriteThrough :: "pte \<Rightarrow> bool \<Rightarrow> pte" where
  "PTE_SetWriteThrough m_Entry v = BitmaskSet m_Entry (PTE_flag PTE_WriteThrough)"

definition PTE_IsCacheDisable :: "pte \<Rightarrow> bool" where
  "PTE_IsCacheDisable m_Entry \<longleftrightarrow> BitmaskTestOne m_Entry (PTE_flag PTE_CacheDisable)"

definition PTE_SetCacheDisable :: "pte \<Rightarrow> bool \<Rightarrow> pte" where
  "PTE_SetCacheDisable m_Entry v = BitmaskSet m_Entry (PTE_flag PTE_CacheDisable)"

definition PTE_IsAccessed :: "pte \<Rightarrow> bool" where
  "PTE_IsAccessed m_Entry \<longleftrightarrow> BitmaskTestOne m_Entry (PTE_flag PTE_Accessed)"

definition PTE_IsDirty :: "pte \<Rightarrow> bool" where
  "PTE_IsDirty m_Entry \<longleftrightarrow> BitmaskTestOne m_Entry (PTE_flag PTE_Dirty)"

definition PTE_IsGlobal :: "pte \<Rightarrow> bool" where
  "PTE_IsGlobal m_Entry \<longleftrightarrow> BitmaskTestOne m_Entry (PTE_flag PTE_Global)"

definition PTE_SetGlobal :: "pte \<Rightarrow> bool \<Rightarrow> pte" where
  "PTE_SetGlobal m_Entry v = BitmaskSet m_Entry (PTE_flag PTE_Global)"

definition PTE_GetAddress :: "pte \<Rightarrow> u32" where
  "PTE_GetAddress m_Entry = m_Entry AND NOT 0xFFF"

definition PTE_SetAddress :: "pte \<Rightarrow> u32 \<Rightarrow> pte" where
  "PTE_SetAddress m_Entry address = (m_Entry AND NOT 0x7FFFF000) OR address"

section \<open>The directory and the table\<close>

text \<open>
  \<^verbatim>\<open>GetEntry\<close> returns a pointer into the array; the model reads the entry, and writes through the
  pointer are \<open>SetEntry\<close> at the same index. \<^verbatim>\<open>GetTable\<close> returns the virtual address of a table.
\<close>

definition PageDirectory_GetEntry :: "pde list \<Rightarrow> u32 \<Rightarrow> pde" where
  "PageDirectory_GetEntry m_Entries virtualAddress =
     m_Entries ! unat (PAGE_DIRECTORY_TABLE_INDEX virtualAddress)"

definition PageDirectory_SetEntry :: "pde list \<Rightarrow> u32 \<Rightarrow> pde \<Rightarrow> pde list" where
  "PageDirectory_SetEntry m_Entries index entry = m_Entries[unat index := entry]"

definition PageDirectory_GetTable :: "memory_util \<Rightarrow> pde list \<Rightarrow> u32 \<Rightarrow> u32" where
  "PageDirectory_GetTable mu m_Entries virtualAddress =
     KernelPhysicalToVirtualAddress mu (PDE_GetAddress (PageDirectory_GetEntry m_Entries virtualAddress))"

definition PageTable_GetEntry :: "pte list \<Rightarrow> u32 \<Rightarrow> pte" where
  "PageTable_GetEntry m_Entries virtualAddress =
     m_Entries ! unat (PAGE_TABLE_ENTRY_INDEX virtualAddress)"

definition PageTable_SetEntry :: "pte list \<Rightarrow> u32 \<Rightarrow> pte \<Rightarrow> pte list" where
  "PageTable_SetEntry m_Entries index entry = m_Entries[unat index := entry]"

section \<open>Index arithmetic\<close>

text \<open>The page number of an address: its upper 20 bits, directory index and table index together.\<close>

definition page_of :: "u32 \<Rightarrow> nat" where
  "page_of va = unat va div 4096"

lemma div_4194304: "(n :: nat) div 4194304 = n div 4096 div 1024"
  by (simp flip: div_mult2_eq)

lemma mod_4194304: "(n :: nat) mod 4194304 div 4096 = n div 4096 mod 1024"
  using mod_mult2_eq [of n 4096 1024] by simp

lemma directory_index: "unat (PAGE_DIRECTORY_TABLE_INDEX va) = page_of va div 1024"
  by (simp add: PAGE_DIRECTORY_TABLE_INDEX_def PAGE_SIZE_def page_of_def unat_div_distrib
      div_4194304)

lemma table_index: "unat (PAGE_TABLE_ENTRY_INDEX va) = page_of va mod 1024"
  by (simp add: PAGE_TABLE_ENTRY_INDEX_def PAGE_SIZE_def page_of_def unat_div_distrib
      unat_mod_distrib mod_4194304)

lemma page_of_less [simp]: "page_of va < 1048576"
  using unat_lt_2p32 [of va] by (simp add: page_of_def less_mult_imp_div_less)

lemma directory_index_less [simp]: "page_of va div 1024 < 1024"
  using page_of_less [of va] by linarith

section \<open>The contract of an entry\<close>

locale page_entry =
  fixes present :: "u32 \<Rightarrow> bool"
    and set_present :: "u32 \<Rightarrow> bool \<Rightarrow> u32"
    and writable :: "u32 \<Rightarrow> bool"
    and set_writable :: "u32 \<Rightarrow> bool \<Rightarrow> u32"
    and address :: "u32 \<Rightarrow> u32"
    and set_address :: "u32 \<Rightarrow> u32 \<Rightarrow> u32"
  assumes present_set: "present (set_present e v)"
    and writable_set_present: "writable (set_present e v) \<longleftrightarrow> writable e"
    and address_set_present: "address (set_present e v) = address e"
    and writable_set: "writable (set_writable e v)"
    and present_set_writable: "present (set_writable e v) \<longleftrightarrow> present e"
    and address_set_writable: "address (set_writable e v) = address e"
    and address_set: "address e = 0 \<Longrightarrow> unat a mod 4096 = 0 \<Longrightarrow> address (set_address e a) = a"
    and present_set_address: "unat a mod 4096 = 0 \<Longrightarrow> present (set_address e a) \<longleftrightarrow> present e"
    and writable_set_address: "unat a mod 4096 = 0 \<Longrightarrow> writable (set_address e a) \<longleftrightarrow> writable e"
    and null_entry: "\<not> present 0" "\<not> writable 0" "address 0 = 0"
begin

text \<open>An empty entry made to point at a page, in the two orders \<^verbatim>\<open>Map\<close> uses.\<close>

lemma fill_entry:
  assumes "unat a mod 4096 = 0"
  shows "present (set_present (set_address (set_writable 0 w) a) v)"
    and "writable (set_present (set_address (set_writable 0 w) a) v)"
    and "address (set_present (set_address (set_writable 0 w) a) v) = a"
    and "present (set_present (set_writable (set_address 0 a) w) v)"
    and "writable (set_present (set_writable (set_address 0 a) w) v)"
    and "address (set_present (set_writable (set_address 0 a) w) v) = a"
  using assms
  by (simp_all add: present_set writable_set_present address_set_present writable_set
      address_set_writable address_set writable_set_address null_entry)

end

section \<open>Both entry classes satisfy the contract\<close>

lemma low_mask: "(0xFFF :: u32) = mask 12" and address_mask: "(0x7FFFF000 :: u32) = push_bit 12 (mask 19)"
  by (simp_all add: mask_eq_exp_minus_1 push_bit_eq_mult)

lemma test_bit0: "BitmaskTestOne x 1 \<longleftrightarrow> bit x 0"
  by (simp add: BitmaskTestOne_def and_one_eq bit_0 odd_iff_mod_2_eq_one)

lemma test_bit1: "BitmaskTestOne x 2 \<longleftrightarrow> bit x 1"
  using and_exp_eq_0_iff_not_bit [of x 1] by (simp add: BitmaskTestOne_def)

lemma bit_two: "bit (2 :: u32) n \<longleftrightarrow> n = 1"
  using bit_exp_iff [of 1 n, where ?'a = u32] by (auto simp: possible_bit_def)

lemma aligned_low_bits:
  assumes "unat (a :: u32) mod 4096 = 0"
  shows "bit a n \<Longrightarrow> 12 \<le> n"
proof (rule ccontr)
  assume b: "bit a n" and n: "\<not> 12 \<le> n"
  have "unat (take_bit 12 a) = 0" using assms unfolding unsigned_take_bit_eq by (simp add: take_bit_eq_mod)
  then have "take_bit 12 a = 0" by (simp add: unat_eq_0)
  moreover have "bit (take_bit 12 a) n" using b n by (simp add: bit_take_bit_iff)
  ultimately show False by simp
qed

lemmas entry_defs = PDE_IsPresent_def PDE_SetPresent_def PDE_IsWritable_def PDE_SetWritable_def
  PDE_GetAddress_def PDE_SetAddress_def PTE_IsPresent_def PTE_SetPresent_def PTE_IsWritable_def
  PTE_SetWritable_def PTE_GetAddress_def PTE_SetAddress_def BitmaskSet_def

lemma entry_address_bits:
  "bit (e AND NOT 0xFFF :: u32) n \<longleftrightarrow> bit e n \<and> 12 \<le> n"
  "bit ((e AND NOT 0x7FFFF000) OR a :: u32) n \<longleftrightarrow> bit e n \<and> (n < 12 \<or> n = 31) \<or> bit a n"
  by (auto simp: low_mask address_mask bit_simps dest: bit_imp_le_length)

lemma set_address_address:
  assumes "e AND NOT 0xFFF = (0 :: u32)" and "unat a mod 4096 = 0"
  shows "((e AND NOT 0x7FFFF000) OR a) AND NOT 0xFFF = a"
proof (rule bit_word_eqI)
  fix n
  have "\<not> (bit e n \<and> 12 \<le> n)" using assms(1) entry_address_bits(1) [of e n] by simp
  then show "bit (((e AND NOT 0x7FFFF000) OR a) AND NOT 0xFFF) n \<longleftrightarrow> bit a n"
    using aligned_low_bits [OF assms(2), of n] unfolding entry_address_bits by auto
qed

lemma flag_address:
  "(e OR 1) AND NOT 0xFFF = (e :: u32) AND NOT 0xFFF" "(e OR 2) AND NOT 0xFFF = (e :: u32) AND NOT 0xFFF"
  by (rule bit_word_eqI; simp only: entry_address_bits bit_or_iff bit_1_iff bit_two; fastforce)+

lemma aligned_not_low:
  "unat (a :: u32) mod 4096 = 0 \<Longrightarrow> \<not> bit a 0" "unat (a :: u32) mod 4096 = 0 \<Longrightarrow> \<not> bit a 1"
  using aligned_low_bits [of a 0] aligned_low_bits [of a 1] by auto

lemma flag_bits:
  "bit (e OR 1 :: u32) 0" "bit (e OR 1 :: u32) 1 \<longleftrightarrow> bit e 1"
  "bit (e OR 2 :: u32) 1" "bit (e OR 2 :: u32) 0 \<longleftrightarrow> bit e 0"
  by (simp_all add: bit_or_iff bit_1_iff bit_two)

lemma set_address_flags:
  "unat a mod 4096 = 0 \<Longrightarrow> bit ((e AND NOT 0x7FFFF000) OR a :: u32) 0 \<longleftrightarrow> bit e 0"
  "unat a mod 4096 = 0 \<Longrightarrow> bit ((e AND NOT 0x7FFFF000) OR a :: u32) 1 \<longleftrightarrow> bit e 1"
  unfolding entry_address_bits using aligned_not_low [of a] by auto

lemma null_entry_reads: "\<not> bit (0 :: u32) n" "0 AND NOT 0xFFF = (0 :: u32)"
  by simp_all

lemmas entry_rules = flag_bits flag_address set_address_address set_address_flags null_entry_reads

interpretation pde: page_entry PDE_IsPresent PDE_SetPresent PDE_IsWritable PDE_SetWritable
  PDE_GetAddress PDE_SetAddress
  by unfold_locales
    (unfold entry_defs PDE_flag.simps PTE_flag.simps test_bit0 test_bit1, (rule entry_rules; assumption)+)

interpretation pte: page_entry PTE_IsPresent PTE_SetPresent PTE_IsWritable PTE_SetWritable
  PTE_GetAddress PTE_SetAddress
  by unfold_locales
    (unfold entry_defs PDE_flag.simps PTE_flag.simps test_bit0 test_bit1, (rule entry_rules; assumption)+)

end
