(* ===== verification/VirtMem.thy ===== *)
theory VirtMem
  imports PageEntry
begin

text \<open>
  \<^verbatim>\<open>Kernel/Memory/VirtualMemoryManager.{h,cpp}\<close> with \<^verbatim>\<open>VirtualMemoryManager.asm\<close>: one page directory
  and the 257 page tables embedded in the object, mapped and unmapped page by page. The record
  carries the address of the object, from which the addresses of its members follow (each is
  aligned to 4096 bytes, so the members lie at offsets 4096, 8192 and 12288). What reaches the
  processor (\<^verbatim>\<open>invlpg\<close>, the loads of \<^verbatim>\<open>CR3\<close> and \<^verbatim>\<open>CR0\<close>) is a trace, oldest event first.
  A result \<open>None\<close> is the access through a pointer that is none of the object's page tables.
\<close>

section \<open>State\<close>

datatype cpu_event = InvlPg u32 | LoadPageDirectory u32 | SetPaging bool

record vmm =
  vmm_this :: u32
  vmm_VirtualStartAddress :: u32
  vmm_PageDirectory :: "pde list"
  vmm_PageTable0 :: "pte list"
  vmm_PageTables768 :: "pte list list"
  cpu_trace :: "cpu_event list"

datatype table_ref = Table0 | Table768 nat

definition addr_PageDirectory :: "vmm \<Rightarrow> u32" where
  "addr_PageDirectory s = vmm_this s + 4096"

definition addr_PageTable0 :: "vmm \<Rightarrow> u32" where
  "addr_PageTable0 s = vmm_this s + 8192"

definition addr_PageTables768 :: "vmm \<Rightarrow> u32 \<Rightarrow> u32" where
  "addr_PageTables768 s i = vmm_this s + 12288 + i * 4096"

definition table_at :: "vmm \<Rightarrow> u32 \<Rightarrow> table_ref option" where
  "table_at s ptr =
     (if ptr = addr_PageTable0 s then Some Table0
      else let off = ptr - addr_PageTables768 s 0
           in if off < 0x100000 \<and> off mod 4096 = 0 then Some (Table768 (unat (off div 4096)))
              else None)"

fun table_get :: "vmm \<Rightarrow> table_ref \<Rightarrow> pte list" where
  "table_get s Table0 = vmm_PageTable0 s"
| "table_get s (Table768 i) = vmm_PageTables768 s ! i"

fun table_put :: "vmm \<Rightarrow> table_ref \<Rightarrow> pte list \<Rightarrow> vmm" where
  "table_put s Table0 t = s\<lparr>vmm_PageTable0 := t\<rparr>"
| "table_put s (Table768 i) t = s\<lparr>vmm_PageTables768 := (vmm_PageTables768 s)[i := t]\<rparr>"

section \<open>Operations\<close>

definition VMM_Init :: "BootInfo \<Rightarrow> vmm \<Rightarrow> bool \<times> vmm" where
  "VMM_Init bootInfo s =
     (True, s\<lparr>vmm_VirtualStartAddress := KernelVirtualStartAddress bootInfo,
              vmm_PageDirectory := replicate 1024 0,
              vmm_PageTable0 := replicate 1024 0,
              vmm_PageTables768 := replicate 256 (replicate 1024 0)\<rparr>)"

definition no_page_table :: "u32 \<Rightarrow> bool" where
  "no_page_table pageDirectoryIndex \<longleftrightarrow>
     pageDirectoryIndex \<noteq> 0 \<and> (pageDirectoryIndex < 768 \<or> pageDirectoryIndex > 1023)"

text \<open>
  The middle part of \<^verbatim>\<open>Map\<close>: the directory entry of the address, made present if it is not.
  \<open>None\<close> is the \<^verbatim>\<open>return false\<close> of the branch for an invalid index.
\<close>

definition Map_directory_entry :: "memory_util \<Rightarrow> u32 \<Rightarrow> bool \<Rightarrow> vmm \<Rightarrow> vmm option" where
  "Map_directory_entry mu virtualAddress writable s =
     (let pageDirectoryIndex = PAGE_DIRECTORY_TABLE_INDEX virtualAddress;
          directoryEntry = PageDirectory_GetEntry (vmm_PageDirectory s) virtualAddress
      in if PDE_IsPresent directoryEntry then Some s
         else map_option
           (\<lambda>e. s\<lparr>vmm_PageDirectory := PageDirectory_SetEntry (vmm_PageDirectory s) pageDirectoryIndex
                    (PDE_SetPresent (PDE_SetWritable e writable) True)\<rparr>)
           (if pageDirectoryIndex = 0
            then Some (PDE_SetAddress directoryEntry
                   (KernelVirtualToPhysicalAddress mu (addr_PageTable0 s)))
            else if pageDirectoryIndex \<ge> 768 \<and> pageDirectoryIndex \<le> 1023
            then let tablesIndex = (virtualAddress - vmm_VirtualStartAddress s) div 0x400000
                 in Some (PDE_SetAddress directoryEntry
                      (KernelVirtualToPhysicalAddress mu (addr_PageTables768 s tablesIndex)))
            else None))"

definition VMM_Map :: "memory_util \<Rightarrow> u32 \<Rightarrow> u32 \<Rightarrow> bool \<Rightarrow> vmm \<Rightarrow> (bool \<times> vmm) option" where
  "VMM_Map mu virtualAddress physicalAddress writable s =
     (if \<not> IsAligned physicalAddress PAGE_SIZE \<or> \<not> IsAligned virtualAddress PAGE_SIZE
      then Some (False, s)
      else if no_page_table (PAGE_DIRECTORY_TABLE_INDEX virtualAddress) then Some (False, s)
      else case Map_directory_entry mu virtualAddress writable s of
        None \<Rightarrow> Some (False, s)
      | Some s1 \<Rightarrow>
          (let table = PageDirectory_GetTable mu (vmm_PageDirectory s1) virtualAddress
           in if table = 0 then Some (False, s1)
              else case table_at s1 table of
                None \<Rightarrow> None
              | Some r \<Rightarrow>
                  (let tableEntry = PageTable_GetEntry (table_get s1 r) virtualAddress
                   in if PTE_IsPresent tableEntry then Some (False, s1)
                      else Some (True, table_put s1 r
                        (PageTable_SetEntry (table_get s1 r) (PAGE_TABLE_ENTRY_INDEX virtualAddress)
                          (PTE_SetPresent (PTE_SetAddress (PTE_SetWritable tableEntry writable)
                            physicalAddress) True))))))"

text \<open>The loop of \<^verbatim>\<open>MapRange\<close>; the number is what is left of \<^verbatim>\<open>count\<close>.\<close>

primrec MapRange_loop ::
  "memory_util \<Rightarrow> nat \<Rightarrow> u32 \<Rightarrow> u32 \<Rightarrow> bool \<Rightarrow> vmm \<Rightarrow> (bool \<times> vmm) option" where
  "MapRange_loop mu 0 virtualAddress physicalAddress writable s = Some (True, s)"
| "MapRange_loop mu (Suc n) virtualAddress physicalAddress writable s =
     (case VMM_Map mu virtualAddress physicalAddress writable s of
        None \<Rightarrow> None
      | Some (ok, s') \<Rightarrow>
          (if \<not> ok then Some (False, s')
           else MapRange_loop mu n (virtualAddress + PAGE_SIZE) (physicalAddress + PAGE_SIZE) writable s'))"

definition VMM_MapRange ::
  "memory_util \<Rightarrow> u32 \<Rightarrow> u32 \<Rightarrow> bool \<Rightarrow> u32 \<Rightarrow> vmm \<Rightarrow> (bool \<times> vmm) option" where
  "VMM_MapRange mu virtualAddress physicalAddress writable count s =
     MapRange_loop mu (unat count) virtualAddress physicalAddress writable s"

definition VMM_Unmap :: "memory_util \<Rightarrow> u32 \<Rightarrow> vmm \<Rightarrow> (bool \<times> vmm) option" where
  "VMM_Unmap mu virtualAddress s =
     (if \<not> IsAligned virtualAddress PAGE_SIZE then Some (False, s)
      else if no_page_table (PAGE_DIRECTORY_TABLE_INDEX virtualAddress) then Some (False, s)
      else if \<not> PDE_IsPresent (PageDirectory_GetEntry (vmm_PageDirectory s) virtualAddress)
      then Some (False, s)
      else let table = PageDirectory_GetTable mu (vmm_PageDirectory s) virtualAddress
           in if table = 0 then Some (False, s)
              else case table_at s table of
                None \<Rightarrow> None
              | Some r \<Rightarrow>
                  (let tableEntry = PageTable_GetEntry (table_get s r) virtualAddress
                   in if \<not> PTE_IsPresent tableEntry then Some (False, s)
                      else Some (True, table_put s r
                        (PageTable_SetEntry (table_get s r) (PAGE_TABLE_ENTRY_INDEX virtualAddress)
                          (PTE_Clear tableEntry)))))"

definition VMM_FlushTLB :: "u32 \<Rightarrow> vmm \<Rightarrow> vmm" where
  "VMM_FlushTLB virtualAddress s = s\<lparr>cpu_trace := cpu_trace s @ [InvlPg virtualAddress]\<rparr>"

primrec UnmapRange_loop :: "memory_util \<Rightarrow> nat \<Rightarrow> u32 \<Rightarrow> vmm \<Rightarrow> (bool \<times> vmm) option" where
  "UnmapRange_loop mu 0 virtualAddress s = Some (True, s)"
| "UnmapRange_loop mu (Suc n) virtualAddress s =
     (case VMM_Unmap mu virtualAddress s of
        None \<Rightarrow> None
      | Some (ok, s') \<Rightarrow>
          (if \<not> ok then Some (False, s')
           else UnmapRange_loop mu n (virtualAddress + PAGE_SIZE) (VMM_FlushTLB virtualAddress s')))"

definition VMM_UnmapRange :: "memory_util \<Rightarrow> u32 \<Rightarrow> u32 \<Rightarrow> vmm \<Rightarrow> (bool \<times> vmm) option" where
  "VMM_UnmapRange mu virtualAddress count s = UnmapRange_loop mu (unat count) virtualAddress s"

definition VMM_FlushTLBRange :: "u32 \<Rightarrow> u32 \<Rightarrow> vmm \<Rightarrow> vmm" where
  "VMM_FlushTLBRange virtualAddress count s =
     for_range 0 count (\<lambda>i. VMM_FlushTLB (virtualAddress + i * PAGE_SIZE)) s"

definition VMM_EnablePaging :: "vmm \<Rightarrow> vmm" where
  "VMM_EnablePaging s = s\<lparr>cpu_trace := cpu_trace s @ [SetPaging True]\<rparr>"

definition VMM_DisablePaging :: "vmm \<Rightarrow> vmm" where
  "VMM_DisablePaging s = s\<lparr>cpu_trace := cpu_trace s @ [SetPaging False]\<rparr>"

definition VMM_ReloadPageDirectory :: "memory_util \<Rightarrow> vmm \<Rightarrow> vmm" where
  "VMM_ReloadPageDirectory mu s = s\<lparr>cpu_trace := cpu_trace s @
     [LoadPageDirectory (KernelVirtualToPhysicalAddress mu (addr_PageDirectory s))]\<rparr>"

definition VMM_GetPhysicalAddress :: "memory_util \<Rightarrow> u32 \<Rightarrow> vmm \<Rightarrow> u32 option" where
  "VMM_GetPhysicalAddress mu virtualAddress s =
     (if \<not> IsAligned virtualAddress PAGE_SIZE then Some 0
      else if no_page_table (PAGE_DIRECTORY_TABLE_INDEX virtualAddress) then Some 0
      else if \<not> PDE_IsPresent (PageDirectory_GetEntry (vmm_PageDirectory s) virtualAddress) then Some 0
      else let table = PageDirectory_GetTable mu (vmm_PageDirectory s) virtualAddress
           in if table = 0 then Some 0
              else case table_at s table of
                None \<Rightarrow> None
              | Some r \<Rightarrow>
                  (let tableEntry = PageTable_GetEntry (table_get s r) virtualAddress
                   in if \<not> PTE_IsPresent tableEntry then Some 0 else Some (PTE_GetAddress tableEntry)))"

section \<open>The mapping a page directory stands for\<close>

text \<open>
  The walk the processor makes for a page number, over the same memory (physical addresses of the
  tables are read back through the kernel's linear mapping). This is the abstract view of the state:
  a partial map from page numbers to page frames.
\<close>

definition vmm_mapping :: "memory_util \<Rightarrow> vmm \<Rightarrow> nat \<Rightarrow> u32 option" where
  "vmm_mapping mu s p =
     (if p \<ge> 1048576 \<or> \<not> PDE_IsPresent (vmm_PageDirectory s ! (p div 1024)) then None
      else case table_at s (KernelPhysicalToVirtualAddress mu
                (PDE_GetAddress (vmm_PageDirectory s ! (p div 1024)))) of
             None \<Rightarrow> None
           | Some r \<Rightarrow>
               (let e = table_get s r ! (p mod 1024)
                in if PTE_IsPresent e then Some (PTE_GetAddress e) else None))"

text \<open>The page numbers the object has tables for: the first 4 MB and the upper gigabyte.\<close>

definition has_table :: "nat \<Rightarrow> bool" where
  "has_table p \<longleftrightarrow> p < 1048576 \<and> (p div 1024 = 0 \<or> 768 \<le> p div 1024)"

definition table_of :: "nat \<Rightarrow> table_ref" where
  "table_of d = (if d = 0 then Table0 else Table768 (d - 768))"

definition table_address :: "vmm \<Rightarrow> nat \<Rightarrow> u32" where
  "table_address s d = (if d = 0 then addr_PageTable0 s else addr_PageTables768 s (of_nat (d - 768)))"

definition pte_at :: "vmm \<Rightarrow> nat \<Rightarrow> pte" where
  "pte_at s p = table_get s (table_of (p div 1024)) ! (p mod 1024)"

section \<open>The invariant\<close>

definition vmm_shape :: "vmm \<Rightarrow> bool" where
  "vmm_shape s \<longleftrightarrow> length (vmm_PageDirectory s) = 1024 \<and> length (vmm_PageTable0 s) = 1024 \<and>
     length (vmm_PageTables768 s) = 256 \<and> (\<forall>i < 256. length (vmm_PageTables768 s ! i) = 1024)"

definition vmm_place :: "memory_util \<Rightarrow> vmm \<Rightarrow> bool" where
  "vmm_place mu s \<longleftrightarrow> unat (vmm_this s) mod 4096 = 0 \<and> unat (vmm_this s) + 1060864 \<le> 4294967296 \<and>
     unat (s_KernelVirtualStartAddress mu) mod 4096 = 0 \<and>
     unat (s_KernelPhysicalStartAddress mu) mod 4096 = 0 \<and>
     vmm_VirtualStartAddress s = 0xC0000000"

definition directory_ok :: "memory_util \<Rightarrow> vmm \<Rightarrow> nat \<Rightarrow> bool" where
  "directory_ok mu s d \<longleftrightarrow> vmm_PageDirectory s ! d = 0 \<or>
     (d = 0 \<or> 768 \<le> d) \<and> PDE_IsPresent (vmm_PageDirectory s ! d) \<and>
     PDE_GetAddress (vmm_PageDirectory s ! d) = KernelVirtualToPhysicalAddress mu (table_address s d)"

definition entry_ok :: "vmm \<Rightarrow> nat \<Rightarrow> bool" where
  "entry_ok s p \<longleftrightarrow> pte_at s p = 0 \<or>
     PTE_IsPresent (pte_at s p) \<and> vmm_PageDirectory s ! (p div 1024) \<noteq> 0"

definition vmm_wf :: "memory_util \<Rightarrow> vmm \<Rightarrow> bool" where
  "vmm_wf mu s \<longleftrightarrow> vmm_shape s \<and> vmm_place mu s \<and> (\<forall>d < 1024. directory_ok mu s d) \<and>
     (\<forall>p. has_table p \<longrightarrow> entry_ok s p)"

lemma vmm_wfD:
  assumes "vmm_wf mu s"
  shows "vmm_shape s" and "vmm_place mu s" and "d < 1024 \<Longrightarrow> directory_ok mu s d"
    and "has_table p \<Longrightarrow> entry_ok s p"
  using assms by (auto simp: vmm_wf_def)

section \<open>Addresses of the tables\<close>

lemma no_page_table_iff: "\<not> no_page_table (PAGE_DIRECTORY_TABLE_INDEX va) \<longleftrightarrow> has_table (page_of va)"
proof -
  have "PAGE_DIRECTORY_TABLE_INDEX va = 0 \<longleftrightarrow> page_of va div 1024 = 0"
    using directory_index [of va] by (metis unat_eq_0)
  then show ?thesis
    using directory_index_less [of va] less_Suc_eq_le [of "page_of va div 1024" 1023]
    by (auto simp: no_page_table_def has_table_def word_less_nat_alt directory_index not_less)
qed

lemma tables768_unat:
  assumes "vmm_place mu s" and "i < 256"
  shows "unat (addr_PageTables768 s (of_nat i)) = unat (vmm_this s) + 12288 + i * 4096"
proof -
  have "unat (of_nat i * 4096 :: u32) = i * 4096" using assms(2) by (simp add: unat_mult_wrap unat_of_nat32)
  moreover have "unat (vmm_this s) + 12288 + i * 4096 < 4294967296"
    using assms by (simp add: vmm_place_def)
  ultimately show ?thesis
    by (simp add: addr_PageTables768_def unat_add_wrap mod_add_left_eq)
qed

lemma table0_unat:
  "vmm_place mu s \<Longrightarrow> unat (addr_PageTable0 s) = unat (vmm_this s) + 8192"
  by (simp add: addr_PageTable0_def vmm_place_def unat_add_wrap)

lemma table_address_unat:
  assumes "vmm_place mu s" and "d < 1024" and "d = 0 \<or> 768 \<le> d"
  shows "unat (table_address s d) =
    unat (vmm_this s) + (if d = 0 then 8192 else 12288 + (d - 768) * 4096)"
  using assms tables768_unat [OF assms(1), of "d - 768"] table0_unat [OF assms(1)]
  by (simp add: table_address_def)

lemma table_address_facts:
  assumes "vmm_place mu s" and "d < 1024" and "d = 0 \<or> 768 \<le> d"
  shows "table_address s d \<noteq> 0" and "unat (table_address s d) mod 4096 = 0"
proof -
  show "table_address s d \<noteq> 0"
    using table_address_unat [OF assms] by (auto split: if_splits)
  have "unat (vmm_this s) mod 4096 = 0" using assms(1) by (simp add: vmm_place_def)
  moreover have "(if d = 0 then 8192 else 12288 + (d - 768) * 4096) mod 4096 = (0 :: nat)"
    by simp
  ultimately show "unat (table_address s d) mod 4096 = 0"
    unfolding table_address_unat [OF assms] by (metis mod_add_eq add_0 mod_0)
qed

lemma table_at_table_address:
  assumes "vmm_place mu s" and "d < 1024" and "d = 0 \<or> 768 \<le> d"
  shows "table_at s (table_address s d) = Some (table_of d)"
proof (cases "d = 0")
  case True
  then show ?thesis by (simp add: table_at_def table_address_def table_of_def)
next
  case False
  let ?i = "d - 768"
  have i: "?i < 256" using assms False by auto
  have off: "addr_PageTables768 s (of_nat ?i) - addr_PageTables768 s 0 = of_nat ?i * 4096"
    by (simp add: addr_PageTables768_def)
  have u: "unat (of_nat ?i * 4096 :: u32) = ?i * 4096"
    using i by (simp add: unat_mult_wrap unat_of_nat32)
  have ne: "addr_PageTables768 s (of_nat ?i) \<noteq> addr_PageTable0 s"
  proof
    assume "addr_PageTables768 s (of_nat ?i) = addr_PageTable0 s"
    then have "unat (addr_PageTables768 s (of_nat ?i)) = unat (addr_PageTable0 s)" by simp
    then show False using tables768_unat [OF assms(1) i] table0_unat [OF assms(1)] by simp
  qed
  have "(of_nat ?i * 4096 :: u32) < 0x100000" using u i by (simp add: word_less_nat_alt)
  moreover have "(of_nat ?i * 4096 :: u32) mod 4096 = 0"
    using u by (simp add: unat_mod_distrib flip: unat_eq_0)
  moreover have "unat ((of_nat ?i * 4096 :: u32) div 4096) = ?i"
    using u by (simp add: unat_div_distrib)
  ultimately show ?thesis
    using False ne off by (simp add: table_at_def table_address_def table_of_def Let_def)
qed

lemma physical_aligned:
  assumes "vmm_place mu s" and "unat a mod 4096 = 0"
  shows "unat (KernelVirtualToPhysicalAddress mu a) mod 4096 = 0"
  using assms by (simp add: KernelVirtualToPhysicalAddress_def vmm_place_def aligned_sum
      aligned_difference)

section \<open>Reading the tables\<close>

lemma page_parts: "p < 1048576 \<Longrightarrow> p div 1024 < 1024" "p mod 1024 < (1024 :: nat)"
  by auto

lemma has_tableD:
  "has_table p \<Longrightarrow> p < 1048576" "has_table p \<Longrightarrow> p div 1024 < 1024"
  "has_table p \<Longrightarrow> p div 1024 = 0 \<or> 768 \<le> p div 1024"
  by (auto simp: has_table_def)

lemma directory_present:
  assumes "vmm_wf mu s" and "d < 1024" and "vmm_PageDirectory s ! d \<noteq> 0"
  shows "d = 0 \<or> 768 \<le> d" and "PDE_IsPresent (vmm_PageDirectory s ! d)"
    and "KernelPhysicalToVirtualAddress mu (PDE_GetAddress (vmm_PageDirectory s ! d)) = table_address s d"
  using vmm_wfD(3) [OF assms(1,2)] assms(3) by (auto simp: directory_ok_def)

lemma directory_present_iff:
  "vmm_wf mu s \<Longrightarrow> d < 1024 \<Longrightarrow>
    PDE_IsPresent (vmm_PageDirectory s ! d) \<longleftrightarrow> vmm_PageDirectory s ! d \<noteq> 0"
  using directory_present(2) pde.null_entry(1) by metis

lemma entry_present_iff:
  "vmm_wf mu s \<Longrightarrow> has_table p \<Longrightarrow> PTE_IsPresent (pte_at s p) \<longleftrightarrow> pte_at s p \<noteq> 0"
  using vmm_wfD(4) [of mu s p] pte.null_entry(1) by (auto simp: entry_ok_def)

lemma directory_of_entry:
  "vmm_wf mu s \<Longrightarrow> has_table p \<Longrightarrow> pte_at s p \<noteq> 0 \<Longrightarrow> vmm_PageDirectory s ! (p div 1024) \<noteq> 0"
  using vmm_wfD(4) [of mu s p] by (auto simp: entry_ok_def)

lemma GetEntry_eq:
  "PageDirectory_GetEntry es va = es ! (page_of va div 1024)"
  "PageTable_GetEntry es va = es ! (page_of va mod 1024)"
  "PageDirectory_SetEntry es (PAGE_DIRECTORY_TABLE_INDEX va) e = es[page_of va div 1024 := e]"
  "PageTable_SetEntry es (PAGE_TABLE_ENTRY_INDEX va) e = es[page_of va mod 1024 := e]"
  by (simp_all add: PageDirectory_GetEntry_def PageTable_GetEntry_def PageDirectory_SetEntry_def
      PageTable_SetEntry_def directory_index table_index)

text \<open>The pointer \<^verbatim>\<open>GetTable\<close> returns is the object's own table for the address.\<close>

lemma GetTable_eq:
  assumes "vmm_wf mu s" and "has_table (page_of va)"
    and "vmm_PageDirectory s ! (page_of va div 1024) \<noteq> 0"
  shows "PageDirectory_GetTable mu (vmm_PageDirectory s) va = table_address s (page_of va div 1024)"
    and "PageDirectory_GetTable mu (vmm_PageDirectory s) va \<noteq> 0"
    and "table_at s (PageDirectory_GetTable mu (vmm_PageDirectory s) va)
      = Some (table_of (page_of va div 1024))"
proof -
  note d = has_tableD(2,3) [OF assms(2)]
  note place = vmm_wfD(2) [OF assms(1)]
  show eq: "PageDirectory_GetTable mu (vmm_PageDirectory s) va = table_address s (page_of va div 1024)"
    using directory_present(3) [OF assms(1) d(1) assms(3)]
    by (simp add: PageDirectory_GetTable_def GetEntry_eq)
  show "PageDirectory_GetTable mu (vmm_PageDirectory s) va \<noteq> 0"
    using table_address_facts(1) [OF place d] eq by simp
  show "table_at s (PageDirectory_GetTable mu (vmm_PageDirectory s) va)
      = Some (table_of (page_of va div 1024))"
    using table_at_table_address [OF place d] eq by simp
qed

lemma vmm_mapping_eq:
  assumes "vmm_wf mu s"
  shows "vmm_mapping mu s p =
    (if has_table p \<and> pte_at s p \<noteq> 0 then Some (PTE_GetAddress (pte_at s p)) else None)"
proof (cases "p < 1048576 \<and> vmm_PageDirectory s ! (p div 1024) \<noteq> 0")
  case True
  then have d: "p div 1024 < 1024" by (simp add: page_parts)
  note dir = directory_present [OF assms d conjunct2 [OF True]]
  have h: "has_table p" using True dir(1) by (simp add: has_table_def)
  have "table_at s (table_address s (p div 1024)) = Some (table_of (p div 1024))"
    by (rule table_at_table_address [OF vmm_wfD(2) [OF assms] d dir(1)])
  with True dir h entry_present_iff [OF assms h] show ?thesis
    by (simp add: vmm_mapping_def pte_at_def)
next
  case False
  then have "\<not> (has_table p \<and> pte_at s p \<noteq> 0)"
    using directory_of_entry [OF assms, of p] has_tableD(1) by blast
  moreover have "vmm_mapping mu s p = None"
    using False pde.null_entry(1) by (auto simp: vmm_mapping_def)
  ultimately show ?thesis by simp
qed

section \<open>Writing the tables\<close>

definition set_pte :: "nat \<Rightarrow> pte \<Rightarrow> vmm \<Rightarrow> vmm" where
  "set_pte p e s = table_put s (table_of (p div 1024))
     ((table_get s (table_of (p div 1024)))[p mod 1024 := e])"

lemma set_pte_fields [frame_simps, simp]:
  "vmm_this (set_pte p e s) = vmm_this s" "cpu_trace (set_pte p e s) = cpu_trace s"
  "vmm_VirtualStartAddress (set_pte p e s) = vmm_VirtualStartAddress s"
  "vmm_PageDirectory (set_pte p e s) = vmm_PageDirectory s"
  by (simp_all add: set_pte_def table_of_def)

lemma length_nth_update: "i < length xs \<Longrightarrow> length y = n \<Longrightarrow> length (xs ! i) = n \<Longrightarrow> length (xs[j := y] ! i) = n"
  by (cases "i = j") auto

lemma set_pte_shape [simp]: "vmm_shape s \<Longrightarrow> has_table p \<Longrightarrow> vmm_shape (set_pte p e s)"
  using has_tableD(2) [of p]
  by (auto simp: set_pte_def table_of_def vmm_shape_def intro!: length_nth_update)

lemma pte_at_set_pte:
  assumes "vmm_shape s" and "has_table p" and "has_table q"
  shows "pte_at (set_pte p e s) q = (if q = p then e else pte_at s q)"
proof -
  have split: "q = p \<longleftrightarrow> q div 1024 = p div 1024 \<and> q mod 1024 = p mod 1024"
    by (metis div_mult_mod_eq)
  have bounds: "p div 1024 - 768 < 256" "q div 1024 - 768 < 256"
    using has_tableD(2) [OF assms(2)] has_tableD(2) [OF assms(3)] by simp_all
  have parts: "p div 1024 = 0 \<or> 768 \<le> p div 1024" "q div 1024 = 0 \<or> 768 \<le> q div 1024"
    using has_tableD(3) assms(2,3) by blast+
  have "p div 1024 - 768 = q div 1024 - 768 \<longleftrightarrow> p div 1024 = q div 1024"
    if "p div 1024 \<noteq> 0" "q div 1024 \<noteq> 0"
    using that parts by linarith
  with assms(1) bounds show ?thesis
    unfolding split
    by (cases "p div 1024 = 0"; cases "q div 1024 = 0")
      (auto simp: set_pte_def pte_at_def table_of_def vmm_shape_def nth_list_update)
qed

lemma place_cong:
  "vmm_this t = vmm_this s \<Longrightarrow> vmm_VirtualStartAddress t = vmm_VirtualStartAddress s \<Longrightarrow>
    vmm_place mu t \<longleftrightarrow> vmm_place mu s"
  "vmm_this t = vmm_this s \<Longrightarrow> table_address t d = table_address s d"
  by (simp_all add: vmm_place_def table_address_def addr_PageTable0_def addr_PageTables768_def)

lemma set_pte_wf:
  assumes "vmm_wf mu s" and "has_table p"
    and "e = 0 \<or> PTE_IsPresent e \<and> vmm_PageDirectory s ! (p div 1024) \<noteq> 0"
  shows "vmm_wf mu (set_pte p e s)"
proof -
  let ?t = "set_pte p e s"
  have "vmm_shape ?t" and "vmm_place mu ?t"
    using vmm_wfD(1,2) [OF assms(1)] assms(2) place_cong(1) [of ?t s mu] by simp_all
  moreover have "directory_ok mu ?t d" if "d < 1024" for d
    using vmm_wfD(3) [OF assms(1) that] place_cong(2) [of ?t s d] by (simp add: directory_ok_def)
  moreover have "entry_ok ?t q" if "has_table q" for q
    using vmm_wfD(4) [OF assms(1) that] assms(3)
      pte_at_set_pte [OF vmm_wfD(1) [OF assms(1)] assms(2) that]
    by (auto simp: entry_ok_def)
  ultimately show ?thesis by (simp add: vmm_wf_def)
qed

lemma mapping_set_pte:
  assumes "vmm_wf mu s" and "has_table p" and "vmm_wf mu (set_pte p e s)"
  shows "vmm_mapping mu (set_pte p e s) =
    (vmm_mapping mu s)(p := if e = 0 then None else Some (PTE_GetAddress e))"
proof
  fix q
  show "vmm_mapping mu (set_pte p e s) q =
      ((vmm_mapping mu s)(p := if e = 0 then None else Some (PTE_GetAddress e))) q"
    using pte_at_set_pte [OF vmm_wfD(1) [OF assms(1)] assms(2), of q e] assms(2)
    unfolding vmm_mapping_eq [OF assms(1)] vmm_mapping_eq [OF assms(3)] by auto
qed

section \<open>The directory entry of a mapping\<close>

text \<open>The index \<^verbatim>\<open>Map\<close> computes from the distance to the start of the kernel picks the table of the
  directory entry.\<close>

lemma tables_index:
  assumes "vmm_place mu s" and "768 \<le> page_of va div 1024"
  shows "unat ((va - vmm_VirtualStartAddress s) div 0x400000) = page_of va div 1024 - 768"
proof -
  have v: "vmm_VirtualStartAddress s = 0xC0000000" using assms(1) by (simp add: vmm_place_def)
  have ge: "3221225472 \<le> unat va" using assms(2) by (simp add: page_of_def)
  then obtain k where k: "unat va = k + 768 * 4194304" using le_iff_add [of "768 * 4194304" "unat va"] by auto
  from ge have "0xC0000000 \<le> va" by (simp add: word_le_nat_alt)
  then have "unat (va - 0xC0000000) = unat va - 3221225472" by (simp add: unat_sub_le)
  then have "unat ((va - 0xC0000000) div 0x400000) = (unat va - 768 * 4194304) div 4194304"
    by (simp add: unat_div_distrib)
  also have "\<dots> = unat va div 4194304 - 768" unfolding k by (simp only: diff_add_inverse2 div_mult_self1)
  finally show ?thesis using v by (simp add: page_of_def div_4194304)
qed

lemma Map_directory_entry_eq:
  assumes "vmm_wf mu s" and "has_table (page_of va)"
  shows "Map_directory_entry mu va w s =
    Some (if vmm_PageDirectory s ! (page_of va div 1024) \<noteq> 0 then s
          else s\<lparr>vmm_PageDirectory := (vmm_PageDirectory s)[page_of va div 1024 :=
            PDE_SetPresent (PDE_SetWritable (PDE_SetAddress 0
              (KernelVirtualToPhysicalAddress mu (table_address s (page_of va div 1024)))) w) True]\<rparr>)"
proof -
  let ?d = "page_of va div 1024"
  note d = has_tableD(2,3) [OF assms(2)]
  have i0: "PAGE_DIRECTORY_TABLE_INDEX va = 0 \<longleftrightarrow> ?d = 0"
    using directory_index [of va] by (metis unat_eq_0)
  have i768: "768 \<le> PAGE_DIRECTORY_TABLE_INDEX va \<and> PAGE_DIRECTORY_TABLE_INDEX va \<le> 1023 \<longleftrightarrow> 768 \<le> ?d"
    using directory_index_less [of va] less_Suc_eq_le [of ?d 1023]
    by (auto simp: word_le_nat_alt directory_index)
  have lt: "?d - 768 < 4294967296" using directory_index_less [of va] by linarith
  have "(va - vmm_VirtualStartAddress s) div 0x400000 = of_nat (?d - 768)" if "768 \<le> ?d"
    using tables_index [OF vmm_wfD(2) [OF assms(1)] that] unat_of_nat32 [OF lt] by (simp add: word_unat_eq_iff)
  with d(2) i0 i768 directory_present_iff [OF assms(1) d(1)] show ?thesis
    by (auto simp: Map_directory_entry_def Let_def GetEntry_eq table_address_def)
qed

lemma pte_at_directory [simp]: "pte_at (s\<lparr>vmm_PageDirectory := pd\<rparr>) = pte_at s"
proof
  show "pte_at (s\<lparr>vmm_PageDirectory := pd\<rparr>) p = pte_at s p" for p
    by (simp add: pte_at_def table_of_def)
qed

lemma Map_directory_entry_ok:
  assumes "vmm_wf mu s" and "has_table (page_of va)"
  obtains s1 where "Map_directory_entry mu va w s = Some s1" and "vmm_wf mu s1"
    and "vmm_PageDirectory s1 ! (page_of va div 1024) \<noteq> 0" and "pte_at s1 = pte_at s"
    and "vmm_this s1 = vmm_this s" and "cpu_trace s1 = cpu_trace s"
    and "vmm_PageDirectory s ! (page_of va div 1024) \<noteq> 0 \<Longrightarrow> s1 = s"
proof -
  let ?d = "page_of va div 1024"
  let ?a = "KernelVirtualToPhysicalAddress mu (table_address s ?d)"
  let ?e = "PDE_SetPresent (PDE_SetWritable (PDE_SetAddress 0 ?a) w) True"
  let ?s1 = "s\<lparr>vmm_PageDirectory := (vmm_PageDirectory s)[?d := ?e]\<rparr>"
  note d = has_tableD(2,3) [OF assms(2)]
  note place = vmm_wfD(2) [OF assms(1)]
  show ?thesis
  proof (cases "vmm_PageDirectory s ! ?d = 0")
    case False
    with Map_directory_entry_eq [OF assms, of w] assms(1) that [of s] show ?thesis by simp
  next
    case True
    have al: "unat ?a mod 4096 = 0"
      by (rule physical_aligned [OF place table_address_facts(2) [OF place d]])
    note e = pde.fill_entry(4) [OF al, where w = w and v = True] pde.fill_entry(6) [OF al, where w = w and v = True]
    have ne: "?e \<noteq> 0" using e(1) pde.null_entry(1) by auto
    have len: "length (vmm_PageDirectory s) = 1024" using vmm_wfD(1) [OF assms(1)] by (simp add: vmm_shape_def)
    then have nth: "vmm_PageDirectory ?s1 ! i = (if i = ?d then ?e else vmm_PageDirectory s ! i)"
      if "i < 1024" for i using that d(1) by simp
    have "vmm_shape ?s1" "vmm_place mu ?s1"
      using vmm_wfD(1,2) [OF assms(1)] by (simp_all add: vmm_shape_def vmm_place_def)
    moreover have "directory_ok mu ?s1 i" if "i < 1024" for i
      using vmm_wfD(3) [OF assms(1) that] nth [OF that] e d place_cong(2) [of ?s1 s i]
      unfolding directory_ok_def by (cases "i = ?d") simp_all
    moreover have "entry_ok ?s1 p" if "has_table p" for p
      using vmm_wfD(4) [OF assms(1) that] nth [OF has_tableD(2) [OF that]] ne
      unfolding entry_ok_def pte_at_directory by (cases "p div 1024 = ?d") auto
    ultimately have wf': "vmm_wf mu ?s1" by (simp add: vmm_wf_def)
    show ?thesis
    proof (rule that [of ?s1])
      show "Map_directory_entry mu va w s = Some ?s1"
        unfolding Map_directory_entry_eq [OF assms] using True by simp
      show "vmm_PageDirectory ?s1 ! ?d \<noteq> 0" unfolding nth [OF d(1)] using ne by simp
    qed (use wf' True in simp_all)
  qed
qed

section \<open>Every operation refines an operation on the mapping\<close>

text \<open>
  The abstract mapping service: a page is mapped only if both addresses are aligned, a table exists
  for the page and nothing is mapped there yet.
\<close>

definition page_aligned :: "u32 \<Rightarrow> bool" where
  "page_aligned a \<longleftrightarrow> unat a mod 4096 = 0"

definition spec_map :: "u32 \<Rightarrow> u32 \<Rightarrow> (nat \<rightharpoonup> u32) \<Rightarrow> (nat \<rightharpoonup> u32) option" where
  "spec_map va pa m =
     (if page_aligned pa \<and> page_aligned va \<and> has_table (page_of va) \<and> m (page_of va) = None
      then Some (m(page_of va \<mapsto> pa)) else None)"

definition spec_unmap :: "u32 \<Rightarrow> (nat \<rightharpoonup> u32) \<Rightarrow> (nat \<rightharpoonup> u32) option" where
  "spec_unmap va m =
     (if page_aligned va \<and> m (page_of va) \<noteq> None then Some (m(page_of va := None)) else None)"

lemma aligned_iff: "IsAligned a PAGE_SIZE \<longleftrightarrow> page_aligned a"
  by (simp add: page_aligned_def PAGE_SIZE_def IsAligned_4096)

definition refines_op ::
  "memory_util \<Rightarrow> vmm \<Rightarrow> (bool \<times> vmm) option \<Rightarrow> (nat \<rightharpoonup> u32) option \<Rightarrow> bool" where
  "refines_op mu s r sp \<longleftrightarrow> (\<exists>ok s'. r = Some (ok, s') \<and> vmm_wf mu s' \<and>
     vmm_this s' = vmm_this s \<and> cpu_trace s' = cpu_trace s \<and>
     (case sp of None \<Rightarrow> \<not> ok \<and> vmm_mapping mu s' = vmm_mapping mu s
      | Some m \<Rightarrow> ok \<and> vmm_mapping mu s' = m))"

lemma VMM_Map_refines:
  assumes wf: "vmm_wf mu s"
  shows "refines_op mu s (VMM_Map mu va pa w s) (spec_map va pa (vmm_mapping mu s))"
proof (cases "page_aligned pa \<and> page_aligned va \<and> has_table (page_of va)")
  case False
  with wf show ?thesis
    by (auto simp: refines_op_def VMM_Map_def aligned_iff spec_map_def no_page_table_iff)
next
  case True
  then have h: "has_table (page_of va)" and a: "page_aligned pa" "page_aligned va" by auto
  let ?p = "page_of va"
  obtain s1 where s1: "Map_directory_entry mu va w s = Some s1" "vmm_wf mu s1"
      "vmm_PageDirectory s1 ! (?p div 1024) \<noteq> 0" "pte_at s1 = pte_at s" "vmm_this s1 = vmm_this s"
      "cpu_trace s1 = cpu_trace s" "vmm_PageDirectory s ! (?p div 1024) \<noteq> 0 \<Longrightarrow> s1 = s"
    using Map_directory_entry_ok [OF wf h] by metis
  note T = GetTable_eq(2,3) [OF s1(2) h s1(3)]
  let ?e = "PTE_SetPresent (PTE_SetAddress (PTE_SetWritable (pte_at s ?p) w) pa) True"
  have map: "VMM_Map mu va pa w s = (if PTE_IsPresent (pte_at s ?p) then Some (False, s1)
      else Some (True, set_pte ?p ?e s1))"
    using a s1(1,4) T no_page_table_iff [THEN iffD2, OF h]
    by (simp add: VMM_Map_def aligned_iff Let_def GetEntry_eq set_pte_def
        flip: pte_at_def)
  have same: "vmm_mapping mu s1 = vmm_mapping mu s"
    unfolding fun_eq_iff vmm_mapping_eq [OF wf] vmm_mapping_eq [OF s1(2)] s1(4) by simp
  show ?thesis
  proof (cases "pte_at s ?p = 0")
    case False
    with map entry_present_iff [OF wf h] s1 same a h show ?thesis
      by (auto simp: refines_op_def spec_map_def vmm_mapping_eq [OF wf])
  next
    case True
    have al: "unat pa mod 4096 = 0" using a by (simp add: page_aligned_def)
    note e = pte.fill_entry(1,3) [OF al, where w = w and v = True]
    have ne: "?e \<noteq> 0" using e(1) True pte.null_entry(1) by metis
    have wf': "vmm_wf mu (set_pte ?p ?e s1)"
      using s1(2,3) h e(1) True by (intro set_pte_wf) auto
    with map True pte.null_entry(1) s1(5,6) same a h e(2) ne mapping_set_pte [OF s1(2) h wf']
    show ?thesis by (auto simp: refines_op_def spec_map_def vmm_mapping_eq [OF wf])
  qed
qed

lemma mapped_iff:
  "vmm_wf mu s \<Longrightarrow> vmm_mapping mu s p \<noteq> None \<longleftrightarrow> has_table p \<and> pte_at s p \<noteq> 0"
  by (simp add: vmm_mapping_eq)

lemma walk_unmapped:
  assumes wf: "vmm_wf mu s" and a: "page_aligned va" and m: "vmm_mapping mu s (page_of va) = None"
  shows "VMM_Unmap mu va s = Some (False, s)" and "VMM_GetPhysicalAddress mu va s = Some 0"
proof -
  let ?p = "page_of va"
  have "VMM_Unmap mu va s = Some (False, s) \<and> VMM_GetPhysicalAddress mu va s = Some 0"
  proof (cases "has_table ?p \<and> vmm_PageDirectory s ! (?p div 1024) \<noteq> 0")
    case False
    with a directory_present_iff [OF wf directory_index_less, of va] show ?thesis
      by (auto simp: VMM_Unmap_def VMM_GetPhysicalAddress_def aligned_iff no_page_table_iff GetEntry_eq)
  next
    case True
    then have h: "has_table ?p" and d: "vmm_PageDirectory s ! (?p div 1024) \<noteq> 0" by auto
    have "\<not> PTE_IsPresent (pte_at s ?p)" using m h entry_present_iff [OF wf h] mapped_iff [OF wf, of ?p] by simp
    with a d GetTable_eq(2,3) [OF wf h d] no_page_table_iff [THEN iffD2, OF h]
      directory_present_iff [OF wf directory_index_less, of va]
    show ?thesis
      by (simp add: VMM_Unmap_def VMM_GetPhysicalAddress_def aligned_iff GetEntry_eq Let_def
          flip: pte_at_def)
  qed
  then show "VMM_Unmap mu va s = Some (False, s)" "VMM_GetPhysicalAddress mu va s = Some 0" by auto
qed

lemma walk_mapped:
  assumes wf: "vmm_wf mu s" and a: "page_aligned va" and m: "vmm_mapping mu s (page_of va) = Some pa"
  shows "VMM_Unmap mu va s = Some (True, set_pte (page_of va) 0 s)"
    and "VMM_GetPhysicalAddress mu va s = Some pa"
proof -
  let ?p = "page_of va"
  have hp: "has_table ?p \<and> pte_at s ?p \<noteq> 0" using m mapped_iff [OF wf, of ?p] by simp
  then have h: "has_table ?p" ..
  have d: "vmm_PageDirectory s ! (?p div 1024) \<noteq> 0" using directory_of_entry [OF wf] hp by blast
  have present: "PTE_IsPresent (pte_at s ?p)" using hp entry_present_iff [OF wf h] by simp
  have addr: "PTE_GetAddress (pte_at s ?p) = pa" using m hp by (simp add: vmm_mapping_eq [OF wf])
  note T = GetTable_eq(2,3) [OF wf h d] no_page_table_iff [THEN iffD2, OF h]
    directory_present_iff [OF wf directory_index_less, of va]
  show "VMM_GetPhysicalAddress mu va s = Some pa"
    using a d T present addr
    by (simp add: VMM_GetPhysicalAddress_def aligned_iff GetEntry_eq Let_def flip: pte_at_def)
  show "VMM_Unmap mu va s = Some (True, set_pte ?p 0 s)"
    using a d T present
    by (simp add: VMM_Unmap_def aligned_iff GetEntry_eq Let_def set_pte_def PTE_Clear_def
        flip: pte_at_def)
qed

lemma VMM_Unmap_refines:
  assumes wf: "vmm_wf mu s"
  shows "refines_op mu s (VMM_Unmap mu va s) (spec_unmap va (vmm_mapping mu s))"
proof (cases "page_aligned va \<and> vmm_mapping mu s (page_of va) \<noteq> None")
  case False
  then have "VMM_Unmap mu va s = Some (False, s)"
    using walk_unmapped(1) [OF wf, of va]
    by (cases "page_aligned va") (simp_all add: VMM_Unmap_def aligned_iff)
  moreover have "spec_unmap va (vmm_mapping mu s) = None" using False by (simp add: spec_unmap_def)
  ultimately show ?thesis using wf by (auto simp: refines_op_def)
next
  case True
  then obtain pa where m: "vmm_mapping mu s (page_of va) = Some pa" and a: "page_aligned va" by auto
  have h: "has_table (page_of va)" using m mapped_iff [OF wf, of "page_of va"] by simp
  have wf': "vmm_wf mu (set_pte (page_of va) 0 s)" by (rule set_pte_wf [OF wf h]) simp
  show ?thesis
    unfolding refines_op_def walk_mapped(1) [OF wf a m]
    by (intro exI conjI) (rule refl, rule wf', simp_all add: spec_unmap_def a m mapping_set_pte [OF wf h wf'])
qed

lemma VMM_GetPhysicalAddress_eq:
  assumes "vmm_wf mu s"
  shows "VMM_GetPhysicalAddress mu va s =
    Some (if page_aligned va then (case vmm_mapping mu s (page_of va) of None \<Rightarrow> 0 | Some pa \<Rightarrow> pa) else 0)"
  using walk_unmapped(2) [OF assms, of va] walk_mapped(2) [OF assms, of va]
  by (cases "page_aligned va"; cases "vmm_mapping mu s (page_of va)")
    (auto simp: VMM_GetPhysicalAddress_def aligned_iff)

text \<open>Appending to the trace touches neither the tables nor what they mean.\<close>

lemma trace_frame:
  "table_at (s\<lparr>cpu_trace := t\<rparr>) = table_at s" "table_get (s\<lparr>cpu_trace := t\<rparr>) r = table_get s r"
  "vmm_mapping mu (s\<lparr>cpu_trace := t\<rparr>) = vmm_mapping mu s"
  "vmm_wf mu (s\<lparr>cpu_trace := t\<rparr>) \<longleftrightarrow> vmm_wf mu s"
proof -
  show at: "table_at (s\<lparr>cpu_trace := t\<rparr>) = table_at s"
    by (rule ext) (simp add: table_at_def addr_PageTable0_def addr_PageTables768_def)
  show get: "table_get (s\<lparr>cpu_trace := t\<rparr>) r = table_get s r" for r by (cases r) simp_all
  show "vmm_mapping mu (s\<lparr>cpu_trace := t\<rparr>) = vmm_mapping mu s"
    by (rule ext) (simp add: vmm_mapping_def at get cong: option.case_cong)
  show "vmm_wf mu (s\<lparr>cpu_trace := t\<rparr>) \<longleftrightarrow> vmm_wf mu s"
    by (simp add: vmm_wf_def vmm_shape_def vmm_place_def directory_ok_def entry_ok_def pte_at_def get
        table_address_def addr_PageTable0_def addr_PageTables768_def)
qed

lemma flush_frame:
  "vmm_mapping mu (VMM_FlushTLB va s) = vmm_mapping mu s"
  "vmm_wf mu (VMM_FlushTLB va s) \<longleftrightarrow> vmm_wf mu s"
  "vmm_this (VMM_FlushTLB va s) = vmm_this s"
  "cpu_trace (VMM_FlushTLB va s) = cpu_trace s @ [InvlPg va]"
  by (simp_all add: VMM_FlushTLB_def trace_frame)

section \<open>Ranges\<close>

primrec spec_map_range :: "nat \<Rightarrow> u32 \<Rightarrow> u32 \<Rightarrow> (nat \<rightharpoonup> u32) \<Rightarrow> bool \<times> (nat \<rightharpoonup> u32)" where
  "spec_map_range 0 va pa m = (True, m)"
| "spec_map_range (Suc n) va pa m =
     (case spec_map va pa m of None \<Rightarrow> (False, m)
      | Some m' \<Rightarrow> spec_map_range n (va + PAGE_SIZE) (pa + PAGE_SIZE) m')"

primrec spec_unmap_range :: "nat \<Rightarrow> u32 \<Rightarrow> (nat \<rightharpoonup> u32) \<Rightarrow> bool \<times> (nat \<rightharpoonup> u32)" where
  "spec_unmap_range 0 va m = (True, m)"
| "spec_unmap_range (Suc n) va m =
     (case spec_unmap va m of None \<Rightarrow> (False, m)
      | Some m' \<Rightarrow> spec_unmap_range n (va + PAGE_SIZE) m')"

lemma MapRange_loop_refines:
  assumes "vmm_wf mu s"
  shows "\<exists>ok s'. MapRange_loop mu n va pa w s = Some (ok, s') \<and> vmm_wf mu s' \<and>
    vmm_this s' = vmm_this s \<and> cpu_trace s' = cpu_trace s \<and>
    spec_map_range n va pa (vmm_mapping mu s) = (ok, vmm_mapping mu s')"
  using assms
proof (induction n arbitrary: va pa s)
  case (Suc n)
  obtain ok s' where r: "VMM_Map mu va pa w s = Some (ok, s')" "vmm_wf mu s'"
      "vmm_this s' = vmm_this s" "cpu_trace s' = cpu_trace s"
      "case spec_map va pa (vmm_mapping mu s) of None \<Rightarrow> \<not> ok \<and> vmm_mapping mu s' = vmm_mapping mu s
       | Some m \<Rightarrow> ok \<and> vmm_mapping mu s' = m"
    using VMM_Map_refines [OF Suc.prems, of va pa w] unfolding refines_op_def by blast
  show ?case
    using r Suc.IH [OF r(2), of "va + PAGE_SIZE" "pa + PAGE_SIZE"]
    by (cases "spec_map va pa (vmm_mapping mu s)") auto
qed auto

lemma UnmapRange_loop_refines:
  assumes "vmm_wf mu s"
  shows "\<exists>ok s'. UnmapRange_loop mu n va s = Some (ok, s') \<and> vmm_wf mu s' \<and>
    vmm_this s' = vmm_this s \<and> spec_unmap_range n va (vmm_mapping mu s) = (ok, vmm_mapping mu s')"
  using assms
proof (induction n arbitrary: va s)
  case (Suc n)
  obtain ok s' where r: "VMM_Unmap mu va s = Some (ok, s')" "vmm_wf mu s'"
      "vmm_this s' = vmm_this s"
      "case spec_unmap va (vmm_mapping mu s) of None \<Rightarrow> \<not> ok \<and> vmm_mapping mu s' = vmm_mapping mu s
       | Some m \<Rightarrow> ok \<and> vmm_mapping mu s' = m"
    using VMM_Unmap_refines [OF Suc.prems, of va] unfolding refines_op_def by blast
  have f: "vmm_wf mu (VMM_FlushTLB va s')" "vmm_mapping mu (VMM_FlushTLB va s') = vmm_mapping mu s'"
    "vmm_this (VMM_FlushTLB va s') = vmm_this s"
    using r(2,3) by (simp_all add: flush_frame)
  show ?case
    using r f Suc.IH [OF f(1), of "va + PAGE_SIZE"]
    by (cases "spec_unmap va (vmm_mapping mu s)") auto
qed auto

text \<open>Consecutive pages mapped to consecutive frames, and consecutive pages unmapped.\<close>

definition range_map :: "nat \<Rightarrow> nat \<Rightarrow> u32 \<Rightarrow> (nat \<rightharpoonup> u32) \<Rightarrow> (nat \<rightharpoonup> u32)" where
  "range_map p n pa m q = (if p \<le> q \<and> q < p + n then Some (pa + of_nat (q - p) * 4096) else m q)"

definition range_unmap :: "nat \<Rightarrow> nat \<Rightarrow> (nat \<rightharpoonup> u32) \<Rightarrow> (nat \<rightharpoonup> u32)" where
  "range_unmap p n m q = (if p \<le> q \<and> q < p + n then None else m q)"

lemma range_map_0 [simp]: "range_map p 0 pa m = m" "range_unmap p 0 m = m"
  by (auto simp: fun_eq_iff range_map_def range_unmap_def)

lemma range_map_Suc:
  "range_map (Suc p) n (pa + PAGE_SIZE) (m(p \<mapsto> pa)) = range_map p (Suc n) pa m"
proof
  fix q
  show "range_map (Suc p) n (pa + PAGE_SIZE) (m(p \<mapsto> pa)) q = range_map p (Suc n) pa m q"
  proof (cases "p < q")
    case True
    then obtain j where "q = Suc (p + j)" using less_iff_Suc_add by blast
    then show ?thesis by (simp add: range_map_def PAGE_SIZE_def algebra_simps)
  qed (auto simp: range_map_def)
qed

lemma range_unmap_Suc: "range_unmap (Suc p) n (m(p := None)) = range_unmap p (Suc n) m"
  by (rule ext) (auto simp: range_unmap_def)

lemma aligned_unat: "page_aligned a \<Longrightarrow> unat a = page_of a * 4096"
  unfolding page_aligned_def page_of_def by (metis add_0_right div_mult_mod_eq)

lemma next_page:
  assumes "page_aligned va"
  shows "page_aligned (va + PAGE_SIZE)"
    and "Suc (page_of va) < 1048576 \<Longrightarrow> page_of (va + PAGE_SIZE) = Suc (page_of va)"
proof -
  show "page_aligned (va + PAGE_SIZE)"
    using assms by (simp add: page_aligned_def PAGE_SIZE_def aligned_sum)
  assume "Suc (page_of va) < 1048576"
  then have "unat (va + PAGE_SIZE) = unat va + 4096"
    using aligned_unat [OF assms] by (simp add: PAGE_SIZE_def unat_add_no_wrap)
  then show "page_of (va + PAGE_SIZE) = Suc (page_of va)" by (simp add: page_of_def)
qed

definition mappable :: "(nat \<rightharpoonup> u32) \<Rightarrow> nat \<Rightarrow> bool" where
  "mappable m p \<longleftrightarrow> has_table p \<and> m p = None"

lemma spec_map_mappable:
  "page_aligned va \<Longrightarrow> page_aligned pa \<Longrightarrow>
    spec_map va pa m = (if mappable m (page_of va) then Some (m(page_of va \<mapsto> pa)) else None)"
  by (simp add: spec_map_def mappable_def)

lemma spec_map_range_prefix:
  assumes "page_aligned va" and "page_aligned pa" and "page_of va + n \<le> 1048576"
  shows "\<exists>k\<le>n. snd (spec_map_range n va pa m) = range_map (page_of va) k pa m \<and>
    (fst (spec_map_range n va pa m) \<longleftrightarrow> k = n) \<and> (\<forall>i<k. mappable m (page_of va + i)) \<and>
    (k < n \<longrightarrow> \<not> mappable m (page_of va + k))"
  using assms
proof (induction n arbitrary: va pa m)
  case (Suc n)
  show ?case
  proof (cases "mappable m (page_of va)")
    case False
    then show ?thesis using Suc.prems by (intro exI [of _ 0]) (simp add: spec_map_mappable)
  next
    case True
    let ?m = "m(page_of va \<mapsto> pa)"
    have unfold: "spec_map_range (Suc n) va pa m = spec_map_range n (va + PAGE_SIZE) (pa + PAGE_SIZE) ?m"
      using True Suc.prems by (simp add: spec_map_mappable)
    show ?thesis
    proof (cases "n = 0")
      case True
      with \<open>mappable m (page_of va)\<close> range_map_Suc [of "page_of va" 0 pa m] unfold show ?thesis
        by (intro exI [of _ 1]) simp
    next
      case False
      then have p: "page_of (va + PAGE_SIZE) = Suc (page_of va)"
        using Suc.prems by (intro next_page(2)) auto
      then have le: "page_of (va + PAGE_SIZE) + n \<le> 1048576" using Suc.prems by simp
      obtain k where k: "k \<le> n" "snd (spec_map_range n (va + PAGE_SIZE) (pa + PAGE_SIZE) ?m) =
            range_map (Suc (page_of va)) k (pa + PAGE_SIZE) ?m"
          "fst (spec_map_range n (va + PAGE_SIZE) (pa + PAGE_SIZE) ?m) \<longleftrightarrow> k = n"
          "\<forall>i<k. mappable ?m (Suc (page_of va) + i)" "k < n \<longrightarrow> \<not> mappable ?m (Suc (page_of va) + k)"
        using Suc.IH [OF next_page(1) [OF Suc.prems(1)] next_page(1) [OF Suc.prems(2)] le, of ?m,
            unfolded p] by blast
      have same: "mappable ?m (Suc (page_of va) + i) \<longleftrightarrow> mappable m (page_of va + Suc i)" for i
        by (simp add: mappable_def)
      have "\<forall>i<Suc k. mappable m (page_of va + i)"
        using k(4) \<open>mappable m (page_of va)\<close> unfolding same All_less_Suc2 by simp
      with k(1,3,5) show ?thesis
        unfolding unfold k(2) range_map_Suc same by (intro exI [of _ "Suc k"]) auto
    qed
  qed
qed simp

lemma spec_unmap_range_prefix:
  assumes "page_aligned va" and "page_of va + n \<le> 1048576"
  shows "\<exists>k\<le>n. snd (spec_unmap_range n va m) = range_unmap (page_of va) k m \<and>
    (fst (spec_unmap_range n va m) \<longleftrightarrow> k = n) \<and> (\<forall>i<k. m (page_of va + i) \<noteq> None) \<and>
    (k < n \<longrightarrow> m (page_of va + k) = None)"
  using assms
proof (induction n arbitrary: va m)
  case (Suc n)
  show ?case
  proof (cases "m (page_of va) = None")
    case True
    then show ?thesis by (intro exI [of _ 0]) (simp add: spec_unmap_def)
  next
    case False
    let ?m = "m(page_of va := None)"
    have unfold: "spec_unmap_range (Suc n) va m = spec_unmap_range n (va + PAGE_SIZE) ?m"
      using False Suc.prems by (simp add: spec_unmap_def)
    show ?thesis
    proof (cases "n = 0")
      case True
      with False range_unmap_Suc [of "page_of va" 0 m] unfold show ?thesis
        by (intro exI [of _ 1]) simp
    next
      case n: False
      then have p: "page_of (va + PAGE_SIZE) = Suc (page_of va)"
        using Suc.prems by (intro next_page(2)) auto
      then have le: "page_of (va + PAGE_SIZE) + n \<le> 1048576" using Suc.prems by simp
      obtain k where k: "k \<le> n"
          "snd (spec_unmap_range n (va + PAGE_SIZE) ?m) = range_unmap (Suc (page_of va)) k ?m"
          "fst (spec_unmap_range n (va + PAGE_SIZE) ?m) \<longleftrightarrow> k = n"
          "\<forall>i<k. ?m (Suc (page_of va) + i) \<noteq> None" "k < n \<longrightarrow> ?m (Suc (page_of va) + k) = None"
        using Suc.IH [OF next_page(1) [OF Suc.prems(1)] le, of ?m, unfolded p] by blast
      have same: "?m (Suc (page_of va) + i) = m (page_of va + Suc i)" for i by simp
      have "\<forall>i<Suc k. m (page_of va + i) \<noteq> None"
        using k(4) False unfolding same All_less_Suc2 by simp
      with k(1,3,5) show ?thesis
        unfolding unfold k(2) range_unmap_Suc same by (intro exI [of _ "Suc k"]) auto
    qed
  qed
qed simp

section \<open>The contract of a page mapper\<close>

text \<open>
  What the virtual memory allocator and the start-up code rely on: a range is mapped or unmapped page
  by page from its start up to the first page where that is not possible, and an address is looked up
  in the mapping.
\<close>

locale page_mapper =
  fixes map_range :: "u32 \<Rightarrow> u32 \<Rightarrow> bool \<Rightarrow> u32 \<Rightarrow> 's \<Rightarrow> (bool \<times> 's) option"
    and unmap_range :: "u32 \<Rightarrow> u32 \<Rightarrow> 's \<Rightarrow> (bool \<times> 's) option"
    and phys :: "u32 \<Rightarrow> 's \<Rightarrow> u32 option"
    and mapping :: "'s \<Rightarrow> nat \<rightharpoonup> u32"
    and inv :: "'s \<Rightarrow> bool"
  assumes map_range_law: "inv s \<Longrightarrow> page_aligned va \<Longrightarrow> page_aligned pa \<Longrightarrow>
      page_of va + unat n \<le> 1048576 \<Longrightarrow>
      \<exists>ok s' k. map_range va pa w n s = Some (ok, s') \<and> inv s' \<and> k \<le> unat n \<and>
        mapping s' = range_map (page_of va) k pa (mapping s) \<and> (ok \<longleftrightarrow> k = unat n) \<and>
        (\<forall>i<k. mappable (mapping s) (page_of va + i)) \<and>
        (k < unat n \<longrightarrow> \<not> mappable (mapping s) (page_of va + k))"
    and unmap_range_law: "inv s \<Longrightarrow> page_aligned va \<Longrightarrow> page_of va + unat n \<le> 1048576 \<Longrightarrow>
      \<exists>ok s' k. unmap_range va n s = Some (ok, s') \<and> inv s' \<and> k \<le> unat n \<and>
        mapping s' = range_unmap (page_of va) k (mapping s) \<and> (ok \<longleftrightarrow> k = unat n) \<and>
        (\<forall>i<k. mapping s (page_of va + i) \<noteq> None) \<and>
        (k < unat n \<longrightarrow> mapping s (page_of va + k) = None)"
    and phys_law: "inv s \<Longrightarrow> page_aligned va \<Longrightarrow>
      phys va s = Some (case mapping s (page_of va) of None \<Rightarrow> 0 | Some pa \<Rightarrow> pa)"
begin

lemma map_range_ok:
  assumes "inv s" and "page_aligned va" and "page_aligned pa" and "page_of va + unat n \<le> 1048576"
    and "\<And>i. i < unat n \<Longrightarrow> mappable (mapping s) (page_of va + i)"
  obtains s' where "map_range va pa w n s = Some (True, s')" and "inv s'"
    and "mapping s' = range_map (page_of va) (unat n) pa (mapping s)"
proof -
  obtain ok s' k where r: "map_range va pa w n s = Some (ok, s')" "inv s'" "k \<le> unat n"
      "mapping s' = range_map (page_of va) k pa (mapping s)" "ok \<longleftrightarrow> k = unat n"
      "k < unat n \<longrightarrow> \<not> mappable (mapping s) (page_of va + k)"
    using map_range_law [OF assms(1-4), of w] by blast
  then have "k = unat n" using assms(5) by (meson le_neq_implies_less)
  with r show ?thesis by (intro that [of s']) auto
qed

lemma unmap_range_ok:
  assumes "inv s" and "page_aligned va" and "page_of va + unat n \<le> 1048576"
    and "\<And>i. i < unat n \<Longrightarrow> mapping s (page_of va + i) \<noteq> None"
  obtains s' where "unmap_range va n s = Some (True, s')" and "inv s'"
    and "mapping s' = range_unmap (page_of va) (unat n) (mapping s)"
proof -
  obtain ok s' k where r: "unmap_range va n s = Some (ok, s')" "inv s'" "k \<le> unat n"
      "mapping s' = range_unmap (page_of va) k (mapping s)" "ok \<longleftrightarrow> k = unat n"
      "k < unat n \<longrightarrow> mapping s (page_of va + k) = None"
    using unmap_range_law [OF assms(1-3)] by blast
  then have "k = unat n" using assms(4) by (meson le_neq_implies_less)
  with r show ?thesis by (intro that [of s']) auto
qed

lemma unmap_after_map:
  assumes "inv s" and "page_aligned va" and "page_aligned pa" and "page_of va + unat n \<le> 1048576"
    and "\<And>i. i < unat n \<Longrightarrow> mappable (mapping s) (page_of va + i)"
  shows "\<exists>s1 s2. map_range va pa w n s = Some (True, s1) \<and> unmap_range va n s1 = Some (True, s2) \<and>
    inv s2 \<and> mapping s2 = mapping s \<and>
    (\<forall>i<unat n. mapping s1 (page_of va + i) = Some (pa + of_nat i * 4096))"
proof -
  obtain s1 where s1: "map_range va pa w n s = Some (True, s1)" "inv s1"
      "mapping s1 = range_map (page_of va) (unat n) pa (mapping s)"
    using map_range_ok [OF assms] by metis
  have at: "mapping s1 (page_of va + i) = Some (pa + of_nat i * 4096)" if "i < unat n" for i
    using that by (simp add: s1(3) range_map_def)
  then obtain s2 where s2: "unmap_range va n s1 = Some (True, s2)" "inv s2"
      "mapping s2 = range_unmap (page_of va) (unat n) (mapping s1)"
    using unmap_range_ok [OF s1(2) assms(2,4)] by (metis option.distinct(1))
  have "mapping s2 q = mapping s q" for q
    using assms(5) [of "q - page_of va"]
    by (auto simp: s2(3) s1(3) range_unmap_def range_map_def mappable_def)
  with s1 s2 at show ?thesis by blast
qed

end

interpretation vm: page_mapper "VMM_MapRange mu" "VMM_UnmapRange mu" "VMM_GetPhysicalAddress mu"
  "vmm_mapping mu" "vmm_wf mu" for mu
proof
  fix s va pa n w
  assume s: "vmm_wf mu s" and a: "page_aligned va" and n: "page_of va + unat (n :: u32) \<le> 1048576"
  { assume "page_aligned pa"
    from spec_map_range_prefix [OF a this n, of "vmm_mapping mu s"]
      MapRange_loop_refines [OF s, of "unat n" va pa w]
    show "\<exists>ok s' k. VMM_MapRange mu va pa w n s = Some (ok, s') \<and> vmm_wf mu s' \<and> k \<le> unat n \<and>
        vmm_mapping mu s' = range_map (page_of va) k pa (vmm_mapping mu s) \<and> (ok \<longleftrightarrow> k = unat n) \<and>
        (\<forall>i<k. mappable (vmm_mapping mu s) (page_of va + i)) \<and>
        (k < unat n \<longrightarrow> \<not> mappable (vmm_mapping mu s) (page_of va + k))"
      unfolding VMM_MapRange_def by (metis fst_conv snd_conv) }
  from spec_unmap_range_prefix [OF a n, of "vmm_mapping mu s"]
    UnmapRange_loop_refines [OF s, of "unat n" va]
  show "\<exists>ok s' k. VMM_UnmapRange mu va n s = Some (ok, s') \<and> vmm_wf mu s' \<and> k \<le> unat n \<and>
      vmm_mapping mu s' = range_unmap (page_of va) k (vmm_mapping mu s) \<and> (ok \<longleftrightarrow> k = unat n) \<and>
      (\<forall>i<k. vmm_mapping mu s (page_of va + i) \<noteq> None) \<and>
      (k < unat n \<longrightarrow> vmm_mapping mu s (page_of va + k) = None)"
    unfolding VMM_UnmapRange_def by (metis fst_conv snd_conv)
qed (simp add: VMM_GetPhysicalAddress_eq)

section \<open>Initialisation and the trace\<close>

lemma VMM_Init_wf:
  assumes "VMM_Init bi s = (ok, s')" and "vmm_place mu s'"
  shows "ok \<and> vmm_wf mu s' \<and> vmm_mapping mu s' = Map.empty"
proof -
  have s': "vmm_PageDirectory s' = replicate 1024 0" "vmm_PageTable0 s' = replicate 1024 0"
      "vmm_PageTables768 s' = replicate 256 (replicate 1024 0)" "ok"
    using assms(1) by (auto simp: VMM_Init_def)
  have zero: "pte_at s' p = 0" if "has_table p" for p
    using has_tableD(2) [OF that] s' by (simp add: pte_at_def table_of_def)
  have wf: "vmm_wf mu s'"
    using assms(2) s' zero by (simp add: vmm_wf_def vmm_shape_def directory_ok_def entry_ok_def)
  moreover have "vmm_mapping mu s' p = None" for p
    using zero [of p] by (simp add: vmm_mapping_eq [OF wf])
  ultimately show ?thesis using s'(4) by (simp add: fun_eq_iff)
qed

lemma table_put_trace [simp]: "cpu_trace (table_put s r t) = cpu_trace s"
  by (cases r) simp_all

lemma VMM_Unmap_trace: "VMM_Unmap mu va s = Some (ok, s') \<Longrightarrow> cpu_trace s' = cpu_trace s"
  by (auto simp: VMM_Unmap_def Let_def split: if_splits option.splits)

lemma UnmapRange_loop_trace:
  "UnmapRange_loop mu n va s = Some (True, s') \<Longrightarrow>
    cpu_trace s' = cpu_trace s @ List.map (\<lambda>i. InvlPg (va + of_nat i * 4096)) [0..<n]"
proof (induction n arbitrary: va s)
  case (Suc n)
  then obtain s1 where u: "VMM_Unmap mu va s = Some (True, s1)"
      "UnmapRange_loop mu n (va + PAGE_SIZE) (VMM_FlushTLB va s1) = Some (True, s')"
    by (auto split: option.splits if_splits)
  have "List.map (\<lambda>i. InvlPg (va + of_nat i * 4096)) [0..<Suc n] =
      InvlPg va # List.map (\<lambda>i. InvlPg (va + PAGE_SIZE + of_nat i * 4096)) [0..<n]"
    unfolding map_upt_Suc by (simp add: PAGE_SIZE_def algebra_simps)
  with Suc.IH [OF u(2)] VMM_Unmap_trace [OF u(1)] show ?case by (simp add: flush_frame)
qed simp

section \<open>Properties\<close>

text \<open>The manager as \<^verbatim>\<open>InitVirtualMemoryManager\<close> leaves it after \<^verbatim>\<open>Init\<close>, for the witnesses.\<close>

definition mu_0 :: memory_util where
  "mu_0 = \<lparr>s_KernelVirtualStartAddress = 0xC0000000, s_KernelPhysicalStartAddress = 0x200000\<rparr>"

definition vmm_0 :: vmm where
  "vmm_0 = \<lparr>vmm_this = 0xC0010000, vmm_VirtualStartAddress = 0xC0000000,
     vmm_PageDirectory = replicate 1024 0, vmm_PageTable0 = replicate 1024 0,
     vmm_PageTables768 = replicate 256 (replicate 1024 0), cpu_trace = []\<rparr>"

lemma vmm_0_wf: "vmm_wf mu_0 vmm_0" "vmm_mapping mu_0 vmm_0 = Map.empty"
proof -
  have "VMM_Init boot (vmm_0) = (True, vmm_0)" if "KernelVirtualStartAddress boot = 0xC0000000" for boot
    using that by (simp add: VMM_Init_def vmm_0_def)
  moreover have "\<exists>boot. KernelVirtualStartAddress boot = 0xC0000000"
    by (rule exI [of _ "undefined\<lparr>KernelVirtualStartAddress := 0xC0000000\<rparr>"]) simp
  moreover have "vmm_place mu_0 vmm_0" by (simp add: vmm_place_def vmm_0_def mu_0_def)
  ultimately show "vmm_wf mu_0 vmm_0" "vmm_mapping mu_0 vmm_0 = Map.empty"
    using VMM_Init_wf by blast+
qed

text \<open>
  C10: \<^verbatim>\<open>Map\<close> refines an update of the page mapping. It never follows a wild table pointer, it keeps the
  invariant, and it succeeds exactly when both addresses are page aligned, a table exists for the page
  and nothing is mapped there; then the mapping gains this one page, otherwise it does not change.
\<close>

theorem vmm_map_refines_mapping:
  assumes "vmm_wf mu s"
  shows "\<exists>ok s'. VMM_Map mu va pa w s = Some (ok, s') \<and> vmm_wf mu s' \<and>
    (ok \<longleftrightarrow> page_aligned pa \<and> page_aligned va \<and> has_table (page_of va) \<and>
       vmm_mapping mu s (page_of va) = None) \<and>
    vmm_mapping mu s' =
      (if ok then (vmm_mapping mu s)(page_of va \<mapsto> pa) else vmm_mapping mu s)"
  using VMM_Map_refines [OF assms, of va pa w]
  by (auto simp: refines_op_def spec_map_def split: if_splits)

theorem vmm_map_refines_mapping_witness:
  "\<exists>ok s'. VMM_Map mu_0 0xC1000000 0x1000000 True vmm_0 = Some (ok, s') \<and> vmm_wf mu_0 s'"
  using vmm_map_refines_mapping [OF vmm_0_wf(1), of "0xC1000000" "0x1000000" True] by blast

text \<open>
  \<^verbatim>\<open>Unmap\<close> refines the removal of a page from the mapping: it succeeds exactly when the address is
  aligned and the page is mapped, and then removes this page and no other.
\<close>

theorem vmm_unmap_refines_mapping:
  assumes "vmm_wf mu s"
  shows "\<exists>ok s'. VMM_Unmap mu va s = Some (ok, s') \<and> vmm_wf mu s' \<and>
    (ok \<longleftrightarrow> page_aligned va \<and> vmm_mapping mu s (page_of va) \<noteq> None) \<and>
    vmm_mapping mu s' = (if ok then (vmm_mapping mu s)(page_of va := None) else vmm_mapping mu s)"
  using VMM_Unmap_refines [OF assms, of va]
  by (auto simp: refines_op_def spec_unmap_def split: if_splits)

theorem vmm_unmap_refines_mapping_witness:
  "\<exists>ok s'. VMM_Unmap mu_0 0xC1000000 vmm_0 = Some (ok, s') \<and> vmm_wf mu_0 s'"
  using vmm_unmap_refines_mapping [OF vmm_0_wf(1), of "0xC1000000"] by blast

text \<open>
  \<^verbatim>\<open>GetPhysicalAddress\<close> reads the mapping: the frame of a mapped page, and 0 for an address that is
  not page aligned or not mapped.
\<close>

theorem vmm_get_physical_address_reads_mapping:
  assumes "vmm_wf mu s"
  shows "VMM_GetPhysicalAddress mu va s =
    Some (if page_aligned va then (case vmm_mapping mu s (page_of va) of None \<Rightarrow> 0 | Some pa \<Rightarrow> pa) else 0)"
  by (rule VMM_GetPhysicalAddress_eq [OF assms])

theorem vmm_get_physical_address_reads_mapping_witness:
  "VMM_GetPhysicalAddress mu_0 0xC1000000 vmm_0 = Some 0"
  using vmm_get_physical_address_reads_mapping [OF vmm_0_wf(1), of "0xC1000000"]
  by (simp add: vmm_0_wf(2) split: if_splits)

text \<open>
  C16: \<^verbatim>\<open>MapRange\<close> maps pages to consecutive frames up to the first page that has no table or is
  already mapped, and reports success only when there is none. The pages before it stay mapped when it
  fails: nothing is undone.
\<close>

theorem vmm_map_range_maps_longest_prefix:
  assumes "vmm_wf mu s" and "page_aligned va" and "page_aligned pa"
    and "page_of va + unat n \<le> 1048576"
  shows "\<exists>ok s' k. VMM_MapRange mu va pa w n s = Some (ok, s') \<and> vmm_wf mu s' \<and> k \<le> unat n \<and>
    vmm_mapping mu s' = range_map (page_of va) k pa (vmm_mapping mu s) \<and> (ok \<longleftrightarrow> k = unat n) \<and>
    (\<forall>i<k. mappable (vmm_mapping mu s) (page_of va + i)) \<and>
    (k < unat n \<longrightarrow> \<not> mappable (vmm_mapping mu s) (page_of va + k))"
  by (rule vm.map_range_law [OF assms])

theorem vmm_map_range_maps_longest_prefix_witness:
  "\<exists>ok s' k. VMM_MapRange mu_0 0xC1000000 0x1000000 True 16 vmm_0 = Some (ok, s') \<and>
     vmm_mapping mu_0 s' = range_map 0xC1000 k 0x1000000 Map.empty"
  using vmm_map_range_maps_longest_prefix [OF vmm_0_wf(1), of "0xC1000000" "0x1000000" 16 True]
  by (auto simp: page_aligned_def page_of_def vmm_0_wf(2))

text \<open>
  C15: Unmapping the range that was just mapped succeeds, restores the mapping, and invalidates the
  processor's entry of every page of the range, in order.
\<close>

theorem vmm_unmap_range_after_map_range:
  assumes "vmm_wf mu s" and "page_aligned va" and "page_aligned pa"
    and "page_of va + unat n \<le> 1048576"
    and "\<And>i. i < unat n \<Longrightarrow> mappable (vmm_mapping mu s) (page_of va + i)"
  shows "\<exists>s1 s2. VMM_MapRange mu va pa w n s = Some (True, s1) \<and>
    VMM_UnmapRange mu va n s1 = Some (True, s2) \<and> vmm_mapping mu s2 = vmm_mapping mu s \<and>
    (\<forall>i<unat n. vmm_mapping mu s1 (page_of va + i) = Some (pa + of_nat i * 4096)) \<and>
    cpu_trace s2 = cpu_trace s1 @ List.map (\<lambda>i. InvlPg (va + of_nat i * 4096)) [0..<unat n]"
  using vm.unmap_after_map [OF assms] UnmapRange_loop_trace unfolding VMM_UnmapRange_def by metis

theorem vmm_unmap_range_after_map_range_witness:
  "\<exists>s1 s2. VMM_MapRange mu_0 0xC1000000 0x1000000 True 2 vmm_0 = Some (True, s1) \<and>
     VMM_UnmapRange mu_0 0xC1000000 2 s1 = Some (True, s2) \<and>
     cpu_trace s2 = cpu_trace s1 @ [InvlPg 0xC1000000, InvlPg 0xC1001000]"
proof -
  have "[0..<2] = [0, 1 :: nat]" by (simp add: upt_rec)
  moreover have "768 \<le> (790528 + i) div 1024" for i :: nat
    using div_le_mono [of 786432 "790528 + i" 1024] by simp
  ultimately show ?thesis
    using vmm_unmap_range_after_map_range [of mu_0 vmm_0 "0xC1000000" "0x1000000" 2 True, OF vmm_0_wf(1)]
    by (simp add: page_aligned_def page_of_def vmm_0_wf(2) mappable_def has_table_def) blast
qed

text \<open>
  The parameter \<^verbatim>\<open>writable\<close> of \<^verbatim>\<open>Map\<close> has no effect: asking for a read-only page gives the very state
  that asking for a writable one gives.
\<close>

theorem vmm_map_ignores_writable:
  "VMM_Map mu va pa False s = VMM_Map mu va pa True s"
  unfolding VMM_Map_def Map_directory_entry_def PTE_SetWritable_def PDE_SetWritable_def ..

text \<open>
  After \<^verbatim>\<open>Init\<close> the invariant holds and no page is mapped.
\<close>

theorem vmm_init_empty:
  assumes "VMM_Init bi s = (ok, s')" and "vmm_place mu s'"
  shows "ok \<and> vmm_wf mu s' \<and> vmm_mapping mu s' = Map.empty"
  by (rule VMM_Init_wf [OF assms])

theorem vmm_init_empty_witness:
  "vmm_wf mu_0 (snd (VMM_Init (undefined\<lparr>KernelVirtualStartAddress := 0xC0000000\<rparr>) vmm_0))"
  using vmm_init_empty [OF prod.collapse [symmetric],
      of mu_0 "undefined\<lparr>KernelVirtualStartAddress := 0xC0000000\<rparr>" vmm_0]
  by (simp add: VMM_Init_def vmm_place_def vmm_0_def mu_0_def)

end
