(* ===== verification/VirtAlloc.thy ===== *)
theory VirtAlloc
  imports PhysMem VirtMem
begin

text \<open>
  \<^verbatim>\<open>Kernel/Memory/VirtualMemoryAllocator.{h,cpp}\<close>: pages of kernel address space, each backed by a
  frame of the physical manager and mapped by the virtual memory manager. The class reaches both
  through the globals \<^verbatim>\<open>g_KernelPMM\<close> and \<^verbatim>\<open>g_KernelVMM\<close>, so its operations act on the record of the
  three objects together with the static fields of \<^verbatim>\<open>MemoryUtil\<close>. A result \<open>None\<close> is a wild table
  pointer inside the virtual memory manager, which the invariant excludes.
\<close>

section \<open>State\<close>

datatype VirtualPageState = VirtualPageFree | VirtualPageReserved

record vma =
  vma_PageSize :: u32
  vma_MemorySizeBytes :: u32
  vma_PageCount :: u32
  vma_StartAddress :: u32
  vma_EndAddress :: u32
  vma_Bitmap :: bitmap

record memory_state =
  k_MemoryUtil :: memory_util
  g_KernelPMM :: pmm
  g_KernelVMM :: vmm
  g_KernelVMA :: vma

section \<open>Operations\<close>

definition VMA_AddressToPageNumber :: "vma \<Rightarrow> u32 \<Rightarrow> u32" where
  "VMA_AddressToPageNumber v address = (address - vma_StartAddress v) div vma_PageSize v"

definition VMA_PageNumberToAddress :: "vma \<Rightarrow> u32 \<Rightarrow> u32" where
  "VMA_PageNumberToAddress v pageNumber = vma_StartAddress v + pageNumber * vma_PageSize v"

definition VMA_Init :: "u32 \<Rightarrow> u32 \<Rightarrow> vma \<Rightarrow> bool \<times> vma" where
  "VMA_Init startAddress sizeBytes v =
     (let endAddress = startAddress + sizeBytes; memorySize = endAddress - startAddress
      in (True, v\<lparr>vma_PageSize := 4096, vma_StartAddress := startAddress, vma_EndAddress := endAddress,
                  vma_MemorySizeBytes := memorySize, vma_PageCount := memorySize div 4096,
                  vma_Bitmap := Bitmap_ResetAll (vma_Bitmap v)\<rparr>))"

definition VMA_AllocatePages :: "u32 \<Rightarrow> memory_state \<Rightarrow> (u32 \<times> memory_state) option" where
  "VMA_AllocatePages pageCount k =
     (if pageCount = 0 then Some (0, k)
      else let firstPage = Bitmap_FindUnsetBits (vma_Bitmap (g_KernelVMA k)) pageCount
           in if sint firstPage < 0 then Some (0, k)
              else let (paddr, pm) = PMM_AllocatePages pageCount (g_KernelPMM k);
                       k1 = k\<lparr>g_KernelPMM := pm\<rparr>
                   in if paddr = 0 then Some (0, k1)
                      else let v = g_KernelVMA k1;
                               k2 = k1\<lparr>g_KernelVMA :=
                                 v\<lparr>vma_Bitmap := Bitmap_SetBits firstPage pageCount (vma_Bitmap v)\<rparr>\<rparr>;
                               vaddr = VMA_PageNumberToAddress (g_KernelVMA k2) firstPage
                           in case VMM_MapRange (k_MemoryUtil k2) vaddr paddr True pageCount (g_KernelVMM k2) of
                                None \<Rightarrow> None
                              | Some (ok, vm) \<Rightarrow>
                                  Some (if \<not> ok then 0 else vaddr, k2\<lparr>g_KernelVMM := vm\<rparr>))"

definition VMA_AllocatePage :: "memory_state \<Rightarrow> (u32 \<times> memory_state) option" where
  "VMA_AllocatePage k = VMA_AllocatePages 1 k"

text \<open>The second guard of \<^verbatim>\<open>FreePages\<close> tests \<^verbatim>\<open>address\<close> again, so it never fires.\<close>

definition VMA_FreePages :: "u32 \<Rightarrow> u32 \<Rightarrow> memory_state \<Rightarrow> (bool \<times> memory_state) option" where
  "VMA_FreePages address pageCount k =
     (if address = 0 then Some (True, k)
      else case VMM_GetPhysicalAddress (k_MemoryUtil k) address (g_KernelVMM k) of
        None \<Rightarrow> None
      | Some physicalAddress \<Rightarrow>
          (if address = 0 then Some (False, k)
           else case VMM_UnmapRange (k_MemoryUtil k) address pageCount (g_KernelVMM k) of
             None \<Rightarrow> None
           | Some (ok, vm) \<Rightarrow>
               (let k1 = k\<lparr>g_KernelVMM := vm\<rparr>
                in if \<not> ok then Some (False, k1)
                   else let k2 = k1\<lparr>g_KernelPMM := PMM_FreePages physicalAddress pageCount (g_KernelPMM k1)\<rparr>;
                            v = g_KernelVMA k2
                        in Some (True, k2\<lparr>g_KernelVMA := v\<lparr>vma_Bitmap :=
                             Bitmap_ClearBits (VMA_AddressToPageNumber v address) pageCount
                               (vma_Bitmap v)\<rparr>\<rparr>))))"

definition VMA_FreePage :: "u32 \<Rightarrow> memory_state \<Rightarrow> (bool \<times> memory_state) option" where
  "VMA_FreePage address k = VMA_FreePages address 1 k"

definition VMA_ReservePages :: "u32 \<Rightarrow> u32 \<Rightarrow> vma \<Rightarrow> vma" where
  "VMA_ReservePages address pageCount v =
     v\<lparr>vma_Bitmap := Bitmap_SetBits (VMA_AddressToPageNumber v address) pageCount (vma_Bitmap v)\<rparr>"

definition VMA_ReservePage :: "u32 \<Rightarrow> vma \<Rightarrow> vma" where
  "VMA_ReservePage address v = VMA_ReservePages address 1 v"

definition VMA_GetPageSize :: "vma \<Rightarrow> u32" where
  "VMA_GetPageSize v = vma_PageSize v"

definition VMA_SetRegionState :: "u32 \<Rightarrow> u32 \<Rightarrow> VirtualPageState \<Rightarrow> vma \<Rightarrow> vma" where
  "VMA_SetRegionState address sizeBytes state v =
     (let pageNumber = VMA_AddressToPageNumber v address; pageCount = sizeBytes div vma_PageSize v
      in case state of
           VirtualPageFree \<Rightarrow> v\<lparr>vma_Bitmap := Bitmap_ClearBits pageNumber pageCount (vma_Bitmap v)\<rparr>
         | VirtualPageReserved \<Rightarrow> v\<lparr>vma_Bitmap := Bitmap_SetBits pageNumber pageCount (vma_Bitmap v)\<rparr>)"

section \<open>The invariant of the three allocators together\<close>

abbreviation vma_size :: "vma \<Rightarrow> nat" where
  "vma_size v \<equiv> unat (TSize (vma_Bitmap v))"

abbreviation vpage_taken :: "vma \<Rightarrow> nat \<Rightarrow> bool" where
  "vpage_taken v \<equiv> bitmap_bits (vma_Bitmap v)"

abbreviation vma_base :: "vma \<Rightarrow> nat" where
  "vma_base v \<equiv> page_of (vma_StartAddress v)"

abbreviation kernel_mapping :: "memory_state \<Rightarrow> nat \<rightharpoonup> u32" where
  "kernel_mapping k \<equiv> vmm_mapping (k_MemoryUtil k) (g_KernelVMM k)"

definition vma_wf :: "vma \<Rightarrow> bool" where
  "vma_wf v \<longleftrightarrow> bitmap_wf (vma_Bitmap v) \<and> vma_PageSize v = 4096 \<and>
     page_aligned (vma_StartAddress v) \<and> vma_StartAddress v \<noteq> 0 \<and>
     vma_base v + vma_size v \<le> 1048576"

text \<open>Every page the bitmap has as free has a table and is not mapped.\<close>

definition free_unmapped :: "vma \<Rightarrow> (nat \<rightharpoonup> u32) \<Rightarrow> bool" where
  "free_unmapped v m \<longleftrightarrow> (\<forall>i < vma_size v. \<not> vpage_taken v i \<longrightarrow> mappable m (vma_base v + i))"

definition memory_inv :: "memory_state \<Rightarrow> bool" where
  "memory_inv k \<longleftrightarrow> pmm_wf (g_KernelPMM k) \<and> page_aligned (pmm_StartAddress (g_KernelPMM k)) \<and>
     vmm_wf (k_MemoryUtil k) (g_KernelVMM k) \<and> vma_wf (g_KernelVMA k) \<and>
     free_unmapped (g_KernelVMA k) (kernel_mapping k)"

lemma memory_invD:
  assumes "memory_inv k"
  shows "pmm_wf (g_KernelPMM k)" and "page_aligned (pmm_StartAddress (g_KernelPMM k))"
    and "vmm_wf (k_MemoryUtil k) (g_KernelVMM k)" and "vma_wf (g_KernelVMA k)"
    and "free_unmapped (g_KernelVMA k) (kernel_mapping k)"
  using assms by (auto simp: memory_inv_def)

lemma vma_wfD:
  "vma_wf v \<Longrightarrow> bitmap_wf (vma_Bitmap v)" "vma_wf v \<Longrightarrow> vma_PageSize v = 4096"
  "vma_wf v \<Longrightarrow> page_aligned (vma_StartAddress v)" "vma_wf v \<Longrightarrow> vma_StartAddress v \<noteq> 0"
  "vma_wf v \<Longrightarrow> vma_base v + vma_size v \<le> 1048576"
  by (auto simp: vma_wf_def)

lemma vma_wf_bitmap_update:
  "vma_wf v \<Longrightarrow> bitmap_wf b \<Longrightarrow> TSize b = TSize (vma_Bitmap v) \<Longrightarrow> vma_wf (v\<lparr>vma_Bitmap := b\<rparr>)"
  by (simp add: vma_wf_def)

text \<open>The address of a page of the allocator.\<close>

lemma aligned_page_address:
  "page_aligned a \<Longrightarrow> page_aligned (a + of_nat r * 4096)"
proof -
  have "unat (of_nat r * 4096 :: u32) mod 4096 = 0"
    unfolding unat_mult_wrap by (simp add: mod_mod_cancel)
  then show "page_aligned a \<Longrightarrow> page_aligned (a + of_nat r * 4096)"
    by (simp add: page_aligned_def aligned_sum)
qed

lemma vma_page_address:
  assumes "vma_wf v" and "r < vma_size v"
  shows "page_of (vma_StartAddress v + of_nat r * 4096) = vma_base v + r"
    and "vma_StartAddress v + of_nat r * 4096 \<noteq> 0"
proof -
  have r: "r < 1048576" "vma_base v + r < 1048576" using vma_wfD(5) [OF assms(1)] assms(2) by auto
  have "unat (vma_StartAddress v + of_nat r * 4096) = (vma_base v + r) * 4096"
    using aligned_unat [OF vma_wfD(3) [OF assms(1)]] r page_address_unat [OF r(1)]
    by (simp add: unat_add_no_wrap)
  then show "page_of (vma_StartAddress v + of_nat r * 4096) = vma_base v + r"
    by (simp add: page_of_def)
  have "unat (vma_StartAddress v) \<noteq> 0" using vma_wfD(4) [OF assms(1)] by (simp add: unat_eq_0)
  then have "0 < vma_base v" using aligned_unat [OF vma_wfD(3) [OF assms(1)]] by (cases "vma_base v") auto
  with \<open>unat (vma_StartAddress v + of_nat r * 4096) = (vma_base v + r) * 4096\<close>
  show "vma_StartAddress v + of_nat r * 4096 \<noteq> 0" by auto
qed

section \<open>Allocation\<close>

lemma PMM_AllocatePages_aligned:
  assumes "pmm_wf p" and "page_aligned (pmm_StartAddress p)"
  shows "page_aligned (fst (PMM_AllocatePages n p))"
proof -
  have "page_aligned (pmm_StartAddress p + x * 4096)" for x :: u32
    using aligned_page_address [OF assms(2), of "unat x"] by simp
  moreover have "page_aligned 0" by (simp add: page_aligned_def)
  ultimately show ?thesis
    by (simp add: PMM_AllocatePages_def PMM_PageNumberToAddress_def Let_def pmm_wfD(2) [OF assms(1)])
qed

lemma free_unmapped_take:
  assumes "vma_wf v" and "free_unmapped v m" and "0 < n"
    and "first_run (vma_size v) (vpage_taken v) (unat n) = Some r"
  shows "free_unmapped (v\<lparr>vma_Bitmap := Bitmap_SetBits (of_nat r) n (vma_Bitmap v)\<rparr>)
      (range_map (vma_base v + r) (unat n) pa m)"
    and "i < unat n \<Longrightarrow> mappable m (vma_base v + (r + i))"
proof -
  note wf = vma_wfD(1) [OF assms(1)]
  note found = rs.find_run [OF wf assms(3,4)]
  note taken = rs.take_run [OF wf assms(3,4)]
  have bits: "bitmap_bits (Bitmap_SetBits (of_nat r) n (vma_Bitmap v)) i \<longleftrightarrow>
      vpage_taken v i \<or> r \<le> i \<and> i < r + unat n" for i
    using taken(2) found(1) by simp
  show "free_unmapped (v\<lparr>vma_Bitmap := Bitmap_SetBits (of_nat r) n (vma_Bitmap v)\<rparr>)
      (range_map (vma_base v + r) (unat n) pa m)"
    using assms(2) wf by (auto simp: free_unmapped_def bits range_map_def mappable_def)
  show "i < unat n \<Longrightarrow> mappable m (vma_base v + (r + i))"
    using assms(2) taken(1) found(3) by (simp add: free_unmapped_def)
qed

text \<open>Whenever the physical manager delivers an address, the allocation goes through.\<close>

lemma VMA_AllocatePages_backed:
  assumes k: "memory_inv k" and n: "0 < n"
    and run: "first_run (vma_size (g_KernelVMA k)) (vpage_taken (g_KernelVMA k)) (unat n) = Some r"
    and pm: "PMM_AllocatePages n (g_KernelPMM k) = (paddr, pm)" and paddr: "paddr \<noteq> 0"
  obtains k' where
    "VMA_AllocatePages n k = Some (vma_StartAddress (g_KernelVMA k) + of_nat r * 4096, k')"
    and "memory_inv k'" and "g_KernelPMM k' = pm" and "k_MemoryUtil k' = k_MemoryUtil k"
    and "g_KernelVMA k' = (g_KernelVMA k)\<lparr>vma_Bitmap :=
      Bitmap_SetBits (of_nat r) n (vma_Bitmap (g_KernelVMA k))\<rparr>"
    and "kernel_mapping k' =
      range_map (vma_base (g_KernelVMA k) + r) (unat n) paddr (kernel_mapping k)"
proof -
  let ?v = "g_KernelVMA k"
  let ?va = "vma_StartAddress ?v + of_nat r * 4096"
  let ?v' = "?v\<lparr>vma_Bitmap := Bitmap_SetBits (of_nat r) n (vma_Bitmap ?v)\<rparr>"
  note inv = memory_invD [OF k]
  note wf = vma_wfD [OF inv(4)]
  note found = rs.find_run [OF wf(1) n run]
  have "0 < unat n" using n by (simp add: word_less_nat_alt)
  with found(3) have r: "r < vma_size ?v" by simp
  note va = vma_page_address [OF inv(4) r]
  have al: "page_aligned ?va" "page_aligned paddr"
    using aligned_page_address [OF wf(3)] PMM_AllocatePages_aligned [OF inv(1,2), of n] pm by auto
  have mappable: "mappable (kernel_mapping k) (page_of ?va + i)" if "i < unat n" for i
    using free_unmapped_take(2) [OF inv(4,5) n run that] va(1) by (simp add: add.assoc)
  have in_range: "page_of ?va + unat n \<le> 1048576" using va(1) found(3) wf(5) by simp
  obtain vm where vm: "VMM_MapRange (k_MemoryUtil k) ?va paddr True n (g_KernelVMM k) = Some (True, vm)"
      "vmm_wf (k_MemoryUtil k) vm"
      "vmm_mapping (k_MemoryUtil k) vm = range_map (page_of ?va) (unat n) paddr (kernel_mapping k)"
    using vm.map_range_ok [OF inv(3) al in_range mappable] by blast
  let ?k' = "k\<lparr>g_KernelPMM := pm, g_KernelVMA := ?v', g_KernelVMM := vm\<rparr>"
  have run_eq: "VMA_AllocatePages n k = Some (?va, ?k')"
    using n found(1,4) pm paddr vm(1) wf(2)
    by (auto simp: VMA_AllocatePages_def VMA_PageNumberToAddress_def Let_def)
  have pm': "pmm_wf pm" "pmm_StartAddress pm = pmm_StartAddress (g_KernelPMM k)"
    using pmm_wf_AllocatePages [OF inv(1), of n] pmm_fields(4) [of n "g_KernelPMM k"] pm by auto
  have "vma_wf ?v'" using inv(4) wf(1) by (intro vma_wf_bitmap_update) auto
  moreover have "free_unmapped ?v' (kernel_mapping ?k')"
    using free_unmapped_take(1) [OF inv(4,5) n run, of paddr] vm(3) va(1) by simp
  ultimately have "memory_inv ?k'"
    using inv pm' vm(2) by (simp add: memory_inv_def)
  then show ?thesis
    using run_eq vm(3) va(1) by (intro that [of ?k']) simp_all
qed

definition VMA_ready :: "u32 \<Rightarrow> memory_state \<Rightarrow> bool" where
  "VMA_ready n k \<longleftrightarrow> fst (PMM_AllocatePages n (g_KernelPMM k)) \<noteq> 0"

interpretation va: page_allocator VMA_AllocatePages "\<lambda>k. vma_StartAddress (g_KernelVMA k)"
  "\<lambda>k. vma_size (g_KernelVMA k)" "\<lambda>k. vpage_taken (g_KernelVMA k)" memory_inv VMA_ready
proof
  fix k :: memory_state and n :: u32 and r
  let ?v = "g_KernelVMA k"
  assume a: "memory_inv k" "0 < n" "VMA_ready n k"
    and run: "first_run (vma_size ?v) (vpage_taken ?v) (unat n) = Some r"
  note wf = vma_wfD(1) [OF memory_invD(4) [OF a(1)]]
  obtain k' where k': "VMA_AllocatePages n k = Some (vma_StartAddress ?v + of_nat r * 4096, k')"
      "memory_inv k'" "g_KernelVMA k' = ?v\<lparr>vma_Bitmap := Bitmap_SetBits (of_nat r) n (vma_Bitmap ?v)\<rparr>"
    using VMA_AllocatePages_backed [OF a(1,2) run prod.collapse [symmetric]] a(3)
    by (auto simp: VMA_ready_def)
  with rs.take_run(2) [OF wf a(2) run] rs.find_run(1) [OF wf a(2) run] wf
  show "\<exists>k'. VMA_AllocatePages n k = Some (vma_StartAddress ?v + of_nat r * 4096, k') \<and> memory_inv k' \<and>
      vma_StartAddress (g_KernelVMA k') = vma_StartAddress ?v \<and> vma_size (g_KernelVMA k') = vma_size ?v \<and>
      (\<forall>i. vpage_taken (g_KernelVMA k') i \<longleftrightarrow> vpage_taken ?v i \<or> r \<le> i \<and> i < r + unat n)"
    by (intro exI [of _ k']) simp
qed

section \<open>Freeing\<close>

lemma unmap_map_range:
  assumes "\<And>i. i < n \<Longrightarrow> mappable m (p + i)"
  shows "range_unmap p n (range_map p n pa m) = m"
proof
  fix q
  show "range_unmap p n (range_map p n pa m) q = m q"
    using assms [of "q - p"] by (auto simp: range_unmap_def range_map_def mappable_def)
qed

lemma VMA_FreePages_eq:
  assumes "memory_inv k" and "page_aligned a" and "a \<noteq> 0" and "page_of a + unat n \<le> 1048576"
  obtains vm j where "j \<le> unat n" and "vmm_wf (k_MemoryUtil k) vm"
    and "vmm_mapping (k_MemoryUtil k) vm = range_unmap (page_of a) j (kernel_mapping k)"
    and "\<forall>i<j. kernel_mapping k (page_of a + i) \<noteq> None"
    and "j < unat n \<Longrightarrow> kernel_mapping k (page_of a + j) = None"
    and "VMA_FreePages a n k = Some (if j = unat n
      then (True, k\<lparr>g_KernelVMM := vm,
          g_KernelPMM := PMM_FreePages
            (case kernel_mapping k (page_of a) of None \<Rightarrow> 0 | Some pa \<Rightarrow> pa) n (g_KernelPMM k),
          g_KernelVMA := (g_KernelVMA k)\<lparr>vma_Bitmap := Bitmap_ClearBits
            (VMA_AddressToPageNumber (g_KernelVMA k) a) n (vma_Bitmap (g_KernelVMA k))\<rparr>\<rparr>)
      else (False, k\<lparr>g_KernelVMM := vm\<rparr>))"
proof -
  note wf = memory_invD(3) [OF assms(1)]
  obtain ok vm j where u: "VMM_UnmapRange (k_MemoryUtil k) a n (g_KernelVMM k) = Some (ok, vm)"
      "vmm_wf (k_MemoryUtil k) vm" "j \<le> unat n" "ok \<longleftrightarrow> j = unat n"
      "vmm_mapping (k_MemoryUtil k) vm = range_unmap (page_of a) j (kernel_mapping k)"
      "\<forall>i<j. kernel_mapping k (page_of a + i) \<noteq> None"
      "j < unat n \<longrightarrow> kernel_mapping k (page_of a + j) = None"
    using vm.unmap_range_law [OF wf assms(2,4)] by blast
  have "VMA_FreePages a n k = Some (if j = unat n
      then (True, k\<lparr>g_KernelVMM := vm,
          g_KernelPMM := PMM_FreePages
            (case kernel_mapping k (page_of a) of None \<Rightarrow> 0 | Some pa \<Rightarrow> pa) n (g_KernelPMM k),
          g_KernelVMA := (g_KernelVMA k)\<lparr>vma_Bitmap := Bitmap_ClearBits
            (VMA_AddressToPageNumber (g_KernelVMA k) a) n (vma_Bitmap (g_KernelVMA k))\<rparr>\<rparr>)
      else (False, k\<lparr>g_KernelVMM := vm\<rparr>))"
    using u(1,4) assms(3) vm.phys_law [OF wf assms(2)] by (simp add: VMA_FreePages_def Let_def)
  with u show ?thesis by (intro that [of j vm]) auto
qed

lemma VMA_FreePages_ok:
  assumes k: "memory_inv k" and n: "0 < n" and r: "r + unat n \<le> vma_size (g_KernelVMA k)"
    and a: "a = vma_StartAddress (g_KernelVMA k) + of_nat r * 4096"
    and mapped: "\<And>i. i < unat n \<Longrightarrow>
      kernel_mapping k (vma_base (g_KernelVMA k) + r + i) = Some (pa + of_nat i * 4096)"
    and pa: "pa = pmm_StartAddress (g_KernelPMM k) + of_nat t * 4096" "pa \<noteq> 0"
    and t: "t + unat n \<le> pmm_size (g_KernelPMM k)"
  obtains k' where "VMA_FreePages a n k = Some (True, k')" and "memory_inv k'"
    and "kernel_mapping k' = range_unmap (vma_base (g_KernelVMA k) + r) (unat n) (kernel_mapping k)"
    and "\<forall>i. vpage_taken (g_KernelVMA k') i \<longleftrightarrow>
      vpage_taken (g_KernelVMA k) i \<and> \<not> (r \<le> i \<and> i < r + unat n)"
    and "\<forall>i. page_taken (g_KernelPMM k') i \<longleftrightarrow>
      page_taken (g_KernelPMM k) i \<and> \<not> (t \<le> i \<and> i < t + unat n)"
proof -
  let ?v = "g_KernelVMA k"
  note inv = memory_invD [OF k]
  note wf = vma_wfD [OF inv(4)]
  have n': "0 < unat n" using n by (simp add: word_less_nat_alt)
  with r have r': "r < vma_size ?v" by simp
  note va = vma_page_address [OF inv(4) r', folded a]
  have al: "page_aligned a" using aligned_page_address [OF wf(3)] a by simp
  have le: "page_of a + unat n \<le> 1048576" using va(1) r wf(5) by simp
  obtain vm j where f: "j \<le> unat n" "vmm_wf (k_MemoryUtil k) vm"
      "vmm_mapping (k_MemoryUtil k) vm = range_unmap (page_of a) j (kernel_mapping k)"
      "j < unat n \<Longrightarrow> kernel_mapping k (page_of a + j) = None"
      "VMA_FreePages a n k = Some (if j = unat n
        then (True, k\<lparr>g_KernelVMM := vm,
            g_KernelPMM := PMM_FreePages
              (case kernel_mapping k (page_of a) of None \<Rightarrow> 0 | Some pa \<Rightarrow> pa) n (g_KernelPMM k),
            g_KernelVMA := ?v\<lparr>vma_Bitmap := Bitmap_ClearBits
              (VMA_AddressToPageNumber ?v a) n (vma_Bitmap ?v)\<rparr>\<rparr>)
        else (False, k\<lparr>g_KernelVMM := vm\<rparr>))"
    using VMA_FreePages_eq [OF k al va(2) le] by metis
  have j: "j = unat n" using f(1,4) mapped [of j] va(1) by (cases "j < unat n") auto
  have first: "kernel_mapping k (page_of a) = Some pa" using mapped [OF n'] va(1) by simp
  have num: "VMA_AddressToPageNumber ?v a = of_nat r"
    using page_round_trip [of r] r' wf(2,5) a by (simp add: VMA_AddressToPageNumber_def)
  let ?v' = "?v\<lparr>vma_Bitmap := Bitmap_ClearBits (of_nat r) n (vma_Bitmap ?v)\<rparr>"
  let ?p' = "PMM_FreePages pa n (g_KernelPMM k)"
  let ?k' = "k\<lparr>g_KernelVMM := vm, g_KernelPMM := ?p', g_KernelVMA := ?v'\<rparr>"
  have run: "VMA_FreePages a n k = Some (True, ?k')" using f(5) j first num by simp
  have ur: "unat (of_nat r :: u32) = r" using r' wf(5) by (simp add: unat_of_nat32)
  have vt: "bitmap_bits (Bitmap_ClearBits (of_nat r) n (vma_Bitmap ?v)) i \<longleftrightarrow>
      vpage_taken ?v i \<and> \<not> (r \<le> i \<and> i < r + unat n)" for i
    using rs.bits_clearr [OF wf(1), of "of_nat r" n i] ur r by simp
  have pt: "page_taken ?p' i \<longleftrightarrow> page_taken (g_KernelPMM k) i \<and> \<not> (t \<le> i \<and> i < t + unat n)" for i
    by (rule page_taken_FreePages [OF inv(1) pa(2,1) t])
  have map': "vmm_mapping (k_MemoryUtil k) vm = range_unmap (vma_base ?v + r) (unat n) (kernel_mapping k)"
    using f(3) j va(1) by simp
  have table: "has_table (vma_base ?v + i)" if "r \<le> i" "i < r + unat n" for i
    using mapped [of "i - r"] that mapped_iff [OF inv(3), of "vma_base ?v + i"] by simp
  have "free_unmapped ?v' (vmm_mapping (k_MemoryUtil k) vm)"
    using inv(5) wf(1) table by (auto simp: free_unmapped_def vt map' range_unmap_def mappable_def)
  moreover have "vma_wf ?v'" using inv(4) wf(1) by (intro vma_wf_bitmap_update) auto
  ultimately have "memory_inv ?k'" using inv f(2) by (simp add: memory_inv_def)
  then show ?thesis using run vt pt map' by (intro that [of ?k']) simp_all
qed

section \<open>Properties\<close>

text \<open>
  The instance of the witnesses: the 16 frames of \<open>pmm_16\<close> (three taken), nothing mapped, and 32 free
  pages of address space from \<^verbatim>\<open>0xC1000000\<close> on.
\<close>

definition vma_32 :: vma where
  "vma_32 = \<lparr>vma_PageSize = 4096, vma_MemorySizeBytes = 0x20000, vma_PageCount = 32,
     vma_StartAddress = 0xC1000000, vma_EndAddress = 0xC1020000,
     vma_Bitmap = \<lparr>TSize = 32, m_Bits = replicate 32 0\<rparr>\<rparr>"

definition memory_0 :: memory_state where
  "memory_0 = \<lparr>k_MemoryUtil = mu_0, g_KernelPMM = pmm_16, g_KernelVMM = vmm_0, g_KernelVMA = vma_32\<rparr>"

lemma vma_32_wf: "vma_wf vma_32"
  by (simp add: vma_wf_def vma_32_def bitmap_wf_def page_aligned_def page_of_def)

lemma upper_pages_have_table: "786432 \<le> p \<Longrightarrow> p < 1048576 \<Longrightarrow> has_table p"
  using div_le_mono [of 786432 p 1024] by (simp add: has_table_def)

lemma memory_0_inv: "memory_inv memory_0"
proof -
  have "has_table (vma_base vma_32 + i)" if "i < 32" for i
    using that by (intro upper_pages_have_table) (simp_all add: vma_32_def page_of_def)
  then have "free_unmapped vma_32 Map.empty"
    by (auto simp: free_unmapped_def mappable_def vma_32_def)
  then show ?thesis
    using pmm_16_wf vmm_0_wf vma_32_wf
    by (simp add: memory_inv_def memory_0_def page_aligned_def) (simp add: pmm_16_def)
qed

lemma memory_0_run:
  "first_run (vma_size (g_KernelVMA memory_0)) (vpage_taken (g_KernelVMA memory_0)) 4 = Some 0"
proof -
  have "first_run 32 (vpage_taken vma_32) 4 = Some 0" by code_simp
  then show ?thesis by (simp add: memory_0_def vma_32_def)
qed

text \<open>
  C5: When the bitmap has a run of \<^verbatim>\<open>pageCount\<close> free pages and the physical manager delivers frames,
  \<^verbatim>\<open>AllocatePages\<close> returns the address of the first such run, every page of it now maps to the frames in
  order, no other page of the kernel mapping changes, the pages become taken, and the invariant that
  links the three managers is kept.
\<close>

theorem vma_allocate_maps_first_free_run:
  assumes "memory_inv k" and "0 < n"
    and "first_run (vma_size (g_KernelVMA k)) (vpage_taken (g_KernelVMA k)) (unat n) = Some r"
    and "PMM_AllocatePages n (g_KernelPMM k) = (paddr, pm)" and "paddr \<noteq> 0"
  shows "\<exists>k'. VMA_AllocatePages n k = Some (vma_StartAddress (g_KernelVMA k) + of_nat r * 4096, k') \<and>
    memory_inv k' \<and> g_KernelPMM k' = pm \<and>
    kernel_mapping k' = range_map (vma_base (g_KernelVMA k) + r) (unat n) paddr (kernel_mapping k) \<and>
    (\<forall>i. vpage_taken (g_KernelVMA k') i \<longleftrightarrow>
      vpage_taken (g_KernelVMA k) i \<or> r \<le> i \<and> i < r + unat n)"
proof -
  note wf = vma_wfD(1) [OF memory_invD(4) [OF assms(1)]]
  obtain k' where "VMA_AllocatePages n k = Some (vma_StartAddress (g_KernelVMA k) + of_nat r * 4096, k')"
      "memory_inv k'" "g_KernelPMM k' = pm" "vma_Bitmap (g_KernelVMA k') =
      Bitmap_SetBits (of_nat r) n (vma_Bitmap (g_KernelVMA k))"
      "kernel_mapping k' = range_map (vma_base (g_KernelVMA k) + r) (unat n) paddr (kernel_mapping k)"
    by (rule VMA_AllocatePages_backed [OF assms]) simp
  then show ?thesis
    using rs.take_run(2) [OF wf assms(2,3)] rs.find_run(1) [OF wf assms(2,3)] by simp
qed

theorem vma_allocate_maps_first_free_run_witness:
  "\<exists>k'. VMA_AllocatePages 4 memory_0 = Some (0xC1000000, k') \<and>
     kernel_mapping k' = range_map 0xC1000 4 0x103000 Map.empty"
proof -
  have p: "PMM_AllocatePages 4 (g_KernelPMM memory_0) = (0x103000, snd (PMM_AllocatePages 4 pmm_16))"
    unfolding memory_0_def by (rule prod_eqI; simp; code_simp)
  show ?thesis
    using vma_allocate_maps_first_free_run [OF memory_0_inv, of 4 0, OF _ _ p] memory_0_run
    by (auto simp: memory_0_def vma_32_def page_of_def vmm_0_wf(2))
qed

lemma memory_0_pages:
  "PMM_AllocatePages 4 (g_KernelPMM memory_0) = (0x103000, snd (PMM_AllocatePages 4 pmm_16))"
  unfolding memory_0_def by (rule prod_eqI; simp; code_simp)

text \<open>
  C13: Freeing the pages that were just allocated succeeds and undoes the allocation: the taken pages of
  both bitmaps and the kernel mapping are what they were before.
\<close>

theorem vma_free_after_allocate:
  assumes k: "memory_inv k" and n: "0 < n"
    and run: "first_run (vma_size (g_KernelVMA k)) (vpage_taken (g_KernelVMA k)) (unat n) = Some r"
    and frames: "pmm_first_run (g_KernelPMM k) n = Some t"
    and pa: "pmm_StartAddress (g_KernelPMM k) + of_nat t * 4096 \<noteq> 0"
  shows "\<exists>va k1 k2. VMA_AllocatePages n k = Some (va, k1) \<and> VMA_FreePages va n k1 = Some (True, k2) \<and>
    memory_inv k2 \<and> kernel_mapping k2 = kernel_mapping k \<and>
    (\<forall>i. vpage_taken (g_KernelVMA k2) i \<longleftrightarrow> vpage_taken (g_KernelVMA k) i) \<and>
    (\<forall>i. page_taken (g_KernelPMM k2) i \<longleftrightarrow> page_taken (g_KernelPMM k) i)"
proof -
  let ?v = "g_KernelVMA k" and ?p = "g_KernelPMM k"
  let ?pa = "pmm_StartAddress ?p + of_nat t * 4096"
  note inv = memory_invD [OF k]
  note wf = vma_wfD(1) [OF inv(4)]
  note pm = PMM_AllocatePages_run [OF inv(1) n frames]
  have p_eq: "PMM_AllocatePages n ?p = (?pa, snd (PMM_AllocatePages n ?p))"
    using pm(1) by (simp add: prod_eq_iff)
  obtain k1 where k1: "VMA_AllocatePages n k = Some (vma_StartAddress ?v + of_nat r * 4096, k1)"
      "memory_inv k1" "g_KernelPMM k1 = snd (PMM_AllocatePages n ?p)"
      "g_KernelVMA k1 = ?v\<lparr>vma_Bitmap := Bitmap_SetBits (of_nat r) n (vma_Bitmap ?v)\<rparr>"
      "kernel_mapping k1 = range_map (vma_base ?v + r) (unat n) ?pa (kernel_mapping k)"
    by (rule VMA_AllocatePages_backed [OF k n run p_eq pa])
  have taken1: "vpage_taken (g_KernelVMA k1) i \<longleftrightarrow> vpage_taken ?v i \<or> r \<le> i \<and> i < r + unat n" for i
    using k1(4) rs.take_run(2) [OF wf n run] rs.find_run(1) [OF wf n run] by simp
  have r: "r + unat n \<le> vma_size (g_KernelVMA k1)"
    using k1(4) wf rs.find_run(3) [OF wf n run] by simp
  have mapped: "kernel_mapping k1 (vma_base (g_KernelVMA k1) + r + i) = Some (?pa + of_nat i * 4096)"
    if "i < unat n" for i using k1(4,5) that by (simp add: range_map_def)
  have frames1: "?pa = pmm_StartAddress (g_KernelPMM k1) + of_nat t * 4096"
      "t + unat n \<le> pmm_size (g_KernelPMM k1)"
    using k1(3) pm(4) inv(1) by simp_all
  obtain k2 where k2: "VMA_FreePages (vma_StartAddress ?v + of_nat r * 4096) n k1 = Some (True, k2)"
      "memory_inv k2"
      "kernel_mapping k2 = range_unmap (vma_base (g_KernelVMA k1) + r) (unat n) (kernel_mapping k1)"
      "\<forall>i. vpage_taken (g_KernelVMA k2) i \<longleftrightarrow>
        vpage_taken (g_KernelVMA k1) i \<and> \<not> (r \<le> i \<and> i < r + unat n)"
      "\<forall>i. page_taken (g_KernelPMM k2) i \<longleftrightarrow>
        page_taken (g_KernelPMM k1) i \<and> \<not> (t \<le> i \<and> i < t + unat n)"
    by (rule VMA_FreePages_ok [OF k1(2) n r _ mapped frames1(1) pa frames1(2)]) (simp add: k1(4))
  have "kernel_mapping k2 = kernel_mapping k"
    using unmap_map_range [of "unat n" "kernel_mapping k" "vma_base ?v + r" ?pa]
      free_unmapped_take(2) [OF inv(4,5) n run] k1(4,5) k2(3) by (simp add: add.assoc)
  moreover have "\<forall>i. vpage_taken (g_KernelVMA k2) i \<longleftrightarrow> vpage_taken ?v i"
    using k2(4) taken1 rs.take_run(1) [OF wf n run] by blast
  moreover have "\<forall>i. page_taken (g_KernelPMM k2) i \<longleftrightarrow> page_taken ?p i"
    using k2(5) k1(3) pm(2,3) by auto
  ultimately show ?thesis using k1(1) k2(1,2) by blast
qed

theorem vma_free_after_allocate_witness:
  "\<exists>va k1 k2. VMA_AllocatePages 4 memory_0 = Some (va, k1) \<and> VMA_FreePages va 4 k1 = Some (True, k2)"
proof -
  have "pmm_first_run (g_KernelPMM memory_0) 4 = Some 3" using pmm_16_run by (simp add: memory_0_def)
  moreover have "pmm_StartAddress (g_KernelPMM memory_0) + of_nat 3 * 4096 \<noteq> 0"
    by (simp add: memory_0_def pmm_16_def)
  ultimately show ?thesis
    using vma_free_after_allocate [OF memory_0_inv, of 4 0 3] memory_0_run by auto
qed

text \<open>
  Two allocations in a row that both find a run and frames never share a page of address space.
\<close>

theorem vma_allocations_disjoint:
  assumes "memory_inv k" and "0 < n" and "0 < m"
    and "fst (PMM_AllocatePages n (g_KernelPMM k)) \<noteq> 0"
    and "first_run (vma_size (g_KernelVMA k)) (vpage_taken (g_KernelVMA k)) (unat n) = Some r"
    and "VMA_AllocatePages n k = Some (a, k1)"
    and "fst (PMM_AllocatePages m (g_KernelPMM k1)) \<noteq> 0"
    and "first_run (vma_size (g_KernelVMA k1)) (vpage_taken (g_KernelVMA k1)) (unat m) = Some t"
  shows "\<exists>k2. VMA_AllocatePages m k1 = Some (vma_StartAddress (g_KernelVMA k) + of_nat t * 4096, k2) \<and>
    a = vma_StartAddress (g_KernelVMA k) + of_nat r * 4096 \<and>
    {r..<r + unat n} \<inter> {t..<t + unat m} = {}"
  using va.alloc_twice [OF assms(1-3) _ assms(5,6) _ assms(8)] assms(4,7) by (simp add: VMA_ready_def)

text \<open>The first allocation of the witnesses.\<close>

lemma memory_1:
  obtains k1 where "VMA_AllocatePages 4 memory_0 = Some (0xC1000000, k1)"
    and "g_KernelPMM k1 = snd (PMM_AllocatePages 4 pmm_16)" and "memory_inv k1"
    and "vma_Bitmap (g_KernelVMA k1) = Bitmap_SetBits 0 4 \<lparr>TSize = 32, m_Bits = replicate 32 0\<rparr>"
proof (rule VMA_AllocatePages_backed [OF memory_0_inv _ _ memory_0_pages, of 0])
qed (use memory_0_run in \<open>simp_all add: memory_0_def vma_32_def\<close>)

theorem vma_allocations_disjoint_witness:
  "\<exists>k1 k2. VMA_AllocatePages 4 memory_0 = Some (0xC1000000, k1) \<and>
     VMA_AllocatePages 2 k1 = Some (0xC1004000, k2)"
proof (rule memory_1)
  fix k1
  assume k1: "VMA_AllocatePages 4 memory_0 = Some (0xC1000000, k1)"
    "g_KernelPMM k1 = snd (PMM_AllocatePages 4 pmm_16)"
    "vma_Bitmap (g_KernelVMA k1) = Bitmap_SetBits 0 4 \<lparr>TSize = 32, m_Bits = replicate 32 0\<rparr>"
  have b: "TSize (Bitmap_SetBits 0 4 \<lparr>TSize = 32, m_Bits = replicate 32 0\<rparr>) = 32"
    "first_run 32 (bitmap_bits (Bitmap_SetBits 0 4 \<lparr>TSize = 32, m_Bits = replicate 32 0\<rparr>)) 2 = Some 4"
    by code_simp+
  have f: "fst (PMM_AllocatePages 4 (g_KernelPMM memory_0)) \<noteq> 0" by (simp add: memory_0_pages)
  have f1: "fst (PMM_AllocatePages 2 (g_KernelPMM k1)) \<noteq> 0" unfolding k1(2) by code_simp
  show ?thesis
    using vma_allocations_disjoint [OF memory_0_inv, of 4 2 0, OF _ _ f _ k1(1) f1, of 4] memory_0_run b k1
    by (simp add: memory_0_def vma_32_def)
qed

text \<open>
  When some page of the range is not mapped, \<^verbatim>\<open>FreePages\<close> returns false with the range half undone:
  the pages before the first unmapped one are unmapped, but their frames stay taken in the physical
  manager and their addresses stay taken in the bitmap.
\<close>

theorem vma_free_failure_leaks:
  assumes "memory_inv k" and "page_aligned a" and "a \<noteq> 0" and "page_of a + unat n \<le> 1048576"
    and "i < unat n" and "kernel_mapping k (page_of a + i) = None"
  shows "\<exists>k' j. VMA_FreePages a n k = Some (False, k') \<and> j \<le> i \<and>
    kernel_mapping k' = range_unmap (page_of a) j (kernel_mapping k) \<and>
    g_KernelPMM k' = g_KernelPMM k \<and> g_KernelVMA k' = g_KernelVMA k"
proof (rule VMA_FreePages_eq [OF assms(1-4)])
  fix vm j
  assume f: "vmm_mapping (k_MemoryUtil k) vm = range_unmap (page_of a) j (kernel_mapping k)"
    "\<forall>i<j. kernel_mapping k (page_of a + i) \<noteq> None"
    "VMA_FreePages a n k = Some (if j = unat n
      then (True, k\<lparr>g_KernelVMM := vm,
          g_KernelPMM := PMM_FreePages
            (case kernel_mapping k (page_of a) of None \<Rightarrow> 0 | Some pa \<Rightarrow> pa) n (g_KernelPMM k),
          g_KernelVMA := (g_KernelVMA k)\<lparr>vma_Bitmap := Bitmap_ClearBits
            (VMA_AddressToPageNumber (g_KernelVMA k) a) n (vma_Bitmap (g_KernelVMA k))\<rparr>\<rparr>)
      else (False, k\<lparr>g_KernelVMM := vm\<rparr>))"
  have "j \<le> i" using f(2) assms(6) by (meson not_le_imp_less)
  then show ?thesis using f assms(5) by (intro exI [of _ "k\<lparr>g_KernelVMM := vm\<rparr>"] exI [of _ j]) simp
qed

theorem vma_free_failure_leaks_witness:
  "\<exists>k'. VMA_FreePages 0xC1000000 2 memory_0 = Some (False, k') \<and> g_KernelPMM k' = pmm_16"
  using vma_free_failure_leaks [OF memory_0_inv, of "0xC1000000" 2 0]
  by (auto simp: memory_0_def page_aligned_def page_of_def vmm_0_wf(2))

text \<open>
  When physical memory has no run of the size asked for but the physical manager still returns an
  address (its last page is free), two allocations in a row both succeed and map two different ranges
  of kernel addresses to the same frames.
\<close>

theorem vma_aliases_frames_when_memory_is_short:
  assumes k: "memory_inv k" and n: "0 < n"
    and none: "pmm_first_run (g_KernelPMM k) n = None"
    and pa: "fst (PMM_AllocatePages n (g_KernelPMM k)) \<noteq> 0"
    and r: "first_run (vma_size (g_KernelVMA k)) (vpage_taken (g_KernelVMA k)) (unat n) = Some r"
    and t: "first_run (vma_size (g_KernelVMA k)) (\<lambda>i. vpage_taken (g_KernelVMA k) i \<or>
      r \<le> i \<and> i < r + unat n) (unat n) = Some t"
  shows "\<exists>a b k1 k2. VMA_AllocatePages n k = Some (a, k1) \<and> VMA_AllocatePages n k1 = Some (b, k2) \<and>
    a \<noteq> b \<and> a \<noteq> 0 \<and> b \<noteq> 0 \<and> (\<forall>i<unat n. kernel_mapping k2 (page_of a + i) \<noteq> None \<and>
      kernel_mapping k2 (page_of b + i) = kernel_mapping k2 (page_of a + i))"
proof -
  let ?v = "g_KernelVMA k" and ?pa = "fst (PMM_AllocatePages n (g_KernelPMM k))"
  let ?a = "vma_StartAddress ?v + of_nat r * 4096" and ?b = "vma_StartAddress ?v + of_nat t * 4096"
  note inv = memory_invD [OF k]
  note wf = vma_wfD(1) [OF inv(4)]
  have n': "0 < unat n" using n by (simp add: word_less_nat_alt)
  have p_eq: "PMM_AllocatePages n (g_KernelPMM k) = (?pa, g_KernelPMM k)"
    using PMM_AllocatePages_no_run [OF inv(1) n none] by simp
  obtain k1 where k1: "VMA_AllocatePages n k = Some (?a, k1)" "memory_inv k1"
      "g_KernelPMM k1 = g_KernelPMM k"
      "g_KernelVMA k1 = ?v\<lparr>vma_Bitmap := Bitmap_SetBits (of_nat r) n (vma_Bitmap ?v)\<rparr>"
      "kernel_mapping k1 = range_map (vma_base ?v + r) (unat n) ?pa (kernel_mapping k)"
    by (rule VMA_AllocatePages_backed [OF k n r p_eq pa])
  have bits1: "vpage_taken (g_KernelVMA k1) = (\<lambda>i. vpage_taken ?v i \<or> r \<le> i \<and> i < r + unat n)"
    using k1(4) rs.take_run(2) [OF wf n r] rs.find_run(1) [OF wf n r] by (simp add: fun_eq_iff)
  have size1: "vma_size (g_KernelVMA k1) = vma_size ?v" using k1(4) wf by simp
  have t1: "first_run (vma_size (g_KernelVMA k1)) (vpage_taken (g_KernelVMA k1)) (unat n) = Some t"
    using t unfolding bits1 size1 .
  obtain k2 where k2: "VMA_AllocatePages n k1 = Some (vma_StartAddress (g_KernelVMA k1) + of_nat t * 4096, k2)"
      "kernel_mapping k2 = range_map (vma_base (g_KernelVMA k1) + t) (unat n) ?pa (kernel_mapping k1)"
    by (rule VMA_AllocatePages_backed [OF k1(2) n t1 p_eq [folded k1(3)] pa [folded k1(3)]])
      (simp add: k1(3))
  note rn = rs.find_run(3) [OF wf n r]
  have tn: "t + unat n \<le> vma_size ?v" "\<And>i. t \<le> i \<Longrightarrow> i < t + unat n \<Longrightarrow> \<not> (r \<le> i \<and> i < r + unat n)"
    using t n' by (auto simp: first_run_Some_iff run_free_def)
  have page: "page_of ?a = vma_base ?v + r" "page_of ?b = vma_base ?v + t" "?a \<noteq> 0" "?b \<noteq> 0"
    using vma_page_address [OF inv(4)] rn tn(1) n' by auto
  have apart: "r + unat n \<le> t \<or> t + unat n \<le> r"
    using tn(2) [of t] tn(2) [of r] n' by linarith
  then have "?a \<noteq> ?b" using page(1,2) n' by (metis add_left_cancel add_leD1 le_antisym linorder_not_less less_add_same_cancel1)
  moreover have "kernel_mapping k2 (page_of ?a + i) = Some (?pa + of_nat i * 4096)"
    "kernel_mapping k2 (page_of ?b + i) = Some (?pa + of_nat i * 4096)" if "i < unat n" for i
    using that apart page(1,2) k1(4,5) k2(2) by (auto simp: range_map_def)
  ultimately show ?thesis using k1(1,4) k2(1) page(3,4)
    by (intro exI [of _ ?a] exI [of _ ?b] exI [of _ k1] exI [of _ k2]) simp
qed

lemma short_memory:
  "first_run (pmm_size pmm_16) (page_taken pmm_16) 14 = None" "fst (PMM_AllocatePages 14 pmm_16) \<noteq> 0"
  by code_simp+

lemma vma_32_free: "i < 32 \<Longrightarrow> \<not> vpage_taken vma_32 i"
  by (simp add: bitmap_bits_def vma_32_def)

lemma two_runs:
  "first_run 32 (vpage_taken vma_32) 14 = Some 0"
  "first_run 32 (\<lambda>i. vpage_taken vma_32 i \<or> 0 \<le> i \<and> i < 0 + 14) 14 = Some 14"
  using vma_32_free by (auto simp: first_run_Some_iff run_free_def)

theorem vma_aliases_frames_when_memory_is_short_witness:
  "\<exists>a b k1 k2. VMA_AllocatePages 14 memory_0 = Some (a, k1) \<and> VMA_AllocatePages 14 k1 = Some (b, k2) \<and>
     a \<noteq> b \<and> kernel_mapping k2 (page_of b) = kernel_mapping k2 (page_of a)"
proof -
  have c: "first_run (pmm_size pmm_16) (page_taken pmm_16) 14 = None" "fst (PMM_AllocatePages 14 pmm_16) \<noteq> 0"
    by (fact short_memory)+
  have d: "first_run 32 (vpage_taken vma_32) 14 = Some 0"
    "first_run 32 (\<lambda>i. vpage_taken vma_32 i \<or> 0 \<le> i \<and> i < 0 + 14) 14 = Some 14"
    by (fact two_runs)+
  have s: "vma_size vma_32 = 32" "g_KernelPMM memory_0 = pmm_16" "g_KernelVMA memory_0 = vma_32"
    by (simp_all add: memory_0_def vma_32_def)
  have n: "unat (14 :: u32) = 14" "(0 :: u32) < 14" by simp_all
  obtain a b k1 k2 where r: "VMA_AllocatePages 14 memory_0 = Some (a, k1)"
      "VMA_AllocatePages 14 k1 = Some (b, k2)" "a \<noteq> b"
      "\<forall>i<14. kernel_mapping k2 (page_of a + i) \<noteq> None \<and>
        kernel_mapping k2 (page_of b + i) = kernel_mapping k2 (page_of a + i)"
    using vma_aliases_frames_when_memory_is_short [OF memory_0_inv n(2), unfolded s n(1), OF c d] by (elim exE conjE) (rule that; assumption)
  from r(4) have "kernel_mapping k2 (page_of b + 0) = kernel_mapping k2 (page_of a + 0)"
    using zero_less_numeral by blast
  with r(1-3) show ?thesis by auto
qed

end
