(* ===== verification/Heap.thy ===== *)
theory Heap
  imports CString VirtAlloc EstdAlgorithm
begin

text \<open>
  \<^verbatim>\<open>Kernel/Memory/Heap.{h,cpp}\<close>: the first-fit heap. Its bookkeeping is a sequence of packed
  13-byte headers in the very memory it hands out, so the model reads and writes them through byte
  memory: \<^verbatim>\<open>Size\<close> at offset 0, \<^verbatim>\<open>State\<close> at 4, \<^verbatim>\<open>Next\<close> at 5 and \<^verbatim>\<open>Prev\<close> at 9. The walk over the
  headers is a partial function, because sizes that wrap around would make it run for ever.
  \<^verbatim>\<open>Dump\<close> is in the theory \<open>Dump\<close>.
\<close>

section \<open>State\<close>

datatype HeapState = HeapFree | HeapReserved

fun HeapState_value :: "HeapState \<Rightarrow> u8" where
  "HeapState_value HeapFree = 0x0"
| "HeapState_value HeapReserved = 0x1"

record heap =
  m_MemorySizeBytes :: u32
  m_StartAddress :: u32
  m_EndAddress :: u32
  m_CurrentAddress :: u32

text \<open>The kernel's managers, its heap object and the bytes of memory, as the heap's clients share them.\<close>

record kernel_state =
  k_managers :: memory_state
  g_KernelHeap :: heap
  k_bytes :: mem

definition sizeof_HeapNode :: u32 where
  "sizeof_HeapNode = 13"

definition node_Size :: "mem \<Rightarrow> u32 \<Rightarrow> u32" where
  "node_Size m node = load32 m node"

definition node_State :: "mem \<Rightarrow> u32 \<Rightarrow> u8" where
  "node_State m node = m (node + 4)"

definition node_Next :: "mem \<Rightarrow> u32 \<Rightarrow> u32" where
  "node_Next m node = load32 m (node + 5)"

definition node_Prev :: "mem \<Rightarrow> u32 \<Rightarrow> u32" where
  "node_Prev m node = load32 m (node + 9)"

definition set_Size :: "u32 \<Rightarrow> u32 \<Rightarrow> mem \<Rightarrow> mem" where
  "set_Size node v m = store32 node v m"

definition set_State :: "u32 \<Rightarrow> HeapState \<Rightarrow> mem \<Rightarrow> mem" where
  "set_State node st m = store8 (node + 4) (HeapState_value st) m"

definition set_Next :: "u32 \<Rightarrow> u32 \<Rightarrow> mem \<Rightarrow> mem" where
  "set_Next node v m = store32 (node + 5) v m"

definition set_Prev :: "u32 \<Rightarrow> u32 \<Rightarrow> mem \<Rightarrow> mem" where
  "set_Prev node v m = store32 (node + 9) v m"

section \<open>Operations\<close>

definition Heap_Init :: "u32 \<Rightarrow> kernel_state \<Rightarrow> (bool \<times> kernel_state) option" where
  "Heap_Init sizeBytes k =
     (if sizeBytes = 0 then Some (False, k)
      else let pageSize = VMA_GetPageSize (g_KernelVMA (k_managers k));
               memorySize = AlignDown sizeBytes pageSize;
               h1 = (g_KernelHeap k)\<lparr>m_MemorySizeBytes := memorySize\<rparr>
           in case VMA_AllocatePages (memorySize div pageSize) (k_managers k) of
                None \<Rightarrow> None
              | Some (startAddress, mm) \<Rightarrow>
                  Some (if startAddress = 0
                    then (False, k\<lparr>k_managers := mm, g_KernelHeap := h1\<rparr>)
                    else (True, k\<lparr>k_managers := mm,
                      g_KernelHeap := h1\<lparr>m_StartAddress := startAddress,
                        m_EndAddress := startAddress + memorySize, m_CurrentAddress := startAddress\<rparr>,
                      k_bytes := Memset startAddress 0 sizeof_HeapNode (k_bytes k)\<rparr>)))"

text \<open>
  The loop of \<^verbatim>\<open>Allocate\<close>: \<^verbatim>\<open>True\<close> with the node whose block is reused, or \<^verbatim>\<open>False\<close> with the node past
  the last one; with the node before it.
\<close>

partial_function (option) Allocate_walk ::
  "mem \<Rightarrow> u32 \<Rightarrow> u32 \<Rightarrow> u32 \<Rightarrow> u32 \<Rightarrow> (bool \<times> u32 \<times> u32) option" where
  "Allocate_walk m currentAddress sizeBytes node prev =
     (if node < currentAddress
      then if node_Size m node \<ge> sizeBytes \<and> node_State m node = HeapState_value HeapFree
           then Some (True, node, prev)
           else Allocate_walk m currentAddress sizeBytes
                  (node + (node_Size m node + sizeof_HeapNode)) node
      else Some (False, node, prev))"

definition Heap_Allocate :: "u32 \<Rightarrow> heap \<Rightarrow> mem \<Rightarrow> (u32 \<times> heap \<times> mem) option" where
  "Heap_Allocate sizeBytes h m =
     (if sizeBytes = 0 then Some (0, h, m)
      else let node = m_StartAddress h; prev = node_Prev m node
           in case Allocate_walk m (m_CurrentAddress h) sizeBytes node prev of
                None \<Rightarrow> None
              | Some (found, node, prev) \<Rightarrow>
                  (if found then Some (node + sizeof_HeapNode, h, set_State node HeapReserved m)
                   else let m1 = set_Size node sizeBytes m;
                            m2 = set_State node HeapReserved m1;
                            m3 = set_Prev node prev m2;
                            m4 = set_Next node 0 m3;
                            m5 = (if prev \<noteq> 0 then set_Next prev node m4 else m4)
                        in Some (node + sizeof_HeapNode,
                             h\<lparr>m_CurrentAddress := m_CurrentAddress h +
                               (node_Size m5 node + sizeof_HeapNode)\<rparr>, m5)))"

definition Heap_Free :: "u32 \<Rightarrow> mem \<Rightarrow> mem" where
  "Heap_Free address m =
     (if address = 0 then m
      else let node = address - sizeof_HeapNode;
               m1 = (if node_State m node = HeapState_value HeapReserved
                     then set_State node HeapFree m else m);
               next = node_Next m1 node;
               m2 = (if next \<noteq> 0 \<and> node_State m1 next = HeapState_value HeapFree
                     then let prev = node_Prev m1 node;
                              m' = set_Size next (node_Size m1 next + node_Size m1 node) m1;
                              m'' = set_Prev next (node_Prev m' node) m'
                          in if prev \<noteq> 0 then set_Next prev next m'' else m''
                     else m1);
               prev = node_Prev m2 node
           in if prev \<noteq> 0 \<and> node_State m2 prev = HeapState_value HeapFree
              then let next = node_Next m2 node;
                       m' = set_Size prev (node_Size m2 prev + node_Size m2 node) m2;
                       m'' = set_Next prev (node_Next m' node) m'
                   in if next \<noteq> 0 then set_Prev next prev m'' else m''
              else m2)"

declare Allocate_walk.simps [code]

section \<open>The chain of blocks\<close>

text \<open>
  The abstract heap is the list of its blocks, each a payload size and a state. \<open>chain\<close> says that the
  headers from address \<open>a\<close> up to \<open>e\<close> describe this list: the sizes tile the space, every header points
  back to the one before it (the first to \<open>p\<close>) and forward to the one after it (the last to \<open>nx\<close>).
\<close>

type_synonym block = "nat \<times> HeapState"

primrec chain :: "mem \<Rightarrow> nat \<Rightarrow> nat \<Rightarrow> block list \<Rightarrow> nat \<Rightarrow> nat \<Rightarrow> bool" where
  "chain m a p [] e nx \<longleftrightarrow> a = e"
| "chain m a p (b # bs) e nx \<longleftrightarrow>
     node_Size m (of_nat a) = of_nat (fst b) \<and> node_State m (of_nat a) = HeapState_value (snd b) \<and>
     node_Prev m (of_nat a) = of_nat p \<and>
     node_Next m (of_nat a) = of_nat (if bs = [] then nx else a + fst b + 13) \<and>
     chain m (a + fst b + 13) a bs e nx"

text \<open>Where the header of the \<open>i\<close>-th block is.\<close>

definition block_at :: "nat \<Rightarrow> block list \<Rightarrow> nat \<Rightarrow> nat" where
  "block_at a bs i = a + sum_list (List.map (\<lambda>b. fst b + 13) (take i bs))"

lemma block_at_simps [simp]:
  "block_at a bs 0 = a" "block_at a (b # bs) (Suc i) = block_at (a + fst b + 13) bs i"
  by (simp_all add: block_at_def)

lemma block_at_Suc:
  "i < length bs \<Longrightarrow> block_at a bs (Suc i) = block_at a bs i + fst (bs ! i) + 13"
  by (simp add: block_at_def take_Suc_conv_app_nth)

lemma block_at_mono: "i \<le> j \<Longrightarrow> j \<le> length bs \<Longrightarrow> block_at a bs i \<le> block_at a bs j"
  by (induction j rule: dec_induct) (auto simp: block_at_Suc)

lemma block_at_step: "i < j \<Longrightarrow> j \<le> length bs \<Longrightarrow> block_at a bs i + fst (bs ! i) + 13 \<le> block_at a bs j"
  using block_at_mono [of "Suc i" j bs a] block_at_Suc [of i bs a] by simp

lemma chain_end: "chain m a p bs e nx \<Longrightarrow> e = block_at a bs (length bs)"
  by (induction bs arbitrary: a p) auto

definition last_block :: "nat \<Rightarrow> nat \<Rightarrow> block list \<Rightarrow> nat" where
  "last_block a p bs = (if bs = [] then p else block_at a bs (length bs - 1))"

lemma last_block_Nil [simp]: "last_block a p [] = p"
  by (simp add: last_block_def)

lemma last_block_Cons [simp]: "last_block a p (b # bs) = last_block (a + fst b + 13) a bs"
  by (cases bs) (simp_all add: last_block_def)

lemma chain_append:
  "chain m a p (bs @ cs) e nx \<longleftrightarrow>
    chain m a p bs (block_at a bs (length bs)) (if cs = [] then nx else block_at a bs (length bs)) \<and>
    chain m (block_at a bs (length bs)) (last_block a p bs) cs e nx"
  by (induction bs arbitrary: a p) (auto simp: Let_def)

section \<open>Writes and the chain\<close>

text \<open>Fields of the header at \<open>a\<close> depend on its 13 bytes only.\<close>

lemmas node_reads = node_Size_def node_State_def node_Next_def node_Prev_def
lemmas node_writes = set_Size_def set_State_def set_Next_def set_Prev_def

lemma word_of_nat_offset: "(of_nat a + numeral k :: u32) = of_nat (a + numeral k)"
  by simp

lemma node_same:
  assumes "same_bytes {a..<a + 13} m m'"
  shows "node_Size m' (of_nat a) = node_Size m (of_nat a)"
    and "node_State m' (of_nat a) = node_State m (of_nat a)"
    and "node_Next m' (of_nat a) = node_Next m (of_nat a)"
    and "node_Prev m' (of_nat a) = node_Prev m (of_nat a)"
proof -
  show "node_Size m' (of_nat a) = node_Size m (of_nat a)"
    unfolding node_Size_def by (rule load32_same [OF same_bytes_mono [OF assms]]) auto
  show "node_State m' (of_nat a) = node_State m (of_nat a)"
    unfolding node_State_def word_of_nat_offset by (rule load8_same [OF assms]) auto
  show "node_Next m' (of_nat a) = node_Next m (of_nat a)"
    unfolding node_Next_def word_of_nat_offset by (rule load32_same [OF same_bytes_mono [OF assms]]) auto
  show "node_Prev m' (of_nat a) = node_Prev m (of_nat a)"
    unfolding node_Prev_def word_of_nat_offset by (rule load32_same [OF same_bytes_mono [OF assms]]) auto
qed

lemma set_frames:
  assumes "A \<subseteq> {..<4294967296}" and "x + 13 \<le> 4294967296"
  shows "A \<inter> {x..<x + 4} = {} \<Longrightarrow> same_bytes A m (set_Size (of_nat x) v m)"
    and "x + 4 \<notin> A \<Longrightarrow> same_bytes A m (set_State (of_nat x) st m)"
    and "A \<inter> {x + 5..<x + 9} = {} \<Longrightarrow> same_bytes A m (set_Next (of_nat x) v m)"
    and "A \<inter> {x + 9..<x + 13} = {} \<Longrightarrow> same_bytes A m (set_Prev (of_nat x) v m)"
  unfolding node_writes word_of_nat_offset
  using assms same_bytes_store32 [of A x m v] same_bytes_store8 [of A "x + 4"]
    same_bytes_store32 [of A "x + 5" m v] same_bytes_store32 [of A "x + 9" m v]
  by (simp_all add: add.assoc)

text \<open>Reads of a header after a write to one of its fields.\<close>

lemma node_read_after_write [simp]:
  assumes "x + 13 \<le> 4294967296"
  shows "node_Size (set_Size (of_nat x) v m) (of_nat x) = v"
    and "node_State (set_Size (of_nat x) v m) (of_nat x) = node_State m (of_nat x)"
    and "node_Next (set_Size (of_nat x) v m) (of_nat x) = node_Next m (of_nat x)"
    and "node_Prev (set_Size (of_nat x) v m) (of_nat x) = node_Prev m (of_nat x)"
    and "node_Size (set_State (of_nat x) st m) (of_nat x) = node_Size m (of_nat x)"
    and "node_State (set_State (of_nat x) st m) (of_nat x) = HeapState_value st"
    and "node_Next (set_State (of_nat x) st m) (of_nat x) = node_Next m (of_nat x)"
    and "node_Prev (set_State (of_nat x) st m) (of_nat x) = node_Prev m (of_nat x)"
    and "node_Size (set_Next (of_nat x) v m) (of_nat x) = node_Size m (of_nat x)"
    and "node_State (set_Next (of_nat x) v m) (of_nat x) = node_State m (of_nat x)"
    and "node_Next (set_Next (of_nat x) v m) (of_nat x) = v"
    and "node_Prev (set_Next (of_nat x) v m) (of_nat x) = node_Prev m (of_nat x)"
    and "node_Size (set_Prev (of_nat x) v m) (of_nat x) = node_Size m (of_nat x)"
    and "node_State (set_Prev (of_nat x) v m) (of_nat x) = node_State m (of_nat x)"
    and "node_Next (set_Prev (of_nat x) v m) (of_nat x) = node_Next m (of_nat x)"
    and "node_Prev (set_Prev (of_nat x) v m) (of_nat x) = v"
proof -
  have size: "load32 m' (of_nat x) = load32 m (of_nat x)" if "same_bytes {x..<x + 4} m m'" for m m'
    using that by (rule load32_same)
  have state: "m' (of_nat (x + 4)) = m (of_nat (x + 4))" if "same_bytes {x + 4} m m'" for m m' :: mem
    using that by (simp add: same_bytes_def del: of_nat_add)
  have nxt: "load32 m' (of_nat (x + 5)) = load32 m (of_nat (x + 5))"
    if "same_bytes {x + 5..<x + 9} m m'" for m m'
    using that by (intro load32_same) (simp add: add.assoc)
  have prv: "load32 m' (of_nat (x + 9)) = load32 m (of_nat (x + 9))"
    if "same_bytes {x + 9..<x + 13} m m'" for m m'
    using that by (intro load32_same) (simp add: add.assoc)
  have fields: "{x..<x + 4} \<subseteq> {..<4294967296}" "{x + 4} \<subseteq> {..<4294967296}"
    "{x + 5..<x + 9} \<subseteq> {..<4294967296}" "{x + 9..<x + 13} \<subseteq> {..<4294967296}"
    using assms by auto
  note F = set_frames [OF fields(1) assms] set_frames [OF fields(2) assms]
    set_frames [OF fields(3) assms] set_frames [OF fields(4) assms]
  show "node_Size (set_Size (of_nat x) v m) (of_nat x) = v"
    "node_State (set_State (of_nat x) st m) (of_nat x) = HeapState_value st"
    "node_Next (set_Next (of_nat x) v m) (of_nat x) = v"
    "node_Prev (set_Prev (of_nat x) v m) (of_nat x) = v"
    by (simp_all add: node_reads node_writes store8_def)
  show "node_State (set_Size (of_nat x) v m) (of_nat x) = node_State m (of_nat x)"
    "node_State (set_Next (of_nat x) v m) (of_nat x) = node_State m (of_nat x)"
    "node_State (set_Prev (of_nat x) v m) (of_nat x) = node_State m (of_nat x)"
    unfolding node_State_def word_of_nat_offset by (rule state, rule F, (auto)[1])+
  show "node_Size (set_State (of_nat x) st m) (of_nat x) = node_Size m (of_nat x)"
    "node_Size (set_Next (of_nat x) v m) (of_nat x) = node_Size m (of_nat x)"
    "node_Size (set_Prev (of_nat x) v m) (of_nat x) = node_Size m (of_nat x)"
    unfolding node_Size_def by (rule size, rule F, (auto)[1])+
  show "node_Next (set_Size (of_nat x) v m) (of_nat x) = node_Next m (of_nat x)"
    "node_Next (set_State (of_nat x) st m) (of_nat x) = node_Next m (of_nat x)"
    "node_Next (set_Prev (of_nat x) v m) (of_nat x) = node_Next m (of_nat x)"
    unfolding node_Next_def word_of_nat_offset by (rule nxt, rule F, (auto)[1])+
  show "node_Prev (set_Size (of_nat x) v m) (of_nat x) = node_Prev m (of_nat x)"
    "node_Prev (set_State (of_nat x) st m) (of_nat x) = node_Prev m (of_nat x)"
    "node_Prev (set_Next (of_nat x) v m) (of_nat x) = node_Prev m (of_nat x)"
    unfolding node_Prev_def word_of_nat_offset by (rule prv, rule F, (auto)[1])+
qed

lemma chain_same:
  "chain m a p bs e nx \<Longrightarrow> same_bytes {a..<e} m m' \<Longrightarrow> chain m' a p bs e nx"
proof (induction bs arbitrary: a p)
  case (Cons b bs)
  have le: "a + fst b + 13 \<le> e"
    using chain_end [OF Cons.prems(1)] block_at_step [of 0 "length (b # bs)" "b # bs" a] by simp
  have "same_bytes {a..<a + 13} m m'" "same_bytes {a + fst b + 13..<e} m m'"
    using le by (auto intro: same_bytes_mono [OF Cons.prems(2)])
  with Cons.IH Cons.prems(1) show ?case by (simp add: node_same)
qed simp

section \<open>The walk\<close>

definition fits :: "nat \<Rightarrow> block \<Rightarrow> bool" where
  "fits n b \<longleftrightarrow> n \<le> fst b \<and> snd b = HeapFree"

primrec first_fit :: "nat \<Rightarrow> block list \<Rightarrow> nat option" where
  "first_fit n [] = None"
| "first_fit n (b # bs) = (if fits n b then Some 0 else map_option Suc (first_fit n bs))"

lemma first_fit_Some:
  "first_fit n bs = Some i \<Longrightarrow> i < length bs \<and> fits n (bs ! i) \<and> (\<forall>j<i. \<not> fits n (bs ! j))"
proof (induction bs arbitrary: i)
  case (Cons b bs)
  show ?case
  proof (cases "fits n b")
    case False
    with Cons.prems obtain j where "first_fit n bs = Some j" "i = Suc j" by auto
    with Cons.IH [of j] False show ?thesis by (auto simp: less_Suc_eq_0_disj)
  qed (use Cons.prems in simp)
qed simp

lemma first_fit_None: "first_fit n bs = None \<Longrightarrow> i < length bs \<Longrightarrow> \<not> fits n (bs ! i)"
  by (induction bs arbitrary: i) (auto simp: less_Suc_eq_0_disj split: if_splits)

lemma HeapState_value_inject [simp]: "HeapState_value st = HeapState_value st' \<longleftrightarrow> st = st'"
  by (cases st; cases st') simp_all

declare HeapState_value.simps [simp del]

lemma block_bounds:
  assumes "chain m a p bs e nx" and "i < length bs"
  shows "a \<le> block_at a bs i" and "block_at a bs i + fst (bs ! i) + 13 \<le> e"
  using block_at_mono [of 0 i bs a] block_at_step [of i "length bs" bs a] chain_end [OF assms(1)] assms(2)
  by simp_all

lemma chain_ConsD:
  assumes "chain m a p (b # bs) e nx" and "e < 4294967296"
  shows "a + fst b + 13 \<le> e" and "(of_nat a :: u32) < of_nat e"
    and "node_Size m (of_nat a) \<ge> n \<longleftrightarrow> unat n \<le> fst b"
    and "(of_nat a :: u32) + (node_Size m (of_nat a) + sizeof_HeapNode) = of_nat (a + fst b + 13)"
proof -
  show le: "a + fst b + 13 \<le> e" using block_bounds(2) [OF assms(1), of 0] by simp
  then show "(of_nat a :: u32) < of_nat e"
    using assms(2) by (simp add: word_less_nat_alt unat_of_nat32)
  show "node_Size m (of_nat a) \<ge> n \<longleftrightarrow> unat n \<le> fst b"
    using assms le by (simp add: word_le_nat_alt unat_of_nat32)
  show "(of_nat a :: u32) + (node_Size m (of_nat a) + sizeof_HeapNode) = of_nat (a + fst b + 13)"
    using assms(1) by (simp add: sizeof_HeapNode_def)
qed

lemma Allocate_walk_eq:
  assumes "chain m a p bs e nx" and "e < 4294967296"
  shows "first_fit (unat n) bs = None \<Longrightarrow>
      Allocate_walk m (of_nat e) n (of_nat a) (of_nat p) =
        Some (False, of_nat e, of_nat (last_block a p bs))"
    and "first_fit (unat n) bs = Some i \<Longrightarrow>
      \<exists>q. Allocate_walk m (of_nat e) n (of_nat a) (of_nat p) =
        Some (True, of_nat (block_at a bs i), q)"
  using assms(1)
proof (induction bs arbitrary: a p i)
  case Nil
  { case 1 then show ?case by (subst Allocate_walk.simps) simp }
  { case 2 then show ?case by simp }
next
  case (Cons b bs)
  { case 1
    note c = chain_ConsD [OF 1(2) assms(2)]
    have "\<not> fits (unat n) b" "first_fit (unat n) bs = None"
      using 1(1) by (simp_all split: if_splits)
    moreover have "chain m (a + fst b + 13) a bs e nx" "node_State m (of_nat a) = HeapState_value (snd b)"
      using 1(2) by simp_all
    ultimately show ?case using Cons.IH(1) c(2,3)
      by (subst Allocate_walk.simps, unfold c(4)) (auto simp: fits_def simp del: of_nat_add) }
  { case 2
    note c = chain_ConsD [OF 2(2) assms(2)]
    have ch: "chain m (a + fst b + 13) a bs e nx" "node_State m (of_nat a) = HeapState_value (snd b)"
      using 2(2) by simp_all
    show ?case
    proof (cases "fits (unat n) b")
      case True
      with 2(1) have "i = 0" by simp
      with True ch(2) c(2,3) show ?thesis by (subst Allocate_walk.simps) (simp add: fits_def)
    next
      case False
      with 2(1) obtain j where j: "first_fit (unat n) bs = Some j" "i = Suc j" by auto
      obtain q where "Allocate_walk m (of_nat e) n (of_nat (a + fst b + 13)) (of_nat a) =
          Some (True, of_nat (block_at (a + fst b + 13) bs j), q)"
        using Cons.IH(2) [OF j(1) ch(1)] by blast
      with False ch(2) c(2,3) j(2) show ?thesis
        by (subst Allocate_walk.simps, unfold c(4)) (auto simp: fits_def simp del: of_nat_add)
    qed }
qed

section \<open>Changing the state of a block, linking and appending\<close>

lemma chain_set_State:
  assumes "chain m a p bs e nx" and "e < 4294967296" and "i < length bs"
  shows "chain (set_State (of_nat (block_at a bs i)) st m) a p (bs[i := (fst (bs ! i), st)]) e nx"
  using assms(1,3)
proof (induction bs arbitrary: a p i)
  case (Cons b bs)
  note le = chain_ConsD(1) [OF Cons.prems(1) assms(2)]
  have x: "a + 13 \<le> 4294967296" using le assms(2) by simp
  show ?case
  proof (cases i)
    case 0
    have "same_bytes {a + fst b + 13..<e} m (set_State (of_nat a) st m)"
      using le assms(2) x by (intro set_frames(2)) (auto simp: subset_eq)
    moreover have "chain m (a + fst b + 13) a bs e nx" using Cons.prems(1) by simp
    ultimately show ?thesis using Cons.prems(1) 0 x chain_same by simp
  next
    case (Suc j)
    let ?x = "block_at (a + fst b + 13) bs j"
    have bd: "a + fst b + 13 \<le> ?x" "?x + 13 \<le> e"
      using block_bounds [of m "a + fst b + 13" a bs e nx j] Cons.prems Suc by auto
    have "same_bytes {a..<a + 13} m (set_State (of_nat ?x) st m)"
      using bd assms(2) by (intro set_frames(2)) (auto simp: subset_eq)
    then show ?thesis using Cons.IH [of "a + fst b + 13" a j] Cons.prems Suc by (simp add: node_same)
  qed
qed simp

lemma chain_set_Next_last:
  assumes "chain m a p bs e nx" and "e < 4294967296" and "bs \<noteq> []"
  shows "chain (set_Next (of_nat (last_block a p bs)) (of_nat v) m) a p bs e v"
  using assms(1,3)
proof (induction bs arbitrary: a p)
  case (Cons b bs)
  note le = chain_ConsD(1) [OF Cons.prems(1) assms(2)]
  have x: "a + 13 \<le> 4294967296" using le assms(2) by simp
  show ?case
  proof (cases "bs = []")
    case True
    then show ?thesis using Cons.prems(1) x by simp
  next
    case False
    let ?x = "last_block (a + fst b + 13) a bs"
    have "a + fst b + 13 \<le> ?x" "?x + 13 \<le> e"
      using block_bounds [of m "a + fst b + 13" a bs e nx "length bs - 1"] Cons.prems False
      by (auto simp: last_block_def)
    then have "same_bytes {a..<a + 13} m (set_Next (of_nat ?x) (of_nat v) m)"
      using assms(2) by (intro set_frames(3)) (auto simp: subset_eq)
    then show ?thesis using Cons.IH [of "a + fst b + 13" a] Cons.prems False by (simp add: node_same)
  qed
qed simp

text \<open>The bytes of a block behind its header, which belong to the client.\<close>

definition payload :: "nat \<Rightarrow> block list \<Rightarrow> nat \<Rightarrow> nat set" where
  "payload a bs i = {block_at a bs i + 13..<block_at a bs i + 13 + fst (bs ! i)}"

lemma payload_header:
  assumes "i < length bs" and "j < length bs"
  shows "payload a bs j \<inter> {block_at a bs i..<block_at a bs i + 13} = {}"
  using block_at_step [of i j bs a] block_at_step [of j i bs a] assms
  by (cases i j rule: linorder_cases) (auto simp: payload_def)

text \<open>The bytes of the headers, which belong to the heap.\<close>

definition header_bytes :: "nat \<Rightarrow> block list \<Rightarrow> nat set" where
  "header_bytes a bs = (\<Union>i<length bs. {block_at a bs i..<block_at a bs i + 13})"

lemma header_bytes_at: "i < length bs \<Longrightarrow> {block_at a bs i..<block_at a bs i + 13} \<subseteq> header_bytes a bs"
  by (auto simp: header_bytes_def)

lemma block_at_append: "i \<le> length bs \<Longrightarrow> block_at a (bs @ cs) i = block_at a bs i"
  by (simp add: block_at_def)

lemma payload_headers: "j < length bs \<Longrightarrow> payload a bs j \<inter> header_bytes a bs = {}"
  using payload_header by (fastforce simp: header_bytes_def)

lemma payload_below:
  "chain m a p bs e nx \<Longrightarrow> j < length bs \<Longrightarrow> payload a bs j \<subseteq> {a..<e}"
  using block_bounds [of m a p bs e nx j] by (auto simp: payload_def)

lemma payload_append: "j < length bs \<Longrightarrow> payload a (bs @ cs) j = payload a bs j"
  by (simp add: payload_def block_at_append nth_append)

lemma payload_disjoint:
  assumes "i < length bs" and "j < length bs" and "i \<noteq> j"
  shows "payload a bs i \<inter> payload a bs j = {}"
  using block_at_step [of i j bs a] block_at_step [of j i bs a] assms
  by (cases i j rule: linorder_cases) (auto simp: payload_def)

definition append_header :: "nat \<Rightarrow> u32 \<Rightarrow> nat \<Rightarrow> mem \<Rightarrow> mem" where
  "append_header e n q m = set_Next (of_nat e) 0 (set_Prev (of_nat e) (of_nat q)
     (set_State (of_nat e) HeapReserved (set_Size (of_nat e) n m)))"

lemma append_header_frame:
  assumes "A \<subseteq> {..<4294967296}" and "e + 13 \<le> 4294967296" and "A \<inter> {e..<e + 13} = {}"
  shows "same_bytes A m (append_header e n q m)"
  unfolding append_header_def
  by (rule same_bytes_trans, rule same_bytes_trans, rule same_bytes_trans,
      rule set_frames(1) [OF assms(1,2)]; (rule set_frames [OF assms(1,2)])?)
    (use assms(3) in auto)

lemma chain_append_block:
  assumes ch: "chain m a p bs e 0" and e: "e + unat n + 13 < 4294967296" and "0 < a"
  defines "q \<equiv> last_block a p bs"
  defines "m4 \<equiv> append_header e n q m"
  defines "m5 \<equiv> (if bs = [] then m4 else set_Next (of_nat q) (of_nat e) m4)"
  shows "chain m5 a p (bs @ [(unat n, HeapReserved)]) (e + unat n + 13) 0"
    and "node_Size m5 (of_nat e) = n"
    and "A \<subseteq> {..<4294967296} \<Longrightarrow> A \<inter> header_bytes a (bs @ [(unat n, HeapReserved)]) = {} \<Longrightarrow>
      same_bytes A m m5"
proof -
  have ee: "block_at a bs (length bs) = e" using chain_end [OF ch] by simp
  have "same_bytes {a..<e} m m4"
    unfolding m4_def using e by (intro append_header_frame) (auto simp: subset_eq)
  then have ch4: "chain m4 a p bs e 0" by (rule chain_same [OF ch])
  have x: "e + 13 \<le> 4294967296" using e by simp
  have head4: "node_Size m4 (of_nat e) = n" "node_State m4 (of_nat e) = HeapState_value HeapReserved"
    "node_Prev m4 (of_nat e) = of_nat q" "node_Next m4 (of_nat e) = 0"
    using x by (simp_all add: m4_def append_header_def)
  have q: "bs \<noteq> [] \<Longrightarrow> q = block_at a bs (length bs - 1)" "bs \<noteq> [] \<Longrightarrow> q + 13 \<le> e"
    using block_bounds(2) [OF ch, of "length bs - 1"] by (auto simp: q_def last_block_def)
  have "same_bytes {e..<e + 13} m4 (set_Next (of_nat q) (of_nat e) m4)" if "bs \<noteq> []"
    using q(2) [OF that] e by (intro set_frames(3)) (auto simp: subset_eq)
  then have head5: "node_Size m5 (of_nat e) = n" "node_State m5 (of_nat e) = HeapState_value HeapReserved"
    "node_Prev m5 (of_nat e) = of_nat q" "node_Next m5 (of_nat e) = 0"
    using head4 by (auto simp: m5_def node_same)
  show "node_Size m5 (of_nat e) = n" by (rule head5)
  have "chain m5 a p bs e e"
  proof (cases "bs = []")
    case False
    then show ?thesis
      using chain_set_Next_last [OF ch4 _ False, of e] e by (simp add: m5_def q_def)
  qed (use ch in simp)
  then show "chain m5 a p (bs @ [(unat n, HeapReserved)]) (e + unat n + 13) 0"
    using head5 by (simp add: chain_append ee q_def)
  assume A: "A \<subseteq> {..<4294967296}" "A \<inter> header_bytes a (bs @ [(unat n, HeapReserved)]) = {}"
  have last: "A \<inter> {e..<e + 13} = {}"
    using A(2) header_bytes_at [of "length bs" "bs @ [(unat n, HeapReserved)]" a] ee
    by (fastforce simp: block_at_append)
  have m4: "same_bytes A m m4"
    unfolding m4_def using e last by (intro append_header_frame [OF A(1)]) auto
  show "same_bytes A m m5"
  proof (cases "bs = []")
    case False
    have "A \<inter> {q..<q + 13} = {}"
      using A(2) header_bytes_at [of "length bs - 1" "bs @ [(unat n, HeapReserved)]" a] False
      unfolding q(1) [OF False] by (fastforce simp: block_at_append)
    then have "same_bytes A m4 (set_Next (of_nat q) (of_nat e) m4)"
      using q(2) [OF False] e by (intro set_frames(3) [OF A(1)]) auto
    with m4 False show ?thesis using same_bytes_trans by (auto simp: m5_def)
  qed (use m4 in \<open>simp add: m5_def\<close>)
qed

section \<open>The invariant, and Allocate\<close>

definition heap_wf :: "heap \<Rightarrow> mem \<Rightarrow> block list \<Rightarrow> bool" where
  "heap_wf h m bs \<longleftrightarrow> chain m (unat (m_StartAddress h)) 0 bs (unat (m_CurrentAddress h)) 0 \<and>
     m_StartAddress h \<noteq> 0 \<and> node_Prev m (m_StartAddress h) = 0"

text \<open>
  The abstract allocator: the first free block that is large enough is taken whole, otherwise a new
  block is added at the end. The first component is the index of the block.
\<close>

definition spec_allocate :: "nat \<Rightarrow> block list \<Rightarrow> nat \<times> block list" where
  "spec_allocate n bs =
     (case first_fit n bs of
        Some i \<Rightarrow> (i, bs[i := (fst (bs ! i), HeapReserved)])
      | None \<Rightarrow> (length bs, bs @ [(n, HeapReserved)]))"

lemma Heap_Allocate_reuse:
  assumes wf: "heap_wf h m bs" and n: "n \<noteq> 0" and fit: "first_fit (unat n) bs = Some i"
  defines "x \<equiv> block_at (unat (m_StartAddress h)) bs i"
  shows "Heap_Allocate n h m = Some (of_nat (x + 13), h, set_State (of_nat x) HeapReserved m)"
    and "heap_wf h (set_State (of_nat x) HeapReserved m) (bs[i := (fst (bs ! i), HeapReserved)])"
    and "j < length bs \<Longrightarrow> same_bytes (payload (unat (m_StartAddress h)) bs j) m
      (set_State (of_nat x) HeapReserved m)"
proof -
  let ?a = "unat (m_StartAddress h)" and ?e = "unat (m_CurrentAddress h)"
  have ch: "chain m ?a 0 bs ?e 0" and nz: "m_StartAddress h \<noteq> 0" and pv: "node_Prev m (m_StartAddress h) = 0"
    using wf by (auto simp: heap_wf_def)
  have i: "i < length bs" using first_fit_Some [OF fit] by simp
  obtain q where "Allocate_walk m (of_nat ?e) n (of_nat ?a) (of_nat 0) = Some (True, of_nat x, q)"
    using Allocate_walk_eq(2) [OF ch unat_lt_2p32 fit] unfolding x_def by blast
  then show "Heap_Allocate n h m = Some (of_nat (x + 13), h, set_State (of_nat x) HeapReserved m)"
    using n pv by (simp add: Heap_Allocate_def sizeof_HeapNode_def)
  have ch': "chain (set_State (of_nat x) HeapReserved m) ?a 0 (bs[i := (fst (bs ! i), HeapReserved)]) ?e 0"
    unfolding x_def by (rule chain_set_State [OF ch unat_lt_2p32 i])
  moreover have "bs[i := (fst (bs ! i), HeapReserved)] \<noteq> []" using i by auto
  ultimately have "node_Prev (set_State (of_nat x) HeapReserved m) (m_StartAddress h) = 0"
    by (cases "bs[i := (fst (bs ! i), HeapReserved)]") auto
  with ch' nz show "heap_wf h (set_State (of_nat x) HeapReserved m) (bs[i := (fst (bs ! i), HeapReserved)])"
    by (simp add: heap_wf_def)
  assume j: "j < length bs"
  show "same_bytes (payload ?a bs j) m (set_State (of_nat x) HeapReserved m)"
  proof (rule set_frames(2))
    show "payload ?a bs j \<subseteq> {..<4294967296}"
      using payload_below [OF ch j] unat_lt_2p32 [of "m_CurrentAddress h"] by (auto simp del: unat_lt_2p32)
    show "x + 13 \<le> 4294967296" using block_bounds(2) [OF ch i] unat_lt_2p32 [of "m_CurrentAddress h"]
      unfolding x_def by linarith
    show "x + 4 \<notin> payload ?a bs j" using payload_header [OF i j, of ?a] unfolding x_def by auto
  qed
qed

text \<open>The state in which \<^verbatim>\<open>Allocate\<close> leaves the heap when it adds a block.\<close>

definition appended :: "heap \<Rightarrow> u32 \<Rightarrow> block list \<Rightarrow> mem \<Rightarrow> mem" where
  "appended h n bs m =
     (let e = unat (m_CurrentAddress h); q = last_block (unat (m_StartAddress h)) 0 bs;
          m4 = append_header e n q m
      in if bs = [] then m4 else set_Next (of_nat q) (of_nat e) m4)"

lemma Heap_Allocate_append_eq:
  assumes wf: "heap_wf h m bs" and n: "n \<noteq> 0" and none: "first_fit (unat n) bs = None"
    and room: "unat (m_CurrentAddress h) + unat n + 13 < 4294967296"
  shows "Heap_Allocate n h m = Some (m_CurrentAddress h + 13,
      h\<lparr>m_CurrentAddress := m_CurrentAddress h + (n + 13)\<rparr>, appended h n bs m)"
    and "heap_wf (h\<lparr>m_CurrentAddress := m_CurrentAddress h + (n + 13)\<rparr>) (appended h n bs m)
      (bs @ [(unat n, HeapReserved)])"
    and "A \<subseteq> {..<4294967296} \<Longrightarrow>
      A \<inter> header_bytes (unat (m_StartAddress h)) (bs @ [(unat n, HeapReserved)]) = {} \<Longrightarrow>
      same_bytes A m (appended h n bs m)"
proof -
  let ?a = "unat (m_StartAddress h)" and ?e = "unat (m_CurrentAddress h)"
  let ?q = "last_block ?a 0 bs"
  have ch: "chain m ?a 0 bs ?e 0" and nz: "m_StartAddress h \<noteq> 0" and pv: "node_Prev m (m_StartAddress h) = 0"
    using wf by (auto simp: heap_wf_def)
  have a: "0 < ?a" using nz by (simp add: unat_gt_0)
  note A = chain_append_block [OF ch room a]
  have q: "(of_nat ?q :: u32) = 0 \<longleftrightarrow> bs = []"
  proof (cases "bs = []")
    case False
    then have "?a \<le> ?q" "?q < 4294967296"
      using block_bounds [OF ch, of "length bs - 1"] room by (auto simp: last_block_def)
    then show ?thesis using False a of_nat_inj32 [of ?q 0] by auto
  qed simp
  let ?h' = "h\<lparr>m_CurrentAddress := m_CurrentAddress h + (n + 13)\<rparr>"
  have hd: "set_Next (m_CurrentAddress h) 0 (set_Prev (m_CurrentAddress h) (of_nat k)
      (set_State (m_CurrentAddress h) HeapReserved (set_Size (m_CurrentAddress h) n m))) =
      append_header ?e n k m" for k by (simp add: append_header_def)
  show "Heap_Allocate n h m = Some (m_CurrentAddress h + 13, ?h', appended h n bs m)"
    using n pv Allocate_walk_eq(1) [OF ch unat_lt_2p32 none] A(2) q
    by (cases "bs = []")
      (simp_all add: Heap_Allocate_def appended_def sizeof_HeapNode_def hd hd [of 0, simplified] Let_def)
  have cur: "unat (m_CurrentAddress ?h') = ?e + unat n + 13"
    using room by (simp add: unat_add_no_wrap)
  have ch': "chain (appended h n bs m) ?a 0 (bs @ [(unat n, HeapReserved)]) (?e + unat n + 13) 0"
    using A(1) by (simp add: appended_def Let_def)
  then have "node_Prev (appended h n bs m) (m_StartAddress h) = 0" by (cases bs) auto
  then show "heap_wf ?h' (appended h n bs m) (bs @ [(unat n, HeapReserved)])"
    using ch' nz unfolding heap_wf_def cur by simp
  show "A \<subseteq> {..<4294967296} \<Longrightarrow> A \<inter> header_bytes ?a (bs @ [(unat n, HeapReserved)]) = {} \<Longrightarrow>
      same_bytes A m (appended h n bs m)"
    unfolding appended_def Let_def by (rule A(3))
qed

lemma Heap_Allocate_append:
  assumes wf: "heap_wf h m bs" and n: "n \<noteq> 0" and none: "first_fit (unat n) bs = None"
    and room: "unat (m_CurrentAddress h) + unat n + 13 < 4294967296"
  obtains h' m' where "Heap_Allocate n h m = Some (m_CurrentAddress h + 13, h', m')"
    and "heap_wf h' m' (bs @ [(unat n, HeapReserved)])"
    and "m_StartAddress h' = m_StartAddress h" and "m_EndAddress h' = m_EndAddress h"
    and "\<forall>j<length bs. same_bytes (payload (unat (m_StartAddress h)) bs j) m m'"
proof -
  let ?a = "unat (m_StartAddress h)"
  note E = Heap_Allocate_append_eq [OF assms]
  have ch: "chain m ?a 0 bs (unat (m_CurrentAddress h)) 0" using wf by (simp add: heap_wf_def)
  have "same_bytes (payload ?a bs j) m (appended h n bs m)" if j: "j < length bs" for j
  proof (rule E(3))
    show "payload ?a bs j \<subseteq> {..<4294967296}"
      using payload_below [OF ch j] unat_lt_2p32 [of "m_CurrentAddress h"]
      by (auto simp: subset_eq simp del: unat_lt_2p32)
    show "payload ?a bs j \<inter> header_bytes ?a (bs @ [(unat n, HeapReserved)]) = {}"
      using payload_headers [of j "bs @ [(unat n, HeapReserved)]" ?a] payload_append [OF j] j by simp
  qed
  then show ?thesis by (intro that [OF E(1,2)]) simp_all
qed

section \<open>Free\<close>

text \<open>Freeing a block whose neighbours are both in use only changes its state.\<close>

lemma chain_nth:
  assumes "chain m a p bs e nx" and "i < length bs"
  shows "node_State m (of_nat (block_at a bs i)) = HeapState_value (snd (bs ! i))"
    and "node_Size m (of_nat (block_at a bs i)) = of_nat (fst (bs ! i))"
    and "node_Next m (of_nat (block_at a bs i)) =
      of_nat (if Suc i = length bs then nx else block_at a bs (Suc i))"
    and "node_Prev m (of_nat (block_at a bs i)) = of_nat (if i = 0 then p else block_at a bs (i - 1))"
  using assms
proof (induction bs arbitrary: a p i)
  case (Cons b bs)
  { case 1 then show ?case using Cons.IH(1) [of "a + fst b + 13" a "i - 1"] by (cases i) auto }
  { case 2 then show ?case using Cons.IH(2) [of "a + fst b + 13" a "i - 1"] by (cases i) auto }
  { case 3 then show ?case using Cons.IH(3) [of "a + fst b + 13" a "i - 1"]
      by (cases i; cases bs) (auto simp: block_at_simps) }
  { case 4 then show ?case using Cons.IH(4) [of "a + fst b + 13" a "i - 1"]
      by (cases i; cases "i - 1") (auto simp: block_at_simps) }
qed simp_all

lemma block_at_state:
  assumes "i < length bs"
  shows "block_at a (bs[i := (fst (bs ! i), st)]) j = block_at a bs j"
proof -
  let ?f = "\<lambda>b :: block. fst b + 13"
  have "List.map ?f (bs[i := (fst (bs ! i), st)]) = (List.map ?f bs)[i := List.map ?f bs ! i]"
    using assms by (simp add: map_update)
  then have "List.map ?f (bs[i := (fst (bs ! i), st)]) = List.map ?f bs" by simp
  then show ?thesis by (simp only: block_at_def flip: take_map)
qed

lemma Heap_Free_between:
  assumes wf: "heap_wf h m bs" and i: "i < length bs" and used: "snd (bs ! i) = HeapReserved"
    and right: "Suc i < length bs \<Longrightarrow> snd (bs ! Suc i) = HeapReserved"
    and left: "0 < i \<Longrightarrow> snd (bs ! (i - 1)) = HeapReserved"
  defines "x \<equiv> block_at (unat (m_StartAddress h)) bs i"
  shows "Heap_Free (of_nat (x + 13)) m = set_State (of_nat x) HeapFree m"
    and "heap_wf h (set_State (of_nat x) HeapFree m) (bs[i := (fst (bs ! i), HeapFree)])"
proof -
  let ?a = "unat (m_StartAddress h)" and ?e = "unat (m_CurrentAddress h)"
  let ?bs = "bs[i := (fst (bs ! i), HeapFree)]" and ?m = "set_State (of_nat x) HeapFree m"
  have ch: "chain m ?a 0 bs ?e 0" and nz: "m_StartAddress h \<noteq> 0" and pv: "node_Prev m (m_StartAddress h) = 0"
    using wf by (auto simp: heap_wf_def)
  have lim: "?e < 4294967296" by simp
  have ch': "chain ?m ?a 0 ?bs ?e 0" unfolding x_def by (rule chain_set_State [OF ch lim i])
  have "?bs \<noteq> []" using i by auto
  then have "node_Prev ?m (m_StartAddress h) = 0" using ch' by (cases ?bs) auto
  then show "heap_wf h ?m ?bs" using ch' nz by (simp add: heap_wf_def)
  have node: "(of_nat (x + 13) :: u32) - sizeof_HeapNode = of_nat x" by (simp add: sizeof_HeapNode_def)
  have "x + 13 \<le> ?e" using block_bounds(2) [OF ch i] unfolding x_def by linarith
  then have nonnull: "(of_nat (x + 13) :: u32) \<noteq> 0"
    using lim of_nat_inj32 [of "x + 13" 0] by (simp del: of_nat_add unat_lt_2p32)
  have state: "node_State m (of_nat x) = HeapState_value HeapReserved"
    using chain_nth(1) [OF ch i] used by (simp add: x_def)
  have nodes: "block_at ?a ?bs j = block_at ?a bs j" for j by (rule block_at_state [OF i])
  have i': "i < length ?bs" using i by simp
  have next_state: "node_State ?m (node_Next ?m (of_nat x)) = HeapState_value HeapReserved"
    if "node_Next ?m (of_nat x) \<noteq> 0"
  proof -
    have "Suc i < length bs" using chain_nth(3) [OF ch' i'] that i by (auto simp: nodes x_def split: if_splits)
    then show ?thesis using chain_nth(3) [OF ch' i'] chain_nth(1) [OF ch', of "Suc i"] right
      by (simp add: nodes x_def)
  qed
  have prev_state: "node_State ?m (node_Prev ?m (of_nat x)) = HeapState_value HeapReserved"
    if "node_Prev ?m (of_nat x) \<noteq> 0"
  proof -
    have "0 < i" using chain_nth(4) [OF ch' i'] that by (cases i) (auto simp: nodes x_def)
    then show ?thesis using chain_nth(4) [OF ch' i'] chain_nth(1) [OF ch', of "i - 1"] left i
      by (simp add: nodes x_def)
  qed
  have alone: "\<not> (node_Next ?m (of_nat x) \<noteq> 0 \<and> node_State ?m (node_Next ?m (of_nat x)) = HeapState_value HeapFree)"
    "\<not> (node_Prev ?m (of_nat x) \<noteq> 0 \<and> node_State ?m (node_Prev ?m (of_nat x)) = HeapState_value HeapFree)"
    using next_state prev_state by auto
  show "Heap_Free (of_nat (x + 13)) m = ?m"
    by (simp only: Heap_Free_def node Let_def nonnull state alone if_True if_False simp_thms)
qed

section \<open>Initialisation\<close>

lemma page_division:
  "unat (AlignDown x 4096 div 4096) = unat x div 4096" "unat (AlignDown x 4096) = unat x div 4096 * 4096"
  using AlignDown_unat [of 12 x] by (simp_all add: unat_div_distrib)

lemma zero_header:
  "node_Prev (Memset a 0 sizeof_HeapNode m) a = 0"
  by (simp add: node_Prev_def load32_def Memset_eq sizeof_HeapNode_def)

lemma Heap_Init_ok:
  assumes k: "memory_inv (k_managers k)" and n: "4096 \<le> sizeBytes"
    and run: "first_run (vma_size (g_KernelVMA (k_managers k))) (vpage_taken (g_KernelVMA (k_managers k)))
      (unat sizeBytes div 4096) = Some r"
    and frames: "VMA_ready (AlignDown sizeBytes 4096 div 4096) (k_managers k)"
  obtains k' where "Heap_Init sizeBytes k = Some (True, k')" and "memory_inv (k_managers k')"
    and "heap_wf (g_KernelHeap k') (k_bytes k') []"
    and "m_StartAddress (g_KernelHeap k') = vma_StartAddress (g_KernelVMA (k_managers k)) + of_nat r * 4096"
    and "m_EndAddress (g_KernelHeap k') = m_StartAddress (g_KernelHeap k') + AlignDown sizeBytes 4096"
proof -
  let ?v = "g_KernelVMA (k_managers k)"
  let ?n = "AlignDown sizeBytes 4096 div 4096"
  let ?a = "vma_StartAddress ?v + of_nat r * 4096"
  note wf = vma_wfD [OF memory_invD(4) [OF k]]
  have pos: "0 < unat sizeBytes div 4096" using n by (simp add: word_le_nat_alt div_greater_zero_iff)
  then have n0: "0 < ?n" using page_division(1) [of sizeBytes] by (simp add: word_less_nat_alt)
  have r: "r < vma_size ?v" using run pos by (auto simp: first_run_Some_iff run_free_def)
  have run': "first_run (vma_size ?v) (vpage_taken ?v) (unat ?n) = Some r"
    using run unfolding page_division(1) .
  obtain mm where mm: "VMA_AllocatePages ?n (k_managers k) = Some (?a, mm)" "memory_inv mm"
    using va.alloc_law [OF k n0 frames run'] by blast
  have a: "?a \<noteq> 0" by (rule vma_page_address(2) [OF memory_invD(4) [OF k] r])
  have "sizeBytes \<noteq> 0" using n by auto
  then show ?thesis
    using mm a wf(2) zero_header
    by (intro that [of "k\<lparr>k_managers := mm,
        g_KernelHeap := (g_KernelHeap k)\<lparr>m_MemorySizeBytes := AlignDown sizeBytes 4096, m_StartAddress := ?a,
          m_EndAddress := ?a + AlignDown sizeBytes 4096, m_CurrentAddress := ?a\<rparr>,
        k_bytes := Memset ?a 0 sizeof_HeapNode (k_bytes k)\<rparr>"])
      (simp_all add: Heap_Init_def VMA_GetPageSize_def heap_wf_def Let_def)
qed

section \<open>Reachable heaps\<close>

text \<open>
  The states a heap goes through while its clients allocate, write into the blocks they hold, and free
  blocks between blocks in use. The list is the abstract heap.
\<close>

inductive heap_reach :: "heap \<Rightarrow> mem \<Rightarrow> block list \<Rightarrow> bool" where
  fresh: "m_StartAddress h \<noteq> 0 \<Longrightarrow> m_CurrentAddress h = m_StartAddress h \<Longrightarrow>
    node_Prev m (m_StartAddress h) = 0 \<Longrightarrow> heap_reach h m []"
| allocate: "heap_reach h m bs \<Longrightarrow> n \<noteq> 0 \<Longrightarrow>
    unat (m_CurrentAddress h) + unat n + 13 < 4294967296 \<Longrightarrow>
    Heap_Allocate n h m = Some (x, h', m') \<Longrightarrow> heap_reach h' m' (snd (spec_allocate (unat n) bs))"
| client_write: "heap_reach h m bs \<Longrightarrow> i < length bs \<Longrightarrow> snd (bs ! i) = HeapReserved \<Longrightarrow>
    x \<in> payload (unat (m_StartAddress h)) bs i \<Longrightarrow> heap_reach h (m(of_nat x := v)) bs"
| free: "heap_reach h m bs \<Longrightarrow> i < length bs \<Longrightarrow> snd (bs ! i) = HeapReserved \<Longrightarrow>
    (Suc i < length bs \<longrightarrow> snd (bs ! Suc i) = HeapReserved) \<Longrightarrow>
    (0 < i \<longrightarrow> snd (bs ! (i - 1)) = HeapReserved) \<Longrightarrow>
    m' = Heap_Free (of_nat (block_at (unat (m_StartAddress h)) bs i + 13)) m \<Longrightarrow>
    heap_reach h m' (bs[i := (fst (bs ! i), HeapFree)])"

inductive_cases heap_reach_NilE: "heap_reach h m []"

lemma chain_same_headers:
  "chain m a p bs e nx \<Longrightarrow>
    (\<And>i. i < length bs \<Longrightarrow> same_bytes {block_at a bs i..<block_at a bs i + 13} m m') \<Longrightarrow>
    chain m' a p bs e nx"
proof (induction bs arbitrary: a p)
  case (Cons b bs)
  have "same_bytes {a..<a + 13} m m'" using Cons.prems(2) [of 0] by simp
  moreover have "chain m' (a + fst b + 13) a bs e nx"
  proof (rule Cons.IH)
    show "chain m (a + fst b + 13) a bs e nx" using Cons.prems(1) by simp
    show "same_bytes {block_at (a + fst b + 13) bs i..<block_at (a + fst b + 13) bs i + 13} m m'"
      if "i < length bs" for i using Cons.prems(2) [of "Suc i"] that by simp
  qed
  ultimately show ?case using Cons.prems(1) by (simp add: node_same)
qed simp

lemma heap_wf_write:
  assumes wf: "heap_wf h m bs" and i: "i < length bs"
    and x: "x \<in> payload (unat (m_StartAddress h)) bs i"
  shows "heap_wf h (m(of_nat x := v)) bs"
proof -
  let ?a = "unat (m_StartAddress h)" and ?e = "unat (m_CurrentAddress h)"
  have ch: "chain m ?a 0 bs ?e 0" and nz: "m_StartAddress h \<noteq> 0" using wf by (auto simp: heap_wf_def)
  have lim: "?e < 4294967296" by simp
  have x_lt: "x < 4294967296" using payload_below [OF ch i] x lim by (auto simp del: unat_lt_2p32)
  have "same_bytes {block_at ?a bs j..<block_at ?a bs j + 13} m (m(of_nat x := v))"
    if j: "j < length bs" for j
  proof -
    have "{block_at ?a bs j..<block_at ?a bs j + 13} \<subseteq> {..<4294967296}"
      using block_bounds(2) [OF ch j] lim by (auto simp del: unat_lt_2p32)
    moreover have "x \<notin> {block_at ?a bs j..<block_at ?a bs j + 13}"
      using payload_header [OF j i, of ?a] x by blast
    ultimately show ?thesis using same_bytes_store8 [OF _ x_lt] by (simp add: store8_def)
  qed
  then have "chain (m(of_nat x := v)) ?a 0 bs ?e 0" by (rule chain_same_headers [OF ch])
  moreover have "bs \<noteq> []" using i by auto
  ultimately show ?thesis using nz by (cases bs) (auto simp: heap_wf_def)
qed

lemma heap_reach_wf: "heap_reach h m bs \<Longrightarrow> heap_wf h m bs"
proof (induction rule: heap_reach.induct)
  case (fresh h m)
  then show ?case by (simp add: heap_wf_def)
next
  case (allocate h m bs n x h' m')
  show ?case
  proof (cases "first_fit (unat n) bs")
    case None
    with Heap_Allocate_append [OF allocate.IH allocate.hyps(2) None allocate.hyps(3)] allocate.hyps(4)
    show ?thesis by (auto simp: spec_allocate_def)
  next
    case (Some i)
    with Heap_Allocate_reuse [OF allocate.IH allocate.hyps(2) Some] allocate.hyps(4)
    show ?thesis by (auto simp: spec_allocate_def)
  qed
next
  case (client_write h m bs i x v)
  then show ?case by (blast intro: heap_wf_write)
next
  case (free h m bs i m')
  with Heap_Free_between [OF free.IH free.hyps(2,3)] show ?case by simp
qed

section \<open>Properties\<close>

text \<open>A fresh heap of one page in empty memory, and one with two blocks in use.\<close>

definition heap_0 :: heap where
  "heap_0 = \<lparr>m_MemorySizeBytes = 4096, m_StartAddress = 0x1000, m_EndAddress = 0x2000,
     m_CurrentAddress = 0x1000\<rparr>"

lemma heap_0_wf: "heap_wf heap_0 (\<lambda>_. 0) []"
  by (simp add: heap_wf_def heap_0_def node_Prev_def load32_def)

text \<open>
  \<^verbatim>\<open>Init\<close> rounds the size down to whole pages, takes that many pages from the virtual memory
  allocator, and leaves an empty heap that begins and ends at the bounds of those pages.
\<close>

theorem heap_init_establishes_empty_heap:
  assumes "memory_inv (k_managers k)" and "4096 \<le> sizeBytes"
    and "first_run (vma_size (g_KernelVMA (k_managers k))) (vpage_taken (g_KernelVMA (k_managers k)))
      (unat sizeBytes div 4096) = Some r"
    and "fst (PMM_AllocatePages (AlignDown sizeBytes 4096 div 4096) (g_KernelPMM (k_managers k))) \<noteq> 0"
  shows "\<exists>k'. Heap_Init sizeBytes k = Some (True, k') \<and> memory_inv (k_managers k') \<and>
    heap_wf (g_KernelHeap k') (k_bytes k') [] \<and>
    m_StartAddress (g_KernelHeap k') = vma_StartAddress (g_KernelVMA (k_managers k)) + of_nat r * 4096 \<and>
    m_EndAddress (g_KernelHeap k') = m_StartAddress (g_KernelHeap k') + AlignDown sizeBytes 4096"
  using Heap_Init_ok [OF assms(1-3)] assms(4) unfolding VMA_ready_def by metis

theorem heap_init_establishes_empty_heap_witness:
  "\<exists>k'. Heap_Init 0x4FFF \<lparr>k_managers = memory_0, g_KernelHeap = heap_0, k_bytes = (\<lambda>_. 0)\<rparr> = Some (True, k') \<and>
     m_EndAddress (g_KernelHeap k') = 0xC1004000"
proof -
  have n: "AlignDown 0x4FFF 4096 = 0x4000" "(0x4000 :: u32) div 4096 = 4"
    by (simp_all add: AlignDown_def) 
  have f: "fst (PMM_AllocatePages (AlignDown 0x4FFF 4096 div 4096) (g_KernelPMM memory_0)) \<noteq> 0"
    unfolding n memory_0_pages by simp
  show ?thesis
    using heap_init_establishes_empty_heap
      [of "\<lparr>k_managers = memory_0, g_KernelHeap = heap_0, k_bytes = (\<lambda>_. 0)\<rparr>" "0x4FFF" 0]
      memory_0_inv memory_0_run f by (auto simp: n memory_0_def vma_32_def)
qed

text \<open>
  C11: \<^verbatim>\<open>Allocate\<close> refines first fit on the list of blocks: the first free block that is large enough is
  reused whole, otherwise a block is added at the end. It returns the address behind the header of that
  block, keeps the heap well formed and leaves the bytes of every block untouched. It always terminates.
\<close>

theorem heap_allocate_refines_first_fit:
  assumes "heap_wf h m bs" and "n \<noteq> 0"
    and "first_fit (unat n) bs = None \<longrightarrow> unat (m_CurrentAddress h) + unat n + 13 < 4294967296"
    and "spec_allocate (unat n) bs = (i, bs')"
  shows "\<exists>h' m'. Heap_Allocate n h m =
      Some (of_nat (block_at (unat (m_StartAddress h)) bs' i + 13), h', m') \<and>
    heap_wf h' m' bs' \<and> i < length bs' \<and> unat n \<le> fst (bs' ! i) \<and> snd (bs' ! i) = HeapReserved \<and>
    m_StartAddress h' = m_StartAddress h \<and>
    (\<forall>j<length bs. same_bytes (payload (unat (m_StartAddress h)) bs j) m m')"
proof (cases "first_fit (unat n) bs")
  case None
  have e: "unat (m_CurrentAddress h) = block_at (unat (m_StartAddress h)) bs (length bs)"
    using assms(1) chain_end unfolding heap_wf_def by blast
  have at: "block_at a (bs @ [b]) (length bs) = block_at a bs (length bs)" for a b
    by (simp add: block_at_def)
  have word: "m_CurrentAddress h + 13 = of_nat (unat (m_CurrentAddress h) + 13)" by simp
  show ?thesis
    by (rule Heap_Allocate_append [OF assms(1,2) None assms(3) [rule_format, OF None]])
      (use None assms(4) in \<open>auto simp: spec_allocate_def word e at simp del: of_nat_add\<close>)
next
  case (Some j)
  note fit = first_fit_Some [OF Some]
  note R = Heap_Allocate_reuse [OF assms(1,2) Some]
  have eq: "i = j" "bs' = bs[j := (fst (bs ! j), HeapReserved)]"
    using Some assms(4) by (auto simp: spec_allocate_def)
  show ?thesis
    unfolding eq block_at_state [OF conjunct1 [OF fit]]
    using R fit by (intro exI conjI) (auto simp: fits_def)
qed

theorem heap_allocate_refines_first_fit_witness:
  "\<exists>h' m'. Heap_Allocate 100 heap_0 (\<lambda>_. 0) = Some (0x100D, h', m') \<and> heap_wf h' m' [(100, HeapReserved)]"
  using heap_allocate_refines_first_fit [OF heap_0_wf, of 100 0 "[(100, HeapReserved)]"]
  by (auto simp: heap_0_def spec_allocate_def)

text \<open>
  C14: In every state that allocations, writes of clients into blocks they hold, and frees between blocks
  in use can reach, the headers describe the blocks, and the blocks lie between the start and the
  current address without overlapping.
\<close>

theorem heap_reachable_blocks_disjoint:
  assumes "heap_reach h m bs"
  shows "heap_wf h m bs \<and>
    (\<forall>i<length bs. payload (unat (m_StartAddress h)) bs i \<subseteq>
      {unat (m_StartAddress h)..<unat (m_CurrentAddress h)}) \<and>
    (\<forall>i<length bs. \<forall>j<length bs. i \<noteq> j \<longrightarrow>
      payload (unat (m_StartAddress h)) bs i \<inter> payload (unat (m_StartAddress h)) bs j = {})"
proof -
  have wf: "heap_wf h m bs" by (rule heap_reach_wf [OF assms])
  then have "chain m (unat (m_StartAddress h)) 0 bs (unat (m_CurrentAddress h)) 0"
    by (simp add: heap_wf_def)
  from payload_below [OF this] payload_disjoint wf show ?thesis by blast
qed

theorem heap_reachable_blocks_disjoint_witness: "\<exists>h m. heap_wf h m [(100, HeapReserved)]"
proof -
  have "heap_reach heap_0 (\<lambda>_. 0) []"
    using heap_0_wf by (intro heap_reach.fresh) (auto simp: heap_wf_def heap_0_def)
  moreover obtain h m where "Heap_Allocate 100 heap_0 (\<lambda>_. 0) = Some (0x100D, h, m)"
    by (rule Heap_Allocate_append [OF heap_0_wf, of 100]) (auto simp: heap_0_def)
  ultimately have "heap_reach h m (snd (spec_allocate 100 []))"
    using heap_reach.allocate [of heap_0 "\<lambda>_. 0" "[]" 100] by (simp add: heap_0_def)
  from heap_reachable_blocks_disjoint [OF this] show ?thesis by (auto simp: spec_allocate_def)
qed

text \<open>
  Freeing a block whose neighbours are in use makes exactly that block free and touches no byte of
  any block; an allocation of its size is then served without growing the heap.
\<close>

theorem heap_free_makes_block_reusable:
  assumes "heap_wf h m bs" and "i < length bs" and "snd (bs ! i) = HeapReserved"
    and "Suc i < length bs \<longrightarrow> snd (bs ! Suc i) = HeapReserved"
    and "0 < i \<longrightarrow> snd (bs ! (i - 1)) = HeapReserved" and "0 < fst (bs ! i)"
    and "m1 = Heap_Free (of_nat (block_at (unat (m_StartAddress h)) bs i + 13)) m"
  shows "heap_wf h m1 (bs[i := (fst (bs ! i), HeapFree)]) \<and>
    (\<forall>j<length bs. same_bytes (payload (unat (m_StartAddress h)) bs j) m m1) \<and>
    (\<exists>a m2. Heap_Allocate (of_nat (fst (bs ! i))) h m1 = Some (a, h, m2) \<and> a \<noteq> 0)"
proof -
  let ?a = "unat (m_StartAddress h)" and ?e = "unat (m_CurrentAddress h)"
  let ?bs = "bs[i := (fst (bs ! i), HeapFree)]" and ?n = "of_nat (fst (bs ! i)) :: u32"
  have F: "Heap_Free (of_nat (block_at ?a bs i + 13)) m = set_State (of_nat (block_at ?a bs i)) HeapFree m"
    "heap_wf h (set_State (of_nat (block_at ?a bs i)) HeapFree m) ?bs"
    using Heap_Free_between [OF assms(1-3)] assms(4,5) by blast+
  have ch: "chain m ?a 0 bs ?e 0" using assms(1) by (simp add: heap_wf_def)
  have lim: "?e < 4294967296" by simp
  note bd = block_bounds(2) [OF ch assms(2)]
  have n: "unat ?n = fst (bs ! i)" "?n \<noteq> 0"
    using bd lim assms(6) of_nat_inj32 [of "fst (bs ! i)" 0] by (simp_all add: unat_of_nat32 del: unat_lt_2p32)
  have "fits (unat ?n) (?bs ! i)" using assms(2) n(1) by (simp add: fits_def)
  then have "first_fit (unat ?n) ?bs \<noteq> None" using assms(2) first_fit_None [of "unat ?n" ?bs i] by auto
  then obtain j where j: "first_fit (unat ?n) ?bs = Some j" by auto
  note R = Heap_Allocate_reuse [OF F(2) n(2) j]
  have jb: "j < length ?bs" using first_fit_Some [OF j] by simp
  have ch': "chain m1 ?a 0 ?bs ?e 0" using F assms(7) by (simp add: heap_wf_def)
  have "(of_nat (block_at ?a ?bs j + 13) :: u32) \<noteq> 0"
    using block_bounds(2) [OF ch' jb] lim of_nat_inj32 [of "block_at ?a ?bs j + 13" 0]
    by (simp del: of_nat_add unat_lt_2p32)
  moreover have "same_bytes (payload ?a bs k) m m1" if k: "k < length bs" for k
    unfolding assms(7) F(1)
  proof (rule set_frames(2))
    show "payload ?a bs k \<subseteq> {..<4294967296}" using payload_below [OF ch k] lim by (auto simp del: unat_lt_2p32)
    show "block_at ?a bs i + 13 \<le> 4294967296" using bd lim by linarith
    show "block_at ?a bs i + 4 \<notin> payload ?a bs k" using payload_header [OF assms(2) k, of ?a] by auto
  qed
  ultimately show ?thesis using F R(1) assms(7) by auto
qed

text \<open>Three blocks of 100 bytes, the middle one freed.\<close>

lemma heap_three:
  obtains h m where "heap_wf h m [(100, HeapReserved), (100, HeapReserved), (100, HeapReserved)]"
    and "m_StartAddress h = 0x1000" and "m_EndAddress h = 0x2000"
proof -
  have cur: "unat (m_CurrentAddress h) = unat (m_StartAddress h) + sum_list (List.map (\<lambda>b. fst b + 13) bs)"
    if "heap_wf h m bs" for h m bs
    using that chain_end unfolding heap_wf_def block_at_def by fastforce
  obtain h1 m1 where 1: "heap_wf h1 m1 [(100, HeapReserved)]" "m_StartAddress h1 = 0x1000" "m_EndAddress h1 = 0x2000"
    by (rule Heap_Allocate_append [OF heap_0_wf, of 100]) (auto simp: heap_0_def)
  obtain h2 m2 where 2: "heap_wf h2 m2 [(100, HeapReserved), (100, HeapReserved)]"
      "m_StartAddress h2 = 0x1000" "m_EndAddress h2 = 0x2000"
    by (rule Heap_Allocate_append [OF 1(1), of 100]) (use 1 cur [OF 1(1)] in \<open>auto simp: fits_def\<close>)
  obtain h3 m3 where "heap_wf h3 m3 [(100, HeapReserved), (100, HeapReserved), (100, HeapReserved)]"
      "m_StartAddress h3 = 0x1000" "m_EndAddress h3 = 0x2000"
    by (rule Heap_Allocate_append [OF 2(1), of 100]) (use 2 cur [OF 2(1)] in \<open>auto simp: fits_def\<close>)
  then show ?thesis by (rule that)
qed

theorem heap_free_makes_block_reusable_witness:
  "\<exists>h m a m2. heap_wf h m [(100, HeapReserved), (100, HeapReserved), (100, HeapReserved)] \<and>
     Heap_Allocate 100 h (Heap_Free 0x107E m) = Some (a, h, m2)"
proof (rule heap_three)
  fix h m
  assume h: "heap_wf h m [(100, HeapReserved), (100, HeapReserved), (100, HeapReserved)]"
    "m_StartAddress h = 0x1000"
  have "of_nat (block_at (unat (m_StartAddress h)) [(100, HeapReserved), (100, HeapReserved), (100, HeapReserved)] 1 + 13)
      = (0x107E :: u32)" using h(2) by (simp add: block_at_def)
  then show ?thesis using heap_free_makes_block_reusable [OF h(1), of 1] h by auto
qed

text \<open>
  The heap does not stop at its end: when no free block fits, \<^verbatim>\<open>Allocate\<close> adds the new block at the
  current address even if that is already the end address, and returns memory outside the pages that
  \<^verbatim>\<open>Init\<close> took.
\<close>

theorem heap_allocate_passes_the_end:
  assumes "heap_wf h m bs" and "n \<noteq> 0" and "first_fit (unat n) bs = None"
    and "unat (m_CurrentAddress h) + unat n + 13 < 4294967296"
    and "m_EndAddress h \<le> m_CurrentAddress h"
  shows "\<exists>a h' m'. Heap_Allocate n h m = Some (a, h', m') \<and> m_EndAddress h' < a"
proof (rule Heap_Allocate_append [OF assms(1-4)])
  fix h' m'
  assume r: "Heap_Allocate n h m = Some (m_CurrentAddress h + 13, h', m')" "m_EndAddress h' = m_EndAddress h"
  have "unat (m_CurrentAddress h + 13) = unat (m_CurrentAddress h) + 13"
    using assms(4) by (simp add: unat_add_no_wrap)
  then have "m_EndAddress h < m_CurrentAddress h + 13"
    using assms(5) by (simp add: word_less_nat_alt word_le_nat_alt)
  with r show ?thesis by auto
qed

theorem heap_allocate_passes_the_end_witness:
  "\<exists>a h' m'. Heap_Allocate 100 (heap_0\<lparr>m_EndAddress := 0x1000\<rparr>) (\<lambda>_. 0) = Some (a, h', m') \<and>
     m_EndAddress h' < a"
  using heap_0_wf
  by (intro heap_allocate_passes_the_end [where bs = "[]"]) (auto simp: heap_wf_def heap_0_def)

text \<open>The merging of a block with the free one behind it: the size goes to the second header.\<close>

lemma Heap_Free_before_free:
  assumes ch: "chain m a 0 [(s0, HeapReserved), (s1, HeapFree), (s2, HeapReserved)] e 0"
    and bounds: "0 < a" "a + s0 + s1 + s2 + 39 < 4294967296"
  defines "m' \<equiv> Heap_Free (of_nat (a + 13)) m" and "b \<equiv> a + s0 + 13"
  shows "node_Size m' (of_nat a) = of_nat s0" and "node_Prev m' (of_nat a) = 0"
    and "node_Size m' (of_nat b) = of_nat (s0 + s1)" and "node_State m' (of_nat b) = HeapState_value HeapFree"
proof -
  have hd: "node_Size m (of_nat a) = of_nat s0" "node_State m (of_nat a) = HeapState_value HeapReserved"
    "node_Prev m (of_nat a) = 0" "node_Next m (of_nat a) = of_nat b"
    "node_Size m (of_nat b) = of_nat s1" "node_State m (of_nat b) = HeapState_value HeapFree"
    using ch by (simp_all add: b_def del: of_nat_add)
  have x: "a + 13 \<le> 4294967296" "b + 13 \<le> 4294967296" using bounds by (simp_all add: b_def)
  let ?m1 = "set_State (of_nat a) HeapFree m"
  let ?m2 = "set_Size (of_nat b) (of_nat s1 + of_nat s0) ?m1"
  let ?m3 = "set_Prev (of_nat b) 0 ?m2"
  have f1: "same_bytes {b..<b + 13} m ?m1" using bounds by (intro set_frames(2)) (auto simp: subset_eq b_def)
  have f2: "same_bytes {a..<a + 13} ?m1 ?m2" using bounds by (intro set_frames(1)) (auto simp: subset_eq b_def)
  have f3: "same_bytes {a..<a + 13} ?m2 ?m3" using bounds by (intro set_frames(4)) (auto simp: subset_eq b_def)
  note A1 = node_read_after_write [OF x(1)] and B1 = node_same [OF f1]
  note A3 = node_same [OF same_bytes_trans [OF f2 f3]] and A2 = node_same [OF f2]
  have "(of_nat b :: u32) \<noteq> 0" "(of_nat (a + 13) :: u32) \<noteq> 0"
    using bounds of_nat_inj32 [of b 0] of_nat_inj32 [of "a + 13" 0] by (simp_all add: b_def del: of_nat_add)
  moreover have "(of_nat (a + 13) :: u32) - sizeof_HeapNode = of_nat a" by (simp add: sizeof_HeapNode_def)
  ultimately have m': "m' = ?m3" by (simp add: m'_def Heap_Free_def Let_def hd A1 A2 A3 B1 del: of_nat_add)
  show "node_Size m' (of_nat a) = of_nat s0" "node_Prev m' (of_nat a) = 0"
    unfolding m' using hd by (simp_all add: A3 A1 del: of_nat_add)
  have "(of_nat s1 + of_nat s0 :: u32) = of_nat (s0 + s1)" by simp
  then show "node_Size m' (of_nat b) = of_nat (s0 + s1)" "node_State m' (of_nat b) = HeapState_value HeapFree"
    unfolding m' using hd x(2) by (simp_all add: B1 del: of_nat_add)
qed

text \<open>
  C21: Freeing a block before a free one corrupts the heap. With three blocks in a row of which the
  middle one is free, \<^verbatim>\<open>Free\<close> of the first adds its size to the second without moving the second's
  header. A request for the sum of both sizes is then served from the second block, and the bytes handed
  out overlap the third block, which is still in use.
\<close>

theorem heap_coalescing_overlaps_live_block:
  assumes wf: "heap_wf h m [(s0, HeapReserved), (s1, HeapFree), (s2, HeapReserved)]"
    and sizes: "13 < s0" "0 < s1" "0 < s2"
  defines "a \<equiv> unat (m_StartAddress h)"
  shows "\<exists>m'. Heap_Allocate (of_nat (s0 + s1)) h (Heap_Free (of_nat (a + 13)) m) =
      Some (of_nat (a + s0 + 26), h, m') \<and>
    {a + s0 + 26..<a + s0 + 26 + (s0 + s1)} \<inter>
      payload a [(s0, HeapReserved), (s1, HeapFree), (s2, HeapReserved)] 2 \<noteq> {}"
proof -
  let ?b = "a + s0 + 13" and ?e = "unat (m_CurrentAddress h)" and ?m = "Heap_Free (of_nat (a + 13)) m"
  have ch: "chain m a 0 [(s0, HeapReserved), (s1, HeapFree), (s2, HeapReserved)] ?e 0"
    and nz: "m_StartAddress h \<noteq> 0" using wf by (auto simp: heap_wf_def a_def)
  have a: "(of_nat a :: u32) = m_StartAddress h" "0 < a" using nz by (simp_all add: a_def unat_gt_0)
  have e1: "?e = a + s0 + s1 + s2 + 39" using chain_end [OF ch] by (simp add: block_at_def)
  then have e: "?e = a + s0 + s1 + s2 + 39" "a + s0 + s1 + s2 + 39 < 4294967296"
    using unat_lt_2p32 [of "m_CurrentAddress h"] by (simp_all del: unat_lt_2p32)
  note F = Heap_Free_before_free [OF ch a(2) e(2)]
  let ?n = "of_nat (s0 + s1) :: u32"
  have n: "unat ?n = s0 + s1" "unat (of_nat s0 :: u32) = s0" using e by (simp_all add: unat_of_nat32 del: of_nat_add)
  have n0: "?n \<noteq> 0" using n(1) sizes by auto
  have lt: "(of_nat a :: u32) < m_CurrentAddress h" "(of_nat ?b :: u32) < m_CurrentAddress h"
    using e by (simp_all add: word_less_nat_alt unat_of_nat32 del: of_nat_add)
  have big: "\<not> ?n \<le> of_nat s0" unfolding word_le_nat_alt n using sizes(2) by simp
  have step: "(of_nat a :: u32) + (of_nat s0 + sizeof_HeapNode) = of_nat ?b"
    by (simp add: sizeof_HeapNode_def)
  have "Allocate_walk ?m (m_CurrentAddress h) ?n (of_nat ?b) (of_nat a) = Some (True, of_nat ?b, of_nat a)"
    using lt(2) F(3,4) by (subst Allocate_walk.simps) (simp del: of_nat_add)
  then have walk: "Allocate_walk ?m (m_CurrentAddress h) ?n (of_nat a) 0 = Some (True, of_nat ?b, of_nat a)"
    using lt(1) big by (subst Allocate_walk.simps) (simp add: F(1,2) step del: of_nat_add)
  have "Heap_Allocate ?n h ?m = Some (of_nat (a + s0 + 26), h, set_State (of_nat ?b) HeapReserved ?m)"
    using n0 walk F(2) by (simp add: Heap_Allocate_def sizeof_HeapNode_def Let_def ac_simps flip: a(1))
  moreover have "a + s0 + s1 + 39 \<in> {a + s0 + 26..<a + s0 + 26 + (s0 + s1)} \<inter>
      payload a [(s0, HeapReserved), (s1, HeapFree), (s2, HeapReserved)] 2"
    using sizes by (simp add: payload_def block_at_def)
  ultimately show ?thesis by blast
qed

theorem heap_coalescing_overlaps_live_block_witness:
  "\<exists>h m m'. heap_wf h m [(100, HeapReserved), (100, HeapFree), (100, HeapReserved)] \<and>
     Heap_Allocate 200 h (Heap_Free 0x100D m) = Some (0x107E, h, m')"
proof (rule heap_three)
  fix h m
  assume h: "heap_wf h m [(100, HeapReserved), (100, HeapReserved), (100, HeapReserved)]"
    "m_StartAddress h = 0x1000"
  define m1 where "m1 = Heap_Free (of_nat (block_at (unat (m_StartAddress h))
    [(100, HeapReserved), (100, HeapReserved), (100, HeapReserved)] 1 + 13)) m"
  have "heap_wf h m1 [(100, HeapReserved), (100, HeapFree), (100, HeapReserved)]"
    using Heap_Free_between [OF h(1), of 1] by (simp add: m1_def)
  from heap_coalescing_overlaps_live_block [OF this] this show ?thesis
    unfolding h(2) by auto
qed

end
