(* ===== verification/KernelInit.thy ===== *)
theory KernelInit
  imports Heap
begin

text \<open>
  The start-up of the memory managers in \<^verbatim>\<open>Kernel/Kernel.cpp\<close>: \<^verbatim>\<open>InitPhysicalMemoryManager\<close> to
  \<^verbatim>\<open>InitMemoryManager\<close>, which initialise the global objects in order and stop at the first failure.
  The state is the record of these objects and of memory; \<open>None\<close> is a wild page-table pointer.
\<close>

section \<open>Operations\<close>

definition InitPhysicalMemoryManager :: "BootInfo \<Rightarrow> pmm \<Rightarrow> bool \<times> pmm" where
  "InitPhysicalMemoryManager bootInfo p0 =
     (let (ok, p) = PMM_Init bootInfo p0
      in if \<not> ok then (False, p)
         else let bootloaderPageCount = BootloaderSize bootInfo div 4096 + 1;
                  p1 = PMM_ReservePages (BootloaderPhysicalStartAddress bootInfo) bootloaderPageCount p;
                  kernelPageCount = KernelSize bootInfo div 4096;
                  p2 = PMM_ReservePages (KernelPhysicalStartAddress bootInfo) kernelPageCount p1;
                  dma16PageCount = 0x1000000 div 4096;
                  p3 = PMM_ReservePages 0x0 dma16PageCount p2
              in (True, PMM_ReservePage 0x0 p3))"

definition InitVirtualMemoryManager ::
  "BootInfo \<Rightarrow> memory_util \<Rightarrow> vmm \<Rightarrow> (bool \<times> vmm) option" where
  "InitVirtualMemoryManager bootInfo mu s0 =
     (let (ok, s) = VMM_Init bootInfo s0
      in if \<not> ok then Some (False, s)
         else let bootloaderPageCount = 0x400000 div PAGE_SIZE
              in case VMM_MapRange mu 0x0 0x0 True bootloaderPageCount s of
                   None \<Rightarrow> None
                 | Some (ok1, s1) \<Rightarrow>
                     (if \<not> ok1 then Some (False, s1)
                      else let kernelPageCount = KernelPhysicalEndAddress bootInfo div PAGE_SIZE -
                                 KernelPhysicalStartAddress bootInfo div PAGE_SIZE
                           in case VMM_MapRange mu (KernelVirtualStartAddress bootInfo)
                                  (KernelPhysicalStartAddress bootInfo) True kernelPageCount s1 of
                                None \<Rightarrow> None
                              | Some (ok2, s2) \<Rightarrow>
                                  (if \<not> ok2 then Some (False, s2)
                                   else let pageTablePageCount = 0x400000 div PAGE_SIZE
                                        in if kernelPageCount < pageTablePageCount
                                           then case VMM_MapRange mu
                                               (KernelVirtualStartAddress bootInfo + kernelPageCount * PAGE_SIZE)
                                               (KernelPhysicalStartAddress bootInfo + kernelPageCount * PAGE_SIZE)
                                               True (pageTablePageCount - kernelPageCount) s2 of
                                                  None \<Rightarrow> None
                                                | Some (ok3, s3) \<Rightarrow>
                                                    Some (if \<not> ok3 then (False, s3)
                                                      else (True, VMM_ReloadPageDirectory mu s3))
                                           else Some (True, VMM_ReloadPageDirectory mu s2))))"

definition InitVirtualMemoryAllocator :: "BootInfo \<Rightarrow> vma \<Rightarrow> bool \<times> vma" where
  "InitVirtualMemoryAllocator bootInfo v =
     (let kernelVMAStartAddress = KernelVirtualStartAddress bootInfo + 4096 * 1024 * 4;
          kernelVMASize = 0xFFFFFFFF - kernelVMAStartAddress
      in VMA_Init kernelVMAStartAddress kernelVMASize v)"

definition InitKernelHeap :: "BootInfo \<Rightarrow> kernel_state \<Rightarrow> (bool \<times> kernel_state) option" where
  "InitKernelHeap bootInfo k = Heap_Init (100 * 1048576) k"

text \<open>\<^verbatim>\<open>KMallocInit\<close> of \<^verbatim>\<open>Kernel/Memory/KMalloc.cpp\<close> only prints.\<close>

definition InitKMalloc :: "BootInfo \<Rightarrow> kernel_state \<Rightarrow> bool \<times> kernel_state" where
  "InitKMalloc bootInfo k = (True, k)"

definition InitMemoryManager :: "BootInfo \<Rightarrow> kernel_state \<Rightarrow> (bool \<times> kernel_state) option" where
  "InitMemoryManager bootInfo k0 =
     (let mm = k_managers k0; (ok, mu) = MemoryUtil_Init bootInfo (k_MemoryUtil mm);
          mm0 = mm\<lparr>k_MemoryUtil := mu\<rparr>
      in if \<not> ok then Some (False, k0\<lparr>k_managers := mm0\<rparr>)
         else let (ok1, p) = InitPhysicalMemoryManager bootInfo (g_KernelPMM mm0);
                  mm1 = mm0\<lparr>g_KernelPMM := p\<rparr>
              in if \<not> ok1 then Some (False, k0\<lparr>k_managers := mm1\<rparr>)
                 else case InitVirtualMemoryManager bootInfo mu (g_KernelVMM mm1) of
                        None \<Rightarrow> None
                      | Some (ok2, s) \<Rightarrow>
                          (let mm2 = mm1\<lparr>g_KernelVMM := s\<rparr>
                           in if \<not> ok2 then Some (False, k0\<lparr>k_managers := mm2\<rparr>)
                              else let (ok3, v) = InitVirtualMemoryAllocator bootInfo (g_KernelVMA mm2);
                                       mm3 = mm2\<lparr>g_KernelVMA := v\<rparr>
                                   in if \<not> ok3 then Some (False, k0\<lparr>k_managers := mm3\<rparr>)
                                      else case InitKernelHeap bootInfo (k0\<lparr>k_managers := mm3\<rparr>) of
                                             None \<Rightarrow> None
                                           | Some (ok4, k4) \<Rightarrow>
                                               Some (if \<not> ok4 then (False, k4)
                                                 else InitKMalloc bootInfo k4)))"

section \<open>The physical memory manager after start-up\<close>

lemma PMM_Init_True [simp]: "fst (PMM_Init bi p) = True"
  by (simp add: PMM_Init_unfold)

lemma page_taken_ReservePages:
  assumes "pmm_wf p" and "page_taken p k"
  shows "page_taken (PMM_ReservePages a n p) k"
proof (cases "unat (PMM_AddressToPageNumber p a) + unat n \<le> pmm_size p")
  case True
  then show ?thesis using rs.bits_setr [OF pmm_wfD(1) [OF assms(1)] True] assms(2)
    by (simp add: PMM_ReservePages_def)
next
  case False
  then show ?thesis using rs.setr_refused [OF pmm_wfD(1) [OF assms(1)]] assms(2)
    by (simp add: PMM_ReservePages_def not_le)
qed

lemma page_taken_ReservePages_only:
  assumes "pmm_wf p" and "page_taken (PMM_ReservePages a n p) k"
  shows "page_taken p k \<or> unat (PMM_AddressToPageNumber p a) \<le> k \<and>
    k < unat (PMM_AddressToPageNumber p a) + unat n"
proof (cases "unat (PMM_AddressToPageNumber p a) + unat n \<le> pmm_size p")
  case True
  then show ?thesis using rs.bits_setr [OF pmm_wfD(1) [OF assms(1)] True] assms(2)
    by (simp add: PMM_ReservePages_def)
next
  case False
  then show ?thesis using rs.setr_refused [OF pmm_wfD(1) [OF assms(1)]] assms(2)
    by (simp add: PMM_ReservePages_def not_le)
qed

text \<open>Memory begins at address 0, as the first region of a memory map does on a PC.\<close>

definition memory_from_zero :: "BootInfo \<Rightarrow> bool" where
  "memory_from_zero bi \<longleftrightarrow>
     (\<exists>i < RegionCount (SystemMemoryMap bi). BaseAddress (Regions (SystemMemoryMap bi) i) = 0)"

lemma PMM_Init_start:
  assumes "memory_from_zero bi" and "bitmap_wf (pmm_Bitmap p)" and "pmm_size p \<le> 2 ^ 20"
  shows "pmm_StartAddress (snd (PMM_Init bi p)) = 0"
proof -
  have "fst (memory_bounds (SystemMemoryMap bi)) = 0"
    using assms(1) memory_bounds_after [of "SystemMemoryMap bi"]
    by (force simp: memory_from_zero_def bounds_after_def)
  then show ?thesis
    using PMM_Init_taken(3) [OF assms(2,3) refl, of bi] PMM_InitMemory_bounds(1) by simp
qed

definition pages_of :: "u32 \<Rightarrow> u32 \<Rightarrow> nat set" where
  "pages_of address count = {unat (address div 4096)..<unat (address div 4096) + unat count}"

lemma InitPhysicalMemoryManager_ok:
  assumes "memory_from_zero bi" and "bitmap_wf (pmm_Bitmap p)" and "pmm_size p \<le> 2 ^ 20"
    and "4096 \<le> pmm_size p"
  obtains q where "InitPhysicalMemoryManager bi p = (True, q)" and "pmm_wf q"
    and "pmm_StartAddress q = 0" and "pmm_size q = pmm_size p"
    and "\<And>k. k < 4096 \<Longrightarrow> page_taken q k"
    and "\<And>k. page_taken q k \<Longrightarrow> k < 4096 \<or> page_taken (snd (PMM_Init bi p)) k \<or>
      k \<in> pages_of (BootloaderPhysicalStartAddress bi) (BootloaderSize bi div 4096 + 1) \<or>
      k \<in> pages_of (KernelPhysicalStartAddress bi) (KernelSize bi div 4096)"
proof -
  let ?i = "snd (PMM_Init bi p)"
  let ?p1 = "PMM_ReservePages (BootloaderPhysicalStartAddress bi) (BootloaderSize bi div 4096 + 1) ?i"
  let ?p2 = "PMM_ReservePages (KernelPhysicalStartAddress bi) (KernelSize bi div 4096) ?p1"
  let ?p3 = "PMM_ReservePages 0 (0x1000000 div 4096) ?p2"
  let ?q = "PMM_ReservePage 0 ?p3"
  note I = PMM_Init_taken(1,2) [OF assms(2,3) refl, of bi] and st = PMM_Init_start [OF assms(1-3)]
  have wf: "pmm_wf ?i" "pmm_wf ?p1" "pmm_wf ?p2" "pmm_wf ?p3" "pmm_wf ?q"
    using I by (simp_all add: PMM_ReservePage_def)
  have num: "PMM_AddressToPageNumber r a = a div 4096" if "pmm_wf r" "pmm_StartAddress r = 0" for r a
    using that by (simp add: PMM_AddressToPageNumber_def pmm_wfD)
  have run: "InitPhysicalMemoryManager bi p = (True, ?q)"
    by (simp add: InitPhysicalMemoryManager_def Let_def split_beta)
  have start: "pmm_StartAddress ?p1 = 0" "pmm_StartAddress ?p2 = 0" "pmm_StartAddress ?p3 = 0"
    using st by simp_all
  have dma: "page_taken ?q k" if k: "k < 4096" for k
  proof -
    have "unat (PMM_AddressToPageNumber ?p2 0) + unat (0x1000000 div 4096 :: u32) \<le> pmm_size ?p2"
      using num [OF wf(3) start(2)] assms(4) wf I(2) by simp
    then have "page_taken ?p3 k"
      using rs.bits_setr [OF pmm_wfD(1) [OF wf(3)]] num [OF wf(3) start(2)] k
      by (simp add: PMM_ReservePages_def)
    then show ?thesis unfolding PMM_ReservePage_def by (rule page_taken_ReservePages [OF wf(4)])
  qed
  have only: "k < 4096 \<or> page_taken ?i k \<or>
      k \<in> pages_of (BootloaderPhysicalStartAddress bi) (BootloaderSize bi div 4096 + 1) \<or>
      k \<in> pages_of (KernelPhysicalStartAddress bi) (KernelSize bi div 4096)" if "page_taken ?q k" for k
    using that page_taken_ReservePages_only [OF wf(4), of 0 1 k] page_taken_ReservePages_only [OF wf(3)]
      page_taken_ReservePages_only [OF wf(2)] page_taken_ReservePages_only [OF wf(1)]
    unfolding PMM_ReservePage_def pages_of_def num [OF wf(1) st] num [OF wf(2) start(1)]
      num [OF wf(3) start(2)] num [OF wf(4) start(3)]
    by fastforce
  show ?thesis
    by (rule that [OF run wf(5)]) (use start wf I(2) dma only in \<open>simp_all add: PMM_ReservePage_def\<close>)
qed

section \<open>The physical manager after start-up\<close>

text \<open>
  The states that the clients of the manager can bring about from \<open>q\<close> on, with all results of \<^verbatim>\<open>AllocatePages\<close> so
  far, those included for which no run was long enough: they allocate, reserve, and free what an allocation has
  returned, null pointers included and other blocks in whole or in part, as often as they like.
\<close>

inductive pmm_reach :: "pmm \<Rightarrow> (u32 \<times> u32) set \<Rightarrow> pmm \<Rightarrow> bool" for q where
  start: "pmm_reach q {} q"
| allocate: "pmm_reach q gs p \<Longrightarrow> PMM_AllocatePages n p = (a, p') \<Longrightarrow> pmm_reach q (insert (a, n) gs) p'"
| reserve: "pmm_reach q gs p \<Longrightarrow> pmm_reach q gs (PMM_ReservePages a n p)"
| free: "pmm_reach q gs p \<Longrightarrow> (a, n) \<in> gs \<Longrightarrow> unat i + unat m \<le> unat n \<Longrightarrow>
    a \<noteq> 0 \<and> unat a + unat i * 4096 < 4294967296 \<or> i = 0 \<Longrightarrow> pmm_reach q gs (PMM_FreePages (a + i * 4096) m p)"

text \<open>The pages of the first 16 MB are taken, and what was returned is the null pointer or the address of another page.\<close>

definition dma_reserved :: "nat \<Rightarrow> (u32 \<times> u32) set \<Rightarrow> pmm \<Rightarrow> bool" where
  "dma_reserved lim gs p \<longleftrightarrow> pmm_wf p \<and> pmm_StartAddress p = 0 \<and> pmm_size p = lim \<and> (\<forall>k<4096. page_taken p k) \<and>
     (\<forall>a n. (a, n) \<in> gs \<longrightarrow> a = 0 \<or> (\<exists>s. a = of_nat s * 4096 \<and> 4096 \<le> s \<and> s < lim))"

lemma dma_reserved_AllocatePages:
  assumes inv: "dma_reserved lim gs p" and run: "PMM_AllocatePages n p = (a, p')"
  shows "dma_reserved lim (insert (a, n) gs) p'"
proof -
  have wf: "pmm_wf p" and start: "pmm_StartAddress p = 0" and sz: "pmm_size p = lim"
    and low: "\<And>k. k < 4096 \<Longrightarrow> page_taken p k" using inv by (simp_all add: dma_reserved_def)
  have high: "4096 \<le> s" if "\<not> page_taken p s" for s using that low [of s] by (cases "s < 4096") auto
  consider "n = 0" | r where "0 < n" "pmm_first_run p n = Some r" | "0 < n" "pmm_first_run p n = None"
    by (metis not_None_eq word_gt_0)
  then have "p' = p \<and> a = 0 \<or> (\<exists>s. a = of_nat s * 4096 \<and> 4096 \<le> s \<and> s < lim) \<and> pmm_wf p' \<and>
      pmm_StartAddress p' = 0 \<and> pmm_size p' = lim \<and> (\<forall>k<4096. page_taken p' k)"
  proof cases
    case 1
    then show ?thesis using run by (simp add: PMM_AllocatePages_def)
  next
    case (2 r)
    note R = PMM_AllocatePages_run [OF wf 2]
    have "0 < unat n" using 2(1) by (simp add: word_less_nat_alt)
    then have r: "4096 \<le> r" "r < lim" using R(3) [of r] R(4) high sz by (simp_all del: not_less)
    have "pmm_wf p'" "pmm_StartAddress p' = 0" "pmm_size p' = lim"
      using pmm_wf_AllocatePages [OF wf, of n] wf start sz run by (metis pmm_fields(4) snd_conv, metis pmm_fields(4) snd_conv,
          metis pmm_size_updates(4) snd_conv)
    then show ?thesis using R(1) [unfolded run] R(2) [unfolded run] r low start by auto
  next
    case 3
    let ?t = "free_tail (pmm_size p) (page_taken p)"
    note N = PMM_AllocatePages_no_run [OF wf 3]
    have "?t \<noteq> pmm_size p \<Longrightarrow> 4096 \<le> ?t \<and> ?t < lim"
      using free_tail_le [of "pmm_size p" "page_taken p"] free_tail_clear [of "pmm_size p" "page_taken p" ?t] high sz by simp
    then show ?thesis using N run wf start sz low by (auto split: if_splits)
  qed
  then show ?thesis using inv unfolding dma_reserved_def by blast
qed

lemma dma_reserved_FreePages:
  assumes inv: "dma_reserved lim gs p" and a: "(a, n) \<in> gs"
    and i: "a \<noteq> 0 \<and> unat a + unat i * 4096 < 4294967296 \<or> i = 0"
  shows "dma_reserved lim gs (PMM_FreePages (a + i * 4096) m p)"
proof (cases "a = 0")
  case True
  then show ?thesis using inv i by (simp add: PMM_FreePages_def)
next
  case False
  have top: "unat a + unat i * 4096 < 4294967296" using i by auto
  have wf: "pmm_wf p" and start: "pmm_StartAddress p = 0" and sz: "pmm_size p = lim"
    and low: "\<And>k. k < 4096 \<Longrightarrow> page_taken p k" using inv by (simp_all add: dma_reserved_def)
  obtain s where s: "a = of_nat s * 4096" "4096 \<le> s" "s < lim" using inv a False by (auto simp: dma_reserved_def)
  define j where "j = s + unat i"
  have lim: "lim \<le> 1048576" using pmm_wfD(3) [OF wf] sz by simp
  have "unat a = s * 4096" unfolding s(1) by (rule page_address_unat) (use s(3) lim in simp)
  then have j: "j < 1048576" using top by (simp add: j_def)
  have addr: "a + i * 4096 = of_nat j * 4096" by (simp add: s(1) j_def algebra_simps)
  have "unat (a + i * 4096) = j * 4096" unfolding addr using j by (rule page_address_unat)
  then have nz: "a + i * 4096 \<noteq> 0" using s(2) by (auto simp: j_def)
  have "page_taken (PMM_FreePages (a + i * 4096) m p) k" if k: "k < 4096" for k
  proof (cases "j + unat m \<le> lim")
    case True
    then show ?thesis
      using page_taken_FreePages [OF wf, of "a + i * 4096" j m k] nz low [OF k] k s(2) addr start sz by (simp add: j_def)
  next
    case no: False
    have "PMM_AddressToPageNumber p (a + i * 4096) = of_nat j"
      unfolding addr using j start pmm_wfD(2) [OF wf] page_round_trip [of j] by (simp add: PMM_AddressToPageNumber_def)
    then have "PMM_FreePages (a + i * 4096) m p = p"
      using rs.clearr_refused [OF pmm_wfD(1) [OF wf], of "of_nat j" m] no j sz nz
      by (simp add: PMM_FreePages_def unat_of_nat32 not_le)
    then show ?thesis using low [OF k] by simp
  qed
  then show ?thesis using inv wf unfolding dma_reserved_def by simp
qed

lemma pmm_reach_inv:
  assumes "pmm_reach q gs p" and "dma_reserved lim {} q"
  shows "dma_reserved lim gs p"
  using assms(1)
proof induction
  case start
  show ?case by (rule assms(2))
next
  case (allocate gs p n a p')
  then show ?case using dma_reserved_AllocatePages by blast
next
  case (reserve gs p a n)
  then show ?case using page_taken_ReservePages [of p] by (simp add: dma_reserved_def)
next
  case (free gs p a n i m)
  then show ?case using dma_reserved_FreePages by blast
qed

lemma dma_page_address:
  assumes "s < 1048576" and "4096 \<le> s"
  shows "(0x1000000 :: u32) \<le> of_nat s * 4096"
  using page_address_unat [OF assms(1)] assms(2) by (simp add: word_le_nat_alt)

lemma dma_reserved_results:
  assumes "dma_reserved lim gs p" and "(a, n) \<in> gs"
  shows "a = 0 \<or> 0x1000000 \<le> a"
proof (cases "a = 0")
  case False
  then obtain s where "a = of_nat s * 4096" "4096 \<le> s" "s < lim" using assms by (auto simp: dma_reserved_def)
  moreover have "lim \<le> 1048576" using assms(1) pmm_wfD(3) [of p] by (auto simp: dma_reserved_def)
  ultimately show ?thesis using dma_page_address [of s] by simp
qed simp

section \<open>The kernel mapping after start-up\<close>

text \<open>The addresses of the linker script, as far as the start-up code depends on them.\<close>

definition boot_layout :: "BootInfo \<Rightarrow> bool" where
  "boot_layout bi \<longleftrightarrow> KernelVirtualStartAddress bi = 0xC0000000 \<and>
     page_aligned (KernelPhysicalStartAddress bi) \<and>
     KernelPhysicalStartAddress bi \<le> KernelPhysicalEndAddress bi \<and>
     page_of (KernelPhysicalEndAddress bi) - page_of (KernelPhysicalStartAddress bi) \<le> 4096"

definition kernel_pages :: "BootInfo \<Rightarrow> nat" where
  "kernel_pages bi = page_of (KernelPhysicalEndAddress bi) - page_of (KernelPhysicalStartAddress bi)"

text \<open>
  Pages 0 to 1023 map to themselves; from page \<^verbatim>\<open>0xC0000\<close> on, 4 MB (or the kernel, if it is larger)
  map to the memory the kernel is loaded to.
\<close>

definition boot_mapping :: "BootInfo \<Rightarrow> nat \<rightharpoonup> u32" where
  "boot_mapping bi = range_map 786432 (max 1024 (kernel_pages bi)) (KernelPhysicalStartAddress bi)
     (range_map 0 1024 0 Map.empty)"

lemma kernel_page_count:
  assumes "boot_layout bi"
  shows "unat (KernelPhysicalEndAddress bi div PAGE_SIZE - KernelPhysicalStartAddress bi div PAGE_SIZE) =
    kernel_pages bi" and "kernel_pages bi \<le> 4096"
proof -
  have "KernelPhysicalStartAddress bi div PAGE_SIZE \<le> KernelPhysicalEndAddress bi div PAGE_SIZE"
    using assms by (simp add: boot_layout_def PAGE_SIZE_def word_le_nat_alt unat_div_distrib div_le_mono)
  then show "unat (KernelPhysicalEndAddress bi div PAGE_SIZE - KernelPhysicalStartAddress bi div PAGE_SIZE) =
      kernel_pages bi"
    by (simp add: unat_sub_le unat_div_distrib PAGE_SIZE_def kernel_pages_def page_of_def)
  show "kernel_pages bi \<le> 4096" using assms by (simp add: boot_layout_def kernel_pages_def)
qed

lemma range_map_append:
  "range_map (p + j) n (pa + of_nat j * 4096) (range_map p j pa m) = range_map p (j + n) pa m"
proof
  fix q
  show "range_map (p + j) n (pa + of_nat j * 4096) (range_map p j pa m) q = range_map p (j + n) pa m q"
  proof (cases "p + j \<le> q")
    case True
    then obtain i where "q = p + j + i" using le_Suc_ex by blast
    then show ?thesis by (simp add: range_map_def algebra_simps)
  qed (auto simp: range_map_def)
qed

lemma reload_frame:
  "vmm_wf mu (VMM_ReloadPageDirectory mu s) \<longleftrightarrow> vmm_wf mu s"
  "vmm_mapping mu (VMM_ReloadPageDirectory mu s) = vmm_mapping mu s"
  "last (cpu_trace (VMM_ReloadPageDirectory mu s)) =
    LoadPageDirectory (KernelVirtualToPhysicalAddress mu (addr_PageDirectory (VMM_ReloadPageDirectory mu s)))"
  by (simp_all add: VMM_ReloadPageDirectory_def trace_frame addr_PageDirectory_def)

lemma kernel_page_address:
  assumes "n \<le> 4096"
  shows "page_of (0xC0000000 + of_nat n * 4096) = 786432 + n"
    and "page_aligned (0xC0000000 + of_nat n * 4096)"
proof -
  have "unat (of_nat n * 4096 :: u32) = n * 4096" using assms by (intro page_address_unat) simp
  then have "unat (0xC0000000 + of_nat n * 4096 :: u32) = (786432 + n) * 4096"
    using assms by (simp add: unat_add_no_wrap)
  then show "page_of (0xC0000000 + of_nat n * 4096) = 786432 + n" by (simp add: page_of_def)
  show "page_aligned (0xC0000000 + of_nat n * 4096)"
    by (rule aligned_page_address) (simp add: page_aligned_def)
qed

text \<open>A range of the kernel's address space that is not mapped yet, from its \<open>k\<close>-th page on.\<close>

lemma map_kernel_pages:
  assumes "vmm_wf mu s" and "page_aligned pa" and "k \<le> 4096" and "unat c \<le> 4096"
    and free: "\<And>p. 786432 + k \<le> p \<Longrightarrow> p < 786432 + k + unat c \<Longrightarrow> vmm_mapping mu s p = None"
  obtains s' where "VMM_MapRange mu (0xC0000000 + of_nat k * 4096) pa True c s = Some (True, s')" and "vmm_wf mu s'"
    and "vmm_mapping mu s' = range_map (786432 + k) (unat c) pa (vmm_mapping mu s)"
proof -
  note va = kernel_page_address [OF assms(3)]
  have "mappable (vmm_mapping mu s) (page_of (0xC0000000 + of_nat k * 4096) + i)" if "i < unat c" for i
    unfolding va(1) mappable_def using that assms(3,4) by (intro conjI upper_pages_have_table free) simp_all
  moreover have "page_of (0xC0000000 + of_nat k * 4096) + unat c \<le> 1048576" unfolding va(1) using assms(3,4) by simp
  ultimately show ?thesis using vm.map_range_ok [OF assms(1) va(2) assms(2), of c True] that unfolding va(1) by blast
qed

text \<open>The first call of \<^verbatim>\<open>MapRange\<close>, for the 4 MB below.\<close>

lemma map_low_memory:
  assumes "vmm_wf mu s" and "vmm_mapping mu s = Map.empty"
  obtains s' where "VMM_MapRange mu 0 0 True 1024 s = Some (True, s')" and "vmm_wf mu s'"
    and "vmm_mapping mu s' = range_map 0 1024 0 Map.empty"
proof -
  have zero: "page_aligned 0" "page_of 0 = 0" by (simp_all add: page_aligned_def page_of_def)
  have "mappable (vmm_mapping mu s) (page_of 0 + i)" if "i < unat (1024 :: u32)" for i
    using that by (simp add: mappable_def assms(2) has_table_def zero)
  then show ?thesis
    using that by (rule_tac vm.map_range_ok [OF assms(1) zero(1) zero(1), of 1024 True]) (simp_all add: zero assms(2))
qed

lemma InitVirtualMemoryManager_ok:
  assumes layout: "boot_layout bi" and place: "vmm_place mu (snd (VMM_Init bi s0))"
  obtains s where "InitVirtualMemoryManager bi mu s0 = Some (True, s)" and "vmm_wf mu s"
    and "vmm_mapping mu s = boot_mapping bi"
    and "last (cpu_trace s) =
      LoadPageDirectory (KernelVirtualToPhysicalAddress mu (addr_PageDirectory s))"
proof -
  let ?n = "kernel_pages bi" and ?kp = "KernelPhysicalStartAddress bi"
  let ?c = "KernelPhysicalEndAddress bi div PAGE_SIZE - ?kp div PAGE_SIZE"
  note count = kernel_page_count [OF layout]
  have kv: "KernelVirtualStartAddress bi = 0xC0000000" and kp: "page_aligned ?kp" using layout by (simp_all add: boot_layout_def)
  have c: "?c = of_nat ?n" using count by (simp add: word_unat_eq_iff unat_of_nat32)
  have init: "fst (VMM_Init bi s0)" "0x400000 div PAGE_SIZE = 1024" by (simp_all add: VMM_Init_def PAGE_SIZE_def)
  have s: "vmm_wf mu (snd (VMM_Init bi s0))" "vmm_mapping mu (snd (VMM_Init bi s0)) = Map.empty"
    using VMM_Init_wf [OF prod.collapse [symmetric] place] by auto
  obtain s1 where s1: "VMM_MapRange mu 0 0 True 1024 (snd (VMM_Init bi s0)) = Some (True, s1)" "vmm_wf mu s1"
      "vmm_mapping mu s1 = range_map 0 1024 0 Map.empty"
    by (rule map_low_memory [OF s])
  obtain s2 where s2: "VMM_MapRange mu 0xC0000000 ?kp True ?c s1 = Some (True, s2)" "vmm_wf mu s2"
      "vmm_mapping mu s2 = range_map 786432 ?n ?kp (range_map 0 1024 0 Map.empty)"
    using map_kernel_pages [OF s1(2) kp, of 0 ?c] count s1(3) by (auto simp: range_map_def)
  have less: "?c < 1024 \<longleftrightarrow> ?n < 1024" using count(1) by (simp add: word_less_nat_alt)
  show ?thesis
  proof (cases "?n < 1024")
    case False
    then have "InitVirtualMemoryManager bi mu s0 = Some (True, VMM_ReloadPageDirectory mu s2)"
      using init s1(1) s2(1) less by (simp add: InitVirtualMemoryManager_def Let_def split_beta kv)
    moreover have "max 1024 ?n = ?n" using False by simp
    ultimately show ?thesis using s2
      by (intro that [of "VMM_ReloadPageDirectory mu s2"]) (simp_all only: reload_frame boot_mapping_def)
  next
    case True
    have rest: "unat (1024 - ?c) = 1024 - ?n" using less True count(1) by (simp add: unat_sub_le word_le_nat_alt)
    have pa: "page_aligned (?kp + of_nat ?n * 4096)" by (rule aligned_page_address [OF kp])
    have free: "vmm_mapping mu s2 p = None" if "786432 + ?n \<le> p" for p using that by (simp add: s2(3) range_map_def)
    obtain s3 where s3: "VMM_MapRange mu (0xC0000000 + of_nat ?n * 4096) (?kp + of_nat ?n * 4096) True (1024 - ?c) s2 =
        Some (True, s3)" "vmm_wf mu s3"
      "vmm_mapping mu s3 = range_map (786432 + ?n) (1024 - ?n) (?kp + of_nat ?n * 4096) (vmm_mapping mu s2)"
      by (rule map_kernel_pages [OF s2(2) pa count(2), of "1024 - ?c", unfolded rest]) (simp, rule free, assumption, blast)
    then have "InitVirtualMemoryManager bi mu s0 = Some (True, VMM_ReloadPageDirectory mu s3)"
      using init s1(1) s2(1) less True
      by (simp add: InitVirtualMemoryManager_def Let_def split_beta kv c) (simp add: PAGE_SIZE_def)
    moreover have "vmm_mapping mu s3 = boot_mapping bi"
      unfolding s3(3) s2(3) range_map_append boot_mapping_def using True by (simp add: max_def)
    ultimately show ?thesis using s3(2)
      by (intro that [of "VMM_ReloadPageDirectory mu s3"]) (simp_all only: reload_frame)
  qed
qed

section \<open>The whole start-up\<close>

text \<open>
  What the start-up code takes for granted: the layout of the linker script, the template sizes of the
  two bitmaps, the alignment of the virtual memory manager's object, an available memory region that
  covers 16 MB to 116 MB and that the bitmap accepts, and boot loader and kernel below 16 MB. The bitmap
  accepts a region that ends within its 512 MB; so a PC with 1024 MB is not meant here but in \<open>LittleMemory\<close>.
\<close>

definition boot_memory :: "BootInfo \<Rightarrow> pmm \<Rightarrow> bool" where
  "boot_memory bi p \<longleftrightarrow> memory_from_zero bi \<and>
     pages_of (BootloaderPhysicalStartAddress bi) (BootloaderSize bi div 4096 + 1) \<subseteq> {..<4096} \<and>
     pages_of (KernelPhysicalStartAddress bi) (KernelSize bi div 4096) \<subseteq> {..<4096} \<and>
     (\<exists>i < RegionCount (SystemMemoryMap bi). \<forall>k. 4096 \<le> k \<and> k < 29696 \<longrightarrow>
        region_frees (snd (PMM_Init bi p)) (Regions (SystemMemoryMap bi) i) k)"

definition kernel_objects :: "memory_state \<Rightarrow> bool" where
  "kernel_objects mm \<longleftrightarrow>
     bitmap_wf (pmm_Bitmap (g_KernelPMM mm)) \<and> TSize (pmm_Bitmap (g_KernelPMM mm)) = 131072 \<and>
     bitmap_wf (vma_Bitmap (g_KernelVMA mm)) \<and> TSize (vma_Bitmap (g_KernelVMA mm)) = 131072 \<and>
     page_aligned (vmm_this (g_KernelVMM mm)) \<and>
     unat (vmm_this (g_KernelVMM mm)) + 1060864 \<le> 4294967296"

text \<open>The first run that is long enough for the heap begins at 16 MB.\<close>

lemma InitPhysicalMemoryManager_run:
  assumes "boot_memory bi p" and "bitmap_wf (pmm_Bitmap p)" and "TSize (pmm_Bitmap p) = 131072"
  obtains q where "InitPhysicalMemoryManager bi p = (True, q)" and "pmm_wf q"
    and "pmm_StartAddress q = 0" and "pmm_size q = 131072" and "pmm_first_run q 25600 = Some 4096"
proof -
  have sz: "pmm_size p = 131072" using assms(3) by simp
  have from0: "memory_from_zero bi" using assms(1) by (simp add: boot_memory_def)
  obtain q where q: "InitPhysicalMemoryManager bi p = (True, q)" "pmm_wf q" "pmm_StartAddress q = 0"
      "pmm_size q = pmm_size p" "\<And>k. k < 4096 \<Longrightarrow> page_taken q k"
      "\<And>k. page_taken q k \<Longrightarrow> k < 4096 \<or> page_taken (snd (PMM_Init bi p)) k \<or>
        k \<in> pages_of (BootloaderPhysicalStartAddress bi) (BootloaderSize bi div 4096 + 1) \<or>
        k \<in> pages_of (KernelPhysicalStartAddress bi) (KernelSize bi div 4096)"
    using InitPhysicalMemoryManager_ok [OF from0 assms(2)] sz by auto
  obtain i where i: "i < RegionCount (SystemMemoryMap bi)" "\<And>k. 4096 \<le> k \<Longrightarrow> k < 29696 \<Longrightarrow>
      region_frees (snd (PMM_Init bi p)) (Regions (SystemMemoryMap bi) i) k"
    using assms(1) by (auto simp: boot_memory_def)
  have free: "\<not> page_taken q k" if k: "4096 \<le> k" "k < 29696" for k
  proof
    assume "page_taken q k"
    then have "page_taken (snd (PMM_Init bi p)) k"
      using q(6) [of k] k assms(1) by (fastforce simp: boot_memory_def)
    then show False
      using PMM_Init_taken(4) [OF assms(2) _ refl, of k bi] i(1) i(2) [OF k] k sz by auto
  qed
  have "run_free (pmm_size q) (page_taken q) 4096 25600"
    using free by (simp add: run_free_def q(4) sz)
  moreover have "\<not> run_free (pmm_size q) (page_taken q) t 25600" if "t < 4096" for t
    using q(5) [OF that] by (auto simp: run_free_def)
  ultimately have "pmm_first_run q 25600 = Some 4096" by (simp add: first_run_Some_iff)
  with q(1-4) sz show ?thesis by (intro that [of q]) simp_all
qed

lemma InitPhysicalMemoryManager_ready:
  assumes "boot_memory bi p" and "bitmap_wf (pmm_Bitmap p)" and "TSize (pmm_Bitmap p) = 131072"
  obtains q where "InitPhysicalMemoryManager bi p = (True, q)" and "pmm_wf q"
    and "pmm_StartAddress q = 0" and "fst (PMM_AllocatePages 25600 q) \<noteq> 0"
proof -
  obtain q where q: "InitPhysicalMemoryManager bi p = (True, q)" "pmm_wf q" "pmm_StartAddress q = 0"
      "pmm_first_run q 25600 = Some 4096" by (rule InitPhysicalMemoryManager_run [OF assms])
  then have "fst (PMM_AllocatePages 25600 q) \<noteq> 0" using PMM_AllocatePages_run(1) [OF q(2) _ q(4)] by simp
  with q(1-3) show ?thesis by (rule that)
qed

lemma InitVirtualMemoryAllocator_ok:
  assumes "boot_layout bi" and "bitmap_wf (vma_Bitmap v)" and "TSize (vma_Bitmap v) = 131072"
  obtains w where "InitVirtualMemoryAllocator bi v = (True, w)" and "vma_wf w"
    and "vma_StartAddress w = 0xC1000000" and "vma_size w = 131072"
    and "\<And>k. k < 131072 \<Longrightarrow> \<not> vpage_taken w k" and "free_unmapped w (boot_mapping bi)"
proof -
  let ?w = "snd (InitVirtualMemoryAllocator bi v)"
  have kv: "KernelVirtualStartAddress bi = 0xC0000000" using assms(1) by (simp add: boot_layout_def)
  have w: "fst (InitVirtualMemoryAllocator bi v)" "vma_StartAddress ?w = 0xC1000000" "vma_PageSize ?w = 4096"
      "vma_Bitmap ?w = Bitmap_ResetAll (vma_Bitmap v)"
    by (simp_all add: InitVirtualMemoryAllocator_def VMA_Init_def Let_def kv)
  have b: "bitmap_wf (vma_Bitmap ?w)" "vma_size ?w = 131072"
    using w(4) assms(2,3) by (simp_all add: bitmap_wf_def Bitmap_ResetAll_def)
  have taken: "\<not> vpage_taken ?w k" if "k < 131072" for k
    using bits_ResetAll [OF assms(2), of k] that assms(3) w(4) by simp
  have base: "vma_base ?w = 790528" unfolding w(2) by (simp add: page_of_def)
  have "vma_wf ?w" using w b by (simp add: vma_wf_def page_aligned_def page_of_def)
  moreover have "mappable (boot_mapping bi) (vma_base ?w + i)" if "i < 131072" for i
    using upper_pages_have_table [of "790528 + i"] kernel_page_count(2) [OF assms(1)] that
    by (simp add: mappable_def boot_mapping_def range_map_def base)
  then have "free_unmapped ?w (boot_mapping bi)" by (simp add: free_unmapped_def b(2))
  ultimately show ?thesis using w b(2) taken
    by (intro that [of ?w]) (simp_all add: prod_eq_iff)
qed

text \<open>The four managers one after the other, and then the heap.\<close>

lemma InitManagers_given:
  assumes layout: "boot_layout bi" and objects: "kernel_objects mm"
    and q: "InitPhysicalMemoryManager bi (g_KernelPMM mm) = (True, q)" "pmm_wf q" "pmm_StartAddress q = 0"
  obtains mu s v where "MemoryUtil_Init bi (k_MemoryUtil mm) = (True, mu)"
    and "InitVirtualMemoryManager bi mu (g_KernelVMM mm) = Some (True, s)"
    and "InitVirtualMemoryAllocator bi (g_KernelVMA mm) = (True, v)"
    and "memory_inv (mm\<lparr>k_MemoryUtil := mu, g_KernelPMM := q, g_KernelVMM := s, g_KernelVMA := v\<rparr>)"
    and "vma_StartAddress v = 0xC1000000" and "first_run (vma_size v) (vpage_taken v) 25600 = Some 0"
proof -
  note O = objects [unfolded kernel_objects_def]
  define mu where "mu = snd (MemoryUtil_Init bi (k_MemoryUtil mm))"
  have mu: "MemoryUtil_Init bi (k_MemoryUtil mm) = (True, mu)"
      "s_KernelVirtualStartAddress mu = KernelVirtualStartAddress bi"
      "s_KernelPhysicalStartAddress mu = KernelPhysicalStartAddress bi"
    by (simp_all add: mu_def MemoryUtil_Init_def)
  have "vmm_place mu (snd (VMM_Init bi (g_KernelVMM mm)))"
    using O layout mu(2,3) by (simp add: vmm_place_def VMM_Init_def boot_layout_def page_aligned_def)
  then obtain s where s: "InitVirtualMemoryManager bi mu (g_KernelVMM mm) = Some (True, s)"
      "vmm_wf mu s" "vmm_mapping mu s = boot_mapping bi"
    using InitVirtualMemoryManager_ok [OF layout] by blast
  obtain v where v: "InitVirtualMemoryAllocator bi (g_KernelVMA mm) = (True, v)" "vma_wf v"
      "vma_StartAddress v = 0xC1000000" "vma_size v = 131072" "\<And>k. k < 131072 \<Longrightarrow> \<not> vpage_taken v k"
      "free_unmapped v (boot_mapping bi)"
    using InitVirtualMemoryAllocator_ok [OF layout] O by blast
  have "memory_inv (mm\<lparr>k_MemoryUtil := mu, g_KernelPMM := q, g_KernelVMM := s, g_KernelVMA := v\<rparr>)"
    using q(2,3) s(2,3) v(2,6) by (simp add: memory_inv_def page_aligned_def)
  moreover have "first_run (vma_size v) (vpage_taken v) 25600 = Some 0"
    using v(4,5) by (simp add: first_run_Some_iff run_free_def)
  ultimately show ?thesis using v(3) by (intro that [OF mu(1) s(1) v(1)]) simp_all
qed

lemma InitManagers_ok:
  assumes layout: "boot_layout bi" and memory: "boot_memory bi (g_KernelPMM mm)" and objects: "kernel_objects mm"
  obtains mu q s v where "MemoryUtil_Init bi (k_MemoryUtil mm) = (True, mu)"
    and "InitPhysicalMemoryManager bi (g_KernelPMM mm) = (True, q)"
    and "InitVirtualMemoryManager bi mu (g_KernelVMM mm) = Some (True, s)"
    and "InitVirtualMemoryAllocator bi (g_KernelVMA mm) = (True, v)"
    and "memory_inv (mm\<lparr>k_MemoryUtil := mu, g_KernelPMM := q, g_KernelVMM := s, g_KernelVMA := v\<rparr>)"
    and "vma_StartAddress v = 0xC1000000" and "first_run (vma_size v) (vpage_taken v) 25600 = Some 0"
    and "fst (PMM_AllocatePages 25600 q) \<noteq> 0"
proof -
  obtain q where q: "InitPhysicalMemoryManager bi (g_KernelPMM mm) = (True, q)" "pmm_wf q"
      "pmm_StartAddress q = 0" "fst (PMM_AllocatePages 25600 q) \<noteq> 0"
    using InitPhysicalMemoryManager_ready [OF memory] objects by (auto simp: kernel_objects_def)
  show ?thesis
    by (rule InitManagers_given [OF layout objects q(1-3)]) (use that q(1,4) in blast)
qed

lemma kernel_heap_ok:
  assumes "memory_inv (k_managers k)" and "vma_StartAddress (g_KernelVMA (k_managers k)) = 0xC1000000"
    and "first_run (vma_size (g_KernelVMA (k_managers k))) (vpage_taken (g_KernelVMA (k_managers k))) 25600 = Some 0"
    and "fst (PMM_AllocatePages 25600 (g_KernelPMM (k_managers k))) \<noteq> 0"
  obtains k' where "Heap_Init (100 * 1048576) k = Some (True, k')" and "memory_inv (k_managers k')"
    and "heap_wf (g_KernelHeap k') (k_bytes k') []" and "m_StartAddress (g_KernelHeap k') = 0xC1000000"
    and "m_EndAddress (g_KernelHeap k') = 0xC7400000"
proof -
  have down: "AlignDown 104857600 4096 = 104857600" by (simp add: AlignDown_def)
  have "VMA_ready (AlignDown 104857600 4096 div 4096) (k_managers k)"
    using assms(4) by (simp add: VMA_ready_def down)
  then obtain k' where k': "Heap_Init 104857600 k = Some (True, k')" "memory_inv (k_managers k')"
      "heap_wf (g_KernelHeap k') (k_bytes k') []" "m_StartAddress (g_KernelHeap k') = 0xC1000000"
      "m_EndAddress (g_KernelHeap k') = 0xC7400000"
    by (rule Heap_Init_ok [of k 104857600 0, rotated 3]) (use assms(1-3) in \<open>simp_all add: down\<close>)
  then show ?thesis by (intro that [of k']) simp_all
qed

lemma InitMemoryManager_ok:
  assumes layout: "boot_layout bi" and memory: "boot_memory bi (g_KernelPMM (k_managers k))"
    and objects: "kernel_objects (k_managers k)"
  obtains k' where "InitMemoryManager bi k = Some (True, k')" and "memory_inv (k_managers k')"
    and "heap_wf (g_KernelHeap k') (k_bytes k') []"
    and "m_StartAddress (g_KernelHeap k') = 0xC1000000"
    and "m_EndAddress (g_KernelHeap k') = 0xC7400000"
proof -
  let ?mm = "k_managers k"
  obtain mu q s v where M: "MemoryUtil_Init bi (k_MemoryUtil ?mm) = (True, mu)"
    "InitPhysicalMemoryManager bi (g_KernelPMM ?mm) = (True, q)"
    "InitVirtualMemoryManager bi mu (g_KernelVMM ?mm) = Some (True, s)"
    "InitVirtualMemoryAllocator bi (g_KernelVMA ?mm) = (True, v)"
    "memory_inv (?mm\<lparr>k_MemoryUtil := mu, g_KernelPMM := q, g_KernelVMM := s, g_KernelVMA := v\<rparr>)"
    "vma_StartAddress v = 0xC1000000" "first_run (vma_size v) (vpage_taken v) 25600 = Some 0"
    "fst (PMM_AllocatePages 25600 q) \<noteq> 0"
    by (rule InitManagers_ok [OF assms])
  let ?k = "k\<lparr>k_managers := ?mm\<lparr>k_MemoryUtil := mu, g_KernelPMM := q, g_KernelVMM := s, g_KernelVMA := v\<rparr>\<rparr>"
  obtain k' where k': "Heap_Init (100 * 1048576) ?k = Some (True, k')" "memory_inv (k_managers k')"
      "heap_wf (g_KernelHeap k') (k_bytes k') []" "m_StartAddress (g_KernelHeap k') = 0xC1000000"
      "m_EndAddress (g_KernelHeap k') = 0xC7400000"
    by (rule kernel_heap_ok [of ?k]) (use M(5-8) in simp_all)
  have "InitMemoryManager bi k = Some (True, k')"
    using M(1-4) k'(1) by (simp add: InitMemoryManager_def InitKernelHeap_def InitKMalloc_def Let_def)
  from this k'(2-5) show ?thesis by (rule that)
qed

text \<open>A PC with 128 MB of memory, and the kernel's objects before start-up, for the witnesses.\<close>

definition boot_128 :: BootInfo where
  "boot_128 = boot_2\<lparr>SystemMemoryMap := \<lparr>MemoryAddressLow = 0x9FC00, MemoryAddressHigh = 0x7EE0000,
     RegionCount = 1, Regions = (\<lambda>_. \<lparr>BaseAddress = 0, Length = 0x8000000, Type = Available\<rparr>)\<rparr>\<rparr>"

definition bitmap_131072 :: bitmap where
  "bitmap_131072 = \<lparr>TSize = 131072, m_Bits = replicate 131072 0\<rparr>"

definition kernel_0 :: kernel_state where
  "kernel_0 = \<lparr>k_managers = memory_0\<lparr>g_KernelPMM := pmm_16\<lparr>pmm_Bitmap := bitmap_131072\<rparr>,
     g_KernelVMA := vma_32\<lparr>vma_Bitmap := bitmap_131072\<rparr>\<rparr>, g_KernelHeap = heap_0, k_bytes = (\<lambda>_. 0)\<rparr>"

lemma bitmap_131072_wf: "bitmap_wf bitmap_131072" "TSize bitmap_131072 = 131072"
  by (simp_all add: bitmap_wf_def bitmap_131072_def)

lemma boot_128_layout: "boot_layout boot_128"
  by (simp add: boot_layout_def boot_128_def boot_2_def page_aligned_def page_of_def)

lemma boot_128_from_zero: "memory_from_zero boot_128"
  by (auto simp: memory_from_zero_def boot_128_def)

lemma kernel_0_objects: "kernel_objects (k_managers kernel_0)"
  using bitmap_131072_wf
  by (simp add: kernel_objects_def kernel_0_def memory_0_def vmm_0_def page_aligned_def)

lemma boot_128_memory: "boot_memory boot_128 (g_KernelPMM (k_managers kernel_0))"
proof -
  let ?p = "pmm_16\<lparr>pmm_Bitmap := bitmap_131072\<rparr>"
  let ?q = "snd (PMM_Init boot_128 ?p)"
  have p: "bitmap_wf (pmm_Bitmap ?p)" "pmm_size ?p \<le> 2 ^ 20" "pmm_size ?p = 131072"
    using bitmap_131072_wf by simp_all
  note I = PMM_Init_taken(1,2) [OF p(1,2) refl, of boot_128]
  have q: "pmm_StartAddress ?q = 0" "pmm_PageSize ?q = 4096" "pmm_size ?q = 131072"
    using PMM_Init_start [OF boot_128_from_zero p(1,2)] pmm_wfD(2) [OF I(1)] I(2) p(3) by simp_all
  have "region_frees ?q (Regions (SystemMemoryMap boot_128) 0) k" if "k < 29696" for k
    using that q by (simp add: region_frees_def boot_128_def PMM_AddressToPageNumber_def)
  then show ?thesis
    using boot_128_from_zero
    by (auto simp: boot_memory_def kernel_0_def memory_0_def pages_of_def boot_128_def boot_2_def)
qed

section \<open>Properties\<close>

text \<open>
  C18: When memory begins at address 0 and the bitmap has at least 4096 pages, \<^verbatim>\<open>InitPhysicalMemoryManager\<close> leaves
  every page below 16 MB taken, and they stay taken whatever the clients allocate and reserve afterwards, and whatever they free of
  what an allocation has returned, failed allocations and blocks freed twice or in parts included. So whatever an
  allocation returns is the null pointer or at least 16 MB, and in every such state a request for which there is a run
  of free pages gets an address of at least 16 MB.
\<close>

theorem init_keeps_dma_memory_reserved:
  assumes "memory_from_zero bi" and "bitmap_wf (pmm_Bitmap p)" and "pmm_size p \<le> 2 ^ 20"
    and "4096 \<le> pmm_size p" and "InitPhysicalMemoryManager bi p = (ok, q)" and "pmm_reach q gs p'"
  shows "ok \<and> pmm_wf p' \<and> (\<forall>k<4096. page_taken p' k) \<and>
    (\<forall>a n. (a, n) \<in> gs \<longrightarrow> a = 0 \<or> 0x1000000 \<le> a) \<and>
    (\<forall>n r. 0 < n \<and> pmm_first_run p' n = Some r \<longrightarrow>
       0x1000000 \<le> fst (PMM_AllocatePages n p'))"
proof (rule InitPhysicalMemoryManager_ok [OF assms(1-4)])
  fix q'
  assume q: "InitPhysicalMemoryManager bi p = (True, q')" "pmm_wf q'" "pmm_StartAddress q' = 0"
    "\<And>k. k < 4096 \<Longrightarrow> page_taken q' k"
  then have "dma_reserved (pmm_size q) {} q" using assms(5) by (auto simp: dma_reserved_def)
  from pmm_reach_inv [OF assms(6) this] have inv: "dma_reserved (pmm_size q) gs p'" .
  have "0x1000000 \<le> fst (PMM_AllocatePages n p')" if n: "0 < n" "pmm_first_run p' n = Some r" for n r
  proof -
    have wf: "pmm_wf p'" "pmm_StartAddress p' = 0" "\<And>k. k < 4096 \<Longrightarrow> page_taken p' k"
      using inv by (simp_all add: dma_reserved_def)
    note run = PMM_AllocatePages_run [OF wf(1) n]
    have "0 < unat n" using n(1) by (simp add: word_less_nat_alt)
    then have r: "r < pmm_size p'" "4096 \<le> r"
      using run(3) [of r] run(4) wf(3) [of r] by (simp, cases "r < 4096", auto)
    then show ?thesis using run(1) wf(2) dma_page_address [OF _ r(2)] pmm_wfD(3) [OF wf(1)] by simp
  qed
  with inv q(1) assms(5) dma_reserved_results [OF inv] show ?thesis by (auto simp: dma_reserved_def)
qed

text \<open>A PC with 128 MB: four pages are allocated and given back.\<close>

theorem init_keeps_dma_memory_reserved_witness:
  "\<exists>gs p'. pmm_reach (snd (InitPhysicalMemoryManager boot_128 (g_KernelPMM (k_managers kernel_0)))) gs p' \<and>
     gs \<noteq> {} \<and> page_taken p' 4095"
proof -
  let ?q = "snd (InitPhysicalMemoryManager boot_128 (g_KernelPMM (k_managers kernel_0)))"
  obtain a p1 where p1: "PMM_AllocatePages 4 ?q = (a, p1)" by (cases "PMM_AllocatePages 4 ?q")
  have p: "bitmap_wf (pmm_Bitmap (g_KernelPMM (k_managers kernel_0)))"
    "pmm_size (g_KernelPMM (k_managers kernel_0)) = 131072"
    using kernel_0_objects by (simp_all add: kernel_objects_def)
  then have sz: "pmm_size (g_KernelPMM (k_managers kernel_0)) \<le> 2 ^ 20" "4096 \<le> pmm_size (g_KernelPMM (k_managers kernel_0))"
    by simp_all
  note ok = init_keeps_dma_memory_reserved [OF boot_128_from_zero p(1) sz prod.collapse [symmetric]]
  have r1: "pmm_reach ?q {(a, 4)} p1" using pmm_reach.allocate [OF pmm_reach.start p1] by simp
  have r2: "pmm_reach ?q {(a, 4)} (PMM_FreePages (a + 0 * 4096) 4 p1)" by (rule pmm_reach.free [OF r1, where n = 4]) simp_all
  have "page_taken (PMM_FreePages (a + 0 * 4096) 4 p1) 4095" using ok [OF r2] by simp
  with r2 show ?thesis by blast
qed

text \<open>
  C17: \<^verbatim>\<open>InitVirtualMemoryManager\<close> succeeds on the layout of the linker script and leaves exactly two
  ranges mapped: the first 4 MB to themselves, and from \<^verbatim>\<open>0xC0000000\<close> on 4 MB, or the whole kernel
  image if it is larger, to the memory the kernel is loaded to; the last thing it does is to load the
  page directory's physical address.
\<close>

theorem init_maps_low_memory_and_kernel:
  assumes "boot_layout bi" and "vmm_place mu (snd (VMM_Init bi s0))"
  shows "\<exists>s. InitVirtualMemoryManager bi mu s0 = Some (True, s) \<and> vmm_wf mu s \<and>
    (\<forall>p. vmm_mapping mu s p =
      (if p < 1024 then Some (of_nat p * 4096)
       else if 786432 \<le> p \<and> p < 786432 + max 1024 (kernel_pages bi)
       then Some (KernelPhysicalStartAddress bi + of_nat (p - 786432) * 4096) else None)) \<and>
    last (cpu_trace s) = LoadPageDirectory (KernelVirtualToPhysicalAddress mu (addr_PageDirectory s))"
proof (rule InitVirtualMemoryManager_ok [OF assms])
  fix s
  assume s: "InitVirtualMemoryManager bi mu s0 = Some (True, s)" "vmm_wf mu s"
    "vmm_mapping mu s = boot_mapping bi"
    "last (cpu_trace s) = LoadPageDirectory (KernelVirtualToPhysicalAddress mu (addr_PageDirectory s))"
  then show ?thesis by (intro exI [of _ s]) (auto simp: boot_mapping_def range_map_def)
qed

theorem init_maps_low_memory_and_kernel_witness:
  "\<exists>s. InitVirtualMemoryManager boot_128 mu_0 vmm_0 = Some (True, s) \<and>
     vmm_mapping mu_0 s 786433 = Some 0x201000"
proof -
  have "vmm_place mu_0 (snd (VMM_Init boot_128 vmm_0))"
    by (simp add: vmm_place_def VMM_Init_def vmm_0_def mu_0_def boot_128_def boot_2_def)
  from init_maps_low_memory_and_kernel [OF boot_128_layout this] show ?thesis
    by (auto simp: boot_128_def boot_2_def)
qed

end
