(* ===== verification/KMalloc.thy ===== *)
theory KMalloc
  imports Heap
begin

text \<open>
  \<^verbatim>\<open>Kernel/Memory/KMalloc.{h,cpp}\<close>, \<^verbatim>\<open>Kernel/ESTD/StdLib.{h,cpp}\<close> and the two allocating functions of
  \<^verbatim>\<open>Kernel/ESTD/CString.cpp\<close>: the clients' view of the heap. The locale \<open>byte_allocator\<close> is that view, a
  set of addresses that belong to the clients and grows with every allocation; it is interpreted on
  \<^verbatim>\<open>KMalloc\<close> over the kernel's heap.
\<close>

section \<open>Operations\<close>

definition KMallocInit :: "kernel_state \<Rightarrow> bool \<times> kernel_state" where
  "KMallocInit k = (True, k)"

definition KMalloc :: "u32 \<Rightarrow> kernel_state \<Rightarrow> (u32 \<times> kernel_state) option" where
  "KMalloc n k = do {
     (ptr, h, m) \<leftarrow> Heap_Allocate n (g_KernelHeap k) (k_bytes k);
     Some (ptr, k\<lparr>g_KernelHeap := h, k_bytes := m\<rparr>)
   }"

definition KZAlloc :: "u32 \<Rightarrow> kernel_state \<Rightarrow> (u32 \<times> kernel_state) option" where
  "KZAlloc n k = do {
     (ptr, h, m) \<leftarrow> Heap_Allocate n (g_KernelHeap k) (k_bytes k);
     (let k1 = k\<lparr>g_KernelHeap := h, k_bytes := m\<rparr>
      in if ptr = 0 then Some (0, k1)
         else Some (ptr, k1\<lparr>k_bytes := Memset ptr 0x0 n (k_bytes k1)\<rparr>))
   }"

definition KFree :: "u32 \<Rightarrow> kernel_state \<Rightarrow> kernel_state" where
  "KFree ptr k = k\<lparr>k_bytes := Heap_Free ptr (k_bytes k)\<rparr>"

definition operator_new :: "u32 \<Rightarrow> kernel_state \<Rightarrow> (u32 \<times> kernel_state) option" where
  "operator_new n k = KMalloc n k"

definition operator_new_array :: "u32 \<Rightarrow> kernel_state \<Rightarrow> (u32 \<times> kernel_state) option" where
  "operator_new_array n k = KMalloc n k"

definition operator_delete :: "u32 \<Rightarrow> kernel_state \<Rightarrow> kernel_state" where
  "operator_delete ptr k = KFree ptr k"

definition operator_delete_array :: "u32 \<Rightarrow> kernel_state \<Rightarrow> kernel_state" where
  "operator_delete_array ptr k = KFree ptr k"

definition operator_delete_sized :: "u32 \<Rightarrow> u32 \<Rightarrow> kernel_state \<Rightarrow> kernel_state" where
  "operator_delete_sized ptr n k = KFree ptr k"

definition operator_delete_array_sized :: "u32 \<Rightarrow> u32 \<Rightarrow> kernel_state \<Rightarrow> kernel_state" where
  "operator_delete_array_sized ptr n k = KFree ptr k"

definition ESTD_Malloc :: "u32 \<Rightarrow> kernel_state \<Rightarrow> (u32 \<times> kernel_state) option" where
  "ESTD_Malloc n k = KMalloc n k"

definition ESTD_Free :: "u32 \<Rightarrow> kernel_state \<Rightarrow> kernel_state" where
  "ESTD_Free ptr k = KFree ptr k"

text \<open>
  The copies write the terminator after the test of the pointer, so a null result of \<^verbatim>\<open>new\<close> is written
  to as well. \<open>None\<close> is a string without terminator or a heap whose walk does not end.
\<close>

definition Strdup :: "u32 \<Rightarrow> kernel_state \<Rightarrow> (u32 \<times> kernel_state) option" where
  "Strdup str k = do {
     n \<leftarrow> Strlen (k_bytes k) str;
     (let num = n + 1 in do {
       (dup, k1) \<leftarrow> operator_new_array num k;
       (let m = (if dup \<noteq> 0 then Strncpy dup str num (k_bytes k1) else k_bytes k1)
        in Some (dup, k1\<lparr>k_bytes := m(dup + (num - 1) := 0)\<rparr>))
     })
   }"

definition Strndup :: "u32 \<Rightarrow> u32 \<Rightarrow> kernel_state \<Rightarrow> (u32 \<times> kernel_state) option" where
  "Strndup str num k = do {
     (dup, k1) \<leftarrow> operator_new_array (num + 1) k;
     (let m = (if dup \<noteq> 0 then Strncpy dup str num (k_bytes k1) else k_bytes k1)
      in Some (dup, k1\<lparr>k_bytes := m(dup + num := 0)\<rparr>))
   }"

lemmas allocator_names = operator_new_def operator_new_array_def operator_delete_def
  operator_delete_array_def ESTD_Malloc_def ESTD_Free_def

section \<open>The contract of an allocator\<close>

text \<open>
  \<open>client s\<close> is the set of addresses clients may use in state \<open>s\<close>. An allocation returns a block that
  was not theirs before, keeps all of their bytes, and adds the block; a client that writes only to its
  own addresses cannot break the allocator.
\<close>

definition block_of :: "u32 \<Rightarrow> u32 \<Rightarrow> nat set" where
  "block_of a n = {unat a..<unat a + unat n}"

locale byte_allocator =
  fixes alloc :: "u32 \<Rightarrow> 's \<Rightarrow> (u32 \<times> 's) option"
    and bytes :: "'s \<Rightarrow> mem" and set_bytes :: "mem \<Rightarrow> 's \<Rightarrow> 's"
    and inv :: "'s \<Rightarrow> bool" and client :: "'s \<Rightarrow> nat set" and room :: "u32 \<Rightarrow> 's \<Rightarrow> bool"
  assumes alloc_law: "inv s \<Longrightarrow> n \<noteq> 0 \<Longrightarrow> room n s \<Longrightarrow>
      \<exists>a s'. alloc n s = Some (a, s') \<and> inv s' \<and> a \<noteq> 0 \<and> unat a + unat n < 4294967296 \<and>
        client s \<inter> block_of a n = {} \<and> client s \<union> block_of a n \<subseteq> client s' \<and>
        same_bytes (client s) (bytes s) (bytes s')"
    and write_law: "inv s \<Longrightarrow> same_bytes ({..<4294967296} - client s) (bytes s) m \<Longrightarrow>
      inv (set_bytes m s) \<and> client (set_bytes m s) = client s \<and> bytes (set_bytes m s) = m"
    and client_range: "inv s \<Longrightarrow> client s \<subseteq> {..<4294967296}"
begin

text \<open>A client allocates a block and fills it: everything else of the clients stays as it was.\<close>

lemma alloc_fill:
  assumes "inv s" and "n \<noteq> 0" and "room n s"
  obtains a s' where "alloc n s = Some (a, s')" and "inv s'" and "a \<noteq> 0"
    and "unat a + unat n < 4294967296" and "client s \<inter> block_of a n = {}"
    and "same_bytes (client s) (bytes s) (bytes s')"
    and "\<And>m. same_bytes ({..<4294967296} - block_of a n) (bytes s') m \<Longrightarrow>
      inv (set_bytes m s') \<and> bytes (set_bytes m s') = m \<and>
      client s \<union> block_of a n \<subseteq> client (set_bytes m s') \<and> same_bytes (client s) (bytes s) m"
proof -
  from alloc_law [OF assms] obtain a s' where A: "alloc n s = Some (a, s')" "inv s'" "a \<noteq> 0"
    "unat a + unat n < 4294967296" "client s \<inter> block_of a n = {}"
    "client s \<union> block_of a n \<subseteq> client s'" "same_bytes (client s) (bytes s) (bytes s')"
    by blast
  have "inv (set_bytes m s') \<and> bytes (set_bytes m s') = m \<and>
      client s \<union> block_of a n \<subseteq> client (set_bytes m s') \<and> same_bytes (client s) (bytes s) m"
    if m: "same_bytes ({..<4294967296} - block_of a n) (bytes s') m" for m
  proof -
    have "same_bytes ({..<4294967296} - client s') (bytes s') m"
      using A(6) by (intro same_bytes_mono [OF m]) blast
    then have "inv (set_bytes m s') \<and> client (set_bytes m s') = client s' \<and> bytes (set_bytes m s') = m"
      by (rule write_law [OF A(2)])
    moreover have "same_bytes (client s) (bytes s') m"
      using A(5) client_range [OF assms(1)] by (intro same_bytes_mono [OF m]) blast
    ultimately show ?thesis using A(6,7) same_bytes_trans by blast
  qed
  with A that show ?thesis by blast
qed

lemma alloc_twice_disjoint:
  assumes "inv s" and "n \<noteq> 0" and "room n s" and "alloc n s = Some (a, s')"
    and "n' \<noteq> 0" and "room n' s'" and "alloc n' s' = Some (a', s'')"
  shows "block_of a n \<inter> block_of a' n' = {}"
proof -
  have "inv s'" "block_of a n \<subseteq> client s'" using alloc_law [OF assms(1-3)] assms(4) by auto
  then show ?thesis using alloc_law [of s' n'] assms(5-7) by auto
qed

end

section \<open>The kernel heap as an allocator\<close>

lemma chain_unique:
  assumes "chain m a p bs e nx" and "chain m a p bs' e nx'" and "e < 4294967296"
  shows "bs = bs'"
  using assms
proof (induction bs arbitrary: a p bs')
  case Nil
  then show ?case using block_bounds(2) [OF Nil.prems(2), of 0] by (cases bs') auto
next
  case (Cons b bs)
  have le: "a + fst b + 13 \<le> e" using block_bounds(2) [OF Cons.prems(1), of 0] by simp
  obtain c cs where bs': "bs' = c # cs" using Cons.prems(2) le by (cases bs') auto
  have le': "a + fst c + 13 \<le> e" using block_bounds(2) [OF Cons.prems(2), of 0] bs' by simp
  have "(of_nat (fst b) :: u32) = of_nat (fst c)" using Cons.prems(1,2) bs' by simp
  then have "fst b = fst c" using of_nat_inj32 [of "fst b" "fst c"] le le' Cons.prems(3) by simp
  moreover have "snd b = snd c" using Cons.prems(1,2) bs' by simp
  ultimately have "b = c" by (rule prod_eqI)
  with Cons.IH [of "a + fst b + 13" a cs] Cons.prems bs' show ?case by simp
qed

lemma heap_wf_unique: "heap_wf h m bs \<Longrightarrow> heap_wf h m bs' \<Longrightarrow> bs = bs'"
  unfolding heap_wf_def using chain_unique unat_lt_2p32 by blast

text \<open>
  What belongs to the clients: the payloads of the blocks in use, and all memory that is not between the
  bounds of the heap.
\<close>

definition used_payloads :: "heap \<Rightarrow> block list \<Rightarrow> nat set" where
  "used_payloads h bs = {x. \<exists>i<length bs. snd (bs ! i) = HeapReserved \<and>
     x \<in> payload (unat (m_StartAddress h)) bs i}"

definition heap_client :: "heap \<Rightarrow> block list \<Rightarrow> nat set" where
  "heap_client h bs = {x. x < 4294967296 \<and>
     (x < unat (m_StartAddress h) \<or> unat (m_EndAddress h) \<le> x \<or> x \<in> used_payloads h bs)}"

definition kernel_client :: "kernel_state \<Rightarrow> nat set" where
  "kernel_client k = {x. \<exists>bs. heap_wf (g_KernelHeap k) (k_bytes k) bs \<and> x \<in> heap_client (g_KernelHeap k) bs}"

text \<open>The heap is well formed, ends inside its pages, and has them for at least one header.\<close>

definition heap_fits :: "heap \<Rightarrow> bool" where
  "heap_fits h \<longleftrightarrow> unat (m_CurrentAddress h) \<le> unat (m_EndAddress h) \<and>
     unat (m_StartAddress h) + 13 \<le> unat (m_EndAddress h)"

definition heap_inv :: "kernel_state \<Rightarrow> bool" where
  "heap_inv k \<longleftrightarrow> (\<exists>bs. heap_wf (g_KernelHeap k) (k_bytes k) bs) \<and> heap_fits (g_KernelHeap k)"

definition heap_room :: "u32 \<Rightarrow> kernel_state \<Rightarrow> bool" where
  "heap_room n k \<longleftrightarrow>
     unat (m_CurrentAddress (g_KernelHeap k)) + unat n + 13 \<le> unat (m_EndAddress (g_KernelHeap k))"

lemma kernel_client_eq:
  "heap_wf (g_KernelHeap k) (k_bytes k) bs \<Longrightarrow> kernel_client k = heap_client (g_KernelHeap k) bs"
proof -
  assume wf: "heap_wf (g_KernelHeap k) (k_bytes k) bs"
  have "heap_wf (g_KernelHeap k) (k_bytes k) bs' \<longleftrightarrow> bs' = bs" for bs'
    using wf heap_wf_unique by blast
  then show ?thesis by (simp add: kernel_client_def)
qed

lemma heap_wf_chain:
  "heap_wf h m bs \<Longrightarrow> chain m (unat (m_StartAddress h)) 0 bs (unat (m_CurrentAddress h)) 0"
  by (simp add: heap_wf_def)

lemma used_payloads_below:
  assumes "heap_wf h m bs"
  shows "used_payloads h bs \<subseteq> {unat (m_StartAddress h)..<unat (m_CurrentAddress h)}"
  using payload_below [OF heap_wf_chain [OF assms]] by (fastforce simp: used_payloads_def)

lemma header_bytes_below:
  assumes "heap_wf h m bs"
  shows "header_bytes (unat (m_StartAddress h)) bs \<subseteq> {unat (m_StartAddress h)..<unat (m_CurrentAddress h)}"
  using block_bounds [OF heap_wf_chain [OF assms]] by (fastforce simp: header_bytes_def)

lemma client_header_disjoint:
  assumes "heap_wf h m bs" and "heap_fits h"
  shows "heap_client h bs \<inter> header_bytes (unat (m_StartAddress h)) bs = {}"
proof -
  have "used_payloads h bs \<inter> header_bytes (unat (m_StartAddress h)) bs = {}"
    using payload_headers by (fastforce simp: used_payloads_def)
  then show ?thesis
    using header_bytes_below [OF assms(1)] assms(2) by (fastforce simp: heap_client_def heap_fits_def)
qed

text \<open>Clients that write only to their own bytes keep the heap well formed.\<close>

lemma heap_wf_client_write:
  assumes wf: "heap_wf h m bs" and fits: "heap_fits h"
    and same: "same_bytes ({..<4294967296} - heap_client h bs) m m'"
  shows "heap_wf h m' bs"
proof -
  let ?a = "unat (m_StartAddress h)" and ?e = "unat (m_CurrentAddress h)"
  note ch = heap_wf_chain [OF wf]
  have heads: "{block_at ?a bs i..<block_at ?a bs i + 13} \<subseteq> {..<4294967296} - heap_client h bs"
    if "i < length bs" for i
  proof -
    have "block_at ?a bs i + 13 \<le> ?e" using block_bounds(2) [OF ch that] by linarith
    then have "{block_at ?a bs i..<block_at ?a bs i + 13} \<subseteq> {..<4294967296}"
      using unat_lt_2p32 [of "m_CurrentAddress h"] by (auto simp: subset_eq simp del: unat_lt_2p32)
    then show ?thesis using header_bytes_at [OF that, of ?a] client_header_disjoint [OF wf fits] by blast
  qed
  have "chain m' ?a 0 bs ?e 0"
    by (rule chain_same_headers [OF ch]) (rule same_bytes_mono [OF same heads])
  moreover have "node_Prev m' (m_StartAddress h) = 0"
  proof (cases bs)
    case Nil
    have "{?a..<?a + 13} \<subseteq> {..<4294967296} - heap_client h bs"
      using fits unat_lt_2p32 [of "m_EndAddress h"]
      by (auto simp: heap_client_def used_payloads_def heap_fits_def Nil subset_eq simp del: unat_lt_2p32)
    then have "node_Prev m' (of_nat ?a) = node_Prev m (of_nat ?a)"
      by (intro node_same(4) same_bytes_mono [OF same])
    then show ?thesis using wf by (simp add: heap_wf_def)
  qed (use calculation in auto)
  ultimately show ?thesis using wf by (simp add: heap_wf_def)
qed


lemma used_payloads_reserve:
  assumes "i < length bs" and "snd (bs ! i) = HeapFree"
  shows "used_payloads h (bs[i := (fst (bs ! i), HeapReserved)]) =
    used_payloads h bs \<union> payload (unat (m_StartAddress h)) bs i"
proof -
  let ?bs = "bs[i := (fst (bs ! i), HeapReserved)]"
  have "payload (unat (m_StartAddress h)) ?bs j = payload (unat (m_StartAddress h)) bs j" for j
    using block_at_state [OF assms(1)] by (cases "j = i") (simp_all add: payload_def assms(1))
  with assms show ?thesis by (auto simp: used_payloads_def nth_list_update)
qed

lemma used_payloads_append:
  "used_payloads h (bs @ [(n, HeapReserved)]) =
    used_payloads h bs \<union> payload (unat (m_StartAddress h)) (bs @ [(n, HeapReserved)]) (length bs)"
proof (rule set_eqI)
  fix x
  let ?P = "\<lambda>i. snd ((bs @ [(n, HeapReserved)]) ! i) = HeapReserved \<and>
    x \<in> payload (unat (m_StartAddress h)) (bs @ [(n, HeapReserved)]) i"
  have "?P i \<longleftrightarrow> snd (bs ! i) = HeapReserved \<and> x \<in> payload (unat (m_StartAddress h)) bs i"
    if "i < length bs" for i using that by (simp add: nth_append payload_append)
  then have "(\<exists>i<length bs. ?P i) \<longleftrightarrow> x \<in> used_payloads h bs" unfolding used_payloads_def by blast
  then show "x \<in> used_payloads h (bs @ [(n, HeapReserved)]) \<longleftrightarrow> x \<in> used_payloads h bs \<union>
      payload (unat (m_StartAddress h)) (bs @ [(n, HeapReserved)]) (length bs)"
    by (simp add: used_payloads_def Ex_less_Suc disj_commute)
qed

lemma used_payloads_free:
  assumes "i < length bs" and "snd (bs ! i) = HeapFree"
  shows "used_payloads h bs \<inter> payload (unat (m_StartAddress h)) bs i = {}"
proof -
  have "x \<notin> payload (unat (m_StartAddress h)) bs i"
    if j: "j < length bs" "snd (bs ! j) = HeapReserved" "x \<in> payload (unat (m_StartAddress h)) bs j" for j x
  proof -
    have "j \<noteq> i" using j(2) assms(2) by auto
    then show ?thesis using payload_disjoint [OF j(1) assms(1)] j(3) by blast
  qed
  then show ?thesis by (auto simp: used_payloads_def)
qed

lemma KMalloc_reuse:
  assumes wf: "heap_wf (g_KernelHeap k) (k_bytes k) bs" and fits: "heap_fits (g_KernelHeap k)"
    and n: "n \<noteq> 0" and fit: "first_fit (unat n) bs = Some i"
  obtains a k' where "KMalloc n k = Some (a, k')" and "heap_inv k'" and "a \<noteq> 0"
    and "unat a + unat n < 4294967296" and "kernel_client k \<inter> block_of a n = {}"
    and "kernel_client k \<union> block_of a n \<subseteq> kernel_client k'"
    and "same_bytes (kernel_client k) (k_bytes k) (k_bytes k')"
proof -
  let ?h = "g_KernelHeap k" and ?m = "k_bytes k"
  let ?s = "unat (m_StartAddress ?h)" and ?bs = "bs[i := (fst (bs ! i), HeapReserved)]"
  let ?x = "block_at ?s bs i"
  let ?m' = "set_State (of_nat ?x) HeapReserved ?m"
  let ?k' = "k\<lparr>g_KernelHeap := ?h, k_bytes := ?m'\<rparr>"
  note R = Heap_Allocate_reuse [OF wf n fit] and ch = heap_wf_chain [OF wf]
  have i: "i < length bs" "unat n \<le> fst (bs ! i)" "snd (bs ! i) = HeapFree"
    using first_fit_Some [OF fit] by (auto simp: fits_def)
  have run: "KMalloc n k = Some (of_nat (?x + 13), ?k')" by (simp add: KMalloc_def R(1))
  have bound: "?s \<le> ?x" "?x + fst (bs ! i) + 13 \<le> unat (m_CurrentAddress ?h)"
    using block_bounds [OF ch i(1)] by auto
  have lim: "?x + 13 + unat n < 4294967296"
    using bound(2) i(2) unat_lt_2p32 [of "m_CurrentAddress ?h"] by linarith
  then have a: "unat (of_nat (?x + 13) :: u32) = ?x + 13" by (intro unat_of_nat32) simp
  have blk: "block_of (of_nat (?x + 13)) n \<subseteq> payload ?s bs i"
    using i(2) unfolding block_of_def a payload_def by auto
  have sub: "payload ?s bs i \<subseteq> {?s..<unat (m_CurrentAddress ?h)}" by (rule payload_below [OF ch i(1)])
  have K: "kernel_client k = heap_client ?h bs" by (rule kernel_client_eq [OF wf])
  have K': "kernel_client ?k' = heap_client ?h ?bs" using kernel_client_eq [of ?k'] R(2) by simp
  have inside: "heap_client ?h bs \<inter> {?s..<unat (m_CurrentAddress ?h)} \<subseteq> used_payloads ?h bs"
    using fits by (auto simp: heap_client_def heap_fits_def)
  have "heap_client ?h bs \<inter> payload ?s bs i = {}"
    using used_payloads_free [OF i(1,3), of ?h] sub inside by blast
  then have disj: "kernel_client k \<inter> block_of (of_nat (?x + 13)) n = {}" using blk K by blast
  have "heap_client ?h ?bs = heap_client ?h bs \<union> (payload ?s bs i \<inter> {..<4294967296})"
    unfolding heap_client_def used_payloads_reserve [OF i(1,3)] by blast
  moreover have "{?s..<unat (m_CurrentAddress ?h)} \<subseteq> {..<4294967296}"
    using unat_lt_2p32 [of "m_CurrentAddress ?h"] by (auto simp del: unat_lt_2p32)
  ultimately have grow: "kernel_client k \<union> block_of (of_nat (?x + 13)) n \<subseteq> kernel_client ?k'"
    using blk sub unfolding K K' by blast
  have same: "same_bytes (kernel_client k) ?m ?m'" unfolding K
  proof (rule set_frames(2))
    show "heap_client ?h bs \<subseteq> {..<4294967296}" by (auto simp: heap_client_def)
    show "?x + 13 \<le> 4294967296" using lim by simp
    have "?x + 4 \<in> {?x..<?x + 13}" by simp
    then show "?x + 4 \<notin> heap_client ?h bs"
      using client_header_disjoint [OF wf fits] header_bytes_at [OF i(1), of ?s] by blast
  qed
  have nz: "(of_nat (?x + 13) :: u32) \<noteq> 0" using a by (metis add_is_0 unat_0 zero_neq_numeral)
  have inv: "heap_inv ?k'" unfolding heap_inv_def using R(2) fits by (intro conjI exI [of _ ?bs]) simp_all
  have top: "unat (of_nat (?x + 13) :: u32) + unat n < 4294967296" unfolding a by (rule lim)
  show ?thesis by (rule that [OF run inv nz top disj grow]) (simp add: same)
qed

lemma KMalloc_append:
  assumes wf: "heap_wf (g_KernelHeap k) (k_bytes k) bs" and fits: "heap_fits (g_KernelHeap k)"
    and n: "n \<noteq> 0" and none: "first_fit (unat n) bs = None" and room: "heap_room n k"
  obtains a k' where "KMalloc n k = Some (a, k')" and "heap_inv k'" and "a \<noteq> 0"
    and "unat a + unat n < 4294967296" and "kernel_client k \<inter> block_of a n = {}"
    and "kernel_client k \<union> block_of a n \<subseteq> kernel_client k'"
    and "same_bytes (kernel_client k) (k_bytes k) (k_bytes k')"
proof -
  let ?h = "g_KernelHeap k" and ?m = "k_bytes k" and ?bs = "bs @ [(unat n, HeapReserved)]"
  let ?s = "unat (m_StartAddress ?h)" and ?c = "unat (m_CurrentAddress ?h)"
  let ?h' = "?h\<lparr>m_CurrentAddress := m_CurrentAddress ?h + (n + 13)\<rparr>"
  let ?k' = "k\<lparr>g_KernelHeap := ?h', k_bytes := appended ?h n bs ?m\<rparr>"
  have top: "?c + unat n + 13 \<le> unat (m_EndAddress ?h)" using room by (simp add: heap_room_def)
  then have lim: "?c + unat n + 13 < 4294967296" using unat_lt_2p32 [of "m_EndAddress ?h"] by linarith
  note E = Heap_Allocate_append_eq [OF wf n none lim] and ch = heap_wf_chain [OF wf]
  have run: "KMalloc n k = Some (m_CurrentAddress ?h + 13, ?k')" by (simp add: KMalloc_def E(1))
  have a: "unat (m_CurrentAddress ?h + 13) = ?c + 13" using lim by (simp add: unat_add_no_wrap)
  have cur: "unat (m_CurrentAddress ?h') = ?c + unat n + 13" using lim by (simp add: unat_add_no_wrap)
  have "block_at ?s bs (length bs) = ?c" using chain_end [OF ch] by simp
  then have new: "payload ?s ?bs (length bs) = block_of (m_CurrentAddress ?h + 13) n"
    by (simp add: payload_def block_of_def a block_at_append del: unat_lt_2p32)
  have K: "kernel_client k = heap_client ?h bs" by (rule kernel_client_eq [OF wf])
  have K': "kernel_client ?k' = heap_client ?h' ?bs" using kernel_client_eq [of ?k'] E(2) by simp
  have below: "used_payloads ?h bs \<subseteq> {?s..<?c}" by (rule used_payloads_below [OF wf])
  have "?s \<le> ?c" using chain_end [OF ch] block_at_mono [of 0 "length bs" bs ?s] by simp
  then have disj: "kernel_client k \<inter> block_of (m_CurrentAddress ?h + 13) n = {}"
    using below top unfolding K by (fastforce simp: heap_client_def block_of_def a)
  have used: "used_payloads ?h' ?bs = used_payloads ?h bs \<union> block_of (m_CurrentAddress ?h + 13) n"
    using used_payloads_append [of ?h bs "unat n"] new by (simp add: used_payloads_def)
  have "block_of (m_CurrentAddress ?h + 13) n \<subseteq> {..<4294967296}"
    using lim by (auto simp: block_of_def a)
  then have grow: "kernel_client k \<union> block_of (m_CurrentAddress ?h + 13) n \<subseteq> kernel_client ?k'"
    unfolding K K' by (auto simp: heap_client_def used)
  have fits': "heap_fits ?h'" using fits top cur by (simp add: heap_fits_def)
  have heads: "heap_client ?h' ?bs \<inter> header_bytes ?s ?bs = {}"
    using client_header_disjoint [OF E(2) fits'] by simp
  have same: "same_bytes (kernel_client k) ?m (appended ?h n bs ?m)" unfolding K
  proof (rule E(3))
    show "heap_client ?h bs \<subseteq> {..<4294967296}" by (auto simp: heap_client_def)
    show "heap_client ?h bs \<inter> header_bytes ?s ?bs = {}" using grow heads unfolding K K' by blast
  qed
  have "m_CurrentAddress ?h + 13 \<noteq> 0" using a by (metis add_is_0 unat_0 zero_neq_numeral)
  moreover have "heap_inv ?k'" using E(2) fits' by (auto simp: heap_inv_def)
  ultimately show ?thesis using lim a same by (intro that [OF run _ _ _ disj grow]) simp_all
qed

lemma kernel_client_range: "kernel_client k \<subseteq> {..<4294967296}"
  by (auto simp: kernel_client_def heap_client_def)

lemma kernel_client_top:
  assumes "heap_inv k" and "heap_room n k"
  shows "unat (m_CurrentAddress (g_KernelHeap k)) \<notin> kernel_client k"
proof -
  let ?h = "g_KernelHeap k"
  obtain bs where wf: "heap_wf ?h (k_bytes k) bs" using assms(1) by (auto simp: heap_inv_def)
  have "unat (m_StartAddress ?h) \<le> unat (m_CurrentAddress ?h)"
    using chain_end [OF heap_wf_chain [OF wf]]
      block_at_mono [of 0 "length bs" bs "unat (m_StartAddress ?h)"] by simp
  moreover have "unat (m_CurrentAddress ?h) \<notin> used_payloads ?h bs"
    using used_payloads_below [OF wf] by auto
  ultimately show ?thesis
    using assms(2) unfolding kernel_client_eq [OF wf] by (simp add: heap_client_def heap_room_def)
qed

lemma heap_inv_write:
  assumes "heap_inv k" and "same_bytes ({..<4294967296} - kernel_client k) (k_bytes k) m"
  shows "heap_inv (k\<lparr>k_bytes := m\<rparr>)" and "kernel_client (k\<lparr>k_bytes := m\<rparr>) = kernel_client k"
proof -
  obtain bs where wf: "heap_wf (g_KernelHeap k) (k_bytes k) bs" and fits: "heap_fits (g_KernelHeap k)"
    using assms(1) by (auto simp: heap_inv_def)
  have K: "kernel_client k = heap_client (g_KernelHeap k) bs" by (rule kernel_client_eq [OF wf])
  have "heap_wf (g_KernelHeap k) m bs" by (rule heap_wf_client_write [OF wf fits assms(2) [unfolded K]])
  then show "heap_inv (k\<lparr>k_bytes := m\<rparr>)" and "kernel_client (k\<lparr>k_bytes := m\<rparr>) = kernel_client k"
    using fits kernel_client_eq [of "k\<lparr>k_bytes := m\<rparr>"] by (auto simp: heap_inv_def K)
qed

interpretation kh: byte_allocator KMalloc k_bytes "\<lambda>m k. k\<lparr>k_bytes := m\<rparr>" heap_inv kernel_client heap_room
proof
  fix k :: kernel_state and n :: u32
  assume inv: "heap_inv k" and n: "n \<noteq> 0" and room: "heap_room n k"
  obtain bs where wf: "heap_wf (g_KernelHeap k) (k_bytes k) bs" and fits: "heap_fits (g_KernelHeap k)"
    using inv by (auto simp: heap_inv_def)
  show "\<exists>a k'. KMalloc n k = Some (a, k') \<and> heap_inv k' \<and> a \<noteq> 0 \<and> unat a + unat n < 4294967296 \<and>
      kernel_client k \<inter> block_of a n = {} \<and> kernel_client k \<union> block_of a n \<subseteq> kernel_client k' \<and>
      same_bytes (kernel_client k) (k_bytes k) (k_bytes k')"
  proof (cases "first_fit (unat n) bs")
    case None
    show ?thesis by (rule KMalloc_append [OF wf fits n None room]) blast
  next
    case (Some i)
    show ?thesis by (rule KMalloc_reuse [OF wf fits n Some]) blast
  qed
qed (simp_all add: heap_inv_write kernel_client_range)

section \<open>Allocations that are counted\<close>

definition heap_avail :: "kernel_state \<Rightarrow> nat" where
  "heap_avail k = unat (m_EndAddress (g_KernelHeap k)) - unat (m_CurrentAddress (g_KernelHeap k))"

text \<open>The addresses that have been handed out: those of the payloads of all blocks, in use or not.\<close>

definition kernel_blocks :: "kernel_state \<Rightarrow> nat set" where
  "kernel_blocks k = {x. \<exists>bs. heap_wf (g_KernelHeap k) (k_bytes k) bs \<and>
     (\<exists>i<length bs. x = block_at (unat (m_StartAddress (g_KernelHeap k))) bs i + 13)}"

lemma kernel_blocks_iff:
  "heap_wf (g_KernelHeap k) (k_bytes k) bs \<Longrightarrow>
    x \<in> kernel_blocks k \<longleftrightarrow> (\<exists>i<length bs. x = block_at (unat (m_StartAddress (g_KernelHeap k))) bs i + 13)"
proof -
  assume wf: "heap_wf (g_KernelHeap k) (k_bytes k) bs"
  have "heap_wf (g_KernelHeap k) (k_bytes k) bs' \<longleftrightarrow> bs' = bs" for bs'
    using wf heap_wf_unique by blast
  then show ?thesis by (simp add: kernel_blocks_def)
qed

locale bounded_allocator = byte_allocator alloc bytes set_bytes inv client room
  for alloc :: "u32 \<Rightarrow> 's \<Rightarrow> (u32 \<times> 's) option" and bytes :: "'s \<Rightarrow> mem" and set_bytes :: "mem \<Rightarrow> 's \<Rightarrow> 's"
    and inv :: "'s \<Rightarrow> bool" and client :: "'s \<Rightarrow> nat set" and room :: "u32 \<Rightarrow> 's \<Rightarrow> bool" +
  fixes avail :: "'s \<Rightarrow> nat" and blocks :: "'s \<Rightarrow> nat set"
  assumes avail_room: "inv s \<Longrightarrow> unat n + 13 \<le> avail s \<Longrightarrow> room n s"
    and alloc_avail: "inv s \<Longrightarrow> n \<noteq> 0 \<Longrightarrow> room n s \<Longrightarrow> alloc n s = Some (a, s') \<Longrightarrow>
      avail s \<le> avail s' + (unat n + 13)"
    and write_avail: "avail (set_bytes m s) = avail s"
    and alloc_blocks: "inv s \<Longrightarrow> n \<noteq> 0 \<Longrightarrow> room n s \<Longrightarrow> alloc n s = Some (a, s') \<Longrightarrow>
      insert (unat a) (blocks s) \<subseteq> blocks s'"
    and write_blocks: "inv s \<Longrightarrow> same_bytes ({..<4294967296} - client s) (bytes s) m \<Longrightarrow>
      blocks (set_bytes m s) = blocks s"
begin

text \<open>What a client knows after it has allocated a block and filled it with a list of bytes.\<close>

definition grown :: "'s \<Rightarrow> nat \<Rightarrow> 's \<Rightarrow> bool" where
  "grown s n s' \<longleftrightarrow> inv s' \<and> client s \<subseteq> client s' \<and> same_bytes (client s) (bytes s) (bytes s') \<and>
     avail s \<le> avail s' + n \<and> blocks s \<subseteq> blocks s'"

lemma grown_trans: "grown s n s' \<Longrightarrow> grown s' n' s'' \<Longrightarrow> grown s (n + n') s''"
proof -
  assume a: "grown s n s'" and b: "grown s' n' s''"
  then have "client s \<subseteq> client s'" "same_bytes (client s') (bytes s') (bytes s'')" by (simp_all add: grown_def)
  then have "same_bytes (client s) (bytes s') (bytes s'')" using same_bytes_mono by blast
  then have "same_bytes (client s) (bytes s) (bytes s'')" using a same_bytes_trans by (auto simp: grown_def)
  with a b show ?thesis by (auto simp: grown_def)
qed

lemma grown_mono: "grown s n s' \<Longrightarrow> n \<le> n' \<Longrightarrow> grown s n' s'"
  by (auto simp: grown_def)

text \<open>A block is allocated, and its bytes are then written.\<close>

lemma alloc_grown:
  assumes inv: "inv s" and n: "n \<noteq> 0" and room: "room n s" and run: "alloc n s = Some (a, s')"
    and m: "same_bytes ({..<4294967296} - block_of a n) (bytes s') m"
  shows "grown s (unat n + 13) (set_bytes m s')" and "unat a \<in> blocks (set_bytes m s')"
proof -
  have s': "inv s'" "client s \<union> block_of a n \<subseteq> client s'" using alloc_law [OF inv n room] run by auto
  have "same_bytes ({..<4294967296} - client s') (bytes s') m" using s'(2) by (intro same_bytes_mono [OF m]) blast
  then have blocks: "insert (unat a) (blocks s) \<subseteq> blocks (set_bytes m s')"
    using alloc_blocks [OF inv n room run] write_blocks [OF s'(1)] by simp
  then show "unat a \<in> blocks (set_bytes m s')" by blast
  from alloc_fill [OF inv n room] run have "inv (set_bytes m s') \<and> bytes (set_bytes m s') = m \<and>
      client s \<union> block_of a n \<subseteq> client (set_bytes m s') \<and> same_bytes (client s) (bytes s) m"
    using m by (metis option.inject prod.inject)
  then show "grown s (unat n + 13) (set_bytes m s')"
    using alloc_avail [OF inv n room run] blocks by (simp add: grown_def write_avail)
qed

lemma alloc_list:
  assumes inv: "inv s" and n: "unat n = length l" and ne: "l \<noteq> []" and room: "length l + 13 \<le> avail s"
  obtains a s' where "alloc n s = Some (a, s')" and "a \<noteq> 0" and "unat a + length l < 4294967296"
    and "client s \<inter> {unat a..<unat a + length l} = {}" and "same_bytes (client s) (bytes s) (bytes s')"
    and "grown s (length l + 13) (set_bytes (write_list a l (bytes s')) s')"
    and "{unat a..<unat a + length l} \<subseteq> client (set_bytes (write_list a l (bytes s')) s')"
    and "bytes (set_bytes (write_list a l (bytes s')) s') = write_list a l (bytes s')"
    and "unat a \<in> blocks (set_bytes (write_list a l (bytes s')) s')"
proof -
  have n0: "n \<noteq> 0" using n ne by auto
  have r: "room n s" by (rule avail_room [OF inv]) (simp add: n room)
  from alloc_fill [OF inv n0 r] obtain a s' where A: "alloc n s = Some (a, s')" "a \<noteq> 0"
    "unat a + unat n < 4294967296" "client s \<inter> block_of a n = {}" "same_bytes (client s) (bytes s) (bytes s')"
    and fill: "\<And>m. same_bytes ({..<4294967296} - block_of a n) (bytes s') m \<Longrightarrow>
      inv (set_bytes m s') \<and> bytes (set_bytes m s') = m \<and>
      client s \<union> block_of a n \<subseteq> client (set_bytes m s') \<and> same_bytes (client s) (bytes s) m" by metis
  have blk: "block_of a n = {unat a..<unat a + length l}" by (simp add: block_of_def n)
  have "same_bytes ({..<4294967296} - block_of a n) (bytes s') (write_list a l (bytes s'))"
    unfolding blk by (rule write_list_outside) (use A(3) n in simp)
  note fill [OF this] alloc_grown [OF inv n0 r A(1) this]
  then show ?thesis using A n by (intro that [of a s']) (auto simp: blk)
qed

end

lemma KMalloc_avail:
  assumes "heap_inv k" and n: "n \<noteq> 0" and room: "heap_room n k" and run: "KMalloc n k = Some (a, k')"
  shows "heap_avail k \<le> heap_avail k' + (unat n + 13)"
proof -
  let ?h = "g_KernelHeap k"
  obtain bs where wf: "heap_wf ?h (k_bytes k) bs" using assms(1) by (auto simp: heap_inv_def)
  show ?thesis
  proof (cases "first_fit (unat n) bs")
    case (Some i)
    from Heap_Allocate_reuse(1) [OF wf n this] run show ?thesis by (auto simp: KMalloc_def heap_avail_def)
  next
    case None
    have lim: "unat (m_CurrentAddress ?h) + unat n + 13 < 4294967296"
      using room unat_lt_2p32 [of "m_EndAddress ?h"] unfolding heap_room_def by linarith
    from Heap_Allocate_append_eq(1) [OF wf n None lim] run
    have k': "g_KernelHeap k' = ?h\<lparr>m_CurrentAddress := m_CurrentAddress ?h + (n + 13)\<rparr>"
      by (auto simp: KMalloc_def)
    have "unat (m_CurrentAddress ?h + (n + 13)) = unat (m_CurrentAddress ?h) + unat n + 13"
      using lim by (simp add: unat_add_no_wrap)
    then show ?thesis by (simp add: heap_avail_def k')
  qed
qed

lemma KMalloc_blocks:
  assumes "heap_inv k" and n: "n \<noteq> 0" and room: "heap_room n k" and run: "KMalloc n k = Some (a, k')"
  shows "insert (unat a) (kernel_blocks k) \<subseteq> kernel_blocks k'"
proof -
  let ?h = "g_KernelHeap k"
  let ?s = "unat (m_StartAddress ?h)"
  obtain bs where wf: "heap_wf ?h (k_bytes k) bs" using assms(1) by (auto simp: heap_inv_def)
  note ch = heap_wf_chain [OF wf]
  show ?thesis
  proof (cases "first_fit (unat n) bs")
    case (Some i)
    let ?bs = "bs[i := (fst (bs ! i), HeapReserved)]"
    note R = Heap_Allocate_reuse(1,2) [OF wf n Some]
    have i: "i < length bs" using first_fit_Some [OF Some] by simp
    have k': "k' = k\<lparr>g_KernelHeap := ?h, k_bytes := set_State (of_nat (block_at ?s bs i)) HeapReserved (k_bytes k)\<rparr>"
      and a: "a = of_nat (block_at ?s bs i + 13)" using run R(1) by (auto simp: KMalloc_def)
    have "block_at ?s bs i + 13 < 4294967296"
      using block_bounds(2) [OF ch i] unat_lt_2p32 [of "m_CurrentAddress ?h"] by linarith
    then have "unat a = block_at ?s bs i + 13" unfolding a by (rule unat_of_nat32)
    moreover have "heap_wf (g_KernelHeap k') (k_bytes k') ?bs" using R(2) by (simp add: k')
    ultimately show ?thesis
      using i block_at_state [OF i] by (auto simp: kernel_blocks_iff [OF wf] kernel_blocks_iff k')
  next
    case None
    let ?bs = "bs @ [(unat n, HeapReserved)]"
    have lim: "unat (m_CurrentAddress ?h) + unat n + 13 < 4294967296"
      using room unat_lt_2p32 [of "m_EndAddress ?h"] unfolding heap_room_def by linarith
    note E = Heap_Allocate_append_eq(1,2) [OF wf n None lim]
    have k': "k' = k\<lparr>g_KernelHeap := ?h\<lparr>m_CurrentAddress := m_CurrentAddress ?h + (n + 13)\<rparr>,
        k_bytes := appended ?h n bs (k_bytes k)\<rparr>" and a: "a = m_CurrentAddress ?h + 13"
      using run E(1) by (auto simp: KMalloc_def)
    have new: "length bs < length ?bs" "unat a = block_at ?s ?bs (length bs) + 13"
      using lim chain_end [OF ch] by (simp_all add: a unat_add_no_wrap block_at_append)
    have wf': "heap_wf (g_KernelHeap k') (k_bytes k') ?bs" and s: "m_StartAddress (g_KernelHeap k') = m_StartAddress ?h"
      using E(2) by (simp_all add: k')
    have "x \<in> kernel_blocks k'" if x: "x \<in> kernel_blocks k" for x
    proof -
      obtain i where "i < length bs" "x = block_at ?s bs i + 13" using x kernel_blocks_iff [OF wf] by blast
      then have "i < length ?bs" "x = block_at ?s ?bs i + 13" by (simp_all add: block_at_append)
      then show ?thesis unfolding kernel_blocks_iff [OF wf'] s by blast
    qed
    moreover have "unat a \<in> kernel_blocks k'" using new unfolding kernel_blocks_iff [OF wf'] s by blast
    ultimately show ?thesis by blast
  qed
qed

lemma kernel_blocks_write:
  assumes "heap_inv k" and "same_bytes ({..<4294967296} - kernel_client k) (k_bytes k) m"
  shows "kernel_blocks (k\<lparr>k_bytes := m\<rparr>) = kernel_blocks k"
proof -
  obtain bs where wf: "heap_wf (g_KernelHeap k) (k_bytes k) bs" and fits: "heap_fits (g_KernelHeap k)"
    using assms(1) by (auto simp: heap_inv_def)
  have "heap_wf (g_KernelHeap k) m bs"
    by (rule heap_wf_client_write [OF wf fits assms(2) [unfolded kernel_client_eq [OF wf]]])
  then show ?thesis using kernel_blocks_iff [OF wf] kernel_blocks_iff [of "k\<lparr>k_bytes := m\<rparr>" bs] by auto
qed

interpretation kb: bounded_allocator KMalloc k_bytes "\<lambda>m k. k\<lparr>k_bytes := m\<rparr>" heap_inv kernel_client heap_room heap_avail
  kernel_blocks
proof
  fix k :: kernel_state and n :: u32
  assume "unat n + 13 \<le> heap_avail k"
  then show "heap_room n k" by (simp add: heap_room_def heap_avail_def)
next
  show "heap_avail (k\<lparr>k_bytes := m\<rparr>) = heap_avail k" for m k by (simp add: heap_avail_def)
qed (rule KMalloc_avail KMalloc_blocks kernel_blocks_write; assumption)+

section \<open>Copies of strings\<close>

lemma Strncpy_terminated:
  assumes str: "c_string m q s" and n: "unat num \<le> unat k" "unat k \<le> unat num + 1"
    and block: "unat d + unat num + 1 \<le> 4294967296" and src: "unat q + length s < 4294967296"
    and apart: "{unat d..<unat d + unat num + 1} \<inter> string_bytes q s = {}"
  defines "m' \<equiv> (Strncpy d q k m)(d + num := 0)"
  shows "c_string m' d (take (unat num) s)"
    and "same_bytes ({..<4294967296} - {unat d..<unat d + unat num + 1}) m m'"
proof -
  have sep: "d + 0 + of_nat i \<noteq> q + 0 + of_nat j" if "i < unat k" "j \<le> length s" for i j
  proof
    assume e: "d + 0 + of_nat i = q + 0 + of_nat j"
    have "unat (d + of_nat i) = unat d + i" "unat (q + of_nat j) = unat q + j"
      using that n block src by (simp_all add: unat_add_no_wrap unat_of_nat32)
    with e have "unat d + i = unat q + j" by simp
    then have "unat d + i \<in> {unat d..<unat d + unat num + 1} \<inter> string_bytes q s"
      using that n by (simp add: string_bytes_def)
    with apart show False by blast
  qed
  have copy: "Strncpy d q k m x = (if unat (x - d) < unat k
      then (if unat (x - d) < length s then s ! unat (x - d) else 0) else m x)" for x
    using Strncpy_copy_eq [of "unat k" m q 0 s d x] str sep by (simp add: Strncpy_def)
  have off: "unat (d + of_nat i - d) = i" if "i \<le> unat num" for i
    using that unat_lt_2p32 [of num] by (simp add: unat_of_nat32 del: unat_lt_2p32)
  have num: "d + of_nat i = d + num \<longleftrightarrow> i = unat num" if "i \<le> unat num" for i
  proof -
    have "d + of_nat i = d + num \<longleftrightarrow> (of_nat i :: u32) = of_nat (unat num)" by simp
    also have "\<dots> \<longleftrightarrow> i = unat num" using that unat_lt_2p32 [of num] by (intro of_nat_inj32) linarith+
    finally show ?thesis .
  qed
  have "m' (d + of_nat i) = (if i < length s then s ! i else 0)" if "i < unat num" for i
    using that off [of i] num [of i] n unfolding m'_def fun_upd_apply copy by simp
  moreover have "m' (d + of_nat (min (length s) (unat num))) = 0"
  proof (cases "length s < unat num")
    case True
    then show ?thesis using off [of "length s"] n unfolding m'_def fun_upd_apply copy by simp
  next
    case False
    then show ?thesis by (simp add: m'_def min_def)
  qed
  moreover have "0 \<notin> set (take (unat num) s)" using str c_string_nonzero in_set_takeD by fast
  ultimately show "c_string m' d (take (unat num) s)" by (simp add: c_string_iff)
  show "same_bytes ({..<4294967296} - {unat d..<unat d + unat num + 1}) m m'"
    unfolding same_bytes_def
  proof
    fix x assume x: "x \<in> {..<4294967296} - {unat d..<unat d + unat num + 1}"
    have out: "\<not> unat (of_nat x - d :: u32) < unat num + 1"
      using x offset_in_block [of x d "unat num + 1"] block by auto
    then have "(of_nat x :: u32) \<noteq> d + num" by auto
    then show "m' (of_nat x) = m (of_nat x)" using out n unfolding m'_def fun_upd_apply copy by simp
  qed
qed

lemma dup_copies:
  assumes inv: "heap_inv k" and str: "c_string (k_bytes k) p s" and mine: "string_bytes p s \<subseteq> kernel_client k"
    and room: "heap_room (num + 1) k" and num: "unat num < 4294967295"
    and c: "unat num \<le> unat c" "unat c \<le> unat num + 1"
  obtains d k1 where "operator_new_array (num + 1) k = Some (d, k1)" and "d \<noteq> 0"
    and "let m' = (Strncpy d p c (k_bytes k1))(d + num := 0); k' = k1\<lparr>k_bytes := m'\<rparr> in
      heap_inv k' \<and> c_string m' d (take (unat num) s) \<and>
      kernel_client k \<inter> block_of d (num + 1) = {} \<and>
      kernel_client k \<union> block_of d (num + 1) \<subseteq> kernel_client k' \<and>
      same_bytes (kernel_client k) (k_bytes k) m' \<and> insert (unat d) (kernel_blocks k) \<subseteq> kernel_blocks k'"
proof -
  have n1: "unat (num + 1) = unat num + 1" using num by (simp add: unat_add_no_wrap)
  then have n0: "num + 1 \<noteq> 0" by auto
  from kh.alloc_fill [OF inv n0 room] obtain d k1 where A: "KMalloc (num + 1) k = Some (d, k1)" "d \<noteq> 0"
    "unat d + unat (num + 1) < 4294967296" "kernel_client k \<inter> block_of d (num + 1) = {}"
    "same_bytes (kernel_client k) (k_bytes k) (k_bytes k1)"
    and fill: "\<And>m. same_bytes ({..<4294967296} - block_of d (num + 1)) (k_bytes k1) m \<Longrightarrow>
      heap_inv (k1\<lparr>k_bytes := m\<rparr>) \<and> k_bytes (k1\<lparr>k_bytes := m\<rparr>) = m \<and>
      kernel_client k \<union> block_of d (num + 1) \<subseteq> kernel_client (k1\<lparr>k_bytes := m\<rparr>) \<and>
      same_bytes (kernel_client k) (k_bytes k) m" by metis
  have blk: "block_of d (num + 1) = {unat d..<unat d + unat num + 1}"
    by (simp add: block_of_def n1)
  have src: "unat p + length s < 4294967296"
  proof -
    have "unat p + length s \<in> string_bytes p s" by (simp add: string_bytes_def)
    then show ?thesis using mine kernel_client_range [of k] by blast
  qed
  have str1: "c_string (k_bytes k1) p s" by (rule c_string_same [OF str same_bytes_mono [OF A(5) mine]])
  have lim: "unat d + unat num + 1 \<le> 4294967296" using A(3) n1 by simp
  have sep: "{unat d..<unat d + unat num + 1} \<inter> string_bytes p s = {}" using A(4) mine blk by blast
  note C = Strncpy_terminated [OF str1 c lim src sep]
  have k1: "heap_inv k1" "block_of d (num + 1) \<subseteq> kernel_client k1"
    using kh.alloc_law [OF inv n0 room] A(1) by auto
  have "same_bytes ({..<4294967296} - kernel_client k1) (k_bytes k1) ((Strncpy d p c (k_bytes k1))(d + num := 0))"
    using k1(2) by (intro same_bytes_mono [OF C(2) [folded blk]]) blast
  then have "insert (unat d) (kernel_blocks k) \<subseteq>
      kernel_blocks (k1\<lparr>k_bytes := (Strncpy d p c (k_bytes k1))(d + num := 0)\<rparr>)"
    using KMalloc_blocks [OF inv n0 room A(1)] kernel_blocks_write [OF k1(1)] by simp
  then show ?thesis
    using that [of d k1] A(1,2,4) C(1) fill [OF C(2) [folded blk]]
    by (simp add: operator_new_array_def Let_def)
qed
text \<open>A client that only allocates and fills what it got, as \<^verbatim>\<open>KZAlloc\<close> does.\<close>

lemma Strndup_ok:
  assumes "heap_inv k" and "c_string (k_bytes k) p s" and "string_bytes p s \<subseteq> kernel_client k"
    and "heap_room (num + 1) k" and "unat num < 4294967295"
  obtains d k' where "Strndup p num k = Some (d, k')" and "d \<noteq> 0" and "heap_inv k'"
    and "c_string (k_bytes k') d (take (unat num) s)"
    and "kernel_client k \<inter> block_of d (num + 1) = {}"
    and "kernel_client k \<union> block_of d (num + 1) \<subseteq> kernel_client k'"
    and "same_bytes (kernel_client k) (k_bytes k) (k_bytes k')"
proof -
  from dup_copies [OF assms, of num] obtain d k1 where D: "operator_new_array (num + 1) k = Some (d, k1)" "d \<noteq> 0"
    "let m' = (Strncpy d p num (k_bytes k1))(d + num := 0); k' = k1\<lparr>k_bytes := m'\<rparr> in
      heap_inv k' \<and> c_string m' d (take (unat num) s) \<and> kernel_client k \<inter> block_of d (num + 1) = {} \<and>
      kernel_client k \<union> block_of d (num + 1) \<subseteq> kernel_client k' \<and> same_bytes (kernel_client k) (k_bytes k) m' \<and>
      insert (unat d) (kernel_blocks k) \<subseteq> kernel_blocks k'"
    by auto
  then have "Strndup p num k = Some (d, k1\<lparr>k_bytes := (Strncpy d p num (k_bytes k1))(d + num := 0)\<rparr>)"
    by (simp add: Strndup_def)
  with D(2,3) that show ?thesis by (simp add: Let_def)
qed

lemma Strdup_ok:
  assumes "heap_inv k" and "c_string (k_bytes k) p s" and "string_bytes p s \<subseteq> kernel_client k"
    and "heap_room (of_nat (length s) + 1) k"
  obtains d k' where "Strdup p k = Some (d, k')" and "d \<noteq> 0" and "heap_inv k'"
    and "c_string (k_bytes k') d s"
    and "kernel_client k \<inter> block_of d (of_nat (length s) + 1) = {}"
    and "kernel_client k \<union> block_of d (of_nat (length s) + 1) \<subseteq> kernel_client k'"
    and "same_bytes (kernel_client k) (k_bytes k) (k_bytes k')"
    and "insert (unat d) (kernel_blocks k) \<subseteq> kernel_blocks k'"
proof -
  let ?n = "of_nat (length s) :: u32"
  have "unat p + length s \<in> string_bytes p s" by (simp add: string_bytes_def)
  then have len: "unat p + length s < 4294967296" using assms(3) kernel_client_range [of k] by blast
  have "length s \<noteq> 4294967295"
  proof
    assume l: "length s = 4294967295"
    with len have "string_bytes p s = {..<4294967296}" by (auto simp: string_bytes_def)
    then have "{..<4294967296} \<subseteq> kernel_client k" using assms(3) by simp
    then have "unat (m_CurrentAddress (g_KernelHeap k)) \<in> kernel_client k" using unat_lt_2p32 by blast
    with kernel_client_top [OF assms(1,4)] show False by simp
  qed
  with len have n: "unat ?n = length s" "unat ?n < 4294967295" "unat (?n + 1) = unat ?n + 1"
    by (simp_all add: unat_of_nat32 unat_add_no_wrap)
  from dup_copies [OF assms n(2), of "?n + 1"] n(3) obtain d k1 where
    D: "operator_new_array (?n + 1) k = Some (d, k1)" "d \<noteq> 0"
    "let m' = (Strncpy d p (?n + 1) (k_bytes k1))(d + ?n := 0); k' = k1\<lparr>k_bytes := m'\<rparr> in
      heap_inv k' \<and> c_string m' d (take (unat ?n) s) \<and> kernel_client k \<inter> block_of d (?n + 1) = {} \<and>
      kernel_client k \<union> block_of d (?n + 1) \<subseteq> kernel_client k' \<and> same_bytes (kernel_client k) (k_bytes k) m' \<and>
      insert (unat d) (kernel_blocks k) \<subseteq> kernel_blocks k'"
    by auto
  then have "Strdup p k = Some (d, k1\<lparr>k_bytes := (Strncpy d p (?n + 1) (k_bytes k1))(d + ?n := 0)\<rparr>)"
    using Strlen_eq [OF assms(2)] by (simp add: Strdup_def)
  with D(2,3) that n(1) show ?thesis by (simp add: Let_def)
qed

section \<open>Properties\<close>

text \<open>
  \<^verbatim>\<open>Strdup\<close> of a string in the clients' memory allocates a block of its length and terminator that
  belonged to no client, copies the string into it, keeps the heap well formed and changes no byte of a
  client.
\<close>

theorem strdup_copies_string:
  assumes "heap_inv k" and "c_string (k_bytes k) p s" and "string_bytes p s \<subseteq> kernel_client k"
    and "heap_room (of_nat (length s) + 1) k"
  shows "\<exists>d k'. Strdup p k = Some (d, k') \<and> d \<noteq> 0 \<and> heap_inv k' \<and> c_string (k_bytes k') d s \<and>
    c_string (k_bytes k') p s \<and> kernel_client k \<inter> block_of d (of_nat (length s) + 1) = {} \<and>
    same_bytes (kernel_client k) (k_bytes k) (k_bytes k')"
proof -
  obtain d k' where D: "Strdup p k = Some (d, k')" "d \<noteq> 0" "heap_inv k'" "c_string (k_bytes k') d s"
    "kernel_client k \<inter> block_of d (of_nat (length s) + 1) = {}"
    "same_bytes (kernel_client k) (k_bytes k) (k_bytes k')"
    using Strdup_ok [OF assms] by metis
  have "c_string (k_bytes k') p s" by (rule c_string_same [OF assms(2) same_bytes_mono [OF D(6) assms(3)]])
  with D show ?thesis by blast
qed


text \<open>An empty heap of one page at \<^verbatim>\<open>0x10000\<close>, in a memory with a string at \<^verbatim>\<open>0x1000\<close>.\<close>

definition kernel_text :: kernel_state where
  "kernel_text = \<lparr>k_managers = memory_0,
     g_KernelHeap = \<lparr>m_MemorySizeBytes = 4096, m_StartAddress = 0x10000, m_EndAddress = 0x11000,
       m_CurrentAddress = 0x10000\<rparr>, k_bytes = text_memory\<rparr>"

lemma kernel_text_wf: "heap_wf (g_KernelHeap kernel_text) (k_bytes kernel_text) []"
  by (simp add: heap_wf_def kernel_text_def node_Prev_def load32_def text_memory_def)

lemma kernel_text_inv: "heap_inv kernel_text"
  using kernel_text_wf by (auto simp: heap_inv_def heap_fits_def kernel_text_def)

lemma kernel_text_below: "{..<65536} \<subseteq> kernel_client kernel_text"
  unfolding kernel_client_eq [OF kernel_text_wf] by (auto simp: heap_client_def kernel_text_def)

lemma kernel_text_room: "unat n \<le> 4083 \<Longrightarrow> heap_room n kernel_text"
  by (simp add: heap_room_def kernel_text_def)

theorem strdup_copies_string_witness:
  "\<exists>d k'. Strdup 0x1000 kernel_text = Some (d, k') \<and> d \<noteq> 0 \<and>
     c_string (k_bytes k') d [0x2C, 0x61, 0x62, 0x2C, 0x63]"
proof -
  have s: "string_bytes 0x1000 [0x2C, 0x61, 0x62, 0x2C, 0x63] \<subseteq> kernel_client kernel_text"
    using kernel_text_below by (force simp: string_bytes_def)
  have c: "c_string (k_bytes kernel_text) 0x1000 [0x2C, 0x61, 0x62, 0x2C, 0x63]"
    using text_memory_strings by (simp add: kernel_text_def)
  show ?thesis
    using strdup_copies_string [OF kernel_text_inv c s] kernel_text_room by auto
qed

text \<open>
  \<^verbatim>\<open>KZAlloc\<close> returns a block of zero bytes that belonged to no client, or the null pointer when the
  size is 0; it changes no byte of a client and keeps the heap well formed.
\<close>

theorem kzalloc_returns_zeroed_block:
  assumes "heap_inv k" and "heap_room n k"
  shows "\<exists>a k'. KZAlloc n k = Some (a, k') \<and> heap_inv k' \<and> (a = 0 \<longleftrightarrow> n = 0) \<and>
    (\<forall>x\<in>block_of a n. k_bytes k' (of_nat x) = 0) \<and> kernel_client k \<inter> block_of a n = {} \<and>
    same_bytes (kernel_client k) (k_bytes k) (k_bytes k')"
proof (cases "n = 0")
  case True
  then show ?thesis using assms(1) by (simp add: KZAlloc_def Heap_Allocate_def block_of_def)
next
  case False
  from kh.alloc_fill [OF assms(1) False assms(2)] obtain a k1 where A: "KMalloc n k = Some (a, k1)" "a \<noteq> 0"
    "unat a + unat n < 4294967296" "kernel_client k \<inter> block_of a n = {}"
    and fill: "\<And>m. same_bytes ({..<4294967296} - block_of a n) (k_bytes k1) m \<Longrightarrow>
      heap_inv (k1\<lparr>k_bytes := m\<rparr>) \<and> k_bytes (k1\<lparr>k_bytes := m\<rparr>) = m \<and>
      kernel_client k \<union> block_of a n \<subseteq> kernel_client (k1\<lparr>k_bytes := m\<rparr>) \<and>
      same_bytes (kernel_client k) (k_bytes k) m" by metis
  let ?m = "Memset a 0x0 n (k_bytes k1)"
  have run: "KZAlloc n k = Some (a, k1\<lparr>k_bytes := ?m\<rparr>)"
    using A(1,2) by (auto simp: KZAlloc_def KMalloc_def Let_def split: bind_splits prod.splits)
  have "?m (of_nat x) = k_bytes k1 (of_nat x)" if "x \<in> {..<4294967296} - block_of a n" for x
    using that offset_in_block [of x a "unat n"] A(3) by (auto simp: Memset_eq block_of_def)
  then have "same_bytes ({..<4294967296} - block_of a n) (k_bytes k1) ?m" by (simp add: same_bytes_def)
  note F = fill [OF this]
  have "?m (of_nat x) = 0" if "x \<in> block_of a n" for x
  proof -
    have "unat a \<le> x" using that by (simp add: block_of_def)
    then obtain i where "x = unat a + i" using le_Suc_ex by blast
    moreover from this have "i < unat n" using that by (simp add: block_of_def)
    ultimately have "unat (of_nat x - a) < unat n" using A(3) by (simp add: unat_of_nat32)
    then show ?thesis by (simp add: Memset_eq)
  qed
  then show ?thesis using run F A(2,4) False by (intro exI [of _ a] exI [of _ "k1\<lparr>k_bytes := ?m\<rparr>"]) simp
qed

theorem kzalloc_returns_zeroed_block_witness:
  "\<exists>a k'. KZAlloc 100 kernel_text = Some (a, k') \<and> a \<noteq> 0 \<and>
     (\<forall>x\<in>block_of a 100. k_bytes k' (of_nat x) = 0)"
  using kzalloc_returns_zeroed_block [OF kernel_text_inv kernel_text_room, of 100] by auto

end
