(* ===== verification/ATA.thy ===== *)
theory ATA
  imports KMalloc PortIO
begin

text \<open>
  \<^verbatim>\<open>Kernel/Drivers/Storage/ATA/ATA.{h,cpp}\<close>: the disk driver in programmed I/O mode. The drive is the
  \<open>device\<close> parameter; the state is the history of port accesses, the memory the buffers are in, and the
  driver's object. The loops that wait for the drive are partial functions: \<open>None\<close> is that the drive
  never gets ready and the driver waits for ever. What the driver prints when the kernel starts up is in the theory \<open>Startup\<close>.
\<close>

section \<open>The driver\<close>

datatype ATABus = BusPrimary | BusSecondary

datatype ATADrive = DriveMaster | DriveSlave

record ata =
  m_SectorSize :: u32
  m_Bus :: ATABus
  m_Drive :: ATADrive
  m_BusPort :: u16
  m_DriveCode :: u8
  m_DeviceInfo :: u32

definition ATA_DATA_REG :: u16 where "ATA_DATA_REG = 0x0"
definition ATA_SECTOR_COUNT_REG :: u16 where "ATA_SECTOR_COUNT_REG = 0x2"
definition ATA_LBA_LOW_REG :: u16 where "ATA_LBA_LOW_REG = 0x3"
definition ATA_LBA_MID_REG :: u16 where "ATA_LBA_MID_REG = 0x4"
definition ATA_LBA_HIGH_REG :: u16 where "ATA_LBA_HIGH_REG = 0x5"
definition ATA_DRIVEHEAD_SELECT_REG :: u16 where "ATA_DRIVEHEAD_SELECT_REG = 0x6"
definition ATA_STATUS_REG :: u16 where "ATA_STATUS_REG = 0x7"
definition ATA_COMMAND_REG :: u16 where "ATA_COMMAND_REG = 0x7"

lemmas ata_registers = ATA_DATA_REG_def ATA_SECTOR_COUNT_REG_def ATA_LBA_LOW_REG_def ATA_LBA_MID_REG_def
  ATA_LBA_HIGH_REG_def ATA_DRIVEHEAD_SELECT_REG_def ATA_STATUS_REG_def ATA_COMMAND_REG_def

definition ATA_STATUS_REG_ERR :: u8 where "ATA_STATUS_REG_ERR = 0x01"
definition ATA_STATUS_REG_DRQ :: u8 where "ATA_STATUS_REG_DRQ = 0x08"
definition ATA_STATUS_REG_BSY :: u8 where "ATA_STATUS_REG_BSY = 0x80"

lemmas ata_status_bits = ATA_STATUS_REG_ERR_def ATA_STATUS_REG_DRQ_def ATA_STATUS_REG_BSY_def

definition ATA_COMMAND_IDENTIFY :: u8 where "ATA_COMMAND_IDENTIFY = 0xEC"
definition ATA_COMMAND_READ_PIO :: u8 where "ATA_COMMAND_READ_PIO = 0x20"
definition ATA_COMMAND_WRITE_PIO :: u8 where "ATA_COMMAND_WRITE_PIO = 0x30"
definition ATA_COMMAND_CACHE_FLUSH :: u8 where "ATA_COMMAND_CACHE_FLUSH = 0xE7"
definition ATA_SECTOR_SIZE :: u32 where "ATA_SECTOR_SIZE = 0x200"

lemmas ata_commands = ATA_COMMAND_IDENTIFY_def ATA_COMMAND_READ_PIO_def ATA_COMMAND_WRITE_PIO_def
  ATA_COMMAND_CACHE_FLUSH_def

definition ATA_GetSectorSize :: "ata \<Rightarrow> u32" where
  "ATA_GetSectorSize a = m_SectorSize a"

definition ATA_Delay400NS :: "device \<Rightarrow> ata \<Rightarrow> port_trace \<Rightarrow> port_trace" where
  "ATA_Delay400NS d a t = for_range 0 14 (\<lambda>_ t. snd (INSB d (m_BusPort a + ATA_STATUS_REG) t)) t"

abbreviation status_busy :: "u8 \<Rightarrow> bool" where
  "status_busy s \<equiv> s AND ATA_STATUS_REG_BSY \<noteq> 0"

abbreviation status_error :: "u8 \<Rightarrow> bool" where
  "status_error s \<equiv> s AND ATA_STATUS_REG_ERR \<noteq> 0"

abbreviation status_request :: "u8 \<Rightarrow> bool" where
  "status_request s \<equiv> s AND ATA_STATUS_REG_DRQ \<noteq> 0"

text \<open>
  The two loops of \<^verbatim>\<open>Poll\<close>: at \<^verbatim>\<open>pool\<close> the status is read again while it is busy; at \<^verbatim>\<open>retry\<close> it is read
  again while it shows neither an error, which is the result \<^verbatim>\<open>false\<close>, nor a request for data.
\<close>

definition Poll_pool :: "device \<Rightarrow> u16 \<Rightarrow> port_trace \<Rightarrow> (u8 \<times> port_trace) option" where
  "Poll_pool d port = read_while d port status_busy"

definition Poll_retry :: "device \<Rightarrow> u16 \<Rightarrow> port_trace \<Rightarrow> (bool \<times> port_trace) option" where
  "Poll_retry d port t = do {
     (status, t1) \<leftarrow> read_while d port (\<lambda>status. \<not> status_error status \<and> \<not> status_request status) t;
     Some (\<not> status_error status, t1)
   }"

definition ATA_Poll :: "device \<Rightarrow> ata \<Rightarrow> port_trace \<Rightarrow> (bool \<times> port_trace) option" where
  "ATA_Poll d a t = do {
     (status, t2) \<leftarrow> Poll_pool d (m_BusPort a + ATA_STATUS_REG) (ATA_Delay400NS d a t);
     Poll_retry d (m_BusPort a + ATA_STATUS_REG) t2
   }"

definition ATA_CacheFlush :: "device \<Rightarrow> ata \<Rightarrow> port_trace \<Rightarrow> (bool \<times> port_trace) option" where
  "ATA_CacheFlush d a t = do {
     (status, t1) \<leftarrow> read_while d (m_BusPort a + ATA_STATUS_REG)
        (\<lambda>status. status_busy status \<and> \<not> status_request status)
        (OUTB (m_BusPort a + ATA_COMMAND_REG) ATA_COMMAND_CACHE_FLUSH t);
     Some (\<not> status_error status, t1)
   }"

text \<open>The registers \<^verbatim>\<open>ReadSector28\<close> and \<^verbatim>\<open>WriteSector28\<close> set up before they poll.\<close>

definition ATA_select28 :: "ata \<Rightarrow> u32 \<Rightarrow> u8 \<Rightarrow> port_trace \<Rightarrow> port_trace" where
  "ATA_select28 a lba command t =
     (let seldrive = (if m_Drive a = DriveMaster then 0xE0 else 0xF0) :: u8;
          t1 = OUTB (m_BusPort a + ATA_DRIVEHEAD_SELECT_REG) (seldrive OR ucast (drop_bit 24 lba AND 0x0F)) t;
          t2 = OUTB (m_BusPort a + 1) 0x0 t1;
          t3 = OUTB (m_BusPort a + ATA_SECTOR_COUNT_REG) 1 t2;
          t4 = OUTB (m_BusPort a + ATA_LBA_LOW_REG) (ucast lba) t3;
          t5 = OUTB (m_BusPort a + ATA_LBA_MID_REG) (ucast (drop_bit 8 lba)) t4;
          t6 = OUTB (m_BusPort a + ATA_LBA_HIGH_REG) (ucast (drop_bit 16 lba)) t5
      in OUTB (m_BusPort a + ATA_COMMAND_REG) command t6)"

text \<open>One word from the data register to memory at \<^verbatim>\<open>ptr\<close>, and one from memory to the register.\<close>

definition ReadSector28_word :: "device \<Rightarrow> ata \<Rightarrow> u32 \<times> mem \<times> port_trace \<Rightarrow> u32 \<times> mem \<times> port_trace" where
  "ReadSector28_word d a = (\<lambda>(ptr, m, t).
     let (v, t1) = INSW d (m_BusPort a + ATA_DATA_REG) t in (ptr + 2, store16 ptr v m, t1))"

definition WriteSector28_word :: "ata \<Rightarrow> mem \<Rightarrow> u32 \<times> port_trace \<Rightarrow> u32 \<times> port_trace" where
  "WriteSector28_word a m = (\<lambda>(ptr, t). (ptr + 2, OUTW (m_BusPort a + ATA_DATA_REG) (load16 m ptr) t))"

definition ATA_ReadSector28 ::
  "device \<Rightarrow> ata \<Rightarrow> u32 \<Rightarrow> u32 \<Rightarrow> mem \<times> port_trace \<Rightarrow> (int \<times> mem \<times> port_trace) option" where
  "ATA_ReadSector28 d a buf lba = (\<lambda>(m, t). do {
     (ok, t1) \<leftarrow> ATA_Poll d a (ATA_select28 a lba ATA_COMMAND_READ_PIO t);
     (if \<not> ok then Some (- 1, m, t1)
      else let (ptr, m', t2) = for_range 0 256 (\<lambda>_. ReadSector28_word d a) (buf, m, t1)
           in Some (0, m', ATA_Delay400NS d a t2))
   })"

definition ATA_WriteSector28 ::
  "device \<Rightarrow> ata \<Rightarrow> u32 \<Rightarrow> u32 \<Rightarrow> mem \<times> port_trace \<Rightarrow> (int \<times> mem \<times> port_trace) option" where
  "ATA_WriteSector28 d a buf lba = (\<lambda>(m, t). do {
     (ok, t1) \<leftarrow> ATA_Poll d a (ATA_select28 a lba ATA_COMMAND_WRITE_PIO t);
     (if \<not> ok then Some (- 1, m, t1)
      else let (ptr, t2) = for_range 0 256 (\<lambda>_. WriteSector28_word a m) (buf, t1)
           in do {
             (flushed, t3) \<leftarrow> ATA_CacheFlush d a t2;
             (if \<not> flushed then Some (- 1, m, t3) else Some (0, m, ATA_Delay400NS d a t3))
           })
   })"

text \<open>
  The loop over the sectors; the first argument is the number still to transfer, \<^verbatim>\<open>sectorCount - i\<close>, and
  \<^verbatim>\<open>lba\<close> is \<^verbatim>\<open>lba + i\<close>. The result converts an unsigned product to \<^verbatim>\<open>int32_t\<close>.
\<close>

primrec sector_loop ::
  "nat \<Rightarrow> (u32 \<Rightarrow> u32 \<Rightarrow> 's \<Rightarrow> (int \<times> 's) option) \<Rightarrow> u32 \<Rightarrow> u32 \<Rightarrow> u32 \<Rightarrow> int \<Rightarrow> 's \<Rightarrow> (int \<times> 's) option" where
  "sector_loop 0 sector step ptr lba result s = Some (result, s)"
| "sector_loop (Suc n) sector step ptr lba result s = do {
     (r, s1) \<leftarrow> sector ptr lba s;
     (if r \<noteq> 0 then Some (- 1, s1) else sector_loop n sector step (ptr + step) (lba + 1) result s1)
   }"

definition ATA_Read28 ::
  "device \<Rightarrow> ata \<Rightarrow> u32 \<Rightarrow> u32 \<Rightarrow> u32 \<Rightarrow> mem \<times> port_trace \<Rightarrow> (int \<times> mem \<times> port_trace) option" where
  "ATA_Read28 d a buf sectorCount lba =
     sector_loop (unat sectorCount) (ATA_ReadSector28 d a) (m_SectorSize a) buf lba
       (sint (sectorCount * m_SectorSize a))"

definition ATA_Write28 ::
  "device \<Rightarrow> ata \<Rightarrow> u32 \<Rightarrow> u32 \<Rightarrow> u32 \<Rightarrow> mem \<times> port_trace \<Rightarrow> (int \<times> mem \<times> port_trace) option" where
  "ATA_Write28 d a buf sectorCount lba =
     sector_loop (unat sectorCount) (ATA_WriteSector28 d a) (m_SectorSize a) buf lba
       (sint (sectorCount * m_SectorSize a))"

text \<open>
  \<^verbatim>\<open>InitBusDrive\<close>: the loop that waits for \<^verbatim>\<open>BSY\<close> to clear (\<^verbatim>\<open>False\<close> when the drive is not ATA; the second
  port is read only if the first is zero), the loop at \<^verbatim>\<open>retry\<close>, and the transfer of the identification.
\<close>

partial_function (option) Init_wait :: "device \<Rightarrow> u16 \<Rightarrow> port_trace \<Rightarrow> (bool \<times> port_trace) option" where
  "Init_wait d port t =
     (let (status, t1) = INSB d (port + ATA_STATUS_REG) t
      in if status AND ATA_STATUS_REG_BSY \<noteq> 0
         then let (mid, t2) = INSB d (port + ATA_LBA_MID_REG) t1
              in if mid \<noteq> 0 then Some (False, t2)
                 else let (high, t3) = INSB d (port + ATA_LBA_HIGH_REG) t2
                      in if high \<noteq> 0 then Some (False, t3) else Init_wait d port t3
         else Some (True, t1))"

definition ATA_InitBusDrive ::
  "device \<Rightarrow> ata \<Rightarrow> kernel_state \<times> port_trace \<Rightarrow> (bool \<times> ata \<times> kernel_state \<times> port_trace) option" where
  "ATA_InitBusDrive d a = (\<lambda>(k, t).
     let t1 = OUTB (m_BusPort a + ATA_DRIVEHEAD_SELECT_REG) (m_DriveCode a) t;
         t2 = OUTB (m_BusPort a + ATA_SECTOR_COUNT_REG) 0 t1;
         t3 = OUTB (m_BusPort a + ATA_LBA_LOW_REG) 0 t2;
         t4 = OUTB (m_BusPort a + ATA_LBA_MID_REG) 0 t3;
         t5 = OUTB (m_BusPort a + ATA_LBA_HIGH_REG) 0 t4;
         t6 = ATA_Delay400NS d a (OUTB (m_BusPort a + ATA_COMMAND_REG) ATA_COMMAND_IDENTIFY t5);
         (status, t7) = INSB d (m_BusPort a + ATA_STATUS_REG) t6
     in if status = 0 then Some (False, a, k, t7)
        else do {
          (isATA, t8) \<leftarrow> Init_wait d (m_BusPort a) t7;
          (if \<not> isATA then Some (False, a, k, t8)
           else do {
             (ok, t9) \<leftarrow> Poll_retry d (m_BusPort a + ATA_STATUS_REG) t8;
             (if \<not> ok then Some (False, a, k, t9)
              else do {
                (buf, k1) \<leftarrow> operator_new_array 512 k;
                (let (buf, m, t10) = for_range 0 256 (\<lambda>_. ReadSector28_word d a) (buf, k_bytes k1, t9)
                 in Some (True, a\<lparr>m_DeviceInfo := buf\<rparr>, k1\<lparr>k_bytes := m\<rparr>, t10))
              })
           })
        })"

definition ATA_Init ::
  "device \<Rightarrow> ATABus \<Rightarrow> ATADrive \<Rightarrow> ata \<Rightarrow> kernel_state \<times> port_trace \<Rightarrow>
   (bool \<times> ata \<times> kernel_state \<times> port_trace) option" where
  "ATA_Init d bus drive a s =
     (let a1 = a\<lparr>m_SectorSize := ATA_SECTOR_SIZE, m_Bus := bus, m_Drive := drive,
            m_BusPort := (if bus = BusPrimary then 0x1F0 else 0x170),
            m_DriveCode := (if drive = DriveMaster then 0xA0 else 0xB0)\<rparr>
      in do {
        (ok, a2, s1) \<leftarrow> ATA_InitBusDrive d a1 s;
        (if \<not> ok then Some (False, a2, s1) else Some (True, a2, s1))
      })"

declare Init_wait.simps [code]


section \<open>Waiting for the drive\<close>

lemma Delay400NS_reads: "ATA_Delay400NS d a t = in8_reads d (m_BusPort a + ATA_STATUS_REG) 14 t"
  by (simp add: ATA_Delay400NS_def for_range_reads)

text \<open>
  The reads of a \<^verbatim>\<open>Poll\<close> that comes to a decision: the first 14 are the delay, \<open>n\<close> more find the drive
  busy, the next does not, then \<open>j\<close> find neither error nor data, and the last one decides.
\<close>

definition poll_settles :: "device \<Rightarrow> u16 \<Rightarrow> nat \<Rightarrow> nat \<Rightarrow> port_trace \<Rightarrow> bool" where
  "poll_settles d p n j t \<longleftrightarrow>
     (\<forall>i<n. status_busy (in8_value d p (14 + i) t)) \<and> \<not> status_busy (in8_value d p (14 + n) t) \<and>
     (\<forall>i<j. \<not> status_error (in8_value d p (15 + n + i) t) \<and> \<not> status_request (in8_value d p (15 + n + i) t)) \<and>
     (status_error (in8_value d p (15 + n + j) t) \<or> status_request (in8_value d p (15 + n + j) t))"

lemma Poll_iff:
  "ATA_Poll d a t = Some (b, t') \<longleftrightarrow>
    (\<exists>n j. poll_settles d (m_BusPort a + ATA_STATUS_REG) n j t \<and>
      (b \<longleftrightarrow> \<not> status_error (in8_value d (m_BusPort a + ATA_STATUS_REG) (15 + n + j) t)) \<and>
      t' = in8_reads d (m_BusPort a + ATA_STATUS_REG) (16 + n + j) t)" (is "?run \<longleftrightarrow> ?settles")
proof -
  let ?p = "m_BusPort a + ATA_STATUS_REG" and ?t = "in8_reads d (m_BusPort a + ATA_STATUS_REG) 14 t"
  let ?again = "\<lambda>status. \<not> status_error status \<and> \<not> status_request status"
  have split: "reads_until d ?p status_busy n ?t \<and> reads_until d ?p ?again j (in8_reads d ?p (Suc n) ?t) \<longleftrightarrow>
      poll_settles d ?p n j t" for n j
    by (auto simp: reads_until_def poll_settles_def in8_value_add in8_reads_add simp del: in8_reads.simps)
  have "?run \<longleftrightarrow> (\<exists>n j. reads_until d ?p status_busy n ?t \<and>
      reads_until d ?p ?again j (in8_reads d ?p (Suc n) ?t) \<and>
      (b \<longleftrightarrow> \<not> status_error (in8_value d ?p j (in8_reads d ?p (Suc n) ?t))) \<and>
      t' = in8_reads d ?p (Suc j) (in8_reads d ?p (Suc n) ?t))"
    by (auto simp: ATA_Poll_def Delay400NS_reads Poll_pool_def Poll_retry_def bind_eq_Some_conv
        read_while_iff simp del: in8_reads.simps)
  also have "\<dots> \<longleftrightarrow> ?settles"
    unfolding split [symmetric]
    by (simp add: in8_value_add in8_reads_add ac_simps del: in8_reads.simps)
  finally show ?thesis .
qed


section \<open>The drive behind the ports\<close>

text \<open>
  What the history of a bus says about the drive: the command and the address last written to its
  registers, the number of data words moved since the command, and the contents of the two drives of the
  bus, which start as \<open>ini\<close> and change with every word written under a write command.
\<close>

type_synonym disk = "bool \<Rightarrow> u32 \<Rightarrow> nat \<Rightarrow> u16"

definition drive_command :: "u16 \<Rightarrow> port_trace \<Rightarrow> u8" where
  "drive_command p t = last_out8 (p + 7) t"

definition drive_slave :: "u16 \<Rightarrow> port_trace \<Rightarrow> bool" where
  "drive_slave p t \<longleftrightarrow> bit (last_out8 (p + 6) t) 4"

text \<open>A single sector, addressed by its number.\<close>

definition drive_one_lba :: "u16 \<Rightarrow> port_trace \<Rightarrow> bool" where
  "drive_one_lba p t \<longleftrightarrow> bit (last_out8 (p + 6) t) 6 \<and> last_out8 (p + 2) t = 1"

definition drive_lba :: "u16 \<Rightarrow> port_trace \<Rightarrow> u32" where
  "drive_lba p t = ucast (last_out8 (p + 3) t) OR push_bit 8 (ucast (last_out8 (p + 4) t)) OR
     push_bit 16 (ucast (last_out8 (p + 5) t)) OR push_bit 24 (ucast (last_out8 (p + 6) t AND 0x0F))"

primrec words_moved :: "u16 \<Rightarrow> port_trace \<Rightarrow> nat" where
  "words_moved p [] = 0"
| "words_moved p (e # t) = (case e of
     Out8 q v \<Rightarrow> if q = p + 7 then 0 else words_moved p t
   | In16 q v \<Rightarrow> if q = p then Suc (words_moved p t) else words_moved p t
   | Out16 q v \<Rightarrow> if q = p then Suc (words_moved p t) else words_moved p t
   | _ \<Rightarrow> words_moved p t)"

definition disk_write :: "bool \<Rightarrow> u32 \<Rightarrow> nat \<Rightarrow> u16 \<Rightarrow> disk \<Rightarrow> disk" where
  "disk_write s l w v k = (\<lambda>s' l' w'. if s' = s \<and> l' = l \<and> w' = w then v else k s' l' w')"

primrec disk_after :: "u16 \<Rightarrow> disk \<Rightarrow> port_trace \<Rightarrow> disk" where
  "disk_after p ini [] = ini"
| "disk_after p ini (e # t) = (case e of
     Out16 q v \<Rightarrow> if q = p \<and> drive_command p t = ATA_COMMAND_WRITE_PIO \<and> words_moved p t < 256
       then disk_write (drive_slave p t) (drive_lba p t) (words_moved p t) v (disk_after p ini t)
       else disk_after p ini t
   | _ \<Rightarrow> disk_after p ini t)"

text \<open>
  A bus whose drives work: after a command for one sector the selected drive gets ready without an error,
  it completes a flush, and the words it delivers are those of the addressed sector in order.
\<close>

definition pio_drive :: "device \<Rightarrow> u16 \<Rightarrow> disk \<Rightarrow> bool" where
  "pio_drive d p ini \<longleftrightarrow>
     (\<forall>t. drive_command p t \<in> {ATA_COMMAND_READ_PIO, ATA_COMMAND_WRITE_PIO} \<and> drive_one_lba p t \<and>
        words_moved p t = 0 \<longrightarrow>
        (\<exists>n j. poll_settles d (p + 7) n j t \<and> \<not> status_error (in8_value d (p + 7) (15 + n + j) t))) \<and>
     (\<forall>t. drive_command p t = ATA_COMMAND_CACHE_FLUSH \<longrightarrow>
        (\<exists>n. reads_until d (p + 7) (\<lambda>status. status_busy status \<and> \<not> status_request status) n t \<and>
          \<not> status_error (in8_value d (p + 7) n t))) \<and>
     (\<forall>t. drive_command p t = ATA_COMMAND_READ_PIO \<and> drive_one_lba p t \<and> words_moved p t < 256 \<longrightarrow>
        dev_in16 d t p = disk_after p ini t (drive_slave p t) (drive_lba p t) (words_moved p t))"

lemmas drive_registers = drive_command_def drive_slave_def drive_one_lba_def drive_lba_def

text \<open>The parts of the history the drive reacts to; reads of the status do not change them.\<close>

definition drive_view :: "u16 \<Rightarrow> disk \<Rightarrow> port_trace \<Rightarrow> u8 \<times> bool \<times> bool \<times> u32 \<times> nat \<times> disk" where
  "drive_view p ini t = (drive_command p t, drive_slave p t, drive_one_lba p t, drive_lba p t,
     words_moved p t, disk_after p ini t)"

lemma drive_view_status [simp]: "drive_view p ini (snd (INSB d q t)) = drive_view p ini t"
  by (simp add: drive_view_def drive_registers) (simp add: INSB_def Let_def)

lemma drive_view_reads [simp]: "drive_view p ini (in8_reads d q n t) = drive_view p ini t"
  by (induction n) simp_all

lemma drive_view_read_word:
  assumes "drive_view p ini t = (c, s, o1, l, w, k)"
  shows "drive_view p ini (snd (INSW d p t)) = (c, s, o1, l, Suc w, k)"
  using assms by (simp add: drive_view_def drive_registers) (simp add: INSW_def Let_def)

lemma drive_view_write_word:
  assumes "drive_view p ini t = (ATA_COMMAND_WRITE_PIO, s, o1, l, w, k)" and "w < 256"
  shows "drive_view p ini (OUTW p v t) = (ATA_COMMAND_WRITE_PIO, s, o1, l, Suc w, disk_write s l w v k)"
  using assms by (simp add: drive_view_def drive_registers) (simp add: OUTW_def drive_registers)

lemma drive_view_command:
  assumes "drive_view p ini t = (c, s, o1, l, w, k)"
  shows "drive_view p ini (OUTB (p + 7) v t) = (v, s, o1, l, 0, k)"
  using assms by (simp add: drive_view_def drive_registers) (simp add: OUTB_def)

lemma lba_bytes:
  "(ucast (ucast l :: u8) :: u32) OR push_bit 8 (ucast (ucast (drop_bit 8 l) :: u8)) OR
     push_bit 16 (ucast (ucast (drop_bit 16 l) :: u8)) OR
     push_bit 24 (ucast ((v OR ucast (drop_bit 24 l AND 0x0F) :: u8) AND 0x0F)) =
   take_bit 28 l" if "v = 0xE0 \<or> v = 0xF0" for l :: u32
proof (rule bit_word_eqI)
  fix n assume n: "n < LENGTH(32)"
  have m: "(0x0F :: u8) = mask 4" "(0x0F :: u32) = mask 4" by (simp_all add: mask_eq_exp_minus_1)
  have v: "\<not> bit v i" if "i < 4" for i
    using \<open>v = 0xE0 \<or> v = 0xF0\<close> that by (auto simp: numeral_eq_Suc less_Suc_eq)
  have "n < 8 \<or> 8 \<le> n \<and> n < 16 \<or> 16 \<le> n \<and> n < 24 \<or> 24 \<le> n" by linarith
  with n v [of "n - 24"] show "bit ((ucast (ucast l :: u8) :: u32) OR push_bit 8 (ucast (ucast (drop_bit 8 l) :: u8)) OR
     push_bit 16 (ucast (ucast (drop_bit 16 l) :: u8)) OR
     push_bit 24 (ucast ((v OR ucast (drop_bit 24 l AND 0x0F) :: u8) AND 0x0F))) n \<longleftrightarrow> bit (take_bit 28 l) n"
    unfolding m by (auto simp: bit_simps)
qed

lemma drive_outb [simp]:
  "words_moved p (OUTB q v t) = (if q = p + 7 then 0 else words_moved p t)"
  "disk_after p ini (OUTB q v t) = disk_after p ini t"
  by (simp_all add: OUTB_def)

lemma register_numbers [simp]:
  "(2 :: u16) \<noteq> 3" "(2 :: u16) \<noteq> 4" "(2 :: u16) \<noteq> 5" "(2 :: u16) \<noteq> 6" "(2 :: u16) \<noteq> 7"
  "(3 :: u16) \<noteq> 4" "(3 :: u16) \<noteq> 5" "(3 :: u16) \<noteq> 6" "(3 :: u16) \<noteq> 7"
  "(4 :: u16) \<noteq> 5" "(4 :: u16) \<noteq> 6" "(4 :: u16) \<noteq> 7" "(5 :: u16) \<noteq> 6" "(5 :: u16) \<noteq> 7"
  "(6 :: u16) \<noteq> 7"
  by simp_all

lemma drive_view_select:
  "drive_view (m_BusPort a) ini (ATA_select28 a lba c t) =
    (c, m_Drive a = DriveSlave, True, take_bit 28 lba, 0, disk_after (m_BusPort a) ini t)"
proof -
  let ?v = "(if m_Drive a = DriveMaster then 0xE0 else 0xF0) :: u8"
  have v: "?v = 0xE0 \<or> ?v = 0xF0" by simp
  have hi: "bit (?v OR ucast (drop_bit 24 lba AND 0x0F)) 6"
    "bit (?v OR ucast (drop_bit 24 lba AND 0x0F)) 4 \<longleftrightarrow> m_Drive a = DriveSlave"
    by (cases "m_Drive a"; simp add: bit_simps numeral_eq_Suc)+
  show ?thesis
    unfolding ATA_select28_def Let_def drive_view_def drive_registers ata_registers
    using lba_bytes [OF v, of lba] hi by simp
qed


section \<open>Transfer of a sector\<close>

lemma read_words:
  assumes dev: "\<And>t' i. i < 256 \<Longrightarrow> drive_view (m_BusPort a) ini t' = (c, s, o1, l, i, k) \<Longrightarrow>
      dev_in16 d t' (m_BusPort a) = w i"
    and t: "drive_view (m_BusPort a) ini t = (c, s, o1, l, 0, k)"
  obtains m' t' where "for_range 0 256 (\<lambda>_. ReadSector28_word d a) (buf, m, t) = (buf + 512, m', t')"
    and "\<forall>x. m' x = (if unat (x - buf) < 512 then word_byte w (unat (x - buf)) else m x)"
    and "drive_view (m_BusPort a) ini t' = (c, s, o1, l, 256, k)"
proof -
  define P where "P i = (\<lambda>(ptr, m', t'). ptr = buf + of_nat (2 * unat i) \<and>
      (\<forall>x. m' x = (if unat (x - buf) < 2 * unat i then word_byte w (unat (x - buf)) else m x)) \<and>
      drive_view (m_BusPort a) ini t' = (c, s, o1, l, unat i, k))" for i :: u32
  have end_inv: "P 256 (for_range 0 256 (\<lambda>_. ReadSector28_word d a) (buf, m, t))"
  proof (rule for_range_invariant [of P])
    show "P 0 (buf, m, t)" using t by (simp add: P_def)
    fix i :: u32 and st assume i: "i < 256" and I: "P i st"
    obtain ptr m' t' where st: "st = (ptr, m', t')" by (cases st)
    have lt: "unat i < 256" using i by (simp add: word_less_nat_alt)
    have J: "ptr = buf + of_nat (2 * unat i)" "drive_view (m_BusPort a) ini t' = (c, s, o1, l, unat i, k)"
      "\<forall>x. m' x = (if unat (x - buf) < 2 * unat i then word_byte w (unat (x - buf)) else m x)"
      using I unfolding P_def st by simp_all
    have i1: "unat (i + 1) = Suc (unat i)" using i by (rule unat_inc)
    have "ReadSector28_word d a st =
        (ptr + 2, store16 ptr (w (unat i)) m', snd (INSW d (m_BusPort a) t'))"
      by (simp add: ReadSector28_word_def st ata_registers INSW_def Let_def dev [OF lt J(2)])
    then show "P (i + 1) (ReadSector28_word d a st)"
      using store16_block [OF _ J(3)] lt drive_view_read_word [OF J(2)]
      unfolding P_def i1 J(1) by (simp add: add.assoc add.commute)
  qed simp
  obtain ptr m' t' where R: "for_range 0 256 (\<lambda>_. ReadSector28_word d a) (buf, m, t) = (ptr, m', t')"
    by (cases "for_range 0 256 (\<lambda>_. ReadSector28_word d a) (buf, m, t)")
  with end_inv show ?thesis by (intro that [of m' t']) (simp_all add: P_def)
qed


lemma write_words:
  assumes "drive_view (m_BusPort a) ini t = (ATA_COMMAND_WRITE_PIO, s, o1, l, 0, k)"
  obtains t' where "for_range 0 256 (\<lambda>_. WriteSector28_word a m) (buf, t) = (buf + 512, t')"
    and "drive_view (m_BusPort a) ini t' = (ATA_COMMAND_WRITE_PIO, s, o1, l, 256,
      (\<lambda>s' l' w. if s' = s \<and> l' = l \<and> w < 256 then load16 m (buf + of_nat (2 * w)) else k s' l' w))"
proof -
  let ?k = "\<lambda>n s' l' w. if s' = s \<and> l' = l \<and> w < n then load16 m (buf + of_nat (2 * w)) else k s' l' w"
  define P where "P i = (\<lambda>(ptr, t'). ptr = buf + of_nat (2 * unat i) \<and>
      drive_view (m_BusPort a) ini t' = (ATA_COMMAND_WRITE_PIO, s, o1, l, unat i, ?k (unat i)))" for i :: u32
  have step: "disk_write s l n (load16 m (buf + of_nat (2 * n))) (?k n) = ?k (Suc n)" for n
    by (auto simp: disk_write_def fun_eq_iff less_Suc_eq)
  have end_inv: "P 256 (for_range 0 256 (\<lambda>_. WriteSector28_word a m) (buf, t))"
  proof (rule for_range_invariant [of P])
    show "P 0 (buf, t)" using assms by (simp add: P_def)
    fix i :: u32 and st assume i: "i < 256" and I: "P i st"
    obtain ptr t' where st: "st = (ptr, t')" by (cases st)
    have lt: "unat i < 256" using i by (simp add: word_less_nat_alt)
    have J: "ptr = buf + of_nat (2 * unat i)"
      "drive_view (m_BusPort a) ini t' = (ATA_COMMAND_WRITE_PIO, s, o1, l, unat i, ?k (unat i))"
      using I unfolding P_def st by simp_all
    have i1: "unat (i + 1) = Suc (unat i)" using i by (rule unat_inc)
    have "WriteSector28_word a m st = (ptr + 2, OUTW (m_BusPort a) (load16 m ptr) t')"
      by (simp add: WriteSector28_word_def st ata_registers)
    then show "P (i + 1) (WriteSector28_word a m st)"
      using drive_view_write_word [OF J(2) lt, of "load16 m ptr"] step [of "unat i"]
      unfolding P_def i1 J(1) by (simp add: add.assoc add.commute)
  qed simp
  obtain ptr t' where R: "for_range 0 256 (\<lambda>_. WriteSector28_word a m) (buf, t) = (ptr, t')"
    by (cases "for_range 0 256 (\<lambda>_. WriteSector28_word a m) (buf, t)")
  with end_inv show ?thesis by (intro that [of t']) (simp_all add: P_def)
qed

section \<open>Sectors on a working drive\<close>

lemma pio_poll:
  assumes "pio_drive d (m_BusPort a) ini" and "c \<in> {ATA_COMMAND_READ_PIO, ATA_COMMAND_WRITE_PIO}"
    and "drive_view (m_BusPort a) ini t = (c, s, True, l, 0, k)"
  obtains t' where "ATA_Poll d a t = Some (True, t')"
    and "drive_view (m_BusPort a) ini t' = (c, s, True, l, 0, k)"
proof -
  have "drive_command (m_BusPort a) t \<in> {ATA_COMMAND_READ_PIO, ATA_COMMAND_WRITE_PIO} \<and>
      drive_one_lba (m_BusPort a) t \<and> words_moved (m_BusPort a) t = 0"
    using assms(2,3) by (simp add: drive_view_def)
  with assms(1) obtain n j where "poll_settles d (m_BusPort a + ATA_STATUS_REG) n j t"
    "\<not> status_error (in8_value d (m_BusPort a + ATA_STATUS_REG) (15 + n + j) t)"
    unfolding pio_drive_def ata_registers by blast
  then have "ATA_Poll d a t = Some (True, in8_reads d (m_BusPort a + ATA_STATUS_REG) (16 + n + j) t)"
    unfolding Poll_iff by blast
  then show ?thesis by (rule that) (simp only: drive_view_reads assms(3))
qed

lemma pio_flush:
  assumes "pio_drive d (m_BusPort a) ini" and "drive_view (m_BusPort a) ini t = (c, s, o1, l, w, k)"
  obtains t' where "ATA_CacheFlush d a t = Some (True, t')"
    and "drive_view (m_BusPort a) ini t' = (ATA_COMMAND_CACHE_FLUSH, s, o1, l, 0, k)"
proof -
  let ?t = "OUTB (m_BusPort a + ATA_COMMAND_REG) ATA_COMMAND_CACHE_FLUSH t"
  have view: "drive_view (m_BusPort a) ini ?t = (ATA_COMMAND_CACHE_FLUSH, s, o1, l, 0, k)"
    using drive_view_command [OF assms(2)] by (simp add: ata_registers)
  then have "drive_command (m_BusPort a) ?t = ATA_COMMAND_CACHE_FLUSH" by (simp add: drive_view_def)
  with assms(1) obtain n where
    n: "reads_until d (m_BusPort a + ATA_STATUS_REG) (\<lambda>status. status_busy status \<and> \<not> status_request status) n ?t"
    "\<not> status_error (in8_value d (m_BusPort a + ATA_STATUS_REG) n ?t)"
    unfolding pio_drive_def ata_registers by blast
  have "ATA_CacheFlush d a t = Some (True, in8_reads d (m_BusPort a + ATA_STATUS_REG) (Suc n) ?t)"
    unfolding ATA_CacheFlush_def read_while_returns [OF n(1)] using n(2) by simp
  then show ?thesis by (rule that) (simp only: drive_view_reads view)
qed

lemma pio_ReadSector28:
  assumes "pio_drive d (m_BusPort a) ini"
  obtains m' t' where "ATA_ReadSector28 d a buf lba (m, t) = Some (0, m', t')"
    and "\<forall>x. m' x = (if unat (x - buf) < 512
      then word_byte (disk_after (m_BusPort a) ini t (m_Drive a = DriveSlave) (take_bit 28 lba)) (unat (x - buf))
      else m x)"
    and "disk_after (m_BusPort a) ini t' = disk_after (m_BusPort a) ini t"
proof -
  let ?t = "ATA_select28 a lba ATA_COMMAND_READ_PIO t" and ?k = "disk_after (m_BusPort a) ini t"
  let ?s = "m_Drive a = DriveSlave" and ?l = "take_bit 28 lba"
  obtain t1 where t1: "ATA_Poll d a ?t = Some (True, t1)"
    "drive_view (m_BusPort a) ini t1 = (ATA_COMMAND_READ_PIO, ?s, True, ?l, 0, ?k)"
    by (rule pio_poll [OF assms _ drive_view_select [of a ini lba ATA_COMMAND_READ_PIO t]]) auto
  have dev: "dev_in16 d t' (m_BusPort a) = ?k ?s ?l i"
    if "i < 256" "drive_view (m_BusPort a) ini t' = (ATA_COMMAND_READ_PIO, ?s, True, ?l, i, ?k)" for t' i
    using that assms unfolding pio_drive_def drive_view_def by auto
  obtain m' t2 where R: "for_range 0 256 (\<lambda>_. ReadSector28_word d a) (buf, m, t1) = (buf + 512, m', t2)"
    "\<forall>x. m' x = (if unat (x - buf) < 512 then word_byte (?k ?s ?l) (unat (x - buf)) else m x)"
    "drive_view (m_BusPort a) ini t2 = (ATA_COMMAND_READ_PIO, ?s, True, ?l, 256, ?k)"
    by (rule read_words [OF dev t1(2)])
  have disk: "disk_after (m_BusPort a) ini (ATA_Delay400NS d a t2) = ?k"
    using R(3) drive_view_reads [of "m_BusPort a" ini d _ 14 t2]
    unfolding Delay400NS_reads drive_view_def by simp
  have "ATA_ReadSector28 d a buf lba (m, t) = Some (0, m', ATA_Delay400NS d a t2)"
    by (simp add: ATA_ReadSector28_def t1(1) R(1))
  then show ?thesis by (rule that [OF _ R(2) disk])
qed

lemma pio_WriteSector28:
  assumes "pio_drive d (m_BusPort a) ini"
  obtains t' where "ATA_WriteSector28 d a buf lba (m, t) = Some (0, m, t')"
    and "disk_after (m_BusPort a) ini t' = (\<lambda>s l w. if s = (m_Drive a = DriveSlave) \<and> l = take_bit 28 lba \<and> w < 256
      then load16 m (buf + of_nat (2 * w)) else disk_after (m_BusPort a) ini t s l w)"
proof -
  let ?t = "ATA_select28 a lba ATA_COMMAND_WRITE_PIO t" and ?k = "disk_after (m_BusPort a) ini t"
  let ?s = "m_Drive a = DriveSlave" and ?l = "take_bit 28 lba"
  let ?k' = "\<lambda>s l w. if s = ?s \<and> l = ?l \<and> w < 256 then load16 m (buf + of_nat (2 * w)) else ?k s l w"
  obtain t1 where t1: "ATA_Poll d a ?t = Some (True, t1)"
    "drive_view (m_BusPort a) ini t1 = (ATA_COMMAND_WRITE_PIO, ?s, True, ?l, 0, ?k)"
    by (rule pio_poll [OF assms _ drive_view_select [of a ini lba ATA_COMMAND_WRITE_PIO t]]) auto
  obtain t2 where W: "for_range 0 256 (\<lambda>_. WriteSector28_word a m) (buf, t1) = (buf + 512, t2)"
    "drive_view (m_BusPort a) ini t2 = (ATA_COMMAND_WRITE_PIO, ?s, True, ?l, 256, ?k')"
    by (rule write_words [OF t1(2)])
  obtain t3 where F: "ATA_CacheFlush d a t2 = Some (True, t3)"
    "drive_view (m_BusPort a) ini t3 = (ATA_COMMAND_CACHE_FLUSH, ?s, True, ?l, 0, ?k')"
    by (rule pio_flush [OF assms W(2)])
  have "disk_after (m_BusPort a) ini (ATA_Delay400NS d a t3) = ?k'"
    using F(2) drive_view_reads [of "m_BusPort a" ini d _ 14 t3]
    unfolding Delay400NS_reads drive_view_def by simp
  moreover have "ATA_WriteSector28 d a buf lba (m, t) = Some (0, m, ATA_Delay400NS d a t3)"
    by (simp add: ATA_WriteSector28_def t1(1) W(1) F(1))
  ultimately show ?thesis by (intro that)
qed


section \<open>Runs of sectors\<close>

lemma offset_next_sector:
  "512 \<le> unat (x - buf :: u32) \<Longrightarrow> unat (x - (buf + 512)) = unat (x - buf) - 512"
  "unat (x - buf :: u32) < 512 \<Longrightarrow> 4294966784 \<le> unat (x - (buf + 512))"
proof -
  have e: "x - (buf + 512) = x - buf - 512" by simp
  show "512 \<le> unat (x - buf) \<Longrightarrow> unat (x - (buf + 512)) = unat (x - buf) - 512"
    unfolding e using unat_sub_le [of 512 "x - buf"] by (simp add: word_le_nat_alt)
  show "unat (x - buf) < 512 \<Longrightarrow> 4294966784 \<le> unat (x - (buf + 512))"
  proof (rule ccontr)
    have no_wrap: "unat (y + 512) = unat y + 512" if "\<not> 4294966784 \<le> unat y" for y :: u32
      using that by (simp add: unat_add_no_wrap)
    have eq: "x - (buf + 512) + 512 = x - buf" by simp
    assume small: "unat (x - buf) < 512" and "\<not> 4294966784 \<le> unat (x - (buf + 512))"
    from no_wrap [OF this(2)] have "unat (x - buf) = unat (x - (buf + 512)) + 512" unfolding eq .
    with small show False by simp
  qed
qed

lemma read_loop:
  assumes dev: "pio_drive d (m_BusPort a) ini"
  shows "512 * n \<le> 4294967296 \<Longrightarrow>
    \<exists>m' t'. sector_loop n (ATA_ReadSector28 d a) 0x200 buf lba r (m, t) = Some (r, m', t') \<and>
      (\<forall>x. m' x = (if unat (x - buf) < 512 * n
        then word_byte (disk_after (m_BusPort a) ini t (m_Drive a = DriveSlave)
          (take_bit 28 (lba + of_nat (unat (x - buf) div 512)))) (unat (x - buf) mod 512)
        else m x)) \<and>
      disk_after (m_BusPort a) ini t' = disk_after (m_BusPort a) ini t"
proof (induction n arbitrary: buf lba m t)
  case (Suc n)
  let ?w = "\<lambda>l. disk_after (m_BusPort a) ini t (m_Drive a = DriveSlave) (take_bit 28 l)"
  obtain m1 t1 where S: "ATA_ReadSector28 d a buf lba (m, t) = Some (0, m1, t1)"
    "\<forall>x. m1 x = (if unat (x - buf) < 512 then word_byte (?w lba) (unat (x - buf)) else m x)"
    "disk_after (m_BusPort a) ini t1 = disk_after (m_BusPort a) ini t"
    by (rule pio_ReadSector28 [OF dev])
  have "512 * n \<le> 4294967296" using Suc.prems by simp
  from Suc.IH [OF this, of "buf + 0x200" "lba + 1" m1 t1] obtain m' t' where
    L: "sector_loop n (ATA_ReadSector28 d a) 0x200 (buf + 0x200) (lba + 1) r (m1, t1) = Some (r, m', t')"
    "\<forall>x. m' x = (if unat (x - (buf + 512)) < 512 * n
        then word_byte (?w (lba + 1 + of_nat (unat (x - (buf + 512)) div 512))) (unat (x - (buf + 512)) mod 512)
        else m1 x)"
    "disk_after (m_BusPort a) ini t' = disk_after (m_BusPort a) ini t" by (auto simp: S(3))
  have "m' x = (if unat (x - buf) < 512 * Suc n
      then word_byte (?w (lba + of_nat (unat (x - buf) div 512))) (unat (x - buf) mod 512) else m x)" for x
  proof (cases "512 \<le> unat (x - buf)")
    case True
    define k where "k = unat (x - buf) - 512"
    have k: "unat (x - (buf + 512)) = k" "unat (x - buf) = k + 512"
      using offset_next_sector(1) [OF True] True by (simp_all add: k_def)
    have "(k + 512) div 512 = Suc (k div 512)" by simp
    then show ?thesis using L(2) [rule_format, of x] S(2) [rule_format, of x]
      unfolding k by (simp add: ac_simps)
  next
    case False
    then have "unat (x - buf) < 512" by simp
    from offset_next_sector(2) [OF this] have "\<not> unat (x - (buf + 512)) < 512 * n"
      using Suc.prems by simp
    with False show ?thesis using L(2) [rule_format, of x] S(2) [rule_format, of x] by simp
  qed
  moreover have "sector_loop (Suc n) (ATA_ReadSector28 d a) 0x200 buf lba r (m, t) = Some (r, m', t')"
    by (simp add: S(1) L(1))
  ultimately show ?case using L(3) by blast
qed simp

lemma write_loop:
  assumes dev: "pio_drive d (m_BusPort a) ini"
  shows "unat lba + n \<le> 2 ^ 28 \<Longrightarrow>
    \<exists>t'. sector_loop n (ATA_WriteSector28 d a) 0x200 buf lba r (m, t) = Some (r, m, t') \<and>
      disk_after (m_BusPort a) ini t' = (\<lambda>s l w.
        if s = (m_Drive a = DriveSlave) \<and> unat lba \<le> unat l \<and> unat l < unat lba + n \<and> w < 256
        then load16 m (buf + of_nat (512 * (unat l - unat lba) + 2 * w))
        else disk_after (m_BusPort a) ini t s l w)"
proof (induction n arbitrary: buf lba t)
  case (Suc n)
  have small: "unat lba < 2 ^ 28" using Suc.prems by simp
  then have lba: "take_bit 28 lba = lba" by (simp add: word_unat_eq_iff unsigned_take_bit_eq take_bit_nat_eq_self)
  have lba1: "unat (lba + 1) = unat lba + 1" using small by (simp add: unat_add_no_wrap)
  obtain t1 where S: "ATA_WriteSector28 d a buf lba (m, t) = Some (0, m, t1)"
    "disk_after (m_BusPort a) ini t1 = (\<lambda>s l w. if s = (m_Drive a = DriveSlave) \<and> l = lba \<and> w < 256
      then load16 m (buf + of_nat (2 * w)) else disk_after (m_BusPort a) ini t s l w)"
    by (rule pio_WriteSector28 [OF dev, of buf lba m t, unfolded lba])
  have "unat (lba + 1) + n \<le> 2 ^ 28" using Suc.prems lba1 by simp
  from Suc.IH [OF this, of "buf + 0x200" t1] obtain t' where
    L: "sector_loop n (ATA_WriteSector28 d a) 0x200 (buf + 0x200) (lba + 1) r (m, t1) = Some (r, m, t')"
    "disk_after (m_BusPort a) ini t' = (\<lambda>s l w.
        if s = (m_Drive a = DriveSlave) \<and> unat lba + 1 \<le> unat l \<and> unat l < unat lba + 1 + n \<and> w < 256
        then load16 m (buf + 0x200 + of_nat (512 * (unat l - (unat lba + 1)) + 2 * w))
        else disk_after (m_BusPort a) ini t1 s l w)" unfolding lba1 by blast
  have "disk_after (m_BusPort a) ini t' s l w =
      (if s = (m_Drive a = DriveSlave) \<and> unat lba \<le> unat l \<and> unat l < unat lba + Suc n \<and> w < 256
       then load16 m (buf + of_nat (512 * (unat l - unat lba) + 2 * w))
       else disk_after (m_BusPort a) ini t s l w)" for s l w
  proof (cases "unat lba + 1 \<le> unat l")
    case True
    then obtain i where i: "unat l = unat lba + 1 + i" using le_Suc_ex by blast
    then have "l \<noteq> lba" by auto
    then show ?thesis unfolding L(2) S(2) by (simp add: i algebra_simps)
  next
    case False
    then have "unat lba \<le> unat l \<longleftrightarrow> l = lba" by (auto simp: word_unat_eq_iff)
    with False show ?thesis unfolding L(2) S(2) by auto
  qed
  moreover have "sector_loop (Suc n) (ATA_WriteSector28 d a) 0x200 buf lba r (m, t) = Some (r, m, t')"
    by (simp add: S(1) L(1))
  ultimately show ?case by blast
qed (auto simp: fun_eq_iff)

section \<open>The first failing sector\<close>

lemma sector_loop_error:
  assumes "\<forall>i<n. sector (ptr + of_nat i * step) (lba + of_nat i) (s i) = Some (0, s (Suc i))"
    and "sector (ptr + of_nat n * step) (lba + of_nat n) (s n) = Some (r, s')" and "r \<noteq> 0"
  shows "sector_loop (n + Suc k) sector step ptr lba result (s 0) = Some (- 1, s')"
  using assms
proof (induction n arbitrary: ptr lba s)
  case (Suc n)
  have "sector_loop (n + Suc k) sector step (ptr + step) (lba + 1) result (s (Suc 0)) = Some (- 1, s')"
  proof (rule Suc.IH [where s = "\<lambda>i. s (Suc i)"])
    show "\<forall>i<n. sector (ptr + step + of_nat i * step) (lba + 1 + of_nat i) (s (Suc i)) = Some (0, s (Suc (Suc i)))"
    proof (intro allI impI)
      fix i assume "i < n"
      with Suc.prems(1) [rule_format, of "Suc i"]
      show "sector (ptr + step + of_nat i * step) (lba + 1 + of_nat i) (s (Suc i)) = Some (0, s (Suc (Suc i)))"
        by (simp add: algebra_simps)
    qed
  qed (use Suc.prems(2,3) in \<open>simp_all add: algebra_simps\<close>)
  moreover have "sector ptr lba (s 0) = Some (0, s (Suc 0))" using Suc.prems(1) [rule_format, of 0] by simp
  ultimately show ?case by simp
qed simp

text \<open>A sector command after which the drive reports an error leaves memory as it was.\<close>

lemma ReadSector28_error:
  assumes "ATA_Poll d a (ATA_select28 a lba ATA_COMMAND_READ_PIO t) = Some (False, t')"
  shows "ATA_ReadSector28 d a buf lba (m, t) = Some (- 1, m, t')"
  using assms by (simp add: ATA_ReadSector28_def)

section \<open>Properties\<close>

text \<open>
  A bus whose drives never keep the driver waiting and answer from the replay of the history.
\<close>

definition ideal_device :: "u16 \<Rightarrow> disk \<Rightarrow> device" where
  "ideal_device p ini = \<lparr>dev_in8 = (\<lambda>t q. 0x48),
     dev_in16 = (\<lambda>t q. disk_after p ini t (drive_slave p t) (drive_lba p t) (words_moved p t)),
     dev_in32 = (\<lambda>t q. 0)\<rparr>"

lemma ideal_device_status: "in8_value (ideal_device p ini) q n t = 0x48"
  by (simp add: in8_value_def INSB_def ideal_device_def Let_def)

lemma ideal_device_pio: "pio_drive (ideal_device p ini) p ini"
  unfolding pio_drive_def
proof (intro conjI allI impI)
  fix t
  have "poll_settles (ideal_device p ini) (p + 7) 0 0 t \<and>
      \<not> status_error (in8_value (ideal_device p ini) (p + 7) (15 + 0 + 0) t)"
    by (simp add: poll_settles_def ideal_device_status ata_status_bits)
  then show "\<exists>n j. poll_settles (ideal_device p ini) (p + 7) n j t \<and>
      \<not> status_error (in8_value (ideal_device p ini) (p + 7) (15 + n + j) t)" by blast
  have "reads_until (ideal_device p ini) (p + 7) (\<lambda>status. status_busy status \<and> \<not> status_request status) 0 t \<and>
      \<not> status_error (in8_value (ideal_device p ini) (p + 7) 0 t)"
    unfolding reads_until_def ideal_device_status by (simp add: ata_status_bits)
  then show "\<exists>n. reads_until (ideal_device p ini) (p + 7)
      (\<lambda>status. status_busy status \<and> \<not> status_request status) n t \<and>
      \<not> status_error (in8_value (ideal_device p ini) (p + 7) n t)" by blast
qed (simp add: ideal_device_def)

text \<open>The master of the primary bus, and a disk whose words spell out their place.\<close>

definition ata_0 :: ata where
  "ata_0 = \<lparr>m_SectorSize = 0x200, m_Bus = BusPrimary, m_Drive = DriveMaster, m_BusPort = 0x1F0,
     m_DriveCode = 0xA0, m_DeviceInfo = 0\<rparr>"

definition disk_0 :: disk where
  "disk_0 = (\<lambda>s l w. ucast l * 256 + of_nat w)"

text \<open>
  C34: \<^verbatim>\<open>Poll\<close> returns exactly when the drive, after the 14 reads of the delay, once shows that it is not
  busy and from then on once shows an error or a request for data; the first such read decides, and it
  is the last access. A drive that never does so keeps the kernel waiting for ever.
\<close>

theorem poll_returns_iff_drive_settles:
  "ATA_Poll d a t = Some (b, t') \<longleftrightarrow>
    (\<exists>n j. poll_settles d (m_BusPort a + ATA_STATUS_REG) n j t \<and>
      (b \<longleftrightarrow> \<not> status_error (in8_value d (m_BusPort a + ATA_STATUS_REG) (15 + n + j) t)) \<and>
      t' = in8_reads d (m_BusPort a + ATA_STATUS_REG) (16 + n + j) t)"
  by (rule Poll_iff)

text \<open>
  On a bus whose drives work, \<^verbatim>\<open>Read28\<close> returns the number of bytes and stores the sectors from \<^verbatim>\<open>lba\<close>
  on in the buffer, low byte of each word first; no other byte of memory and no sector changes. Only the
  low 28 bits of a sector number reach the drive.
\<close>

theorem read28_stores_sectors:
  assumes "pio_drive d (m_BusPort a) ini" and "m_SectorSize a = ATA_SECTOR_SIZE"
    and "512 * unat n \<le> 4294967296"
  shows "\<exists>m' t'. ATA_Read28 d a buf n lba (m, t) = Some (sint (n * ATA_SECTOR_SIZE), m', t') \<and>
    (\<forall>x. m' x = (if unat (x - buf) < 512 * unat n
      then word_byte (disk_after (m_BusPort a) ini t (m_Drive a = DriveSlave)
        (take_bit 28 (lba + of_nat (unat (x - buf) div 512)))) (unat (x - buf) mod 512)
      else m x)) \<and>
    disk_after (m_BusPort a) ini t' = disk_after (m_BusPort a) ini t"
  using read_loop [OF assms(1,3), of buf lba "sint (n * ATA_SECTOR_SIZE)" m t] assms(2)
  by (simp add: ATA_Read28_def ATA_SECTOR_SIZE_def)

theorem read28_stores_sectors_witness:
  "\<exists>m' t'. ATA_Read28 (ideal_device 0x1F0 disk_0) ata_0 0x10000 2 7 (\<lambda>_. 0, []) = Some (1024, m', t') \<and>
     m' 0x10200 = 0 \<and> m' 0x10201 = 8 \<and> m' 0x10202 = 1 \<and> m' 0x10400 = 0"
proof -
  have r: "sint ((2 :: u32) * ATA_SECTOR_SIZE) = 1024" by (simp add: ATA_SECTOR_SIZE_def)
  have b: "take_bit 28 (8 :: u32) = 8" by simp
  show ?thesis
    using read28_stores_sectors [OF ideal_device_pio [of "m_BusPort ata_0" disk_0],
        where n = 2 and buf = "0x10000" and lba = 7 and m = "\<lambda>_. 0" and t = "[]"]
    unfolding r by (auto simp: ata_0_def ATA_SECTOR_SIZE_def word_byte_def disk_0_def b)
qed

text \<open>
  C24: On a bus whose drives work, sectors written by \<^verbatim>\<open>Write28\<close> are what \<^verbatim>\<open>Read28\<close> reads back, into any
  buffer and at the same place of the disk; \<^verbatim>\<open>Write28\<close> itself leaves memory alone.
\<close>

theorem read28_after_write28:
  assumes dev: "pio_drive d (m_BusPort a) ini" and sz: "m_SectorSize a = ATA_SECTOR_SIZE"
    and range: "unat lba + unat n \<le> 2 ^ 28" and n: "512 * unat n \<le> 4294967296"
  shows "\<exists>t1 m' t2. ATA_Write28 d a buf n lba (m, t) = Some (sint (n * ATA_SECTOR_SIZE), m, t1) \<and>
    ATA_Read28 d a buf' n lba (m, t1) = Some (sint (n * ATA_SECTOR_SIZE), m', t2) \<and>
    (\<forall>k<512 * unat n. m' (buf' + of_nat k) = m (buf + of_nat k))"
proof -
  let ?s = "m_Drive a = DriveSlave" and ?D = "disk_after (m_BusPort a) ini"
  obtain t1 where W: "ATA_Write28 d a buf n lba (m, t) = Some (sint (n * ATA_SECTOR_SIZE), m, t1)"
    "?D t1 = (\<lambda>s l w. if s = ?s \<and> unat lba \<le> unat l \<and> unat l < unat lba + unat n \<and> w < 256
      then load16 m (buf + of_nat (512 * (unat l - unat lba) + 2 * w)) else ?D t s l w)"
    using write_loop [OF dev range, of buf "sint (n * ATA_SECTOR_SIZE)" m t] sz
    by (auto simp: ATA_Write28_def ATA_SECTOR_SIZE_def)
  obtain m' t2 where R: "ATA_Read28 d a buf' n lba (m, t1) = Some (sint (n * ATA_SECTOR_SIZE), m', t2)"
    "\<forall>x. m' x = (if unat (x - buf') < 512 * unat n
      then word_byte (?D t1 ?s (take_bit 28 (lba + of_nat (unat (x - buf') div 512)))) (unat (x - buf') mod 512)
      else m x)"
    using read_loop [OF dev n, of buf' lba "sint (n * ATA_SECTOR_SIZE)" m t1] sz
    by (auto simp: ATA_Read28_def ATA_SECTOR_SIZE_def)
  have "m' (buf' + of_nat k) = m (buf + of_nat k)" if k: "k < 512 * unat n" for k
  proof -
    let ?i = "k div 512"
    have off: "unat (buf' + of_nat k - buf') = k" using k n by (simp add: unat_of_nat32)
    have i: "?i < unat n" using k by (simp add: less_mult_imp_div_less mult.commute)
    have l: "unat (lba + of_nat ?i) = unat lba + ?i"
      using i range by (simp add: unat_add_no_wrap unat_of_nat32)
    then have tb: "take_bit 28 (lba + of_nat ?i) = lba + of_nat ?i"
      using i range by (simp add: word_unat_eq_iff unsigned_take_bit_eq take_bit_nat_eq_self)
    have words: "?D t1 ?s (lba + of_nat ?i) w = load16 m (buf + of_nat (512 * ?i) + of_nat (2 * w))"
      if "w < 256" for w
      using that i unfolding W(2) l by (simp add: add.assoc)
    have "k mod 512 div 2 < 256" using mod_less_divisor [of 512 k] by linarith
    then have "word_byte (?D t1 ?s (lba + of_nat ?i)) (k mod 512) =
        word_byte (\<lambda>w. load16 m (buf + of_nat (512 * ?i) + of_nat (2 * w))) (k mod 512)"
      unfolding word_byte_def by (simp only: words)
    also have "\<dots> = m (buf + of_nat (512 * ?i) + of_nat (k mod 512))" by (rule word_byte_load16)
    also have "buf + of_nat (512 * ?i) + of_nat (k mod 512) = buf + of_nat (512 * ?i + k mod 512)"
      by (simp only: add.assoc of_nat_add)
    also have "512 * ?i + k mod 512 = k" by simp
    finally show ?thesis using R(2) [rule_format, of "buf' + of_nat k"] k unfolding off tb by simp
  qed
  with W(1) R(1) show ?thesis by blast
qed

theorem read28_after_write28_witness:
  "\<exists>t1 m' t2. ATA_Write28 (ideal_device 0x1F0 disk_0) ata_0 0x1000 1 3 (text_memory, []) = Some (512, text_memory, t1) \<and>
     ATA_Read28 (ideal_device 0x1F0 disk_0) ata_0 0x8000 1 3 (text_memory, t1) = Some (512, m', t2) \<and>
     m' 0x8001 = 0x61"
proof -
  have r: "sint ((1 :: u32) * ATA_SECTOR_SIZE) = 512" by (simp add: ATA_SECTOR_SIZE_def)
  obtain t1 m' t2 where
    W: "ATA_Write28 (ideal_device 0x1F0 disk_0) ata_0 0x1000 1 3 (text_memory, []) = Some (512, text_memory, t1)"
    "ATA_Read28 (ideal_device 0x1F0 disk_0) ata_0 0x8000 1 3 (text_memory, t1) = Some (512, m', t2)"
    and K: "\<forall>k<512 * unat (1 :: u32). m' (0x8000 + of_nat k) = text_memory (0x1000 + of_nat k)"
    using read28_after_write28 [OF ideal_device_pio [of "m_BusPort ata_0" disk_0],
      where n = 1 and buf = "0x1000" and lba = 3 and m = text_memory and t = "[]" and buf' = "0x8000"] unfolding r by (auto simp: ata_0_def ATA_SECTOR_SIZE_def)
  from K [rule_format, of 1] have "m' 0x8001 = 0x61" by (simp add: text_memory_def)
  with W show ?thesis by blast
qed


text \<open>
  When the drive reports an error for a sector after \<open>j\<close> good ones, \<^verbatim>\<open>Read28\<close> stops there and returns
  -1; memory is as the good sectors left it and nothing is sent to the drive any more.
\<close>

theorem read28_stops_at_first_error:
  assumes "m_SectorSize a = ATA_SECTOR_SIZE" and "j < unat n"
    and "\<forall>i<j. ATA_ReadSector28 d a (buf + of_nat i * ATA_SECTOR_SIZE) (lba + of_nat i) (s i) = Some (0, s (Suc i))"
    and "ATA_Poll d a (ATA_select28 a (lba + of_nat j) ATA_COMMAND_READ_PIO (snd (s j))) = Some (False, t')"
  shows "ATA_Read28 d a buf n lba (s 0) = Some (- 1, fst (s j), t')"
proof -
  have "ATA_ReadSector28 d a (buf + of_nat j * ATA_SECTOR_SIZE) (lba + of_nat j) (s j) = Some (- 1, fst (s j), t')"
    using ReadSector28_error [OF assms(4), of _ "fst (s j)"] by simp
  moreover obtain k where "unat n = j + Suc k" using assms(2) less_imp_Suc_add by fastforce
  ultimately show ?thesis
    using sector_loop_error [where s = s and n = j, OF assms(3)] assms(1) by (simp add: ATA_Read28_def)
qed

text \<open>A drive that answers every status read with an error.\<close>

definition failing_device :: device where
  "failing_device = \<lparr>dev_in8 = (\<lambda>t q. 0x41), dev_in16 = (\<lambda>t q. 0), dev_in32 = (\<lambda>t q. 0)\<rparr>"

lemma failing_device_poll: "\<exists>t'. ATA_Poll failing_device a t = Some (False, t')"
proof -
  have v: "in8_value failing_device q n t = 0x41" for q n
    by (simp add: in8_value_def INSB_def failing_device_def Let_def)
  then have "poll_settles failing_device (m_BusPort a + ATA_STATUS_REG) 0 0 t"
    by (simp add: poll_settles_def ata_status_bits)
  then show ?thesis unfolding Poll_iff using v by (auto simp: ata_status_bits)
qed

theorem read28_stops_at_first_error_witness:
  "\<exists>t'. ATA_Read28 failing_device ata_0 0x1000 4 0 (text_memory, []) = Some (- 1, text_memory, t')"
proof -
  obtain t' where "ATA_Poll failing_device ata_0 (ATA_select28 ata_0 (0 + of_nat 0) ATA_COMMAND_READ_PIO []) =
      Some (False, t')" using failing_device_poll by blast
  then show ?thesis
    using read28_stops_at_first_error [where d = failing_device and a = ata_0 and n = 4 and j = 0 and buf = "0x1000"
      and lba = 0 and s = "\<lambda>_. (text_memory, [])"]
    by (auto simp: ata_0_def ATA_SECTOR_SIZE_def)
qed

lemma read_words_frame:
  obtains m' t' where "for_range 0 256 (\<lambda>_. ReadSector28_word d a) (buf, m, t) = (buf + 512, m', t')"
    and "\<forall>x. 512 \<le> unat (x - buf) \<longrightarrow> m' x = m x"
proof -
  define P where "P i = (\<lambda>(ptr, m', t' :: port_trace). ptr = buf + of_nat (2 * unat i) \<and>
      (\<forall>x. 512 \<le> unat (x - buf) \<longrightarrow> m' x = m x))" for i :: u32
  have end_inv: "P 256 (for_range 0 256 (\<lambda>_. ReadSector28_word d a) (buf, m, t))"
  proof (rule for_range_invariant [of P])
    show "P 0 (buf, m, t)" by (simp add: P_def)
    fix i :: u32 and st assume i: "i < 256" and I: "P i st"
    obtain ptr m' t' where st: "st = (ptr, m', t')" by (cases st)
    have lt: "unat i < 256" using i by (simp add: word_less_nat_alt)
    have J: "ptr = buf + of_nat (2 * unat i)" "\<forall>x. 512 \<le> unat (x - buf) \<longrightarrow> m' x = m x"
      using I unfolding P_def st by simp_all
    have i1: "unat (i + 1) = Suc (unat i)" using i by (rule unat_inc)
    have "store16 ptr v m' x = m x" if x: "512 \<le> unat (x - buf)" for v x
    proof -
      have "unat (buf + of_nat k - buf) = k" if "k < 512" for k using that by (simp add: unat_of_nat32)
      from this [of "2 * unat i"] this [of "2 * unat i + 1"] have "x \<noteq> ptr" "x \<noteq> ptr + 1"
        using x lt unfolding J(1) by (auto simp: add.assoc add.commute)
      then show ?thesis using J(2) x by (simp add: store16_def)
    qed
    then show "P (i + 1) (ReadSector28_word d a st)"
      unfolding P_def i1 st ReadSector28_word_def by (simp add: J(1) split_beta algebra_simps)
  qed simp
  obtain ptr m' t' where R: "for_range 0 256 (\<lambda>_. ReadSector28_word d a) (buf, m, t) = (ptr, m', t')"
    by (cases "for_range 0 256 (\<lambda>_. ReadSector28_word d a) (buf, m, t)")
  with end_inv show ?thesis by (intro that [of m' t']) (simp_all add: P_def)
qed

lemma InitBusDrive_True:
  assumes "ATA_InitBusDrive d a (k, t) = Some (True, a', k', t')"
  obtains blk k1 t9 m' where "operator_new_array 512 k = Some (blk, k1)"
    and "a' = a\<lparr>m_DeviceInfo := blk + 512\<rparr>" and "k' = k1\<lparr>k_bytes := m'\<rparr>"
    and "\<forall>x. 512 \<le> unat (x - blk) \<longrightarrow> m' x = k_bytes k1 x"
proof -
  let ?loop = "\<lambda>blk k1 t9. for_range 0 256 (\<lambda>_. ReadSector28_word d a) (blk, k_bytes k1, t9)"
  obtain blk k1 t9 where B: "operator_new_array 512 k = Some (blk, k1)"
    "a\<lparr>m_DeviceInfo := fst (?loop blk k1 t9)\<rparr> = a'" "k1\<lparr>k_bytes := fst (snd (?loop blk k1 t9))\<rparr> = k'"
    using assms by (auto simp: ATA_InitBusDrive_def Let_def split_beta bind_eq_Some_conv split: if_splits)
  show ?thesis
  proof (rule read_words_frame [of d a blk "k_bytes k1" t9])
    fix m' t10 assume "?loop blk k1 t9 = (blk + 512, m', t10)" "\<forall>x. 512 \<le> unat (x - blk) \<longrightarrow> m' x = k_bytes k1 x"
    with B show ?thesis by (intro that [of blk k1 m']) auto
  qed
qed

text \<open>The block that a successful initialisation allocates and fills.\<close>

lemma ATA_Init_block:
  assumes run: "ATA_Init d bus drive a (k, t) = Some (True, a', k', t')"
    and inv: "heap_inv k" and room: "heap_room 512 k"
  obtains blk where "blk \<noteq> 0" and "unat blk + 512 < 4294967296" and "kernel_client k \<inter> block_of blk 512 = {}"
    and "m_DeviceInfo a' = blk + 512" and "kb.grown k 525 k'" and "k_managers k' = k_managers k"
    and "m_SectorSize a' = ATA_SECTOR_SIZE" and "m_Drive a' = drive"
    and "m_BusPort a' = (if bus = BusPrimary then 0x1F0 else 0x170)"
proof -
  define a1 where "a1 = a\<lparr>m_SectorSize := ATA_SECTOR_SIZE, m_Bus := bus, m_Drive := drive,
      m_BusPort := (if bus = BusPrimary then 0x1F0 else 0x170),
      m_DriveCode := (if drive = DriveMaster then 0xA0 else 0xB0)\<rparr>"
  have "ATA_InitBusDrive d a1 (k, t) = Some (True, a', k', t')"
    using run by (auto simp: ATA_Init_def Let_def bind_eq_Some_conv a1_def split: if_splits)
  then obtain blk k1 m' where new: "operator_new_array 512 k = Some (blk, k1)"
    and res: "a' = a1\<lparr>m_DeviceInfo := blk + 512\<rparr>" "k' = k1\<lparr>k_bytes := m'\<rparr>"
    and same: "\<forall>x. 512 \<le> unat (x - blk) \<longrightarrow> m' x = k_bytes k1 x"
    by (rule InitBusDrive_True)
  have n: "(512 :: u32) \<noteq> 0" by simp
  have run1: "KMalloc 512 k = Some (blk, k1)" using new by (simp add: operator_new_array_def)
  obtain A: "blk \<noteq> 0" "unat blk + 512 < 4294967296" "kernel_client k \<inter> block_of blk 512 = {}"
    using kh.alloc_law [OF inv n room] run1 by auto
  have "m' (of_nat x) = k_bytes k1 (of_nat x)" if x: "x \<in> {..<4294967296} - block_of blk 512" for x
  proof -
    have "\<not> unat (of_nat x - blk) < 512" using offset_in_block [of x blk 512] x A(2) by (auto simp: block_of_def)
    then show ?thesis using same by simp
  qed
  then have "same_bytes ({..<4294967296} - block_of blk 512) (k_bytes k1) m'" by (simp add: same_bytes_def)
  from kb.alloc_grown(1) [OF inv n room run1 this] have "kb.grown k 525 k'" by (simp add: res(2))
  moreover have "k_managers k' = k_managers k" using run1 by (auto simp: res(2) KMalloc_def bind_eq_Some_conv)
  ultimately show ?thesis by (intro that [OF A]) (simp_all add: res(1) a1_def)
qed

text \<open>
  A successful \<^verbatim>\<open>Init\<close> allocates 512 bytes for the identification of the drive and keeps the heap well
  formed and the clients' bytes, but \<^verbatim>\<open>m_DeviceInfo\<close> is the end of that block, not its beginning: the
  loop advances the pointer that is stored afterwards.
\<close>

theorem ata_init_device_info_past_block:
  assumes "ATA_Init d bus drive a (k, t) = Some (True, a', k', t')" and "heap_inv k" and "heap_room 512 k"
  shows "\<exists>blk. blk \<noteq> 0 \<and> kernel_client k \<inter> block_of blk 512 = {} \<and> m_DeviceInfo a' = blk + 512 \<and>
    unat (m_DeviceInfo a') \<notin> block_of blk 512 \<and> heap_inv k' \<and> same_bytes (kernel_client k) (k_bytes k) (k_bytes k')"
proof -
  obtain blk where B: "blk \<noteq> 0" "unat blk + 512 < 4294967296" "kernel_client k \<inter> block_of blk 512 = {}"
    "m_DeviceInfo a' = blk + 512" "kb.grown k 525 k'" by (rule ATA_Init_block [OF assms])
  have "unat (blk + 512) = unat blk + 512" using B(2) by (simp add: unat_add_no_wrap)
  then have "unat (m_DeviceInfo a') \<notin> block_of blk 512" by (simp add: B(4) block_of_def)
  with B show ?thesis by (auto simp: kb.grown_def)
qed

lemma ideal_Init:
  assumes "heap_inv k" and "heap_room 512 k"
  shows "\<exists>a' k' t'. ATA_Init (ideal_device p ini) bus drive a (k, t) = Some (True, a', k', t')"
proof -
  let ?d = "ideal_device p ini"
  have st: "fst (INSB ?d q t) = 0x48" for q t by (simp add: INSB_def ideal_device_def Let_def)
  have wait: "Init_wait ?d q t = Some (True, snd (INSB ?d (q + ATA_STATUS_REG) t))" for q t
    by (subst Init_wait.simps) (simp add: split_beta st ata_status_bits)
  have "read_while ?d q (\<lambda>status. \<not> status_error status \<and> \<not> status_request status) t = Some (INSB ?d q t)" for q t
    by (subst read_while_step) (simp add: st ata_status_bits)
  then have retry: "Poll_retry ?d q t = Some (True, snd (INSB ?d q t))" for q t
    by (simp add: Poll_retry_def split_beta st ata_status_bits)
  have "(512 :: u32) \<noteq> 0" by simp
  from kh.alloc_law [OF assms(1) this assms(2)] obtain blk k1 where "KMalloc 512 k = Some (blk, k1)" by blast
  then show ?thesis
    by (simp add: ATA_Init_def ATA_InitBusDrive_def Let_def split_beta st wait retry operator_new_array_def)
qed

theorem ata_init_device_info_past_block_witness:
  "\<exists>a' k' t' blk. ATA_Init (ideal_device 0x1F0 disk_0) BusPrimary DriveMaster ata_0 (kernel_text, []) = Some (True, a', k', t') \<and>
     m_DeviceInfo a' = blk + 512 \<and> heap_inv k'"
proof -
  have room: "heap_room 512 kernel_text" by (rule kernel_text_room) simp
  obtain a' k' t' where run: "ATA_Init (ideal_device 0x1F0 disk_0) BusPrimary DriveMaster ata_0 (kernel_text, []) =
      Some (True, a', k', t')" using ideal_Init [OF kernel_text_inv room] by blast
  from ata_init_device_info_past_block [OF run kernel_text_inv room] run show ?thesis by blast
qed

end
