(* ===== verification/Machine.thy ===== *)
theory Machine
  imports Report KernelInit ATA
begin

text \<open>
  The whole machine: the kernel's objects, the console, the processor's tables and the history of port
  accesses. Memory and the history are kept once; an operation of the console runs on a view of the machine.
  \<open>say\<close> prints a report on the machine's console, \<open>stop\<close> is \<^verbatim>\<open>KPanic\<close>.
\<close>

section \<open>State\<close>

record machine =
  mach_kernel :: kernel_state
  mach_console :: console
  mach_cpu :: processor
  mach_ports :: port_trace

definition console_view :: "machine \<Rightarrow> console" where
  "console_view M = (mach_console M)\<lparr>con_bytes := k_bytes (mach_kernel M), con_ports := mach_ports M\<rparr>"

definition console_back :: "machine \<Rightarrow> console \<Rightarrow> machine" where
  "console_back M c = M\<lparr>mach_kernel := (mach_kernel M)\<lparr>k_bytes := con_bytes c\<rparr>, mach_console := c,
     mach_ports := con_ports c\<rparr>"

definition say :: "device \<Rightarrow> (string \<Rightarrow> u32) \<Rightarrow> u32 \<Rightarrow> report \<Rightarrow> machine \<Rightarrow> machine option" where
  "say d lit tmp r M = map_option (console_back M) (print_report d lit tmp r (console_view M))"

definition stop :: "device \<Rightarrow> (string \<Rightarrow> u32) \<Rightarrow> u32 \<Rightarrow> string \<Rightarrow> machine \<Rightarrow> machine option" where
  "stop d lit tmp msg M = map_option (console_back M) (KPanic d tmp (lit (text_line msg)) (console_view M))"

lemma console_view_back [simp]:
  "mach_cpu (console_back M c) = mach_cpu M" "k_bytes (mach_kernel (console_back M c)) = con_bytes c"
  "g_KernelHeap (mach_kernel (console_back M c)) = g_KernelHeap (mach_kernel M)"
  "k_managers (mach_kernel (console_back M c)) = k_managers (mach_kernel M)"
  "mach_ports (console_back M c) = con_ports c" "console_view (console_back M c) = c"
  by (simp_all add: console_back_def console_view_def)

section \<open>What the components leave alone\<close>

text \<open>The disk changes by 16-bit writes only, so neither the screen nor the interrupt controller touches it.\<close>

lemma disk_after_in [simp]:
  "disk_after p ini (snd (INSB d q t)) = disk_after p ini t" "disk_after p ini (snd (INSW d q t)) = disk_after p ini t"
  by (simp_all add: INSB_def INSW_def Let_def)

lemma disk_after_reads [simp]: "disk_after p ini (in8_reads d q n t) = disk_after p ini t"
  by (induction n) simp_all

abbreviation console_disk :: "u16 \<Rightarrow> disk \<Rightarrow> console \<Rightarrow> disk" where
  "console_disk p ini c \<equiv> disk_after p ini (con_ports c)"

lemma cursor_disk [simp]:
  "console_disk p ini (VGA_SetCursor d w c) = console_disk p ini c"
  "console_disk p ini (VGA_EnableCursor d c) = console_disk p ini c"
  "console_disk p ini (VGA_DisableCursor d c) = console_disk p ini c"
  by (simp_all add: VGA_SetCursor_def VGA_EnableCursor_def VGA_DisableCursor_def split_beta Let_def)

lemma write_ports [simp]:
  "con_ports (VGA_WriteCharLocation col row ch color c) = con_ports c" "con_ports (VGA_ScrollDown c) = con_ports c"
  by (simp_all add: VGA_WriteCharLocation_def VGA_ScrollDown_def Let_def)

lemma WriteChar_disk [simp]: "console_disk p ini (VGA_WriteChar d ch c) = console_disk p ini c"
  by (simp add: VGA_WriteChar_def VGA_WriteCharColor_def Let_def)

lemma WriteStr_disk:
  assumes "VGA_WriteStr d str c = Some c'"
  shows "console_disk p ini c' = console_disk p ini c"
proof -
  have "WriteStr_loop d str 0 c = Some c'" using assms by (simp add: VGA_WriteStr_def)
  then show ?thesis
  proof (rule WriteStr_loop.raw_induct [rotated, where P = "\<lambda>d str i c c'. console_disk p ini c' = console_disk p ini c"])
    fix loop d str i c c'
    assume IH: "\<And>d str i c c'. loop d str i c = Some c' \<Longrightarrow> console_disk p ini c' = console_disk p ini c"
      and run: "Option.bind (Strlen (con_bytes c) str) (\<lambda>n.
        if i < n then loop d str (i + 1) (VGA_WriteChar d (con_bytes c (str + i)) c) else Some c) = Some c'"
    then obtain n where "(if i < n then loop d str (i + 1) (VGA_WriteChar d (con_bytes c (str + i)) c) else Some c) = Some c'"
      by (auto simp: bind_eq_Some_conv)
    then show "console_disk p ini c' = console_disk p ini c" using IH by (fastforce split: if_splits)
  qed
qed

lemma VGA_Init_disk:
  assumes "VGA_Init d msg c = Some (r, c')"
  shows "console_disk p ini c' = console_disk p ini c"
  using assms WriteStr_disk [where p = p and ini = ini]
  by (fastforce simp: VGA_Init_def Let_def split_beta bind_eq_Some_conv)

lemma ClearScreen_disk [simp]: "console_disk p ini (VGA_ClearScreen d c) = console_disk p ini c"
proof -
  have "con_ports (for_range 0 (ucast VGA_HEIGHT) (\<lambda>y. for_range 0 VGA_WIDTH (\<lambda>x c.
      VGA_WriteCharLocation (ucast x) (ucast y) 0x20 (s_Color c) c)) c) = con_ports c"
    by (rule for_range_preserves [where P = "\<lambda>c'. con_ports c' = con_ports c"], simp)
      (rule for_range_preserves [where P = "\<lambda>c'. con_ports c' = con_ports c"], simp_all)
  then show ?thesis by (simp add: VGA_ClearScreen_def)
qed

lemma PIC8259_Init_disk: "disk_after p ini (snd (PIC8259_Init d t)) = disk_after p ini t"
  by (simp add: PIC8259_Init_def PIC8259_Remap_def split_beta Let_def)

text \<open>Clearing the screen writes to the screen.\<close>

lemma ClearScreen_bytes:
  assumes "console_wf c"
  shows "same_bytes other_bytes (con_bytes c) (con_bytes (VGA_ClearScreen d c))" and "s_Color (VGA_ClearScreen d c) = s_Color c"
proof -
  let ?P = "\<lambda>c'. same_bytes other_bytes (con_bytes c) (con_bytes c') \<and> s_VideoAddress c' = VGA_VIDEO_ADDRESS \<and>
    s_Color c' = s_Color c"
  have cell: "?P (VGA_WriteCharLocation (ucast x) (ucast y) ch color c')"
    if "?P c'" "x < VGA_WIDTH" "y < ucast VGA_HEIGHT" for x y :: u32 and ch color c'
  proof -
    have lt: "unat x < 80" "unat y < 25" using that(2,3) by (simp_all add: word_less_nat_alt VGA_WIDTH_def VGA_HEIGHT_def)
    have u: "ucast (ucast z :: u16) = z" if "unat z < 65536" for z :: u32
    proof -
      have "ucast (ucast z :: u16) = take_bit 16 z"
        by (rule bit_word_eqI) (auto simp: bit_simps)
      also have "\<dots> = z" using that by (simp add: word_unat_eq_iff unsigned_take_bit_eq take_bit_nat_eq_self)
      finally show ?thesis .
    qed
    have "VGA_VIDEO_ADDRESS + 2 * (ucast (ucast y :: u16) * VGA_WIDTH + ucast (ucast x :: u16)) =
        cell_address (unat y) (unat x)"
      using lt by (simp add: u cell_address_def VGA_WIDTH_def algebra_simps)
    then show ?thesis
      using that(1) lt cell_frame [of "unat y" "unat x"] same_bytes_trans
      by (auto simp: VGA_WriteCharLocation_def)
  qed
  have "?P (for_range 0 (ucast VGA_HEIGHT) (\<lambda>y. for_range 0 VGA_WIDTH (\<lambda>x c.
      VGA_WriteCharLocation (ucast x) (ucast y) 0x20 (s_Color c) c)) c)"
    by (rule for_range_preserves [where P = ?P], use assms in \<open>simp add: console_wf_def\<close>)
      (rule for_range_preserves [where P = ?P], simp, rule cell, simp_all)
  then show "same_bytes other_bytes (con_bytes c) (con_bytes (VGA_ClearScreen d c))" "s_Color (VGA_ClearScreen d c) = s_Color c"
    by (simp_all add: VGA_ClearScreen_def frame_simps)
qed

text \<open>Starting the memory managers writes one block header, at the start of the heap.\<close>

lemma Heap_Init_bytes:
  "Heap_Init n k = Some (True, k') \<Longrightarrow>
    k_bytes k' = Memset (m_StartAddress (g_KernelHeap k')) 0 sizeof_HeapNode (k_bytes k)"
  by (auto simp: Heap_Init_def Let_def split: if_splits option.splits prod.splits)

lemma InitMemoryManager_bytes:
  "InitMemoryManager bi k = Some (True, k') \<Longrightarrow>
    k_bytes k' = Memset (m_StartAddress (g_KernelHeap k')) 0 sizeof_HeapNode (k_bytes k)"
  using Heap_Init_bytes
  by (fastforce simp: InitMemoryManager_def InitKernelHeap_def InitKMalloc_def Let_def
      split: if_splits option.splits prod.splits)

section \<open>Printing on the machine\<close>

lemma KPrintf_number_disk:
  "KPrintf_number d tmp base val c = Some c' \<Longrightarrow> console_disk p ini c' = console_disk p ini c"
  using WriteStr_disk [where p = p and ini = ini]
  by (fastforce simp: KPrintf_number_def KPrint_def bind_eq_Some_conv)

lemma KPrintf_loop_disk:
  assumes "KPrintf_loop d tmp ptr args c = Some c'"
  shows "console_disk p ini c' = console_disk p ini c"
proof (rule KPrintf_loop.raw_induct [OF _ assms, where P = "\<lambda>d tmp ptr args c c'. console_disk p ini c' = console_disk p ini c"])
  fix loop d tmp ptr args c c'
  assume IH: "\<And>d tmp ptr args c c'. loop d tmp ptr args c = Some c' \<Longrightarrow> console_disk p ini c' = console_disk p ini c"
    and run: "(if con_bytes c ptr = 0 then Some c
      else if con_bytes c ptr \<noteq> 0x25 then loop d tmp (ptr + 1) args (KPrintChar d (con_bytes c ptr) c)
      else let ptr = ptr + 1; ch = con_bytes c ptr
           in if ch = 0x64 \<or> ch = 0x75 \<or> ch = 0x69
              then (case args of [] \<Rightarrow> None | val # args \<Rightarrow>
                Option.bind (KPrintf_number d tmp 10 val c) (loop d tmp (ptr + 1) args))
              else if ch = 0x78
              then (case args of [] \<Rightarrow> None | val # args \<Rightarrow>
                Option.bind (KPrintf_number d tmp 16 val c) (loop d tmp (ptr + 1) args))
              else if ch = 0x63
              then (case args of [] \<Rightarrow> None | val # args \<Rightarrow> loop d tmp (ptr + 1) args (KPrintChar d (ucast val) c))
              else if ch = 0x73
              then (case args of [] \<Rightarrow> None | val # args \<Rightarrow>
                Option.bind (KPrint d val c) (loop d tmp (ptr + 1) args))
              else loop d tmp (ptr + 1) args (KPrintChar d ch c)) = Some c'"
  have ch: "console_disk p ini (KPrintChar d ch c) = console_disk p ini c" for ch by (simp add: KPrintChar_def)
  have num: "Option.bind (KPrintf_number d tmp base val c) (loop d tmp q as) = Some c' \<Longrightarrow>
      console_disk p ini c' = console_disk p ini c" for base val q as
    using IH KPrintf_number_disk [where p = p and ini = ini] by (fastforce simp: bind_eq_Some_conv)
  have str: "Option.bind (KPrint d val c) (loop d tmp q as) = Some c' \<Longrightarrow> console_disk p ini c' = console_disk p ini c" for val q as
    using IH WriteStr_disk [where p = p and ini = ini] by (fastforce simp: KPrint_def bind_eq_Some_conv)
  have chr: "loop d tmp q as (KPrintChar d ch c) = Some c' \<Longrightarrow> console_disk p ini c' = console_disk p ini c" for q as ch
    using IH ch by fastforce
  show "console_disk p ini c' = console_disk p ini c"
    using run num str chr by (auto simp: Let_def split: if_splits list.splits)
qed

lemma print_report_disk:
  "print_report d lit tmp r c = Some c' \<Longrightarrow> console_disk p ini c' = console_disk p ini c"
  using KPrintf_loop_disk [where p = p and ini = ini]
  by (induction r arbitrary: c) (fastforce simp: KPrintf_def bind_eq_Some_conv)+

text \<open>What printing leaves of the machine: the memory of the clients that is not the screen or the buffer.\<close>

lemma prints_machine:
  assumes p: "prints (console_view M) out tmp c" and inv: "heap_inv (mach_kernel M)"
    and low: "{..<0xC1000000} \<subseteq> kernel_client (mach_kernel M)" and tmp: "tmp_bytes tmp \<subseteq> {..<0xC1000000}"
  shows "heap_inv (mach_kernel (console_back M c))"
    and "kernel_client (mach_kernel (console_back M c)) = kernel_client (mach_kernel M)"
    and "console_wf (console_view (console_back M c))"
    and "same_bytes (quiet_bytes tmp) (k_bytes (mach_kernel M)) (k_bytes (mach_kernel (console_back M c)))"
proof -
  let ?k = "mach_kernel M"
  have same: "same_bytes (quiet_bytes tmp) (k_bytes ?k) (con_bytes c)"
    using p by (simp add: prints_def console_view_def)
  have "video_bytes \<subseteq> {..<0xC1000000}" by (auto simp: video_bytes_def)
  then have "{..<4294967296} - kernel_client ?k \<subseteq> quiet_bytes tmp"
    using low tmp unfolding quiet_bytes_def other_bytes_def by blast
  then have "same_bytes ({..<4294967296} - kernel_client ?k) (k_bytes ?k) (con_bytes c)" by (rule same_bytes_mono [OF same])
  then show "heap_inv (mach_kernel (console_back M c))"
    "kernel_client (mach_kernel (console_back M c)) = kernel_client ?k"
    using kh.write_law [OF inv] by (simp_all add: console_back_def)
  show "console_wf (console_view (console_back M c))" using p by (simp add: prints_def)
  show "same_bytes (quiet_bytes tmp) (k_bytes ?k) (k_bytes (mach_kernel (console_back M c)))" using same by simp
qed

end
