(* ===== verification/Messages.thy ===== *)
theory Messages
  imports Report KernelInit
begin

text \<open>
  The console messages of the memory managers: for every method that prints, the report of what it prints, as a
  function of the arguments and the state the method starts in. The branches are those of the method. The
  managers' own theories leave the messages out, because no method reads what it has printed.
\<close>

section \<open>VirtualMemoryManager\<close>

definition VMM_Init_report :: report where
  "VMM_Init_report = message ''Initializing VirtualMemoryManager...'' []"

definition VMM_Map_report :: "memory_util \<Rightarrow> u32 \<Rightarrow> u32 \<Rightarrow> bool \<Rightarrow> vmm \<Rightarrow> report" where
  "VMM_Map_report mu virtualAddress physicalAddress writable s =
     (if \<not> IsAligned physicalAddress PAGE_SIZE \<or> \<not> IsAligned virtualAddress PAGE_SIZE
      then message ''VirtualMemoryManager->Map(0x%x -> 0x%x) Failed, Address Not Aligned!'' [virtualAddress, physicalAddress]
      else if no_page_table (PAGE_DIRECTORY_TABLE_INDEX virtualAddress)
      then message ''VirtualMemoryManager->Map(0x%x) No Page Table Allocated for VirtualAddress!'' [virtualAddress]
      else case Map_directory_entry mu virtualAddress writable s of
        None \<Rightarrow> message ''VirtualMemoryManager->Map(0x%x) Invalid Page Directory Entry Index: %d!''
          [virtualAddress, PAGE_DIRECTORY_TABLE_INDEX virtualAddress]
      | Some s1 \<Rightarrow>
          (let table = PageDirectory_GetTable mu (vmm_PageDirectory s1) virtualAddress
           in if table = 0
              then message ''VirtualMemoryManager->Map(0x%x) Table Not Present For Page Directory of VirtualAddress!''
                [virtualAddress]
              else case table_at s1 table of
                None \<Rightarrow> []
              | Some r \<Rightarrow>
                  if PTE_IsPresent (PageTable_GetEntry (table_get s1 r) virtualAddress)
                  then message ''VirtualMemoryManager->Map(0x%x -> 0x%x) Failed, Table Entry Already Present!''
                    [virtualAddress, physicalAddress]
                  else []))"

primrec MapRange_report :: "memory_util \<Rightarrow> nat \<Rightarrow> u32 \<Rightarrow> u32 \<Rightarrow> bool \<Rightarrow> vmm \<Rightarrow> report" where
  "MapRange_report mu 0 virtualAddress physicalAddress writable s = []"
| "MapRange_report mu (Suc n) virtualAddress physicalAddress writable s =
     VMM_Map_report mu virtualAddress physicalAddress writable s @
     (case VMM_Map mu virtualAddress physicalAddress writable s of
        None \<Rightarrow> []
      | Some (ok, s') \<Rightarrow>
          if \<not> ok
          then message ''VirtualMemoryManager->Map(0x%x -> 0x%x) Failed to MemoryMap!'' [virtualAddress, physicalAddress]
          else MapRange_report mu n (virtualAddress + PAGE_SIZE) (physicalAddress + PAGE_SIZE) writable s')"

definition VMM_MapRange_report :: "memory_util \<Rightarrow> u32 \<Rightarrow> u32 \<Rightarrow> bool \<Rightarrow> u32 \<Rightarrow> vmm \<Rightarrow> report" where
  "VMM_MapRange_report mu virtualAddress physicalAddress writable count s =
     MapRange_report mu (unat count) virtualAddress physicalAddress writable s"

definition VMM_Unmap_report :: "memory_util \<Rightarrow> u32 \<Rightarrow> vmm \<Rightarrow> report" where
  "VMM_Unmap_report mu virtualAddress s =
     (if \<not> IsAligned virtualAddress PAGE_SIZE
      then message ''VirtualMemoryManager->Unmap(0x%x) Failed, Address Not Aligned!'' [virtualAddress]
      else if no_page_table (PAGE_DIRECTORY_TABLE_INDEX virtualAddress)
      then message ''VirtualMemoryManager->Unmap(0x%x) No Page Table Allocated for VirtualAddress!'' [virtualAddress]
      else if \<not> PDE_IsPresent (PageDirectory_GetEntry (vmm_PageDirectory s) virtualAddress)
      then message ''VirtualMemoryManager->Unmap(0x%x) No Page Directory Entry Present for VirtualAddress!'' [virtualAddress]
      else let table = PageDirectory_GetTable mu (vmm_PageDirectory s) virtualAddress
           in if table = 0
              then message ''VirtualMemoryManager->Unmap(0x%x) Table Not Present For Page Directory of VirtualAddress!''
                [virtualAddress]
              else case table_at s table of
                None \<Rightarrow> []
              | Some r \<Rightarrow>
                  if \<not> PTE_IsPresent (PageTable_GetEntry (table_get s r) virtualAddress)
                  then message ''VirtualMemoryManager->Unmap(0x%x) Failed, No Page Table Entry Present for VirtualAddress!''
                    [virtualAddress]
                  else [])"

primrec UnmapRange_report :: "memory_util \<Rightarrow> nat \<Rightarrow> u32 \<Rightarrow> vmm \<Rightarrow> report" where
  "UnmapRange_report mu 0 virtualAddress s = []"
| "UnmapRange_report mu (Suc n) virtualAddress s =
     VMM_Unmap_report mu virtualAddress s @
     (case VMM_Unmap mu virtualAddress s of
        None \<Rightarrow> []
      | Some (ok, s') \<Rightarrow>
          if \<not> ok then message ''VirtualMemoryManager->Unmap(0x%x) Failed to MemoryUnmap!'' [virtualAddress]
          else UnmapRange_report mu n (virtualAddress + PAGE_SIZE) (VMM_FlushTLB virtualAddress s'))"

definition VMM_UnmapRange_report :: "memory_util \<Rightarrow> u32 \<Rightarrow> u32 \<Rightarrow> vmm \<Rightarrow> report" where
  "VMM_UnmapRange_report mu virtualAddress count s = UnmapRange_report mu (unat count) virtualAddress s"

definition VMM_GetPhysicalAddress_report :: "memory_util \<Rightarrow> u32 \<Rightarrow> vmm \<Rightarrow> report" where
  "VMM_GetPhysicalAddress_report mu virtualAddress s =
     (if \<not> IsAligned virtualAddress PAGE_SIZE
      then message ''VirtualMemoryManager->GetPhysicalAddress(0x%x) Failed, Address Not Aligned!'' [virtualAddress]
      else if no_page_table (PAGE_DIRECTORY_TABLE_INDEX virtualAddress)
      then message ''VirtualMemoryManager->GetPhysicalAddress(0x%x) No Page Table Allocated for VirtualAddress!'' [virtualAddress]
      else if \<not> PDE_IsPresent (PageDirectory_GetEntry (vmm_PageDirectory s) virtualAddress)
      then message ''VirtualMemoryManager->GetPhysicalAddress(0x%x) No Page Directory Entry Present for VirtualAddress!''
        [virtualAddress]
      else let table = PageDirectory_GetTable mu (vmm_PageDirectory s) virtualAddress
           in if table = 0
              then message ''VirtualMemoryManager->GetPhysicalAddress(0x%x) Table Not Present For Page Directory of VirtualAddress!''
                [virtualAddress]
              else case table_at s table of
                None \<Rightarrow> []
              | Some r \<Rightarrow>
                  if \<not> PTE_IsPresent (PageTable_GetEntry (table_get s r) virtualAddress)
                  then message ''VirtualMemoryManager->GetPhysicalAddress(0x%x) Failed, No Page Table Entry Present for VirtualAddress!''
                    [virtualAddress]
                  else [])"

section \<open>VirtualMemoryAllocator\<close>

definition VMA_Init_report :: "u32 \<Rightarrow> u32 \<Rightarrow> vma \<Rightarrow> report" where
  "VMA_Init_report startAddress sizeBytes v =
     (let w = snd (VMA_Init startAddress sizeBytes v)
      in message ''Initializing VirtualMemoryAllocator...'' [] @
         message ''VirtualMemoryAllocator{AddressSpacePageSize = %d, AddressSpacePageCount = %d, AddressSpaceSize = %dMB, StartAddress = 0x%x, EndAddress = 0x%x}''
           [4096, vma_PageCount w, vma_MemorySizeBytes w div 1048576, vma_StartAddress w, vma_EndAddress w])"

definition VMA_AllocatePages_report :: "u32 \<Rightarrow> memory_state \<Rightarrow> report" where
  "VMA_AllocatePages_report pageCount k =
     (if pageCount = 0 then []
      else let firstPage = Bitmap_FindUnsetBits (vma_Bitmap (g_KernelVMA k)) pageCount
           in if sint firstPage < 0 then []
              else let (paddr, pm) = PMM_AllocatePages pageCount (g_KernelPMM k);
                       k1 = k\<lparr>g_KernelPMM := pm\<rparr>
                   in if paddr = 0
                      then message ''VirtualMemoryAllocator->AllocatePages(%d) Failed to Allocate Physical Memory!'' [pageCount]
                      else let v = g_KernelVMA k1;
                               k2 = k1\<lparr>g_KernelVMA :=
                                 v\<lparr>vma_Bitmap := Bitmap_SetBits firstPage pageCount (vma_Bitmap v)\<rparr>\<rparr>;
                               vaddr = VMA_PageNumberToAddress (g_KernelVMA k2) firstPage
                           in VMM_MapRange_report (k_MemoryUtil k2) vaddr paddr True pageCount (g_KernelVMM k2) @
                              (case VMM_MapRange (k_MemoryUtil k2) vaddr paddr True pageCount (g_KernelVMM k2) of
                                 None \<Rightarrow> []
                               | Some (ok, vm) \<Rightarrow>
                                   if \<not> ok
                                   then message ''VirtualMemoryAllocator->AllocatePages(%d) Failed to Map(0x%x -> 0x%x)!''
                                     [pageCount, paddr, vaddr]
                                   else message ''VirtualMemoryAllocator->Allocated(Virt(0x%x) -> Phys(0x%x))!'' [vaddr, paddr]))"

text \<open>The message of the second guard of \<^verbatim>\<open>FreePages\<close> is never printed.\<close>

definition VMA_FreePages_report :: "u32 \<Rightarrow> u32 \<Rightarrow> memory_state \<Rightarrow> report" where
  "VMA_FreePages_report address pageCount k =
     (if address = 0 then []
      else VMM_GetPhysicalAddress_report (k_MemoryUtil k) address (g_KernelVMM k) @
        (case VMM_GetPhysicalAddress (k_MemoryUtil k) address (g_KernelVMM k) of
           None \<Rightarrow> []
         | Some physicalAddress \<Rightarrow>
             if address = 0
             then message ''VirtualMemoryAllocator->FreePages(%d) Failed to Get Physical Address for Virtual Address(0x%x)!''
               [pageCount, address]
             else VMM_UnmapRange_report (k_MemoryUtil k) address pageCount (g_KernelVMM k) @
               (case VMM_UnmapRange (k_MemoryUtil k) address pageCount (g_KernelVMM k) of
                  None \<Rightarrow> []
                | Some (ok, vm) \<Rightarrow>
                    if \<not> ok
                    then message ''VirtualMemoryAllocator->FreePages(%d) Failed to Unmap(0x%x)!'' [pageCount, address]
                    else [])))"

section \<open>PhysicalMemoryManager\<close>

definition PMM_Init_report :: "BootInfo \<Rightarrow> pmm \<Rightarrow> report" where
  "PMM_Init_report bootInfo p0 =
     message ''Initializing PhysicalMemoryManager...'' [] @
     (let p1 = p0\<lparr>pmm_PageSize := 4096\<rparr>; (ok1, p2) = PMM_InitMemory bootInfo p1
      in if \<not> ok1 then message ''PhysicalMemoryManager Failed to InitMemory'' []
         else let (ok2, p3) = PMM_InitBitmap bootInfo p2
              in if \<not> ok2 then message ''PhysicalMemoryManager Failed to InitBitmap'' []
                 else let (ok3, p4) = PMM_InitFreeMemory bootInfo p3
                      in if \<not> ok3 then message ''PhysicalMemoryManager Failed to InitFreeMemory'' []
                         else message ''PhysicalMemoryManager{PageSize = %d, PageCount = %d, MemorySize = %dMB, StartAddress = 0x%x, EndAddress = 0x%x}''
                           [pmm_PageSize p4, pmm_PageCount p4, pmm_MemorySizeBytes p4 div 1048576,
                            pmm_StartAddress p4, pmm_EndAddress p4])"

section \<open>Start-up\<close>

definition InitPhysicalMemoryManager_report :: "BootInfo \<Rightarrow> pmm \<Rightarrow> report" where
  "InitPhysicalMemoryManager_report bootInfo p0 =
     PMM_Init_report bootInfo p0 @
     (if \<not> fst (PMM_Init bootInfo p0) then message ''Failed to Initialize g_KernelPMM'' [] else [])"

definition InitVirtualMemoryManager_report :: "BootInfo \<Rightarrow> memory_util \<Rightarrow> vmm \<Rightarrow> report" where
  "InitVirtualMemoryManager_report bootInfo mu s0 =
     VMM_Init_report @
     (let (ok, s) = VMM_Init bootInfo s0
      in if \<not> ok then message ''Failed to Initialize g_KernelVMM'' []
         else let bootloaderPageCount = 0x400000 div PAGE_SIZE
              in VMM_MapRange_report mu 0x0 0x0 True bootloaderPageCount s @
                 (case VMM_MapRange mu 0x0 0x0 True bootloaderPageCount s of
                    None \<Rightarrow> []
                  | Some (ok1, s1) \<Rightarrow>
                      if \<not> ok1
                      then message ''InitVirtualMemoryManager->PageManager Failed to Identity Map first 4mb!'' []
                      else let kernelPageCount = KernelPhysicalEndAddress bootInfo div PAGE_SIZE -
                                 KernelPhysicalStartAddress bootInfo div PAGE_SIZE
                           in VMM_MapRange_report mu (KernelVirtualStartAddress bootInfo)
                                (KernelPhysicalStartAddress bootInfo) True kernelPageCount s1 @
                              (case VMM_MapRange mu (KernelVirtualStartAddress bootInfo)
                                  (KernelPhysicalStartAddress bootInfo) True kernelPageCount s1 of
                                 None \<Rightarrow> []
                               | Some (ok2, s2) \<Rightarrow>
                                   if \<not> ok2
                                   then message ''InitVirtualMemoryManager->PageManager Failed to Map Kernel to Higher Half!'' []
                                   else let pageTablePageCount = 0x400000 div PAGE_SIZE;
                                            va = KernelVirtualStartAddress bootInfo + kernelPageCount * PAGE_SIZE;
                                            pa = KernelPhysicalStartAddress bootInfo + kernelPageCount * PAGE_SIZE
                                        in if kernelPageCount < pageTablePageCount
                                           then VMM_MapRange_report mu va pa True (pageTablePageCount - kernelPageCount) s2 @
                                             (case VMM_MapRange mu va pa True (pageTablePageCount - kernelPageCount) s2 of
                                                Some (False, s3) \<Rightarrow>
                                                  message ''InitVirtualMemoryManager->PageManager Failed to Map Kernel to Rest of the Higher Half!'' []
                                              | _ \<Rightarrow> [])
                                           else [])))"

definition InitVirtualMemoryAllocator_report :: "BootInfo \<Rightarrow> vma \<Rightarrow> report" where
  "InitVirtualMemoryAllocator_report bootInfo v =
     (let kernelVMAStartAddress = KernelVirtualStartAddress bootInfo + 4096 * 1024 * 4;
          kernelVMASize = 0xFFFFFFFF - kernelVMAStartAddress
      in VMA_Init_report kernelVMAStartAddress kernelVMASize v @
         (if \<not> fst (VMA_Init kernelVMAStartAddress kernelVMASize v)
          then message ''Failed to Initialize g_KernelVMA'' [] else []))"

section \<open>Heap\<close>

text \<open>What \<^verbatim>\<open>Heap::Init\<close> prints before it clears the first header, and what it prints at its end.\<close>

definition Heap_Init_report :: "u32 \<Rightarrow> memory_state \<Rightarrow> report" where
  "Heap_Init_report sizeBytes mm =
     message ''Initializing Heap...'' [] @
     (if sizeBytes = 0 then message ''Heap->Failed to Initialize with Size: %d!'' [sizeBytes]
      else let pageSize = VMA_GetPageSize (g_KernelVMA mm); memorySize = AlignDown sizeBytes pageSize
           in VMA_AllocatePages_report (memorySize div pageSize) mm @
              (case VMA_AllocatePages (memorySize div pageSize) mm of
                 None \<Rightarrow> []
               | Some (startAddress, mm') \<Rightarrow>
                   if startAddress = 0 then message ''Heap->Failed to Allocate VMA for Size: %d'' [memorySize] else []))"

definition Heap_Init_end_report :: "heap \<Rightarrow> report" where
  "Heap_Init_end_report h =
     message ''Heap{Size = %dMB, StartAddress = 0x%x, EndAddress = 0x%x}''
       [m_MemorySizeBytes h div 1048576, m_StartAddress h, m_EndAddress h]"

section \<open>When something is printed\<close>

text \<open>A method that succeeds is silent, and every failure has a message.\<close>

lemma message_simps [simp]: "message f args \<noteq> []" "length (message f args) = 1"
  by (simp_all add: message_def)

lemma VMM_Map_silent:
  "VMM_Map mu v pa w s = Some (ok, s') \<Longrightarrow> VMM_Map_report mu v pa w s = [] \<longleftrightarrow> ok"
  by (auto simp: VMM_Map_def VMM_Map_report_def Let_def split: if_splits option.splits)

lemma MapRange_silent:
  "MapRange_loop mu n v pa w s = Some (ok, s') \<Longrightarrow> MapRange_report mu n v pa w s = [] \<longleftrightarrow> ok"
proof (induction n arbitrary: v pa s)
  case (Suc n)
  obtain ok1 s1 where m: "VMM_Map mu v pa w s = Some (ok1, s1)" using Suc.prems by (auto split: option.splits)
  show ?case using Suc m VMM_Map_silent [OF m] by (auto split: if_splits)
qed simp

lemma VMM_Unmap_silent:
  "VMM_Unmap mu v s = Some (ok, s') \<Longrightarrow> VMM_Unmap_report mu v s = [] \<longleftrightarrow> ok"
  by (auto simp: VMM_Unmap_def VMM_Unmap_report_def Let_def split: if_splits option.splits)

lemma UnmapRange_silent:
  "UnmapRange_loop mu n v s = Some (ok, s') \<Longrightarrow> UnmapRange_report mu n v s = [] \<longleftrightarrow> ok"
proof (induction n arbitrary: v s)
  case (Suc n)
  obtain ok1 s1 where m: "VMM_Unmap mu v s = Some (ok1, s1)" using Suc.prems by (auto split: option.splits)
  show ?case using Suc m VMM_Unmap_silent [OF m] by (auto split: if_splits)
qed simp

text \<open>The messages of a range that could not be mapped: that of \<^verbatim>\<open>Map\<close> and one more, for the same page.\<close>

lemma MapRange_failure_report:
  assumes "MapRange_loop mu n v pa w s = Some (False, s')"
  shows "\<exists>i<n. \<exists>r s1. MapRange_report mu n v pa w s =
      r @ message ''VirtualMemoryManager->Map(0x%x -> 0x%x) Failed to MemoryMap!''
        [v + of_nat i * PAGE_SIZE, pa + of_nat i * PAGE_SIZE] \<and>
    MapRange_loop mu i v pa w s = Some (True, s1) \<and>
    r = VMM_Map_report mu (v + of_nat i * PAGE_SIZE) (pa + of_nat i * PAGE_SIZE) w s1 \<and> r \<noteq> []"
  using assms
proof (induction n arbitrary: v pa s)
  case (Suc n)
  obtain ok1 s1 where m: "VMM_Map mu v pa w s = Some (ok1, s1)" using Suc.prems by (auto split: option.splits)
  show ?case
  proof (cases ok1)
    case False
    then show ?thesis using m VMM_Map_silent [OF m] by (intro exI [of _ 0]) auto
  next
    case True
    with Suc.prems m have "MapRange_loop mu n (v + PAGE_SIZE) (pa + PAGE_SIZE) w s1 = Some (False, s')" by simp
    from Suc.IH [OF this] obtain i r s2 where i: "i < n"
      "MapRange_report mu n (v + PAGE_SIZE) (pa + PAGE_SIZE) w s1 =
        r @ message ''VirtualMemoryManager->Map(0x%x -> 0x%x) Failed to MemoryMap!''
          [v + PAGE_SIZE + of_nat i * PAGE_SIZE, pa + PAGE_SIZE + of_nat i * PAGE_SIZE]"
      "MapRange_loop mu i (v + PAGE_SIZE) (pa + PAGE_SIZE) w s1 = Some (True, s2)"
      "r = VMM_Map_report mu (v + PAGE_SIZE + of_nat i * PAGE_SIZE) (pa + PAGE_SIZE + of_nat i * PAGE_SIZE) w s2" "r \<noteq> []"
      by blast
    have e: "x + of_nat (Suc i) * PAGE_SIZE = x + PAGE_SIZE + of_nat i * PAGE_SIZE" for x
      by (simp add: algebra_simps)
    have "VMM_Map_report mu v pa w s = []" using VMM_Map_silent [OF m] True by simp
    then have "MapRange_report mu (Suc n) v pa w s = r @ message ''VirtualMemoryManager->Map(0x%x -> 0x%x) Failed to MemoryMap!''
          [v + of_nat (Suc i) * PAGE_SIZE, pa + of_nat (Suc i) * PAGE_SIZE]"
      unfolding e using m True i(2) by simp
    moreover have "MapRange_loop mu (Suc i) v pa w s = Some (True, s2)" using m True i(3) by simp
    moreover have "r = VMM_Map_report mu (v + of_nat (Suc i) * PAGE_SIZE) (pa + of_nat (Suc i) * PAGE_SIZE) w s2"
      unfolding e by (rule i(4))
    ultimately show ?thesis using i(1,5) by blast
  qed
qed simp

text \<open>The reports of the successful start-up.\<close>

lemma VMA_AllocatePages_said:
  assumes "VMA_AllocatePages n k = Some (a, k')" and "a \<noteq> 0"
  shows "VMA_AllocatePages_report n k =
    message ''VirtualMemoryAllocator->Allocated(Virt(0x%x) -> Phys(0x%x))!'' [a, fst (PMM_AllocatePages n (g_KernelPMM k))]"
  using assms MapRange_silent
  by (fastforce simp: VMA_AllocatePages_def VMA_AllocatePages_report_def VMM_MapRange_def VMM_MapRange_report_def Let_def
      split: if_splits option.splits prod.splits)

definition PMM_line :: "pmm \<Rightarrow> report" where
  "PMM_line p =
     message ''PhysicalMemoryManager{PageSize = %d, PageCount = %d, MemorySize = %dMB, StartAddress = 0x%x, EndAddress = 0x%x}''
       [pmm_PageSize p, pmm_PageCount p, pmm_MemorySizeBytes p div 1048576, pmm_StartAddress p, pmm_EndAddress p]"

lemma InitPhysicalMemoryManager_said:
  "InitPhysicalMemoryManager_report bi p =
    message ''Initializing PhysicalMemoryManager...'' [] @ PMM_line (snd (PMM_Init bi p))"
  by (simp add: InitPhysicalMemoryManager_report_def PMM_Init_report_def PMM_line_def PMM_Init_def PMM_InitMemory_def
      PMM_InitBitmap_def PMM_InitFreeMemory_def Let_def split_beta)

lemma InitVirtualMemoryManager_said:
  assumes "InitVirtualMemoryManager bi mu s0 = Some (True, s)"
  shows "InitVirtualMemoryManager_report bi mu s0 = message ''Initializing VirtualMemoryManager...'' []"
  using assms MapRange_silent
  by (auto simp: InitVirtualMemoryManager_def InitVirtualMemoryManager_report_def VMM_Init_report_def VMM_MapRange_def
      VMM_MapRange_report_def Let_def split: if_splits option.splits prod.splits)

lemma Heap_Init_said:
  assumes "Heap_Init n k = Some (True, k')"
  shows "Heap_Init_report n (k_managers k) = message ''Initializing Heap...'' [] @
    message ''VirtualMemoryAllocator->Allocated(Virt(0x%x) -> Phys(0x%x))!'' [m_StartAddress (g_KernelHeap k'),
      fst (PMM_AllocatePages (AlignDown n (VMA_GetPageSize (g_KernelVMA (k_managers k))) div
        VMA_GetPageSize (g_KernelVMA (k_managers k))) (g_KernelPMM (k_managers k)))]"
  using assms VMA_AllocatePages_said
  by (auto simp: Heap_Init_def Heap_Init_report_def Let_def split: if_splits option.splits prod.splits)

section \<open>Properties\<close>

text \<open>
  C22: \<^verbatim>\<open>MapRange\<close> prints nothing exactly when it succeeds. When it fails, the pages before the failing one are
  mapped, and it prints the reason \<^verbatim>\<open>Map\<close> gives for the failing page and then one more line with the two
  addresses of that page.
\<close>

theorem map_range_failure_is_reported:
  assumes "VMM_MapRange mu virtualAddress physicalAddress writable count s = Some (ok, s')"
  shows "(VMM_MapRange_report mu virtualAddress physicalAddress writable count s = [] \<longleftrightarrow> ok) \<and>
    (\<not> ok \<longrightarrow> (\<exists>i<unat count. \<exists>r s1.
       VMM_MapRange mu virtualAddress physicalAddress writable (of_nat i) s = Some (True, s1) \<and>
       r = VMM_Map_report mu (virtualAddress + of_nat i * PAGE_SIZE) (physicalAddress + of_nat i * PAGE_SIZE) writable s1 \<and>
       r \<noteq> [] \<and>
       VMM_MapRange_report mu virtualAddress physicalAddress writable count s =
         r @ message ''VirtualMemoryManager->Map(0x%x -> 0x%x) Failed to MemoryMap!''
           [virtualAddress + of_nat i * PAGE_SIZE, physicalAddress + of_nat i * PAGE_SIZE]))"
proof (intro conjI impI)
  have run: "MapRange_loop mu (unat count) virtualAddress physicalAddress writable s = Some (ok, s')"
    using assms by (simp add: VMM_MapRange_def)
  then show "VMM_MapRange_report mu virtualAddress physicalAddress writable count s = [] \<longleftrightarrow> ok"
    unfolding VMM_MapRange_report_def by (rule MapRange_silent)
  assume "\<not> ok"
  with run have "MapRange_loop mu (unat count) virtualAddress physicalAddress writable s = Some (False, s')" by simp
  from MapRange_failure_report [OF this] obtain i r s1 where i: "i < unat count"
    "MapRange_report mu (unat count) virtualAddress physicalAddress writable s =
      r @ message ''VirtualMemoryManager->Map(0x%x -> 0x%x) Failed to MemoryMap!''
        [virtualAddress + of_nat i * PAGE_SIZE, physicalAddress + of_nat i * PAGE_SIZE]"
    "MapRange_loop mu i virtualAddress physicalAddress writable s = Some (True, s1)"
    "r = VMM_Map_report mu (virtualAddress + of_nat i * PAGE_SIZE) (physicalAddress + of_nat i * PAGE_SIZE) writable s1"
    "r \<noteq> []" by blast
  have "unat (of_nat i :: u32) = i" using i(1) unat_lt_2p32 [of count] by (intro unat_of_nat32) linarith
  then have "VMM_MapRange mu virtualAddress physicalAddress writable (of_nat i) s = Some (True, s1)"
    using i(3) by (simp add: VMM_MapRange_def)
  then show "\<exists>i<unat count. \<exists>r s1.
       VMM_MapRange mu virtualAddress physicalAddress writable (of_nat i) s = Some (True, s1) \<and>
       r = VMM_Map_report mu (virtualAddress + of_nat i * PAGE_SIZE) (physicalAddress + of_nat i * PAGE_SIZE) writable s1 \<and>
       r \<noteq> [] \<and>
       VMM_MapRange_report mu virtualAddress physicalAddress writable count s =
         r @ message ''VirtualMemoryManager->Map(0x%x -> 0x%x) Failed to MemoryMap!''
           [virtualAddress + of_nat i * PAGE_SIZE, physicalAddress + of_nat i * PAGE_SIZE]"
    using i(1,2,4,5) by (auto simp: VMM_MapRange_report_def)
qed

theorem map_range_failure_is_reported_witness:
  "VMM_MapRange_report mu_0 0x1001 0x2000 True 3 vmm_0 \<noteq> []"
proof -
  have "\<not> IsAligned (0x1001 :: u32) PAGE_SIZE" by (simp add: IsAligned_def PAGE_SIZE_def)
  then have page: "VMM_Map mu_0 0x1001 0x2000 True vmm_0 = Some (False, vmm_0)"
    by (simp add: VMM_Map_def)
  have three: "unat (3 :: u32) = Suc 2" by simp
  have "VMM_MapRange mu_0 0x1001 0x2000 True 3 vmm_0 = Some (False, vmm_0)"
    unfolding VMM_MapRange_def three MapRange_loop.simps page by simp
  from map_range_failure_is_reported [OF this] show ?thesis by simp
qed

end
