(* ===== verification/Startup.thy ===== *)
theory Startup
  imports Machine Messages
begin

text \<open>
  The initialisations on the whole machine, with the messages they print: \<^verbatim>\<open>Processor::Init\<close>, the chain of
  \<^verbatim>\<open>InitMemoryManager\<close> down to \<^verbatim>\<open>Heap::Init\<close> and \<^verbatim>\<open>KMallocInit\<close>, \<^verbatim>\<open>ATA::Init\<close> and \<^verbatim>\<open>ATA::Read28\<close>. The managers
  keep no bytes of memory, so that their messages and their changes commute; \<^verbatim>\<open>Heap::Init\<close> writes the first header,
  and its messages are printed where the code prints them.
\<close>

section \<open>The processor\<close>

text \<open>\<open>Inl\<close> is a machine that has stopped in \<^verbatim>\<open>KPanic\<close>.\<close>

definition Processor_start ::
  "device \<Rightarrow> table_symbols \<Rightarrow> (string \<Rightarrow> u32) \<Rightarrow> u32 \<Rightarrow> machine \<Rightarrow> (machine + int \<times> machine) option" where
  "Processor_start d sy lit tmp M0 = do {
     M1 \<leftarrow> say d lit tmp (message ''Initializing x86 Processor...'' [] @ message ''Initializing GDT...'' []) M0;
     (r1, p1) \<leftarrow> GDT_Init sy (mach_cpu M1);
     (let M2 = M1\<lparr>mach_cpu := p1\<rparr>
      in if r1 \<noteq> 0 then map_option Inl (stop d lit tmp ''Failed To Initialize GDT'' M2)
         else do {
           M3 \<leftarrow> say d lit tmp (message ''Initializing IDT...'' []) M2;
           (r2, p2) \<leftarrow> IDT_Init sy (mach_cpu M3);
           (let M4 = M3\<lparr>mach_cpu := p2\<rparr>
            in if r2 \<noteq> 0 then map_option Inl (stop d lit tmp ''Failed to Initialize IDT'' M4)
               else do {
                 M5 \<leftarrow> say d lit tmp (message ''Initializing PIC8259...'' [] @ message ''Remapping PIC8259...'' []) M4;
                 (let (r3, t) = PIC8259_Init d (mach_ports M5); M6 = M5\<lparr>mach_ports := t\<rparr>
                  in if r3 \<noteq> 0 then map_option Inl (stop d lit tmp ''Failed to Initialize PIC'' M6)
                     else Some (Inr (0, M6)))
               })
         })
   }"

section \<open>The memory managers\<close>

definition set_managers :: "memory_state \<Rightarrow> machine \<Rightarrow> machine" where
  "set_managers mm M = M\<lparr>mach_kernel := (mach_kernel M)\<lparr>k_managers := mm\<rparr>\<rparr>"

abbreviation managers :: "machine \<Rightarrow> memory_state" where
  "managers M \<equiv> k_managers (mach_kernel M)"

definition give_up :: "device \<Rightarrow> (string \<Rightarrow> u32) \<Rightarrow> u32 \<Rightarrow> string \<Rightarrow> machine \<Rightarrow> (bool \<times> machine) option" where
  "give_up d lit tmp msg M = map_option (Pair False) (say d lit tmp (message msg []) M)"

definition Heap_start :: "device \<Rightarrow> (string \<Rightarrow> u32) \<Rightarrow> u32 \<Rightarrow> u32 \<Rightarrow> machine \<Rightarrow> (bool \<times> machine) option" where
  "Heap_start d lit tmp sizeBytes M = do {
     M1 \<leftarrow> say d lit tmp (Heap_Init_report sizeBytes (managers M)) M;
     (ok, k) \<leftarrow> Heap_Init sizeBytes (mach_kernel M1);
     (let M2 = M1\<lparr>mach_kernel := k\<rparr>
      in if \<not> ok then Some (False, M2)
         else map_option (Pair True) (say d lit tmp (Heap_Init_end_report (g_KernelHeap k)) M2))
   }"

definition InitKernelHeap_start ::
  "device \<Rightarrow> (string \<Rightarrow> u32) \<Rightarrow> u32 \<Rightarrow> BootInfo \<Rightarrow> machine \<Rightarrow> (bool \<times> machine) option" where
  "InitKernelHeap_start d lit tmp bootInfo M = do {
     (ok, M1) \<leftarrow> Heap_start d lit tmp (100 * 1048576) M;
     (if \<not> ok then give_up d lit tmp ''Failed to Initialize g_KernelHeap'' M1 else Some (True, M1))
   }"

definition InitKMalloc_start ::
  "device \<Rightarrow> (string \<Rightarrow> u32) \<Rightarrow> u32 \<Rightarrow> BootInfo \<Rightarrow> machine \<Rightarrow> (bool \<times> machine) option" where
  "InitKMalloc_start d lit tmp bootInfo M = do {
     M1 \<leftarrow> say d lit tmp (message ''Initializing KMalloc...'' []) M;
     (let (ok, k) = InitKMalloc bootInfo (mach_kernel M1); M2 = M1\<lparr>mach_kernel := k\<rparr>
      in if \<not> ok then give_up d lit tmp ''Failed to Initialize KMallocInit'' M2 else Some (True, M2))
   }"

definition InitMemoryManager_start ::
  "device \<Rightarrow> (string \<Rightarrow> u32) \<Rightarrow> u32 \<Rightarrow> BootInfo \<Rightarrow> machine \<Rightarrow> (bool \<times> machine) option" where
  "InitMemoryManager_start d lit tmp bootInfo M0 =
     (let (ok0, mu) = MemoryUtil_Init bootInfo (k_MemoryUtil (managers M0));
          M1 = set_managers ((managers M0)\<lparr>k_MemoryUtil := mu\<rparr>) M0
      in if \<not> ok0 then give_up d lit tmp ''Failed to Initialize MemoryUtil'' M1
         else do {
           M2 \<leftarrow> say d lit tmp (InitPhysicalMemoryManager_report bootInfo (g_KernelPMM (managers M1))) M1;
           (let (ok1, p) = InitPhysicalMemoryManager bootInfo (g_KernelPMM (managers M2));
                M3 = set_managers ((managers M2)\<lparr>g_KernelPMM := p\<rparr>) M2
            in if \<not> ok1 then give_up d lit tmp ''Failed to Initialize PhysicalMemoryManager'' M3
               else do {
                 M4 \<leftarrow> say d lit tmp (InitVirtualMemoryManager_report bootInfo mu (g_KernelVMM (managers M3))) M3;
                 (ok2, s) \<leftarrow> InitVirtualMemoryManager bootInfo mu (g_KernelVMM (managers M4));
                 (let M5 = set_managers ((managers M4)\<lparr>g_KernelVMM := s\<rparr>) M4
                  in if \<not> ok2 then give_up d lit tmp ''Failed to Initialize VirtualMemoryManager'' M5
                     else do {
                       M6 \<leftarrow> say d lit tmp (InitVirtualMemoryAllocator_report bootInfo (g_KernelVMA (managers M5))) M5;
                       (let (ok3, v) = InitVirtualMemoryAllocator bootInfo (g_KernelVMA (managers M6));
                            M7 = set_managers ((managers M6)\<lparr>g_KernelVMA := v\<rparr>) M6
                        in if \<not> ok3 then give_up d lit tmp ''Failed to Initialize VirtualMemoryAllocator'' M7
                           else do {
                             (ok4, M8) \<leftarrow> InitKernelHeap_start d lit tmp bootInfo M7;
                             (if \<not> ok4 then give_up d lit tmp ''Failed to Initialize KernelHeap'' M8
                              else do {
                                (ok5, M9) \<leftarrow> InitKMalloc_start d lit tmp bootInfo M8;
                                (if \<not> ok5 then give_up d lit tmp ''Failed to Initialize KMalloc'' M9
                                 else Some (True, M9))
                              })
                           })
                     })
               })
         })"

section \<open>The disk\<close>

text \<open>The names of bus and drive are literals too; the driver's two arrays hold the same ones.\<close>

definition ATABusStr :: "ATABus \<Rightarrow> string" where
  "ATABusStr bus = (if bus = BusPrimary then ''Primary'' else ''Secondary'')"

definition ATADriveStr :: "ATADrive \<Rightarrow> string" where
  "ATADriveStr drive = (if drive = DriveMaster then ''Master'' else ''Slave'')"

definition ATA_message :: "(string \<Rightarrow> u32) \<Rightarrow> string \<Rightarrow> ata \<Rightarrow> report" where
  "ATA_message lit f a = message f [lit (ATABusStr (m_Bus a)), lit (ATADriveStr (m_Drive a))]"

text \<open>What \<^verbatim>\<open>InitBusDrive\<close> prints when it fails: the tests in the order in which it makes them.\<close>

definition ATA_InitBusDrive_report :: "device \<Rightarrow> (string \<Rightarrow> u32) \<Rightarrow> ata \<Rightarrow> port_trace \<Rightarrow> report" where
  "ATA_InitBusDrive_report d lit a t =
     (let t1 = OUTB (m_BusPort a + ATA_DRIVEHEAD_SELECT_REG) (m_DriveCode a) t;
          t2 = OUTB (m_BusPort a + ATA_SECTOR_COUNT_REG) 0 t1;
          t3 = OUTB (m_BusPort a + ATA_LBA_LOW_REG) 0 t2;
          t4 = OUTB (m_BusPort a + ATA_LBA_MID_REG) 0 t3;
          t5 = OUTB (m_BusPort a + ATA_LBA_HIGH_REG) 0 t4;
          t6 = ATA_Delay400NS d a (OUTB (m_BusPort a + ATA_COMMAND_REG) ATA_COMMAND_IDENTIFY t5);
          (status, t7) = INSB d (m_BusPort a + ATA_STATUS_REG) t6
      in if status = 0
         then ATA_message lit ''ATA->InitBusDrive Failed, Bus: %s, Drive: %s Doesn't Exist!'' a
         else case Init_wait d (m_BusPort a) t7 of
           None \<Rightarrow> []
         | Some (isATA, t8) \<Rightarrow>
             if \<not> isATA
             then ATA_message lit ''ATA->InitBusDrive Failed, Bus: %s, Drive: %s is not ATA!'' a
             else case Poll_retry d (m_BusPort a + ATA_STATUS_REG) t8 of
               None \<Rightarrow> []
             | Some (ok, t9) \<Rightarrow>
                 if \<not> ok
                 then ATA_message lit ''ATA->InitBusDrive Failed, Bus: %s, Drive: %s Has Error!'' a
                 else [])"

definition ATA_set_drive :: "ATABus \<Rightarrow> ATADrive \<Rightarrow> ata \<Rightarrow> ata" where
  "ATA_set_drive bus drive a = a\<lparr>m_SectorSize := ATA_SECTOR_SIZE, m_Bus := bus, m_Drive := drive,
     m_BusPort := (if bus = BusPrimary then 0x1F0 else 0x170),
     m_DriveCode := (if drive = DriveMaster then 0xA0 else 0xB0)\<rparr>"

definition ATA_start ::
  "device \<Rightarrow> (string \<Rightarrow> u32) \<Rightarrow> u32 \<Rightarrow> ATABus \<Rightarrow> ATADrive \<Rightarrow> ata \<Rightarrow> machine \<Rightarrow> (bool \<times> ata \<times> machine) option" where
  "ATA_start d lit tmp bus drive a M = do {
     M1 \<leftarrow> say d lit tmp (message ''Initializing ATA Interface for Bus: %s, Drive: %s''
       [lit (ATABusStr bus), lit (ATADriveStr drive)]) M;
     (ok, a2, k, t) \<leftarrow> ATA_Init d bus drive a (mach_kernel M1, mach_ports M1);
     (let M2 = M1\<lparr>mach_kernel := k, mach_ports := t\<rparr>
      in if ok then Some (True, a2, M2)
         else map_option (\<lambda>M3. (False, a2, M3))
           (say d lit tmp (ATA_InitBusDrive_report d lit (ATA_set_drive bus drive a) (mach_ports M1) @
              ATA_message lit ''ATA->Failed to Initialize Bus: %s, Drive: %s!'' a2) M2))
   }"

text \<open>\<^verbatim>\<open>Read28\<close> fails in \<^verbatim>\<open>Poll\<close> only, which says so.\<close>

definition ATA_Read28_said ::
  "device \<Rightarrow> (string \<Rightarrow> u32) \<Rightarrow> u32 \<Rightarrow> ata \<Rightarrow> u32 \<Rightarrow> u32 \<Rightarrow> u32 \<Rightarrow> machine \<Rightarrow> (int \<times> machine) option" where
  "ATA_Read28_said d lit tmp a buf sectorCount lba M = do {
     (r, m, t) \<leftarrow> ATA_Read28 d a buf sectorCount lba (k_bytes (mach_kernel M), mach_ports M);
     (let M1 = M\<lparr>mach_kernel := (mach_kernel M)\<lparr>k_bytes := m\<rparr>, mach_ports := t\<rparr>
      in if r \<noteq> - 1 then Some (r, M1)
         else map_option (Pair r) (say d lit tmp (ATA_message lit ''ATA->Poll Failed, Bus: %s, Drive: %s Has Error!'' a) M1))
   }"

section \<open>A machine that goes on\<close>

text \<open>
  From \<open>M\<close> to \<open>M'\<close> the terminal has shown \<open>out\<close>; the memory below the heap that is not the screen or the buffer
  is as it was, and so are the disk and the color.
\<close>

definition low_bytes :: "u32 \<Rightarrow> nat set" where
  "low_bytes tmp = {..<0xC1000000} \<inter> quiet_bytes tmp"

definition said :: "u32 \<Rightarrow> machine \<Rightarrow> u8 list \<Rightarrow> machine \<Rightarrow> bool" where
  "said tmp M out M' \<longleftrightarrow> console_wf (console_view M') \<and> s_Color (console_view M') = s_Color (console_view M) \<and>
     terminal_of (console_view M') = terminal_string (s_Color (console_view M)) out (terminal_of (console_view M)) \<and>
     same_bytes (low_bytes tmp) (k_bytes (mach_kernel M)) (k_bytes (mach_kernel M')) \<and>
     (\<forall>p ini. disk_after p ini (mach_ports M') = disk_after p ini (mach_ports M))"

lemma said_trans: "said tmp M out M1 \<Longrightarrow> said tmp M1 out' M2 \<Longrightarrow> said tmp M (out @ out') M2"
  unfolding said_def terminal_string_append using same_bytes_trans by metis

text \<open>A step that prints nothing leaves the screen alone.\<close>

lemma said_nothing:
  assumes "console_wf (console_view M)" and "mach_console M' = mach_console M"
    and "same_bytes (video_bytes \<union> low_bytes tmp) (k_bytes (mach_kernel M)) (k_bytes (mach_kernel M'))"
    and "\<And>p ini. disk_after p ini (mach_ports M') = disk_after p ini (mach_ports M)"
  shows "said tmp M [] M'"
proof -
  have "grid_of (k_bytes (mach_kernel M')) = grid_of (k_bytes (mach_kernel M))"
    by (rule grid_same [OF same_bytes_mono [OF assms(3)]]) blast
  moreover have "same_bytes (low_bytes tmp) (k_bytes (mach_kernel M)) (k_bytes (mach_kernel M'))"
    by (rule same_bytes_mono [OF assms(3)]) blast
  ultimately show ?thesis
    using assms(1,2,4) by (simp add: said_def terminal_of_def console_view_def console_wf_def terminal_string_def)
qed

text \<open>The literals of a set, in memory below the heap.\<close>

definition literals_in :: "(string \<Rightarrow> u32) \<Rightarrow> u32 \<Rightarrow> mem \<Rightarrow> string set \<Rightarrow> bool" where
  "literals_in lit tmp m S \<longleftrightarrow> literals_ready lit tmp m S \<and> tmp_bytes tmp \<subseteq> {..<0xC1000000} \<and>
     (\<forall>s\<in>S. string_bytes (lit s) (bytes_of s) \<subseteq> {..<0xC1000000})"

lemma literals_in_same:
  assumes "literals_in lit tmp m S" and "same_bytes (low_bytes tmp) m m'"
  shows "literals_in lit tmp m' S"
  unfolding literals_in_def literals_ready_def
proof (intro conjI ballI)
  fix s assume "s \<in> S"
  then have l: "c_string m (lit s) (bytes_of s)" "string_bytes (lit s) (bytes_of s) \<subseteq> quiet_bytes tmp"
    "string_bytes (lit s) (bytes_of s) \<subseteq> {..<0xC1000000}"
    using assms(1) by (auto simp: literals_in_def literals_ready_def literal_at_def)
  then have "same_bytes (string_bytes (lit s) (bytes_of s)) m m'"
    by (intro same_bytes_mono [OF assms(2)]) (auto simp: low_bytes_def)
  then show "literal_at tmp m' (lit s) (bytes_of s)" using l by (simp add: literal_at_def c_string_same)
  show "string_bytes (lit s) (bytes_of s) \<subseteq> {..<0xC1000000}" by (rule l(3))
qed (use assms(1) in \<open>simp_all add: literals_in_def literals_ready_def\<close>)

text \<open>What every step of the start-up needs of its machine.\<close>

definition ready :: "(string \<Rightarrow> u32) \<Rightarrow> u32 \<Rightarrow> string set \<Rightarrow> machine \<Rightarrow> bool" where
  "ready lit tmp S M \<longleftrightarrow> console_wf (console_view M) \<and> literals_in lit tmp (k_bytes (mach_kernel M)) S"

lemma said_ready: "said tmp M out M' \<Longrightarrow> ready lit tmp S M \<Longrightarrow> ready lit tmp S M'"
  using literals_in_same by (auto simp: said_def ready_def)

lemma say_strings:
  assumes r: "ready lit tmp S M" and out: "report_text strs r = Some out" and S: "fst ` set r \<subseteq> S"
    and strings: "strings_ready tmp strs (k_bytes (mach_kernel M)) r"
  obtains c where "say d lit tmp r M = Some (console_back M c)" and "prints (console_view M) out tmp c"
    and "said tmp M out (console_back M c)"
proof -
  have a: "strings_ready tmp strs (con_bytes (console_view M)) r" "console_wf (console_view M)"
    "literals_ready lit tmp (con_bytes (console_view M)) S"
    using r strings by (simp_all add: ready_def literals_in_def console_view_def)
  obtain c where c: "print_report d lit tmp r (console_view M) = Some c" "prints (console_view M) out tmp c"
    using print_report_prints [OF out a S, of d] by blast
  have "same_bytes (low_bytes tmp) (k_bytes (mach_kernel M)) (con_bytes c)"
    using c(2) same_bytes_mono [of "quiet_bytes tmp" _ _ "low_bytes tmp"]
    by (auto simp: prints_def low_bytes_def console_view_def)
  moreover have "console_disk p ini c = disk_after p ini (mach_ports M)" for p ini
    using print_report_disk [OF c(1), of p ini] by (simp add: console_view_def)
  ultimately have "said tmp M out (console_back M c)" using c(2) by (simp add: said_def prints_def)
  then show ?thesis using c by (intro that [of c]) (simp_all add: say_def)
qed

lemma say_ok:
  assumes "ready lit tmp S M" and "complete_report r" and "fst ` set r \<subseteq> S"
  obtains out M' where "report_text (\<lambda>_. []) r = Some out" and "say d lit tmp r M = Some M'" and "said tmp M out M'"
    and "mach_cpu M' = mach_cpu M" and "managers M' = managers M"
    and "g_KernelHeap (mach_kernel M') = g_KernelHeap (mach_kernel M)" and "ready lit tmp S M'"
    and "same_bytes (quiet_bytes tmp) (k_bytes (mach_kernel M)) (k_bytes (mach_kernel M'))"
proof -
  obtain out where out: "report_text (\<lambda>_. []) r = Some out" using complete_report_text [OF assms(2)] by blast
  obtain c where c: "say d lit tmp r M = Some (console_back M c)" "prints (console_view M) out tmp c"
    "said tmp M out (console_back M c)"
    by (rule say_strings [OF assms(1) out assms(3) complete_report_ready [OF assms(2)]])
  have "same_bytes (quiet_bytes tmp) (k_bytes (mach_kernel M)) (con_bytes c)"
    using c(2) by (simp add: prints_def console_view_def)
  then show ?thesis
    using c(1,3) out said_ready [OF _ assms(1)] by (intro that [of out "console_back M c"]) simp_all
qed

text \<open>A report that has been said, and reports said one after the other.\<close>

definition reported :: "u32 \<Rightarrow> machine \<Rightarrow> report \<Rightarrow> machine \<Rightarrow> bool" where
  "reported tmp M r M' \<longleftrightarrow> (\<exists>out. report_text (\<lambda>_. []) r = Some out \<and> said tmp M out M')"

lemma reported_trans: "reported tmp M r M1 \<Longrightarrow> reported tmp M1 r' M2 \<Longrightarrow> reported tmp M (r @ r') M2"
  unfolding reported_def using report_text_append said_trans by blast

lemma reported_nothing: "said tmp M [] M' \<Longrightarrow> reported tmp M [] M'"
  by (simp add: reported_def)

lemma reported_then: "reported tmp M r M1 \<Longrightarrow> said tmp M1 [] M2 \<Longrightarrow> reported tmp M r M2"
  using reported_trans [OF _ reported_nothing, of tmp M r M1 M2] by simp

lemma reported_ready: "reported tmp M r M' \<Longrightarrow> ready lit tmp S M \<Longrightarrow> ready lit tmp S M'"
  unfolding reported_def using said_ready by blast

lemma say_reported:
  assumes "ready lit tmp S M" and "complete_report r" and "fst ` set r \<subseteq> S"
  obtains M' where "say d lit tmp r M = Some M'" and "reported tmp M r M'" and "ready lit tmp S M'"
    and "mach_cpu M' = mach_cpu M" and "managers M' = managers M"
    and "g_KernelHeap (mach_kernel M') = g_KernelHeap (mach_kernel M)"
    and "same_bytes (quiet_bytes tmp) (k_bytes (mach_kernel M)) (k_bytes (mach_kernel M'))"
  using say_ok [OF assms, of d] unfolding reported_def by metis

section \<open>The messages of a start-up that succeeds\<close>

definition processor_report :: report where
  "processor_report =
     (message ''Initializing x86 Processor...'' [] @ message ''Initializing GDT...'' []) @
     message ''Initializing IDT...'' [] @
     (message ''Initializing PIC8259...'' [] @ message ''Remapping PIC8259...'' [])"

definition VMA_line :: "u32 \<Rightarrow> u32 \<Rightarrow> report" where
  "VMA_line startAddress sizeBytes =
     message ''VirtualMemoryAllocator{AddressSpacePageSize = %d, AddressSpacePageCount = %d, AddressSpaceSize = %dMB, StartAddress = 0x%x, EndAddress = 0x%x}''
       [4096, sizeBytes div 4096, sizeBytes div 1048576, startAddress, startAddress + sizeBytes]"

definition heap_start_report :: "u32 \<Rightarrow> u32 \<Rightarrow> u32 \<Rightarrow> report" where
  "heap_start_report startAddress endAddress frames =
     message ''Initializing Heap...'' [] @
     message ''VirtualMemoryAllocator->Allocated(Virt(0x%x) -> Phys(0x%x))!'' [startAddress, frames] @
     message ''Heap{Size = %dMB, StartAddress = 0x%x, EndAddress = 0x%x}''
       [(endAddress - startAddress) div 1048576, startAddress, endAddress]"

definition memory_report :: "pmm \<Rightarrow> u32 \<Rightarrow> report" where
  "memory_report p frames =
     (message ''Initializing PhysicalMemoryManager...'' [] @ PMM_line p) @
     message ''Initializing VirtualMemoryManager...'' [] @
     (message ''Initializing VirtualMemoryAllocator...'' [] @ VMA_line 0xC1000000 0x3EFFFFFF) @
     heap_start_report 0xC1000000 0xC7400000 frames @
     message ''Initializing KMalloc...'' []"

definition ATA_init_text :: string where
  "ATA_init_text = text_line ''Initializing ATA Interface for Bus: %s, Drive: %s''"

definition start_literals :: "string list" where
  "start_literals =
     [text_line ''Initialized VGA...'', text_line ''Initializing x86 Processor...'', text_line ''Initializing GDT...'',
      text_line ''Initializing IDT...'', text_line ''Initializing PIC8259...'', text_line ''Remapping PIC8259...'',
      text_line ''Initializing PhysicalMemoryManager...'',
      text_line ''PhysicalMemoryManager{PageSize = %d, PageCount = %d, MemorySize = %dMB, StartAddress = 0x%x, EndAddress = 0x%x}'',
      text_line ''Initializing VirtualMemoryManager...'', text_line ''Initializing VirtualMemoryAllocator...'',
      text_line ''VirtualMemoryAllocator{AddressSpacePageSize = %d, AddressSpacePageCount = %d, AddressSpaceSize = %dMB, StartAddress = 0x%x, EndAddress = 0x%x}'',
      text_line ''Initializing Heap...'', text_line ''VirtualMemoryAllocator->Allocated(Virt(0x%x) -> Phys(0x%x))!'',
      text_line ''Heap{Size = %dMB, StartAddress = 0x%x, EndAddress = 0x%x}'', text_line ''Initializing KMalloc...'',
      ATA_init_text, ''Primary'', ''Master'', text_line ''ATA-Read28: %s'', opening_line ''Eagle Operating System'']"

lemmas start_report_defs = processor_report_def memory_report_def VMA_line_def heap_start_report_def PMM_line_def
  start_literals_def

lemma processor_report_ok:
  "complete_report (message ''Initializing x86 Processor...'' [] @ message ''Initializing GDT...'' [])"
  "complete_report (message ''Initializing IDT...'' [])"
  "complete_report (message ''Initializing PIC8259...'' [] @ message ''Remapping PIC8259...'' [])"
  "fst ` set processor_report \<subseteq> set start_literals"
  by (simp_all add: complete_defs) (simp add: start_report_defs message_def)

lemma memory_report_ok:
  "complete_report (message ''Initializing PhysicalMemoryManager...'' [] @ PMM_line p)"
  "complete_report (message ''Initializing VirtualMemoryManager...'' [])"
  "complete_report (message ''Initializing VirtualMemoryAllocator...'' [] @ VMA_line a n)"
  "complete_report (heap_start_report b e frames)" "complete_report (message ''Initializing KMalloc...'' [])"
  "fst ` set (memory_report p frames) \<subseteq> set start_literals"
       apply (simp add: PMM_line_def complete_defs)
      apply (simp add: complete_defs)
     apply (simp add: VMA_line_def complete_defs)
    apply (simp add: heap_start_report_def complete_defs)
   apply (simp add: complete_defs)
  apply (simp add: start_report_defs message_def)
  done

section \<open>The processor starts\<close>

lemma reported_cpu:
  assumes "reported tmp M r M1" and "console_wf (console_view M1)"
    and "\<And>p ini. disk_after p ini t = disk_after p ini (mach_ports M1)"
  shows "reported tmp M r (M1\<lparr>mach_cpu := p, mach_ports := t\<rparr>)"
  by (rule reported_then [OF assms(1) said_nothing]) (use assms in simp_all)

lemma GDT_Init_keeps_IDT:
  assumes "length (s_GDT p) = 5"
  obtains p1 where "GDT_Init sy p = Some (0, p1)" and "s_IDT p1 = s_IDT p"
proof (rule GDT_Init_segments [OF assms, of sy])
  fix r g0 g1 g2 g3 g4
  assume "GDT_Init sy p = Some (0, p\<lparr>s_GDTR := r, s_GDT := [g0, g1, g2, g3, g4],
      table_trace := GDTLoad 39 (addr_s_GDT sy) # table_trace p\<rparr>)"
  then show ?thesis by (rule that) simp
qed

lemma IDT_Init_installs:
  assumes "length (s_IDT p) = 256"
  obtains p1 where "IDT_Init sy p = Some (0, p1)" and "\<forall>i<32. isr_gate (addr_ISR sy i) (s_IDT p1 ! i)"
proof (rule IDT_Init_gates [OF assms, of sy])
  fix r l
  assume I: "IDT_Init sy p = Some (0, p\<lparr>s_IDTR := r, s_IDT := l,
      table_trace := IDTLoad 2047 (addr_s_IDT sy) # table_trace p\<rparr>)" and gates: "\<forall>j<32. isr_gate (addr_ISR sy j) (l ! j)"
  show ?thesis by (rule that [OF I]) (use gates in simp)
qed

lemma Processor_start_ok:
  assumes r: "ready lit tmp (set start_literals) M"
    and tables: "length (s_GDT (mach_cpu M)) = 5" "length (s_IDT (mach_cpu M)) = 256"
  obtains M' where "Processor_start d sy lit tmp M = Some (Inr (0, M'))" and "reported tmp M processor_report M'"
    and "\<forall>i<32. isr_gate (addr_ISR sy i) (s_IDT (mach_cpu M') ! i)" and "managers M' = managers M"
proof -
  note S = processor_report_ok(4) [unfolded processor_report_def]
  let ?r1 = "message ''Initializing x86 Processor...'' [] @ message ''Initializing GDT...'' []"
  let ?r2 = "message ''Initializing IDT...'' []"
  let ?r3 = "message ''Initializing PIC8259...'' [] @ message ''Remapping PIC8259...'' []"
  have s: "fst ` set ?r1 \<subseteq> set start_literals" "fst ` set ?r2 \<subseteq> set start_literals" "fst ` set ?r3 \<subseteq> set start_literals"
    using S by (simp_all add: image_Un)
  have wf: "console_wf (console_view N)" if "ready lit tmp (set start_literals) N" for N
    using that by (simp add: ready_def)
  obtain M1 where M1: "say d lit tmp ?r1 M = Some M1" "reported tmp M ?r1 M1" "ready lit tmp (set start_literals) M1"
    "mach_cpu M1 = mach_cpu M" "managers M1 = managers M"
    by (rule say_reported [OF r processor_report_ok(1) s(1)])
  obtain p1 where G: "GDT_Init sy (mach_cpu M1) = Some (0, p1)" "s_IDT p1 = s_IDT (mach_cpu M)"
    by (rule GDT_Init_keeps_IDT [of "mach_cpu M1" sy]) (use tables(1) M1(4) in simp_all)
  let ?M2 = "M1\<lparr>mach_cpu := p1\<rparr>"
  have R2: "reported tmp M ?r1 ?M2" using reported_cpu [OF M1(2) wf [OF M1(3)], of "mach_ports M1" p1] by simp
  obtain M3 where M3: "say d lit tmp ?r2 ?M2 = Some M3" "reported tmp ?M2 ?r2 M3" "ready lit tmp (set start_literals) M3"
    "mach_cpu M3 = p1" "managers M3 = managers M"
    using say_reported [OF reported_ready [OF R2 r] processor_report_ok(2) s(2), of d] M1(5) by auto
  obtain p2 where I: "IDT_Init sy (mach_cpu M3) = Some (0, p2)" "\<forall>i<32. isr_gate (addr_ISR sy i) (s_IDT p2 ! i)"
    by (rule IDT_Init_installs [of "mach_cpu M3" sy]) (use tables(2) G(2) M3(4) in simp_all)
  let ?M4 = "M3\<lparr>mach_cpu := p2\<rparr>"
  have R4: "reported tmp M (?r1 @ ?r2) ?M4"
    using reported_cpu [OF reported_trans [OF R2 M3(2)] wf [OF M3(3)], of "mach_ports M3" p2] by simp
  obtain M5 where M5: "say d lit tmp ?r3 ?M4 = Some M5" "reported tmp ?M4 ?r3 M5" "ready lit tmp (set start_literals) M5"
    "mach_cpu M5 = p2" "managers M5 = managers M"
    using say_reported [OF reported_ready [OF R4 r] processor_report_ok(3) s(3), of d] M3(5) by auto
  obtain t where t: "PIC8259_Init d (mach_ports M5) = (0, t)"
    by (simp add: PIC8259_Init_def PIC8259_Remap_def split_beta Let_def)
  let ?M6 = "M5\<lparr>mach_ports := t\<rparr>"
  have "disk_after p ini t = disk_after p ini (mach_ports M5)" for p ini
    using PIC8259_Init_disk [of p ini d "mach_ports M5"] t by simp
  then have "reported tmp M ((?r1 @ ?r2) @ ?r3) ?M6"
    using reported_cpu [OF reported_trans [OF R4 M5(2)] wf [OF M5(3)], of t "mach_cpu M5"] by simp
  then have "reported tmp M processor_report ?M6" by (simp add: processor_report_def)
  moreover have "Processor_start d sy lit tmp M = Some (Inr (0, ?M6))"
    using M1(1) G(1) M3(1) I(1) M5(1) t by (simp add: Processor_start_def Let_def)
  ultimately show ?thesis using I(2) M5(4,5) by (intro that [of ?M6]) simp_all
qed

section \<open>The memory managers start\<close>

lemma empty_heap_same:
  assumes "heap_wf h m []" and "same_bytes {unat (m_StartAddress h)..<unat (m_StartAddress h) + 13} m m'"
  shows "heap_wf h m' []"
proof -
  have "node_Prev m' (m_StartAddress h) = node_Prev m (m_StartAddress h)" using node_same(4) [OF assms(2)] by simp
  with assms(1) show ?thesis by (simp add: heap_wf_def)
qed

text \<open>The kernel's heap is there, empty, from \<^verbatim>\<open>0xC1000000\<close> to \<^verbatim>\<open>0xC7400000\<close>.\<close>

definition fresh_kernel_heap :: "kernel_state \<Rightarrow> bool" where
  "fresh_kernel_heap k \<longleftrightarrow> memory_inv (k_managers k) \<and> heap_wf (g_KernelHeap k) (k_bytes k) [] \<and>
     m_StartAddress (g_KernelHeap k) = 0xC1000000 \<and> m_EndAddress (g_KernelHeap k) = 0xC7400000 \<and>
     m_MemorySizeBytes (g_KernelHeap k) = 100 * 1048576"

lemma heap_header_quiet:
  assumes "ready lit tmp S M"
  shows "{0xC1000000..<0xC1000000 + 13} \<subseteq> quiet_bytes tmp"
proof -
  have "tmp_bytes tmp \<subseteq> {..<0xC1000000}" using assms by (simp add: ready_def literals_in_def)
  then show ?thesis by (auto simp: quiet_bytes_def other_bytes_def video_bytes_def)
qed

lemma say_fresh_heap:
  assumes "fresh_kernel_heap (mach_kernel M)" and r: "ready lit tmp S M" and "complete_report r" and "fst ` set r \<subseteq> S"
  obtains M' where "say d lit tmp r M = Some M'" and "reported tmp M r M'" and "ready lit tmp S M'"
    and "mach_cpu M' = mach_cpu M" and "fresh_kernel_heap (mach_kernel M')"
proof -
  obtain M' where M': "say d lit tmp r M = Some M'" "reported tmp M r M'" "ready lit tmp S M'" "mach_cpu M' = mach_cpu M"
    "managers M' = managers M" "g_KernelHeap (mach_kernel M') = g_KernelHeap (mach_kernel M)"
    "same_bytes (quiet_bytes tmp) (k_bytes (mach_kernel M)) (k_bytes (mach_kernel M'))"
    by (rule say_reported [OF assms(2-4)])
  have "same_bytes {0xC1000000..<0xC1000000 + 13} (k_bytes (mach_kernel M)) (k_bytes (mach_kernel M'))"
    by (rule same_bytes_mono [OF M'(7) heap_header_quiet [OF r]])
  then have "fresh_kernel_heap (mach_kernel M')"
    using assms(1) M'(5,6) empty_heap_same [of "g_KernelHeap (mach_kernel M)" "k_bytes (mach_kernel M)"]
    by (simp add: fresh_kernel_heap_def)
  then show ?thesis by (rule that [OF M'(1-4)])
qed

lemma Heap_start_ok:
  assumes r: "ready lit tmp (set start_literals) M" and inv: "memory_inv (managers M)"
    and start: "vma_StartAddress (g_KernelVMA (managers M)) = 0xC1000000"
    and run: "first_run (vma_size (g_KernelVMA (managers M))) (vpage_taken (g_KernelVMA (managers M))) 25600 = Some 0"
    and frames: "fst (PMM_AllocatePages 25600 (g_KernelPMM (managers M))) \<noteq> 0"
  obtains M' where "Heap_start d lit tmp (100 * 1048576) M = Some (True, M')"
    and "reported tmp M (heap_start_report 0xC1000000 0xC7400000 (fst (PMM_AllocatePages 25600 (g_KernelPMM (managers M))))) M'"
    and "ready lit tmp (set start_literals) M'" and "mach_cpu M' = mach_cpu M" and "fresh_kernel_heap (mach_kernel M')"
proof -
  let ?f = "fst (PMM_AllocatePages 25600 (g_KernelPMM (managers M)))"
  let ?r1 = "message ''Initializing Heap...'' [] @
    message ''VirtualMemoryAllocator->Allocated(Virt(0x%x) -> Phys(0x%x))!'' [0xC1000000, ?f]"
  let ?r2 = "message ''Heap{Size = %dMB, StartAddress = 0x%x, EndAddress = 0x%x}'' [100, 0xC1000000, 0xC7400000]"
  have rr: "heap_start_report 0xC1000000 0xC7400000 ?f = ?r1 @ ?r2" by (simp add: heap_start_report_def)
  have ok: "complete_report ?r1" "complete_report ?r2" using memory_report_ok(4) [of "0xC1000000" "0xC7400000" ?f]
    by (simp_all add: rr)
  have S: "fst ` set ?r1 \<subseteq> set start_literals" "fst ` set ?r2 \<subseteq> set start_literals"
    using memory_report_ok(6) [of undefined ?f] by (simp_all add: memory_report_def rr image_Un)
  have page: "VMA_GetPageSize (g_KernelVMA (managers M)) = 4096"
    using vma_wfD [OF memory_invD(4) [OF inv]] by (simp add: VMA_GetPageSize_def)
  have down: "AlignDown (100 * 1048576) 4096 div 4096 = 25600" by (simp add: AlignDown_def)
  have said: "Heap_Init_report (100 * 1048576) (managers M) = ?r1"
  proof (rule kernel_heap_ok [OF inv start run frames])
    fix k' assume "Heap_Init (100 * 1048576) (mach_kernel M) = Some (True, k')" "m_StartAddress (g_KernelHeap k') = 0xC1000000"
    from Heap_Init_said [OF this(1)] this(2) show ?thesis by (simp only: page down)
  qed
  obtain M1 where M1: "say d lit tmp ?r1 M = Some M1" "reported tmp M ?r1 M1" "ready lit tmp (set start_literals) M1"
    "mach_cpu M1 = mach_cpu M" "managers M1 = managers M"
    by (rule say_reported [OF r ok(1) S(1)])
  obtain k' where k': "Heap_Init (100 * 1048576) (mach_kernel M1) = Some (True, k')" "memory_inv (k_managers k')"
    "heap_wf (g_KernelHeap k') (k_bytes k') []" "m_StartAddress (g_KernelHeap k') = 0xC1000000"
    "m_EndAddress (g_KernelHeap k') = 0xC7400000"
    by (rule kernel_heap_ok [of "mach_kernel M1"]) (use inv start run frames M1(5) in simp_all)
  have "m_MemorySizeBytes (g_KernelHeap k') = 100 * 1048576"
    using k'(1) by (auto simp: Heap_Init_def M1(5) page AlignDown_def Let_def split: if_splits option.splits)
  then have fresh: "fresh_kernel_heap k'" using k'(2-5) by (simp add: fresh_kernel_heap_def)
  let ?M2 = "M1\<lparr>mach_kernel := k'\<rparr>"
  have header: "k_bytes k' = Memset 0xC1000000 0 sizeof_HeapNode (k_bytes (mach_kernel M1))"
    using Heap_Init_bytes [OF k'(1)] by (simp add: k'(4))
  have "k_bytes k' (of_nat x) = k_bytes (mach_kernel M1) (of_nat x)" if "x < 0xC1000000" for x
    using offset_in_block [of x "0xC1000000" 13] that by (auto simp: header Memset_eq sizeof_HeapNode_def)
  then have "same_bytes (video_bytes \<union> low_bytes tmp) (k_bytes (mach_kernel M1)) (k_bytes k')"
    by (auto simp: same_bytes_def video_bytes_def low_bytes_def)
  then have "said tmp M1 [] ?M2" using M1(3) by (intro said_nothing) (simp_all add: ready_def)
  then have R2: "reported tmp M ?r1 ?M2" by (rule reported_then [OF M1(2)])
  have fresh2: "fresh_kernel_heap (mach_kernel ?M2)" using fresh by simp
  obtain M3 where M3: "say d lit tmp ?r2 ?M2 = Some M3" "reported tmp ?M2 ?r2 M3" "ready lit tmp (set start_literals) M3"
    "mach_cpu M3 = mach_cpu ?M2" "fresh_kernel_heap (mach_kernel M3)"
    by (rule say_fresh_heap [OF fresh2 reported_ready [OF R2 r] ok(2) S(2)])
  have "Heap_Init_end_report (g_KernelHeap k') = ?r2"
    using fresh by (simp add: Heap_Init_end_report_def fresh_kernel_heap_def)
  then have "Heap_start d lit tmp (100 * 1048576) M = Some (True, M3)"
    unfolding Heap_start_def said M1(1) using k'(1) M3(1) by simp
  moreover have "reported tmp M (heap_start_report 0xC1000000 0xC7400000 ?f) M3"
    unfolding rr by (rule reported_trans [OF R2 M3(2)])
  ultimately show ?thesis using M3(3-5) M1(4) by (intro that [of M3]) simp_all
qed

lemma set_managers_simps [simp]:
  "managers (set_managers mm M) = mm" "mach_cpu (set_managers mm M) = mach_cpu M"
  "g_KernelHeap (mach_kernel (set_managers mm M)) = g_KernelHeap (mach_kernel M)"
  by (simp_all add: set_managers_def)

lemma said_managers:
  "ready lit tmp S M \<Longrightarrow> said tmp M [] (set_managers mm M)"
  by (rule said_nothing) (simp_all add: ready_def set_managers_def)

lemma set_managers_reported:
  assumes "reported tmp M0 r M" and "ready lit tmp S M"
  shows "reported tmp M0 r (set_managers mm M)" and "ready lit tmp S (set_managers mm M)"
  using reported_then [OF assms(1) said_managers] said_ready [OF said_managers] assms(2) by blast+

text \<open>The messages of the first three managers, between the changes of the objects.\<close>

lemma manager_messages_ok:
  fixes mu q s v p
  assumes r: "ready lit tmp (set start_literals) M"
  defines "m1 \<equiv> (managers M)\<lparr>k_MemoryUtil := mu\<rparr>" and "m3 \<equiv> (managers M)\<lparr>k_MemoryUtil := mu, g_KernelPMM := q\<rparr>"
    and "m5 \<equiv> (managers M)\<lparr>k_MemoryUtil := mu, g_KernelPMM := q, g_KernelVMM := s\<rparr>"
    and "m7 \<equiv> (managers M)\<lparr>k_MemoryUtil := mu, g_KernelPMM := q, g_KernelVMM := s, g_KernelVMA := v\<rparr>"
    and "r1 \<equiv> message ''Initializing PhysicalMemoryManager...'' [] @ PMM_line p"
    and "r2 \<equiv> message ''Initializing VirtualMemoryManager...'' []"
    and "r3 \<equiv> message ''Initializing VirtualMemoryAllocator...'' [] @ VMA_line 0xC1000000 0x3EFFFFFF"
  obtains M2 M4 M6 where "say d lit tmp r1 (set_managers m1 M) = Some M2" and "managers M2 = m1"
    and "say d lit tmp r2 (set_managers m3 M2) = Some M4" and "managers M4 = m3"
    and "say d lit tmp r3 (set_managers m5 M4) = Some M6" and "managers M6 = m5"
    and "mach_cpu M6 = mach_cpu M" and "ready lit tmp (set start_literals) (set_managers m7 M6)"
    and "reported tmp M (r1 @ r2 @ r3) (set_managers m7 M6)"
proof -
  let ?L = "set start_literals"
  have S: "fst ` set r1 \<subseteq> ?L" "fst ` set r2 \<subseteq> ?L" "fst ` set r3 \<subseteq> ?L"
    using memory_report_ok(6) [of p 0] by (simp_all add: memory_report_def image_Un r1_def r2_def r3_def)
  have R1: "reported tmp M [] (set_managers m1 M)" "ready lit tmp ?L (set_managers m1 M)"
    using said_managers [OF r] said_ready [OF said_managers [OF r] r] by (simp_all add: reported_nothing)
  obtain M2 where M2: "say d lit tmp r1 (set_managers m1 M) = Some M2" "reported tmp (set_managers m1 M) r1 M2"
    "ready lit tmp ?L M2" "mach_cpu M2 = mach_cpu (set_managers m1 M)" "managers M2 = managers (set_managers m1 M)"
    by (rule say_reported [OF R1(2) memory_report_ok(1) [of p, folded r1_def] S(1)])
  note R3 = set_managers_reported [OF reported_trans [OF R1(1) M2(2)] M2(3), of m3]
  obtain M4 where M4: "say d lit tmp r2 (set_managers m3 M2) = Some M4" "reported tmp (set_managers m3 M2) r2 M4"
    "ready lit tmp ?L M4" "mach_cpu M4 = mach_cpu (set_managers m3 M2)" "managers M4 = managers (set_managers m3 M2)"
    by (rule say_reported [OF R3(2) memory_report_ok(2) [folded r2_def] S(2)])
  note R5 = set_managers_reported [OF reported_trans [OF R3(1) M4(2)] M4(3), of m5]
  obtain M6 where M6: "say d lit tmp r3 (set_managers m5 M4) = Some M6" "reported tmp (set_managers m5 M4) r3 M6"
    "ready lit tmp ?L M6" "mach_cpu M6 = mach_cpu (set_managers m5 M4)" "managers M6 = managers (set_managers m5 M4)"
    by (rule say_reported [OF R5(2) memory_report_ok(3) [of "0xC1000000" "0x3EFFFFFF", folded r3_def] S(3)])
  note R7 = set_managers_reported [OF reported_trans [OF R5(1) M6(2)] M6(3), of m7]
  show ?thesis by (rule that [OF M2(1) _ M4(1) _ M6(1)]) (use M2(4,5) M4(4,5) M6(4,5) R7 in simp_all)
qed

lemma InitMemoryManager_start_ok:
  assumes r: "ready lit tmp (set start_literals) M"
    and layout: "boot_layout bi" and memory: "boot_memory bi (g_KernelPMM (managers M))"
    and objects: "kernel_objects (managers M)"
  obtains M' where "InitMemoryManager_start d lit tmp bi M = Some (True, M')"
    and "reported tmp M (memory_report (snd (PMM_Init bi (g_KernelPMM (managers M))))
      (fst (PMM_AllocatePages 25600 (snd (InitPhysicalMemoryManager bi (g_KernelPMM (managers M))))))) M'"
    and "ready lit tmp (set start_literals) M'" and "mach_cpu M' = mach_cpu M" and "fresh_kernel_heap (mach_kernel M')"
proof -
  let ?mm = "managers M"
  obtain mu q s v where I: "MemoryUtil_Init bi (k_MemoryUtil ?mm) = (True, mu)"
    "InitPhysicalMemoryManager bi (g_KernelPMM ?mm) = (True, q)"
    "InitVirtualMemoryManager bi mu (g_KernelVMM ?mm) = Some (True, s)"
    "InitVirtualMemoryAllocator bi (g_KernelVMA ?mm) = (True, v)"
    "memory_inv (?mm\<lparr>k_MemoryUtil := mu, g_KernelPMM := q, g_KernelVMM := s, g_KernelVMA := v\<rparr>)"
    "vma_StartAddress v = 0xC1000000" "first_run (vma_size v) (vpage_taken v) 25600 = Some 0"
    "fst (PMM_AllocatePages 25600 q) \<noteq> 0"
    by (rule InitManagers_ok [OF layout memory objects])
  let ?p = "snd (PMM_Init bi (g_KernelPMM ?mm))" and ?f = "fst (PMM_AllocatePages 25600 q)"
  let ?L = "set start_literals" and ?r5 = "message ''Initializing KMalloc...'' []"
  obtain M2 M4 M6 where N: "say d lit tmp (message ''Initializing PhysicalMemoryManager...'' [] @ PMM_line ?p)
      (set_managers (?mm\<lparr>k_MemoryUtil := mu\<rparr>) M) = Some M2" "managers M2 = ?mm\<lparr>k_MemoryUtil := mu\<rparr>"
    "say d lit tmp (message ''Initializing VirtualMemoryManager...'' [])
      (set_managers (?mm\<lparr>k_MemoryUtil := mu, g_KernelPMM := q\<rparr>) M2) = Some M4"
    "managers M4 = ?mm\<lparr>k_MemoryUtil := mu, g_KernelPMM := q\<rparr>"
    "say d lit tmp (message ''Initializing VirtualMemoryAllocator...'' [] @ VMA_line 0xC1000000 0x3EFFFFFF)
      (set_managers (?mm\<lparr>k_MemoryUtil := mu, g_KernelPMM := q, g_KernelVMM := s\<rparr>) M4) = Some M6"
    "managers M6 = ?mm\<lparr>k_MemoryUtil := mu, g_KernelPMM := q, g_KernelVMM := s\<rparr>" "mach_cpu M6 = mach_cpu M"
    "ready lit tmp ?L (set_managers (?mm\<lparr>k_MemoryUtil := mu, g_KernelPMM := q, g_KernelVMM := s, g_KernelVMA := v\<rparr>) M6)"
    "reported tmp M ((message ''Initializing PhysicalMemoryManager...'' [] @ PMM_line ?p) @
        message ''Initializing VirtualMemoryManager...'' [] @
        message ''Initializing VirtualMemoryAllocator...'' [] @ VMA_line 0xC1000000 0x3EFFFFFF)
      (set_managers (?mm\<lparr>k_MemoryUtil := mu, g_KernelPMM := q, g_KernelVMM := s, g_KernelVMA := v\<rparr>) M6)"
    by (rule manager_messages_ok [OF r])
  let ?M7 = "set_managers (?mm\<lparr>k_MemoryUtil := mu, g_KernelPMM := q, g_KernelVMM := s, g_KernelVMA := v\<rparr>) M6"
  have S: "fst ` set ?r5 \<subseteq> ?L" using memory_report_ok(6) [of ?p ?f] by (simp add: memory_report_def image_Un)
  have h: "memory_inv (managers ?M7)" "vma_StartAddress (g_KernelVMA (managers ?M7)) = 0xC1000000"
    "first_run (vma_size (g_KernelVMA (managers ?M7))) (vpage_taken (g_KernelVMA (managers ?M7))) 25600 = Some 0"
    "fst (PMM_AllocatePages 25600 (g_KernelPMM (managers ?M7))) \<noteq> 0" using I(5-8) by simp_all
  obtain M8 where M8: "Heap_start d lit tmp (100 * 1048576) ?M7 = Some (True, M8)"
    "reported tmp ?M7 (heap_start_report 0xC1000000 0xC7400000 (fst (PMM_AllocatePages 25600 (g_KernelPMM (managers ?M7))))) M8"
    "ready lit tmp ?L M8" "mach_cpu M8 = mach_cpu ?M7" "fresh_kernel_heap (mach_kernel M8)"
    by (rule Heap_start_ok [OF N(8) h])
  obtain M9 where M9: "say d lit tmp ?r5 M8 = Some M9" "reported tmp M8 ?r5 M9" "ready lit tmp ?L M9"
    "mach_cpu M9 = mach_cpu M8" "fresh_kernel_heap (mach_kernel M9)"
    by (rule say_fresh_heap [OF M8(5,3) memory_report_ok(5) S])
  have kv: "KernelVirtualStartAddress bi = 0xC0000000" using layout by (simp add: boot_layout_def)
  have vma: "InitVirtualMemoryAllocator_report bi (g_KernelVMA ?mm) =
      message ''Initializing VirtualMemoryAllocator...'' [] @ VMA_line 0xC1000000 0x3EFFFFFF"
    by (simp add: InitVirtualMemoryAllocator_report_def VMA_Init_report_def VMA_Init_def VMA_line_def kv Let_def)
  note reps = InitPhysicalMemoryManager_said InitVirtualMemoryManager_said [OF I(3)] vma
  have tail: "InitKernelHeap_start d lit tmp bi ?M7 = Some (True, M8)" "InitKMalloc_start d lit tmp bi M8 = Some (True, M9)"
    using M8(1) M9(1) by (simp_all add: InitKernelHeap_start_def InitKMalloc_start_def InitKMalloc_def)
  have "InitMemoryManager_start d lit tmp bi M = Some (True, M9)"
    unfolding InitMemoryManager_start_def
    using I(1-4) N(1-6) tail by (simp add: reps Let_def)
  moreover have "reported tmp M (memory_report ?p ?f) M9"
    using reported_trans [OF reported_trans [OF N(9) M8(2)] M9(2)] I(2) by (simp add: memory_report_def)
  ultimately show ?thesis
    using M9(3-5) M8(4) N(7) I(2) by (intro that [of M9]) simp_all
qed

end
