(* ===== verification/KernelMain.thy ===== *)
theory KernelMain
  imports Startup
begin

text \<open>
  \<^verbatim>\<open>InitKernel\<close> and the rest of \<^verbatim>\<open>KMain\<close> in \<^verbatim>\<open>Kernel/Kernel.cpp\<close>: the components together, from the multiboot
  record to the text on the screen.
\<close>

section \<open>Operations\<close>

text \<open>How \<^verbatim>\<open>InitKernel\<close> ends: in \<^verbatim>\<open>KPanic\<close>, or by returning.\<close>

datatype init_end = Panicked | Returned

text \<open>The end of the function, from the disk on. The result of \<^verbatim>\<open>Init\<close> is not used.\<close>

definition InitKernel_disk ::
  "device \<Rightarrow> (string \<Rightarrow> u32) \<Rightarrow> u32 \<Rightarrow> ata \<Rightarrow> machine \<Rightarrow> (init_end \<times> machine) option" where
  "InitKernel_disk d lit tmp ata M = do {
     (ok, ata, M1) \<leftarrow> ATA_start d lit tmp BusPrimary DriveMaster ata M;
     (buff, k) \<leftarrow> operator_new_array 512 (mach_kernel M1);
     (let M2 = M1\<lparr>mach_kernel := k\<lparr>k_bytes := Memset buff 0 512 (k_bytes k)\<rparr>\<rparr> in do {
        (r, M3) \<leftarrow> ATA_Read28_said d lit tmp ata buff 1 0 M2;
        (if r = - 1
         then map_option (Pair Returned) (say d lit tmp (message ''ATA->Read28 Failed'' []) M3)
         else do {
           M4 \<leftarrow> say d lit tmp (message ''ATA-Read28: %s'' [buff]) M3;
           M5 \<leftarrow> say d lit tmp [(opening_line ''Eagle Operating System'', [])] M4;
           Some (Returned, M5)
         })
      })
   }"

definition InitKernel ::
  "device \<Rightarrow> table_symbols \<Rightarrow> (string \<Rightarrow> u32) \<Rightarrow> u32 \<Rightarrow> BootInfo \<Rightarrow> ata \<Rightarrow> machine \<Rightarrow> (init_end \<times> machine) option" where
  "InitKernel d sy lit tmp bootInfo ata M = do {
     (r0, c1) \<leftarrow> VGA_Init d (lit (text_line ''Initialized VGA...'')) (console_view M);
     (let M1 = console_back M (VGA_ClearScreen d c1) in do {
        started \<leftarrow> Processor_start d sy lit tmp M1;
        (case started of
           Inl M2 \<Rightarrow> Some (Panicked, M2)
         | Inr (r, M2) \<Rightarrow>
             if r \<noteq> 0
             then map_option (Pair Panicked) (stop d lit tmp ''Failed to Initialize x86 Processor!'' M2)
             else do {
               (ok, M3) \<leftarrow> InitMemoryManager_start d lit tmp bootInfo M2;
               (if \<not> ok
                then map_option (Pair Panicked) (stop d lit tmp ''Failed to Initialize Memory Manager'' M3)
                else InitKernel_disk d lit tmp ata M3)
             })
      })
   }"

text \<open>
  \<^verbatim>\<open>KMain\<close> returns at once when it was not started by a multiboot loader; otherwise it runs \<^verbatim>\<open>InitKernel\<close> and
  then loops for ever, so that its last state is that of \<^verbatim>\<open>InitKernel\<close>.
\<close>

definition KMain ::
  "device \<Rightarrow> table_symbols \<Rightarrow> (string \<Rightarrow> u32) \<Rightarrow> u32 \<Rightarrow> linker_symbols \<Rightarrow> u32 \<Rightarrow> MultibootInfo \<Rightarrow> ata \<Rightarrow> machine \<Rightarrow>
   (init_end \<times> machine) option" where
  "KMain d sy lit tmp ls multibootMagic multibootInfo ata M =
     (if multibootMagic \<noteq> MULTIBOOT_BOOTLOADER_MAGIC then Some (Returned, M)
      else InitKernel d sy lit tmp (KMain_bootInfo ls multibootInfo) ata M)"

section \<open>Reading the first sector\<close>

text \<open>
  What \<^verbatim>\<open>InitBusDrive\<close> waits for. A round of the first loop that finds the drive busy reads the status and the
  registers for the middle and the high byte of the address, which are 0 as long as the drive is an ATA drive.
\<close>

definition wait_round :: "device \<Rightarrow> u16 \<Rightarrow> port_trace \<Rightarrow> port_trace" where
  "wait_round d p t = snd (INSB d (p + ATA_LBA_HIGH_REG) (snd (INSB d (p + ATA_LBA_MID_REG)
     (snd (INSB d (p + ATA_STATUS_REG) t)))))"

definition busy_round :: "device \<Rightarrow> u16 \<Rightarrow> port_trace \<Rightarrow> bool" where
  "busy_round d p t \<longleftrightarrow> (let (status, t1) = INSB d (p + ATA_STATUS_REG) t; (mid, t2) = INSB d (p + ATA_LBA_MID_REG) t1
     in status_busy status \<and> mid = 0 \<and> fst (INSB d (p + ATA_LBA_HIGH_REG) t2) = 0)"

text \<open>
  A drive that identifies itself: after the 14 reads of the delay its status is not 0, it is busy for \<open>n\<close> rounds and
  then is not, shows neither an error nor data for \<open>j\<close> more reads, and then data without an error. Nothing is
  said about its status before the delay is over or after the first word of data.
\<close>

definition identify_settles :: "device \<Rightarrow> u16 \<Rightarrow> nat \<Rightarrow> nat \<Rightarrow> port_trace \<Rightarrow> bool" where
  "identify_settles d p n j t \<longleftrightarrow>
     (let t1 = in8_reads d (p + ATA_STATUS_REG) 15 t;
          t2 = (wait_round d p ^^ n) t1;
          t3 = snd (INSB d (p + ATA_STATUS_REG) t2)
      in in8_value d (p + ATA_STATUS_REG) 14 t \<noteq> 0 \<and>
         (\<forall>i<n. busy_round d p ((wait_round d p ^^ i) t1)) \<and> \<not> status_busy (fst (INSB d (p + ATA_STATUS_REG) t2)) \<and>
         reads_until d (p + ATA_STATUS_REG) (\<lambda>status. \<not> status_error status \<and> \<not> status_request status) j t3 \<and>
         \<not> status_error (in8_value d (p + ATA_STATUS_REG) j t3))"

text \<open>
  The master drive of a bus does so whenever the command \<^verbatim>\<open>IDENTIFY\<close> is written with the middle and high byte of the
  address at 0, as the ATA standard asks the host to do.
\<close>

definition identify_ready :: "device \<Rightarrow> u16 \<Rightarrow> bool" where
  "identify_ready d p \<longleftrightarrow> (\<forall>t. \<not> drive_slave p t \<and> last_out8 (p + ATA_LBA_MID_REG) t = 0 \<and>
     last_out8 (p + ATA_LBA_HIGH_REG) t = 0 \<longrightarrow>
     (\<exists>n j. identify_settles d p n j (OUTB (p + ATA_COMMAND_REG) ATA_COMMAND_IDENTIFY t)))"

lemma drive_command_reads [simp]:
  "drive_command p (snd (INSB d q t)) = drive_command p t" "drive_command p (in8_reads d q n t) = drive_command p t"
  by (simp_all add: drive_command_def)

lemma Init_wait_step:
  "busy_round d p t \<Longrightarrow> Init_wait d p t = Init_wait d p (wait_round d p t)"
  "\<not> status_busy (fst (INSB d (p + ATA_STATUS_REG) t)) \<Longrightarrow>
    Init_wait d p t = Some (True, snd (INSB d (p + ATA_STATUS_REG) t))"
  by (subst Init_wait.simps, simp add: busy_round_def wait_round_def split_beta Let_def)+

lemma Init_wait_returns:
  assumes "\<forall>i<n. busy_round d p ((wait_round d p ^^ i) t)"
    and "\<not> status_busy (fst (INSB d (p + ATA_STATUS_REG) ((wait_round d p ^^ n) t)))"
  shows "Init_wait d p t = Some (True, snd (INSB d (p + ATA_STATUS_REG) ((wait_round d p ^^ n) t)))"
  using assms
proof (induction n arbitrary: t)
  case (Suc n)
  have first: "busy_round d p t" using Suc.prems(1) by (metis funpow_0 zero_less_Suc)
  have "Init_wait d p (wait_round d p t) =
      Some (True, snd (INSB d (p + ATA_STATUS_REG) ((wait_round d p ^^ n) (wait_round d p t))))"
  proof (rule Suc.IH)
    show "\<forall>i<n. busy_round d p ((wait_round d p ^^ i) (wait_round d p t))"
      using Suc.prems(1) by (metis Suc_less_eq comp_apply funpow_Suc_right)
    show "\<not> status_busy (fst (INSB d (p + ATA_STATUS_REG) ((wait_round d p ^^ n) (wait_round d p t))))"
      using Suc.prems(2) by (metis comp_apply funpow_Suc_right)
  qed
  then show ?case by (simp add: Init_wait_step(1) [OF first] funpow_swap1)
qed (simp add: Init_wait_step(2))

lemma wait_rounds_disk: "disk_after p ini ((wait_round d q ^^ n) t) = disk_after p ini t"
  by (induction n) (simp_all add: wait_round_def)

lemma read_words_disk:
  assumes "for_range 0 256 (\<lambda>_. ReadSector28_word d a) (buf, m, t) = (ptr, m', t')"
  shows "disk_after p ini t' = disk_after p ini t"
proof -
  have "disk_after p ini (snd (snd (for_range 0 256 (\<lambda>_. ReadSector28_word d a) (buf, m, t)))) = disk_after p ini t"
    by (rule for_range_preserves [where P = "\<lambda>s. disk_after p ini (snd (snd s)) = disk_after p ini t"])
      (auto simp: ReadSector28_word_def split_beta)
  with assms show ?thesis by simp
qed

lemma ATA_Init_ready:
  assumes d: "identify_ready d (if bus = BusPrimary then 0x1F0 else 0x170)"
    and inv: "heap_inv k" and room: "525 \<le> heap_avail k"
  obtains a' k' t' where "ATA_Init d bus DriveMaster a (k, t) = Some (True, a', k', t')"
    and "disk_after p ini t' = disk_after p ini t"
proof -
  let ?p = "(if bus = BusPrimary then 0x1F0 else 0x170) :: u16"
  have "heap_room 512 k" by (rule kb.avail_room [OF inv]) (use room in simp)
  moreover have "(512 :: u32) \<noteq> 0" by simp
  ultimately obtain blk k1 where new: "KMalloc 512 k = Some (blk, k1)" using kh.alloc_law [OF inv] by metis
  define a1 where "a1 = a\<lparr>m_SectorSize := ATA_SECTOR_SIZE, m_Bus := bus, m_Drive := DriveMaster, m_BusPort := ?p,
      m_DriveCode := 0xA0\<rparr>"
  have port: "m_BusPort a1 = ?p" "m_DriveCode a1 = 0xA0" by (simp_all add: a1_def)
  define t5 where "t5 = OUTB (?p + ATA_LBA_HIGH_REG) 0 (OUTB (?p + ATA_LBA_MID_REG) 0 (OUTB (?p + ATA_LBA_LOW_REG) 0
    (OUTB (?p + ATA_SECTOR_COUNT_REG) 0 (OUTB (?p + ATA_DRIVEHEAD_SELECT_REG) 0xA0 t))))"
  let ?t6 = "OUTB (?p + ATA_COMMAND_REG) ATA_COMMAND_IDENTIFY t5"
  have "\<not> drive_slave ?p t5 \<and> last_out8 (?p + ATA_LBA_MID_REG) t5 = 0 \<and> last_out8 (?p + ATA_LBA_HIGH_REG) t5 = 0"
    by (simp add: t5_def drive_slave_def ata_registers bit_simps numeral_eq_Suc)
  with d obtain n j where "identify_settles d ?p n j ?t6" unfolding identify_ready_def by blast
  then obtain t1 t2 t3 where t123: "t1 = in8_reads d (?p + ATA_STATUS_REG) 15 ?t6" "t2 = (wait_round d ?p ^^ n) t1"
      "t3 = snd (INSB d (?p + ATA_STATUS_REG) t2)"
    and st: "in8_value d (?p + ATA_STATUS_REG) 14 ?t6 \<noteq> 0"
      "\<forall>i<n. busy_round d ?p ((wait_round d ?p ^^ i) t1)" "\<not> status_busy (fst (INSB d (?p + ATA_STATUS_REG) t2))"
      "reads_until d (?p + ATA_STATUS_REG) (\<lambda>status. \<not> status_error status \<and> \<not> status_request status) j t3"
      "\<not> status_error (in8_value d (?p + ATA_STATUS_REG) j t3)"
    unfolding identify_settles_def Let_def by blast
  have wait: "Init_wait d ?p t1 = Some (True, t3)"
    using Init_wait_returns [OF st(2)] st(3) by (simp add: t123(2,3))
  let ?t9 = "in8_reads d (?p + ATA_STATUS_REG) (Suc j) t3"
  have retry: "Poll_retry d (?p + ATA_STATUS_REG) t3 = Some (True, ?t9)"
    unfolding Poll_retry_def read_while_returns [OF st(4)] using st(5) by simp
  have delay: "INSB d (?p + ATA_STATUS_REG) (ATA_Delay400NS d a1 ?t6) = (in8_value d (?p + ATA_STATUS_REG) 14 ?t6, t1)"
    by (simp add: Delay400NS_reads port t123(1) in8_value_def prod_eq_iff eval_nat_numeral)
  obtain ptr m' t' where loop: "for_range 0 256 (\<lambda>_. ReadSector28_word d a1) (blk, k_bytes k1, ?t9) = (ptr, m', t')"
    by (metis prod.exhaust)
  have "ATA_InitBusDrive d a1 (k, t) = Some (True, a1\<lparr>m_DeviceInfo := ptr\<rparr>, k1\<lparr>k_bytes := m'\<rparr>, t')"
    using st(1) wait retry new loop
    by (simp add: ATA_InitBusDrive_def Let_def port t5_def [symmetric] delay operator_new_array_def del: in8_reads.simps)
  then have "ATA_Init d bus DriveMaster a (k, t) = Some (True, a1\<lparr>m_DeviceInfo := ptr\<rparr>, k1\<lparr>k_bytes := m'\<rparr>, t')"
    by (simp add: ATA_Init_def a1_def Let_def)
  moreover have "disk_after p ini t' = disk_after p ini t"
    using read_words_disk [OF loop, of p ini] by (simp add: t123 wait_rounds_disk t5_def del: in8_reads.simps(2))
  ultimately show ?thesis by (rule that)
qed

text \<open>A buffer of 512 bytes, cleared and then filled with the first sector.\<close>

lemma read_first_sector:
  assumes inv: "heap_inv k" and room: "525 \<le> heap_avail k" and dev: "pio_drive d (m_BusPort a) ini"
    and sz: "m_SectorSize a = ATA_SECTOR_SIZE"
  obtains buff k1 m t' where "operator_new_array 512 k = Some (buff, k1)"
    and "ATA_Read28 d a buff 1 0 (Memset buff 0 512 (k_bytes k1), t) = Some (512, m, t')"
    and "kb.grown k 525 (k1\<lparr>k_bytes := m\<rparr>)" and "k_managers k1 = k_managers k"
    and "\<forall>i<512. m (buff + of_nat i) = word_byte (disk_after (m_BusPort a) ini t (m_Drive a = DriveSlave) 0) i"
    and "kernel_client k \<inter> {unat buff..<unat buff + 512} = {}" and "unat buff + 512 < 4294967296"
    and "{unat buff..<unat buff + 512} \<subseteq> kernel_client (k1\<lparr>k_bytes := m\<rparr>)"
    and "unat buff \<in> kernel_blocks (k1\<lparr>k_bytes := m\<rparr>)"
proof -
  have n: "(512 :: u32) \<noteq> 0" by simp
  have r: "heap_room 512 k" by (rule kb.avail_room [OF inv]) (use room in simp)
  from kh.alloc_fill [OF inv n r] obtain buff k1 where new: "KMalloc 512 k = Some (buff, k1)"
    and top: "unat buff + unat (512 :: u32) < 4294967296" and apart: "kernel_client k \<inter> block_of buff 512 = {}"
    and own: "\<And>m. same_bytes ({..<4294967296} - block_of buff 512) (k_bytes k1) m \<Longrightarrow>
      block_of buff 512 \<subseteq> kernel_client (k1\<lparr>k_bytes := m\<rparr>)"
    by (metis le_supE)
  have blk: "block_of buff 512 = {unat buff..<unat buff + 512}" by (simp add: block_of_def)
  let ?D = "disk_after (m_BusPort a) ini t (m_Drive a = DriveSlave)"
  obtain m t' where R: "sector_loop 1 (ATA_ReadSector28 d a) 0x200 buff 0 512 (Memset buff 0 512 (k_bytes k1), t) =
      Some (512, m, t')"
    "\<forall>x. m x = (if unat (x - buff) < 512 then word_byte (?D (take_bit 28 (0 + of_nat (unat (x - buff) div 512))))
        (unat (x - buff) mod 512) else Memset buff 0 512 (k_bytes k1) x)"
    using read_loop [OF dev, of 1 buff 0 512 "Memset buff 0 512 (k_bytes k1)" t] by auto
  have sector: "m x = word_byte (?D 0) (unat (x - buff))" if "unat (x - buff) < 512" for x
    using R(2) [rule_format, of x] that by simp
  have others: "m x = k_bytes k1 x" if "\<not> unat (x - buff) < 512" for x
    using R(2) [rule_format, of x] that by (simp add: Memset_eq)
  have "m (of_nat x) = k_bytes k1 (of_nat x)" if x: "x \<in> {..<4294967296} - block_of buff 512" for x
    using others [of "of_nat x"] offset_in_block [of x buff 512] x top by (auto simp: blk)
  then have "same_bytes ({..<4294967296} - block_of buff 512) (k_bytes k1) m" by (simp add: same_bytes_def)
  from kb.alloc_grown [OF inv n r new this] own [OF this]
  have g: "kb.grown k 525 (k1\<lparr>k_bytes := m\<rparr>)" and mine: "unat buff \<in> kernel_blocks (k1\<lparr>k_bytes := m\<rparr>)"
    "{unat buff..<unat buff + 512} \<subseteq> kernel_client (k1\<lparr>k_bytes := m\<rparr>)" by (simp_all add: blk)
  have mm: "k_managers k1 = k_managers k" using new by (auto simp: KMalloc_def bind_eq_Some_conv)
  have "sint (1 * m_SectorSize a) = 512" by (simp add: sz ATA_SECTOR_SIZE_def)
  then have read: "ATA_Read28 d a buff 1 0 (Memset buff 0 512 (k_bytes k1), t) = Some (512, m, t')"
    using R(1) by (simp add: ATA_Read28_def sz ATA_SECTOR_SIZE_def)
  have "\<forall>i<512. m (buff + of_nat i) = word_byte (?D 0) i" using sector by (simp add: unat_of_nat32)
  then show ?thesis
    using that [OF _ read g mm] new apart top mine by (simp add: operator_new_array_def blk)
qed

text \<open>
  The kernel's heap after the memory managers have started: everything below it and behind it belongs to the
  clients.
\<close>

lemma fresh_heap:
  assumes "heap_wf (g_KernelHeap k) (k_bytes k) []" and "m_StartAddress (g_KernelHeap k) = 0xC1000000"
    and "m_EndAddress (g_KernelHeap k) = 0xC7400000"
  shows "heap_inv k" and "{..<0xC1000000} \<subseteq> kernel_client k" and "1050 \<le> heap_avail k"
    and "{0xC7400000..<4294967296} \<subseteq> kernel_client k"
proof -
  have cur: "unat (m_CurrentAddress (g_KernelHeap k)) = 0xC1000000"
    using heap_wf_chain [OF assms(1)] by (simp add: assms(2))
  then have "heap_fits (g_KernelHeap k)" using assms(2,3) by (simp add: heap_fits_def)
  then show "heap_inv k" using assms(1) unfolding heap_inv_def by blast
  show "{..<0xC1000000} \<subseteq> kernel_client k" "{0xC7400000..<4294967296} \<subseteq> kernel_client k"
    unfolding kernel_client_eq [OF assms(1)] by (auto simp: heap_client_def assms(2,3))
  show "1050 \<le> heap_avail k" by (simp add: heap_avail_def cur assms(3))
qed

text \<open>
  A block of the kernel's heap that is in use: \<open>a\<close> is the address behind a header that is marked as reserved and
  holds a size of at least \<open>n\<close>. A client that got \<open>n\<close> bytes from the heap got such a block.
\<close>

definition reserved_block :: "kernel_state \<Rightarrow> u32 \<Rightarrow> nat \<Rightarrow> bool" where
  "reserved_block k a n \<longleftrightarrow> (\<exists>bs i. heap_wf (g_KernelHeap k) (k_bytes k) bs \<and> i < length bs \<and>
     snd (bs ! i) = HeapReserved \<and> n \<le> fst (bs ! i) \<and>
     unat a = block_at (unat (m_StartAddress (g_KernelHeap k))) bs i + 13)"

abbreviation heap_range :: "kernel_state \<Rightarrow> u32 \<times> u32" where
  "heap_range k \<equiv> (m_StartAddress (g_KernelHeap k), m_EndAddress (g_KernelHeap k))"

lemma client_block_reserved:
  assumes inv: "heap_inv k" and a: "unat a \<in> kernel_blocks k" and n: "0 < n"
    and own: "{unat a..<unat a + n} \<subseteq> kernel_client k"
    and range: "unat a + n \<le> unat (m_EndAddress (g_KernelHeap k))"
  shows "reserved_block k a n"
proof -
  let ?h = "g_KernelHeap k"
  let ?s = "unat (m_StartAddress ?h)"
  obtain bs where wf: "heap_wf ?h (k_bytes k) bs" and fits: "heap_fits ?h" using inv by (auto simp: heap_inv_def)
  obtain i where i: "i < length bs" "unat a = block_at ?s bs i + 13" using a kernel_blocks_iff [OF wf] by blast
  have "?s \<le> block_at ?s bs i" using block_bounds(1) [OF heap_wf_chain [OF wf] i(1)] .
  then have used: "x \<in> used_payloads ?h bs" if "unat a \<le> x" "x < unat a + n" for x
    using own range i(2) that unfolding kernel_client_eq [OF wf] heap_client_def by fastforce
  obtain j where j: "j < length bs" "snd (bs ! j) = HeapReserved" "unat a \<in> payload ?s bs j"
    using used [of "unat a"] n by (auto simp: used_payloads_def)
  have ij: "i = j"
  proof (rule ccontr)
    assume "i \<noteq> j"
    then show False
      using block_at_step [of i j bs ?s] block_at_step [of j i bs ?s] i j by (auto simp: payload_def neq_iff)
  qed
  have "n \<le> fst (bs ! i)"
  proof (rule ccontr)
    assume short: "\<not> n \<le> fst (bs ! i)"
    let ?x = "block_at ?s bs (Suc i)"
    have x: "?x = unat a + fst (bs ! i)" using block_at_Suc [OF i(1), of ?s] i(2) by simp
    then have "?x \<in> used_payloads ?h bs" using used short by simp
    moreover have "?x \<in> header_bytes ?s bs \<or> ?x = unat (m_CurrentAddress ?h)"
    proof (cases "Suc i < length bs")
      case True
      have "?x \<in> {?x..<?x + 13}" by simp
      with header_bytes_at [OF True, of ?s] show ?thesis by blast
    next
      case False
      then have "Suc i = length bs" using i(1) by simp
      then show ?thesis using chain_end [OF heap_wf_chain [OF wf]] by simp
    qed
    moreover have "used_payloads ?h bs \<inter> header_bytes ?s bs = {}"
      using payload_headers by (fastforce simp: used_payloads_def)
    ultimately show False using used_payloads_below [OF wf] by auto
  qed
  with wf i j(2) show ?thesis unfolding reserved_block_def ij by blast
qed

lemma KMalloc_range: "KMalloc n k = Some (a, k') \<Longrightarrow> heap_range k' = heap_range k"
  by (auto simp: KMalloc_def Heap_Allocate_def bind_eq_Some_conv Let_def split: if_splits option.splits)

lemma ATA_Init_range:
  assumes "ATA_Init d bus drive a (k, t) = Some (b, a', k', t')"
  shows "heap_range k' = heap_range k"
  using assms KMalloc_range [of 512 k]
  by (auto simp: ATA_Init_def ATA_InitBusDrive_def operator_new_array_def Let_def split_beta bind_eq_Some_conv
      split: if_splits)

text \<open>The first sector as a text: the characters before its first zero byte.\<close>

definition sector_text :: "(nat \<Rightarrow> u16) \<Rightarrow> u8 list \<Rightarrow> bool" where
  "sector_text w s \<longleftrightarrow> length s < 512 \<and> 0 \<notin> set s \<and> (\<forall>i<length s. word_byte w i = s ! i) \<and>
     word_byte w (length s) = 0"

section \<open>The disk on the machine\<close>

text \<open>What the disk part prints: the message of the driver, the first sector, and the last line.\<close>

definition ATA_start_text :: "u8 list" where
  "ATA_start_text = bytes_of (text_line ''Initializing ATA Interface for Bus: Primary, Drive: Master'')"

definition disk_text :: "u8 list \<Rightarrow> u8 list" where
  "disk_text s = ATA_start_text @ (bytes_of ''ATA-Read28: '' @ s @ [0x0A]) @ bytes_of (opening_line ''Eagle Operating System'')"

lemma disk_formats:
  "report_text strs (message ''Initializing ATA Interface for Bus: %s, Drive: %s'' [p, q]) =
     Some (bytes_of ''Initializing ATA Interface for Bus: '' @ strs p @ bytes_of '', Drive: '' @ strs q @ [0x0A])"
  "call_strings (text_line ''Initializing ATA Interface for Bus: %s, Drive: %s'', [p, q]) = {p, q}"
  "report_text strs (message ''ATA-Read28: %s'' [p]) = Some (bytes_of ''ATA-Read28: '' @ strs p @ [0x0A])"
  "call_strings (text_line ''ATA-Read28: %s'', [p]) = {p}"
  "report_text strs [(opening_line ''Eagle Operating System'', [])] = Some (bytes_of (opening_line ''Eagle Operating System''))"
  "call_strings (opening_line ''Eagle Operating System'', []) = {}"
  by (simp_all add: message_def text_line_def opening_line_def bytes_of_def call_strings_def)

lemma disk_literals:
  "fst ` set (message ''Initializing ATA Interface for Bus: %s, Drive: %s'' args) \<subseteq> set start_literals"
  "fst ` set (message ''ATA-Read28: %s'' args) \<subseteq> set start_literals"
  "fst ` set [(opening_line ''Eagle Operating System'', args)] \<subseteq> set start_literals"
  "''Primary'' \<in> set start_literals" "''Master'' \<in> set start_literals" "text_line ''Initialized VGA...'' \<in> set start_literals"
  by (simp_all add: start_literals_def message_def ATA_init_text_def)

lemma c_string_unique: "c_string m p s \<Longrightarrow> c_string m p s' \<Longrightarrow> s = s'"
proof (induction s arbitrary: p s')
  case Nil
  then show ?case by (cases s') auto
next
  case (Cons ch s)
  then show ?case by (cases s') auto
qed

text \<open>A report on a machine with a heap: the bytes of the clients stay, but for screen and buffer.\<close>

lemma say_with_heap:
  assumes r: "ready lit tmp S M" and inv: "heap_inv (mach_kernel M)" and low: "{..<0xC1000000} \<subseteq> kernel_client (mach_kernel M)"
    and rep: "report_text strs r = Some out" "fst ` set r \<subseteq> S" "strings_ready tmp strs (k_bytes (mach_kernel M)) r"
  obtains M' where "say d lit tmp r M = Some M'" and "said tmp M out M'" and "ready lit tmp S M'"
    and "heap_inv (mach_kernel M')" and "kernel_client (mach_kernel M') = kernel_client (mach_kernel M)"
    and "heap_avail (mach_kernel M') = heap_avail (mach_kernel M)" and "managers M' = managers M"
    and "mach_cpu M' = mach_cpu M" and "same_bytes (quiet_bytes tmp) (k_bytes (mach_kernel M)) (k_bytes (mach_kernel M'))"
    and "kernel_blocks (mach_kernel M') = kernel_blocks (mach_kernel M)"
    and "heap_range (mach_kernel M') = heap_range (mach_kernel M)"
proof -
  obtain c where c: "say d lit tmp r M = Some (console_back M c)" "prints (console_view M) out tmp c"
    "said tmp M out (console_back M c)"
    by (rule say_strings [OF r rep])
  have tmp: "tmp_bytes tmp \<subseteq> {..<0xC1000000}" using r by (simp add: ready_def literals_in_def)
  note P = prints_machine [OF c(2) inv low tmp]
  have "video_bytes \<subseteq> {..<0xC1000000}" by (auto simp: video_bytes_def)
  then have "{..<4294967296} - kernel_client (mach_kernel M) \<subseteq> quiet_bytes tmp"
    using low tmp unfolding quiet_bytes_def other_bytes_def by blast
  then have "kernel_blocks (mach_kernel (console_back M c)) = kernel_blocks (mach_kernel M)"
    using kernel_blocks_write [OF inv same_bytes_mono [OF P(4)]] by (simp add: console_back_def)
  then show ?thesis
    by (intro that [OF c(1,3) said_ready [OF c(3) r] P(1,2) _ _ _ P(4)]) (simp_all add: heap_avail_def console_back_def)
qed

text \<open>A message with the names of bus and drive, for the master drive of the primary bus.\<close>

lemma say_drive:
  assumes r: "ready lit tmp S M" and inv: "heap_inv (mach_kernel M)" and low: "{..<0xC1000000} \<subseteq> kernel_client (mach_kernel M)"
    and S: "''Primary'' \<in> S" "''Master'' \<in> S" "text_line f \<in> S"
    and calls: "call_strings (text_line f, [lit ''Primary'', lit ''Master'']) = {lit ''Primary'', lit ''Master''}"
    and out: "\<And>strs. report_text strs (message f [lit ''Primary'', lit ''Master'']) =
      Some (g (strs (lit ''Primary'')) (strs (lit ''Master'')))"
  obtains M' where "say d lit tmp (message f [lit ''Primary'', lit ''Master'']) M = Some M'"
    and "said tmp M (g (bytes_of ''Primary'') (bytes_of ''Master'')) M'" and "ready lit tmp S M'"
    and "heap_inv (mach_kernel M')" and "kernel_client (mach_kernel M') = kernel_client (mach_kernel M)"
    and "heap_avail (mach_kernel M') = heap_avail (mach_kernel M)" and "managers M' = managers M"
    and "mach_cpu M' = mach_cpu M" and "heap_range (mach_kernel M') = heap_range (mach_kernel M)"
proof -
  let ?m = "k_bytes (mach_kernel M)" and ?p = "lit ''Primary''" and ?q = "lit ''Master''"
  let ?strs = "\<lambda>x. if x = ?p then bytes_of ''Primary'' else bytes_of ''Master''"
  have at: "literal_at tmp ?m ?p (bytes_of ''Primary'')" "literal_at tmp ?m ?q (bytes_of ''Master'')"
    using r S(1,2) by (auto simp: ready_def literals_in_def literals_ready_def)
  have "?p \<noteq> ?q"
    using at c_string_unique [of ?m ?p "bytes_of ''Primary''" "bytes_of ''Master''"]
    by (auto simp: literal_at_def bytes_of_def)
  then have shown: "report_text ?strs (message f [?p, ?q]) = Some (g (bytes_of ''Primary'') (bytes_of ''Master''))"
    using out [of ?strs] by simp
  have str: "strings_ready tmp ?strs ?m (message f [?p, ?q])"
    using at by (simp add: strings_ready_def message_def calls)
  have lits: "fst ` set (message f [?p, ?q]) \<subseteq> S" using S(3) by (simp add: message_def)
  show ?thesis by (rule say_with_heap [OF r inv low shown lits str, of d]) (rule that)
qed

lemma ATA_start_ok:
  assumes r: "ready lit tmp (set start_literals) M" and inv: "heap_inv (mach_kernel M)"
    and low: "{..<0xC1000000} \<subseteq> kernel_client (mach_kernel M)" and room: "525 \<le> heap_avail (mach_kernel M)"
    and drive: "identify_ready d 0x1F0"
  obtains a' M' where "ATA_start d lit tmp BusPrimary DriveMaster a M = Some (True, a', M')"
    and "said tmp M ATA_start_text M'" and "heap_inv (mach_kernel M')"
    and "kernel_client (mach_kernel M) \<subseteq> kernel_client (mach_kernel M')"
    and "heap_avail (mach_kernel M) \<le> heap_avail (mach_kernel M') + 525" and "managers M' = managers M"
    and "mach_cpu M' = mach_cpu M"
    and "m_SectorSize a' = ATA_SECTOR_SIZE" and "m_Drive a' = DriveMaster" and "m_BusPort a' = 0x1F0"
    and "heap_range (mach_kernel M') = heap_range (mach_kernel M)"
proof -
  let ?r = "message ''Initializing ATA Interface for Bus: %s, Drive: %s'' [lit ''Primary'', lit ''Master'']"
  let ?g = "\<lambda>p q. bytes_of ''Initializing ATA Interface for Bus: '' @ p @ bytes_of '', Drive: '' @ q @ [0x0A]"
  have g: "?g (bytes_of ''Primary'') (bytes_of ''Master'') = ATA_start_text"
    by (simp add: ATA_start_text_def text_line_def bytes_of_def)
  have lits: "text_line ''Initializing ATA Interface for Bus: %s, Drive: %s'' \<in> set start_literals"
    using disk_literals(1) by (simp add: message_def)
  obtain M1 where M1: "say d lit tmp ?r M = Some M1" "said tmp M ATA_start_text M1" "ready lit tmp (set start_literals) M1"
    "heap_inv (mach_kernel M1)" "kernel_client (mach_kernel M1) = kernel_client (mach_kernel M)"
    "heap_avail (mach_kernel M1) = heap_avail (mach_kernel M)" "managers M1 = managers M" "mach_cpu M1 = mach_cpu M"
    "heap_range (mach_kernel M1) = heap_range (mach_kernel M)"
    by (rule say_drive [where g = "?g", OF r inv low disk_literals(4,5) lits disk_formats(2,1), unfolded g])
  have ready': "identify_ready d (if BusPrimary = BusPrimary then 0x1F0 else 0x170)" using drive by simp
  have r1: "525 \<le> heap_avail (mach_kernel M1)" using room M1(6) by simp
  note init = ATA_Init_ready [OF ready' M1(4) r1, of a "mach_ports M1"]
  obtain a' k' t' where A: "ATA_Init d BusPrimary DriveMaster a (mach_kernel M1, mach_ports M1) = Some (True, a', k', t')"
    by (rule init)
  have disk: "disk_after p ini t' = disk_after p ini (mach_ports M1)" for p ini
    by (rule init [of p ini]) (use A in simp)
  have hr: "heap_room 512 (mach_kernel M1)" by (rule kb.avail_room [OF M1(4)]) (use r1 in simp)
  obtain B: "kb.grown (mach_kernel M1) 525 k'" "k_managers k' = managers M1" "m_SectorSize a' = ATA_SECTOR_SIZE"
    "m_Drive a' = DriveMaster" "m_BusPort a' = 0x1F0"
    by (rule ATA_Init_block [OF A M1(4) hr]) simp
  let ?M2 = "M1\<lparr>mach_kernel := k', mach_ports := t'\<rparr>"
  have "same_bytes (kernel_client (mach_kernel M1)) (k_bytes (mach_kernel M1)) (k_bytes k')"
    using B(1) by (simp add: kb.grown_def)
  moreover have "video_bytes \<union> low_bytes tmp \<subseteq> kernel_client (mach_kernel M1)"
    using low M1(5) by (auto simp: video_bytes_def low_bytes_def)
  ultimately have "said tmp M1 [] ?M2"
    using M1(3) disk by (intro said_nothing) (auto simp: ready_def intro: same_bytes_mono)
  then have "said tmp M ATA_start_text ?M2" using said_trans [OF M1(2)] by fastforce
  moreover have "ATA_start d lit tmp BusPrimary DriveMaster a M = Some (True, a', ?M2)"
    using M1(1) A by (simp add: ATA_start_def ATABusStr_def ATADriveStr_def)
  ultimately show ?thesis
    using B M1(5-9) ATA_Init_range [OF A] by (intro that [of a' ?M2]) (auto simp: kb.grown_def)
qed

text \<open>The machine after the sector is in its buffer: nothing that is printed from is touched.\<close>

lemma buffer_filled:
  fixes ports :: port_trace
  assumes r: "ready lit tmp S M" and low: "{..<0xC1000000} \<subseteq> kernel_client (mach_kernel M)"
    and grown: "kb.grown (mach_kernel M) 525 (k2\<lparr>k_bytes := m\<rparr>)"
    and apart: "kernel_client (mach_kernel M) \<inter> {unat buff..<unat buff + 512} = {}" "unat buff + 512 < 4294967296"
  defines "M' \<equiv> M\<lparr>mach_kernel := k2\<lparr>k_bytes := m\<rparr>, mach_ports := ports\<rparr>"
  shows "heap_inv (mach_kernel M')" and "{..<0xC1000000} \<subseteq> kernel_client (mach_kernel M')" and "ready lit tmp S M'"
    and "terminal_of (console_view M') = terminal_of (console_view M)"
    and "s_Color (console_view M') = s_Color (console_view M)" and "{unat buff..<unat buff + 512} \<subseteq> quiet_bytes tmp"
proof -
  show "heap_inv (mach_kernel M')" "{..<0xC1000000} \<subseteq> kernel_client (mach_kernel M')"
    using grown low by (auto simp: kb.grown_def M'_def)
  have "same_bytes (kernel_client (mach_kernel M)) (k_bytes (mach_kernel M)) m" using grown by (simp add: kb.grown_def)
  moreover have "video_bytes \<subseteq> {..<0xC1000000}" by (auto simp: video_bytes_def)
  ultimately have keep: "same_bytes video_bytes (k_bytes (mach_kernel M)) m" "same_bytes (low_bytes tmp) (k_bytes (mach_kernel M)) m"
    using low by (auto simp: low_bytes_def intro: same_bytes_mono)
  have wf: "console_wf (console_view M')" using r by (simp add: ready_def console_wf_def console_view_def M'_def)
  then show "ready lit tmp S M'" using r literals_in_same [OF _ keep(2)] by (simp add: ready_def M'_def)
  show "terminal_of (console_view M') = terminal_of (console_view M)" "s_Color (console_view M') = s_Color (console_view M)"
    using grid_same [OF keep(1)] by (simp_all add: console_view_def terminal_of_def M'_def)
  have tmp: "tmp_bytes tmp \<subseteq> {..<0xC1000000}" using r by (simp add: ready_def literals_in_def)
  show "{unat buff..<unat buff + 512} \<subseteq> quiet_bytes tmp"
  proof
    fix x assume x: "x \<in> {unat buff..<unat buff + 512}"
    then have "\<not> x < 0xC1000000" using apart(1) low by blast
    then show "x \<in> quiet_bytes tmp" using x apart(2) tmp by (auto simp: quiet_bytes_def other_bytes_def video_bytes_def)
  qed
qed

text \<open>The two messages at the end.\<close>

lemma say_disk_text:
  assumes r: "ready lit tmp (set start_literals) M" and inv: "heap_inv (mach_kernel M)"
    and low: "{..<0xC1000000} \<subseteq> kernel_client (mach_kernel M)" and str: "literal_at tmp (k_bytes (mach_kernel M)) buff s"
  obtains M1 M2 where "say d lit tmp (message ''ATA-Read28: %s'' [buff]) M = Some M1"
    and "say d lit tmp [(opening_line ''Eagle Operating System'', [])] M1 = Some M2"
    and "said tmp M ((bytes_of ''ATA-Read28: '' @ s @ [0x0A]) @ bytes_of (opening_line ''Eagle Operating System'')) M2"
    and "heap_inv (mach_kernel M2)" and "managers M2 = managers M" and "mach_cpu M2 = mach_cpu M"
    and "same_bytes (quiet_bytes tmp) (k_bytes (mach_kernel M)) (k_bytes (mach_kernel M2))"
    and "kernel_client (mach_kernel M2) = kernel_client (mach_kernel M)"
    and "kernel_blocks (mach_kernel M2) = kernel_blocks (mach_kernel M)"
    and "heap_range (mach_kernel M2) = heap_range (mach_kernel M)"
proof -
  have strs: "strings_ready tmp (\<lambda>_. s) (k_bytes (mach_kernel M)) (message ''ATA-Read28: %s'' [buff])"
    using str by (simp add: strings_ready_def message_def disk_formats(4))
  obtain M1 where M1: "say d lit tmp (message ''ATA-Read28: %s'' [buff]) M = Some M1"
    "said tmp M (bytes_of ''ATA-Read28: '' @ s @ [0x0A]) M1" "ready lit tmp (set start_literals) M1"
    "heap_inv (mach_kernel M1)" "kernel_client (mach_kernel M1) = kernel_client (mach_kernel M)"
    "managers M1 = managers M" "mach_cpu M1 = mach_cpu M"
    "same_bytes (quiet_bytes tmp) (k_bytes (mach_kernel M)) (k_bytes (mach_kernel M1))"
    "kernel_blocks (mach_kernel M1) = kernel_blocks (mach_kernel M)" "heap_range (mach_kernel M1) = heap_range (mach_kernel M)"
    by (rule say_with_heap [OF r inv low disk_formats(3) disk_literals(2) strs]) auto
  have low1: "{..<0xC1000000} \<subseteq> kernel_client (mach_kernel M1)" using low M1(5) by simp
  have nostr: "strings_ready tmp (\<lambda>_. []) (k_bytes (mach_kernel M1)) [(opening_line ''Eagle Operating System'', [])]"
    by (simp add: strings_ready_def disk_formats(6))
  obtain M2 where M2: "say d lit tmp [(opening_line ''Eagle Operating System'', [])] M1 = Some M2"
    "said tmp M1 (bytes_of (opening_line ''Eagle Operating System'')) M2" "heap_inv (mach_kernel M2)"
    "managers M2 = managers M1" "mach_cpu M2 = mach_cpu M1"
    "same_bytes (quiet_bytes tmp) (k_bytes (mach_kernel M1)) (k_bytes (mach_kernel M2))"
    "kernel_client (mach_kernel M2) = kernel_client (mach_kernel M1)"
    "kernel_blocks (mach_kernel M2) = kernel_blocks (mach_kernel M1)" "heap_range (mach_kernel M2) = heap_range (mach_kernel M1)"
    by (rule say_with_heap [OF M1(3,4) low1 disk_formats(5) disk_literals(3) nostr]) auto
  with M1 said_trans [OF M1(2) M2(2)] same_bytes_trans [OF M1(8) M2(6)] that show ?thesis by simp
qed

lemma InitKernel_disk_ok:
  assumes r: "ready lit tmp (set start_literals) M" and inv: "heap_inv (mach_kernel M)"
    and low: "{..<0xC1000000} \<subseteq> kernel_client (mach_kernel M)" and room: "1050 \<le> heap_avail (mach_kernel M)"
    and high: "{0xC7400000..<4294967296} \<subseteq> kernel_client (mach_kernel M)"
    and range: "heap_range (mach_kernel M) = (0xC1000000, 0xC7400000)"
    and drive: "identify_ready d 0x1F0" "pio_drive d 0x1F0 ini"
    and sect: "sector_text (disk_after 0x1F0 ini (mach_ports M) False 0) s"
  obtains buff M' where "InitKernel_disk d lit tmp ata M = Some (Returned, M')" and "heap_inv (mach_kernel M')"
    and "managers M' = managers M" and "mach_cpu M' = mach_cpu M" and "console_wf (console_view M')"
    and "terminal_of (console_view M') =
      terminal_string (s_Color (console_view M)) (disk_text s) (terminal_of (console_view M))"
    and "\<forall>i<512. k_bytes (mach_kernel M') (buff + of_nat i) = word_byte (disk_after 0x1F0 ini (mach_ports M) False 0) i"
    and "reserved_block (mach_kernel M') buff 512" and "0xC1000000 \<le> unat buff" and "unat buff + 512 \<le> 0xC7400000"
proof -
  let ?sec = "disk_after 0x1F0 ini (mach_ports M) False 0"
  have room1: "525 \<le> heap_avail (mach_kernel M)" using room by simp
  obtain a1 M1 where M1: "ATA_start d lit tmp BusPrimary DriveMaster ata M = Some (True, a1, M1)"
    "said tmp M ATA_start_text M1" "heap_inv (mach_kernel M1)"
    "kernel_client (mach_kernel M) \<subseteq> kernel_client (mach_kernel M1)"
    "heap_avail (mach_kernel M) \<le> heap_avail (mach_kernel M1) + 525" "managers M1 = managers M" "mach_cpu M1 = mach_cpu M"
    "m_SectorSize a1 = ATA_SECTOR_SIZE" "m_Drive a1 = DriveMaster" "m_BusPort a1 = 0x1F0"
    "heap_range (mach_kernel M1) = heap_range (mach_kernel M)"
    by (rule ATA_start_ok [OF r inv low room1 drive(1)])
  have low1: "{..<0xC1000000} \<subseteq> kernel_client (mach_kernel M1)" using low M1(4) by blast
  have disk1: "disk_after 0x1F0 ini (mach_ports M1) = disk_after 0x1F0 ini (mach_ports M)" using M1(2) by (simp add: said_def)
  have room2: "525 \<le> heap_avail (mach_kernel M1)" using room M1(5) by simp
  obtain buff k2 m t2 where C: "operator_new_array 512 (mach_kernel M1) = Some (buff, k2)"
    "ATA_Read28 d a1 buff 1 0 (Memset buff 0 512 (k_bytes k2), mach_ports M1) = Some (512, m, t2)"
    "kb.grown (mach_kernel M1) 525 (k2\<lparr>k_bytes := m\<rparr>)" "k_managers k2 = managers M1" "\<forall>i<512. m (buff + of_nat i) = word_byte ?sec i"
    "kernel_client (mach_kernel M1) \<inter> {unat buff..<unat buff + 512} = {}" "unat buff + 512 < 4294967296"
    "{unat buff..<unat buff + 512} \<subseteq> kernel_client (k2\<lparr>k_bytes := m\<rparr>)" "unat buff \<in> kernel_blocks (k2\<lparr>k_bytes := m\<rparr>)"
    by (rule read_first_sector [OF M1(3) room2, of d a1 ini "mach_ports M1"]) (use drive(2) M1(8-10) disk1 in simp_all)
  let ?M3 = "M1\<lparr>mach_kernel := k2\<lparr>k_bytes := m\<rparr>, mach_ports := t2\<rparr>"
  note B = buffer_filled [OF said_ready [OF M1(2) r] low1 C(3,6,7)]
  have "string_bytes buff s \<subseteq> {unat buff..<unat buff + 512}" using sect by (auto simp: string_bytes_def sector_text_def)
  moreover have "c_string m buff s" using sect C(5) by (simp add: sector_text_def c_string_iff)
  ultimately have str: "literal_at tmp (k_bytes (mach_kernel ?M3)) buff s" using B(6) by (simp add: literal_at_def)
  obtain M4 M5 where S: "say d lit tmp (message ''ATA-Read28: %s'' [buff]) ?M3 = Some M4"
    "say d lit tmp [(opening_line ''Eagle Operating System'', [])] M4 = Some M5"
    "said tmp ?M3 ((bytes_of ''ATA-Read28: '' @ s @ [0x0A]) @ bytes_of (opening_line ''Eagle Operating System'')) M5"
    "heap_inv (mach_kernel M5)" "managers M5 = managers ?M3" "mach_cpu M5 = mach_cpu ?M3"
    "same_bytes (quiet_bytes tmp) (k_bytes (mach_kernel ?M3)) (k_bytes (mach_kernel M5))"
    "kernel_client (mach_kernel M5) = kernel_client (mach_kernel ?M3)"
    "kernel_blocks (mach_kernel M5) = kernel_blocks (mach_kernel ?M3)"
    "heap_range (mach_kernel M5) = heap_range (mach_kernel ?M3)"
    by (rule say_disk_text [OF B(3,1,2) str])
  have run: "InitKernel_disk d lit tmp ata M = Some (Returned, M5)"
    using M1(1) C(1,2) S(1,2) by (simp add: InitKernel_disk_def ATA_Read28_said_def)
  have shown: "terminal_of (console_view M5) =
      terminal_string (s_Color (console_view M)) (disk_text s) (terminal_of (console_view M))"
    using S(3) M1(2) B(4,5) by (simp add: said_def disk_text_def terminal_string_append)
  have buf: "\<forall>i<512. k_bytes (mach_kernel M5) (buff + of_nat i) = word_byte ?sec i"
  proof (intro allI impI)
    fix i :: nat assume i: "i < 512"
    then have "unat buff + i \<in> quiet_bytes tmp" using B(6) by auto
    from load8_same [OF S(7) this] C(5) i show "k_bytes (mach_kernel M5) (buff + of_nat i) = word_byte ?sec i" by simp
  qed
  have "KMalloc 512 (mach_kernel M1) = Some (buff, k2)" using C(1) by (simp add: operator_new_array_def)
  then have r5: "heap_range (mach_kernel M5) = (0xC1000000, 0xC7400000)"
    using S(10) KMalloc_range M1(11) range by simp
  have "unat buff \<notin> kernel_client (mach_kernel M1)" "unat buff + 511 \<notin> kernel_client (mach_kernel M1)"
    using C(6) by (auto simp: disjoint_iff)
  then have place: "0xC1000000 \<le> unat buff" "unat buff + 512 \<le> 0xC7400000"
    using low1 high M1(4) C(7) by (auto simp: subset_iff not_less [symmetric])
  have "reserved_block (mach_kernel M5) buff 512"
    using S(8,9) C(8,9) r5 place(2) by (intro client_block_reserved [OF S(4)]) simp_all
  moreover have "console_wf (console_view M5)" using S(3) by (simp add: said_def)
  ultimately show ?thesis using S(4-6) M1(6,7) C(4) place by (intro that [OF run _ _ _ _ shown buf]) simp_all
qed

section \<open>From power-on to the prompt\<close>

text \<open>The message of \<^verbatim>\<open>VGA::Init\<close> leaves the position at the start of the second row; clearing keeps it there.\<close>

lemma vga_message_position:
  "\<exists>g'. terminal_string LightBrown (bytes_of (text_line ''Initialized VGA...'')) (g, 0, 0) = (g', 0, 1)"
  by (simp add: terminal_string_def terminal_char_def text_line_def bytes_of_def)

lemma VGA_start_ok:
  assumes "literals_in lit tmp (k_bytes (mach_kernel M)) (set start_literals)"
  obtains c g where "VGA_Init d (lit (text_line ''Initialized VGA...'')) (console_view M) = Some (0, c)"
    and "terminal_of (VGA_ClearScreen d c) = (cleared LightBrown 2000 g, 0, 1)"
    and "s_Color (VGA_ClearScreen d c) = LightBrown"
    and "ready lit tmp (set start_literals) (console_back M (VGA_ClearScreen d c))"
    and "\<forall>p ini. console_disk p ini (VGA_ClearScreen d c) = disk_after p ini (mach_ports M)"
    and "same_bytes (low_bytes tmp) (k_bytes (mach_kernel M)) (con_bytes (VGA_ClearScreen d c))"
proof -
  let ?vga = "text_line ''Initialized VGA...''"
  have v: "c_string (con_bytes (console_view M)) (lit ?vga) (bytes_of ?vga)" "string_bytes (lit ?vga) (bytes_of ?vga) \<subseteq> other_bytes"
    using assms disk_literals(6) by (auto simp: literals_in_def literals_ready_def literal_at_def quiet_bytes_def console_view_def)
  obtain c where c: "VGA_Init d (lit ?vga) (console_view M) = Some (0, c)" "console_wf c"
    "terminal_of c = terminal_string LightBrown (bytes_of ?vga) (grid_of (con_bytes (console_view M)), 0, 0)"
    "same_bytes other_bytes (con_bytes (console_view M)) (con_bytes c)" "s_Color c = LightBrown"
    by (rule Init_terminal [OF v])
  obtain g where "terminal_of c = (g, 0, 1)" using vga_message_position c(3) by metis
  then have g: "terminal_of (VGA_ClearScreen d c) = (cleared LightBrown 2000 g, 0, 1)"
    using ClearScreen_terminal(1) [OF c(2), of d] c(5) by (simp add: terminal_of_def)
  have "same_bytes other_bytes (k_bytes (mach_kernel M)) (con_bytes (VGA_ClearScreen d c))"
    using same_bytes_trans [OF c(4) ClearScreen_bytes(1) [OF c(2)]] by (simp add: console_view_def)
  then have low: "same_bytes (low_bytes tmp) (k_bytes (mach_kernel M)) (con_bytes (VGA_ClearScreen d c))"
    by (rule same_bytes_mono) (auto simp: low_bytes_def quiet_bytes_def)
  then have "ready lit tmp (set start_literals) (console_back M (VGA_ClearScreen d c))"
    using literals_in_same [OF assms] ClearScreen_terminal(2) [OF c(2)] by (simp add: ready_def)
  moreover have "console_disk p ini (VGA_ClearScreen d c) = disk_after p ini (mach_ports M)" for p ini
    using VGA_Init_disk [OF c(1), of p ini] by (simp add: console_view_def)
  ultimately show ?thesis using ClearScreen_bytes(2) [OF c(2), of d] c(5) low by (intro that [OF c(1) g]) simp_all
qed

lemma fresh_kernel_heap_facts:
  assumes "fresh_kernel_heap k"
  shows "heap_inv k" and "{..<0xC1000000} \<subseteq> kernel_client k" and "1050 \<le> heap_avail k"
    and "{0xC7400000..<4294967296} \<subseteq> kernel_client k" and "heap_range k = (0xC1000000, 0xC7400000)"
    and "memory_inv (k_managers k)"
  using fresh_heap [of k] assms by (simp_all add: fresh_kernel_heap_def)

text \<open>Up to the disk: the processor and the memory managers, with their messages.\<close>

abbreviation boot_report :: "BootInfo \<Rightarrow> machine \<Rightarrow> report" where
  "boot_report bi M \<equiv> processor_report @ memory_report (snd (PMM_Init bi (g_KernelPMM (managers M))))
     (fst (PMM_AllocatePages 25600 (snd (InitPhysicalMemoryManager bi (g_KernelPMM (managers M))))))"

lemma InitKernel_until_disk:
  assumes layout: "boot_layout bi" and memory: "boot_memory bi (g_KernelPMM (managers M))"
    and objects: "kernel_objects (managers M)"
    and tables: "length (s_GDT (mach_cpu M)) = 5" "length (s_IDT (mach_cpu M)) = 256"
    and lits: "literals_in lit tmp (k_bytes (mach_kernel M)) (set start_literals)"
  obtains M' g out where "InitKernel d sy lit tmp bi ata M = InitKernel_disk d lit tmp ata M'"
    and "report_text (\<lambda>_. []) (boot_report bi M) = Some out" and "console_wf (console_view M')"
    and "terminal_of (console_view M') = terminal_string LightBrown out (cleared LightBrown 2000 g, 0, 1)"
    and "s_Color (console_view M') = LightBrown" and "ready lit tmp (set start_literals) M'"
    and "fresh_kernel_heap (mach_kernel M')" and "\<forall>i<32. isr_gate (addr_ISR sy i) (s_IDT (mach_cpu M') ! i)"
    and "\<forall>p ini. disk_after p ini (mach_ports M') = disk_after p ini (mach_ports M)"
    and "same_bytes (low_bytes tmp) (k_bytes (mach_kernel M)) (k_bytes (mach_kernel M'))"
proof -
  obtain c g where c: "VGA_Init d (lit (text_line ''Initialized VGA...'')) (console_view M) = Some (0, c)"
    "terminal_of (VGA_ClearScreen d c) = (cleared LightBrown 2000 g, 0, 1)" "s_Color (VGA_ClearScreen d c) = LightBrown"
    "ready lit tmp (set start_literals) (console_back M (VGA_ClearScreen d c))"
    "\<forall>p ini. console_disk p ini (VGA_ClearScreen d c) = disk_after p ini (mach_ports M)"
    "same_bytes (low_bytes tmp) (k_bytes (mach_kernel M)) (con_bytes (VGA_ClearScreen d c))"
    by (rule VGA_start_ok [OF lits, of d])
  let ?M1 = "console_back M (VGA_ClearScreen d c)"
  obtain M2 where M2: "Processor_start d sy lit tmp ?M1 = Some (Inr (0, M2))" "reported tmp ?M1 processor_report M2"
    "\<forall>i<32. isr_gate (addr_ISR sy i) (s_IDT (mach_cpu M2) ! i)" "managers M2 = managers ?M1"
    by (rule Processor_start_ok [OF c(4)]) (use tables in simp_all)
  have r2: "ready lit tmp (set start_literals) M2" by (rule reported_ready [OF M2(2) c(4)])
  let ?rep = "memory_report (snd (PMM_Init bi (g_KernelPMM (managers M))))
      (fst (PMM_AllocatePages 25600 (snd (InitPhysicalMemoryManager bi (g_KernelPMM (managers M))))))"
  have mgr: "managers M2 = managers M" using M2(4) by simp
  obtain M3 where M3: "InitMemoryManager_start d lit tmp bi M2 = Some (True, M3)" "reported tmp M2 ?rep M3"
    "ready lit tmp (set start_literals) M3" "mach_cpu M3 = mach_cpu M2" "fresh_kernel_heap (mach_kernel M3)"
    using InitMemoryManager_start_ok [OF r2 layout, of d, unfolded mgr, OF memory objects] by metis
  obtain out where out: "report_text (\<lambda>_. []) (boot_report bi M) = Some out" "said tmp ?M1 out M3"
    using reported_trans [OF M2(2) M3(2)] by (auto simp: reported_def)
  have "\<forall>p ini. disk_after p ini (mach_ports M3) = disk_after p ini (mach_ports M)"
    using out(2) c(5) by (simp add: said_def)
  moreover have "same_bytes (low_bytes tmp) (k_bytes (mach_kernel M)) (k_bytes (mach_kernel M3))"
    using out(2) same_bytes_trans [OF c(6)] by (simp add: said_def)
  moreover have "InitKernel d sy lit tmp bi ata M = InitKernel_disk d lit tmp ata M3"
    using c(1) M2(1) M3(1) by (simp add: InitKernel_def Let_def)
  ultimately show ?thesis
    using out c(2,3) M2(3) M3(3-5) by (intro that [of M3 out g]) (simp_all add: said_def)
qed

lemma InitKernel_ok:
  assumes boot: "boot_layout bi" "boot_memory bi (g_KernelPMM (managers M))" "kernel_objects (managers M)"
      "length (s_GDT (mach_cpu M)) = 5" "length (s_IDT (mach_cpu M)) = 256"
      "literals_in lit tmp (k_bytes (mach_kernel M)) (set start_literals)"
    and drive: "identify_ready d 0x1F0" "pio_drive d 0x1F0 ini"
    and sect: "sector_text (disk_after 0x1F0 ini (mach_ports M) False 0) s"
  obtains buff M' g out where "InitKernel d sy lit tmp bi ata M = Some (Returned, M')"
    and "memory_inv (managers M')" and "heap_inv (mach_kernel M')"
    and "\<forall>i<32. isr_gate (addr_ISR sy i) (s_IDT (mach_cpu M') ! i)"
    and "report_text (\<lambda>_. []) (boot_report bi M) = Some out"
    and "terminal_of (console_view M') = terminal_string LightBrown (out @ disk_text s) (cleared LightBrown 2000 g, 0, 1)"
    and "\<forall>i<512. k_bytes (mach_kernel M') (buff + of_nat i) = word_byte (disk_after 0x1F0 ini (mach_ports M) False 0) i"
    and "reserved_block (mach_kernel M') buff 512" and "0xC1000000 \<le> unat buff" and "unat buff + 512 \<le> 0xC7400000"
proof -
  obtain M3 g out where M3: "InitKernel d sy lit tmp bi ata M = InitKernel_disk d lit tmp ata M3"
    "report_text (\<lambda>_. []) (boot_report bi M) = Some out"
    "terminal_of (console_view M3) = terminal_string LightBrown out (cleared LightBrown 2000 g, 0, 1)"
    "s_Color (console_view M3) = LightBrown" "ready lit tmp (set start_literals) M3"
    "fresh_kernel_heap (mach_kernel M3)" "\<forall>i<32. isr_gate (addr_ISR sy i) (s_IDT (mach_cpu M3) ! i)"
    "\<forall>p ini. disk_after p ini (mach_ports M3) = disk_after p ini (mach_ports M)"
    by (rule InitKernel_until_disk [OF boot])
  have sect3: "sector_text (disk_after 0x1F0 ini (mach_ports M3) False 0) s" using sect M3(8) by simp
  note heap = fresh_kernel_heap_facts [OF M3(6)]
  obtain buff M4 where M4: "InitKernel_disk d lit tmp ata M3 = Some (Returned, M4)" "heap_inv (mach_kernel M4)"
    "managers M4 = managers M3" "mach_cpu M4 = mach_cpu M3"
    "terminal_of (console_view M4) = terminal_string (s_Color (console_view M3)) (disk_text s) (terminal_of (console_view M3))"
    "\<forall>i<512. k_bytes (mach_kernel M4) (buff + of_nat i) = word_byte (disk_after 0x1F0 ini (mach_ports M3) False 0) i"
    "reserved_block (mach_kernel M4) buff 512" "0xC1000000 \<le> unat buff" "unat buff + 512 \<le> 0xC7400000"
    by (rule InitKernel_disk_ok [OF M3(5) heap(1-5) drive sect3])
  show ?thesis
    using M3 M4 heap(6) by (intro that [of M4 out g buff]) (simp_all add: terminal_string_append)
qed

section \<open>Properties\<close>

text \<open>
  C2: On a PC with the layout of the linker script, an accepted region of memory from 16 MB to 116 MB, a display, and a
  master drive that identifies itself and answers reads, each after any number of reads of its status, and that
  holds a text in its first sector, \<^verbatim>\<open>InitKernel\<close> returns without a panic. The memory managers and the heap are in
  order; the gates of the 32 exceptions are installed; a block of the kernel's heap that is marked as in use, between
  \<^verbatim>\<open>0xC1000000\<close> and \<^verbatim>\<open>0xC7400000\<close>, holds the first sector of the disk; and the terminal, blank at first with the
  position on its second row, has shown exactly the messages of the processor and of the memory managers, that of
  the driver, the text of the sector and the last line.
\<close>

theorem init_kernel_reads_first_sector:
  assumes "boot_layout bi" and "boot_memory bi (g_KernelPMM (managers M))" and "kernel_objects (managers M)"
    and "length (s_GDT (mach_cpu M)) = 5" and "length (s_IDT (mach_cpu M)) = 256"
    and "literals_in lit tmp (k_bytes (mach_kernel M)) (set start_literals)"
    and "identify_ready d 0x1F0" and "pio_drive d 0x1F0 ini"
    and "sector_text (disk_after 0x1F0 ini (mach_ports M) False 0) s"
  shows "\<exists>M' buff g out. InitKernel d sy lit tmp bi ata M = Some (Returned, M') \<and>
    memory_inv (managers M') \<and> heap_inv (mach_kernel M') \<and>
    (\<forall>i<32. isr_gate (addr_ISR sy i) (s_IDT (mach_cpu M') ! i)) \<and>
    (\<forall>i<512. k_bytes (mach_kernel M') (buff + of_nat i) =
       word_byte (disk_after 0x1F0 ini (mach_ports M) False 0) i) \<and>
    reserved_block (mach_kernel M') buff 512 \<and> 0xC1000000 \<le> unat buff \<and> unat buff + 512 \<le> 0xC7400000 \<and>
    report_text (\<lambda>_. []) (processor_report @ memory_report (snd (PMM_Init bi (g_KernelPMM (managers M))))
      (fst (PMM_AllocatePages 25600 (snd (InitPhysicalMemoryManager bi (g_KernelPMM (managers M))))))) = Some out \<and>
    terminal_of (console_view M') = terminal_string LightBrown (out @ disk_text s) (cleared LightBrown 2000 g, 0, 1)"
  by (rule InitKernel_ok [OF assms]) blast

text \<open>
  A PC with 128 MB, the literals of \<^verbatim>\<open>InitKernel\<close> from \<^verbatim>\<open>0x3000\<close> on, and a disk whose first sector holds the
  text \<^verbatim>\<open>BA\<close>.
\<close>

definition machine_128 :: machine where
  "machine_128 = \<lparr>mach_kernel = kernel_0\<lparr>k_bytes := literal_memory start_literals\<rparr>, mach_console = console_0,
     mach_cpu = processor_0, mach_ports = []\<rparr>"

definition disk_boot :: disk where
  "disk_boot = (\<lambda>s l w. if w = 0 then 0x4142 else 0)"

text \<open>
  A drive that takes its time: it is busy for the first 20 reads of its status after a command; then it asks for
  the 256 words of a transfer, if the command is one, and no longer once they are moved. The other registers read
  what was written to them.
\<close>

primrec status_reads :: "u16 \<Rightarrow> port_trace \<Rightarrow> nat" where
  "status_reads p [] = 0"
| "status_reads p (e # t) = (case e of
     Out8 q v \<Rightarrow> if q = p + 7 then 0 else status_reads p t
   | In8 q v \<Rightarrow> if q = p + 7 then Suc (status_reads p t) else status_reads p t
   | _ \<Rightarrow> status_reads p t)"

definition slow_status :: "u16 \<Rightarrow> port_trace \<Rightarrow> u8" where
  "slow_status p t =
     (if status_reads p t < 20 then 0x80
      else if drive_command p t \<in> {ATA_COMMAND_IDENTIFY, ATA_COMMAND_READ_PIO, ATA_COMMAND_WRITE_PIO} \<and>
        words_moved p t < 256 then 0x48
      else 0x40)"

definition slow_drive :: "u16 \<Rightarrow> disk \<Rightarrow> device" where
  "slow_drive p ini = \<lparr>dev_in8 = (\<lambda>t q. if q = p + 7 then slow_status p t else last_out8 q t),
     dev_in16 = (\<lambda>t q. if drive_command p t = ATA_COMMAND_READ_PIO
       then disk_after p ini t (drive_slave p t) (drive_lba p t) (words_moved p t) else 0),
     dev_in32 = (\<lambda>t q. 0)\<rparr>"

lemma status_reads_in8 [simp]:
  "status_reads p (snd (INSB d q t)) = (if q = p + 7 then Suc (status_reads p t) else status_reads p t)"
  by (simp add: INSB_def Let_def)

lemma words_moved_in8 [simp]: "words_moved p (snd (INSB d q t)) = words_moved p t"
  by (simp add: INSB_def Let_def)

lemma status_reads_in8_reads:
  "status_reads p (in8_reads d (p + 7) n t) = status_reads p t + n"
  "words_moved p (in8_reads d q n t) = words_moved p t"
  by (induction n) simp_all

lemma slow_status_value:
  "in8_value (slow_drive p ini) (p + 7) n t =
    (if status_reads p t + n < 20 then 0x80
     else if drive_command p t \<in> {ATA_COMMAND_IDENTIFY, ATA_COMMAND_READ_PIO, ATA_COMMAND_WRITE_PIO} \<and>
       words_moved p t < 256 then 0x48 else 0x40)"
  by (simp add: in8_value_def INSB_def slow_drive_def slow_status_def status_reads_in8_reads Let_def)

lemma slow_drive_pio: "pio_drive (slow_drive p ini) p ini"
  unfolding pio_drive_def
proof (intro conjI allI impI)
  fix t
  let ?d = "slow_drive p ini" and ?r = "status_reads p t"
  assume "drive_command p t \<in> {ATA_COMMAND_READ_PIO, ATA_COMMAND_WRITE_PIO} \<and> drive_one_lba p t \<and> words_moved p t = 0"
  then have "in8_value ?d (p + 7) n t = (if ?r + n < 20 then 0x80 else 0x48)" for n
    by (auto simp: slow_status_value)
  moreover have "6 \<le> ?r + (6 - ?r)" and "\<And>i. i < 6 - ?r \<Longrightarrow> ?r + i < 6" by arith+
  ultimately have "poll_settles ?d (p + 7) (6 - ?r) 0 t \<and> \<not> status_error (in8_value ?d (p + 7) (15 + (6 - ?r) + 0) t)"
    by (simp add: poll_settles_def ata_status_bits)
  then show "\<exists>n j. poll_settles ?d (p + 7) n j t \<and> \<not> status_error (in8_value ?d (p + 7) (15 + n + j) t)" by blast
next
  fix t
  let ?d = "slow_drive p ini" and ?r = "status_reads p t"
  assume "drive_command p t = ATA_COMMAND_CACHE_FLUSH"
  then have "in8_value ?d (p + 7) n t = (if ?r + n < 20 then 0x80 else 0x40)" for n
    by (simp add: slow_status_value ata_commands)
  moreover have "20 \<le> ?r + (20 - ?r)" and "\<And>i. i < 20 - ?r \<Longrightarrow> ?r + i < 20" by arith+
  ultimately have "reads_until ?d (p + 7) (\<lambda>status. status_busy status \<and> \<not> status_request status) (20 - ?r) t \<and>
      \<not> status_error (in8_value ?d (p + 7) (20 - ?r) t)"
    by (simp add: reads_until_def ata_status_bits)
  then show "\<exists>n. reads_until ?d (p + 7) (\<lambda>status. status_busy status \<and> \<not> status_request status) n t \<and>
      \<not> status_error (in8_value ?d (p + 7) n t)" by blast
qed (simp add: slow_drive_def)

text \<open>After \<^verbatim>\<open>IDENTIFY\<close> the driver finds it busy in the first five rounds behind the delay.\<close>

lemma slow_drive_rounds:
  fixes p :: u16 and ini :: disk
  defines "d \<equiv> slow_drive p ini"
  assumes "last_out8 (p + 4) t = 0" and "last_out8 (p + 5) t = 0" and "drive_command p t = ATA_COMMAND_IDENTIFY"
    and "words_moved p t = 0"
  shows "status_reads p ((wait_round d p ^^ i) t) = status_reads p t + i"
    and "drive_command p ((wait_round d p ^^ i) t) = ATA_COMMAND_IDENTIFY"
    and "words_moved p ((wait_round d p ^^ i) t) = 0"
    and "status_reads p t + i < 20 \<Longrightarrow> busy_round d p ((wait_round d p ^^ i) t)"
proof -
  have a: "status_reads p (wait_round d p t') = Suc (status_reads p t')"
    "drive_command p (wait_round d p t') = drive_command p t'" "words_moved p (wait_round d p t') = words_moved p t'"
    "last_out8 q (wait_round d p t') = last_out8 q t'" for t' q
    by (simp_all add: wait_round_def ata_registers)
  have b: "last_out8 q ((wait_round d p ^^ i) t) = last_out8 q t" for q by (induction i) (simp_all add: a)
  show c: "status_reads p ((wait_round d p ^^ i) t) = status_reads p t + i"
    "drive_command p ((wait_round d p ^^ i) t) = ATA_COMMAND_IDENTIFY" "words_moved p ((wait_round d p ^^ i) t) = 0"
    using assms(4,5) by (induction i) (simp_all add: a)
  show "busy_round d p ((wait_round d p ^^ i) t)" if "status_reads p t + i < 20"
    using that b c(1) assms(2,3)
    by (simp add: busy_round_def INSB_def Let_def d_def slow_drive_def slow_status_def ata_registers ata_status_bits)
qed

lemma slow_drive_identify: "identify_ready (slow_drive p ini) p"
  unfolding identify_ready_def
proof (intro allI impI)
  fix t
  let ?d = "slow_drive p ini" and ?t = "OUTB (p + ATA_COMMAND_REG) ATA_COMMAND_IDENTIFY t"
  assume t: "\<not> drive_slave p t \<and> last_out8 (p + ATA_LBA_MID_REG) t = 0 \<and> last_out8 (p + ATA_LBA_HIGH_REG) t = 0"
  let ?t1 = "in8_reads ?d (p + 7) 15 ?t"
  have start: "status_reads p ?t = 0" "drive_command p ?t = ATA_COMMAND_IDENTIFY" "words_moved p ?t = 0"
    by (simp_all add: drive_command_def ata_registers) (simp add: OUTB_def)
  have t1: "last_out8 (p + 4) ?t1 = 0" "last_out8 (p + 5) ?t1 = 0" "drive_command p ?t1 = ATA_COMMAND_IDENTIFY"
    "words_moved p ?t1 = 0" "status_reads p ?t1 = 15"
    using t start by (simp_all add: status_reads_in8_reads ata_registers del: in8_reads.simps)
  note R = slow_drive_rounds [OF t1(1-4), where ini = ini]
  let ?t2 = "(wait_round ?d p ^^ 5) ?t1"
  have two: "status_reads p ?t2 = 20" "drive_command p ?t2 = ATA_COMMAND_IDENTIFY" "words_moved p ?t2 = 0"
    using R(1-3) [of 5] t1(5) by simp_all
  have s2: "in8_value ?d (p + 7) n ?t2 = 0x48" for n
    using two by (simp add: slow_status_value)
  have s3: "in8_value ?d (p + 7) n (snd (INSB ?d (p + 7) ?t2)) = 0x48" for n
    using s2 by (simp only: in8_value_shift)
  have "identify_settles ?d p 5 0 ?t"
    unfolding identify_settles_def Let_def
  proof (intro conjI allI impI)
    show "in8_value ?d (p + ATA_STATUS_REG) 14 ?t \<noteq> 0"
      using start by (simp add: ATA_STATUS_REG_def slow_status_value)
    show "busy_round ?d p ((wait_round ?d p ^^ i) (in8_reads ?d (p + ATA_STATUS_REG) 15 ?t))" if "i < 5" for i
      using R(4) [of i] t1(5) that by (simp add: ATA_STATUS_REG_def del: in8_reads.simps)
    show "\<not> status_busy (fst (INSB ?d (p + ATA_STATUS_REG) ((wait_round ?d p ^^ 5) (in8_reads ?d (p + ATA_STATUS_REG) 15 ?t))))"
      using s2 [of 0] by (simp add: ATA_STATUS_REG_def ata_status_bits del: in8_reads.simps)
  qed (use s3 in \<open>simp_all add: ATA_STATUS_REG_def reads_until_def ata_status_bits del: in8_reads.simps in8_value_0\<close>)
  then show "\<exists>n j. identify_settles ?d p n j ?t" by blast
qed

lemma literal_memory_in:
  assumes n: "length L \<le> 32" and ok: "\<forall>s\<in>set L. length s < 256 \<and> 0 \<notin> set (bytes_of s)"
  shows "literals_in (literal_address L) 0x8000 (literal_memory L) (set L)"
proof -
  have "tmp_bytes 0x8000 \<subseteq> {..<0xC1000000}" by (auto simp: tmp_bytes_def)
  moreover have "string_bytes (literal_address L s) (bytes_of s) \<subseteq> {..<0xC1000000}" if "s \<in> set L" for s
    using literal_inside [OF n that] ok that by fastforce
  ultimately show ?thesis using literal_memory_ready [OF n ok same_bytes_refl] by (simp add: literals_in_def)
qed

lemma start_literals_short:
  "length start_literals \<le> 30" "\<forall>s\<in>set start_literals. length s < 256 \<and> 0 \<notin> set (bytes_of s)"
  by (simp_all add: start_literals_def ATA_init_text_def text_line_def opening_line_def bytes_of_def)

lemma machine_128_literals:
  "literals_in (literal_address start_literals) 0x8000 (k_bytes (mach_kernel machine_128)) (set start_literals)"
  using literal_memory_in [OF _ start_literals_short(2)] start_literals_short(1) by (simp add: machine_128_def)

theorem init_kernel_reads_first_sector_witness:
  "\<exists>M' buff. InitKernel (slow_drive 0x1F0 disk_boot) symbols_0 (literal_address start_literals) 0x8000 boot_128 ata_0
      machine_128 = Some (Returned, M') \<and> heap_inv (mach_kernel M') \<and> reserved_block (mach_kernel M') buff 512 \<and> k_bytes (mach_kernel M') (buff + of_nat 0) = 0x42"
proof -
  have k: "managers machine_128 = k_managers kernel_0" by (simp add: machine_128_def)
  have mem: "boot_memory boot_128 (g_KernelPMM (managers machine_128))" "kernel_objects (managers machine_128)"
    unfolding k by (rule boot_128_memory, rule kernel_0_objects)
  have tables: "length (s_GDT (mach_cpu machine_128)) = 5" "length (s_IDT (mach_cpu machine_128)) = 256"
    by (simp_all add: machine_128_def processor_0_def)
  have sect: "sector_text (disk_after 0x1F0 disk_boot (mach_ports machine_128) False 0) [0x42, 0x41]"
    by (simp add: sector_text_def machine_128_def disk_boot_def word_byte_def less_Suc_eq)
  have byte: "word_byte (disk_after 0x1F0 disk_boot (mach_ports machine_128) False 0) 0 = 0x42"
    by (simp add: machine_128_def disk_boot_def word_byte_def)
  from init_kernel_reads_first_sector [OF boot_128_layout mem tables machine_128_literals slow_drive_identify slow_drive_pio sect,
      of symbols_0 ata_0] byte
  show ?thesis by (metis zero_less_numeral)
qed

end
