(* ===== verification/MissingDrive.thy ===== *)
theory MissingDrive
  imports KernelMain
begin

text \<open>
  The start-up on a PC without a drive on the primary bus: the status register reads 0, which is how
  \<^verbatim>\<open>InitBusDrive\<close> recognises a missing drive. \<^verbatim>\<open>InitKernel\<close> does not look at the result of \<^verbatim>\<open>Init\<close> and reads the
  first sector all the same, and \<^verbatim>\<open>Poll\<close> waits for a drive that never answers.
\<close>

section \<open>The driver\<close>

definition no_drive :: "device \<Rightarrow> u16 \<Rightarrow> bool" where
  "no_drive d p \<longleftrightarrow> (\<forall>t. dev_in8 d t (p + 7) = 0)"

lemma no_drive_status:
  assumes "no_drive d p"
  shows "fst (INSB d (p + ATA_STATUS_REG) t) = 0" and "in8_value d (p + ATA_STATUS_REG) n t = 0"
  using assms by (simp_all add: no_drive_def in8_value_def INSB_def ATA_STATUS_REG_def Let_def)

lemma no_drive_Poll:
  assumes "no_drive d (m_BusPort a)"
  shows "ATA_Poll d a t = None"
proof (rule ccontr)
  assume "ATA_Poll d a t \<noteq> None"
  then obtain b t' where "ATA_Poll d a t = Some (b, t')" by auto
  then show False by (simp add: Poll_iff poll_settles_def no_drive_status [OF assms])
qed

lemma no_drive_Read28:
  assumes "no_drive d (m_BusPort a)"
  shows "ATA_Read28 d a buf 1 lba (m, t) = None"
  by (simp add: ATA_Read28_def ATA_ReadSector28_def no_drive_Poll [OF assms])

lemma no_drive_Init:
  assumes "no_drive d 0x1F0"
  obtains t' where "ATA_Init d BusPrimary DriveMaster a (k, t) = Some (False, ATA_set_drive BusPrimary DriveMaster a, k, t')"
    and "\<forall>p ini. disk_after p ini t' = disk_after p ini t"
proof -
  let ?a = "ATA_set_drive BusPrimary DriveMaster a"
  have port: "m_BusPort ?a = 0x1F0" by (simp add: ATA_set_drive_def)
  obtain t' where "ATA_InitBusDrive d ?a (k, t) = Some (False, ?a, k, t')"
    "\<forall>p ini. disk_after p ini t' = disk_after p ini t"
    using no_drive_status(1) [OF assms]
    by (auto simp: ATA_InitBusDrive_def Let_def split_beta port Delay400NS_reads)
  then show ?thesis by (intro that [of t']) (simp_all add: ATA_Init_def ATA_set_drive_def)
qed

lemma no_drive_report:
  assumes "no_drive d 0x1F0"
  shows "ATA_InitBusDrive_report d lit (ATA_set_drive BusPrimary DriveMaster a) t =
    message ''ATA->InitBusDrive Failed, Bus: %s, Drive: %s Doesn't Exist!'' [lit ''Primary'', lit ''Master'']"
  using no_drive_status(1) [OF assms]
  by (simp add: ATA_InitBusDrive_report_def Let_def split_beta ATA_message_def ATA_set_drive_def ATABusStr_def
      ATADriveStr_def)

section \<open>The messages\<close>

definition missing_text :: "u8 list" where
  "missing_text = ATA_start_text @
     bytes_of (text_line ''ATA->InitBusDrive Failed, Bus: Primary, Drive: Master Doesn't Exist!'') @
     bytes_of (text_line ''ATA->Failed to Initialize Bus: Primary, Drive: Master!'')"

definition missing_literals :: "string list" where
  "missing_literals = start_literals @
     [text_line ''ATA->InitBusDrive Failed, Bus: %s, Drive: %s Doesn't Exist!'',
      text_line ''ATA->Failed to Initialize Bus: %s, Drive: %s!'']"

lemma missing_formats:
  "report_text strs (message ''ATA->InitBusDrive Failed, Bus: %s, Drive: %s Doesn't Exist!'' [p, q]) =
     Some (bytes_of ''ATA->InitBusDrive Failed, Bus: '' @ strs p @ bytes_of '', Drive: '' @ strs q @
       bytes_of (text_line '' Doesn't Exist!''))"
  "call_strings (text_line ''ATA->InitBusDrive Failed, Bus: %s, Drive: %s Doesn't Exist!'', [p, q]) = {p, q}"
  "report_text strs (message ''ATA->Failed to Initialize Bus: %s, Drive: %s!'' [p, q]) =
     Some (bytes_of ''ATA->Failed to Initialize Bus: '' @ strs p @ bytes_of '', Drive: '' @ strs q @
       bytes_of (text_line ''!''))"
  "call_strings (text_line ''ATA->Failed to Initialize Bus: %s, Drive: %s!'', [p, q]) = {p, q}"
  by (simp_all add: message_def text_line_def bytes_of_def call_strings_def)

lemma missing_literals_members:
  "set start_literals \<subseteq> set missing_literals" "''Primary'' \<in> set missing_literals" "''Master'' \<in> set missing_literals"
  "text_line ''Initializing ATA Interface for Bus: %s, Drive: %s'' \<in> set missing_literals"
  "text_line ''ATA->InitBusDrive Failed, Bus: %s, Drive: %s Doesn't Exist!'' \<in> set missing_literals"
  "text_line ''ATA->Failed to Initialize Bus: %s, Drive: %s!'' \<in> set missing_literals"
  using disk_literals by (auto simp: missing_literals_def message_def)

lemma literals_in_subset: "literals_in lit tmp m S \<Longrightarrow> T \<subseteq> S \<Longrightarrow> literals_in lit tmp m T"
  by (auto simp: literals_in_def literals_ready_def)

lemma say_append:
  "say d lit tmp (r @ r') M = Option.bind (say d lit tmp r M) (say d lit tmp r')"
proof (cases "print_report d lit tmp r (console_view M)")
  case (Some c)
  have "console_back (console_back M c) = console_back M" by (simp add: console_back_def fun_eq_iff)
  with Some show ?thesis by (simp add: say_def print_report_append)
qed (simp add: say_def print_report_append)

lemma missing_messages:
  assumes r: "ready lit tmp (set missing_literals) M" and inv: "heap_inv (mach_kernel M)"
    and low: "{..<0xC1000000} \<subseteq> kernel_client (mach_kernel M)"
  obtains M' where "say d lit tmp
      (message ''ATA->InitBusDrive Failed, Bus: %s, Drive: %s Doesn't Exist!'' [lit ''Primary'', lit ''Master''] @
       message ''ATA->Failed to Initialize Bus: %s, Drive: %s!'' [lit ''Primary'', lit ''Master'']) M = Some M'"
    and "said tmp M
      (bytes_of (text_line ''ATA->InitBusDrive Failed, Bus: Primary, Drive: Master Doesn't Exist!'') @
       bytes_of (text_line ''ATA->Failed to Initialize Bus: Primary, Drive: Master!'')) M'"
    and "heap_inv (mach_kernel M')" and "heap_avail (mach_kernel M') = heap_avail (mach_kernel M)"
proof -
  note L = missing_literals_members(2,3)
  let ?f = "''ATA->InitBusDrive Failed, Bus: %s, Drive: %s Doesn't Exist!''"
  let ?f' = "''ATA->Failed to Initialize Bus: %s, Drive: %s!''"
  let ?g = "\<lambda>p q. bytes_of ''ATA->InitBusDrive Failed, Bus: '' @ p @ bytes_of '', Drive: '' @ q @
    bytes_of (text_line '' Doesn't Exist!'')"
  let ?g' = "\<lambda>p q. bytes_of ''ATA->Failed to Initialize Bus: '' @ p @ bytes_of '', Drive: '' @ q @
    bytes_of (text_line ''!'')"
  have g: "?g (bytes_of ''Primary'') (bytes_of ''Master'') =
      bytes_of (text_line ''ATA->InitBusDrive Failed, Bus: Primary, Drive: Master Doesn't Exist!'')"
    by (simp add: text_line_def bytes_of_def)
  have g': "?g' (bytes_of ''Primary'') (bytes_of ''Master'') =
      bytes_of (text_line ''ATA->Failed to Initialize Bus: Primary, Drive: Master!'')"
    by (simp add: text_line_def bytes_of_def)
  obtain M1 where M1: "say d lit tmp (message ?f [lit ''Primary'', lit ''Master'']) M = Some M1"
    "said tmp M (bytes_of (text_line ''ATA->InitBusDrive Failed, Bus: Primary, Drive: Master Doesn't Exist!'')) M1"
    "ready lit tmp (set missing_literals) M1" "heap_inv (mach_kernel M1)"
    "kernel_client (mach_kernel M1) = kernel_client (mach_kernel M)"
    "heap_avail (mach_kernel M1) = heap_avail (mach_kernel M)"
    by (rule say_drive [where g = "?g", OF r inv low L missing_literals_members(5) missing_formats(2,1), unfolded g])
  have low1: "{..<0xC1000000} \<subseteq> kernel_client (mach_kernel M1)" using low M1(5) by simp
  obtain M2 where M2: "say d lit tmp (message ?f' [lit ''Primary'', lit ''Master'']) M1 = Some M2"
    "said tmp M1 (bytes_of (text_line ''ATA->Failed to Initialize Bus: Primary, Drive: Master!'')) M2"
    "heap_inv (mach_kernel M2)" "heap_avail (mach_kernel M2) = heap_avail (mach_kernel M1)"
    by (rule say_drive [where g = "?g'", OF M1(3,4) low1 L missing_literals_members(6) missing_formats(4,3), unfolded g'])
  show ?thesis
    using M1(1,6) M2 said_trans [OF M1(2) M2(2)] by (intro that [of M2]) (simp_all add: say_append)
qed

section \<open>The start-up\<close>

lemma ATA_start_missing:
  assumes r: "ready lit tmp (set missing_literals) M" and inv: "heap_inv (mach_kernel M)"
    and low: "{..<0xC1000000} \<subseteq> kernel_client (mach_kernel M)" and d: "no_drive d 0x1F0"
  obtains M' where "ATA_start d lit tmp BusPrimary DriveMaster a M =
      Some (False, ATA_set_drive BusPrimary DriveMaster a, M')"
    and "said tmp M missing_text M'" and "heap_inv (mach_kernel M')"
    and "heap_avail (mach_kernel M') = heap_avail (mach_kernel M)"
proof -
  let ?r = "message ''Initializing ATA Interface for Bus: %s, Drive: %s'' [lit ''Primary'', lit ''Master'']"
  let ?g = "\<lambda>p q. bytes_of ''Initializing ATA Interface for Bus: '' @ p @ bytes_of '', Drive: '' @ q @ [0x0A]"
  have g: "?g (bytes_of ''Primary'') (bytes_of ''Master'') = ATA_start_text"
    by (simp add: ATA_start_text_def text_line_def bytes_of_def)
  obtain M1 where M1: "say d lit tmp ?r M = Some M1" "said tmp M ATA_start_text M1"
    "ready lit tmp (set missing_literals) M1" "heap_inv (mach_kernel M1)"
    "kernel_client (mach_kernel M1) = kernel_client (mach_kernel M)"
    "heap_avail (mach_kernel M1) = heap_avail (mach_kernel M)"
    by (rule say_drive [where g = "?g", OF r inv low missing_literals_members(2-4) disk_formats(2,1), unfolded g])
  let ?a = "ATA_set_drive BusPrimary DriveMaster a"
  obtain t where t: "ATA_Init d BusPrimary DriveMaster a (mach_kernel M1, mach_ports M1) = Some (False, ?a, mach_kernel M1, t)"
    "\<forall>p ini. disk_after p ini t = disk_after p ini (mach_ports M1)"
    by (rule no_drive_Init [OF d])
  let ?M2 = "M1\<lparr>mach_ports := t\<rparr>"
  have said2: "said tmp M1 [] ?M2"
    using M1(3) t(2) by (intro said_nothing) (auto simp: ready_def)
  have r2: "ready lit tmp (set missing_literals) ?M2" by (rule said_ready [OF said2 M1(3)])
  have low2: "{..<0xC1000000} \<subseteq> kernel_client (mach_kernel ?M2)" using low M1(5) by simp
  have inv2: "heap_inv (mach_kernel ?M2)" using M1(4) by simp
  obtain M3 where M3: "say d lit tmp
      (message ''ATA->InitBusDrive Failed, Bus: %s, Drive: %s Doesn't Exist!'' [lit ''Primary'', lit ''Master''] @
       message ''ATA->Failed to Initialize Bus: %s, Drive: %s!'' [lit ''Primary'', lit ''Master'']) ?M2 = Some M3"
    "said tmp ?M2
      (bytes_of (text_line ''ATA->InitBusDrive Failed, Bus: Primary, Drive: Master Doesn't Exist!'') @
       bytes_of (text_line ''ATA->Failed to Initialize Bus: Primary, Drive: Master!'')) M3"
    "heap_inv (mach_kernel M3)" "heap_avail (mach_kernel M3) = heap_avail (mach_kernel ?M2)"
    by (rule missing_messages [OF r2 inv2 low2, of d])
  have names: "m_Bus ?a = BusPrimary" "m_Drive ?a = DriveMaster" by (simp_all add: ATA_set_drive_def)
  have "ATA_start d lit tmp BusPrimary DriveMaster a M = Some (False, ?a, M3)"
    using M1(1) t(1) M3(1) no_drive_report [OF d]
    by (simp add: ATA_start_def ATA_message_def names ATABusStr_def ATADriveStr_def)
  moreover have "said tmp M missing_text M3"
    using said_trans [OF said_trans [OF M1(2) said2] M3(2)] by (simp add: missing_text_def)
  ultimately show ?thesis using M3(3,4) M1(6) by (intro that [of M3]) simp_all
qed

section \<open>Properties\<close>

text \<open>
  C33: On a PC with the layout of the linker script, enough memory and a display, but no drive on the primary
  bus, \<^verbatim>\<open>InitKernel\<close> gets as far as the disk, shows the messages of the start-up and the two that the drive is
  missing, and allocates the buffer; then it polls the missing drive, and no \<^verbatim>\<open>Poll\<close> of it ever returns, so
  \<^verbatim>\<open>InitKernel\<close> does not return either, without a panic or a further message.
\<close>

theorem missing_drive_hangs_start_up:
  assumes "boot_layout bi" and "boot_memory bi (g_KernelPMM (managers M))" and "kernel_objects (managers M)"
    and "length (s_GDT (mach_cpu M)) = 5" and "length (s_IDT (mach_cpu M)) = 256"
    and "literals_in lit tmp (k_bytes (mach_kernel M)) (set missing_literals)" and "no_drive d 0x1F0"
  shows "\<exists>M1 M2 a g out buff k. InitKernel d sy lit tmp bi ata M = InitKernel_disk d lit tmp ata M1 \<and>
    report_text (\<lambda>_. []) (boot_report bi M) = Some out \<and>
    ATA_start d lit tmp BusPrimary DriveMaster ata M1 = Some (False, a, M2) \<and>
    terminal_of (console_view M2) = terminal_string LightBrown (out @ missing_text) (cleared LightBrown 2000 g, 0, 1) \<and>
    operator_new_array 512 (mach_kernel M2) = Some (buff, k) \<and> (\<forall>t. ATA_Poll d a t = None) \<and>
    InitKernel d sy lit tmp bi ata M = None"
proof -
  note lits = literals_in_subset [OF assms(6) missing_literals_members(1)]
  obtain M1 g out where M1: "InitKernel d sy lit tmp bi ata M = InitKernel_disk d lit tmp ata M1"
    "report_text (\<lambda>_. []) (boot_report bi M) = Some out" "console_wf (console_view M1)"
    "terminal_of (console_view M1) = terminal_string LightBrown out (cleared LightBrown 2000 g, 0, 1)"
    "s_Color (console_view M1) = LightBrown" "ready lit tmp (set start_literals) M1"
    "fresh_kernel_heap (mach_kernel M1)"
    "same_bytes (low_bytes tmp) (k_bytes (mach_kernel M)) (k_bytes (mach_kernel M1))"
    by (rule InitKernel_until_disk [OF assms(1-5) lits, of d sy ata])
  have r: "ready lit tmp (set missing_literals) M1"
    using M1(3) literals_in_same [OF assms(6) M1(8)] by (simp add: ready_def)
  note heap = fresh_kernel_heap_facts [OF M1(7)]
  let ?a = "ATA_set_drive BusPrimary DriveMaster ata"
  obtain M2 where M2: "ATA_start d lit tmp BusPrimary DriveMaster ata M1 = Some (False, ?a, M2)"
    "said tmp M1 missing_text M2" "heap_inv (mach_kernel M2)" "heap_avail (mach_kernel M2) = heap_avail (mach_kernel M1)"
    by (rule ATA_start_missing [OF r heap(1,2) assms(7)])
  have "heap_room 512 (mach_kernel M2)" by (rule kb.avail_room [OF M2(3)]) (use M2(4) heap(3) in simp)
  moreover have "(512 :: u32) \<noteq> 0" by simp
  ultimately obtain buff k where new: "operator_new_array 512 (mach_kernel M2) = Some (buff, k)"
    using kh.alloc_law [OF M2(3)] unfolding operator_new_array_def by metis
  have port: "no_drive d (m_BusPort ?a)" using assms(7) by (simp add: ATA_set_drive_def)
  have "InitKernel_disk d lit tmp ata M1 = None"
    using M2(1) new no_drive_Read28 [OF port] by (simp add: InitKernel_disk_def ATA_Read28_said_def)
  moreover have "terminal_of (console_view M2) =
      terminal_string LightBrown (out @ missing_text) (cleared LightBrown 2000 g, 0, 1)"
    using M1(4,5) M2(2) by (simp add: said_def terminal_string_append)
  ultimately show ?thesis using M1(1,2) M2(1) new no_drive_Poll [OF port] by (metis (no_types))
qed

text \<open>The PC of the witnesses without a drive: every port reads 0.\<close>

definition no_device :: device where
  "no_device = \<lparr>dev_in8 = (\<lambda>t p. 0), dev_in16 = (\<lambda>t p. 0), dev_in32 = (\<lambda>t p. 0)\<rparr>"

definition machine_diskless :: machine where
  "machine_diskless = machine_128\<lparr>mach_kernel := kernel_0\<lparr>k_bytes := literal_memory missing_literals\<rparr>\<rparr>"

lemma missing_literals_short:
  "length missing_literals \<le> 32" "\<forall>s\<in>set missing_literals. length s < 256 \<and> 0 \<notin> set (bytes_of s)"
proof -
  show "length missing_literals \<le> 32" using start_literals_short(1) by (simp add: missing_literals_def)
  show "\<forall>s\<in>set missing_literals. length s < 256 \<and> 0 \<notin> set (bytes_of s)"
    using start_literals_short(2) by (simp add: missing_literals_def text_line_def bytes_of_def)
qed

theorem missing_drive_hangs_start_up_witness:
  "InitKernel no_device symbols_0 (literal_address missing_literals) 0x8000 boot_128 ata_0 machine_diskless = None"
proof -
  have k: "managers machine_diskless = k_managers kernel_0" by (simp add: machine_diskless_def)
  have mem: "boot_memory boot_128 (g_KernelPMM (managers machine_diskless))" "kernel_objects (managers machine_diskless)"
    unfolding k by (rule boot_128_memory, rule kernel_0_objects)
  have tables: "length (s_GDT (mach_cpu machine_diskless)) = 5" "length (s_IDT (mach_cpu machine_diskless)) = 256"
    by (simp_all add: machine_diskless_def machine_128_def processor_0_def)
  have lits: "literals_in (literal_address missing_literals) 0x8000 (k_bytes (mach_kernel machine_diskless))
      (set missing_literals)"
    using literal_memory_in [OF missing_literals_short] by (simp add: machine_diskless_def)
  have dev: "no_drive no_device 0x1F0" by (simp add: no_drive_def no_device_def)
  from missing_drive_hangs_start_up [OF boot_128_layout mem tables lits dev, of symbols_0 ata_0]
  show ?thesis by blast
qed

end
