(* ===== verification/DriverMessages.thy ===== *)
theory DriverMessages
  imports Startup
begin

text \<open>
  The operations with messages that the start-up does not call: \<^verbatim>\<open>ATA::Write28\<close> and \<^verbatim>\<open>PIC8259::Shutdown\<close>. A write
  has two ways to fail, in \<^verbatim>\<open>Poll\<close> and in \<^verbatim>\<open>CacheFlush\<close>, and each says which of the two it was.
\<close>

section \<open>Writing sectors\<close>

definition ATA_WriteSector28_report ::
  "device \<Rightarrow> (string \<Rightarrow> u32) \<Rightarrow> ata \<Rightarrow> u32 \<Rightarrow> u32 \<Rightarrow> mem \<times> port_trace \<Rightarrow> report" where
  "ATA_WriteSector28_report d lit a buf lba = (\<lambda>(m, t).
     case ATA_Poll d a (ATA_select28 a lba ATA_COMMAND_WRITE_PIO t) of
       None \<Rightarrow> []
     | Some (ok, t1) \<Rightarrow>
         (if \<not> ok then ATA_message lit ''ATA->Poll Failed, Bus: %s, Drive: %s Has Error!'' a
          else let (ptr, t2) = for_range 0 256 (\<lambda>_. WriteSector28_word a m) (buf, t1)
               in case ATA_CacheFlush d a t2 of
                    None \<Rightarrow> []
                  | Some (flushed, t3) \<Rightarrow>
                      (if \<not> flushed then ATA_message lit ''ATA->CacheFlush Failed, Bus: %s, Drive: %s Has Error!'' a
                       else [])))"

text \<open>What the loop over the sectors prints: the sectors are those of \<open>sector_loop\<close>.\<close>

primrec sector_loop_report ::
  "nat \<Rightarrow> (u32 \<Rightarrow> u32 \<Rightarrow> 's \<Rightarrow> (int \<times> 's) option) \<Rightarrow> (u32 \<Rightarrow> u32 \<Rightarrow> 's \<Rightarrow> report) \<Rightarrow> u32 \<Rightarrow> u32 \<Rightarrow> u32 \<Rightarrow> 's \<Rightarrow> report" where
  "sector_loop_report 0 sector rep step ptr lba s = []"
| "sector_loop_report (Suc n) sector rep step ptr lba s = rep ptr lba s @
     (case sector ptr lba s of
        None \<Rightarrow> []
      | Some (r, s1) \<Rightarrow> if r \<noteq> 0 then [] else sector_loop_report n sector rep step (ptr + step) (lba + 1) s1)"

definition ATA_Write28_report ::
  "device \<Rightarrow> (string \<Rightarrow> u32) \<Rightarrow> ata \<Rightarrow> u32 \<Rightarrow> u32 \<Rightarrow> u32 \<Rightarrow> mem \<times> port_trace \<Rightarrow> report" where
  "ATA_Write28_report d lit a buf sectorCount lba =
     sector_loop_report (unat sectorCount) (ATA_WriteSector28 d a) (ATA_WriteSector28_report d lit a) (m_SectorSize a) buf lba"

definition ATA_Write28_said ::
  "device \<Rightarrow> (string \<Rightarrow> u32) \<Rightarrow> u32 \<Rightarrow> ata \<Rightarrow> u32 \<Rightarrow> u32 \<Rightarrow> u32 \<Rightarrow> machine \<Rightarrow> (int \<times> machine) option" where
  "ATA_Write28_said d lit tmp a buf sectorCount lba M =
     (let s = (k_bytes (mach_kernel M), mach_ports M) in do {
        (r, m, t) \<leftarrow> ATA_Write28 d a buf sectorCount lba s;
        map_option (Pair r) (say d lit tmp (ATA_Write28_report d lit a buf sectorCount lba s) (M\<lparr>mach_ports := t\<rparr>))
      })"

text \<open>A sector is silent exactly when it is written; it never changes memory.\<close>

lemma WriteSector28_report:
  assumes "ATA_WriteSector28 d a buf lba s = Some (r, s')"
  shows "fst s' = fst s" and "r = 0 \<longleftrightarrow> ATA_WriteSector28_report d lit a buf lba s = []" and "r = 0 \<or> r = - 1"
    and "r \<noteq> 0 \<longrightarrow> ATA_WriteSector28_report d lit a buf lba s \<in>
      {ATA_message lit ''ATA->Poll Failed, Bus: %s, Drive: %s Has Error!'' a,
       ATA_message lit ''ATA->CacheFlush Failed, Bus: %s, Drive: %s Has Error!'' a}"
  using assms
  by (auto simp: ATA_WriteSector28_def ATA_WriteSector28_report_def split_beta bind_eq_Some_conv Let_def
      ATA_message_def message_def split: if_splits)

lemma sector_loop_reported:
  assumes "sector_loop n sector step ptr lba result s = Some (r, s')"
    and "\<And>ptr lba s r s'. sector ptr lba s = Some (r, s') \<Longrightarrow> (r = 0 \<longleftrightarrow> rep ptr lba s = []) \<and> (r \<noteq> 0 \<longrightarrow> rep ptr lba s \<in> R)"
  shows "sector_loop_report n sector rep step ptr lba s = [] \<and> r = result \<or>
    sector_loop_report n sector rep step ptr lba s \<in> R \<and> r = - 1"
  using assms(1)
proof (induction n arbitrary: ptr lba s)
  case (Suc n)
  then obtain r1 s1 where one: "sector ptr lba s = Some (r1, s1)"
    "(if r1 \<noteq> 0 then Some (- 1, s1) else sector_loop n sector step (ptr + step) (lba + 1) result s1) = Some (r, s')"
    by (auto simp: bind_eq_Some_conv)
  show ?case
    using assms(2) [OF one(1)] one Suc.IH [of "ptr + step" "lba + 1" s1] by (cases "r1 = 0") auto
qed simp

lemma sector_loop_memory:
  assumes "sector_loop n sector step ptr lba result s = Some (r, s')"
    and "\<And>ptr lba s r s'. sector ptr lba s = Some (r, s') \<Longrightarrow> fst s' = fst s"
  shows "fst s' = fst s"
  using assms(1)
proof (induction n arbitrary: ptr lba s)
  case (Suc n)
  then obtain r1 s1 where one: "sector ptr lba s = Some (r1, s1)"
    "(if r1 \<noteq> 0 then Some (- 1, s1) else sector_loop n sector step (ptr + step) (lba + 1) result s1) = Some (r, s')"
    by (auto simp: bind_eq_Some_conv)
  show ?case
    using assms(2) [OF one(1)] one(2) Suc.IH [of "ptr + step" "lba + 1" s1] by (cases "r1 = 0") auto
qed simp

text \<open>
  \<^verbatim>\<open>Write28\<close> changes no memory. It prints nothing when every sector is written; otherwise it returns -1
  and prints one line, for the step of the first sector that failed.
\<close>

lemma Write28_reported:
  assumes "ATA_Write28 d a buf sectorCount lba s = Some (r, m, t)"
  shows "m = fst s"
    and "ATA_Write28_report d lit a buf sectorCount lba s = [] \<and> r = sint (sectorCount * m_SectorSize a) \<or>
      ATA_Write28_report d lit a buf sectorCount lba s \<in>
        {ATA_message lit ''ATA->Poll Failed, Bus: %s, Drive: %s Has Error!'' a,
         ATA_message lit ''ATA->CacheFlush Failed, Bus: %s, Drive: %s Has Error!'' a} \<and> r = - 1"
proof -
  note run = assms [unfolded ATA_Write28_def]
  show "m = fst s"
    using sector_loop_memory [OF run] WriteSector28_report(1) [of d a] by fastforce
  show "ATA_Write28_report d lit a buf sectorCount lba s = [] \<and> r = sint (sectorCount * m_SectorSize a) \<or>
      ATA_Write28_report d lit a buf sectorCount lba s \<in>
        {ATA_message lit ''ATA->Poll Failed, Bus: %s, Drive: %s Has Error!'' a,
         ATA_message lit ''ATA->CacheFlush Failed, Bus: %s, Drive: %s Has Error!'' a} \<and> r = - 1"
    unfolding ATA_Write28_report_def
    by (rule sector_loop_reported [OF run]) (use WriteSector28_report(2,4) [of d a] in blast)
qed

section \<open>The interrupt controller\<close>

definition PIC8259_Shutdown_said ::
  "device \<Rightarrow> (string \<Rightarrow> u32) \<Rightarrow> u32 \<Rightarrow> machine \<Rightarrow> machine option" where
  "PIC8259_Shutdown_said d lit tmp M = do {
     M1 \<leftarrow> say d lit tmp (message ''PIC8259 Shutting Down...'' []) M;
     Some (M1\<lparr>mach_ports := PIC8259_Shutdown (mach_ports M1)\<rparr>)
   }"

lemma PIC8259_Shutdown_said_ok:
  assumes "ready lit tmp S M" and "text_line ''PIC8259 Shutting Down...'' \<in> S"
  obtains M' where "PIC8259_Shutdown_said d lit tmp M = Some M'"
    and "reported tmp M (message ''PIC8259 Shutting Down...'' []) M'" and "managers M' = managers M"
proof -
  have lits: "fst ` set (message ''PIC8259 Shutting Down...'' []) \<subseteq> S" using assms(2) by (simp add: message_def)
  have full: "complete_report (message ''PIC8259 Shutting Down...'' [])" by (simp add: complete_defs)
  obtain M1 where M1: "say d lit tmp (message ''PIC8259 Shutting Down...'' []) M = Some M1"
    "reported tmp M (message ''PIC8259 Shutting Down...'' []) M1" "ready lit tmp S M1" "managers M1 = managers M"
    by (rule say_reported [OF assms(1) full lits, of d])
  have "disk_after p ini (PIC8259_Shutdown (mach_ports M1)) = disk_after p ini (mach_ports M1)" for p ini
    by (simp add: PIC8259_Shutdown_def)
  then have "said tmp M1 [] (M1\<lparr>mach_ports := PIC8259_Shutdown (mach_ports M1)\<rparr>)"
    using M1(3) by (intro said_nothing) (simp_all add: ready_def)
  from reported_then [OF M1(2) this] show ?thesis
    using M1(1,4) by (intro that [of "M1\<lparr>mach_ports := PIC8259_Shutdown (mach_ports M1)\<rparr>"])
      (simp_all add: PIC8259_Shutdown_said_def)
qed

end
