(* ===== verification/EstdString.thy ===== *)
theory EstdString
  imports KMalloc TypeConverter "HOL-Library.Sublist"
begin

text \<open>
  \<^verbatim>\<open>Kernel/ESTD/String.{h,cpp}\<close> and \<^verbatim>\<open>Kernel/ESTD/StringUtil.{h,cpp}\<close>: strings on the heap. An object is its
  two members; an operation returns the objects it changes and the state of the kernel. What a caller has to
  destroy, the temporary objects of an expression, is written out where the code creates them. \<open>None\<close> is a
  string without terminator or a heap whose walk does not end.
\<close>

section \<open>Operations\<close>

record estd_string =
  m_Data :: u32
  m_Size :: u32

definition String_default :: estd_string where
  "String_default = \<lparr>m_Data = 0, m_Size = 0\<rparr>"

definition String_destroy :: "estd_string \<Rightarrow> kernel_state \<Rightarrow> kernel_state" where
  "String_destroy s k = (if m_Data s \<noteq> 0 then operator_delete_array (m_Data s) k else k)"

definition String_new :: "u32 \<Rightarrow> kernel_state \<Rightarrow> (estd_string \<times> kernel_state) option" where
  "String_new str k = do {
     (d, k1) \<leftarrow> Strdup str k;
     n \<leftarrow> Strlen (k_bytes k1) str;
     Some (\<lparr>m_Data = d, m_Size = n\<rparr>, k1)
   }"

definition String_new_sized :: "u32 \<Rightarrow> u32 \<Rightarrow> kernel_state \<Rightarrow> (estd_string \<times> kernel_state) option" where
  "String_new_sized str n k = do { (d, k1) \<leftarrow> Strndup str n k; Some (\<lparr>m_Data = d, m_Size = n\<rparr>, k1) }"

definition String_fill :: "u32 \<Rightarrow> u8 \<Rightarrow> kernel_state \<Rightarrow> (estd_string \<times> kernel_state) option" where
  "String_fill n ch k = do {
     (d, k1) \<leftarrow> operator_new_array n k;
     Some (\<lparr>m_Data = d, m_Size = n\<rparr>, k1\<lparr>k_bytes := Memset d (scast ch) n (k_bytes k1)\<rparr>)
   }"

definition String_copy :: "estd_string \<Rightarrow> kernel_state \<Rightarrow> (estd_string \<times> kernel_state) option" where
  "String_copy rhs k = do { (d, k1) \<leftarrow> Strdup (m_Data rhs) k; Some (\<lparr>m_Data = d, m_Size = m_Size rhs\<rparr>, k1) }"

text \<open>Moving returns the new object and the one moved from, which keeps its size.\<close>

definition String_move :: "estd_string \<Rightarrow> estd_string \<times> estd_string" where
  "String_move rhs = (\<lparr>m_Data = m_Data rhs, m_Size = m_Size rhs\<rparr>, rhs\<lparr>m_Data := 0\<rparr>)"

text \<open>Both assignments drop the pointer that the left side had.\<close>

definition String_assign :: "estd_string \<Rightarrow> estd_string \<Rightarrow> kernel_state \<Rightarrow> (estd_string \<times> kernel_state) option" where
  "String_assign this rhs k = do {
     (d, k1) \<leftarrow> Strdup (m_Data rhs) k;
     Some (this\<lparr>m_Data := d, m_Size := m_Size rhs\<rparr>, k1)
   }"

definition String_assign_move :: "estd_string \<Rightarrow> estd_string \<Rightarrow> estd_string \<times> estd_string" where
  "String_assign_move this rhs = (this\<lparr>m_Data := m_Data rhs, m_Size := m_Size rhs\<rparr>, rhs\<lparr>m_Data := 0\<rparr>)"

definition String_eq :: "estd_string \<Rightarrow> estd_string \<Rightarrow> mem \<Rightarrow> bool" where
  "String_eq this rhs m \<longleftrightarrow> Strncmp m (m_Data this) (m_Data rhs) (m_Size this) = 0"

definition String_neq :: "estd_string \<Rightarrow> estd_string \<Rightarrow> mem \<Rightarrow> bool" where
  "String_neq this rhs m \<longleftrightarrow> Strncmp m (m_Data this) (m_Data rhs) (m_Size this) \<noteq> 0"

text \<open>The sums return a copy of the buffer they fill; nobody frees the buffer.\<close>

definition String_plus :: "estd_string \<Rightarrow> estd_string \<Rightarrow> kernel_state \<Rightarrow> (estd_string \<times> kernel_state) option" where
  "String_plus this rhs k =
     (let n = m_Size this + m_Size rhs + 1 in do {
        (buf, k1) \<leftarrow> operator_new_array n k;
        (let m1 = Memcpy buf (m_Data this) (m_Size this) (k_bytes k1);
             m2 = Memcpy (buf + m_Size this) (m_Data rhs) (m_Size rhs) m1
         in String_new buf (k1\<lparr>k_bytes := m2(buf + (n - 1) := 0)\<rparr>))
      })"

definition String_plus_char :: "estd_string \<Rightarrow> u8 \<Rightarrow> kernel_state \<Rightarrow> (estd_string \<times> kernel_state) option" where
  "String_plus_char this rhs k =
     (let n = m_Size this + 2 in do {
        (buf, k1) \<leftarrow> operator_new_array n k;
        (let m1 = Memcpy buf (m_Data this) (m_Size this) (k_bytes k1);
             m2 = m1(buf + (n - 2) := rhs)
         in String_new buf (k1\<lparr>k_bytes := m2(buf + (n - 1) := 0)\<rparr>))
      })"

definition String_plus_assign ::
  "estd_string \<Rightarrow> estd_string \<Rightarrow> kernel_state \<Rightarrow> (estd_string \<times> kernel_state) option" where
  "String_plus_assign this rhs k = do {
     (sum, k1) \<leftarrow> String_plus this rhs k;
     (let (this, sum) = String_assign_move this sum in Some (this, String_destroy sum k1))
   }"

definition String_plus_assign_char ::
  "estd_string \<Rightarrow> u8 \<Rightarrow> kernel_state \<Rightarrow> (estd_string \<times> kernel_state) option" where
  "String_plus_assign_char this rhs k = do {
     (sum, k1) \<leftarrow> String_plus_char this rhs k;
     (let (this, sum) = String_assign_move this sum in Some (this, String_destroy sum k1))
   }"

definition String_Data :: "estd_string \<Rightarrow> u32" where
  "String_Data this = m_Data this"

definition String_Size :: "estd_string \<Rightarrow> u32" where
  "String_Size this = m_Size this"

definition String_Empty :: "estd_string \<Rightarrow> bool" where
  "String_Empty this \<longleftrightarrow> m_Size this = 0"

text \<open>\<^verbatim>\<open>Substr\<close> writes the terminator behind the block it allocates.\<close>

definition String_Substr ::
  "estd_string \<Rightarrow> u32 \<Rightarrow> u32 \<Rightarrow> kernel_state \<Rightarrow> (estd_string \<times> kernel_state) option" where
  "String_Substr this pos n k = do {
     (buf, k1) \<leftarrow> operator_new_array n k;
     (let m1 = Memcpy buf (m_Data this + pos) n (k_bytes k1)
      in String_new buf (k1\<lparr>k_bytes := m1(buf + n := 0)\<rparr>))
   }"

definition String_NPOS :: u32 where
  "String_NPOS = - 1"

function Find_loop :: "estd_string \<Rightarrow> u8 \<Rightarrow> mem \<Rightarrow> u32 \<Rightarrow> u32" where
  "Find_loop this ch m i =
     (if i < m_Size this then if m (m_Data this + i) = ch then i else Find_loop this ch m (i + 1) else String_NPOS)"
  by pat_completeness auto
termination
  by (relation "measure (\<lambda>(this, ch, m, i). unat (m_Size this) - unat i)") (auto simp: unat_inc word_less_nat_alt)

declare Find_loop.simps [simp del]

definition String_Find :: "estd_string \<Rightarrow> u8 \<Rightarrow> u32 \<Rightarrow> mem \<Rightarrow> u32" where
  "String_Find this ch pos m = Find_loop this ch m pos"

text \<open>
  \<^verbatim>\<open>ToString\<close> makes the text in a local buffer, at \<open>buf\<close>, but passes the result of \<^verbatim>\<open>IntToStr\<close>, a status, to
  the constructor that takes a size.
\<close>

definition StringUtil_ToString :: "u32 \<Rightarrow> u32 \<Rightarrow> kernel_state \<Rightarrow> (estd_string \<times> kernel_state) option" where
  "StringUtil_ToString buf num k = do {
     (r, m) \<leftarrow> IntToStr num buf 20 10 (k_bytes k);
     String_fill (of_int r) 0 (k\<lparr>k_bytes := m\<rparr>)
   }"

section \<open>Strings as lists\<close>

text \<open>
  The object stands for the text \<open>t\<close>: its size is the length of the text, and its data is a terminated copy
  of it in the clients' memory; the null pointer stands for the empty text.
\<close>

definition string_val :: "kernel_state \<Rightarrow> estd_string \<Rightarrow> u8 list \<Rightarrow> bool" where
  "string_val k s t \<longleftrightarrow> unat (m_Size s) = length t \<and>
     (m_Data s = 0 \<and> t = [] \<or> m_Data s \<noteq> 0 \<and> c_string (k_bytes k) (m_Data s) t \<and>
        string_bytes (m_Data s) t \<subseteq> kernel_client k)"

lemma string_val_default: "string_val k String_default []"
  by (simp add: string_val_def String_default_def)

lemma string_val_nonzero: "string_val k s t \<Longrightarrow> 0 \<notin> set t"
  using c_string_nonzero by (auto simp: string_val_def)

lemma string_val_grown: "string_val k s t \<Longrightarrow> kb.grown k n k' \<Longrightarrow> string_val k' s t"
  unfolding string_val_def kb.grown_def using c_string_same same_bytes_mono by blast

lemma string_val_bytes:
  assumes "string_val k s t" and "i < length t"
  shows "k_bytes k (m_Data s + of_nat i) = t ! i" and "unat (m_Data s) + length t < 4294967296"
    and "{unat (m_Data s)..<unat (m_Data s) + length t} \<subseteq> kernel_client k"
proof -
  have c: "c_string (k_bytes k) (m_Data s) t" "string_bytes (m_Data s) t \<subseteq> kernel_client k"
    using assms by (auto simp: string_val_def)
  then show "k_bytes k (m_Data s + of_nat i) = t ! i" using assms(2) by (simp add: c_string_iff)
  have "unat (m_Data s) + length t \<in> string_bytes (m_Data s) t" by (simp add: string_bytes_def)
  then show "unat (m_Data s) + length t < 4294967296" using c(2) kernel_client_range [of k] by blast
  show "{unat (m_Data s)..<unat (m_Data s) + length t} \<subseteq> kernel_client k"
    using c(2) by (auto simp: string_bytes_def)
qed

lemma heap_avail_small: "heap_avail k < 4294967296"
  using unat_lt_2p32 [of "m_EndAddress (g_KernelHeap k)"] unfolding heap_avail_def by linarith

lemma Strdup_avail:
  assumes "Strdup p k = Some (d, k')" and "heap_inv k" and "c_string (k_bytes k) p t"
    and "length t + 14 \<le> heap_avail k"
  shows "heap_avail k \<le> heap_avail k' + (length t + 14)"
proof -
  let ?n = "of_nat (length t) + 1 :: u32"
  have n: "unat ?n = length t + 1"
    using assms(4) heap_avail_small [of k] by (simp add: unat_of_nat32 unat_add_no_wrap)
  then have "?n \<noteq> 0" by auto
  moreover have "heap_room ?n k" using kb.avail_room [OF assms(2), of ?n] n assms(4) by simp
  moreover obtain k1 m where "KMalloc ?n k = Some (d, k1)" "k' = k1\<lparr>k_bytes := m\<rparr>"
    using assms(1) Strlen_eq [OF assms(3)]
    by (auto simp: Strdup_def Let_def operator_new_array_def split: bind_splits prod.splits)
  ultimately show ?thesis using KMalloc_avail [OF assms(2)] n kb.write_avail by fastforce
qed

lemma String_new_ok:
  assumes inv: "heap_inv k" and str: "c_string (k_bytes k) p t" and mine: "string_bytes p t \<subseteq> kernel_client k"
    and room: "length t + 14 \<le> heap_avail k"
  obtains s k' where "String_new p k = Some (s, k')" and "kb.grown k (length t + 14) k'" and "string_val k' s t"
    and "m_Data s \<noteq> 0" and "string_bytes (m_Data s) t \<inter> kernel_client k = {}" and "unat (m_Data s) \<in> kernel_blocks k'"
proof -
  let ?n = "of_nat (length t) + 1 :: u32"
  have len: "unat (of_nat (length t) :: u32) = length t" "unat ?n = length t + 1"
    using room heap_avail_small [of k] by (simp_all add: unat_of_nat32 unat_add_no_wrap)
  have "heap_room ?n k" using kb.avail_room [OF inv, of ?n] len room by simp
  then obtain d k' where D: "Strdup p k = Some (d, k')" "d \<noteq> 0" "heap_inv k'" "c_string (k_bytes k') d t"
    "kernel_client k \<inter> block_of d ?n = {}" "kernel_client k \<union> block_of d ?n \<subseteq> kernel_client k'"
    "same_bytes (kernel_client k) (k_bytes k) (k_bytes k')" "insert (unat d) (kernel_blocks k) \<subseteq> kernel_blocks k'"
    by (rule Strdup_ok [OF inv str mine])
  have blk: "block_of d ?n = string_bytes d t" by (simp only: block_of_def string_bytes_def len add.assoc)
  have "c_string (k_bytes k') p t" by (rule c_string_same [OF str same_bytes_mono [OF D(7) mine]])
  then have "String_new p k = Some (\<lparr>m_Data = d, m_Size = of_nat (length t)\<rparr>, k')"
    using D(1) Strlen_eq by (simp add: String_new_def)
  moreover have "kb.grown k (length t + 14) k'"
    using D Strdup_avail [OF D(1) inv str room] by (simp add: kb.grown_def)
  moreover have "string_val k' \<lparr>m_Data = d, m_Size = of_nat (length t)\<rparr> t"
    using D len blk by (simp add: string_val_def)
  ultimately show ?thesis using that D(2,5,8) blk by auto
qed

text \<open>
  The pattern of the sums: allocate a buffer, fill it with a text, a terminator and what is left of it,
  and return a copy of the text.
\<close>

lemma buffer_copy:
  assumes inv: "heap_inv k" and t: "0 \<notin> set t" and n: "unat n = length t + 1 + length r"
    and room: "length t + 1 + length r + 13 + (length t + 14) \<le> heap_avail k"
    and fill: "\<And>a m. unat a + unat n < 4294967296 \<Longrightarrow> kernel_client k \<inter> {unat a..<unat a + unat n} = {} \<Longrightarrow>
      same_bytes (kernel_client k) (k_bytes k) m \<Longrightarrow> f a m = write_list a (t @ 0 # r) m"
  obtains s k' where "Option.bind (operator_new_array n k) (\<lambda>(buf, k1).
      String_new buf (k1\<lparr>k_bytes := f buf (k_bytes k1)\<rparr>)) = Some (s, k')"
    and "kb.grown k (2 * length t + length r + 28) k'" and "string_val k' s t" and "m_Data s \<noteq> 0"
    and "string_bytes (m_Data s) t \<inter> kernel_client k = {}" and "unat (m_Data s) \<in> kernel_blocks k'"
proof -
  let ?l = "t @ 0 # r"
  have l: "unat n = length ?l" "?l \<noteq> []" "length ?l + 13 \<le> heap_avail k" using n room by simp_all
  from kb.alloc_list [OF inv l] obtain a k1 where A: "KMalloc n k = Some (a, k1)" "a \<noteq> 0"
    "unat a + length ?l < 4294967296" "kernel_client k \<inter> {unat a..<unat a + length ?l} = {}"
    "same_bytes (kernel_client k) (k_bytes k) (k_bytes k1)"
    "kb.grown k (length ?l + 13) (k1\<lparr>k_bytes := write_list a ?l (k_bytes k1)\<rparr>)"
    "{unat a..<unat a + length ?l} \<subseteq> kernel_client (k1\<lparr>k_bytes := write_list a ?l (k_bytes k1)\<rparr>)"
    by metis
  let ?k2 = "k1\<lparr>k_bytes := write_list a ?l (k_bytes k1)\<rparr>"
  have f: "f a (k_bytes k1) = write_list a ?l (k_bytes k1)"
    using fill [of a "k_bytes k1"] A(3-5) l(1) by simp
  have inv2: "heap_inv ?k2" using A(6) by (simp add: kb.grown_def)
  have str: "c_string (k_bytes ?k2) a t" using write_list_string [OF t] A(3) by simp
  have mine: "string_bytes a t \<subseteq> kernel_client ?k2"
    using A(7) by (rule subset_trans [rotated]) (auto simp: string_bytes_def)
  have "length t + 14 \<le> heap_avail ?k2" using A(6) room by (simp add: kb.grown_def)
  then obtain s k' where S: "String_new a ?k2 = Some (s, k')" "kb.grown ?k2 (length t + 14) k'" "string_val k' s t"
    "m_Data s \<noteq> 0" "string_bytes (m_Data s) t \<inter> kernel_client ?k2 = {}" "unat (m_Data s) \<in> kernel_blocks k'"
    by (rule String_new_ok [OF inv2 str mine])
  have "kb.grown k (2 * length t + length r + 28) k'"
    using kb.grown_mono [OF kb.grown_trans [OF A(6) S(2)]] by simp
  moreover have "string_bytes (m_Data s) t \<inter> kernel_client k = {}"
    using S(5) A(6) unfolding kb.grown_def by blast
  ultimately show ?thesis using A(1) f S(1,3,4,6) by (intro that) (simp_all add: operator_new_array_def)
qed

lemma string_val_size: "string_val k s t \<Longrightarrow> m_Size s = of_nat (length t)"
proof -
  assume "string_val k s t"
  then have "unat (m_Size s) = length t" by (simp add: string_val_def)
  moreover have "m_Size s = of_nat (unat (m_Size s))" by simp
  ultimately show ?thesis by simp
qed

text \<open>
  What the copying operations rely on: the object has bytes, as many as its size, and they need not be a
  text. Copying them into a block that is not the clients' writes exactly them.
\<close>

definition string_raw :: "kernel_state \<Rightarrow> estd_string \<Rightarrow> u8 list \<Rightarrow> bool" where
  "string_raw k s t \<longleftrightarrow> unat (m_Size s) = length t \<and>
     (t \<noteq> [] \<longrightarrow> unat (m_Data s) + length t < 4294967296 \<and>
       {unat (m_Data s)..<unat (m_Data s) + length t} \<subseteq> kernel_client k \<and>
       (\<forall>i<length t. k_bytes k (m_Data s + of_nat i) = t ! i))"

lemma string_raw_size: "string_raw k s t \<Longrightarrow> m_Size s = of_nat (length t)"
proof -
  assume "string_raw k s t"
  then have "unat (m_Size s) = length t" by (simp add: string_raw_def)
  moreover have "m_Size s = of_nat (unat (m_Size s))" by simp
  ultimately show ?thesis by simp
qed

lemma string_val_raw:
  assumes "string_val k s t"
  shows "string_raw k s t"
proof (cases "t = []")
  case False
  then show ?thesis
    using assms string_val_bytes(2,3) [OF assms, of 0] string_val_bytes(1) [OF assms]
    by (simp add: string_raw_def string_val_def)
qed (use assms in \<open>simp add: string_raw_def string_val_def\<close>)

lemma Memcpy_raw:
  assumes s: "string_raw k s t" and same: "same_bytes (kernel_client k) (k_bytes k) m"
    and top: "unat a + length t \<le> 4294967296" and apart: "kernel_client k \<inter> {unat a..<unat a + length t} = {}"
  shows "Memcpy a (m_Data s) (m_Size s) m = write_list a t m"
proof (cases "t = []")
  case True
  then have "m_Size s = 0" using s by (simp add: string_raw_def unat_eq_0)
  with True show ?thesis by (simp add: Memcpy_def write_list_def)
next
  case False
  then have r: "unat (m_Data s) + length t < 4294967296"
    "{unat (m_Data s)..<unat (m_Data s) + length t} \<subseteq> kernel_client k"
    "\<forall>i<length t. k_bytes k (m_Data s + of_nat i) = t ! i" using s by (simp_all add: string_raw_def)
  have "k_bytes k (m_Data s + of_nat i) = m (m_Data s + of_nat i)" if "i < length t" for i
  proof -
    have "unat (m_Data s) + i \<in> kernel_client k" using r(2) that by auto
    then show ?thesis using same by (force simp: same_bytes_def)
  qed
  then have "\<forall>i<length t. m (m_Data s + of_nat i) = t ! i" using r(3) by simp
  moreover have "{unat a..<unat a + length t} \<inter> {unat (m_Data s)..<unat (m_Data s) + length t} = {}"
    using r(2) apart by blast
  ultimately show ?thesis
    using r(1) top s by (intro Memcpy_list) (simp_all add: string_raw_def)
qed

lemmas Memcpy_val = Memcpy_raw [OF string_val_raw]

lemma String_plus_char_ok:
  assumes inv: "heap_inv k" and s: "string_val k s t" and room: "2 * length t + 30 \<le> heap_avail k"
  obtains s' k' where "String_plus_char s c k = Some (s', k')" and "kb.grown k (2 * length t + 30) k'"
    and "string_val k' s' (if c = 0 then t else t @ [c])" and "m_Data s' \<noteq> 0"
    and "string_bytes (m_Data s') (if c = 0 then t else t @ [c]) \<inter> kernel_client k = {}"
proof -
  let ?t = "if c = 0 then t else t @ [c]" and ?r = "if c = 0 then [0] else [] :: u8 list"
  have sz: "unat (m_Size s) = length t" "m_Size s = of_nat (length t)"
    using s string_val_size by (simp_all add: string_val_def)
  have n: "unat (m_Size s + 2) = length ?t + 1 + length ?r"
    using sz(1) room heap_avail_small [of k] by (simp add: unat_add_no_wrap)
  have t: "0 \<notin> set ?t" using string_val_nonzero [OF s] by simp
  have enough: "length ?t + 1 + length ?r + 13 + (length ?t + 14) \<le> heap_avail k" using room by simp
  let ?f = "\<lambda>buf m. (Memcpy buf (m_Data s) (m_Size s) m)
    (buf + (m_Size s + 2 - 2) := c, buf + (m_Size s + 2 - 1) := 0)"
  have fill: "?f a m = write_list a (?t @ 0 # ?r) m"
    if "unat a + unat (m_Size s + 2) < 4294967296" "kernel_client k \<inter> {unat a..<unat a + unat (m_Size s + 2)} = {}"
      "same_bytes (kernel_client k) (k_bytes k) m" for a m
  proof -
    have copy: "Memcpy a (m_Data s) (m_Size s) m = write_list a t m"
      using that n by (intro Memcpy_val [OF s]) (auto split: if_splits)
    have e: "a + (m_Size s + 2 - 2) = a + of_nat (length t)"
      "a + (m_Size s + 2 - 1) = a + of_nat (length (t @ [c]))" by (simp_all add: sz(2))
    have lim: "length t + 1 < 4294967296" "length (t @ [c]) + 1 < 4294967296"
      using room heap_avail_small [of k] by simp_all
    show ?thesis unfolding copy e write_list_snoc [OF lim(1)] write_list_snoc [OF lim(2)] by simp
  qed
  obtain s' k' where S: "Option.bind (operator_new_array (m_Size s + 2) k) (\<lambda>(buf, k1).
      String_new buf (k1\<lparr>k_bytes := ?f buf (k_bytes k1)\<rparr>)) = Some (s', k')"
    "kb.grown k (2 * length ?t + length ?r + 28) k'" "string_val k' s' ?t" "m_Data s' \<noteq> 0"
    "string_bytes (m_Data s') ?t \<inter> kernel_client k = {}" "unat (m_Data s') \<in> kernel_blocks k'"
    by (rule buffer_copy [OF inv t n enough fill])
  have "kb.grown k (2 * length t + 30) k'" by (rule kb.grown_mono [OF S(2)]) simp
  with S(1,3-5) show ?thesis by (intro that) (simp_all add: String_plus_char_def Let_def)
qed

text \<open>The sum of two objects: the text their bytes make, up to the first zero.\<close>

abbreviation text_of :: "u8 list \<Rightarrow> u8 list" where
  "text_of \<equiv> takeWhile (\<lambda>c. c \<noteq> 0)"

lemma text_of_rest: "\<exists>r. xs @ [0] = text_of xs @ 0 # r"
  by (induction xs) auto

lemma String_plus_raw:
  assumes inv: "heap_inv k" and s: "string_raw k s t" and s': "string_raw k s' t'"
    and room: "2 * (length t + length t') + 28 \<le> heap_avail k"
  obtains r k' where "String_plus s s' k = Some (r, k')" and "kb.grown k (2 * (length t + length t') + 28) k'"
    and "string_val k' r (text_of (t @ t'))" and "m_Data r \<noteq> 0"
    and "string_bytes (m_Data r) (text_of (t @ t')) \<inter> kernel_client k = {}" and "unat (m_Data r) \<in> kernel_blocks k'"
proof -
  obtain rest where rest: "(t @ t') @ [0] = text_of (t @ t') @ 0 # rest" using text_of_rest by blast
  have total: "length t + length t' = length (text_of (t @ t')) + length rest"
    using arg_cong [OF rest, of length] by simp
  have sz: "unat (m_Size s) = length t" "m_Size s = of_nat (length t)" "unat (m_Size s') = length t'"
    "m_Size s' = of_nat (length t')"
    using s s' string_raw_size by (simp_all add: string_raw_def)
  have n: "unat (m_Size s + m_Size s' + 1) = length (text_of (t @ t')) + 1 + length rest"
    using sz(1,3) room heap_avail_small [of k] total by (simp add: unat_add_no_wrap)
  have t: "0 \<notin> set (text_of (t @ t'))" by (metis set_takeWhileD)
  have enough: "length (text_of (t @ t')) + 1 + length rest + 13 + (length (text_of (t @ t')) + 14) \<le> heap_avail k"
    using room total by simp
  let ?f = "\<lambda>buf m. (Memcpy (buf + m_Size s) (m_Data s') (m_Size s') (Memcpy buf (m_Data s) (m_Size s) m))
    (buf + (m_Size s + m_Size s' + 1 - 1) := 0)"
  have fill: "?f a m = write_list a (text_of (t @ t') @ 0 # rest) m"
    if top: "unat a + unat (m_Size s + m_Size s' + 1) < 4294967296"
      and apart: "kernel_client k \<inter> {unat a..<unat a + unat (m_Size s + m_Size s' + 1)} = {}"
      and same: "same_bytes (kernel_client k) (k_bytes k) m" for a m
  proof -
    have n': "unat (m_Size s + m_Size s' + 1) = length t + length t' + 1" using n total by simp
    have lim: "unat a + length t + length t' + 1 < 4294967296" using top n' by simp
    have copy: "Memcpy a (m_Data s) (m_Size s) m = write_list a t m"
      using apart same lim n' by (intro Memcpy_raw [OF s]) auto
    have b: "unat (a + m_Size s) = unat a + length t" using lim sz(1) by (simp add: unat_add_no_wrap)
    have "same_bytes (kernel_client k) m (write_list a t m)"
      using apart n' kernel_client_range [of k] lim by (intro same_bytes_mono [OF write_list_outside]) auto
    then have copy': "Memcpy (a + m_Size s) (m_Data s') (m_Size s') (write_list a t m) =
        write_list (a + m_Size s) t' (write_list a t m)"
      using apart same lim n' b same_bytes_trans by (intro Memcpy_raw [OF s']) auto
    have e: "a + (m_Size s + m_Size s' + 1 - 1) = a + of_nat (length (t @ t'))" by (simp add: sz(2,4))
    have "write_list (a + m_Size s) t' (write_list a t m) = write_list a (t @ t') m"
      unfolding sz(2) using lim by (intro write_list_append) simp
    moreover have "length (t @ t') + 1 < 4294967296" using lim by simp
    ultimately show ?thesis unfolding copy copy' e rest [symmetric] by (simp only: write_list_snoc)
  qed
  obtain r k' where S: "Option.bind (operator_new_array (m_Size s + m_Size s' + 1) k) (\<lambda>(buf, k1).
      String_new buf (k1\<lparr>k_bytes := ?f buf (k_bytes k1)\<rparr>)) = Some (r, k')"
    "kb.grown k (2 * length (text_of (t @ t')) + length rest + 28) k'" "string_val k' r (text_of (t @ t'))" "m_Data r \<noteq> 0"
    "string_bytes (m_Data r) (text_of (t @ t')) \<inter> kernel_client k = {}" "unat (m_Data r) \<in> kernel_blocks k'"
    by (rule buffer_copy [OF inv t n enough fill])
  have "kb.grown k (2 * (length t + length t') + 28) k'" by (rule kb.grown_mono [OF S(2)]) (use total in simp)
  with S show ?thesis by (intro that) (simp_all add: String_plus_def Let_def)
qed

lemma String_plus_ok:
  assumes inv: "heap_inv k" and s: "string_val k s t" and s': "string_val k s' t'"
    and room: "2 * (length t + length t') + 28 \<le> heap_avail k"
  obtains r k' where "String_plus s s' k = Some (r, k')" and "kb.grown k (2 * (length t + length t') + 28) k'"
    and "string_val k' r (t @ t')" and "m_Data r \<noteq> 0"
    and "string_bytes (m_Data r) (t @ t') \<inter> kernel_client k = {}"
proof -
  have "0 \<notin> set (t @ t')" using string_val_nonzero [OF s] string_val_nonzero [OF s'] by simp
  then have "text_of (t @ t') = t @ t'" by (simp only: takeWhile_eq_all_conv) metis
  note plus = String_plus_raw [OF inv string_val_raw [OF s] string_val_raw [OF s'] room, unfolded this]
  show ?thesis by (rule plus) (rule that)
qed

text \<open>Assigning a sum moves it into the object on the left; nothing is left to destroy.\<close>

lemma plus_assign_is_plus:
  "String_plus_assign s s' k = String_plus s s' k" "String_plus_assign_char s c k = String_plus_char s c k"
  by (auto simp: String_plus_assign_def String_plus_assign_char_def String_assign_move_def String_destroy_def
      split: bind_splits)

lemma Find_loop_eq:
  assumes "\<forall>i<length t. m (m_Data s + of_nat i) = t ! i" and "unat (m_Size s) = length t"
  shows "Find_loop s ch m i =
    (if ch \<in> set (drop (unat i) t) then i + of_nat (length (takeWhile (\<lambda>c. c \<noteq> ch) (drop (unat i) t)))
     else String_NPOS)"
  using assms
proof (induction s ch m i rule: Find_loop.induct)
  case (1 s ch m i)
  show ?case
  proof (cases "i < m_Size s")
    case True
    then have i: "unat i < length t" using "1.prems"(2) by (simp add: word_less_nat_alt)
    then have d: "drop (unat i) t = t ! unat i # drop (unat (i + 1)) t"
      using True by (simp add: Cons_nth_drop_Suc unat_inc)
    have m: "m (m_Data s + i) = t ! unat i" using "1.prems"(1) [rule_format, OF i] by simp
    show ?thesis
    proof (cases "t ! unat i = ch")
      case True
      with \<open>i < m_Size s\<close> m d show ?thesis by (subst Find_loop.simps) simp
    next
      case False
      with True m "1.IH" "1.prems" d show ?thesis by (subst Find_loop.simps) simp
    qed
  next
    case False
    then have "drop (unat i) t = []" using "1.prems"(2) by (simp add: word_less_nat_alt)
    with False show ?thesis by (subst Find_loop.simps) simp
  qed
qed

text \<open>\<^verbatim>\<open>ToString\<close> makes the default object and writes nothing but its buffer.\<close>

lemma StringUtil_ToString_eq:
  obtains m where "StringUtil_ToString buf num k = Some (String_default, k\<lparr>k_bytes := m\<rparr>)"
    and "c_string m buf (number_text num 10)" and "\<forall>x. \<not> unat (x - buf) < 12 \<longrightarrow> m x = k_bytes k x"
proof -
  have size: "text_size num 10 \<le> 12" by (rule text_size_decimal)
  obtain m where M: "IntToStr num buf 20 10 (k_bytes k) = Some (0, m)" "c_string m buf (number_text num 10)"
    "\<forall>x. text_size num 10 \<le> unat (x - buf) \<longrightarrow> m x = k_bytes k x"
    using IntToStr_eq [of 10 num 20 buf "k_bytes k"] size by auto
  have "m x = k_bytes k x" if "\<not> unat (x - buf) < 12" for x
    using M(3) size that by (meson le_trans not_le)
  with M(1,2) show ?thesis
    by (intro that [of m]) (simp_all add: StringUtil_ToString_def String_fill_def operator_new_array_def KMalloc_def
        Heap_Allocate_def String_default_def Memset_def)
qed

section \<open>Properties\<close>

text \<open>
  C37: The sum of two strings is a new string with the characters of both, on memory that belonged to nobody;
  \<^verbatim>\<open>+=\<close> gives the same. The operands and every other byte of a client stay as they were, the heap stays well
  formed, and at most twice the length and 28 bytes of it are used up: two blocks, of which one is never freed.
\<close>

theorem string_plus_concatenates:
  assumes "heap_inv k" and "string_val k s t" and "string_val k s' t'"
    and "2 * (length t + length t') + 28 \<le> heap_avail k"
  shows "\<exists>r k'. String_plus s s' k = Some (r, k') \<and> String_plus_assign s s' k = Some (r, k') \<and>
    string_val k' r (t @ t') \<and> string_val k' s t \<and> string_val k' s' t' \<and> heap_inv k' \<and>
    string_bytes (m_Data r) (t @ t') \<inter> kernel_client k = {} \<and>
    same_bytes (kernel_client k) (k_bytes k) (k_bytes k') \<and>
    heap_avail k \<le> heap_avail k' + (2 * (length t + length t') + 28)"
proof -
  obtain r k' where R: "String_plus s s' k = Some (r, k')" "kb.grown k (2 * (length t + length t') + 28) k'"
    "string_val k' r (t @ t')" "string_bytes (m_Data r) (t @ t') \<inter> kernel_client k = {}"
    by (rule String_plus_ok [OF assms]) blast
  then show ?thesis
    using string_val_grown [OF assms(2) R(2)] string_val_grown [OF assms(3) R(2)]
    by (auto simp: plus_assign_is_plus kb.grown_def)
qed

text \<open>Two objects in the memory of the example: \<^verbatim>\<open>,ab,c\<close> and \<^verbatim>\<open>,\<close>.\<close>

definition string_1 :: estd_string where "string_1 = \<lparr>m_Data = 0x1000, m_Size = 5\<rparr>"
definition string_2 :: estd_string where "string_2 = \<lparr>m_Data = 0x2000, m_Size = 1\<rparr>"

lemma example_strings:
  "string_val kernel_text string_1 [0x2C, 0x61, 0x62, 0x2C, 0x63]" "string_val kernel_text string_2 [0x2C]"
proof -
  have "string_bytes 0x1000 [0x2C, 0x61, 0x62, 0x2C, 0x63] \<subseteq> {..<65536}" "string_bytes 0x2000 [0x2C] \<subseteq> {..<65536}"
    by (auto simp: string_bytes_def)
  then have "string_bytes 0x1000 [0x2C, 0x61, 0x62, 0x2C, 0x63] \<subseteq> kernel_client kernel_text"
    "string_bytes 0x2000 [0x2C] \<subseteq> kernel_client kernel_text"
    using kernel_text_below by (blast intro: subset_trans)+
  moreover have "c_string (k_bytes kernel_text) 0x1000 [0x2C, 0x61, 0x62, 0x2C, 0x63]"
    "c_string (k_bytes kernel_text) 0x2000 [0x2C]"
    using text_memory_strings by (simp_all add: kernel_text_def)
  ultimately show "string_val kernel_text string_1 [0x2C, 0x61, 0x62, 0x2C, 0x63]" "string_val kernel_text string_2 [0x2C]"
    by (simp_all add: string_val_def string_1_def string_2_def)
qed

lemma kernel_text_avail: "heap_avail kernel_text = 4096"
  by (simp add: heap_avail_def kernel_text_def)

theorem string_plus_concatenates_witness:
  "\<exists>r k'. String_plus string_1 string_2 kernel_text = Some (r, k') \<and>
     string_val k' r [0x2C, 0x61, 0x62, 0x2C, 0x63, 0x2C]"
  using string_plus_concatenates [OF kernel_text_inv example_strings] kernel_text_avail by auto

text \<open>
  \<^verbatim>\<open>==\<close> compares only as many characters as the left side has: it holds exactly when the left text is a
  prefix of the right one, so it is not symmetric; \<^verbatim>\<open>!=\<close> is its negation. \<^verbatim>\<open>Find\<close> gives the first position from
  \<^verbatim>\<open>pos\<close> on that holds the character, and \<^verbatim>\<open>NPOS\<close> exactly when there is none.
\<close>

theorem string_equality_is_prefix:
  assumes "string_val k s t" and "string_val k s' t'" and "m_Data s \<noteq> 0" and "m_Data s' \<noteq> 0"
  shows "(String_eq s s' (k_bytes k) \<longleftrightarrow> prefix t t') \<and>
    (String_neq s s' (k_bytes k) \<longleftrightarrow> \<not> prefix t t') \<and>
    String_Find s ch pos (k_bytes k) =
      (if ch \<in> set (drop (unat pos) t) then pos + of_nat (length (takeWhile (\<lambda>c. c \<noteq> ch) (drop (unat pos) t)))
       else String_NPOS)"
proof -
  have c: "c_string (k_bytes k) (m_Data s) t" "c_string (k_bytes k) (m_Data s') t'" "unat (m_Size s) = length t"
    using assms by (auto simp: string_val_def)
  have "Strncmp (k_bytes k) (m_Data s) (m_Data s') (m_Size s) = 0 \<longleftrightarrow> t = take (length t) t'"
    using strncmp_is_lexicographic [OF c(1,2), of "m_Size s"] c(3) by simp
  also have "\<dots> \<longleftrightarrow> prefix t t'" by (metis append_eq_conv_conj prefix_def take_is_prefix)
  finally have "Strncmp (k_bytes k) (m_Data s) (m_Data s') (m_Size s) = 0 \<longleftrightarrow> prefix t t'" .
  then show ?thesis
    using Find_loop_eq [of t "k_bytes k" s ch pos] c by (simp add: String_eq_def String_neq_def String_Find_def c_string_iff)
qed

theorem string_equality_is_prefix_witness:
  "String_eq string_2 string_1 (k_bytes kernel_text) \<and> \<not> String_eq string_1 string_2 (k_bytes kernel_text) \<and>
   String_Find string_1 0x2C 1 (k_bytes kernel_text) = 3"
  using string_equality_is_prefix [OF example_strings(2,1), of "0x2C" 1]
    string_equality_is_prefix [OF example_strings, of "0x2C" 1]
  by (simp add: string_1_def string_2_def)

text \<open>
  \<^verbatim>\<open>ToString\<close> always returns the empty string, whatever the number: it makes the text in its buffer, but the
  string it constructs has the size that \<^verbatim>\<open>IntToStr\<close> returns as its status, 0. It changes nothing but its
  buffer.
\<close>

theorem tostring_always_empty:
  "\<exists>k'. StringUtil_ToString buf num k = Some (String_default, k') \<and> string_val k' String_default [] \<and>
    c_string (k_bytes k') buf (number_text num 10) \<and> g_KernelHeap k' = g_KernelHeap k \<and>
    {x. k_bytes k' x \<noteq> k_bytes k x} \<subseteq> {x. unat (x - buf) < 12}"
proof -
  obtain m where "StringUtil_ToString buf num k = Some (String_default, k\<lparr>k_bytes := m\<rparr>)"
    "c_string m buf (number_text num 10)" "\<forall>x. \<not> unat (x - buf) < 12 \<longrightarrow> m x = k_bytes k x"
    by (rule StringUtil_ToString_eq)
  then show ?thesis using string_val_default by (intro exI [of _ "k\<lparr>k_bytes := m\<rparr>"]) auto
qed

end
