(* ===== verification/HeapLinks.thy ===== *)
theory HeapLinks
  imports KMalloc
begin

text \<open>
  What any sequence of frees leaves alone. \<^verbatim>\<open>Heap::Free\<close> merges neighbours in a way that breaks the sizes in
  the headers (\<open>heap_coalescing_overlaps_live_block\<close>), so the heap is not well formed afterwards in general.
  It follows only the links, though, and the links of headers lead to headers: whatever blocks are freed,
  in whatever order and however often, \<^verbatim>\<open>Free\<close> writes to headers only, and no client's byte changes.
\<close>

section \<open>Links\<close>

text \<open>
  The headers at the addresses \<open>H\<close>, which do not overlap, and memories in which each of them links forwards to a later
  one, or to none, and backwards to an earlier one, or to none.
\<close>

definition headers_apart :: "nat set \<Rightarrow> bool" where
  "headers_apart H \<longleftrightarrow> (\<forall>x\<in>H. x + 13 \<le> 4294967296) \<and>
     (\<forall>x\<in>H. \<forall>y\<in>H. x \<noteq> y \<longrightarrow> {x..<x + 13} \<inter> {y..<y + 13} = {})"

definition next_targets :: "nat set \<Rightarrow> nat \<Rightarrow> u32 set" where
  "next_targets H x = insert 0 (of_nat ` {y \<in> H. x < y})"

definition prev_targets :: "nat set \<Rightarrow> nat \<Rightarrow> u32 set" where
  "prev_targets H x = insert 0 (of_nat ` {y \<in> H. y < x})"

definition linked :: "nat set \<Rightarrow> mem \<Rightarrow> mem \<Rightarrow> bool" where
  "linked H m0 m \<longleftrightarrow>
     (\<forall>x\<in>H. node_Next m (of_nat x) \<in> next_targets H x \<and> node_Prev m (of_nat x) \<in> prev_targets H x) \<and>
     same_bytes ({..<4294967296} - (\<Union>x\<in>H. {x..<x + 13})) m0 m"

lemma linked_reads:
  assumes "linked H m0 m" and "x \<in> H"
  shows "node_Next m (of_nat x) \<in> next_targets H x" and "node_Prev m (of_nat x) \<in> prev_targets H x"
  using assms by (auto simp: linked_def)

lemma linked_Next:
  assumes "linked H m0 m" and "x \<in> H" and "node_Next m (of_nat x) \<noteq> 0"
  obtains y where "y \<in> H" and "x < y" and "node_Next m (of_nat x) = of_nat y"
  using linked_reads(1) [OF assms(1,2)] assms(3) by (auto simp: next_targets_def)

lemma linked_Prev:
  assumes "linked H m0 m" and "x \<in> H" and "node_Prev m (of_nat x) \<noteq> 0"
  obtains y where "y \<in> H" and "y < x" and "node_Prev m (of_nat x) = of_nat y"
  using linked_reads(2) [OF assms(1,2)] assms(3) by (auto simp: prev_targets_def)

lemma targets_mono:
  "w \<in> next_targets H x \<Longrightarrow> p \<le> x \<Longrightarrow> w \<in> next_targets H p"
  "w \<in> prev_targets H x \<Longrightarrow> x \<le> y \<Longrightarrow> w \<in> prev_targets H y"
  by (auto simp: next_targets_def prev_targets_def)

lemma linked_update:
  assumes apart: "headers_apart H" and l: "linked H m0 m" and x: "x \<in> H"
    and m': "same_bytes ({..<4294967296} - {x..<x + 13}) m m'"
    and links: "node_Next m' (of_nat x) \<in> next_targets H x" "node_Prev m' (of_nat x) \<in> prev_targets H x"
  shows "linked H m0 m'"
proof -
  have "node_Next m' (of_nat y) = node_Next m (of_nat y) \<and> node_Prev m' (of_nat y) = node_Prev m (of_nat y)"
    if y: "y \<in> H" "y \<noteq> x" for y
  proof -
    have "y + 13 \<le> 4294967296" "{x..<x + 13} \<inter> {y..<y + 13} = {}"
      using apart x y unfolding headers_apart_def by (blast, metis)
    then have "{y..<y + 13} \<subseteq> {..<4294967296} - {x..<x + 13}" by auto
    then show ?thesis using node_same(3,4) same_bytes_mono [OF m'] by blast
  qed
  then have "\<forall>y\<in>H. node_Next m' (of_nat y) \<in> next_targets H y \<and> node_Prev m' (of_nat y) \<in> prev_targets H y"
    using l links unfolding linked_def by metis
  moreover have "same_bytes ({..<4294967296} - (\<Union>x\<in>H. {x..<x + 13})) m m'"
    using x by (intro same_bytes_mono [OF m']) blast
  ultimately show ?thesis using l same_bytes_trans unfolding linked_def by blast
qed

lemma linked_writes:
  assumes apart: "headers_apart H" and l: "linked H m0 m" and x: "x \<in> H"
  shows "linked H m0 (set_Size (of_nat x) v m)" and "linked H m0 (set_State (of_nat x) st m)"
    and "w \<in> next_targets H x \<Longrightarrow> linked H m0 (set_Next (of_nat x) w m)"
    and "w \<in> prev_targets H x \<Longrightarrow> linked H m0 (set_Prev (of_nat x) w m)"
proof -
  have top: "x + 13 \<le> 4294967296" using apart x by (simp add: headers_apart_def)
  have A: "{..<4294967296} - {x..<x + 13} \<subseteq> {..<4294967296}" by blast
  note F = set_frames [OF A top] and R = linked_reads [OF l x] and U = linked_update [OF apart l x]
  show "linked H m0 (set_Size (of_nat x) v m)" by (rule U, rule F(1)) (use R top in auto)
  show "linked H m0 (set_State (of_nat x) st m)" by (rule U, rule F(2)) (use R top in auto)
  show "linked H m0 (set_Next (of_nat x) w m)" if "w \<in> next_targets H x"
    by (rule U, rule F(3)) (use R top that in auto)
  show "linked H m0 (set_Prev (of_nat x) w m)" if "w \<in> prev_targets H x"
    by (rule U, rule F(4)) (use R top that in auto)
qed

section \<open>Free\<close>

lemma Heap_Free_linked:
  assumes apart: "headers_apart H" and l: "linked H m0 m" and x: "x \<in> H"
  shows "linked H m0 (Heap_Free (of_nat (x + 13)) m)"
proof -
  let ?n = "of_nat x :: u32"
  note W = linked_writes [OF apart]
  have node: "(of_nat (x + 13) :: u32) - sizeof_HeapNode = ?n" by (simp add: sizeof_HeapNode_def)
  define m1 where "m1 = (if node_State m ?n = HeapState_value HeapReserved then set_State ?n HeapFree m else m)"
  have m1: "linked H m0 m1" using W(2) [OF l x] l by (simp add: m1_def)
  define m2 where "m2 = (let next = node_Next m1 ?n in
    if next \<noteq> 0 \<and> node_State m1 next = HeapState_value HeapFree
    then let prev = node_Prev m1 ?n;
             m' = set_Size next (node_Size m1 next + node_Size m1 ?n) m1;
             m'' = set_Prev next (node_Prev m' ?n) m'
         in if prev \<noteq> 0 then set_Next prev next m'' else m''
    else m1)"
  have m2: "linked H m0 m2"
  proof (cases "node_Next m1 ?n = 0")
    case False
    then obtain y where y: "y \<in> H" "x < y" "node_Next m1 ?n = of_nat y" using linked_Next [OF m1 x] by blast
    let ?m = "set_Size (of_nat y) (node_Size m1 (of_nat y) + node_Size m1 ?n) m1"
    have a: "linked H m0 ?m" by (rule W(1) [OF m1 y(1)])
    have "node_Prev ?m ?n \<in> prev_targets H y" using targets_mono(2) [OF linked_reads(2) [OF a x]] y(2) by simp
    then have b: "linked H m0 (set_Prev (of_nat y) (node_Prev ?m ?n) ?m)" by (rule W(4) [OF a y(1)])
    have "linked H m0 (set_Next (node_Prev m1 ?n) (of_nat y) (set_Prev (of_nat y) (node_Prev ?m ?n) ?m))"
      if p0: "node_Prev m1 ?n \<noteq> 0"
    proof -
      obtain p where p: "p \<in> H" "p < x" "node_Prev m1 ?n = of_nat p" using linked_Prev [OF m1 x p0] by blast
      have "of_nat y \<in> next_targets H p" using y p(2) by (auto simp: next_targets_def)
      then show ?thesis unfolding p(3) by (rule W(3) [OF b p(1)])
    qed
    with b m1 show ?thesis unfolding m2_def y(3) Let_def by simp
  qed (simp add: m1 m2_def)
  let ?prev = "node_Prev m2 ?n" and ?next = "node_Next m2 ?n"
  let ?m = "set_Size ?prev (node_Size m2 ?prev + node_Size m2 ?n) m2"
  let ?m' = "set_Next ?prev (node_Next ?m ?n) ?m"
  have both: "linked H m0 ?m' \<and> (?next \<noteq> 0 \<longrightarrow> linked H m0 (set_Prev ?next ?prev ?m'))" if p0: "?prev \<noteq> 0"
  proof -
    obtain p where p: "p \<in> H" "p < x" "?prev = of_nat p" using linked_Prev [OF m2 x p0] by blast
    have a: "linked H m0 ?m" unfolding p(3) by (rule W(1) [OF m2 p(1)])
    have "node_Next ?m ?n \<in> next_targets H p" using targets_mono(1) [OF linked_reads(1) [OF a x]] p(2) by simp
    then have b: "linked H m0 ?m'" using W(3) [OF a p(1)] unfolding p(3) by blast
    have "linked H m0 (set_Prev ?next ?prev ?m')" if n0: "?next \<noteq> 0"
    proof -
      obtain y where y: "y \<in> H" "x < y" "?next = of_nat y" using linked_Next [OF m2 x n0] by blast
      have "?prev \<in> prev_targets H y" using targets_mono(2) [OF linked_reads(2) [OF m2 x]] y(2) by simp
      then show ?thesis using W(4) [OF b y(1)] unfolding y(3) by blast
    qed
    with b show ?thesis by blast
  qed
  have "Heap_Free (of_nat (x + 13)) m = m \<or> Heap_Free (of_nat (x + 13)) m =
      (if ?prev \<noteq> 0 \<and> node_State m2 ?prev = HeapState_value HeapFree
       then if ?next \<noteq> 0 then set_Prev ?next ?prev ?m' else ?m' else m2)"
    unfolding Heap_Free_def node Let_def m2_def m1_def by simp
  then show ?thesis using both l m2 by (metis (full_types))
qed

text \<open>The headers of a well-formed heap.\<close>

definition heap_headers :: "heap \<Rightarrow> block list \<Rightarrow> nat set" where
  "heap_headers h bs = block_at (unat (m_StartAddress h)) bs ` {..<length bs}"

lemma heap_headers_linked:
  assumes wf: "heap_wf h m bs"
  defines "H \<equiv> heap_headers h bs"
  shows "headers_apart H" and "linked H m m" and "(\<Union>x\<in>H. {x..<x + 13}) = header_bytes (unat (m_StartAddress h)) bs"
proof -
  let ?a = "unat (m_StartAddress h)"
  note ch = heap_wf_chain [OF wf]
  have "block_at ?a bs i + 13 \<le> 4294967296" if "i < length bs" for i
    using block_bounds(2) [OF ch that] unat_lt_2p32 [of "m_CurrentAddress h"] by linarith
  moreover have "{block_at ?a bs i..<block_at ?a bs i + 13} \<inter> {block_at ?a bs j..<block_at ?a bs j + 13} = {}"
    if "i < length bs" "j < length bs" "block_at ?a bs i \<noteq> block_at ?a bs j" for i j
  proof (cases i j rule: linorder_cases)
    case less
    with that(2) block_at_step [of i j bs ?a] show ?thesis by auto
  next
    case greater
    with that(1) block_at_step [of j i bs ?a] show ?thesis by auto
  qed (use that in simp)
  ultimately show "headers_apart H" by (auto simp: headers_apart_def H_def heap_headers_def)
  have mem: "block_at ?a bs i \<in> H" if "i < length bs" for i using that by (simp add: H_def heap_headers_def)
  have "node_Next m (of_nat (block_at ?a bs i)) \<in> next_targets H (block_at ?a bs i)" if i: "i < length bs" for i
  proof (cases "Suc i = length bs")
    case False
    then have "block_at ?a bs (Suc i) \<in> {y \<in> H. block_at ?a bs i < y}"
      using i mem [of "Suc i"] block_at_step [of i "Suc i" bs ?a] by simp
    then show ?thesis using chain_nth(3) [OF ch i] False unfolding next_targets_def by auto
  qed (use chain_nth(3) [OF ch i] in \<open>simp add: next_targets_def\<close>)
  moreover have "node_Prev m (of_nat (block_at ?a bs i)) \<in> prev_targets H (block_at ?a bs i)" if i: "i < length bs" for i
  proof (cases "i = 0")
    case False
    then have "block_at ?a bs (i - 1) \<in> {y \<in> H. y < block_at ?a bs i}"
      using i mem [of "i - 1"] block_at_step [of "i - 1" i bs ?a] by simp
    then show ?thesis using chain_nth(4) [OF ch i] False unfolding prev_targets_def by auto
  qed (use chain_nth(4) [OF ch i] in \<open>simp add: prev_targets_def\<close>)
  ultimately have "\<forall>x\<in>H. node_Next m (of_nat x) \<in> next_targets H x \<and> node_Prev m (of_nat x) \<in> prev_targets H x"
    by (auto simp: H_def heap_headers_def)
  then show "linked H m m" by (simp add: linked_def)
  show "(\<Union>x\<in>H. {x..<x + 13}) = header_bytes ?a bs" by (simp add: H_def heap_headers_def header_bytes_def)
qed

lemma frees_linked:
  assumes "headers_apart H" and "linked H m0 m" and "\<forall>a\<in>set as. a = 0 \<or> (\<exists>x\<in>H. unat a = x + 13)"
  shows "linked H m0 (fold Heap_Free as m)"
  using assms(2,3)
proof (induction as arbitrary: m)
  case (Cons a as)
  have "linked H m0 (Heap_Free a m)"
  proof (cases "a = 0")
    case False
    then obtain x where x: "x \<in> H" "unat a = x + 13" using Cons.prems(2) by auto
    moreover have "a = of_nat (unat a)" by simp
    ultimately have "a = of_nat (x + 13)" by simp
    with Heap_Free_linked [OF assms(1) Cons.prems(1) x(1)] show ?thesis by simp
  qed (use Cons.prems(1) in \<open>simp add: Heap_Free_def\<close>)
  with Cons show ?case by simp
qed simp

text \<open>
  Frees of any blocks the heap has handed out, in any order: no byte of a client changes.
\<close>

lemma frees_keep_clients:
  assumes inv: "heap_inv k" and blocks: "\<forall>a\<in>set as. a = 0 \<or> unat a \<in> kernel_blocks k"
  shows "same_bytes (kernel_client k) (k_bytes k) (fold Heap_Free as (k_bytes k))"
proof -
  let ?h = "g_KernelHeap k"
  let ?a = "unat (m_StartAddress ?h)"
  obtain bs where wf: "heap_wf ?h (k_bytes k) bs" and fits: "heap_fits ?h" using inv by (auto simp: heap_inv_def)
  note L = heap_headers_linked [OF wf]
  have "\<forall>a\<in>set as. a = 0 \<or> (\<exists>x\<in>heap_headers ?h bs. unat a = x + 13)"
    using blocks by (auto simp: kernel_blocks_iff [OF wf] heap_headers_def)
  with frees_linked [OF L(1,2)] have "same_bytes ({..<4294967296} - header_bytes ?a bs) (k_bytes k) (fold Heap_Free as (k_bytes k))"
    unfolding linked_def L(3) by blast
  moreover have "kernel_client k \<subseteq> {..<4294967296} - header_bytes ?a bs"
    using client_header_disjoint [OF wf fits] kernel_client_range [of k] unfolding kernel_client_eq [OF wf] by blast
  ultimately show ?thesis by (rule same_bytes_mono)
qed

section \<open>Following the links\<close>

text \<open>The headers that are met on the way from \<open>node\<close> along \<^verbatim>\<open>Next\<close> to its end.\<close>

primrec link_path :: "mem \<Rightarrow> u32 \<Rightarrow> u32 list \<Rightarrow> bool" where
  "link_path m node [] \<longleftrightarrow> node = 0"
| "link_path m node (x # xs) \<longleftrightarrow> node = x \<and> x \<noteq> 0 \<and> link_path m (node_Next m x) xs"

text \<open>The way always ends, and it leads upwards.\<close>

lemma linked_path:
  assumes apart: "headers_apart H" and pos: "0 \<notin> H" and l: "linked H m0 m" and x: "x \<in> H"
  shows "\<exists>xs. link_path m (of_nat x) (of_nat x # xs) \<and> sorted_wrt (<) (of_nat x # xs) \<and> set (of_nat x # xs) \<subseteq> of_nat ` H"
  using x
proof (induction "4294967296 - x" arbitrary: x rule: less_induct)
  case less
  have top: "y < 4294967296" if "y \<in> H" for y using apart that by (auto simp: headers_apart_def)
  have nz: "(of_nat x :: u32) \<noteq> 0"
  proof -
    have "x \<noteq> 0" using pos less.prems by metis
    then show ?thesis using of_nat_inj32 [of x 0] top [OF less.prems] by auto
  qed
  show ?case
  proof (cases "node_Next m (of_nat x) = 0")
    case True
    with nz less.prems show ?thesis by (intro exI [of _ "[]"]) simp
  next
    case False
    obtain y where y: "y \<in> H" "x < y" "node_Next m (of_nat x) = of_nat y" by (rule linked_Next [OF l less.prems False])
    have "4294967296 - y < 4294967296 - x" using y(2) top [OF y(1)] by (intro diff_less_mono2) simp_all
    then obtain xs where xs: "link_path m (of_nat y) (of_nat y # xs)" "sorted_wrt (<) (of_nat y # xs)"
      "set (of_nat y # xs) \<subseteq> of_nat ` H" using less.hyps [of y] y(1) by auto
    have "(of_nat x :: u32) < of_nat y" using y(2) top [OF y(1)] by (simp add: word_less_nat_alt unat_of_nat32)
    with xs nz less.prems y(3) show ?thesis by (intro exI [of _ "of_nat y # xs"]) auto
  qed
qed

section \<open>Properties\<close>

lemma fold_KFree: "fold KFree as k = k\<lparr>k_bytes := fold Heap_Free as (k_bytes k)\<rparr>"
  by (induction as arbitrary: k) (simp_all add: KFree_def)

text \<open>
  C20: Freeing blocks that the heap has handed out, any of them, in any order and more than once, and null
  pointers in between, changes no byte of a client, neither of the blocks in use nor outside the heap. This
  holds although the merging of neighbours breaks the sizes in the headers: what goes wrong with the
  heap after a free goes wrong in a later allocation.
\<close>

theorem frees_touch_no_client:
  assumes "heap_inv k" and "\<forall>a\<in>set as. a = 0 \<or> unat a \<in> kernel_blocks k"
  shows "same_bytes (kernel_client k) (k_bytes k) (k_bytes (fold KFree as k))"
  using frees_keep_clients [OF assms] by (simp add: fold_KFree)

text \<open>A block of the example heap, freed twice.\<close>

theorem frees_touch_no_client_witness:
  "\<exists>a k. KMalloc 10 kernel_text = Some (a, k) \<and> a \<noteq> 0 \<and> block_of a 10 \<subseteq> kernel_client k \<and>
     same_bytes (kernel_client k) (k_bytes k) (k_bytes (fold KFree [a, 0, a] k))"
proof -
  have n: "(10 :: u32) \<noteq> 0" and room: "heap_room 10 kernel_text" using kernel_text_room by simp_all
  obtain a k where A: "KMalloc 10 kernel_text = Some (a, k)" "heap_inv k" "a \<noteq> 0" "block_of a 10 \<subseteq> kernel_client k"
    using kh.alloc_law [OF kernel_text_inv n room] by auto
  have "unat a \<in> kernel_blocks k" using KMalloc_blocks [OF kernel_text_inv n room A(1)] by blast
  with frees_touch_no_client [OF A(2), of "[a, 0, a]"] A(1,3,4) show ?thesis by auto
qed

end
