(* ===== verification/StringSum.thy ===== *)
theory StringSum
  imports EstdString HeapLinks
begin

text \<open>
  Expressions that add strings, as \<^verbatim>\<open>ATADevice.h\<close> has them: sums of literals, of texts of numbers and of strings
  of a size. C++ does not fix the order in which the operands of a sum are evaluated, so an expression is
  evaluated under an order: which of the calls that can be made next is made. Every call constructs an
  object; at the end of the expression all of them but the result are destroyed, the newest first.
\<close>

section \<open>Expressions\<close>

datatype string_term =
    Literal u32
  | NumberText u32
  | SizedText u32
  | Plus string_term string_term
  | Made estd_string

text \<open>The number of calls still to be made, and of those that can be made next.\<close>

primrec calls_left :: "string_term \<Rightarrow> nat" where
  "calls_left (Literal p) = 1"
| "calls_left (NumberText v) = 1"
| "calls_left (SizedText n) = 1"
| "calls_left (Plus a b) = calls_left a + calls_left b + 1"
| "calls_left (Made s) = 0"

primrec open_calls :: "string_term \<Rightarrow> nat" where
  "open_calls (Literal p) = 1"
| "open_calls (NumberText v) = 1"
| "open_calls (SizedText n) = 1"
| "open_calls (Plus a b) = (if open_calls a + open_calls b = 0 then 1 else open_calls a + open_calls b)"
| "open_calls (Made s) = 0"

text \<open>
  One call, the \<open>i\<close>-th of those that can be made: a constructor, \<^verbatim>\<open>ToString\<close> with its local buffer at \<open>buf\<close>, or
  \<^verbatim>\<open>operator+\<close> when both operands are there. It returns the object it made, too.
\<close>

definition made :: "(estd_string \<times> kernel_state) option \<Rightarrow> (string_term \<times> estd_string \<times> kernel_state) option" where
  "made r = do { (s, k) \<leftarrow> r; Some (Made s, s, k) }"

fun add_made :: "string_term \<Rightarrow> string_term \<Rightarrow> kernel_state \<Rightarrow> (estd_string \<times> kernel_state) option" where
  "add_made (Made s) (Made s') k = String_plus s s' k"
| "add_made a b k = None"

primrec make_call ::
  "u32 \<Rightarrow> string_term \<Rightarrow> nat \<Rightarrow> kernel_state \<Rightarrow> (string_term \<times> estd_string \<times> kernel_state) option" where
  "make_call buf (Literal p) i k = made (String_new p k)"
| "make_call buf (NumberText v) i k = made (StringUtil_ToString buf v k)"
| "make_call buf (SizedText n) i k = made (String_fill n 0 k)"
| "make_call buf (Plus a b) i k =
     (if open_calls a + open_calls b = 0 then made (add_made a b k)
      else if i < open_calls a then do { (a', s, k') \<leftarrow> make_call buf a i k; Some (Plus a' b, s, k') }
      else do { (b', s, k') \<leftarrow> make_call buf b (i - open_calls a) k; Some (Plus a b', s, k') })"
| "make_call buf (Made s) i k = None"

text \<open>The order is a list of choices; one that ends too early gives no result.\<close>

primrec evaluate ::
  "u32 \<Rightarrow> nat list \<Rightarrow> string_term \<Rightarrow> estd_string list \<Rightarrow> kernel_state \<Rightarrow> (estd_string list \<times> kernel_state) option" where
  "evaluate buf [] t objs k = (if calls_left t = 0 then Some (objs, k) else None)"
| "evaluate buf (i # order) t objs k =
     (if calls_left t = 0 then Some (objs, k)
      else do {
        (t', s, k') \<leftarrow> make_call buf t (i mod open_calls t) k;
        evaluate buf order t' (s # objs) k'
      })"

definition full_expression ::
  "u32 \<Rightarrow> nat list \<Rightarrow> string_term \<Rightarrow> kernel_state \<Rightarrow> (estd_string \<times> kernel_state) option" where
  "full_expression buf order t k = do {
     (objs, k') \<leftarrow> evaluate buf order t [] k;
     (case objs of [] \<Rightarrow> None | s # temporaries \<Rightarrow> Some (s, fold String_destroy temporaries k'))
   }"

lemma open_calls_zero: "open_calls t = 0 \<longleftrightarrow> (\<exists>s. t = Made s)"
  by (cases t) auto

lemma calls_left_zero: "calls_left t = 0 \<longleftrightarrow> (\<exists>s. t = Made s)"
  by (cases t) auto

section \<open>What an expression stands for\<close>

text \<open>
  An object that has been made: it stands for a text, or it is one of the objects whose bytes are zeros. Its
  bytes are apart from the local buffers \<open>B\<close> that later calls write.
\<close>

definition object_bytes :: "nat set \<Rightarrow> kernel_state \<Rightarrow> estd_string \<Rightarrow> u8 list \<Rightarrow> bool" where
  "object_bytes B k s t \<longleftrightarrow>
     string_val k s t \<and> (m_Data s = 0 \<or> string_bytes (m_Data s) t \<inter> B = {}) \<or>
     0 \<in> set t \<and> string_raw k s t \<and> {unat (m_Data s)..<unat (m_Data s) + length t} \<inter> B = {}"

lemma object_bytes_raw: "object_bytes B k s t \<Longrightarrow> string_raw k s t"
  using string_val_raw by (auto simp: object_bytes_def)

text \<open>The bytes of an expression; no sum in it takes more than \<open>L\<close> of them.\<close>

primrec denotes :: "nat set \<Rightarrow> nat \<Rightarrow> kernel_state \<Rightarrow> string_term \<Rightarrow> u8 list \<Rightarrow> bool" where
  "denotes B L k (Literal p) t \<longleftrightarrow>
     c_string (k_bytes k) p t \<and> string_bytes p t \<subseteq> kernel_client k - B \<and> length t \<le> L"
| "denotes B L k (NumberText v) t \<longleftrightarrow> t = []"
| "denotes B L k (SizedText n) t \<longleftrightarrow> t = replicate (unat n) 0 \<and> unat n \<le> L"
| "denotes B L k (Plus a b) t \<longleftrightarrow>
     (\<exists>x y. denotes B L k a x \<and> denotes B L k b y \<and> length x + length y \<le> L \<and> t = text_of (x @ y))"
| "denotes B L k (Made s) t \<longleftrightarrow> object_bytes B k s t"

text \<open>What a call does to the state: as \<open>kb.grown\<close>, but the buffers may be written.\<close>

definition grown_but :: "nat set \<Rightarrow> kernel_state \<Rightarrow> nat \<Rightarrow> kernel_state \<Rightarrow> bool" where
  "grown_but B k n k' \<longleftrightarrow> heap_inv k' \<and> kernel_client k \<subseteq> kernel_client k' \<and>
     same_bytes (kernel_client k - B) (k_bytes k) (k_bytes k') \<and> heap_avail k \<le> heap_avail k' + n \<and>
     kernel_blocks k \<subseteq> kernel_blocks k'"

lemma grown_but_grown: "kb.grown k n k' \<Longrightarrow> grown_but B k n k'"
  unfolding kb.grown_def grown_but_def by (blast intro: same_bytes_mono)

lemma grown_but_trans:
  assumes "grown_but B k n k'" and "grown_but B k' n' k''"
  shows "grown_but B k (n + n') k''"
proof -
  have "same_bytes (kernel_client k - B) (k_bytes k') (k_bytes k'')"
    using assms unfolding grown_but_def by (blast intro: same_bytes_mono)
  then show ?thesis using assms same_bytes_trans unfolding grown_but_def by (auto simp: subset_trans)
qed

lemma grown_but_mono: "grown_but B k n k' \<Longrightarrow> n \<le> n' \<Longrightarrow> grown_but B k n' k'"
  by (auto simp: grown_but_def)

lemma string_raw_same:
  assumes s: "string_raw k s t" and sub: "kernel_client k \<subseteq> kernel_client k'"
    and same: "same_bytes {unat (m_Data s)..<unat (m_Data s) + length t} (k_bytes k) (k_bytes k')"
  shows "string_raw k' s t"
proof -
  have "k_bytes k' (m_Data s + of_nat i) = k_bytes k (m_Data s + of_nat i)" if "i < length t" for i
  proof -
    have "unat (m_Data s) + i \<in> {unat (m_Data s)..<unat (m_Data s) + length t}" using that by simp
    with same have "k_bytes k' (of_nat (unat (m_Data s) + i)) = k_bytes k (of_nat (unat (m_Data s) + i))"
      unfolding same_bytes_def by blast
    then show ?thesis by simp
  qed
  then show ?thesis using s sub unfolding string_raw_def by (metis subset_trans)
qed

lemma object_bytes_grown:
  assumes o: "object_bytes B k s t" and g: "grown_but B k n k'"
  shows "object_bytes B k' s t"
proof (cases "string_val k s t \<and> (m_Data s = 0 \<or> string_bytes (m_Data s) t \<inter> B = {})")
  case True
  then have "m_Data s \<noteq> 0 \<Longrightarrow> same_bytes (string_bytes (m_Data s) t) (k_bytes k) (k_bytes k')"
    using g unfolding grown_but_def string_val_def by (blast intro: same_bytes_mono)
  then have "string_val k' s t"
    using True g c_string_same unfolding grown_but_def string_val_def by blast
  with True show ?thesis by (simp add: object_bytes_def)
next
  case False
  then have raw: "0 \<in> set t" "string_raw k s t" "{unat (m_Data s)..<unat (m_Data s) + length t} \<inter> B = {}"
    using o by (auto simp: object_bytes_def)
  then have "{unat (m_Data s)..<unat (m_Data s) + length t} \<subseteq> kernel_client k" by (auto simp: string_raw_def)
  then have "same_bytes {unat (m_Data s)..<unat (m_Data s) + length t} (k_bytes k) (k_bytes k')"
    using g raw(3) unfolding grown_but_def by (blast intro: same_bytes_mono)
  then have "string_raw k' s t" using string_raw_same [OF raw(2)] g by (simp add: grown_but_def)
  with raw show ?thesis by (simp add: object_bytes_def)
qed

lemma denotes_grown: "denotes B L k a t \<Longrightarrow> grown_but B k n k' \<Longrightarrow> denotes B L k' a t"
proof (induction a arbitrary: t)
  case (Literal p)
  then have "same_bytes (string_bytes p t) (k_bytes k) (k_bytes k')"
    unfolding grown_but_def by (auto intro: same_bytes_mono)
  with Literal show ?case using c_string_same unfolding grown_but_def by auto
next
  case (Plus a b)
  then obtain x y where "denotes B L k a x" "denotes B L k b y" "length x + length y \<le> L" "t = text_of (x @ y)"
    by (simp only: denotes.simps) blast
  with Plus show ?case by (simp only: denotes.simps) blast
next
  case (Made s)
  then show ?case using object_bytes_grown by simp
qed simp_all

section \<open>Calls\<close>

definition owned :: "kernel_state \<Rightarrow> estd_string \<Rightarrow> bool" where
  "owned k s \<longleftrightarrow> m_Data s = 0 \<or> unat (m_Data s) \<in> kernel_blocks k"

lemma owned_grown: "owned k s \<Longrightarrow> grown_but B k n k' \<Longrightarrow> owned k' s"
  by (auto simp: owned_def grown_but_def)

text \<open>The local buffer of \<^verbatim>\<open>ToString\<close>: the 12 bytes it can write, outside the heap's own bytes.\<close>

definition number_buffer :: "u32 \<Rightarrow> nat set" where
  "number_buffer buf = {unat buf..<unat buf + 12}"

text \<open>What the making of an object gives.\<close>

definition makes :: "nat set \<Rightarrow> nat \<Rightarrow> kernel_state \<Rightarrow> (estd_string \<times> kernel_state) option \<Rightarrow> u8 list \<Rightarrow> bool" where
  "makes B n k r t \<longleftrightarrow> (\<exists>s k'. r = Some (s, k') \<and> grown_but B k n k' \<and> object_bytes B k' s t \<and> owned k' s)"

lemma makes_Literal:
  assumes inv: "heap_inv k" and p: "denotes B L k (Literal p) t" and B: "B \<subseteq> kernel_client k"
    and room: "2 * L + 28 \<le> heap_avail k"
  shows "makes B (2 * L + 28) k (String_new p k) t"
proof -
  have c: "c_string (k_bytes k) p t" "string_bytes p t \<subseteq> kernel_client k" "length t \<le> L" using p by auto
  then have "length t + 14 \<le> heap_avail k" using room by simp
  then obtain s k' where S: "String_new p k = Some (s, k')" "kb.grown k (length t + 14) k'" "string_val k' s t"
    "string_bytes (m_Data s) t \<inter> kernel_client k = {}" "unat (m_Data s) \<in> kernel_blocks k'"
    by (rule String_new_ok [OF inv c(1,2)]) blast
  moreover have "grown_but B k (2 * L + 28) k'"
    by (rule grown_but_mono [OF grown_but_grown [OF S(2)]]) (use c(3) in simp)
  moreover have "string_bytes (m_Data s) t \<inter> B = {}" using S(4) B by blast
  ultimately show ?thesis by (auto simp: makes_def object_bytes_def owned_def)
qed

lemma makes_NumberText:
  assumes inv: "heap_inv k" and B: "number_buffer buf \<subseteq> kernel_client k"
  shows "makes (number_buffer buf) n k (StringUtil_ToString buf v k) []"
proof -
  obtain m where M: "StringUtil_ToString buf v k = Some (String_default, k\<lparr>k_bytes := m\<rparr>)"
    "\<forall>x. \<not> unat (x - buf) < 12 \<longrightarrow> m x = k_bytes k x" by (rule StringUtil_ToString_eq)
  have top: "unat buf + 12 \<le> 4294967296"
  proof -
    have "unat buf + 11 \<in> number_buffer buf" by (simp add: number_buffer_def)
    then have "unat buf + 11 < 4294967296" using B kernel_client_range [of k] by blast
    then show ?thesis by simp
  qed
  have "m (of_nat x) = k_bytes k (of_nat x)" if x: "x \<in> {..<4294967296} - number_buffer buf" for x
    using M(2) offset_in_block [of x buf 12] x top by (auto simp: number_buffer_def)
  then have same: "same_bytes ({..<4294967296} - number_buffer buf) (k_bytes k) m" by (simp add: same_bytes_def)
  then have "same_bytes ({..<4294967296} - kernel_client k) (k_bytes k) m" "same_bytes (kernel_client k - number_buffer buf) (k_bytes k) m"
    using B kernel_client_range [of k] by (auto intro: same_bytes_mono)
  then have "grown_but (number_buffer buf) k n (k\<lparr>k_bytes := m\<rparr>)"
    using heap_inv_write [OF inv] kernel_blocks_write [OF inv] by (simp add: grown_but_def heap_avail_def)
  then show ?thesis
    using M(1) string_val_default by (auto simp: makes_def object_bytes_def owned_def String_default_def)
qed

lemma makes_SizedText:
  assumes inv: "heap_inv k" and n: "unat n \<le> L" and B: "B \<subseteq> kernel_client k" and room: "2 * L + 28 \<le> heap_avail k"
  shows "makes B (2 * L + 28) k (String_fill n 0 k) (replicate (unat n) 0)"
proof (cases "n = 0")
  case True
  then have "String_fill n 0 k = Some (String_default, k)"
    by (simp add: String_fill_def operator_new_array_def KMalloc_def Heap_Allocate_def String_default_def Memset_def)
  moreover have "grown_but B k (2 * L + 28) k" using inv by (simp add: grown_but_def)
  ultimately show ?thesis
    using True string_val_default by (auto simp: makes_def object_bytes_def owned_def String_default_def)
next
  case False
  let ?l = "replicate (unat n) (0 :: u8)"
  have l: "unat n = length ?l" "?l \<noteq> []" "length ?l + 13 \<le> heap_avail k"
    using False n room by (simp_all add: unat_eq_0)
  from kb.alloc_list [OF inv l] obtain a k1 where A: "KMalloc n k = Some (a, k1)" "unat a + length ?l < 4294967296"
    "kernel_client k \<inter> {unat a..<unat a + length ?l} = {}"
    "kb.grown k (length ?l + 13) (k1\<lparr>k_bytes := write_list a ?l (k_bytes k1)\<rparr>)"
    "{unat a..<unat a + length ?l} \<subseteq> kernel_client (k1\<lparr>k_bytes := write_list a ?l (k_bytes k1)\<rparr>)"
    "unat a \<in> kernel_blocks (k1\<lparr>k_bytes := write_list a ?l (k_bytes k1)\<rparr>)"
    by metis
  let ?k = "k1\<lparr>k_bytes := write_list a ?l (k_bytes k1)\<rparr>" and ?s = "\<lparr>m_Data = a, m_Size = n\<rparr>"
  have "Memset a (scast (0 :: u8)) n (k_bytes k1) = write_list a ?l (k_bytes k1)"
    by (rule ext) (simp add: Memset_eq write_list_def)
  then have "String_fill n 0 k = Some (?s, ?k)" using A(1) by (simp add: String_fill_def operator_new_array_def)
  moreover have "grown_but B k (2 * L + 28) ?k"
    by (rule grown_but_mono [OF grown_but_grown [OF A(4)]]) (use n in simp)
  moreover have "write_list a ?l (k_bytes k1) (a + of_nat i) = ?l ! i" if "i < unat n" for i
    using that A(2) by (intro write_list_inside) simp_all
  then have "string_raw ?k ?s ?l" using A(2,5) by (simp add: string_raw_def)
  moreover have "0 \<in> set ?l" using False by (simp add: unat_eq_0)
  moreover have "{unat a..<unat a + length ?l} \<inter> B = {}" using A(3) B by blast
  ultimately show ?thesis using A(6) by (auto simp: makes_def object_bytes_def owned_def)
qed

lemma makes_Plus:
  assumes inv: "heap_inv k" and s: "object_bytes B k s x" and s': "object_bytes B k s' y"
    and L: "length x + length y \<le> L" and B: "B \<subseteq> kernel_client k" and room: "2 * L + 28 \<le> heap_avail k"
  shows "makes B (2 * L + 28) k (String_plus s s' k) (text_of (x @ y))"
proof -
  have "2 * (length x + length y) + 28 \<le> heap_avail k" using L room by simp
  then obtain r k' where R: "String_plus s s' k = Some (r, k')" "kb.grown k (2 * (length x + length y) + 28) k'"
    "string_val k' r (text_of (x @ y))" "string_bytes (m_Data r) (text_of (x @ y)) \<inter> kernel_client k = {}"
    "unat (m_Data r) \<in> kernel_blocks k'"
    by (rule String_plus_raw [OF inv object_bytes_raw [OF s] object_bytes_raw [OF s']]) blast
  moreover have "grown_but B k (2 * L + 28) k'"
    by (rule grown_but_mono [OF grown_but_grown [OF R(2)]]) (use L in simp)
  moreover have "string_bytes (m_Data r) (text_of (x @ y)) \<inter> B = {}" using R(4) B by blast
  ultimately show ?thesis by (auto simp: makes_def object_bytes_def owned_def)
qed

text \<open>One call makes progress, keeps what the expression stands for, and needs a bounded part of the heap.\<close>

lemma make_call_ok:
  assumes inv: "heap_inv k" and buf: "number_buffer buf \<subseteq> kernel_client k" and room: "2 * L + 28 \<le> heap_avail k"
    and a: "denotes (number_buffer buf) L k a t" and i: "i < open_calls a"
  shows "\<exists>a' s k'. make_call buf a i k = Some (a', s, k') \<and> grown_but (number_buffer buf) k (2 * L + 28) k' \<and>
    denotes (number_buffer buf) L k' a' t \<and> owned k' s \<and> calls_left a = Suc (calls_left a') \<and>
    (\<forall>s'. a' = Made s' \<longrightarrow> s' = s)"
  using a i
proof (induction a arbitrary: i t)
  case (Literal p)
  from makes_Literal [OF inv Literal(1) buf room] show ?case by (auto simp: makes_def made_def)
next
  case (NumberText v)
  from makes_NumberText [OF inv buf, of "2 * L + 28" v] NumberText show ?case by (auto simp: makes_def made_def)
next
  case (SizedText n)
  then have "unat n \<le> L" "t = replicate (unat n) 0" by simp_all
  from makes_SizedText [OF inv this(1) buf room] this(2) show ?case by (auto simp: makes_def made_def)
next
  case (Plus a b)
  let ?B = "number_buffer buf"
  obtain x y where xy: "denotes ?B L k a x" "denotes ?B L k b y" "length x + length y \<le> L" "t = text_of (x @ y)"
    using Plus.prems(1) by (simp only: denotes.simps) blast
  have add: "denotes ?B L k' (Plus a' b') t" if "denotes ?B L k' a' x" "denotes ?B L k' b' y" for k' a' b'
    using that xy(3,4) by (simp only: denotes.simps) blast
  consider (both) "open_calls a + open_calls b = 0" | (left) "i < open_calls a"
    | (right) "open_calls a + open_calls b \<noteq> 0" "\<not> i < open_calls a" by linarith
  then show ?case
  proof cases
    case both
    then obtain s s' where m: "a = Made s" "b = Made s'" using open_calls_zero by auto
    then have "makes ?B (2 * L + 28) k (String_plus s s' k) t"
      using makes_Plus [OF inv _ _ xy(3) buf room] xy by simp
    then show ?thesis by (auto simp: makes_def made_def m)
  next
    case left
    obtain a' s k' where A: "make_call buf a i k = Some (a', s, k')" "grown_but ?B k (2 * L + 28) k'"
      "denotes ?B L k' a' x" "owned k' s" "calls_left a = Suc (calls_left a')"
      using Plus.IH(1) [OF xy(1) left] by blast
    then show ?thesis using left add [OF A(3) denotes_grown [OF xy(2) A(2)]] by simp
  next
    case right
    then have ib: "i - open_calls a < open_calls b" using Plus.prems(2) by auto
    then obtain b' s k' where A: "make_call buf b (i - open_calls a) k = Some (b', s, k')"
      "grown_but ?B k (2 * L + 28) k'" "denotes ?B L k' b' y" "owned k' s" "calls_left b = Suc (calls_left b')"
      using Plus.IH(2) [OF xy(2)] by blast
    then show ?thesis using right ib add [OF denotes_grown [OF xy(1) A(2)] A(3)] by simp
  qed
qed simp

text \<open>Under every order that is long enough the expression is evaluated.\<close>

lemma evaluate_ok:
  assumes "heap_inv k" and "number_buffer buf \<subseteq> kernel_client k" and "denotes (number_buffer buf) L k a t"
    and "calls_left a \<le> length order" and "calls_left a * (2 * L + 28) \<le> heap_avail k" and "\<forall>s\<in>set objs. owned k s"
    and "\<forall>s. a = Made s \<longrightarrow> (\<exists>objs'. objs = s # objs')"
  shows "\<exists>s objs' k'. evaluate buf order a objs k = Some (s # objs', k') \<and>
    grown_but (number_buffer buf) k (calls_left a * (2 * L + 28)) k' \<and> object_bytes (number_buffer buf) k' s t \<and>
    (\<forall>s\<in>set objs'. owned k' s)"
  using assms
proof (induction order arbitrary: k a objs)
  case Nil
  then obtain s where "a = Made s" using calls_left_zero by auto
  with Nil show ?case by (auto simp: grown_but_def)
next
  case (Cons i order)
  let ?B = "number_buffer buf" and ?n = "2 * L + 28"
  show ?case
  proof (cases "calls_left a = 0")
    case True
    then obtain s where "a = Made s" using calls_left_zero by auto
    with Cons.prems show ?thesis by (auto simp: grown_but_def)
  next
    case False
    then have "0 < open_calls a" using open_calls_zero calls_left_zero by (metis gr0I)
    then have i: "i mod open_calls a < open_calls a" by simp
    have room: "?n \<le> heap_avail k" using Cons.prems(5) False by (cases "calls_left a") auto
    obtain a' s k' where A: "make_call buf a (i mod open_calls a) k = Some (a', s, k')" "grown_but ?B k ?n k'"
      "denotes ?B L k' a' t" "owned k' s" "calls_left a = Suc (calls_left a')" "\<forall>s'. a' = Made s' \<longrightarrow> s' = s"
      using make_call_ok [OF Cons.prems(1,2) room Cons.prems(3) i] by blast
    have g: "heap_inv k'" "?B \<subseteq> kernel_client k'" using A(2) Cons.prems(2) by (auto simp: grown_but_def)
    have "calls_left a' \<le> length order" "calls_left a' * ?n \<le> heap_avail k'"
      using A(2,5) Cons.prems(4,5) by (auto simp: grown_but_def)
    moreover have "\<forall>r\<in>set (s # objs). owned k' r" using A(4) Cons.prems(6) owned_grown [OF _ A(2)] by auto
    moreover have "\<forall>r. a' = Made r \<longrightarrow> (\<exists>objs'. s # objs = r # objs')" using A(6) by simp
    ultimately obtain r objs' k'' where R: "evaluate buf order a' (s # objs) k' = Some (r # objs', k'')"
      "grown_but ?B k' (calls_left a' * ?n) k''" "object_bytes ?B k'' r t" "\<forall>s\<in>set objs'. owned k'' s"
      using Cons.IH [OF g A(3)] by blast
    have "grown_but ?B k (calls_left a * ?n) k''"
      by (rule grown_but_mono [OF grown_but_trans [OF A(2) R(2)]]) (simp add: A(5))
    with R False A(1) show ?thesis by auto
  qed
qed

text \<open>The destructors of the temporary objects: no text of a client changes, the result's included.\<close>

lemma String_destroy_fold:
  "fold String_destroy ss k = k\<lparr>k_bytes := fold Heap_Free (filter (\<lambda>a. a \<noteq> 0) (List.map m_Data ss)) (k_bytes k)\<rparr>"
  by (induction ss arbitrary: k) (simp_all add: String_destroy_def operator_delete_array_def KFree_def)

lemma destroy_keeps_clients:
  assumes "heap_inv k" and "\<forall>s\<in>set ss. owned k s"
  shows "same_bytes (kernel_client k) (k_bytes k) (k_bytes (fold String_destroy ss k))"
proof -
  have "\<forall>a\<in>set (filter (\<lambda>a. a \<noteq> 0) (List.map m_Data ss)). a = 0 \<or> unat a \<in> kernel_blocks k"
    using assms(2) by (auto simp: owned_def)
  from frees_keep_clients [OF assms(1) this] show ?thesis by (simp add: String_destroy_fold)
qed

text \<open>An object that holds a text: its size, and the terminated copy of the text.\<close>

definition holds_text :: "kernel_state \<Rightarrow> estd_string \<Rightarrow> u8 list \<Rightarrow> bool" where
  "holds_text k s t \<longleftrightarrow> unat (m_Size s) = length t \<and> c_string (k_bytes k) (m_Data s) t"

lemma full_expression_ok:
  assumes inv: "heap_inv k" and buf: "number_buffer buf \<subseteq> kernel_client k"
    and a: "denotes (number_buffer buf) L k a t" "0 \<notin> set t" "t \<noteq> []" "calls_left a \<noteq> 0"
    and order: "calls_left a \<le> length order" and room: "calls_left a * (2 * L + 28) \<le> heap_avail k"
  obtains s k' where "full_expression buf order a k = Some (s, k')" and "holds_text k' s t"
    and "same_bytes (kernel_client k - number_buffer buf) (k_bytes k) (k_bytes k')"
proof -
  let ?B = "number_buffer buf"
  have "\<forall>s. a = Made s \<longrightarrow> (\<exists>objs'. [] = s # objs')" using a(4) by auto
  then obtain s objs k1 where E: "evaluate buf order a [] k = Some (s # objs, k1)"
    "grown_but ?B k (calls_left a * (2 * L + 28)) k1" "object_bytes ?B k1 s t" "\<forall>s\<in>set objs. owned k1 s"
    using evaluate_ok [OF inv buf a(1) order room, of "[]"] by auto
  let ?k = "fold String_destroy objs k1"
  have inv1: "heap_inv k1" using E(2) by (simp add: grown_but_def)
  note keep = destroy_keeps_clients [OF inv1 E(4)]
  have val: "unat (m_Size s) = length t" "c_string (k_bytes k1) (m_Data s) t" "string_bytes (m_Data s) t \<subseteq> kernel_client k1"
    using E(3) a(2,3) by (auto simp: object_bytes_def string_val_def)
  then have "holds_text ?k s t"
    using c_string_same [OF val(2) same_bytes_mono [OF keep val(3)]] by (simp add: holds_text_def)
  moreover have "same_bytes (kernel_client k - ?B) (k_bytes k) (k_bytes ?k)"
  proof (rule same_bytes_trans)
    show "same_bytes (kernel_client k - ?B) (k_bytes k) (k_bytes k1)" using E(2) by (simp add: grown_but_def)
    show "same_bytes (kernel_client k - ?B) (k_bytes k1) (k_bytes ?k)"
      using E(2) by (intro same_bytes_mono [OF keep]) (auto simp: grown_but_def)
  qed
  ultimately show ?thesis using E(1) by (intro that [of s ?k]) (simp_all add: full_expression_def)
qed

section \<open>Chains of sums\<close>

text \<open>\<open>a + b + c + ...\<close> associates to the left. A sum ends at the first zero of its bytes.\<close>

lemma denotes_sum:
  assumes "denotes B L k a x" and "list_all2 (denotes B L k) ts ys" and "0 \<notin> set x"
    and "length x + sum_list (List.map length ys) \<le> L"
  shows "denotes B L k (foldl Plus a ts) (x @ concat (List.map text_of ys))"
  using assms
proof (induction ts arbitrary: a x ys)
  case (Cons t ts)
  then obtain y ys' where ys: "ys = y # ys'" "denotes B L k t y" "list_all2 (denotes B L k) ts ys'"
    by (auto simp: list_all2_Cons1)
  have cut: "text_of (x @ y) = x @ text_of y" using Cons.prems(3) by (intro takeWhile_append2) auto
  have "denotes B L k (Plus a t) (x @ text_of y)"
  proof (simp only: denotes.simps, intro exI conjI)
    show "denotes B L k a x" "denotes B L k t y" "x @ text_of y = text_of (x @ y)" using Cons.prems(1) ys cut by simp_all
    show "length x + length y \<le> L" using Cons.prems(4) by (simp add: ys(1))
  qed
  moreover have "0 \<notin> set (x @ text_of y)" using Cons.prems(3) by (auto dest: set_takeWhileD)
  moreover have "length (x @ text_of y) + sum_list (List.map length ys') \<le> L"
    using Cons.prems(4) length_takeWhile_le [of "\<lambda>c. c \<noteq> 0" y] by (simp add: ys(1))
  ultimately have "denotes B L k (foldl Plus (Plus a t) ts) ((x @ text_of y) @ concat (List.map text_of ys'))"
    by (rule Cons.IH [OF _ ys(3)])
  then show ?case by (simp add: ys(1) del: denotes.simps)
qed simp

lemma calls_left_sum: "calls_left (foldl Plus a ts) = calls_left a + sum_list (List.map (\<lambda>t. Suc (calls_left t)) ts)"
  by (induction ts arbitrary: a) simp_all

end
