(* ===== verification/ATADevice.thy ===== *)
theory ATADevice
  imports StringSum Report
begin

text \<open>
  \<^verbatim>\<open>Kernel/Drivers/Storage/ATA/ATADevice.h\<close>: the identification a drive gives, and the functions that make
  strings of it. An array member is the list of its elements. \<open>lit\<close> gives the address of a string literal.
\<close>

section \<open>Data\<close>

datatype ATADeviceCapabilities = CapDMA | CapSMART | CapLBA | CapATAPI

primrec ATADeviceCapabilities_value :: "ATADeviceCapabilities \<Rightarrow> u16" where
  "ATADeviceCapabilities_value CapDMA = push_bit 0 1"
| "ATADeviceCapabilities_value CapSMART = push_bit 1 1"
| "ATADeviceCapabilities_value CapLBA = push_bit 2 1"
| "ATADeviceCapabilities_value CapATAPI = push_bit 3 1"

datatype ATADeviceCommandSet = SetATA | SetATAPI | SetSMART

primrec ATADeviceCommandSet_value :: "ATADeviceCommandSet \<Rightarrow> u16" where
  "ATADeviceCommandSet_value SetATA = push_bit 0 1"
| "ATADeviceCommandSet_value SetATAPI = push_bit 1 1"
| "ATADeviceCommandSet_value SetSMART = push_bit 2 1"

record ATADeviceGeometry =
  Cylinders :: "u16 list"
  Heads :: "u16 list"
  Sectors :: "u16 list"

record ATADeviceCapacity =
  TotalSectors :: u32
  ExtendedCapacity :: u16

record ATADeviceTransferModes =
  DMAModes :: "u16 list"
  RecommendedPIO :: "u16 list"

record ATADeviceLBAInfo =
  LBASupport :: "u16 list"
  LBA48Support :: u16

text \<open>The two enumerations of the record are flags, so they are kept as the words they are made of.\<close>

record ATADeviceInfo =
  Reserved :: "u16 list"
  Capabilities :: u16
  ReservedFlags :: u16
  ModelNumber :: "u16 list"
  FirmwareRevision :: "u8 list"
  SerialNumber :: "u16 list"
  Geometry :: ATADeviceGeometry
  Capacity :: ATADeviceCapacity
  TransferModes :: ATADeviceTransferModes
  LBAInfo :: ATADeviceLBAInfo
  CommandSets :: u16
  SectorSize :: "u32 list"

section \<open>Operations\<close>

text \<open>\<^verbatim>\<open>s += "..."\<close>: the literal becomes a temporary object that is destroyed after the statement.\<close>

definition append_literal :: "u32 \<Rightarrow> estd_string \<Rightarrow> kernel_state \<Rightarrow> (estd_string \<times> kernel_state) option" where
  "append_literal p s k = do {
     (tmp, k1) \<leftarrow> String_new p k;
     (s1, k2) \<leftarrow> String_plus_assign s tmp k1;
     Some (s1, String_destroy tmp k2)
   }"

definition append_if :: "bool \<Rightarrow> u32 \<Rightarrow> estd_string \<Rightarrow> kernel_state \<Rightarrow> (estd_string \<times> kernel_state) option" where
  "append_if b p s k = (if b then append_literal p s k else Some (s, k))"

definition GetCapabilitiesString ::
  "(string \<Rightarrow> u32) \<Rightarrow> ATADeviceInfo \<Rightarrow> kernel_state \<Rightarrow> (estd_string \<times> kernel_state) option" where
  "GetCapabilitiesString lit info k = do {
     (s1, k1) \<leftarrow> append_if (Capabilities info AND ATADeviceCapabilities_value CapDMA \<noteq> 0) (lit ''DMA '') String_default k;
     (s2, k2) \<leftarrow> append_if (Capabilities info AND ATADeviceCapabilities_value CapSMART \<noteq> 0) (lit ''ATAPI '') s1 k1;
     (s3, k3) \<leftarrow> append_if (Capabilities info AND ATADeviceCapabilities_value CapLBA \<noteq> 0) (lit ''SMART '') s2 k2;
     append_if (Capabilities info AND ATADeviceCapabilities_value CapATAPI \<noteq> 0) (lit ''ATAPI '') s3 k3
   }"

definition GetCommandSetsString ::
  "(string \<Rightarrow> u32) \<Rightarrow> ATADeviceInfo \<Rightarrow> kernel_state \<Rightarrow> (estd_string \<times> kernel_state) option" where
  "GetCommandSetsString lit info k = do {
     (s1, k1) \<leftarrow> append_if (CommandSets info AND ATADeviceCommandSet_value SetATA \<noteq> 0) (lit ''ATA '') String_default k;
     (s2, k2) \<leftarrow> append_if (CommandSets info AND ATADeviceCommandSet_value SetATAPI \<noteq> 0) (lit ''ATAPI '') s1 k1;
     append_if (CommandSets info AND ATADeviceCommandSet_value SetSMART \<noteq> 0) (lit ''SMART '') s2 k2
   }"

text \<open>The loop over a text of 16-bit words, for the model and the serial number.\<close>

primrec words_string :: "u16 list \<Rightarrow> estd_string \<Rightarrow> kernel_state \<Rightarrow> (estd_string \<times> kernel_state) option" where
  "words_string [] s k = Some (s, k)"
| "words_string (w # ws) s k =
     (let c1 = ucast (w AND 0xFF) :: u8; c2 = ucast (drop_bit 8 w AND 0xFF) :: u8 in do {
        (s1, k1) \<leftarrow> String_plus_assign_char s (if c1 \<noteq> 0 then c1 else c2) k;
        (if c1 = 0 \<and> c2 = 0 then Some (s1, k1) else words_string ws s1 k1)
      })"

definition GetModelNumberString :: "ATADeviceInfo \<Rightarrow> kernel_state \<Rightarrow> (estd_string \<times> kernel_state) option" where
  "GetModelNumberString info k = words_string (ModelNumber info) String_default k"

definition GetSerialNumberString :: "ATADeviceInfo \<Rightarrow> kernel_state \<Rightarrow> (estd_string \<times> kernel_state) option" where
  "GetSerialNumberString info k = words_string (SerialNumber info) String_default k"

primrec bytes_string :: "u8 list \<Rightarrow> estd_string \<Rightarrow> kernel_state \<Rightarrow> (estd_string \<times> kernel_state) option" where
  "bytes_string [] s k = Some (s, k)"
| "bytes_string (c # cs) s k = do { (s1, k1) \<leftarrow> String_plus_assign_char s c k; bytes_string cs s1 k1 }"

definition GetFirmwareRevisionString :: "ATADeviceInfo \<Rightarrow> kernel_state \<Rightarrow> (estd_string \<times> kernel_state) option" where
  "GetFirmwareRevisionString info k = bytes_string (FirmwareRevision info) String_default k"

definition GetSectorSizeString :: "ATADeviceInfo \<Rightarrow> u32" where
  "GetSectorSizeString info = push_bit 16 (SectorSize info ! 1) OR SectorSize info ! 0"

text \<open>
  The texts that are sums. They are functions of the four parts of the record; those of the record itself
  forward to them. \<open>buf\<close> is where \<^verbatim>\<open>ToString\<close> has its local buffer, \<open>order\<close> the order of the calls.
\<close>

definition ATADeviceGeometry_GetGeometryString ::
  "(string \<Rightarrow> u32) \<Rightarrow> u32 \<Rightarrow> nat list \<Rightarrow> ATADeviceGeometry \<Rightarrow> kernel_state \<Rightarrow> (estd_string \<times> kernel_state) option" where
  "ATADeviceGeometry_GetGeometryString lit buf order g k = full_expression buf order
     (foldl Plus (Literal (lit ''Cylinders: ''))
        [NumberText (ucast (Cylinders g ! 0)), Literal (lit '', ''),
         Literal (lit ''Heads: ''), NumberText (ucast (Heads g ! 0)), Literal (lit '', ''),
         Literal (lit ''Sectors: ''), NumberText (ucast (Sectors g ! 0))]) k"

definition ATADeviceCapacity_GetCapacityString ::
  "(string \<Rightarrow> u32) \<Rightarrow> u32 \<Rightarrow> nat list \<Rightarrow> ATADeviceCapacity \<Rightarrow> kernel_state \<Rightarrow> (estd_string \<times> kernel_state) option" where
  "ATADeviceCapacity_GetCapacityString lit buf order c k = full_expression buf order
     (foldl Plus (Literal (lit ''TotalSectors: ''))
        [NumberText (TotalSectors c), Literal (lit '', ''),
         Literal (lit ''ExtendedCapacity: ''), NumberText (ucast (ExtendedCapacity c))]) k"

definition ATADeviceTransferModes_GetTransferModesString ::
  "(string \<Rightarrow> u32) \<Rightarrow> u32 \<Rightarrow> nat list \<Rightarrow> ATADeviceTransferModes \<Rightarrow> kernel_state \<Rightarrow>
     (estd_string \<times> kernel_state) option" where
  "ATADeviceTransferModes_GetTransferModesString lit buf order tm k = full_expression buf order
     (foldl Plus (Literal (lit ''DMA Modes: ''))
        [NumberText (ucast (DMAModes tm ! 0)), Literal (lit '', ''),
         Literal (lit ''PIO Modes: ''), NumberText (ucast (RecommendedPIO tm ! 0))]) k"

definition ATADeviceLBAInfo_GetLBAInfoString ::
  "(string \<Rightarrow> u32) \<Rightarrow> u32 \<Rightarrow> nat list \<Rightarrow> ATADeviceLBAInfo \<Rightarrow> kernel_state \<Rightarrow> (estd_string \<times> kernel_state) option" where
  "ATADeviceLBAInfo_GetLBAInfoString lit buf order l k = full_expression buf order
     (foldl Plus (Literal (lit ''LBA Support: ''))
        [SizedText (ucast (LBASupport l ! 0)), Literal (lit '', LBA48 Support: ''),
         SizedText (ucast (LBA48Support l))]) k"

definition GetGeometryString ::
  "(string \<Rightarrow> u32) \<Rightarrow> u32 \<Rightarrow> nat list \<Rightarrow> ATADeviceInfo \<Rightarrow> kernel_state \<Rightarrow> (estd_string \<times> kernel_state) option" where
  "GetGeometryString lit buf order info = ATADeviceGeometry_GetGeometryString lit buf order (Geometry info)"

definition GetCapacityString ::
  "(string \<Rightarrow> u32) \<Rightarrow> u32 \<Rightarrow> nat list \<Rightarrow> ATADeviceInfo \<Rightarrow> kernel_state \<Rightarrow> (estd_string \<times> kernel_state) option" where
  "GetCapacityString lit buf order info = ATADeviceCapacity_GetCapacityString lit buf order (Capacity info)"

definition GetTransferModesString ::
  "(string \<Rightarrow> u32) \<Rightarrow> u32 \<Rightarrow> nat list \<Rightarrow> ATADeviceInfo \<Rightarrow> kernel_state \<Rightarrow> (estd_string \<times> kernel_state) option" where
  "GetTransferModesString lit buf order info =
     ATADeviceTransferModes_GetTransferModesString lit buf order (TransferModes info)"

definition GetLBAInfoString ::
  "(string \<Rightarrow> u32) \<Rightarrow> u32 \<Rightarrow> nat list \<Rightarrow> ATADeviceInfo \<Rightarrow> kernel_state \<Rightarrow> (estd_string \<times> kernel_state) option" where
  "GetLBAInfoString lit buf order info = ATADeviceLBAInfo_GetLBAInfoString lit buf order (LBAInfo info)"

section \<open>The texts\<close>

text \<open>What a run of one-character sums needs: at most \<open>n\<close> characters, each sum two blocks.\<close>

definition sums_need :: "nat \<Rightarrow> nat" where
  "sums_need n = n * (2 * n + 30)"

text \<open>A word gives one character, the low byte if there is one.\<close>

definition word_char :: "u16 \<Rightarrow> u8" where
  "word_char w = (if ucast (w AND 0xFF) \<noteq> (0 :: u8) then ucast (w AND 0xFF) else ucast (drop_bit 8 w AND 0xFF))"

lemma word_char_zero: "word_char w = 0 \<longleftrightarrow> w = 0"
proof
  assume z: "word_char w = 0"
  then have b: "ucast (w AND 0xFF) = (0 :: u8)" "ucast (drop_bit 8 w AND 0xFF) = (0 :: u8)"
    by (auto simp: word_char_def split: if_splits)
  have m: "w AND 0xFF = take_bit 8 w" "drop_bit 8 w AND 0xFF = take_bit 8 (drop_bit 8 w)"
    by (simp_all add: take_bit_eq_mask mask_eq_exp_minus_1)
  have "ucast (ucast (w AND 0xFF) :: u8) OR push_bit 8 (ucast (ucast (drop_bit 8 w AND 0xFF) :: u8)) = w"
    unfolding m by (rule bit_word_eqI) (auto simp: bit_simps)
  with b show "w = 0" by simp
qed (simp add: word_char_def)

lemma plus_char_step:
  assumes inv: "heap_inv k" and s: "string_val k s t" and len: "length t + Suc j \<le> n"
    and room: "Suc j * (2 * n + 30) \<le> heap_avail k"
  obtains s1 k1 where "String_plus_assign_char s c k = Some (s1, k1)" and "kb.grown k (2 * n + 30) k1"
    and "heap_inv k1" and "string_val k1 s1 (if c = 0 then t else t @ [c])" and "j * (2 * n + 30) \<le> heap_avail k1"
proof -
  have "2 * length t + 30 \<le> heap_avail k" using len room by simp
  then obtain s1 k1 where S: "String_plus_char s c k = Some (s1, k1)" "kb.grown k (2 * length t + 30) k1"
    "string_val k1 s1 (if c = 0 then t else t @ [c])"
    by (rule String_plus_char_ok [OF inv s]) blast
  have g: "kb.grown k (2 * n + 30) k1" by (rule kb.grown_mono [OF S(2)]) (use len in simp)
  show ?thesis
    using S(1,3) g room by (intro that) (auto simp: plus_assign_is_plus kb.grown_def)
qed

lemma words_string_ok:
  assumes "heap_inv k" and "string_val k s t" and "length t + length ws \<le> n"
    and "length ws * (2 * n + 30) \<le> heap_avail k"
  shows "\<exists>s' k'. words_string ws s k = Some (s', k') \<and> kb.grown k (length ws * (2 * n + 30)) k' \<and>
    string_val k' s' (t @ map word_char (takeWhile (\<lambda>w. w \<noteq> 0) ws))"
  using assms
proof (induction ws arbitrary: s t k)
  case Nil
  then show ?case by (simp add: kb.grown_def)
next
  case (Cons w ws)
  obtain s1 k1 where S: "String_plus_assign_char s (word_char w) k = Some (s1, k1)" "kb.grown k (2 * n + 30) k1"
    "heap_inv k1" "string_val k1 s1 (if word_char w = 0 then t else t @ [word_char w])"
    "length ws * (2 * n + 30) \<le> heap_avail k1"
    by (rule plus_char_step [OF Cons.prems(1,2), where j = "length ws" and n = n]) (use Cons.prems(3,4) in auto)
  have step: "words_string (w # ws) s k = (if word_char w = 0 then Some (s1, k1) else words_string ws s1 k1)"
    using S(1) by (auto simp: word_char_def Let_def)
  show ?case
  proof (cases "w = 0")
    case True
    then have "word_char w = 0" by (simp add: word_char_zero)
    moreover have "kb.grown k (length (w # ws) * (2 * n + 30)) k1" by (rule kb.grown_mono [OF S(2)]) simp
    ultimately show ?thesis using S(4) True step by auto
  next
    case False
    then have w: "word_char w \<noteq> 0" by (simp add: word_char_zero)
    have "length (t @ [word_char w]) + length ws \<le> n" using Cons.prems(3) by simp
    then obtain s' k' where R: "words_string ws s1 k1 = Some (s', k')" "kb.grown k1 (length ws * (2 * n + 30)) k'"
      "string_val k' s' ((t @ [word_char w]) @ map word_char (takeWhile (\<lambda>w. w \<noteq> 0) ws))"
      using Cons.IH [OF S(3), of s1 "t @ [word_char w]"] S(4,5) w by auto
    have "kb.grown k (length (w # ws) * (2 * n + 30)) k'"
      by (rule kb.grown_mono [OF kb.grown_trans [OF S(2) R(2)]]) simp
    with R w step False show ?thesis by auto
  qed
qed

lemma bytes_string_ok:
  assumes "heap_inv k" and "string_val k s t" and "length t + length cs \<le> n"
    and "length cs * (2 * n + 30) \<le> heap_avail k"
  shows "\<exists>s' k'. bytes_string cs s k = Some (s', k') \<and> kb.grown k (length cs * (2 * n + 30)) k' \<and>
    string_val k' s' (t @ filter (\<lambda>c. c \<noteq> 0) cs)"
  using assms
proof (induction cs arbitrary: s t k)
  case Nil
  then show ?case by (simp add: kb.grown_def)
next
  case (Cons c cs)
  let ?t = "if c = 0 then t else t @ [c]"
  obtain s1 k1 where S: "String_plus_assign_char s c k = Some (s1, k1)" "kb.grown k (2 * n + 30) k1"
    "heap_inv k1" "string_val k1 s1 ?t" "length cs * (2 * n + 30) \<le> heap_avail k1"
    by (rule plus_char_step [OF Cons.prems(1,2), where j = "length cs" and n = n]) (use Cons.prems(3,4) in auto)
  have "length ?t + length cs \<le> n" using Cons.prems(3) by simp
  then obtain s' k' where R: "bytes_string cs s1 k1 = Some (s', k')" "kb.grown k1 (length cs * (2 * n + 30)) k'"
    "string_val k' s' (?t @ filter (\<lambda>c. c \<noteq> 0) cs)"
    using Cons.IH [OF S(3,4) _ S(5)] by blast
  have "kb.grown k (length (c # cs) * (2 * n + 30)) k'"
    by (rule kb.grown_mono [OF kb.grown_trans [OF S(2) R(2)]]) simp
  with R S(1) show ?case by (auto split: if_splits)
qed

text \<open>The literals of the sums, where the program has them: outside the heap's own bytes and the local buffers.\<close>

definition sum_literals :: "string set" where
  "sum_literals = {''Cylinders: '', '', '', ''Heads: '', ''Sectors: '', ''TotalSectors: '', ''ExtendedCapacity: '',
     ''DMA Modes: '', ''PIO Modes: '', ''LBA Support: '', '', LBA48 Support: ''}"

definition literals_apart :: "(string \<Rightarrow> u32) \<Rightarrow> nat set \<Rightarrow> kernel_state \<Rightarrow> bool" where
  "literals_apart lit B k \<longleftrightarrow> (\<forall>s\<in>sum_literals. c_string (k_bytes k) (lit s) (bytes_of s) \<and>
     string_bytes (lit s) (bytes_of s) \<subseteq> kernel_client k - B)"

lemma literal_denotes:
  "literals_apart lit B k \<Longrightarrow> s \<in> sum_literals \<Longrightarrow> length s \<le> L \<Longrightarrow> denotes B L k (Literal (lit s)) (bytes_of s)"
  by (simp add: literals_apart_def bytes_of_def)

text \<open>The text of a function under every order, and the bytes it leaves alone.\<close>

definition always_gives ::
  "nat set \<Rightarrow> nat \<Rightarrow> (nat list \<Rightarrow> kernel_state \<Rightarrow> (estd_string \<times> kernel_state) option) \<Rightarrow> kernel_state \<Rightarrow> string \<Rightarrow> bool" where
  "always_gives B n f k t \<longleftrightarrow> (\<forall>order. n \<le> length order \<longrightarrow> (\<exists>s k'. f order k = Some (s, k') \<and>
     holds_text k' s (bytes_of t) \<and> same_bytes (kernel_client k - B) (k_bytes k) (k_bytes k')))"

lemma widened_flag: "unat (ucast (v :: u16) :: u32) = unat v"
proof -
  have "unat v < 2 ^ LENGTH(16)" by (rule unsigned_less)
  then show ?thesis by (simp add: unsigned_ucast_eq take_bit_nat_eq_self_iff)
qed

lemma sum_always_gives:
  assumes inv: "heap_inv k" and buf: "number_buffer buf \<subseteq> kernel_client k"
    and a: "denotes (number_buffer buf) L k a x" and ts: "list_all2 (denotes (number_buffer buf) L k) ts ys"
    and t: "x @ concat (List.map text_of ys) = bytes_of t" "0 \<notin> set (bytes_of t)" "x \<noteq> []"
    and L: "length x + sum_list (List.map length ys) \<le> L"
    and n: "calls_left (foldl Plus a ts) = n" "n \<noteq> 0" and room: "n * (2 * L + 28) \<le> heap_avail k"
  shows "always_gives (number_buffer buf) n (\<lambda>order. full_expression buf order (foldl Plus a ts)) k t"
  unfolding always_gives_def
proof (intro allI impI)
  fix order :: "nat list"
  assume order: "n \<le> length order"
  have "0 \<notin> set x" using t(1,2) by (metis Un_iff set_append)
  from denotes_sum [OF a ts this L] have d: "denotes (number_buffer buf) L k (foldl Plus a ts) (bytes_of t)"
    unfolding t(1) .
  have ne: "bytes_of t \<noteq> []" using t(1,3) by (metis append_is_Nil_conv)
  obtain s k' where "full_expression buf order (foldl Plus a ts) k = Some (s, k')" "holds_text k' s (bytes_of t)"
    "same_bytes (kernel_client k - number_buffer buf) (k_bytes k) (k_bytes k')"
    by (rule full_expression_ok [OF inv buf d t(2) ne, of order]) (use n order room in simp_all)
  then show "\<exists>s k'. full_expression buf order (foldl Plus a ts) k = Some (s, k') \<and> holds_text k' s (bytes_of t) \<and>
      same_bytes (kernel_client k - number_buffer buf) (k_bytes k) (k_bytes k')" by blast
qed

lemma GetGeometryString_text:
  assumes "heap_inv k" and "number_buffer buf \<subseteq> kernel_client k" and "literals_apart lit (number_buffer buf) k"
    and "1350 \<le> heap_avail k"
  shows "always_gives (number_buffer buf) 15 (\<lambda>order. GetGeometryString lit buf order info) k
    ''Cylinders: , Heads: , Sectors: ''"
  unfolding GetGeometryString_def ATADeviceGeometry_GetGeometryString_def
  by (rule sum_always_gives [OF assms(1,2) literal_denotes [OF assms(3)], where L = 31 and
      ys = "[[], bytes_of '', '', bytes_of ''Heads: '', [], bytes_of '', '', bytes_of ''Sectors: '', []]"])
    (simp add: literal_denotes [OF assms(3)] sum_literals_def del: denotes.simps(1); fail |
      use assms(4) in \<open>simp add: bytes_of_def\<close>)+

lemma GetCapacityString_text:
  assumes "heap_inv k" and "number_buffer buf \<subseteq> kernel_client k" and "literals_apart lit (number_buffer buf) k"
    and "864 \<le> heap_avail k"
  shows "always_gives (number_buffer buf) 9 (\<lambda>order. GetCapacityString lit buf order info) k
    ''TotalSectors: , ExtendedCapacity: ''"
  unfolding GetCapacityString_def ATADeviceCapacity_GetCapacityString_def
  by (rule sum_always_gives [OF assms(1,2) literal_denotes [OF assms(3)], where L = 34 and
      ys = "[[], bytes_of '', '', bytes_of ''ExtendedCapacity: '', []]"])
    (simp add: literal_denotes [OF assms(3)] sum_literals_def del: denotes.simps(1); fail |
      use assms(4) in \<open>simp add: bytes_of_def\<close>)+

lemma GetTransferModesString_text:
  assumes "heap_inv k" and "number_buffer buf \<subseteq> kernel_client k" and "literals_apart lit (number_buffer buf) k"
    and "864 \<le> heap_avail k"
  shows "always_gives (number_buffer buf) 9 (\<lambda>order. GetTransferModesString lit buf order info) k
    ''DMA Modes: , PIO Modes: ''"
  unfolding GetTransferModesString_def ATADeviceTransferModes_GetTransferModesString_def
  by (rule sum_always_gives [OF assms(1,2) literal_denotes [OF assms(3)], where L = 34 and
      ys = "[[], bytes_of '', '', bytes_of ''PIO Modes: '', []]"])
    (simp add: literal_denotes [OF assms(3)] sum_literals_def del: denotes.simps(1); fail |
      use assms(4) in \<open>simp add: bytes_of_def\<close>)+

text \<open>The zeros of the two sized strings end their sums.\<close>

lemma GetLBAInfoString_text:
  assumes "heap_inv k" and "number_buffer buf \<subseteq> kernel_client k" and "literals_apart lit (number_buffer buf) k"
    and "7 * (2 * (30 + unat (LBASupport (LBAInfo info) ! 0) + unat (LBA48Support (LBAInfo info))) + 28) \<le> heap_avail k"
  shows "always_gives (number_buffer buf) 7 (\<lambda>order. GetLBAInfoString lit buf order info) k
    ''LBA Support: , LBA48 Support: ''"
proof -
  let ?a = "LBASupport (LBAInfo info) ! 0" and ?b = "LBA48Support (LBAInfo info)"
  let ?L = "30 + unat ?a + unat ?b" and ?m = "'', LBA48 Support: ''"
  let ?ys = "[replicate (unat ?a) 0, bytes_of ?m, replicate (unat ?b) 0]"
  have size: "denotes B ?L k (SizedText (ucast v)) (replicate (unat v) 0)" if "unat v \<le> ?L" for B and v :: u16
    using that by (simp add: widened_flag)
  have "denotes (number_buffer buf) ?L k (Literal (lit ?m)) (bytes_of ?m)"
    by (rule literal_denotes [OF assms(3)]) (simp_all add: sum_literals_def)
  then have parts: "list_all2 (denotes (number_buffer buf) ?L k)
      [SizedText (ucast ?a), Literal (lit ?m), SizedText (ucast ?b)] ?ys"
    by (simp add: size del: denotes.simps)
  have zeros: "text_of (replicate n 0) = []" for n by (cases n) simp_all
  show ?thesis
    unfolding GetLBAInfoString_def ATADeviceLBAInfo_GetLBAInfoString_def
  proof (rule sum_always_gives [OF assms(1,2) literal_denotes [OF assms(3)] parts])
    show "''LBA Support: '' \<in> sum_literals" by (simp add: sum_literals_def)
    show "length ''LBA Support: '' \<le> ?L" by simp
    show "bytes_of ''LBA Support: '' @ concat (map text_of ?ys) = bytes_of ''LBA Support: , LBA48 Support: ''"
      by (simp add: zeros bytes_of_def)
    show "length (bytes_of ''LBA Support: '') + sum_list (map length ?ys) \<le> ?L" by (simp add: bytes_of_def)
    show "7 * (2 * ?L + 28) \<le> heap_avail k" by (rule assms(4))
  qed (simp_all add: bytes_of_def)
qed

section \<open>Properties\<close>

text \<open>
  C38: The texts of the model number, the serial number and the firmware revision terminate and need at most
  \<open>sums_need\<close> bytes of heap for arrays of that length. The firmware revision is every byte that is not 0.
  The model and the serial number stop at the first word that is 0 and give one character for each word
  before it: the low byte, so that the high byte of a pair of characters is lost.
\<close>

theorem device_numbers_lose_half_of_the_characters:
  assumes "heap_inv k" and "length (ModelNumber info) = 20" and "length (SerialNumber info) = 10"
    and "length (FirmwareRevision info) = 16" and "sums_need 20 \<le> heap_avail k"
  shows "(\<exists>s k'. GetModelNumberString info k = Some (s, k') \<and> heap_inv k' \<and>
      string_val k' s (map word_char (takeWhile (\<lambda>w. w \<noteq> 0) (ModelNumber info))) \<and>
      same_bytes (kernel_client k) (k_bytes k) (k_bytes k')) \<and>
    (\<exists>s k'. GetSerialNumberString info k = Some (s, k') \<and> heap_inv k' \<and>
      string_val k' s (map word_char (takeWhile (\<lambda>w. w \<noteq> 0) (SerialNumber info)))) \<and>
    (\<exists>s k'. GetFirmwareRevisionString info k = Some (s, k') \<and> heap_inv k' \<and>
      string_val k' s (filter (\<lambda>c. c \<noteq> 0) (FirmwareRevision info)))"
proof -
  note d = string_val_default [of k] and n = assms(5) [unfolded sums_need_def]
  have "\<exists>s k'. GetModelNumberString info k = Some (s, k') \<and> kb.grown k (20 * (2 * 20 + 30)) k' \<and>
      string_val k' s ([] @ map word_char (takeWhile (\<lambda>w. w \<noteq> 0) (ModelNumber info)))"
    unfolding GetModelNumberString_def using words_string_ok [OF assms(1) d, of "ModelNumber info" 20] assms(2) n by simp
  moreover have "\<exists>s k'. GetSerialNumberString info k = Some (s, k') \<and> kb.grown k (10 * (2 * 10 + 30)) k' \<and>
      string_val k' s ([] @ map word_char (takeWhile (\<lambda>w. w \<noteq> 0) (SerialNumber info)))"
    unfolding GetSerialNumberString_def using words_string_ok [OF assms(1) d, of "SerialNumber info" 10] assms(3) n by simp
  moreover have "\<exists>s k'. GetFirmwareRevisionString info k = Some (s, k') \<and> kb.grown k (16 * (2 * 16 + 30)) k' \<and>
      string_val k' s ([] @ filter (\<lambda>c. c \<noteq> 0) (FirmwareRevision info))"
    unfolding GetFirmwareRevisionString_def using bytes_string_ok [OF assms(1) d, of "FirmwareRevision info" 16] assms(4) n by simp
  ultimately show ?thesis unfolding kb.grown_def append_Nil by blast
qed

text \<open>A drive whose model number starts with the characters \<^verbatim>\<open>Q\<close>, \<^verbatim>\<open>E\<close>, \<^verbatim>\<open>M\<close>, \<^verbatim>\<open>U\<close>.\<close>

definition device_0 :: ATADeviceInfo where
  "device_0 = \<lparr>Reserved = replicate 5 0, Capabilities = 2, ReservedFlags = 0, ModelNumber = [0x4551, 0x554D] @ replicate 18 0,
     FirmwareRevision = [0x32, 0x2E, 0x35] @ replicate 13 0, SerialNumber = 0x4D51 # replicate 9 0,
     Geometry = \<lparr>Cylinders = [0, 0], Heads = [0, 0], Sectors = [0, 0]\<rparr>,
     Capacity = \<lparr>TotalSectors = 0, ExtendedCapacity = 0\<rparr>,
     TransferModes = \<lparr>DMAModes = [0, 0], RecommendedPIO = [0, 0]\<rparr>,
     LBAInfo = \<lparr>LBASupport = [0, 0], LBA48Support = 0\<rparr>, CommandSets = 0, SectorSize = [0, 0]\<rparr>"

theorem device_numbers_lose_half_of_the_characters_witness:
  "\<exists>s k'. GetModelNumberString device_0 kernel_text = Some (s, k') \<and> string_val k' s [0x51, 0x4D]"
proof -
  have "sums_need 20 \<le> heap_avail kernel_text" by (simp add: sums_need_def kernel_text_avail)
  moreover have "length (ModelNumber device_0) = 20" "length (SerialNumber device_0) = 10"
    "length (FirmwareRevision device_0) = 16" by (simp_all add: device_0_def)
  ultimately have "\<exists>s k'. GetModelNumberString device_0 kernel_text = Some (s, k') \<and>
      string_val k' s (map word_char (takeWhile (\<lambda>w. w \<noteq> 0) (ModelNumber device_0)))"
    using device_numbers_lose_half_of_the_characters [OF kernel_text_inv, of device_0] by blast
  moreover have "map word_char (takeWhile (\<lambda>w. w \<noteq> 0) (ModelNumber device_0)) = [0x51, 0x4D]"
    by (simp add: device_0_def word_char_def)
  ultimately show ?thesis by simp
qed

text \<open>
  The text of the capabilities cannot tell apart a drive that has SMART and a drive that is ATAPI, and
  calls a drive with LBA addressing one with SMART: in every state of the kernel and for all literals the
  function does for the one exactly what it does for the other, which is to append the wrong literal.
\<close>

theorem capabilities_are_mislabelled:
  "(Capabilities info = ATADeviceCapabilities_value CapSMART \<longrightarrow>
      GetCapabilitiesString lit info k =
        GetCapabilitiesString lit (info\<lparr>Capabilities := ATADeviceCapabilities_value CapATAPI\<rparr>) k \<and>
      GetCapabilitiesString lit info k = append_literal (lit ''ATAPI '') String_default k) \<and>
   (Capabilities info = ATADeviceCapabilities_value CapLBA \<longrightarrow>
      GetCapabilitiesString lit info k = append_literal (lit ''SMART '') String_default k)"
proof -
  have a: "do { (s, k) \<leftarrow> append_literal p String_default k; Some (s, k) } = append_literal p String_default k" for p
    by (cases "append_literal p String_default k") auto
  show ?thesis by (simp add: GetCapabilitiesString_def append_if_def a)
qed

theorem capabilities_are_mislabelled_witness:
  "GetCapabilitiesString (\<lambda>_. 0x1000) device_0 kernel_text = append_literal 0x1000 String_default kernel_text"
proof -
  have "Capabilities device_0 = ATADeviceCapabilities_value CapSMART" by (simp add: device_0_def)
  with capabilities_are_mislabelled [of device_0 "\<lambda>_. 0x1000" kernel_text] show ?thesis by blast
qed

text \<open>
  C39: The texts of the geometry, the capacity, the transfer modes and the LBA support are the same for every
  drive: the labels without a single number. This holds for every order in which the operands of the sums
  are evaluated; each function returns under every order, with a terminated copy of the text, and no byte
  of a client changes but those of the buffer of \<^verbatim>\<open>ToString\<close>, although the destructors of the temporary
  objects may break the sizes in the heap's headers. The text of the LBA support needs heap in proportion
  to the two flag words, which it takes for sizes.
\<close>

theorem device_texts_lack_numbers:
  assumes "heap_inv k" and "number_buffer buf \<subseteq> kernel_client k" and "literals_apart lit (number_buffer buf) k"
    and "1350 \<le> heap_avail k"
    and "7 * (2 * (30 + unat (LBASupport (LBAInfo info) ! 0) + unat (LBA48Support (LBAInfo info))) + 28) \<le> heap_avail k"
  shows "always_gives (number_buffer buf) 15 (\<lambda>order. GetGeometryString lit buf order info) k
      ''Cylinders: , Heads: , Sectors: '' \<and>
    always_gives (number_buffer buf) 9 (\<lambda>order. GetCapacityString lit buf order info) k
      ''TotalSectors: , ExtendedCapacity: '' \<and>
    always_gives (number_buffer buf) 9 (\<lambda>order. GetTransferModesString lit buf order info) k
      ''DMA Modes: , PIO Modes: '' \<and>
    always_gives (number_buffer buf) 7 (\<lambda>order. GetLBAInfoString lit buf order info) k
      ''LBA Support: , LBA48 Support: ''"
  using GetGeometryString_text [OF assms(1-4)] GetCapacityString_text [OF assms(1-3)]
    GetTransferModesString_text [OF assms(1-3)] GetLBAInfoString_text [OF assms(1-3,5)] assms(4)
  by simp

text \<open>The literals in the memory of the example, and a drive with 16383 cylinders, 16 heads and 63 sectors.\<close>

definition sum_literal_list :: "string list" where
  "sum_literal_list = [''Cylinders: '', '', '', ''Heads: '', ''Sectors: '', ''TotalSectors: '', ''ExtendedCapacity: '',
     ''DMA Modes: '', ''PIO Modes: '', ''LBA Support: '', '', LBA48 Support: '']"

definition kernel_device :: kernel_state where
  "kernel_device = kernel_text\<lparr>k_bytes := literal_memory sum_literal_list\<rparr>"

lemma kernel_device_wf: "heap_wf (g_KernelHeap kernel_device) (k_bytes kernel_device) []"
  by (simp add: heap_wf_def kernel_device_def kernel_text_def node_Prev_def load32_def literal_memory_def
      sum_literal_list_def)

lemma kernel_device_client: "{..<65536} \<subseteq> kernel_client kernel_device"
  unfolding kernel_client_eq [OF kernel_device_wf] by (auto simp: heap_client_def kernel_device_def kernel_text_def)

lemma kernel_device_literals:
  "literals_apart (literal_address sum_literal_list) (number_buffer 0x6000) kernel_device"
  unfolding literals_apart_def
proof
  fix s assume "s \<in> sum_literals"
  then have s: "s \<in> set sum_literal_list" by (auto simp: sum_literals_def sum_literal_list_def)
  have short: "length sum_literal_list \<le> 32" "\<forall>s\<in>set sum_literal_list. length s < 256 \<and> 0 \<notin> set (bytes_of s)"
    by (simp_all add: sum_literal_list_def bytes_of_def)
  have "c_string (k_bytes kernel_device) (literal_address sum_literal_list s) (bytes_of s)"
    using literal_memory_ready [OF short same_bytes_refl] s
    by (simp add: literals_ready_def literal_at_def kernel_device_def)
  moreover have "{0x3000..<0x5000} \<subseteq> kernel_client kernel_device - number_buffer 0x6000"
    using kernel_device_client by (auto simp: number_buffer_def)
  ultimately show "c_string (k_bytes kernel_device) (literal_address sum_literal_list s) (bytes_of s) \<and>
      string_bytes (literal_address sum_literal_list s) (bytes_of s) \<subseteq> kernel_client kernel_device - number_buffer 0x6000"
    using literal_inside [OF short(1) s] short(2) s by blast
qed

definition device_1 :: ATADeviceInfo where
  "device_1 = device_0\<lparr>Geometry := \<lparr>Cylinders = [16383, 0], Heads = [16, 0], Sectors = [63, 0]\<rparr>\<rparr>"

theorem device_texts_lack_numbers_witness:
  "always_gives (number_buffer 0x6000) 15
     (\<lambda>order. GetGeometryString (literal_address sum_literal_list) 0x6000 order device_1) kernel_device
     ''Cylinders: , Heads: , Sectors: ''"
proof -
  have "heap_inv kernel_device"
    using kernel_device_wf by (auto simp: heap_inv_def heap_fits_def kernel_device_def kernel_text_def)
  moreover have "number_buffer 0x6000 \<subseteq> kernel_client kernel_device"
    using kernel_device_client by (auto simp: number_buffer_def)
  moreover have avail: "heap_avail kernel_device = 4096"
    by (simp add: heap_avail_def kernel_device_def kernel_text_def)
  moreover have "LBASupport (LBAInfo device_1) ! 0 = 0" "LBA48Support (LBAInfo device_1) = 0"
    by (simp_all add: device_1_def device_0_def)
  ultimately show ?thesis
    using device_texts_lack_numbers [OF _ _ kernel_device_literals, of device_1] by simp
qed

end
