(* ===== verification/Dump.thy ===== *)
theory Dump
  imports HeapLinks Machine
begin

text \<open>
  The functions that print what the kernel knows: \<^verbatim>\<open>DumpBootInfo\<close> and \<^verbatim>\<open>DumpSystemMemoryMap\<close> of
  \<^verbatim>\<open>Kernel/Kernel.cpp\<close>, \<^verbatim>\<open>MultibootDumpMemoryMap\<close> of \<^verbatim>\<open>Kernel/Boot/Multiboot.cpp\<close>, the dumps of page tables and
  page directory, and \<^verbatim>\<open>Heap::Dump\<close>. A dump is a list of calls of \<^verbatim>\<open>KPrintf\<close>, each a literal and its argument
  words; a 64-bit argument is two words, low word first. \<open>lit\<close> gives the address of a literal.
\<close>

section \<open>Reports\<close>

definition wide :: "u64 \<Rightarrow> u32 list" where
  "wide v = [ucast v, ucast (drop_bit 32 v)]"

definition flag :: "bool \<Rightarrow> u32" where
  "flag b = (if b then 1 else 0)"

definition indexes :: "u32 \<Rightarrow> u32 list" where
  "indexes n = map of_nat [0..<unat n]"

definition DumpSystemMemoryMap_report :: "BootInfo \<Rightarrow> report" where
  "DumpSystemMemoryMap_report bootInfo =
     (let mm = SystemMemoryMap bootInfo in
       [(opening_line ''----------System Memory Map----------'', []),
        (text_line ''MemoryLower 0x%x, MemoryUpper 0x%x'', [MemoryAddressLow mm, MemoryAddressHigh mm])] @
       concat (map (\<lambda>i. let regionInfo = Regions mm i in
         [(''Region: {Base= 0x%x, '', wide (BaseAddress regionInfo)),
          (''Length= 0x%x, '', wide (Length regionInfo)),
          (text_line ''Type= 0x%x}'', [region_type_value (Type regionInfo)])]) (indexes (RegionCount mm))) @
       [(text_line (text_line ''----------System Memory Map----------''), [])])"

definition DumpSystemMemoryMap :: "device \<Rightarrow> (string \<Rightarrow> u32) \<Rightarrow> u32 \<Rightarrow> BootInfo \<Rightarrow> console \<Rightarrow> console option" where
  "DumpSystemMemoryMap d lit tmp bootInfo = print_report d lit tmp (DumpSystemMemoryMap_report bootInfo)"

definition DumpBootInfo_report :: "BootInfo \<Rightarrow> report" where
  "DumpBootInfo_report bootInfo =
    [(opening_line ''----------BootInfo----------'', []),
     (text_line ''Signature: 0x%x'', [Signature bootInfo]),
     (text_line ''BootloaderPhysicalStartAddress: 0x%x'', [BootloaderPhysicalStartAddress bootInfo]),
     (text_line ''BootloaderPhysicalEndAddress: 0x%x'', [BootloaderPhysicalEndAddress bootInfo]),
     (text_line ''BootloaderSize: 0x%x'', [BootloaderSize bootInfo]),
     (text_line ''KernelPhysicalStartAddress: 0x%x'', [KernelPhysicalStartAddress bootInfo]),
     (text_line ''KernelPhysicalEndAddress: 0x%x'', [KernelPhysicalEndAddress bootInfo]),
     (text_line ''KernelVirtualStartAddress: 0x%x'', [KernelVirtualStartAddress bootInfo]),
     (text_line ''KernelVirtualEndAddress: 0x%x'', [KernelVirtualEndAddress bootInfo]),
     (text_line ''KernelSize: 0x%x'', [KernelSize bootInfo]),
     (text_line (text_line ''----------BootInfo----------''), [])]"

definition DumpBootInfo :: "device \<Rightarrow> (string \<Rightarrow> u32) \<Rightarrow> u32 \<Rightarrow> BootInfo \<Rightarrow> console \<Rightarrow> console option" where
  "DumpBootInfo d lit tmp bootInfo = print_report d lit tmp (DumpBootInfo_report bootInfo)"

definition MULTIBOOT_INFO_MEMORY_MAP :: u32 where
  "MULTIBOOT_INFO_MEMORY_MAP = 0x40"

definition MultibootDumpMemoryMap_report :: "MultibootInfo \<Rightarrow> report" where
  "MultibootDumpMemoryMap_report multibootInfo =
     (opening_line ''----------Multiboot Memory Map----------'', []) #
     (if MultibootFlags multibootInfo AND MULTIBOOT_INFO_MEMORY_MAP = 0
      then [(text_line ''Multiboot Memory Map Flag Not Set!'', [])]
      else
       [(text_line ''MemoryLower 0x%x, MemoryUpper 0x%x'', [MemoryLower multibootInfo * 1024, MemoryUpper multibootInfo * 1024])] @
       concat (map (\<lambda>i. let memoryMap = MemoryMapAddress multibootInfo i in
         [(''MemoryMap: {Base= 0x%x, '', wide (mmap_BaseAddress memoryMap)),
          (''Length= 0x%x, '', wide (mmap_Length memoryMap)),
          (text_line ''Type= 0x%x}'', [mmap_Type memoryMap])]) (indexes (MemoryMapLength multibootInfo div 24))) @
       [(text_line (text_line ''----------Multiboot Memory Map----------''), [])])"

definition MultibootDumpMemoryMap ::
  "device \<Rightarrow> (string \<Rightarrow> u32) \<Rightarrow> u32 \<Rightarrow> MultibootInfo \<Rightarrow> console \<Rightarrow> console option" where
  "MultibootDumpMemoryMap d lit tmp multibootInfo = print_report d lit tmp (MultibootDumpMemoryMap_report multibootInfo)"

text \<open>The lines for one entry of a page table and of the page directory.\<close>

definition page_table_line :: "pte \<Rightarrow> u32 \<Rightarrow> u32 \<Rightarrow> string \<times> u32 list" where
  "page_table_line entry virtualAddress i =
     (text_line ''[%d][%d][%d][ %d][ %d][%d][%d][%d][0x%x][0x%x][%d]'',
      [flag (PTE_IsPresent entry), flag (PTE_IsWritable entry), flag (PTE_IsUser entry), flag (PTE_IsWriteThrough entry),
       flag (PTE_IsCacheDisable entry), flag (PTE_IsAccessed entry), flag (PTE_IsDirty entry), flag (PTE_IsGlobal entry),
       virtualAddress, PTE_GetAddress entry, i])"

definition DumpPageTableEntries_report :: "u32 \<Rightarrow> pte list \<Rightarrow> report" where
  "DumpPageTableEntries_report table entries =
     [(opening_line ''-------------------------PageTableEntries---------------------'', []),
      (text_line ''[P][W][U][WT][CD][A][D][G][VIRT][PHYS][IDX]'', [])] @
     map (\<lambda>i. page_table_line (entries ! unat i) (0x400000 * table + 0x1000 * i) i) (indexes 1024) @
     [(text_line ''-------------------------PageTableEntries---------------------'', [])]"

definition DumpPageTableEntry_report :: "u32 \<Rightarrow> pte list \<Rightarrow> report" where
  "DumpPageTableEntry_report virtualAddress entries =
     [(opening_line ''-------------------------PageTableEntry---------------------'', []),
      (text_line ''[P][W][U][WT][CD][A][D][G][VIRT][PHYS][IDX]'', []),
      page_table_line (entries ! unat (PAGE_TABLE_ENTRY_INDEX virtualAddress)) virtualAddress
        (PAGE_TABLE_ENTRY_INDEX virtualAddress),
      (text_line ''-------------------------PageTableEntry---------------------'', [])]"

definition page_directory_line :: "pde \<Rightarrow> u32 \<Rightarrow> u32 \<Rightarrow> string \<times> u32 list" where
  "page_directory_line entry virtualAddress i =
     (text_line ''[%d][%d][%d][ %d][ %d][%d][0x%x][0x%x][%d]'',
      [flag (PDE_IsPresent entry), flag (PDE_IsWritable entry), flag (PDE_IsUser entry), flag (PDE_IsWriteThrough entry),
       flag (PDE_IsCacheDisable entry), flag (PDE_IsAccessed entry), virtualAddress, PDE_GetAddress entry, i])"

definition DumpPageDirectoryEntries_report :: "pde list \<Rightarrow> report" where
  "DumpPageDirectoryEntries_report entries =
     [(opening_line ''-------------------------PageDirectoryEntries---------------------'', []),
      (text_line ''[P][W][U][WT][CD][A][VIRT][PHYS][IDX]'', [])] @
     map (\<lambda>i. page_directory_line (entries ! unat i) (0x400000 * i) i) (indexes 1024) @
     [(text_line ''-------------------------PageDirectoryEntries---------------------'', [])]"

definition DumpPageDirectoryEntry_report :: "u32 \<Rightarrow> pde list \<Rightarrow> report" where
  "DumpPageDirectoryEntry_report virtualAddress entries =
     [(opening_line ''-------------------------PageDirectoryEntry---------------------'', []),
      (text_line ''[P][W][U][WT][CD][A][VIRT][PHYS][IDX]'', []),
      page_directory_line (entries ! unat (PAGE_DIRECTORY_TABLE_INDEX virtualAddress)) virtualAddress
        (virtualAddress div 0x400000),
      (text_line ''-------------------------PageDirectoryEntry---------------------'', [])]"

text \<open>\<^verbatim>\<open>Heap::Dump\<close> follows the links from the first header on, in memory as it is at that time.\<close>

definition heap_line :: string where
  "heap_line = text_line (text_line
    ''Node: %d, Size: %d, State: %d, NodeAddress: 0x%x, DataAddress: 0x%x, NextNodeAddress: 0x%x, PrevNodeAddress: 0x%x'')"

definition heap_opening :: string where
  "heap_opening = opening_line ''--------------------HeapNodes(Size=%d)---------------------''"

definition heap_closing :: string where
  "heap_closing = text_line ''--------------------HeapNodes(Size=%d)---------------------''"

partial_function (option) Heap_Dump_loop ::
  "device \<Rightarrow> (string \<Rightarrow> u32) \<Rightarrow> u32 \<Rightarrow> u32 \<Rightarrow> u32 \<Rightarrow> console \<Rightarrow> console option" where
  "Heap_Dump_loop d lit tmp i node c =
     (if node = 0 then Some c
      else Option.bind (KPrintf d tmp (lit heap_line)
             [i, node_Size (con_bytes c) node, ucast (node_State (con_bytes c) node), node, node + sizeof_HeapNode,
              node_Next (con_bytes c) node, node_Prev (con_bytes c) node] c)
        (\<lambda>(n, c1). Heap_Dump_loop d lit tmp (i + 1) (node_Next (con_bytes c1) node) c1))"

declare Heap_Dump_loop.simps [code]

definition Heap_Dump :: "device \<Rightarrow> (string \<Rightarrow> u32) \<Rightarrow> u32 \<Rightarrow> heap \<Rightarrow> console \<Rightarrow> console option" where
  "Heap_Dump d lit tmp h c = do {
     (n, c1) \<leftarrow> KPrintf d tmp (lit heap_opening) [sizeof_HeapNode] c;
     c2 \<leftarrow> Heap_Dump_loop d lit tmp 0 (m_StartAddress h) c1;
     (n, c3) \<leftarrow> KPrintf d tmp (lit heap_closing) [sizeof_HeapNode] c2;
     Some c3
   }"

section \<open>The memory map on the screen\<close>

text \<open>What the dump of the memory map shows: of the 64-bit base and length of a region, the low word.\<close>

definition region_text :: "MemoryRegion \<Rightarrow> u8 list" where
  "region_text region =
     bytes_of ''Region: {Base= 0x'' @ number_text (ucast (BaseAddress region)) 16 @
     bytes_of '', Length= 0x'' @ number_text (ucast (Length region)) 16 @
     bytes_of '', Type= 0x'' @ number_text (region_type_value (Type region)) 16 @ bytes_of (text_line ''}'')"

definition memory_map_text :: "MemoryMap \<Rightarrow> u8 list" where
  "memory_map_text mm =
     bytes_of (opening_line ''----------System Memory Map----------'') @
     bytes_of ''MemoryLower 0x'' @ number_text (MemoryAddressLow mm) 16 @
     bytes_of '', MemoryUpper 0x'' @ number_text (MemoryAddressHigh mm) 16 @ [0x0A] @
     concat (List.map (region_text \<circ> Regions mm) (indexes (RegionCount mm))) @
     bytes_of (text_line (text_line ''----------System Memory Map----------''))"

lemma memory_map_calls:
  "report_text (\<lambda>_. []) [(text_line ''MemoryLower 0x%x, MemoryUpper 0x%x'', [a, b])] =
     Some (bytes_of ''MemoryLower 0x'' @ number_text a 16 @ bytes_of '', MemoryUpper 0x'' @ number_text b 16 @ [0x0A])"
  "report_text (\<lambda>_. []) [(opening_line ''----------System Memory Map----------'', [])] =
     Some (bytes_of (opening_line ''----------System Memory Map----------''))"
  "report_text (\<lambda>_. []) [(text_line (text_line ''----------System Memory Map----------''), [])] =
     Some (bytes_of (text_line (text_line ''----------System Memory Map----------'')))"
  "report_text (\<lambda>_. []) [(''Region: {Base= 0x%x, '', [a, b]), (''Length= 0x%x, '', [a', b']), (text_line ''Type= 0x%x}'', [v])] =
     Some (bytes_of ''Region: {Base= 0x'' @ number_text a 16 @ bytes_of '', Length= 0x'' @ number_text a' 16 @
       bytes_of '', Type= 0x'' @ number_text v 16 @ bytes_of (text_line ''}''))"
  by (simp_all add: text_line_def opening_line_def bytes_of_def)

lemma DumpSystemMemoryMap_text:
  "report_text (\<lambda>_. []) (DumpSystemMemoryMap_report bi) = Some (memory_map_text (SystemMemoryMap bi))"
proof -
  have "report_text (\<lambda>_. []) (let regionInfo = Regions (SystemMemoryMap bi) i in
      [(''Region: {Base= 0x%x, '', wide (BaseAddress regionInfo)), (''Length= 0x%x, '', wide (Length regionInfo)),
       (text_line ''Type= 0x%x}'', [region_type_value (Type regionInfo)])]) =
      Some ((region_text \<circ> Regions (SystemMemoryMap bi)) i)" for i
    by (simp only: wide_def Let_def memory_map_calls region_text_def comp_apply)
  note regions = report_text_concat [OF this, of "\<lambda>i. i" "indexes (RegionCount (SystemMemoryMap bi))"]
  show ?thesis
    using report_text_append [OF report_text_append [OF memory_map_calls(2) memory_map_calls(1)]
        report_text_append [OF regions memory_map_calls(3)]]
    by (simp add: DumpSystemMemoryMap_report_def memory_map_text_def Let_def comp_def del: report_text.simps)
qed

section \<open>Reports are complete\<close>

text \<open>
  No dump uses a conversion without passing its argument, or prints a string argument, so that each of them
  returns and prints the text of its report.
\<close>

lemma page_lines_complete:
  "complete_report [page_table_line e v i]" "complete_report [page_directory_line e' v i]"
  by (simp_all add: page_table_line_def page_directory_line_def complete_defs)

lemma dump_reports_complete:
  "complete_report (DumpSystemMemoryMap_report bi)"
  "complete_report (DumpBootInfo_report bi)" "complete_report (MultibootDumpMemoryMap_report mb)"
  "complete_report (DumpPageTableEntries_report table ptes)" "complete_report (DumpPageTableEntry_report v ptes)"
  "complete_report (DumpPageDirectoryEntries_report pdes)" "complete_report (DumpPageDirectoryEntry_report v pdes)"
proof -
  have map_part: "complete_report (concat (List.map f (indexes n)))" if "\<And>i. complete_report (f i)" for f n
    by (rule complete_report_concat) (rule that)
  have table_part: "complete_report (List.map f (indexes n))" if "\<And>i. complete_report [f i]" for f n
    by (rule complete_report_map) (rule that)
  show "complete_report (DumpSystemMemoryMap_report bi)"
    unfolding DumpSystemMemoryMap_report_def Let_def
    by (simp only: complete_report_simps, intro conjI map_part) (simp_all add: complete_defs wide_def)
  show "complete_report (DumpBootInfo_report bi)"
    by (simp add: DumpBootInfo_report_def complete_defs)
  show "complete_report (MultibootDumpMemoryMap_report mb)"
    by (auto simp: MultibootDumpMemoryMap_report_def complete_defs wide_def Let_def)
  have heads: "complete_report
      [(opening_line ''-------------------------PageTableEntries---------------------'', []),
       (text_line ''[P][W][U][WT][CD][A][D][G][VIRT][PHYS][IDX]'', [])]"
    "complete_report [(text_line ''-------------------------PageTableEntries---------------------'', [])]"
    "complete_report
      [(opening_line ''-------------------------PageDirectoryEntries---------------------'', []),
       (text_line ''[P][W][U][WT][CD][A][VIRT][PHYS][IDX]'', [])]"
    "complete_report [(text_line ''-------------------------PageDirectoryEntries---------------------'', [])]"
    by (simp_all add: complete_defs)
  show "complete_report (DumpPageTableEntries_report table ptes)"
    unfolding DumpPageTableEntries_report_def complete_report_simps
    by (intro conjI heads table_part page_lines_complete)
  show "complete_report (DumpPageDirectoryEntries_report pdes)"
    unfolding DumpPageDirectoryEntries_report_def complete_report_simps
    by (intro conjI heads table_part page_lines_complete)
  have entry: "complete_report (a # b # c # r)"
    if "complete_report [a]" "complete_report [b]" "complete_report [c]" "complete_report r" for a b c r
    using that by (simp add: complete_report_def)
  have ends: "complete_report [(opening_line ''-------------------------PageTableEntry---------------------'', [])]"
    "complete_report [(text_line ''[P][W][U][WT][CD][A][D][G][VIRT][PHYS][IDX]'', [])]"
    "complete_report [(text_line ''-------------------------PageTableEntry---------------------'', [])]"
    "complete_report [(opening_line ''-------------------------PageDirectoryEntry---------------------'', [])]"
    "complete_report [(text_line ''[P][W][U][WT][CD][A][VIRT][PHYS][IDX]'', [])]"
    "complete_report [(text_line ''-------------------------PageDirectoryEntry---------------------'', [])]"
    by (simp_all add: complete_defs)
  show "complete_report (DumpPageTableEntry_report v ptes)"
    unfolding DumpPageTableEntry_report_def by (rule entry [OF ends(1,2) page_lines_complete(1) ends(3)])
  show "complete_report (DumpPageDirectoryEntry_report v pdes)"
    unfolding DumpPageDirectoryEntry_report_def by (rule entry [OF ends(4,5) page_lines_complete(2) ends(6)])
qed

section \<open>The heap on the screen\<close>

text \<open>The line of the \<open>i\<close>-th block, whose header is at \<open>a\<close> after one at \<open>p\<close> and before one at \<open>nx\<close>.\<close>

definition block_text :: "u32 \<Rightarrow> nat \<Rightarrow> nat \<Rightarrow> block \<Rightarrow> nat \<Rightarrow> u8 list" where
  "block_text i a p b nx =
     bytes_of ''Node: '' @ number_text i 10 @ bytes_of '', Size: '' @ number_text (of_nat (fst b)) 10 @
     bytes_of '', State: '' @ number_text (ucast (HeapState_value (snd b))) 10 @
     bytes_of '', NodeAddress: 0x'' @ number_text (of_nat a) 16 @
     bytes_of '', DataAddress: 0x'' @ number_text (of_nat (a + 13)) 16 @
     bytes_of '', NextNodeAddress: 0x'' @ number_text (of_nat nx) 16 @
     bytes_of '', PrevNodeAddress: 0x'' @ number_text (of_nat p) 16 @ [0x0A, 0x0A]"

primrec blocks_text :: "u32 \<Rightarrow> nat \<Rightarrow> nat \<Rightarrow> block list \<Rightarrow> u8 list" where
  "blocks_text i a p [] = []"
| "blocks_text i a p (b # bs) =
     block_text i a p b (if bs = [] then 0 else a + fst b + 13) @ blocks_text (i + 1) (a + fst b + 13) a bs"

definition heap_rule :: "u8 list" where
  "heap_rule = bytes_of ''--------------------HeapNodes(Size='' @ number_text sizeof_HeapNode 10 @
     bytes_of (text_line '')---------------------'')"

text \<open>
  The same for the header at \<open>x\<close> with whatever its fields hold, and for a list of headers.
\<close>

definition node_text :: "mem \<Rightarrow> u32 \<Rightarrow> u32 \<Rightarrow> u8 list" where
  "node_text m i x =
     bytes_of ''Node: '' @ number_text i 10 @ bytes_of '', Size: '' @ number_text (node_Size m x) 10 @
     bytes_of '', State: '' @ number_text (ucast (node_State m x)) 10 @
     bytes_of '', NodeAddress: 0x'' @ number_text x 16 @
     bytes_of '', DataAddress: 0x'' @ number_text (x + sizeof_HeapNode) 16 @
     bytes_of '', NextNodeAddress: 0x'' @ number_text (node_Next m x) 16 @
     bytes_of '', PrevNodeAddress: 0x'' @ number_text (node_Prev m x) 16 @ [0x0A, 0x0A]"

primrec nodes_text :: "mem \<Rightarrow> u32 \<Rightarrow> u32 list \<Rightarrow> u8 list" where
  "nodes_text m i [] = []"
| "nodes_text m i (x # xs) = node_text m i x @ nodes_text m (i + 1) xs"

lemma heap_formats:
  "format_text (\<lambda>_. []) (bytes_of heap_line) [i, node_Size m x, ucast (node_State m x), x, x + sizeof_HeapNode,
      node_Next m x, node_Prev m x] = Some (node_text m i x)"
  "strings_ready tmp strs m [(heap_line, [v1, v2, v3, v4, v5, v6, v7])]"
  "format_text (\<lambda>_. []) (bytes_of heap_opening) [sizeof_HeapNode] = Some (0x0A # heap_rule)"
  "strings_ready tmp strs m [(heap_opening, [v1])]"
  "format_text (\<lambda>_. []) (bytes_of heap_closing) [sizeof_HeapNode] = Some heap_rule"
  "strings_ready tmp strs m [(heap_closing, [v1])]"
  by (simp_all add: heap_line_def heap_opening_def heap_closing_def heap_rule_def text_line_def opening_line_def
      bytes_of_def node_text_def strings_ready_def call_strings_def)

text \<open>What is printed does not reach the headers, so that they read as before.\<close>

definition headers_quiet :: "u32 \<Rightarrow> u32 list \<Rightarrow> bool" where
  "headers_quiet tmp xs \<longleftrightarrow> (\<forall>x\<in>set xs. {unat x..<unat x + 13} \<subseteq> quiet_bytes tmp)"

lemma node_same_quiet:
  assumes "same_bytes (quiet_bytes tmp) m m'" and "{unat x..<unat x + 13} \<subseteq> quiet_bytes tmp"
  shows "node_Next m' x = node_Next m x" and "node_text m' i x = node_text m i x"
  using node_same [OF same_bytes_mono [OF assms]] by (simp_all add: node_text_def)

lemma link_path_same:
  "same_bytes (quiet_bytes tmp) m m' \<Longrightarrow> headers_quiet tmp xs \<Longrightarrow> link_path m' node xs = link_path m node xs"
  by (induction xs arbitrary: node) (simp_all add: headers_quiet_def node_same_quiet(1))

lemma nodes_text_same:
  "same_bytes (quiet_bytes tmp) m m' \<Longrightarrow> headers_quiet tmp xs \<Longrightarrow> nodes_text m' i xs = nodes_text m i xs"
  by (induction xs arbitrary: i) (simp_all add: headers_quiet_def node_same_quiet(2))

text \<open>The loop follows the links and prints a line for each header.\<close>

lemma Heap_Dump_loop_prints:
  "link_path (con_bytes c) node xs \<Longrightarrow> headers_quiet tmp xs \<Longrightarrow> console_wf c \<Longrightarrow>
    literals_ready lit tmp (con_bytes c) S \<Longrightarrow> heap_line \<in> S \<Longrightarrow>
    \<exists>c'. Heap_Dump_loop d lit tmp i node c = Some c' \<and> prints c (nodes_text (con_bytes c) i xs) tmp c'"
proof (induction xs arbitrary: node i c)
  case Nil
  then show ?case by (subst Heap_Dump_loop.simps) (simp add: prints_none)
next
  case (Cons x xs)
  let ?m = "con_bytes c"
  have node: "node = x" "x \<noteq> 0" "link_path ?m (node_Next ?m x) xs" using Cons.prems(1) by simp_all
  have quiet: "{unat x..<unat x + 13} \<subseteq> quiet_bytes tmp" "headers_quiet tmp xs"
    using Cons.prems(2) by (simp_all add: headers_quiet_def)
  obtain c1 where c1: "KPrintf d tmp (lit heap_line) [i, node_Size ?m x, ucast (node_State ?m x), x, x + sizeof_HeapNode,
      node_Next ?m x, node_Prev ?m x] c = Some (0, c1)"
    "prints c (node_text ?m i x) tmp c1" "console_wf c1" "literals_ready lit tmp (con_bytes c1) S"
    by (rule call_prints [OF Cons.prems(3,4,5) heap_formats(2,1)])
  have same: "same_bytes (quiet_bytes tmp) ?m (con_bytes c1)" using c1(2) by (simp add: prints_def)
  note next1 = node_same_quiet(1) [OF same quiet(1)]
  have step: "Heap_Dump_loop d lit tmp i node c = Heap_Dump_loop d lit tmp (i + 1) (node_Next ?m x) c1"
    using node(2) by (subst Heap_Dump_loop.simps) (simp add: node(1) c1(1) next1)
  have "link_path (con_bytes c1) (node_Next ?m x) xs" using link_path_same [OF same quiet(2)] node(3) by simp
  with Cons.IH [OF _ quiet(2) c1(3,4) Cons.prems(5)] obtain c2 where
    c2: "Heap_Dump_loop d lit tmp (i + 1) (node_Next ?m x) c1 = Some c2"
    "prints c1 (nodes_text (con_bytes c1) (i + 1) xs) tmp c2" by blast
  then show ?case
    using prints_trans [OF c1(2) c2(2)] nodes_text_same [OF same quiet(2)] by (simp add: step)
qed

definition heap_literals :: "string set" where
  "heap_literals = {heap_opening, heap_line, heap_closing}"

definition links_text :: "mem \<Rightarrow> u32 list \<Rightarrow> u8 list" where
  "links_text m xs = [0x0A] @ heap_rule @ nodes_text m 0 xs @ heap_rule"

definition heap_text :: "nat \<Rightarrow> block list \<Rightarrow> u8 list" where
  "heap_text a bs = [0x0A] @ heap_rule @ blocks_text 0 a 0 bs @ heap_rule"

lemma Heap_Dump_follows_links:
  assumes path: "link_path (con_bytes c) (m_StartAddress h) xs" and quiet: "headers_quiet tmp xs"
    and wf: "console_wf c" and lits: "literals_ready lit tmp (con_bytes c) heap_literals"
  obtains c' where "Heap_Dump d lit tmp h c = Some c'" and "prints c (links_text (con_bytes c) xs) tmp c'"
proof -
  have S: "heap_opening \<in> heap_literals" "heap_line \<in> heap_literals" "heap_closing \<in> heap_literals"
    by (simp_all add: heap_literals_def)
  obtain c1 where c1: "KPrintf d tmp (lit heap_opening) [sizeof_HeapNode] c = Some (0, c1)"
    "prints c (0x0A # heap_rule) tmp c1" "console_wf c1" "literals_ready lit tmp (con_bytes c1) heap_literals"
    by (rule call_prints [OF wf lits S(1) heap_formats(4,3)])
  have same: "same_bytes (quiet_bytes tmp) (con_bytes c) (con_bytes c1)" using c1(2) by (simp add: prints_def)
  have "link_path (con_bytes c1) (m_StartAddress h) xs" using link_path_same [OF same quiet] path by simp
  from Heap_Dump_loop_prints [OF this quiet c1(3,4) S(2), of d 0] obtain c2 where
    c2: "Heap_Dump_loop d lit tmp 0 (m_StartAddress h) c1 = Some c2"
    "prints c1 (nodes_text (con_bytes c) 0 xs) tmp c2" using nodes_text_same [OF same quiet] by auto
  have L2: "console_wf c2" "literals_ready lit tmp (con_bytes c2) heap_literals"
    using c2(2) literals_ready_same [OF c1(4)] by (auto simp: prints_def)
  obtain c3 where c3: "KPrintf d tmp (lit heap_closing) [sizeof_HeapNode] c2 = Some (0, c3)"
    "prints c2 heap_rule tmp c3"
    by (rule call_prints [OF L2 S(3) heap_formats(6,5)])
  have "prints c (links_text (con_bytes c) xs) tmp c3"
    using prints_trans [OF c1(2) prints_trans [OF c2(2) c3(2)]] by (simp add: links_text_def)
  then show ?thesis by (intro that [of c3]) (simp_all add: Heap_Dump_def c1(1) c2(1) c3(1))
qed

text \<open>In a well-formed heap the links lead through the blocks in order, and their lines are those of the blocks.\<close>

primrec block_nodes :: "nat \<Rightarrow> block list \<Rightarrow> u32 list" where
  "block_nodes a [] = []"
| "block_nodes a (b # bs) = of_nat a # block_nodes (a + fst b + 13) bs"

lemma chain_path:
  assumes "chain m a p bs e 0" and "bs \<noteq> []" and "0 < a" and "e < 4294967296"
  shows "link_path m (of_nat a) (block_nodes a bs)" and "nodes_text m i (block_nodes a bs) = blocks_text i a p bs"
    and "x \<in> set (block_nodes a bs) \<Longrightarrow> {unat x..<unat x + 13} \<subseteq> {a..<e}"
proof -
  have "link_path m (of_nat a) (block_nodes a bs) \<and> nodes_text m i (block_nodes a bs) = blocks_text i a p bs \<and>
      (\<forall>x\<in>set (block_nodes a bs). {unat x..<unat x + 13} \<subseteq> {a..<e})"
    using assms
  proof (induction bs arbitrary: a p i)
    case (Cons b bs)
    note le = chain_ConsD(1) [OF Cons.prems(1,4)]
    have a: "a < 4294967296" "unat (of_nat a :: u32) = a" using le Cons.prems(4) by (simp_all add: unat_of_nat32)
    then have nz: "(of_nat a :: u32) \<noteq> 0" using Cons.prems(3) by (metis less_irrefl unat_0)
    have data: "(of_nat a :: u32) + sizeof_HeapNode = of_nat (a + 13)" by (simp add: sizeof_HeapNode_def)
    have line: "node_text m i (of_nat a) = block_text i a p b (if bs = [] then 0 else a + fst b + 13)"
      using Cons.prems(1) unfolding node_text_def block_text_def data by (simp del: of_nat_add)
    show ?case
    proof (cases "bs = []")
      case True
      then show ?thesis using Cons.prems(1) nz line le a by simp
    next
      case False
      from Cons.IH [of "a + fst b + 13" a "i + 1"] False Cons.prems(1,4)
      have IH: "link_path m (of_nat (a + fst b + 13)) (block_nodes (a + fst b + 13) bs)"
        "nodes_text m (i + 1) (block_nodes (a + fst b + 13) bs) = blocks_text (i + 1) (a + fst b + 13) a bs"
        "\<forall>x\<in>set (block_nodes (a + fst b + 13) bs). {unat x..<unat x + 13} \<subseteq> {a + fst b + 13..<e}" by simp_all
      have sub: "{a + fst b + 13..<e} \<subseteq> {a..<e}" "{a..<a + 13} \<subseteq> {a..<e}" using le by auto
      have "node_Next m (of_nat a) = of_nat (a + fst b + 13)" using Cons.prems(1) False by simp
      then show ?thesis using IH sub nz line False a by (auto simp del: of_nat_add)
    qed
  qed simp
  then show "link_path m (of_nat a) (block_nodes a bs)" "nodes_text m i (block_nodes a bs) = blocks_text i a p bs"
    "x \<in> set (block_nodes a bs) \<Longrightarrow> {unat x..<unat x + 13} \<subseteq> {a..<e}" by blast+
qed

lemma link_path_unique: "link_path m node xs \<Longrightarrow> link_path m node ys \<Longrightarrow> xs = ys"
proof (induction xs arbitrary: node ys)
  case (Cons x xs)
  then show ?case by (cases ys) auto
qed (metis link_path.simps list.exhaust)

lemma Heap_Dump_prints:
  assumes ch: "chain (con_bytes c) (unat (m_StartAddress h)) 0 bs e 0" and bs: "bs \<noteq> []"
    and a: "m_StartAddress h \<noteq> 0" and e: "e < 4294967296" and quiet: "{unat (m_StartAddress h)..<e} \<subseteq> quiet_bytes tmp"
    and wf: "console_wf c" and lits: "literals_ready lit tmp (con_bytes c) heap_literals"
  obtains c' where "Heap_Dump d lit tmp h c = Some c'"
    and "prints c (heap_text (unat (m_StartAddress h)) bs) tmp c'"
proof -
  have "0 < unat (m_StartAddress h)" using a by (simp add: unat_gt_0)
  note P = chain_path [OF ch bs this e]
  have path: "link_path (con_bytes c) (m_StartAddress h) (block_nodes (unat (m_StartAddress h)) bs)" using P(1) by simp
  have hq: "headers_quiet tmp (block_nodes (unat (m_StartAddress h)) bs)"
    using P(3) quiet unfolding headers_quiet_def by blast
  obtain c' where "Heap_Dump d lit tmp h c = Some c'"
    "prints c (links_text (con_bytes c) (block_nodes (unat (m_StartAddress h)) bs)) tmp c'"
    by (rule Heap_Dump_follows_links [OF path hq wf lits])
  then show ?thesis using P(2) by (intro that [of c']) (simp_all add: links_text_def heap_text_def)
qed

text \<open>
  The header that \<^verbatim>\<open>Init\<close> cleared looks like a free block of size 0, so the dump of an empty heap shows a block.
\<close>

lemma Heap_Dump_empty:
  assumes "Heap_Init n k = Some (True, k')" and "con_bytes c = k_bytes k'"
    and room: "{unat (m_StartAddress (g_KernelHeap k'))..unat (m_StartAddress (g_KernelHeap k')) + 13} \<subseteq> quiet_bytes tmp"
    and "console_wf c" and "literals_ready lit tmp (con_bytes c) heap_literals"
  shows "\<exists>c'. Heap_Dump d lit tmp (g_KernelHeap k') c = Some c' \<and>
    prints c (heap_text (unat (m_StartAddress (g_KernelHeap k'))) [(0, HeapFree)]) tmp c'"
proof -
  let ?s = "m_StartAddress (g_KernelHeap k')"
  have "?s \<noteq> 0" using assms(1) by (auto simp: Heap_Init_def Let_def split: if_splits option.splits)
  have m: "con_bytes c = Memset ?s 0 sizeof_HeapNode (k_bytes k)" using Heap_Init_bytes [OF assms(1)] assms(2) by simp
  have top: "unat ?s + 13 < 4294967296"
  proof -
    have "unat ?s + 13 \<in> quiet_bytes tmp" using room by auto
    then show ?thesis by (simp add: quiet_bytes_def other_bytes_def)
  qed
  have quiet: "{unat ?s..<unat ?s + 13} \<subseteq> quiet_bytes tmp" using room by auto
  have z: "con_bytes c (?s + of_nat i) = 0" if "i < 13" for i
    using that unfolding m by (simp add: Memset_eq sizeof_HeapNode_def unat_of_nat32)
  have "chain (con_bytes c) (unat ?s) 0 [(0, HeapFree)] (unat ?s + 13) 0"
    using z [of 0] z [of 1] z [of 2] z [of 3] z [of 4] z [of 5] z [of 6] z [of 7] z [of 8] z [of 9] z [of 10]
      z [of 11] z [of 12] by (simp add: node_reads load32_def HeapState_value.simps ac_simps)
  from Heap_Dump_prints [OF this _ \<open>?s \<noteq> 0\<close> top quiet assms(4,5)] show ?thesis by (metis list.discI)
qed

section \<open>Properties\<close>

text \<open>
  C40: The dump of the memory map prints one line for each region, in order, between the limits of memory and
  the closing line. Base and length of a region are 64 bits wide but \<^verbatim>\<open>%x\<close> prints 32, so it shows their low words.
\<close>

theorem dump_shows_low_words:
  assumes "console_wf c"
    and "literals_ready lit tmp (con_bytes c) (fst ` set (DumpSystemMemoryMap_report bootInfo))"
  shows "\<exists>c'. DumpSystemMemoryMap d lit tmp bootInfo c = Some c' \<and> console_wf c' \<and>
    terminal_of c' = terminal_string (s_Color c) (memory_map_text (SystemMemoryMap bootInfo)) (terminal_of c)"
  using print_report_prints [OF DumpSystemMemoryMap_text complete_report_ready [OF dump_reports_complete(1)] assms subset_refl,
      of d]
  by (auto simp: DumpSystemMemoryMap_def prints_def)

definition boot_4gb :: BootInfo where
  "boot_4gb = boot_128\<lparr>SystemMemoryMap := \<lparr>MemoryAddressLow = 0, MemoryAddressHigh = 0, RegionCount = 1,
     Regions = (\<lambda>_. \<lparr>BaseAddress = 0x100000000, Length = 0x200000000, Type = Available\<rparr>)\<rparr>\<rparr>"

definition map_literals :: "string list" where
  "map_literals = List.map fst (DumpSystemMemoryMap_report boot_4gb)"

definition console_map :: console where
  "console_map = console_0\<lparr>con_bytes := literal_memory map_literals\<rparr>"

theorem dump_shows_low_words_witness:
  "\<exists>c'. DumpSystemMemoryMap crtc_device (literal_address map_literals) 0x8000 boot_4gb console_map = Some c' \<and>
     terminal_of c' = terminal_string LightBrown
       (bytes_of (opening_line ''----------System Memory Map----------'') @
        bytes_of (text_line ''MemoryLower 0x0, MemoryUpper 0x0'') @
        bytes_of (text_line ''Region: {Base= 0x0, Length= 0x0, Type= 0x1}'') @
        bytes_of (text_line (text_line ''----------System Memory Map----------''))) (terminal_of console_map)"
proof -
  have one: "indexes 1 = [0]" by (simp add: indexes_def)
  have "length map_literals \<le> 32" "\<forall>s\<in>set map_literals. length s < 256 \<and> 0 \<notin> set (bytes_of s)"
    by (simp_all add: map_literals_def DumpSystemMemoryMap_report_def boot_4gb_def one Let_def text_line_def
        opening_line_def bytes_of_def)
  from literal_memory_ready [OF this, of "con_bytes console_map"]
  have lits: "literals_ready (literal_address map_literals) 0x8000 (con_bytes console_map)
      (fst ` set (DumpSystemMemoryMap_report boot_4gb))"
    by (simp add: console_map_def map_literals_def)
  have wf: "console_wf console_map" using console_0_wf by (simp add: console_map_def console_wf_def)
  have color: "s_Color console_map = LightBrown" by (simp add: console_map_def console_0_def)
  have "number_text 1 16 = [0x31]" by (simp add: number_text_def prints_sign_def magnitude_def digits.simps digit_char_def)
  then have out: "memory_map_text (SystemMemoryMap boot_4gb) =
      bytes_of (opening_line ''----------System Memory Map----------'') @
      bytes_of (text_line ''MemoryLower 0x0, MemoryUpper 0x0'') @
      bytes_of (text_line ''Region: {Base= 0x0, Length= 0x0, Type= 0x1}'') @
      bytes_of (text_line (text_line ''----------System Memory Map----------''))"
    by (simp add: memory_map_text_def boot_4gb_def one region_text_def text_line_def opening_line_def bytes_of_def
        number_text_def)
  from dump_shows_low_words [OF wf lits, of crtc_device] show ?thesis unfolding out color by blast
qed

text \<open>
  C36: Take a well-formed heap with blocks and free any of them, in any order and more than once, so that the
  merging of neighbours may have broken the sizes. From the first header the links then lead upwards through headers
  of these blocks to an end, so \<^verbatim>\<open>Heap::Dump\<close> returns, and it prints one line for each header on that way: its number,
  the size and state it holds, and the addresses of itself, its data and its neighbours. When nothing has been freed, the
  lines are those of the blocks, in the order of memory.
\<close>

theorem heap_dump_lists_blocks:
  assumes "heap_wf h m bs" and "bs \<noteq> []"
    and "\<forall>a\<in>set as. a = 0 \<or> (\<exists>i<length bs. unat a = block_at (unat (m_StartAddress h)) bs i + 13)"
    and "con_bytes c = fold Heap_Free as m"
    and "{unat (m_StartAddress h)..<unat (m_CurrentAddress h)} \<subseteq> quiet_bytes tmp"
    and "console_wf c" and "literals_ready lit tmp (con_bytes c) heap_literals"
  shows "\<exists>xs c'. link_path (con_bytes c) (m_StartAddress h) xs \<and> sorted_wrt (<) xs \<and> xs \<noteq> [] \<and>
    (\<forall>x\<in>set xs. \<exists>i<length bs. unat x = block_at (unat (m_StartAddress h)) bs i) \<and>
    Heap_Dump d lit tmp h c = Some c' \<and> console_wf c' \<and>
    terminal_of c' = terminal_string (s_Color c) (links_text (con_bytes c) xs) (terminal_of c) \<and>
    (as = [] \<longrightarrow> links_text (con_bytes c) xs = heap_text (unat (m_StartAddress h)) bs)"
proof -
  let ?s = "unat (m_StartAddress h)" and ?H = "heap_headers h bs"
  have s: "0 < ?s" "of_nat ?s = m_StartAddress h" using assms(1) by (simp_all add: heap_wf_def unat_gt_0)
  note ch = heap_wf_chain [OF assms(1)] and L = heap_headers_linked [OF assms(1)]
  have member: "x < 4294967296 \<and> {x..<x + 13} \<subseteq> quiet_bytes tmp \<and> 0 < x" if x: "x \<in> ?H" for x
  proof -
    obtain i where i: "i < length bs" "x = block_at ?s bs i" using x by (auto simp: heap_headers_def)
    then have "{x..<x + 13} \<subseteq> {?s..<unat (m_CurrentAddress h)}" "?s \<le> x" "x < unat (m_CurrentAddress h)"
      using block_bounds [OF ch i(1)] by auto
    then show ?thesis using assms(5) s(1) unat_lt_2p32 [of "m_CurrentAddress h"] by (auto simp del: unat_lt_2p32)
  qed
  have linked: "linked ?H m (con_bytes c)"
    unfolding assms(4) by (rule frees_linked [OF L(1,2)]) (use assms(3) in \<open>auto simp: heap_headers_def\<close>)
  have "?s \<in> ?H" using assms(2) unfolding heap_headers_def by (intro image_eqI [of _ _ 0]) simp_all
  moreover have "0 \<notin> ?H" using member by blast
  ultimately have "\<exists>xs. link_path (con_bytes c) (of_nat ?s) (of_nat ?s # xs) \<and> sorted_wrt (<) (of_nat ?s # xs) \<and>
      set (of_nat ?s # xs) \<subseteq> of_nat ` ?H" by (intro linked_path [OF L(1) _ linked])
  then obtain ys where xs: "link_path (con_bytes c) (m_StartAddress h) (m_StartAddress h # ys)"
    "sorted_wrt (<) (m_StartAddress h # ys)" "set (m_StartAddress h # ys) \<subseteq> of_nat ` ?H"
    unfolding s(2) by blast
  let ?xs = "m_StartAddress h # ys"
  have in_H: "unat x \<in> ?H" if x: "x \<in> set ?xs" for x
  proof -
    obtain y where "y \<in> ?H" "x = of_nat y" using xs(3) x by blast
    then show ?thesis using member [of y] by (simp add: unat_of_nat32)
  qed
  then have "headers_quiet tmp ?xs" using member unfolding headers_quiet_def by blast
  then obtain c' where c': "Heap_Dump d lit tmp h c = Some c'" "prints c (links_text (con_bytes c) ?xs) tmp c'"
    using Heap_Dump_follows_links [OF xs(1) _ assms(6,7)] by metis
  have blocks: "links_text (con_bytes c) ?xs = heap_text ?s bs" if "as = []"
  proof -
    note P = chain_path [OF ch assms(2) s(1) unat_lt_2p32]
    have "con_bytes c = m" using assms(4) that by simp
    then have "?xs = block_nodes ?s bs" using link_path_unique [OF xs(1)] P(1) s(2) by simp
    then show ?thesis using P(2) [of 0] \<open>con_bytes c = m\<close> by (simp add: links_text_def heap_text_def del: nodes_text.simps)
  qed
  have "\<forall>x\<in>set ?xs. \<exists>i<length bs. unat x = block_at ?s bs i" using in_H by (auto simp: heap_headers_def)
  then show ?thesis
    using c' xs(1,2) blocks by (intro exI [of _ ?xs] exI [of _ c']) (auto simp: prints_def simp del: link_path.simps)
qed

definition console_heap :: console where
  "console_heap = console_0\<lparr>con_bytes := set_State 0x1000 HeapReserved (set_Size 0x1000 100
     (literal_memory [heap_opening, heap_line, heap_closing]))\<rparr>"

text \<open>The heap with its block in use, and after the block has been freed twice.\<close>

theorem heap_dump_lists_blocks_witness:
  "(\<exists>c'. Heap_Dump crtc_device (literal_address [heap_opening, heap_line, heap_closing]) 0x8000
      (heap_0\<lparr>m_CurrentAddress := 0x1071\<rparr>) console_heap = Some c' \<and>
    terminal_of c' = terminal_string LightBrown (heap_text 0x1000 [(100, HeapReserved)]) (terminal_of console_heap)) \<and>
   (\<exists>c'. Heap_Dump crtc_device (literal_address [heap_opening, heap_line, heap_closing]) 0x8000
      (heap_0\<lparr>m_CurrentAddress := 0x1071\<rparr>)
      (console_heap\<lparr>con_bytes := fold Heap_Free [0x100D, 0x100D] (con_bytes console_heap)\<rparr>) = Some c' \<and> console_wf c')"
proof -
  let ?ss = "[heap_opening, heap_line, heap_closing]" and ?h = "heap_0\<lparr>m_CurrentAddress := 0x1071\<rparr>"
  have ss: "length ?ss \<le> 32" "\<forall>s\<in>set ?ss. length s < 256 \<and> 0 \<notin> set (bytes_of s)"
    by (simp_all add: heap_opening_def heap_line_def heap_closing_def text_line_def opening_line_def bytes_of_def)
  have m: "con_bytes console_heap = set_State (of_nat 0x1000) HeapReserved (set_Size (of_nat 0x1000) 100 (literal_memory ?ss))"
    by (simp add: console_heap_def)
  have same: "same_bytes {0x3000..<0x5000} (literal_memory ?ss) (con_bytes console_heap)"
    unfolding m by (rule same_bytes_trans [OF set_frames(1) set_frames(2)]) auto
  from literal_memory_ready [OF ss this]
  have lits: "literals_ready (literal_address ?ss) 0x8000 (con_bytes console_heap) heap_literals"
    by (simp add: heap_literals_def)
  have z: "literal_memory ?ss x = 0" if "unat x < 0x3000" for x using that by (simp add: literal_memory_def Let_def)
  have node: "node_Next (con_bytes console_heap) (of_nat 0x1000) = 0" "node_Prev (con_bytes console_heap) (of_nat 0x1000) = 0"
    "node_Size (con_bytes console_heap) (of_nat 0x1000) = 100"
    "node_State (con_bytes console_heap) (of_nat 0x1000) = HeapState_value HeapReserved"
    unfolding m by (subst node_read_after_write | simp add: node_reads load32_def z)+
  have wfh: "heap_wf ?h (con_bytes console_heap) [(100, HeapReserved)]"
    using node by (simp add: heap_wf_def heap_0_def)
  have quiet: "{unat (m_StartAddress ?h)..<unat (m_CurrentAddress ?h)} \<subseteq> quiet_bytes 0x8000"
    by (auto simp: heap_0_def quiet_bytes_def other_bytes_def video_bytes_def tmp_bytes_def)
  have wf: "console_wf console_heap" using console_0_wf by (simp add: console_heap_def console_wf_def)
  have color: "s_Color console_heap = LightBrown" and start: "unat (m_StartAddress ?h) = 0x1000"
    by (simp_all add: console_heap_def console_0_def heap_0_def)
  have one: "\<exists>i<length [(100 :: nat, HeapReserved)]. unat (0x100D :: u32) = block_at (unat (m_StartAddress ?h)) [(100, HeapReserved)] i + 13"
    by (rule exI [of _ 0]) (simp add: heap_0_def)
  let ?c = "console_heap\<lparr>con_bytes := fold Heap_Free [0x100D, 0x100D] (con_bytes console_heap)\<rparr>"
  note L = heap_headers_linked [OF wfh]
  have "linked (heap_headers ?h [(100, HeapReserved)]) (con_bytes console_heap) (con_bytes ?c)"
    using frees_linked [OF L(1,2), of "[0x100D, 0x100D]"] one by (auto simp: heap_headers_def)
  then have "same_bytes ({..<4294967296} - {0x1000..<0x100D}) (con_bytes console_heap) (con_bytes ?c)"
    by (simp add: linked_def heap_headers_def heap_0_def lessThan_Suc)
  then have "same_bytes {0x3000..<0x5000} (con_bytes console_heap) (con_bytes ?c)" by (rule same_bytes_mono) auto
  from literal_memory_ready [OF ss same_bytes_trans [OF same this]]
  have lits2: "literals_ready (literal_address ?ss) 0x8000 (con_bytes ?c) heap_literals" by (simp add: heap_literals_def)
  have wf2: "console_wf ?c" using wf by (simp add: console_wf_def)
  have ne: "[(100 :: nat, HeapReserved)] \<noteq> []" by simp
  have none: "\<forall>a\<in>set []. a = 0 \<or> (\<exists>i<length [(100 :: nat, HeapReserved)]. unat (a :: u32) =
      block_at (unat (m_StartAddress ?h)) [(100, HeapReserved)] i + 13)"
    and twice: "\<forall>a\<in>set [0x100D, 0x100D]. a = 0 \<or> (\<exists>i<length [(100 :: nat, HeapReserved)]. unat (a :: u32) =
      block_at (unat (m_StartAddress ?h)) [(100, HeapReserved)] i + 13)"
    using one by simp_all
  have bytes: "con_bytes console_heap = fold Heap_Free [] (con_bytes console_heap)"
    "con_bytes ?c = fold Heap_Free [0x100D, 0x100D] (con_bytes console_heap)" by simp_all
  obtain xs c' where A: "Heap_Dump crtc_device (literal_address ?ss) 0x8000 ?h console_heap = Some c'"
    "terminal_of c' = terminal_string (s_Color console_heap) (links_text (con_bytes console_heap) xs) (terminal_of console_heap)"
    "links_text (con_bytes console_heap) xs = heap_text (unat (m_StartAddress ?h)) [(100, HeapReserved)]"
    using heap_dump_lists_blocks [OF wfh ne none bytes(1) quiet wf lits, of crtc_device] by blast
  obtain c2 where "Heap_Dump crtc_device (literal_address ?ss) 0x8000 ?h ?c = Some c2" "console_wf c2"
    using heap_dump_lists_blocks [OF wfh ne twice bytes(2) quiet wf2 lits2, of crtc_device] by blast
  then have B: "\<exists>c'. Heap_Dump crtc_device (literal_address ?ss) 0x8000 ?h ?c = Some c' \<and> console_wf c'" by blast
  have "terminal_of c' = terminal_string LightBrown (heap_text 0x1000 [(100, HeapReserved)]) (terminal_of console_heap)"
    unfolding A(2,3) color start ..
  with A(1) B show ?thesis by blast
qed

end
