(* ===== verification/KernelPages.thy ===== *)
theory KernelPages
  imports VirtAlloc
begin

text \<open>
  The page managers as their clients use them, over whole histories of calls. The first part runs any
  sequence of calls of the public methods of \<^verbatim>\<open>PhysicalMemoryManager\<close>, \<^verbatim>\<open>VirtualMemoryManager\<close> and
  \<^verbatim>\<open>VirtualMemoryAllocator\<close> with arbitrary arguments and shows that no call follows a wild table pointer
  or breaks a manager. The second part is the state machine of clients that ask the allocator for pages
  and give back what they hold, in any order.
\<close>

section \<open>Arbitrary calls\<close>

datatype manager_call =
    AllocateFrames u32
  | FreeFrames u32 u32
  | ReserveFrames u32 u32
  | SetFrameRegion u32 u32 PageState
  | MapPages u32 u32 bool u32
  | UnmapPages u32 u32
  | LookUpPage u32
  | FlushPages u32 u32
  | AllocateKernelPages u32
  | FreeKernelPages u32 u32
  | ReserveKernelPages u32 u32
  | SetKernelRegion u32 u32 VirtualPageState

abbreviation on_pmm :: "(pmm \<Rightarrow> pmm) \<Rightarrow> memory_state \<Rightarrow> memory_state" where
  "on_pmm f k \<equiv> k\<lparr>g_KernelPMM := f (g_KernelPMM k)\<rparr>"

abbreviation on_vma :: "(vma \<Rightarrow> vma) \<Rightarrow> memory_state \<Rightarrow> memory_state" where
  "on_vma f k \<equiv> k\<lparr>g_KernelVMA := f (g_KernelVMA k)\<rparr>"

abbreviation on_vmm :: "(vmm \<Rightarrow> ('r \<times> vmm) option) \<Rightarrow> memory_state \<Rightarrow> memory_state option" where
  "on_vmm f k \<equiv> map_option (\<lambda>r. k\<lparr>g_KernelVMM := snd r\<rparr>) (f (g_KernelVMM k))"

fun run_call :: "manager_call \<Rightarrow> memory_state \<Rightarrow> memory_state option" where
  "run_call (AllocateFrames n) k = Some (on_pmm (\<lambda>p. snd (PMM_AllocatePages n p)) k)"
| "run_call (FreeFrames a n) k = Some (on_pmm (PMM_FreePages a n) k)"
| "run_call (ReserveFrames a n) k = Some (on_pmm (PMM_ReservePages a n) k)"
| "run_call (SetFrameRegion a sz st) k = Some (on_pmm (PMM_SetRegionState a sz st) k)"
| "run_call (MapPages va pa w n) k = on_vmm (VMM_MapRange (k_MemoryUtil k) va pa w n) k"
| "run_call (UnmapPages va n) k = on_vmm (VMM_UnmapRange (k_MemoryUtil k) va n) k"
| "run_call (LookUpPage va) k =
     map_option (\<lambda>_. k) (VMM_GetPhysicalAddress (k_MemoryUtil k) va (g_KernelVMM k))"
| "run_call (FlushPages va n) k = Some (k\<lparr>g_KernelVMM := VMM_FlushTLBRange va n (g_KernelVMM k)\<rparr>)"
| "run_call (AllocateKernelPages n) k = map_option snd (VMA_AllocatePages n k)"
| "run_call (FreeKernelPages a n) k = map_option snd (VMA_FreePages a n k)"
| "run_call (ReserveKernelPages a n) k = Some (on_vma (VMA_ReservePages a n) k)"
| "run_call (SetKernelRegion a sz st) k = Some (on_vma (VMA_SetRegionState a sz st) k)"

primrec run_calls :: "manager_call list \<Rightarrow> memory_state \<Rightarrow> memory_state option" where
  "run_calls [] k = Some k"
| "run_calls (c # cs) k = Option.bind (run_call c k) (run_calls cs)"

text \<open>
  Every manager is well formed for itself. This asks less than \<open>memory_inv\<close>: nothing is said about how
  the managers fit together, which arbitrary calls may well destroy.
\<close>

definition managers_wf :: "memory_state \<Rightarrow> bool" where
  "managers_wf k \<longleftrightarrow> pmm_wf (g_KernelPMM k) \<and> vmm_wf (k_MemoryUtil k) (g_KernelVMM k) \<and>
     vma_wf (g_KernelVMA k)"

lemma managers_wfI [intro]:
  "pmm_wf (g_KernelPMM k) \<Longrightarrow> vmm_wf (k_MemoryUtil k) (g_KernelVMM k) \<Longrightarrow> vma_wf (g_KernelVMA k) \<Longrightarrow>
    managers_wf k"
  by (simp add: managers_wf_def)

lemma managers_wfD:
  assumes "managers_wf k"
  shows "pmm_wf (g_KernelPMM k)" and "vmm_wf (k_MemoryUtil k) (g_KernelVMM k)" and "vma_wf (g_KernelVMA k)"
  using assms by (simp_all add: managers_wf_def)

lemma memory_inv_managers_wf: "memory_inv k \<Longrightarrow> managers_wf k"
  by (auto dest: memory_invD)

lemma MapRange_safe:
  assumes "vmm_wf mu s"
  obtains ok s' where "VMM_MapRange mu va pa w n s = Some (ok, s')" and "vmm_wf mu s'"
  using MapRange_loop_refines [OF assms, of "unat n" va pa w] unfolding VMM_MapRange_def by blast

lemma UnmapRange_safe:
  assumes "vmm_wf mu s"
  obtains ok s' where "VMM_UnmapRange mu va n s = Some (ok, s')" and "vmm_wf mu s'"
  using UnmapRange_loop_refines [OF assms, of "unat n" va] unfolding VMM_UnmapRange_def by blast

lemma FlushTLBRange_wf: "vmm_wf mu s \<Longrightarrow> vmm_wf mu (VMM_FlushTLBRange va n s)"
  unfolding VMM_FlushTLBRange_def
  by (rule for_range_invariant [of "\<lambda>_. vmm_wf mu"]) (simp_all add: flush_frame)

lemma vma_wf_updates [simp]:
  "vma_wf v \<Longrightarrow> vma_wf (v\<lparr>vma_Bitmap := Bitmap_SetBits i n (vma_Bitmap v)\<rparr>)"
  "vma_wf v \<Longrightarrow> vma_wf (v\<lparr>vma_Bitmap := Bitmap_ClearBits i n (vma_Bitmap v)\<rparr>)"
  "vma_wf v \<Longrightarrow> vma_wf (VMA_ReservePages a n v)"
  "vma_wf v \<Longrightarrow> vma_wf (VMA_SetRegionState a sz st v)"
  by (auto simp: vma_wf_def VMA_ReservePages_def VMA_SetRegionState_def Let_def split: VirtualPageState.split)

text \<open>
  A call of the allocator runs through with any argument: also where it fails it leaves three managers
  that are well formed.
\<close>

lemma VMA_AllocatePages_safe:
  assumes "managers_wf k"
  obtains a k' where "VMA_AllocatePages n k = Some (a, k')" and "managers_wf k'"
    and "k_MemoryUtil k' = k_MemoryUtil k"
proof -
  note wf = managers_wfD [OF assms]
  let ?f = "Bitmap_FindUnsetBits (vma_Bitmap (g_KernelVMA k)) n"
  let ?p = "PMM_AllocatePages n (g_KernelPMM k)"
  let ?v = "(g_KernelVMA k)\<lparr>vma_Bitmap := Bitmap_SetBits ?f n (vma_Bitmap (g_KernelVMA k))\<rparr>"
  obtain ok vm where m: "VMM_MapRange (k_MemoryUtil k) (VMA_PageNumberToAddress ?v ?f) (fst ?p) True n
      (g_KernelVMM k) = Some (ok, vm)" "vmm_wf (k_MemoryUtil k) vm"
    by (rule MapRange_safe [OF wf(2)])
  have none: "managers_wf (k\<lparr>g_KernelPMM := snd ?p\<rparr>)"
    using wf pmm_wf_AllocatePages [OF wf(1)] by (intro managers_wfI) simp_all
  have full: "managers_wf (k\<lparr>g_KernelPMM := snd ?p, g_KernelVMA := ?v, g_KernelVMM := vm\<rparr>)"
    using wf m(2) pmm_wf_AllocatePages [OF wf(1)] by (intro managers_wfI) simp_all
  consider "n = 0 \<or> sint ?f < 0" | "n \<noteq> 0" "0 \<le> sint ?f" "fst ?p = 0" | "n \<noteq> 0" "0 \<le> sint ?f" "fst ?p \<noteq> 0"
    by linarith
  then show ?thesis
  proof cases
    case 1
    then show ?thesis
      using assms by (intro that [of 0 k]) (auto simp: VMA_AllocatePages_def Let_def)
  next
    case 2
    then show ?thesis
      using none by (intro that [of 0 "k\<lparr>g_KernelPMM := snd ?p\<rparr>"])
        (simp_all add: VMA_AllocatePages_def Let_def case_prod_beta)
  next
    case 3
    then show ?thesis
      using m(1) full
      by (intro that [of "if ok then VMA_PageNumberToAddress ?v ?f else 0"
            "k\<lparr>g_KernelPMM := snd ?p, g_KernelVMA := ?v, g_KernelVMM := vm\<rparr>"])
        (simp_all add: VMA_AllocatePages_def Let_def case_prod_beta)
  qed
qed

lemma VMA_FreePages_safe:
  assumes "managers_wf k"
  obtains ok k' where "VMA_FreePages a n k = Some (ok, k')" and "managers_wf k'"
    and "k_MemoryUtil k' = k_MemoryUtil k"
proof -
  note wf = managers_wfD [OF assms]
  obtain ok vm where u: "VMM_UnmapRange (k_MemoryUtil k) a n (g_KernelVMM k) = Some (ok, vm)"
      "vmm_wf (k_MemoryUtil k) vm"
    by (rule UnmapRange_safe [OF wf(2)])
  obtain pa where pa: "VMM_GetPhysicalAddress (k_MemoryUtil k) a (g_KernelVMM k) = Some pa"
    using VMM_GetPhysicalAddress_eq [OF wf(2)] by blast
  let ?half = "k\<lparr>g_KernelVMM := vm\<rparr>"
  let ?full = "?half\<lparr>g_KernelPMM := PMM_FreePages pa n (g_KernelPMM k),
    g_KernelVMA := (g_KernelVMA k)\<lparr>vma_Bitmap := Bitmap_ClearBits
      (VMA_AddressToPageNumber (g_KernelVMA k) a) n (vma_Bitmap (g_KernelVMA k))\<rparr>\<rparr>"
  have "managers_wf ?half" "managers_wf ?full"
    using wf u(2) by (intro managers_wfI; simp)+
  then show ?thesis
    using u(1) pa assms
    by (intro that [of "a = 0 \<or> ok" "if a = 0 then k else if ok then ?full else ?half"])
      (simp_all add: VMA_FreePages_def Let_def)
qed

lemma run_call_safe:
  assumes "managers_wf k"
  shows "\<exists>k'. run_call c k = Some k' \<and> managers_wf k' \<and> k_MemoryUtil k' = k_MemoryUtil k"
proof (cases c)
  case (MapPages va pa w n)
  obtain ok vm where "VMM_MapRange (k_MemoryUtil k) va pa w n (g_KernelVMM k) = Some (ok, vm)"
      "vmm_wf (k_MemoryUtil k) vm"
    by (rule MapRange_safe [OF managers_wfD(2) [OF assms]])
  then show ?thesis using MapPages managers_wfD [OF assms] by (auto simp: managers_wf_def)
next
  case (UnmapPages va n)
  obtain ok vm where "VMM_UnmapRange (k_MemoryUtil k) va n (g_KernelVMM k) = Some (ok, vm)"
      "vmm_wf (k_MemoryUtil k) vm"
    by (rule UnmapRange_safe [OF managers_wfD(2) [OF assms]])
  then show ?thesis using UnmapPages managers_wfD [OF assms] by (auto simp: managers_wf_def)
next
  case (AllocateKernelPages n)
  obtain a k' where "VMA_AllocatePages n k = Some (a, k')" "managers_wf k'" "k_MemoryUtil k' = k_MemoryUtil k"
    by (rule VMA_AllocatePages_safe [OF assms])
  with AllocateKernelPages show ?thesis by simp
next
  case (FreeKernelPages a n)
  obtain ok k' where "VMA_FreePages a n k = Some (ok, k')" "managers_wf k'" "k_MemoryUtil k' = k_MemoryUtil k"
    by (rule VMA_FreePages_safe [OF assms])
  with FreeKernelPages show ?thesis by simp
qed (use managers_wfD [OF assms] in
  \<open>simp_all add: managers_wf_def pmm_wf_AllocatePages FlushTLBRange_wf VMM_GetPhysicalAddress_eq\<close>)

lemma run_calls_safe:
  "managers_wf k \<Longrightarrow> \<exists>k'. run_calls cs k = Some k' \<and> managers_wf k' \<and> k_MemoryUtil k' = k_MemoryUtil k"
proof (induction cs arbitrary: k)
  case (Cons c cs)
  from run_call_safe [OF Cons.prems, of c] obtain k1
    where "run_call c k = Some k1" "managers_wf k1" "k_MemoryUtil k1 = k_MemoryUtil k" by blast
  with Cons.IH [of k1] show ?case by auto
qed simp

section \<open>Clients that hold pages\<close>

text \<open>
  A request fits when both managers have a run of free pages that is long enough. The clients of the
  state machine ask only for what fits; what happens otherwise is the subject of
  \<open>vma_aliases_frames_when_memory_is_short\<close>.
\<close>

definition fits :: "u32 \<Rightarrow> memory_state \<Rightarrow> bool" where
  "fits n k \<longleftrightarrow> 0 < n \<and>
     first_run (vma_size (g_KernelVMA k)) (vpage_taken (g_KernelVMA k)) (unat n) \<noteq> None \<and>
     pmm_first_run (g_KernelPMM k) n \<noteq> None"

text \<open>
  The states the managers reach from \<open>k0\<close>, with the set of grants the clients hold: the address and the
  number of pages of each.
\<close>

inductive grants_reach :: "memory_state \<Rightarrow> (u32 \<times> u32) set \<Rightarrow> memory_state \<Rightarrow> bool" for k0 where
  start: "grants_reach k0 {} k0"
| nothing: "grants_reach k0 gs k \<Longrightarrow> VMA_AllocatePages 0 k = Some (a, k') \<Longrightarrow> grants_reach k0 gs k'"
| grant: "grants_reach k0 gs k \<Longrightarrow> fits n k \<Longrightarrow> VMA_AllocatePages n k = Some (a, k') \<Longrightarrow>
    grants_reach k0 (insert (a, n) gs) k'"
| release: "grants_reach k0 gs k \<Longrightarrow> (a, n) \<in> gs \<Longrightarrow> VMA_FreePages a n k = Some (ok, k') \<Longrightarrow>
    grants_reach k0 (gs - {(a, n)}) k'"

text \<open>
  What the state is, given the blocks in use. A block is its first page of address space, its number of
  pages and its first frame.
\<close>

type_synonym block = "nat \<times> nat \<times> nat"

fun block_pages :: "block \<Rightarrow> nat set" where
  "block_pages (r, n, t) = {r..<r + n}"

fun block_frames :: "block \<Rightarrow> nat set" where
  "block_frames (r, n, t) = {t..<t + n}"

definition page_address :: "memory_state \<Rightarrow> nat \<Rightarrow> u32" where
  "page_address k r = vma_StartAddress (g_KernelVMA k) + of_nat r * 4096"

definition frame_address :: "memory_state \<Rightarrow> nat \<Rightarrow> u32" where
  "frame_address k t = pmm_StartAddress (g_KernelPMM k) + of_nat t * 4096"

fun block_grant :: "memory_state \<Rightarrow> block \<Rightarrow> u32 \<times> u32" where
  "block_grant k (r, n, t) = (page_address k r, of_nat n)"

definition block_ok :: "memory_state \<Rightarrow> block \<Rightarrow> bool" where
  "block_ok k0 b \<longleftrightarrow> (case b of (r, n, t) \<Rightarrow> 0 < n \<and>
     r + n \<le> vma_size (g_KernelVMA k0) \<and> t + n \<le> pmm_size (g_KernelPMM k0) \<and>
     (\<forall>i<n. \<not> vpage_taken (g_KernelVMA k0) (r + i) \<and> \<not> page_taken (g_KernelPMM k0) (t + i)))"

definition same_layout :: "memory_state \<Rightarrow> memory_state \<Rightarrow> bool" where
  "same_layout k0 k \<longleftrightarrow> vma_StartAddress (g_KernelVMA k) = vma_StartAddress (g_KernelVMA k0) \<and>
     vma_size (g_KernelVMA k) = vma_size (g_KernelVMA k0) \<and>
     pmm_StartAddress (g_KernelPMM k) = pmm_StartAddress (g_KernelPMM k0) \<and>
     pmm_size (g_KernelPMM k) = pmm_size (g_KernelPMM k0)"

definition blocks_mapping :: "memory_state \<Rightarrow> block set \<Rightarrow> (nat \<rightharpoonup> u32) \<Rightarrow> bool" where
  "blocks_mapping k0 B m \<longleftrightarrow>
     (\<forall>r n t i. (r, n, t) \<in> B \<longrightarrow> i < n \<longrightarrow>
        m (vma_base (g_KernelVMA k0) + r + i) = Some (frame_address k0 t + of_nat i * 4096)) \<and>
     (\<forall>q. (\<forall>r n t. (r, n, t) \<in> B \<longrightarrow>
          q \<notin> {vma_base (g_KernelVMA k0) + r..<vma_base (g_KernelVMA k0) + r + n}) \<longrightarrow>
        m q = kernel_mapping k0 q)"

definition blocks_apart :: "block set \<Rightarrow> bool" where
  "blocks_apart B \<longleftrightarrow> (\<forall>b\<in>B. \<forall>c\<in>B. b \<noteq> c \<longrightarrow>
     block_pages b \<inter> block_pages c = {} \<and> block_frames b \<inter> block_frames c = {})"

definition described :: "memory_state \<Rightarrow> block set \<Rightarrow> memory_state \<Rightarrow> bool" where
  "described k0 B k \<longleftrightarrow> memory_inv k \<and> same_layout k0 k \<and> (\<forall>b\<in>B. block_ok k0 b) \<and> blocks_apart B \<and>
     blocks_mapping k0 B (kernel_mapping k) \<and>
     (\<forall>i. vpage_taken (g_KernelVMA k) i \<longleftrightarrow> vpage_taken (g_KernelVMA k0) i \<or> i \<in> \<Union> (block_pages ` B)) \<and>
     (\<forall>i. page_taken (g_KernelPMM k) i \<longleftrightarrow> page_taken (g_KernelPMM k0) i \<or> i \<in> \<Union> (block_frames ` B))"

definition frames_addressable :: "memory_state \<Rightarrow> bool" where
  "frames_addressable k \<longleftrightarrow> (\<forall>t < pmm_size (g_KernelPMM k). \<not> page_taken (g_KernelPMM k) t \<longrightarrow>
     frame_address k t \<noteq> 0)"

named_theorems block_defs

lemmas [block_defs] = described_def same_layout_def blocks_apart_def block_ok_def page_address_def
  frame_address_def

lemma describedD:
  assumes "described k0 B k"
  shows "memory_inv k" and "same_layout k0 k" and "b \<in> B \<Longrightarrow> block_ok k0 b" and "blocks_apart B"
    and "blocks_mapping k0 B (kernel_mapping k)"
    and "vpage_taken (g_KernelVMA k) i \<longleftrightarrow> vpage_taken (g_KernelVMA k0) i \<or> i \<in> \<Union> (block_pages ` B)"
    and "page_taken (g_KernelPMM k) i \<longleftrightarrow> page_taken (g_KernelPMM k0) i \<or> i \<in> \<Union> (block_frames ` B)"
  using assms by (simp_all add: described_def)

lemma layoutD:
  assumes "same_layout k0 k"
  shows "page_address k r = page_address k0 r" and "frame_address k t = frame_address k0 t"
    and "vma_StartAddress (g_KernelVMA k) = vma_StartAddress (g_KernelVMA k0)"
    and "vma_size (g_KernelVMA k) = vma_size (g_KernelVMA k0)"
    and "pmm_size (g_KernelPMM k) = pmm_size (g_KernelPMM k0)"
    and "pmm_StartAddress (g_KernelPMM k) = pmm_StartAddress (g_KernelPMM k0)"
  using assms by (simp_all add: block_defs)

lemma described_start: "memory_inv k0 \<Longrightarrow> described k0 {} k0"
  by (simp add: block_defs blocks_mapping_def)

lemma blocks_mapping_insert:
  assumes "blocks_mapping k0 B m" and "\<forall>b\<in>B. block_pages b \<inter> {r..<r + n} = {}"
  shows "blocks_mapping k0 (insert (r, n, t) B)
    (range_map (vma_base (g_KernelVMA k0) + r) n (frame_address k0 t) m)"
proof -
  let ?v = "vma_base (g_KernelVMA k0)"
  have old: "m (?v + s + i) = Some (frame_address k0 u + of_nat i * 4096)" "s + i \<notin> {r..<r + n}"
    if "(s, l, u) \<in> B" "i < l" for s l u i
    using assms that by (auto simp: blocks_mapping_def disjoint_iff)
  have "range_map (?v + r) n (frame_address k0 t) m (?v + s + i) = Some (frame_address k0 u + of_nat i * 4096)"
    if "(s, l, u) \<in> insert (r, n, t) B" "i < l" for s l u i
    using that old [of s l u i] by (auto simp: range_map_def)
  moreover have "range_map (?v + r) n (frame_address k0 t) m q = kernel_mapping k0 q"
    if "\<forall>s l u. (s, l, u) \<in> insert (r, n, t) B \<longrightarrow> q \<notin> {?v + s..<?v + s + l}" for q
  proof -
    have "q \<notin> {?v + r..<?v + r + n}" "\<forall>s l u. (s, l, u) \<in> B \<longrightarrow> q \<notin> {?v + s..<?v + s + l}"
      using that by blast+
    then show ?thesis using assms(1) by (auto simp: blocks_mapping_def range_map_def)
  qed
  ultimately show ?thesis unfolding blocks_mapping_def by blast
qed

lemma blocks_mapping_remove:
  assumes "blocks_mapping k0 B m" and "blocks_apart B" and "(r, n, t) \<in> B"
    and "\<forall>i<n. kernel_mapping k0 (vma_base (g_KernelVMA k0) + r + i) = None"
  shows "blocks_mapping k0 (B - {(r, n, t)}) (range_unmap (vma_base (g_KernelVMA k0) + r) n m)"
proof -
  let ?v = "vma_base (g_KernelVMA k0)"
  have "s + i \<notin> {r..<r + n}" if "(s, l, u) \<in> B - {(r, n, t)}" "i < l" for s l u i
    using assms(2,3) that by (fastforce simp: blocks_apart_def disjoint_iff)
  then have "range_unmap (?v + r) n m (?v + s + i) = Some (frame_address k0 u + of_nat i * 4096)"
    if "(s, l, u) \<in> B - {(r, n, t)}" "i < l" for s l u i
    using that assms(1) by (fastforce simp: range_unmap_def blocks_mapping_def)
  moreover have "range_unmap (?v + r) n m q = kernel_mapping k0 q"
    if q: "\<forall>s l u. (s, l, u) \<in> B - {(r, n, t)} \<longrightarrow> q \<notin> {?v + s..<?v + s + l}" for q
  proof (cases "q \<in> {?v + r..<?v + r + n}")
    case True
    then have "?v + r + (q - (?v + r)) = q" "q - (?v + r) < n" by auto
    with assms(4) True show ?thesis by (metis atLeastLessThan_iff range_unmap_def)
  next
    case False
    with q have "\<forall>s l u. (s, l, u) \<in> B \<longrightarrow> q \<notin> {?v + s..<?v + s + l}" by blast
    with assms(1) False show ?thesis by (auto simp: blocks_mapping_def range_unmap_def)
  qed
  ultimately show ?thesis unfolding blocks_mapping_def by blast
qed

lemma blocks_apart_insert:
  assumes "blocks_apart B"
    and "\<forall>c\<in>B. block_pages b \<inter> block_pages c = {} \<and> block_frames b \<inter> block_frames c = {}"
  shows "blocks_apart (insert b B)"
  unfolding blocks_apart_def
proof (intro ballI impI)
  fix c d
  assume "c \<in> insert b B" "d \<in> insert b B" "c \<noteq> d"
  then consider "c = b" "d \<in> B" | "c \<in> B" "d = b" | "c \<in> B" "d \<in> B" "c \<noteq> d" by blast
  then show "block_pages c \<inter> block_pages d = {} \<and> block_frames c \<inter> block_frames d = {}"
    using assms by cases (simp_all only: blocks_apart_def Int_commute [of _ "block_pages b"]
      Int_commute [of _ "block_frames b"], blast+)
qed

lemma blocks_apart_subset: "blocks_apart B \<Longrightarrow> C \<subseteq> B \<Longrightarrow> blocks_apart C"
  unfolding blocks_apart_def by blast

lemma block_pages_unmapped:
  assumes "described k0 B k" and "(r, n, t) \<in> B" and "i < n" and "memory_inv k0"
  shows "kernel_mapping k0 (vma_base (g_KernelVMA k0) + r + i) = None"
proof -
  have b: "r + n \<le> vma_size (g_KernelVMA k0)" "\<not> vpage_taken (g_KernelVMA k0) (r + i)"
    using describedD(3) [OF assms(1,2)] assms(3) by (auto simp: block_ok_def)
  then show ?thesis
    using memory_invD(5) [OF assms(4)] assms(3) by (simp add: free_unmapped_def mappable_def add.assoc)
qed

lemma described_grant:
  assumes k0: "frames_addressable k0" and d: "described k0 B k" and n: "0 < n"
    and run: "first_run (vma_size (g_KernelVMA k)) (vpage_taken (g_KernelVMA k)) (unat n) = Some r"
    and frames: "pmm_first_run (g_KernelPMM k) n = Some t"
  obtains k' where "VMA_AllocatePages n k = Some (page_address k0 r, k')"
    and "described k0 (insert (r, unat n, t) B) k'"
proof -
  let ?b = "(r, unat n, t)" and ?v = "g_KernelVMA k" and ?p = "g_KernelPMM k"
  note inv = memory_invD [OF describedD(1) [OF d]]
  note lay = layoutD [OF describedD(2) [OF d]]
  note wf = vma_wfD(1) [OF inv(4)]
  note pm = PMM_AllocatePages_run [OF inv(1) n frames]
  have n': "0 < unat n" using n by (simp add: word_less_nat_alt)
  have free: "\<not> vpage_taken ?v (r + i)" "\<not> page_taken ?p (t + i)" if "i < unat n" for i
    using rs.take_run(1) [OF wf n run] pm(3) that by auto
  have ok: "block_ok k0 ?b"
    using free n' rs.find_run(3) [OF wf n run] pm(4) lay(4,5) describedD(6,7) [OF d]
    by (simp add: block_ok_def)
  have pa: "frame_address k0 t \<noteq> 0"
    using k0 ok n' by (fastforce simp: frames_addressable_def block_ok_def)
  have p_eq: "PMM_AllocatePages n ?p = (frame_address k0 t, snd (PMM_AllocatePages n ?p))"
    using pm(1) lay(6) by (simp add: prod_eq_iff frame_address_def)
  obtain k' where k': "VMA_AllocatePages n k = Some (vma_StartAddress ?v + of_nat r * 4096, k')"
      "memory_inv k'" "g_KernelPMM k' = snd (PMM_AllocatePages n ?p)"
      "g_KernelVMA k' = ?v\<lparr>vma_Bitmap := Bitmap_SetBits (of_nat r) n (vma_Bitmap ?v)\<rparr>"
      "kernel_mapping k' = range_map (vma_base ?v + r) (unat n) (frame_address k0 t) (kernel_mapping k)"
    by (rule VMA_AllocatePages_backed [OF describedD(1) [OF d] n run p_eq pa])
  have taken: "vpage_taken (g_KernelVMA k') i \<longleftrightarrow> vpage_taken ?v i \<or> r \<le> i \<and> i < r + unat n" for i
    using k'(4) rs.take_run(2) [OF wf n run] rs.find_run(1) [OF wf n run] by simp
  have apart: "\<forall>c\<in>B. block_pages ?b \<inter> block_pages c = {} \<and> block_frames ?b \<inter> block_frames c = {}"
    using describedD(6,7) [OF d] rs.take_run(1) [OF wf n run] pm(3) by fastforce
  have "same_layout k0 k'"
    using lay k'(3,4) inv(1) wf by (simp add: same_layout_def)
  moreover have "blocks_mapping k0 (insert ?b B) (kernel_mapping k')"
    using blocks_mapping_insert [OF describedD(5) [OF d], of r "unat n" t] apart k'(5) lay(3)
    by (simp add: Int_commute)
  moreover have "\<forall>i. vpage_taken (g_KernelVMA k') i \<longleftrightarrow>
      vpage_taken (g_KernelVMA k0) i \<or> i \<in> \<Union> (block_pages ` insert ?b B)"
    using taken describedD(6) [OF d] by auto
  moreover have "\<forall>i. page_taken (g_KernelPMM k') i \<longleftrightarrow>
      page_taken (g_KernelPMM k0) i \<or> i \<in> \<Union> (block_frames ` insert ?b B)"
    using k'(3) pm(2) describedD(7) [OF d] by auto
  ultimately have "described k0 (insert ?b B) k'"
    using k'(2) ok describedD(3) [OF d] blocks_apart_insert [OF describedD(4) [OF d] apart]
    by (simp add: described_def)
  with k'(1) lay(3) show ?thesis by (intro that [of k']) (simp_all add: page_address_def)
qed

lemma blocks_apartD:
  assumes "blocks_apart B" and "b \<in> B" and "c \<in> B" and "c \<noteq> b"
  shows "block_pages b \<inter> block_pages c = {}" and "block_frames b \<inter> block_frames c = {}"
  using assms unfolding blocks_apart_def by metis+

lemma block_ok_free:
  assumes "block_ok k0 b"
  shows "i \<in> block_pages b \<Longrightarrow> \<not> vpage_taken (g_KernelVMA k0) i"
    and "i \<in> block_frames b \<Longrightarrow> \<not> page_taken (g_KernelPMM k0) i"
proof -
  obtain r n t where b: "b = (r, n, t)" by (cases b)
  have free: "\<And>i. i < n \<Longrightarrow> \<not> vpage_taken (g_KernelVMA k0) (r + i) \<and> \<not> page_taken (g_KernelPMM k0) (t + i)"
    using assms by (simp add: b block_ok_def)
  show "i \<in> block_pages b \<Longrightarrow> \<not> vpage_taken (g_KernelVMA k0) i"
    using free [of "i - r"] by (cases "r \<le> i") (auto simp: b)
  show "i \<in> block_frames b \<Longrightarrow> \<not> page_taken (g_KernelPMM k0) i"
    using free [of "i - t"] by (cases "t \<le> i") (auto simp: b)
qed

text \<open>Taking one of several disjoint sets out of a union.\<close>

lemma taken_remove:
  assumes "\<And>i. T i \<longleftrightarrow> T0 i \<or> i \<in> \<Union> (f ` B)" and "\<And>i. T' i \<longleftrightarrow> T i \<and> i \<notin> f b" and "b \<in> B"
    and "\<And>i. i \<in> f b \<Longrightarrow> \<not> T0 i" and "\<And>c. c \<in> B \<Longrightarrow> c \<noteq> b \<Longrightarrow> f b \<inter> f c = {}"
  shows "\<forall>i. T' i \<longleftrightarrow> T0 i \<or> i \<in> \<Union> (f ` (B - {b}))"
proof
  fix i
  have "\<exists>c\<in>B - {b}. i \<in> f c" if "c \<in> B" "i \<in> f c" "i \<notin> f b" for c using that by blast
  moreover have "i \<notin> f b" if "c \<in> B - {b}" "i \<in> f c" for c using assms(5) [of c] that by blast
  ultimately show "T' i \<longleftrightarrow> T0 i \<or> i \<in> \<Union> (f ` (B - {b}))"
    using assms(1) [of i] assms(2) [of i] assms(4) [of i] by blast
qed

lemma VMA_FreePages_layout:
  assumes "managers_wf k" and "VMA_FreePages a n k = Some (ok, k')"
  shows "same_layout k k'"
  using assms managers_wfD(1) [OF assms(1)] vma_wfD(1) [OF managers_wfD(3) [OF assms(1)]]
  by (auto simp: VMA_FreePages_def same_layout_def Let_def split: if_splits option.splits prod.splits)

lemma described_release:
  assumes k0: "memory_inv k0" "frames_addressable k0" and d: "described k0 B k" and b: "(r, n, t) \<in> B"
  obtains k' where "VMA_FreePages (page_address k0 r) (of_nat n) k = Some (True, k')"
    and "described k0 (B - {(r, n, t)}) k'"
proof -
  let ?b = "(r, n, t)" and ?v = "g_KernelVMA k" and ?p = "g_KernelPMM k"
  note inv = describedD(1) [OF d]
  note lay = layoutD [OF describedD(2) [OF d]]
  have ok: "0 < n" "r + n \<le> vma_size (g_KernelVMA k0)" "t + n \<le> pmm_size (g_KernelPMM k0)"
      "\<And>i. i < n \<Longrightarrow> \<not> vpage_taken (g_KernelVMA k0) (r + i) \<and> \<not> page_taken (g_KernelPMM k0) (t + i)"
    using describedD(3) [OF d b] by (auto simp: block_ok_def)
  have un: "unat (of_nat n :: u32) = n"
    using ok(3) pmm_wfD(3) [OF memory_invD(1) [OF k0(1)]] by (intro unat_of_nat32) linarith
  have pa: "frame_address k0 t \<noteq> 0"
    using k0(2) ok(1,3) ok(4) [of 0] by (simp add: frames_addressable_def)
  have mapped: "kernel_mapping k (vma_base ?v + r + i) = Some (frame_address k0 t + of_nat i * 4096)"
    if "i < unat (of_nat n :: u32)" for i
    using describedD(5) [OF d] b that un lay(3) by (auto simp: blocks_mapping_def)
  have sizes: "r + unat (of_nat n :: u32) \<le> vma_size ?v" "t + unat (of_nat n :: u32) \<le> pmm_size ?p"
    using ok(2,3) lay(4,5) un by simp_all
  have num: "(0 :: u32) < of_nat n" using ok(1) un by (simp add: word_less_nat_alt)
  obtain k' where k': "VMA_FreePages (page_address k0 r) (of_nat n) k = Some (True, k')" "memory_inv k'"
      "kernel_mapping k' = range_unmap (vma_base ?v + r) (unat (of_nat n :: u32)) (kernel_mapping k)"
      "\<forall>i. vpage_taken (g_KernelVMA k') i \<longleftrightarrow>
        vpage_taken ?v i \<and> \<not> (r \<le> i \<and> i < r + unat (of_nat n :: u32))"
      "\<forall>i. page_taken (g_KernelPMM k') i \<longleftrightarrow>
        page_taken ?p i \<and> \<not> (t \<le> i \<and> i < t + unat (of_nat n :: u32))"
  proof (rule VMA_FreePages_ok [OF inv num sizes(1) _ mapped _ pa sizes(2)])
  qed (simp_all add: lay(3,6) page_address_def frame_address_def)
  have "same_layout k k'" by (rule VMA_FreePages_layout [OF memory_inv_managers_wf [OF inv] k'(1)])
  then have "same_layout k0 k'" using describedD(2) [OF d] by (simp add: same_layout_def)
  moreover have "blocks_mapping k0 (B - {?b}) (kernel_mapping k')"
    using blocks_mapping_remove [OF describedD(5,4) [OF d] b] block_pages_unmapped [OF d b _ k0(1)]
      k'(3) un lay(3) by simp
  moreover have "\<forall>i. vpage_taken (g_KernelVMA k') i \<longleftrightarrow>
      vpage_taken (g_KernelVMA k0) i \<or> i \<in> \<Union> (block_pages ` (B - {?b}))"
  proof (rule taken_remove [OF describedD(6) [OF d] _ b block_ok_free(1) [OF describedD(3) [OF d b]]])
    show "vpage_taken (g_KernelVMA k') i \<longleftrightarrow> vpage_taken ?v i \<and> i \<notin> block_pages ?b" for i
      using k'(4) un by simp
  qed (assumption | rule blocks_apartD(1) [OF describedD(4) [OF d] b])+
  moreover have "\<forall>i. page_taken (g_KernelPMM k') i \<longleftrightarrow>
      page_taken (g_KernelPMM k0) i \<or> i \<in> \<Union> (block_frames ` (B - {?b}))"
  proof (rule taken_remove [OF describedD(7) [OF d] _ b block_ok_free(2) [OF describedD(3) [OF d b]]])
    show "page_taken (g_KernelPMM k') i \<longleftrightarrow> page_taken ?p i \<and> i \<notin> block_frames ?b" for i
      using k'(5) un by simp
  qed (assumption | rule blocks_apartD(2) [OF describedD(4) [OF d] b])+
  moreover have "blocks_apart (B - {?b})" by (rule blocks_apart_subset [OF describedD(4) [OF d]]) blast
  moreover have "\<forall>c\<in>B - {?b}. block_ok k0 c" using describedD(3) [OF d] by blast
  ultimately have "described k0 (B - {?b}) k'" using k'(2) by (simp only: described_def) blast
  with k'(1) show ?thesis by (rule that)
qed

text \<open>Different blocks are different grants.\<close>

lemma block_grant_inj:
  assumes "memory_inv k0" and "described k0 B k"
  shows "inj_on (block_grant k0) B"
proof (rule inj_onI)
  fix b c
  assume b: "b \<in> B" "c \<in> B" "block_grant k0 b = block_grant k0 c"
  obtain r n t s m u where e: "b = (r, n, t)" "c = (s, m, u)" by (cases b, cases c) auto
  have ok: "0 < n" "0 < m" "r < 1048576" "s < 1048576"
    using describedD(3) [OF assms(2) b(1)] describedD(3) [OF assms(2) b(2)]
      vma_wfD(5) [OF memory_invD(4) [OF assms(1)]] by (auto simp: e block_ok_def)
  have "r = s" using b(3) page_address_inj [OF ok(3,4)] by (simp add: e page_address_def)
  then have "r \<in> block_pages b \<inter> block_pages c" using ok by (simp add: e)
  then show "b = c" using blocks_apartD(1) [OF describedD(4) [OF assms(2)] b(1,2)] by blast
qed

lemma grants_reach_described:
  assumes "grants_reach k0 gs k" and "memory_inv k0" and "frames_addressable k0"
  shows "\<exists>B. gs = block_grant k0 ` B \<and> described k0 B k"
  using assms
proof (induction rule: grants_reach.induct)
  case start
  then show ?case using described_start by (intro exI [of _ "{}"]) simp
next
  case (nothing gs k a k')
  then show ?case by (simp add: VMA_AllocatePages_def)
next
  case (grant gs k n a k')
  then obtain B where B: "gs = block_grant k0 ` B" "described k0 B k" by blast
  obtain r t where r: "first_run (vma_size (g_KernelVMA k)) (vpage_taken (g_KernelVMA k)) (unat n) = Some r"
      and t: "pmm_first_run (g_KernelPMM k) n = Some t" and n: "0 < n"
    using grant.hyps by (auto simp: fits_def)
  obtain k2 where "VMA_AllocatePages n k = Some (page_address k0 r, k2)"
      "described k0 (insert (r, unat n, t) B) k2"
    by (rule described_grant [OF grant.prems(2) B(2) n r t])
  then show ?case using grant.hyps B(1) by (intro exI [of _ "insert (r, unat n, t) B"]) simp
next
  case (release gs k a n ok k')
  then obtain B where B: "gs = block_grant k0 ` B" "described k0 B k" by blast
  then obtain b where b: "b \<in> B" "block_grant k0 b = (a, n)" using release.hyps by (metis imageE)
  obtain r m t where e: "b = (r, m, t)" by (cases b)
  obtain k2 where "VMA_FreePages a n k = Some (True, k2)" "described k0 (B - {b}) k2"
    using described_release [OF release.prems B(2) b(1) [unfolded e]] b(2) e by auto
  moreover have "gs - {(a, n)} = block_grant k0 ` (B - {b})"
    using inj_on_image_set_diff [OF block_grant_inj [OF release.prems(1) B(2)], of B "{b}"] B(1) b by auto
  ultimately show ?case using release.hyps by (intro exI [of _ "B - {b}"]) simp
qed

text \<open>What a grant of a described state is.\<close>

lemma described_block:
  assumes k0: "memory_inv k0" and d: "described k0 B k" and b: "(r, n, t) \<in> B"
  shows "page_of (page_address k0 r) = vma_base (g_KernelVMA k0) + r" and "page_address k0 r \<noteq> 0"
    and "unat (of_nat n :: u32) = n" and "0 < n" and "t + n \<le> 1048576"
    and "i < n \<Longrightarrow> kernel_mapping k (page_of (page_address k0 r) + i) = Some (frame_address k0 (t + i))"
    and "i < n \<Longrightarrow> \<not> page_taken (g_KernelPMM k0) (t + i)"
proof -
  have ok: "0 < n" "r + n \<le> vma_size (g_KernelVMA k0)" "t + n \<le> pmm_size (g_KernelPMM k0)"
    using describedD(3) [OF d b] by (auto simp: block_ok_def)
  show "page_of (page_address k0 r) = vma_base (g_KernelVMA k0) + r" "page_address k0 r \<noteq> 0"
    using vma_page_address [OF memory_invD(4) [OF k0], of r] ok by (auto simp: page_address_def)
  then show "i < n \<Longrightarrow> kernel_mapping k (page_of (page_address k0 r) + i) = Some (frame_address k0 (t + i))"
    using describedD(5) [OF d] b by (simp add: blocks_mapping_def frame_address_def distrib_right)
  show le: "t + n \<le> 1048576" using ok(3) pmm_wfD(3) [OF memory_invD(1) [OF k0]] by simp
  then show "unat (of_nat n :: u32) = n" by (intro unat_of_nat32) linarith
  show "0 < n" by (rule ok)
  show "i < n \<Longrightarrow> \<not> page_taken (g_KernelPMM k0) (t + i)"
    using describedD(3) [OF d b] by (simp add: block_ok_def)
qed

text \<open>What every grant is, and how two of them lie.\<close>

lemma grant_frames:
  assumes "memory_inv k0" and "frames_addressable k0" and "grants_reach k0 gs k" and "(a, n) \<in> gs"
  shows "a \<noteq> 0 \<and> (\<exists>t. \<forall>i<unat n. kernel_mapping k (page_of a + i) = Some (frame_address k0 (t + i)) \<and>
    \<not> page_taken (g_KernelPMM k0) (t + i))"
proof -
  obtain B where B: "gs = block_grant k0 ` B" "described k0 B k"
    using grants_reach_described [OF assms(3,1,2)] by blast
  from assms(4) B(1) obtain r l t where b: "(r, l, t) \<in> B" "a = page_address k0 r" "n = of_nat l" by auto
  note block = described_block [OF assms(1) B(2) b(1)]
  show ?thesis unfolding b(2,3) block(3) using block by blast
qed

lemma grants_disjoint:
  assumes "memory_inv k0" and "frames_addressable k0" and "grants_reach k0 gs k"
    and g: "(a, n) \<in> gs" "(b, m) \<in> gs" "(a, n) \<noteq> (b, m)" "i < unat n" "j < unat m"
  shows "page_of a + i \<noteq> page_of b + j"
    and "kernel_mapping k (page_of a + i) \<noteq> kernel_mapping k (page_of b + j)"
proof -
  obtain B where B: "gs = block_grant k0 ` B" "described k0 B k"
    using grants_reach_described [OF assms(3,1,2)] by blast
  note block = described_block [OF assms(1) B(2)]
  from g(1) B(1) obtain r l t where b: "(r, l, t) \<in> B" "a = page_address k0 r" "n = of_nat l" by auto
  from g(2) B(1) obtain s h u where c: "(s, h, u) \<in> B" "b = page_address k0 s" "m = of_nat h" by auto
  have ij: "i < l" "j < h" using g(4,5) block(3) [OF b(1)] block(3) [OF c(1)] b(3) c(3) by simp_all
  have "(s, h, u) \<noteq> (r, l, t)" using g(3) b(2,3) c(2,3) by auto
  note apart = blocks_apartD [OF describedD(4) [OF B(2)] b(1) c(1) this]
  have "r + i \<in> block_pages (r, l, t)" "s + j \<in> block_pages (s, h, u)"
    "t + i \<in> block_frames (r, l, t)" "u + j \<in> block_frames (s, h, u)" using ij by simp_all
  with apart have ne: "r + i \<noteq> s + j" "t + i \<noteq> u + j" by (metis IntI empty_iff)+
  have "t + i < 1048576" "u + j < 1048576" using block(5) [OF b(1)] block(5) [OF c(1)] ij by linarith+
  then have "frame_address k0 (t + i) \<noteq> frame_address k0 (u + j)"
    using ne(2) page_address_inj unfolding frame_address_def by blast
  then show "page_of a + i \<noteq> page_of b + j"
    "kernel_mapping k (page_of a + i) \<noteq> kernel_mapping k (page_of b + j)"
    using ne(1) block(1,6) [OF b(1)] block(1,6) [OF c(1)] ij b(2) c(2) by auto
qed

lemma grants_reach_inv:
  assumes "memory_inv k0" and "frames_addressable k0" and "grants_reach k0 gs k"
  shows "memory_inv k"
  using grants_reach_described [OF assms(3,1,2)] describedD(1) by blast

section \<open>Properties\<close>

text \<open>
  C8: No sequence of calls of the three managers, whatever the arguments, follows a wild table pointer, and
  every manager is well formed afterwards: the bitmaps keep their size, every present directory entry
  points to a page table, every entry holds an aligned frame address.
\<close>

theorem manager_calls_are_safe:
  assumes "managers_wf k"
  shows "\<exists>k'. run_calls cs k = Some k' \<and> managers_wf k' \<and> k_MemoryUtil k' = k_MemoryUtil k"
  by (rule run_calls_safe [OF assms])

theorem manager_calls_are_safe_witness:
  "\<exists>k'. run_calls [AllocateKernelPages 100, FreeKernelPages 0x1234 7, UnmapPages 0xFFFFF000 5,
     FreeFrames 0xFFFFFFFF 0xFFFFFFFF, MapPages 0xC1000000 0x5000 False 9] memory_0 = Some k' \<and> managers_wf k'"
  using manager_calls_are_safe [OF memory_inv_managers_wf [OF memory_0_inv]] by blast

text \<open>
  C6: In every state that clients reach by asking for pages that fit and giving back what they hold, the
  invariant of the managers holds, every page of a grant maps to a frame that was free at the start, and no
  two grants share a page of address space or a frame.
\<close>

theorem grants_apart:
  assumes "memory_inv k0" and "frames_addressable k0" and "grants_reach k0 gs k"
  shows "memory_inv k \<and>
    (\<forall>a n. (a, n) \<in> gs \<longrightarrow> a \<noteq> 0 \<and> (\<exists>t. \<forall>i<unat n.
       kernel_mapping k (page_of a + i) = Some (frame_address k0 (t + i)) \<and>
       \<not> page_taken (g_KernelPMM k0) (t + i))) \<and>
    (\<forall>a n b m i j. (a, n) \<in> gs \<and> (b, m) \<in> gs \<and> (a, n) \<noteq> (b, m) \<and> i < unat n \<and> j < unat m \<longrightarrow>
       page_of a + i \<noteq> page_of b + j \<and>
       kernel_mapping k (page_of a + i) \<noteq> kernel_mapping k (page_of b + j))"
  using grants_reach_inv [OF assms] grant_frames [OF assms] grants_disjoint [OF assms] by blast

text \<open>Two grants from the state of the witnesses.\<close>

lemma memory_0_addressable: "frames_addressable memory_0"
  unfolding frames_addressable_def
proof (intro allI impI)
  fix t
  assume "t < pmm_size (g_KernelPMM memory_0)"
  then have "t < 16" by (simp add: memory_0_def pmm_16_def bitmap_16_def)
  then have "unat (0x100000 + of_nat t * 4096 :: u32) = 0x100000 + t * 4096"
    by (simp add: unat_add_no_wrap page_address_unat)
  then show "frame_address memory_0 t \<noteq> 0"
    by (auto simp: frame_address_def memory_0_def pmm_16_def)
qed

lemma memory_0_grants:
  obtains k2 where "grants_reach memory_0 {(0xC1004000, 2), (0xC1000000, 4)} k2"
proof (rule memory_1)
  fix k1
  assume k1: "VMA_AllocatePages 4 memory_0 = Some (0xC1000000, k1)"
    "g_KernelPMM k1 = snd (PMM_AllocatePages 4 pmm_16)" "memory_inv k1"
    "vma_Bitmap (g_KernelVMA k1) = Bitmap_SetBits 0 4 \<lparr>TSize = 32, m_Bits = replicate 32 0\<rparr>"
  have "fits 4 memory_0" using memory_0_run pmm_16_run by (simp add: fits_def memory_0_def)
  then have one: "grants_reach memory_0 {(0xC1000000, 4)} k1"
    using grants_reach.grant [OF grants_reach.start _ k1(1)] by simp
  have "first_run 32 (bitmap_bits (Bitmap_SetBits 0 4 \<lparr>TSize = 32, m_Bits = replicate 32 0\<rparr>)) 2 = Some 4"
    "TSize (Bitmap_SetBits 0 4 \<lparr>TSize = 32, m_Bits = replicate 32 0\<rparr>) = 32" by code_simp+
  moreover have "pmm_first_run (snd (PMM_AllocatePages 4 pmm_16)) 2 = Some 7" by code_simp
  ultimately have run: "first_run (vma_size (g_KernelVMA k1)) (vpage_taken (g_KernelVMA k1)) (unat (2 :: u32)) = Some 4"
      "pmm_first_run (g_KernelPMM k1) 2 = Some 7"
    using k1(2,4) by simp_all
  then have "fits 2 k1" by (simp add: fits_def)
  obtain B where B: "described memory_0 B k1"
    using grants_reach_described [OF one memory_0_inv memory_0_addressable] by blast
  obtain k2 where "VMA_AllocatePages 2 k1 = Some (page_address memory_0 4, k2)"
    by (rule described_grant [OF memory_0_addressable B _ run]) simp_all
  then have "VMA_AllocatePages 2 k1 = Some (0xC1004000, k2)"
    by (simp add: page_address_def memory_0_def vma_32_def)
  from grants_reach.grant [OF one \<open>fits 2 k1\<close> this] show ?thesis by (rule that)
qed

theorem grants_apart_witness:
  "\<exists>k. grants_reach memory_0 {(0xC1004000, 2), (0xC1000000, 4)} k \<and>
     kernel_mapping k 0xC1005 \<noteq> kernel_mapping k 0xC1003"
proof (rule memory_0_grants)
  fix k
  assume k: "grants_reach memory_0 {(0xC1004000, 2), (0xC1000000, 4)} k"
  have "kernel_mapping k (page_of 0xC1004000 + 1) \<noteq> kernel_mapping k (page_of 0xC1000000 + 3)"
    using grants_apart [OF memory_0_inv memory_0_addressable k, THEN conjunct2, THEN conjunct2,
        rule_format, of "0xC1004000" 2 "0xC1000000" 4 1 3] by simp
  with k show ?thesis by (auto simp: page_of_def)
qed

text \<open>
  C7: In every such state a request that fits is granted, every grant can be given back, and when the
  clients hold nothing, the mapping and both bitmaps are what they were at the start: no page of address
  space and no frame is ever lost.
\<close>

theorem grants_are_served_and_returned:
  assumes "memory_inv k0" and "frames_addressable k0" and "grants_reach k0 gs k"
  shows "(\<forall>n. fits n k \<longrightarrow> (\<exists>a k'. VMA_AllocatePages n k = Some (a, k') \<and> a \<noteq> 0 \<and> (a, n) \<notin> gs)) \<and>
    (\<forall>a n. (a, n) \<in> gs \<longrightarrow> (\<exists>k'. VMA_FreePages a n k = Some (True, k') \<and> memory_inv k')) \<and>
    (gs = {} \<longrightarrow> kernel_mapping k = kernel_mapping k0 \<and>
       vpage_taken (g_KernelVMA k) = vpage_taken (g_KernelVMA k0) \<and>
       page_taken (g_KernelPMM k) = page_taken (g_KernelPMM k0))"
proof (intro conjI allI impI)
  obtain B where B: "gs = block_grant k0 ` B" "described k0 B k"
    using grants_reach_described [OF assms(3,1,2)] by blast
  { fix n
    assume "fits n k"
    then obtain r t where r: "first_run (vma_size (g_KernelVMA k)) (vpage_taken (g_KernelVMA k)) (unat n) = Some r"
        and t: "pmm_first_run (g_KernelPMM k) n = Some t" and n: "0 < n"
      by (auto simp: fits_def)
    obtain k2 where k2: "VMA_AllocatePages n k = Some (page_address k0 r, k2)"
        "described k0 (insert (r, unat n, t) B) k2"
      by (rule described_grant [OF assms(2) B(2) n r t])
    have "(r, unat n, t) \<notin> B"
      using described_block(4) [OF assms(1) B(2)] describedD(6) [OF B(2), of r]
        rs.take_run(1) [OF vma_wfD(1) [OF memory_invD(4) [OF describedD(1) [OF B(2)]]] n r,
          rule_format, of r] n
      by (auto simp: word_less_nat_alt)
    then have "(page_address k0 r, n) \<notin> gs"
      using block_grant_inj [OF assms(1) k2(2)] B(1) by (auto simp: inj_on_def)
    then show "\<exists>a k'. VMA_AllocatePages n k = Some (a, k') \<and> a \<noteq> 0 \<and> (a, n) \<notin> gs"
      using k2(1) described_block(2) [OF assms(1) k2(2)] by blast }
  { fix a n
    assume "(a, n) \<in> gs"
    then obtain r l t where b: "(r, l, t) \<in> B" "a = page_address k0 r" "n = of_nat l" using B(1) by auto
    obtain k2 where "VMA_FreePages a n k = Some (True, k2)" "described k0 (B - {(r, l, t)}) k2"
      using described_release [OF assms(1,2) B(2) b(1)] b(2,3) by blast
    then show "\<exists>k'. VMA_FreePages a n k = Some (True, k') \<and> memory_inv k'" using describedD(1) by blast }
  assume "gs = {}"
  then have "described k0 {} k" using B by simp
  note d = describedD(5-7) [OF this]
  show "kernel_mapping k = kernel_mapping k0" using d(1) by (auto simp: blocks_mapping_def)
  show "vpage_taken (g_KernelVMA k) = vpage_taken (g_KernelVMA k0)"
    "page_taken (g_KernelPMM k) = page_taken (g_KernelPMM k0)" using d(2,3) by (simp_all add: fun_eq_iff)
qed

theorem grants_are_served_and_returned_witness:
  "\<exists>k k'. grants_reach memory_0 {(0xC1004000, 2), (0xC1000000, 4)} k \<and>
     VMA_FreePages 0xC1000000 4 k = Some (True, k')"
proof (rule memory_0_grants)
  fix k
  assume k: "grants_reach memory_0 {(0xC1004000, 2), (0xC1000000, 4)} k"
  show ?thesis
    using grants_are_served_and_returned [OF memory_0_inv memory_0_addressable k] k by blast
qed

end
