(* ===== verification/LittleMemory.thy ===== *)
theory LittleMemory
  imports KernelInit
begin

text \<open>
  The start-up on a PC of which the bitmap does not learn 100 MB of memory above 16 MB. Three faults of the code
  act together: the bitmap's \<^verbatim>\<open>SetAll\<close> sets one bit in eight, so what no region describes is mostly free;
  \<^verbatim>\<open>FindUnsetBits\<close> returns the short run at the end of the bitmap when no run is long enough; and
  \<^verbatim>\<open>AllocatePages\<close> hands that run out with nothing reserved. The start-up does not fail: it maps the heap to
  the last frames the bitmap describes and to those behind them.

  There are two ways to get there. Memory may be too small. Or it may be too large: a region that does not fit
  into the 131072 pages of the bitmap is refused as a whole, so that none of its pages becomes free. The PC that the
  target \<^verbatim>\<open>runqemu\<close> of \<^verbatim>\<open>CMakeLists.txt\<close> starts has 1024 MB and is of the second kind.
\<close>

text \<open>
  No available region that the bitmap accepts reaches page 29688, which is at \<^verbatim>\<open>0x73F8000\<close>, 32 KB below 116 MB;
  boot loader and kernel are below 16 MB. (Page 29688 is a multiple of 8. With it free, the pages up to 29695 are free
  as well, and the search may find a run of 25600 from page 4096 on.)
\<close>

definition little_memory :: "BootInfo \<Rightarrow> pmm \<Rightarrow> bool" where
  "little_memory bi p \<longleftrightarrow> memory_from_zero bi \<and>
     pages_of (BootloaderPhysicalStartAddress bi) (BootloaderSize bi div 4096 + 1) \<subseteq> {..<4096} \<and>
     pages_of (KernelPhysicalStartAddress bi) (KernelSize bi div 4096) \<subseteq> {..<4096} \<and>
     (\<forall>i < RegionCount (SystemMemoryMap bi). \<forall>k.
        region_frees (snd (PMM_Init bi p)) (Regions (SystemMemoryMap bi) i) k \<longrightarrow> k < 29688)"

lemma free_tail_eqI:
  assumes "s \<le> lim" and "\<And>k. s \<le> k \<Longrightarrow> k < lim \<Longrightarrow> \<not> f k" and "f (s - 1)" and "0 < s"
  shows "free_tail lim f = s"
proof (rule antisym)
  show "free_tail lim f \<le> s" by (rule free_tail_least) (use assms in auto)
  show "s \<le> free_tail lim f"
  proof (rule ccontr)
    assume "\<not> s \<le> free_tail lim f"
    with free_tail_clear [of lim f "s - 1"] assms show False by auto
  qed
qed

lemma InitPhysicalMemoryManager_keeps_taken:
  assumes "pmm_wf (snd (PMM_Init bi p))" and "page_taken (snd (PMM_Init bi p)) k"
  shows "page_taken (snd (InitPhysicalMemoryManager bi p)) k"
  using assms by (simp add: InitPhysicalMemoryManager_def Let_def split_beta PMM_ReservePage_def
      page_taken_ReservePages)

text \<open>What the physical manager then knows: every eighth page from page 29688 on, and nothing else there.\<close>

lemma little_memory_bitmap:
  assumes "little_memory bi p" and "bitmap_wf (pmm_Bitmap p)" and "TSize (pmm_Bitmap p) = 131072"
  obtains q where "InitPhysicalMemoryManager bi p = (True, q)" and "pmm_wf q" and "pmm_StartAddress q = 0"
    and "pmm_size q = 131072" and "\<And>k. k < 4096 \<Longrightarrow> page_taken q k"
    and "\<And>k. 29688 \<le> k \<Longrightarrow> k < 131072 \<Longrightarrow> page_taken q k \<longleftrightarrow> k mod 8 = 0"
proof -
  note little = assms(1) [unfolded little_memory_def]
  have sz: "pmm_size p \<le> 2 ^ 20" "4096 \<le> pmm_size p" "pmm_size p = 131072" using assms(3) by simp_all
  note I = PMM_Init_taken [OF assms(2) sz(1) refl, where bi = bi]
  obtain q where q: "InitPhysicalMemoryManager bi p = (True, q)" "pmm_wf q" "pmm_StartAddress q = 0"
      "pmm_size q = pmm_size p" "\<And>k. k < 4096 \<Longrightarrow> page_taken q k"
      "\<And>k. page_taken q k \<Longrightarrow> k < 4096 \<or> page_taken (snd (PMM_Init bi p)) k \<or>
        k \<in> pages_of (BootloaderPhysicalStartAddress bi) (BootloaderSize bi div 4096 + 1) \<or>
        k \<in> pages_of (KernelPhysicalStartAddress bi) (KernelSize bi div 4096)"
    using InitPhysicalMemoryManager_ok [OF _ assms(2) sz(1,2), of bi] little by blast
  have "page_taken q k \<longleftrightarrow> k mod 8 = 0" if k: "29688 \<le> k" "k < 131072" for k
  proof -
    have init: "page_taken (snd (PMM_Init bi p)) k \<longleftrightarrow> k mod 8 = 0"
      using I(4) k sz(3) little by (metis not_le)
    have "k \<notin> pages_of (BootloaderPhysicalStartAddress bi) (BootloaderSize bi div 4096 + 1)"
      "k \<notin> pages_of (KernelPhysicalStartAddress bi) (KernelSize bi div 4096)" "\<not> k < 4096"
      using little k(1) by auto
    then show ?thesis
      using q(6) [of k] init InitPhysicalMemoryManager_keeps_taken [OF I(1), of k] q(1) by auto
  qed
  then show ?thesis using q(1-5) sz(3) by (intro that [of q]) simp_all
qed

lemma eighths_leave_no_run:
  assumes "\<And>k. k < 4096 \<Longrightarrow> f k" and "\<And>k. 29688 \<le> k \<Longrightarrow> k < 131072 \<Longrightarrow> f k \<longleftrightarrow> k mod 8 = 0"
  shows "first_run 131072 f 25600 = None" and "free_tail 131072 f = 131065"
proof -
  have "\<not> run_free 131072 f s 25600" for s
  proof
    assume r: "run_free 131072 f s 25600"
    then have le: "s + 25600 \<le> 131072" and free: "\<And>k. s \<le> k \<Longrightarrow> k < s + 25600 \<Longrightarrow> \<not> f k"
      by (auto simp: run_free_def)
    define k where "k = (if s \<le> 29688 then 29688 else (s + 7) div 8 * 8)"
    have "s \<ge> 4096" using assms(1) [of s] free [of s] by (cases "s < 4096") auto
    moreover have "s \<le> (s + 7) div 8 * 8" "(s + 7) div 8 * 8 \<le> s + 7" by presburger+
    ultimately have k: "s \<le> k" "k < s + 25600" "29688 \<le> k" "k mod 8 = 0" by (auto simp: k_def)
    with free [of k] assms(2) [of k] le show False by auto
  qed
  then show "first_run 131072 f 25600 = None" by (simp add: first_run_None_iff)
  show "free_tail 131072 f = 131065"
  proof (rule free_tail_eqI)
    fix k :: nat
    assume k: "131065 \<le> k" "k < 131072"
    then have "k mod 8 \<noteq> 0" by presburger
    with assms(2) [of k] k show "\<not> f k" by auto
  next
    show "f (131065 - 1)" using assms(2) [of 131064] by simp
  qed simp_all
qed

text \<open>The memory managers stand in the state in which the allocation of the heap put them.\<close>

lemma Heap_Init_managers:
  assumes "Heap_Init n k = Some (True, k')"
  shows "\<exists>a. VMA_AllocatePages (AlignDown n (vma_PageSize (g_KernelVMA (k_managers k))) div
      vma_PageSize (g_KernelVMA (k_managers k))) (k_managers k) = Some (a, k_managers k')"
  using assms by (auto simp: Heap_Init_def VMA_GetPageSize_def Let_def split: if_splits option.splits prod.splits)

text \<open>A PC with 64 MB of memory.\<close>

definition boot_64 :: BootInfo where
  "boot_64 = boot_128\<lparr>SystemMemoryMap := \<lparr>MemoryAddressLow = 0x9FC00, MemoryAddressHigh = 0x3EE0000,
     RegionCount = 1, Regions = (\<lambda>_. \<lparr>BaseAddress = 0, Length = 0x4000000, Type = Available\<rparr>)\<rparr>\<rparr>"

lemma boot_64_layout: "boot_layout boot_64"
  using boot_128_layout by (simp add: boot_layout_def boot_64_def)

lemma boot_64_little: "little_memory boot_64 (g_KernelPMM (k_managers kernel_0))"
proof -
  let ?p = "pmm_16\<lparr>pmm_Bitmap := bitmap_131072\<rparr>"
  let ?q = "snd (PMM_Init boot_64 ?p)"
  have p: "bitmap_wf (pmm_Bitmap ?p)" "pmm_size ?p \<le> 2 ^ 20" "pmm_size ?p = 131072"
    using bitmap_131072_wf by simp_all
  have zero: "memory_from_zero boot_64" by (auto simp: memory_from_zero_def boot_64_def)
  note I = PMM_Init_taken(1,2) [OF p(1,2) refl, where bi = boot_64]
  have q: "pmm_StartAddress ?q = 0" "pmm_PageSize ?q = 4096" "pmm_size ?q = 131072"
    using PMM_Init_start [OF zero p(1,2)] pmm_wfD(2) [OF I(1)] I(2) p(3) by simp_all
  have "k < 29688" if "region_frees ?q (Regions (SystemMemoryMap boot_64) i) k" for i k
    using that q by (simp add: region_frees_def boot_64_def PMM_AddressToPageNumber_def)
  then show ?thesis
    using zero by (auto simp: little_memory_def kernel_0_def memory_0_def pages_of_def boot_64_def boot_128_def boot_2_def)
qed

text \<open>
  A PC with 1024 MB of memory, the first 640 KB and all memory from 1 MB on, but for what the firmware keeps at the
  end: 261856 pages from page 256 on.
\<close>

definition boot_1024 :: BootInfo where
  "boot_1024 = boot_128\<lparr>SystemMemoryMap := \<lparr>MemoryAddressLow = 0x9FC00, MemoryAddressHigh = 0x3FEE0000,
     RegionCount = 2, Regions = (\<lambda>i. if i = 0 then \<lparr>BaseAddress = 0, Length = 0x9FC00, Type = Available\<rparr>
       else \<lparr>BaseAddress = 0x100000, Length = 0x3FEE0000, Type = Available\<rparr>)\<rparr>\<rparr>"

lemma boot_1024_layout: "boot_layout boot_1024"
  using boot_128_layout by (simp add: boot_layout_def boot_1024_def)

lemma boot_1024_little: "little_memory boot_1024 (g_KernelPMM (k_managers kernel_0))"
proof -
  let ?p = "pmm_16\<lparr>pmm_Bitmap := bitmap_131072\<rparr>"
  let ?q = "snd (PMM_Init boot_1024 ?p)"
  have p: "bitmap_wf (pmm_Bitmap ?p)" "pmm_size ?p \<le> 2 ^ 20" "pmm_size ?p = 131072"
    using bitmap_131072_wf by simp_all
  have zero: "memory_from_zero boot_1024"
    unfolding memory_from_zero_def by (rule exI [of _ 0]) (simp add: boot_1024_def)
  note I = PMM_Init_taken(1,2) [OF p(1,2) refl, where bi = boot_1024]
  have q: "pmm_StartAddress ?q = 0" "pmm_PageSize ?q = 4096" "pmm_size ?q = 131072"
    using PMM_Init_start [OF zero p(1,2)] pmm_wfD(2) [OF I(1)] I(2) p(3) by simp_all
  have "k < 29688" if "region_frees ?q (Regions (SystemMemoryMap boot_1024) i) k" for i k
    using that q by (simp add: region_frees_def boot_1024_def PMM_AddressToPageNumber_def split: if_splits)
  then show ?thesis
    using zero
    by (auto simp: little_memory_def kernel_0_def memory_0_def pages_of_def boot_1024_def boot_128_def boot_2_def)
qed

section \<open>Properties\<close>

text \<open>
  C9: When no available region that the bitmap accepts reaches \<^verbatim>\<open>0x73F8000\<close>, because memory is too small or because
  the region is larger than the bitmap and is refused, \<^verbatim>\<open>InitMemoryManager\<close> succeeds all the same. The heap's
  25600 pages are mapped to the frames from \<^verbatim>\<open>0x1FFF9000\<close> on, which is the last 28 KB of the 512 MB the bitmap
  describes and the 100 MB behind them; and no frame is marked as taken for it, so the physical manager is as before
  the allocation. On a small PC there is no memory at these addresses; on one with 1024 MB there is, and the frames
  below 512 MB are still free for the next allocation.
\<close>

theorem little_memory_heap_without_frames:
  assumes "boot_layout bi" and "little_memory bi (g_KernelPMM (k_managers k))"
    and "kernel_objects (k_managers k)"
  shows "\<exists>k'. InitMemoryManager bi k = Some (True, k') \<and> memory_inv (k_managers k') \<and>
    m_StartAddress (g_KernelHeap k') = 0xC1000000 \<and> m_EndAddress (g_KernelHeap k') = 0xC7400000 \<and>
    (\<forall>i<25600. kernel_mapping (k_managers k') (page_of 0xC1000000 + i) = Some (0x1FFF9000 + of_nat i * 4096)) \<and>
    InitPhysicalMemoryManager bi (g_KernelPMM (k_managers k)) = (True, g_KernelPMM (k_managers k')) \<and>
    (\<forall>t. 131065 \<le> t \<and> t < 131072 \<longrightarrow> \<not> page_taken (g_KernelPMM (k_managers k')) t)"
proof -
  let ?mm = "k_managers k"
  obtain q where q: "InitPhysicalMemoryManager bi (g_KernelPMM ?mm) = (True, q)" "pmm_wf q"
    "pmm_StartAddress q = 0" "pmm_size q = 131072" "\<And>k. k < 4096 \<Longrightarrow> page_taken q k"
    "\<And>k. 29688 \<le> k \<Longrightarrow> k < 131072 \<Longrightarrow> page_taken q k \<longleftrightarrow> k mod 8 = 0"
    by (rule little_memory_bitmap [OF assms(2)]) (use assms(3) in \<open>simp_all add: kernel_objects_def\<close>)
  note none = eighths_leave_no_run [of "page_taken q", OF q(5,6)]
  have pm: "PMM_AllocatePages 25600 q = (0x1FFF9000, q)"
    using PMM_AllocatePages_no_run [OF q(2), of 25600] none q(3,4) by simp
  obtain mu s v where M: "MemoryUtil_Init bi (k_MemoryUtil ?mm) = (True, mu)"
    "InitVirtualMemoryManager bi mu (g_KernelVMM ?mm) = Some (True, s)"
    "InitVirtualMemoryAllocator bi (g_KernelVMA ?mm) = (True, v)"
    "memory_inv (?mm\<lparr>k_MemoryUtil := mu, g_KernelPMM := q, g_KernelVMM := s, g_KernelVMA := v\<rparr>)"
    "vma_StartAddress v = 0xC1000000" "first_run (vma_size v) (vpage_taken v) 25600 = Some 0"
    by (rule InitManagers_given [OF assms(1,3) q(1-3)])
  let ?m = "?mm\<lparr>k_MemoryUtil := mu, g_KernelPMM := q, g_KernelVMM := s, g_KernelVMA := v\<rparr>"
  obtain k' where k': "Heap_Init (100 * 1048576) (k\<lparr>k_managers := ?m\<rparr>) = Some (True, k')"
      "memory_inv (k_managers k')" "m_StartAddress (g_KernelHeap k') = 0xC1000000"
      "m_EndAddress (g_KernelHeap k') = 0xC7400000"
    by (rule kernel_heap_ok [of "k\<lparr>k_managers := ?m\<rparr>"]) (use M(4-6) pm in simp_all)
  have "vma_PageSize v = 4096" using vma_wfD(2) memory_invD(4) [OF M(4)] by simp
  then obtain a where a: "VMA_AllocatePages 25600 ?m = Some (a, k_managers k')"
    using Heap_Init_managers [OF k'(1)] by (auto simp: AlignDown_def)
  obtain m2 where "VMA_AllocatePages 25600 ?m = Some (vma_StartAddress (g_KernelVMA ?m) + of_nat 0 * 4096, m2)"
      "g_KernelPMM m2 = q"
      "kernel_mapping m2 = range_map (vma_base (g_KernelVMA ?m) + 0) (unat (25600 :: u32)) 0x1FFF9000 (kernel_mapping ?m)"
    by (rule VMA_AllocatePages_backed [OF M(4), of 25600 0 "0x1FFF9000" q]) (use M(6) pm in simp_all)
  with a M(5) have m2: "g_KernelPMM (k_managers k') = q"
      "kernel_mapping (k_managers k') = range_map (page_of 0xC1000000) 25600 0x1FFF9000 (kernel_mapping ?m)" by simp_all
  have "\<not> page_taken q t" if "131065 \<le> t" "t < 131072" for t
  proof -
    have "t mod 8 \<noteq> 0" using that by presburger
    with q(6) [of t] that show ?thesis by simp
  qed
  moreover have "InitMemoryManager bi k = Some (True, k')"
    using M(1-3) q(1) k'(1) by (simp add: InitMemoryManager_def InitKernelHeap_def InitKMalloc_def Let_def)
  ultimately show ?thesis using k'(2-4) m2 q(1) by (intro exI [of _ k']) (simp add: range_map_def)
qed

text \<open>The PC with 64 MB, which has no memory there, and the one with 1024 MB, whose memory the bitmap refuses.\<close>

theorem little_memory_heap_without_frames_witness:
  "(\<exists>k'. InitMemoryManager boot_64 kernel_0 = Some (True, k') \<and>
     kernel_mapping (k_managers k') (page_of 0xC1000000) = Some 0x1FFF9000) \<and>
   (\<exists>k'. InitMemoryManager boot_1024 kernel_0 = Some (True, k') \<and>
     kernel_mapping (k_managers k') (page_of 0xC1000000) = Some 0x1FFF9000)"
  using little_memory_heap_without_frames [OF boot_64_layout boot_64_little kernel_0_objects]
    little_memory_heap_without_frames [OF boot_1024_layout boot_1024_little kernel_0_objects]
  by (metis (no_types, lifting) add_0_right mult_zero_left of_nat_0 zero_less_numeral)

end
