(* ===== verification/EstdArray.thy ===== *)
theory EstdArray
  imports Prelude
begin

text \<open>
  \<^verbatim>\<open>Kernel/ESTD/Array.h\<close> and \<^verbatim>\<open>Kernel/ESTD/Errno.h\<close>, which no component uses yet. An array is the list of its
  elements, as many as the template's \<^verbatim>\<open>TSize\<close>; the subscript operators do not check the index, so a
  subscript out of range, which C++ leaves undefined, is \<open>None\<close>.
\<close>

section \<open>Array\<close>

record 'a estd_array =
  Array_TSize :: u32
  Array_m_Data :: "'a list"

definition array_wf :: "'a estd_array \<Rightarrow> bool" where
  "array_wf a \<longleftrightarrow> length (Array_m_Data a) = unat (Array_TSize a)"

definition Array_at :: "'a estd_array \<Rightarrow> u32 \<Rightarrow> 'a option" where
  "Array_at a index =
     (if unat index < length (Array_m_Data a) then Some (Array_m_Data a ! unat index) else None)"

text \<open>An assignment through the reference that the other subscript operator returns.\<close>

definition Array_put :: "'a estd_array \<Rightarrow> u32 \<Rightarrow> 'a \<Rightarrow> 'a estd_array option" where
  "Array_put a index v =
     (if unat index < length (Array_m_Data a)
      then Some (a\<lparr>Array_m_Data := (Array_m_Data a)[unat index := v]\<rparr>) else None)"

definition Array_Size :: "'a estd_array \<Rightarrow> u32" where
  "Array_Size a = Array_TSize a"

definition Array_Data :: "'a estd_array \<Rightarrow> 'a list" where
  "Array_Data a = Array_m_Data a"

lemma Array_at_in_range: "array_wf a \<Longrightarrow> Array_at a i \<noteq> None \<longleftrightarrow> i < Array_Size a"
  by (simp add: array_wf_def Array_at_def Array_Size_def word_less_nat_alt)

lemma Array_put_at:
  assumes "array_wf a" and "i < Array_Size a"
  obtains a' where "Array_put a i v = Some a'" and "array_wf a'" and "Array_Size a' = Array_Size a"
    and "\<forall>j. Array_at a' j = (if j = i then Some v else Array_at a j)"
proof -
  let ?a = "a\<lparr>Array_m_Data := (Array_m_Data a)[unat i := v]\<rparr>"
  have i: "unat i < length (Array_m_Data a)" using assms by (simp add: array_wf_def Array_Size_def word_less_nat_alt)
  then have "Array_put a i v = Some ?a" by (simp add: Array_put_def)
  moreover have "Array_at ?a j = (if j = i then Some v else Array_at a j)" for j
  proof -
    have "unat i \<noteq> unat j" if "j \<noteq> i" using that by (metis word_unat_eq_iff)
    with i show ?thesis by (auto simp: Array_at_def)
  qed
  ultimately show ?thesis using assms(1) by (intro that [of ?a]) (simp_all add: array_wf_def Array_Size_def)
qed

section \<open>Error numbers\<close>

definition errno_table :: "(string \<times> int) list" where
  "errno_table =
     [(''EPERM'', 1), (''ENOENT'', 2), (''ESRCH'', 3), (''EINTR'', 4), (''EIO'', 5), (''ENXIO'', 6),
      (''E2BIG'', 7), (''ENOEXEC'', 8), (''EBADF'', 9), (''ECHILD'', 10), (''EAGAIN'', 11), (''ENOMEM'', 12),
      (''EACCES'', 13), (''EFAULT'', 14), (''ENOTBLK'', 15), (''EBUSY'', 16), (''EEXIST'', 17), (''EXDEV'', 18),
      (''ENODEV'', 19), (''ENOTDIR'', 20), (''EISDIR'', 21), (''EINVAL'', 22), (''ENFILE'', 23),
      (''EMFILE'', 24), (''ENOTTY'', 25), (''ETXTBSY'', 26), (''EFBIG'', 27), (''ENOSPC'', 28),
      (''ESPIPE'', 29), (''EROFS'', 30), (''EMLINK'', 31), (''EPIPE'', 32), (''EDOM'', 33), (''ERANGE'', 34),
      (''EDEADLK'', 35), (''ENAMETOOLONG'', 36), (''ENOLCK'', 37), (''ENOSYS'', 38), (''ENOTEMPTY'', 39),
      (''ELOOP'', 40), (''EWOULDBLOCK'', 41), (''ENOMSG'', 42), (''EIDRM'', 43), (''ECHRNG'', 44),
      (''EL2NSYNC'', 45), (''EL3HLT'', 46), (''EL3RST'', 47), (''ELNRNG'', 48), (''EUNATCH'', 49),
      (''ENOCSI'', 50), (''EL2HLT'', 51), (''EBADE'', 52), (''EBADR'', 53), (''EXFULL'', 54), (''ENOANO'', 55),
      (''EBADRQC'', 56), (''EBADSLT'', 57), (''EDEADLOCK'', 58), (''EBFONT'', 59), (''ENOSTR'', 60),
      (''ENODATA'', 61), (''ETIME'', 62), (''ENOSR'', 63), (''ENONET'', 64), (''ENOPKG'', 65),
      (''EREMOTE'', 66), (''ENOLINK'', 67), (''EADV'', 68), (''ESRMNT'', 69), (''ECOMM'', 70), (''EPROTO'', 71),
      (''EMULTIHOP'', 72), (''EDOTDOT'', 73), (''EBADMSG'', 74), (''EOVERFLOW'', 75), (''ENOTUNIQ'', 76),
      (''EBADFD'', 77), (''EREMCHG'', 78), (''ELIBACC'', 79), (''ELIBBAD'', 80), (''ELIBSCN'', 81),
      (''ELIBMAX'', 82), (''ELIBEXEC'', 83), (''EILSEQ'', 84), (''ERESTART'', 85), (''ESTRPIPE'', 86),
      (''EUSERS'', 87), (''ENOTSOCK'', 88), (''EDESTADDRREQ'', 89), (''EMSGSIZE'', 90), (''EPROTOTYPE'', 91),
      (''ENOPROTOOPT'', 92), (''EPROTONOSUPPORT'', 93), (''ESOCKTNOSUPPORT'', 94), (''EOPNOTSUPP'', 95),
      (''EPFNOSUPPORT'', 96), (''EAFNOSUPPORT'', 97), (''EADDRINUSE'', 98), (''EADDRNOTAVAIL'', 99),
      (''ENETDOWN'', 100), (''ENETUNREACH'', 101), (''ENETRESET'', 102), (''ECONNABORTED'', 103),
      (''ECONNRESET'', 104), (''ENOBUFS'', 105), (''EISCONN'', 106), (''ENOTCONN'', 107), (''ESHUTDOWN'', 108),
      (''ETOOMANYREFS'', 109), (''ETIMEDOUT'', 110), (''ECONNREFUSED'', 111), (''EHOSTDOWN'', 112),
      (''EHOSTUNREACH'', 113), (''EALREADY'', 114), (''EINPROGRESS'', 115), (''ESTALE'', 116),
      (''EUCLEAN'', 117), (''ENOTNAM'', 118), (''ENAVAIL'', 119), (''EISNAM'', 120), (''EREMOTEIO'', 121)]"

text \<open>The numbers run from 1 to 121 without a gap, and no name occurs twice.\<close>

lemma errno_numbers: "map snd errno_table = map int [1..<122]"
  by (simp add: errno_table_def upt_rec)

lemma errno_names_distinct: "distinct (map fst errno_table)"
  by (simp add: errno_table_def)

end
