(* ===== verification/X86.thy ===== *)
theory X86
  imports ByteMemory
begin

text \<open>
  The part of the processor that the kernel's assembly routines use: registers, the stack in byte memory,
  and the instructions as functions on the state. The arithmetic flags are left out: a conditional jump is
  modelled with the condition it tests. Addresses are linear addresses. A routine of an assembly
  file is the composition of its instructions, in the order of the file; what happens between a call and its
  return is a parameter.
\<close>

section \<open>State and instructions\<close>

datatype reg = Eax | Ecx | Edx | Ebx | Esp | Ebp | Esi | Edi

record cpu =
  cpu_reg :: "reg \<Rightarrow> u32"
  cpu_DS :: u16
  cpu_ES :: u16
  cpu_FS :: u16
  cpu_GS :: u16
  cpu_CS :: u16
  cpu_EIP :: u32
  cpu_EFLAGS :: u32
  cpu_CR0 :: u32
  cpu_CR3 :: u32
  cpu_GDTR :: "u16 \<times> u32"
  cpu_IDTR :: "u16 \<times> u32"
  cpu_mem :: mem

definition set_reg :: "reg \<Rightarrow> u32 \<Rightarrow> cpu \<Rightarrow> cpu" where
  "set_reg r v s = s\<lparr>cpu_reg := (cpu_reg s)(r := v)\<rparr>"

definition push_word :: "u32 \<Rightarrow> cpu \<Rightarrow> cpu" where
  "push_word v s = (let a = cpu_reg s Esp - 4 in s\<lparr>cpu_reg := (cpu_reg s)(Esp := a), cpu_mem := store32 a v (cpu_mem s)\<rparr>)"

definition top_word :: "cpu \<Rightarrow> u32" where
  "top_word s = load32 (cpu_mem s) (cpu_reg s Esp)"

definition drop_words :: "u32 \<Rightarrow> cpu \<Rightarrow> cpu" where
  "drop_words n s = set_reg Esp (cpu_reg s Esp + 4 * n) s"

definition push_reg :: "reg \<Rightarrow> cpu \<Rightarrow> cpu" where
  "push_reg r s = push_word (cpu_reg s r) s"

text \<open>\<^verbatim>\<open>pop\<close> of a register other than the stack pointer.\<close>

definition pop_reg :: "reg \<Rightarrow> cpu \<Rightarrow> cpu" where
  "pop_reg r s = drop_words 1 (set_reg r (top_word s) s)"

definition pushad :: "cpu \<Rightarrow> cpu" where
  "pushad s = fold push_word
     [cpu_reg s Eax, cpu_reg s Ecx, cpu_reg s Edx, cpu_reg s Ebx, cpu_reg s Esp, cpu_reg s Ebp, cpu_reg s Esi,
      cpu_reg s Edi] s"

text \<open>\<^verbatim>\<open>popad\<close> skips the word of the stack pointer.\<close>

definition popad :: "cpu \<Rightarrow> cpu" where
  "popad s = (pop_reg Eax \<circ> pop_reg Ecx \<circ> pop_reg Edx \<circ> pop_reg Ebx \<circ> drop_words 1 \<circ> pop_reg Ebp \<circ> pop_reg Esi \<circ>
     pop_reg Edi) s"

text \<open>Loads of the low half of \<^verbatim>\<open>eax\<close>, and of the data segment registers from it.\<close>

definition mov_ax :: "u16 \<Rightarrow> cpu \<Rightarrow> cpu" where
  "mov_ax v s = set_reg Eax ((cpu_reg s Eax AND 0xFFFF0000) OR ucast v) s"

definition load_segments_ax :: "cpu \<Rightarrow> cpu" where
  "load_segments_ax s = (let v = ucast (cpu_reg s Eax) in
     s\<lparr>cpu_DS := v, cpu_ES := v, cpu_FS := v, cpu_GS := v\<rparr>)"

definition ret :: "cpu \<Rightarrow> cpu" where
  "ret s = drop_words 1 (s\<lparr>cpu_EIP := top_word s\<rparr>)"

text \<open>\<^verbatim>\<open>iret\<close> to code of the same privilege: it takes three words.\<close>

definition iret :: "cpu \<Rightarrow> cpu" where
  "iret s = (let s1 = drop_words 1 (s\<lparr>cpu_EIP := top_word s\<rparr>);
                 s2 = drop_words 1 (s1\<lparr>cpu_CS := ucast (top_word s1)\<rparr>)
             in drop_words 1 (s2\<lparr>cpu_EFLAGS := top_word s2\<rparr>))"

text \<open>\<^verbatim>\<open>lgdt\<close> and \<^verbatim>\<open>lidt\<close> read six bytes, the limit and the base.\<close>

definition table_register :: "mem \<Rightarrow> u32 \<Rightarrow> u16 \<times> u32" where
  "table_register m a = (load16 m a, load32 m (a + 2))"

section \<open>The stack as a list of words\<close>

definition stack_words :: "nat \<Rightarrow> cpu \<Rightarrow> u32 list" where
  "stack_words n s = map (\<lambda>i. load32 (cpu_mem s) (cpu_reg s Esp + 4 * of_nat i)) [0..<n]"

lemma stack_words_length [simp]: "length (stack_words n s) = n"
  by (simp add: stack_words_def)

lemma stack_words_nth: "i < n \<Longrightarrow> stack_words n s ! i = load32 (cpu_mem s) (cpu_reg s Esp + 4 * of_nat i)"
  by (simp add: stack_words_def)

lemma load32_above_store32:
  assumes "4 * i + 8 \<le> 4294967296"
  shows "load32 (store32 a v m) (a + 4 + 4 * of_nat i) = load32 m (a + 4 + 4 * of_nat i)"
proof -
  have "store32 a v m (a + of_nat n) = m (a + of_nat n)" if "4 \<le> n" "n < 4294967296" for n
  proof -
    have "(of_nat n :: u32) \<noteq> of_nat j" if "j < 4" for j using of_nat_inj32 [of n j] \<open>4 \<le> n\<close> \<open>n < _\<close> that by auto
    from this [of 0] this [of 1] this [of 2] this [of 3] show ?thesis by (simp add: store32_def)
  qed
  note this [of "4 + 4 * i"] this [of "4 + 4 * i + 1"] this [of "4 + 4 * i + 2"] this [of "4 + 4 * i + 3"]
  with assms show ?thesis by (simp add: load32_def add.assoc)
qed

lemma stack_words_push:
  assumes "4 * n + 4 \<le> 4294967296"
  shows "stack_words (Suc n) (push_word v s) = v # stack_words n s"
proof (rule nth_equalityI)
  fix i assume "i < length (stack_words (Suc n) (push_word v s))"
  then have i: "i < Suc n" by simp
  show "stack_words (Suc n) (push_word v s) ! i = (v # stack_words n s) ! i"
  proof (cases i)
    case 0
    then show ?thesis by (simp add: stack_words_nth push_word_def Let_def)
  next
    case (Suc j)
    then have "4 * j + 8 \<le> 4294967296" "j < n" using assms i by auto
    then show ?thesis
      using load32_above_store32 [of j "cpu_reg s Esp - 4" v "cpu_mem s"] i Suc
      by (simp add: stack_words_nth push_word_def Let_def algebra_simps)
  qed
qed simp

lemma stack_words_top: "stack_words (Suc n) s = top_word s # stack_words n (drop_words 1 s)"
proof (rule nth_equalityI)
  fix i assume "i < length (stack_words (Suc n) s)"
  then show "stack_words (Suc n) s ! i = (top_word s # stack_words n (drop_words 1 s)) ! i"
    by (cases i) (simp_all add: stack_words_nth top_word_def drop_words_def set_reg_def algebra_simps)
qed simp

lemma stack_words_pop: "stack_words n (pop_reg r s) = stack_words n (drop_words 1 s)" if "r \<noteq> Esp"
  using that by (simp add: stack_words_def pop_reg_def drop_words_def set_reg_def)

end
