(* ===== verification/BootCode.thy ===== *)
theory BootCode
  imports X86 KernelInit
begin

text \<open>
  \<^verbatim>\<open>Arch/x86/Boot.asm\<close> and the addresses that \<^verbatim>\<open>linker.ld\<close> gives its sections: the code the bootloader jumps
  to. It fills the boot page tables, switches paging on and calls \<^verbatim>\<open>KMain\<close> at its virtual address. Until
  paging is on, addresses are physical; afterwards every access goes through the page tables in memory.
\<close>

section \<open>Translation\<close>

text \<open>The processor's two-level walk, over 32-bit entries in memory, of which bit 0 is the present bit.\<close>

definition walk :: "mem \<Rightarrow> u32 \<Rightarrow> u32 \<Rightarrow> u32 option" where
  "walk m cr3 va =
     (let pd = load32 m ((cr3 AND NOT 0xFFF) + 4 * (va div 0x400000))
      in if \<not> bit pd 0 then None
         else let pt = load32 m ((pd AND NOT 0xFFF) + 4 * (va div 0x1000 mod 0x400))
              in if \<not> bit pt 0 then None else Some ((pt AND NOT 0xFFF) + va mod 0x1000))"

definition linear_load8 :: "u32 \<Rightarrow> cpu \<Rightarrow> u8 option" where
  "linear_load8 va s = map_option (cpu_mem s) (walk (cpu_mem s) (cpu_CR3 s) va)"

definition linear_store8 :: "u32 \<Rightarrow> u8 \<Rightarrow> cpu \<Rightarrow> cpu option" where
  "linear_store8 va v s =
     map_option (\<lambda>pa. s\<lparr>cpu_mem := (cpu_mem s)(pa := v)\<rparr>) (walk (cpu_mem s) (cpu_CR3 s) va)"

definition linear_load32 :: "u32 \<Rightarrow> cpu \<Rightarrow> u32 option" where
  "linear_load32 va s = do {
     b0 \<leftarrow> linear_load8 va s;
     b1 \<leftarrow> linear_load8 (va + 1) s;
     b2 \<leftarrow> linear_load8 (va + 2) s;
     b3 \<leftarrow> linear_load8 (va + 3) s;
     Some (ucast b0 OR push_bit 8 (ucast b1) OR push_bit 16 (ucast b2) OR push_bit 24 (ucast b3))
   }"

definition linear_store32 :: "u32 \<Rightarrow> u32 \<Rightarrow> cpu \<Rightarrow> cpu option" where
  "linear_store32 va v s = do {
     s0 \<leftarrow> linear_store8 va (ucast v) s;
     s1 \<leftarrow> linear_store8 (va + 1) (ucast (drop_bit 8 v)) s0;
     s2 \<leftarrow> linear_store8 (va + 2) (ucast (drop_bit 16 v)) s1;
     linear_store8 (va + 3) (ucast (drop_bit 24 v)) s2
   }"

definition linear_push :: "u32 \<Rightarrow> cpu \<Rightarrow> cpu option" where
  "linear_push v s = (let a = cpu_reg s Esp - 4 in linear_store32 a v (set_reg Esp a s))"

section \<open>The code\<close>

record boot_symbols =
  boot_page_directory :: u32
  boot_page_table0 :: u32
  boot_page_table768 :: u32
  boot_stack_top :: u32
  kernel_stack_top :: u32
  kernelstart_higherhalf :: u32

definition KERNEL_PHYSICAL_LOAD_ADDRESS :: u32 where
  "KERNEL_PHYSICAL_LOAD_ADDRESS = 0x200000"

definition KERNEL_VIRTUAL_LOAD_ADDRESS :: u32 where
  "KERNEL_VIRTUAL_LOAD_ADDRESS = 0xC0000000"

text \<open>One turn of \<^verbatim>\<open>_identity_map\<close> and \<^verbatim>\<open>_map_pages\<close>, which differ in the table, and the loop; \<^verbatim>\<open>jl\<close> is signed.\<close>

definition map_page :: "u32 \<Rightarrow> cpu \<Rightarrow> cpu" where
  "map_page table s =
     (let s1 = set_reg Eax (cpu_reg s Edx) s;
          s2 = set_reg Eax (cpu_reg s1 Eax OR 0x003) s1;
          s3 = s2\<lparr>cpu_mem := store32 (table + cpu_reg s2 Ecx * 4) (cpu_reg s2 Eax) (cpu_mem s2)\<rparr>;
          s4 = set_reg Ebx (cpu_reg s3 Ebx + 0x1000) s3;
          s5 = set_reg Edx (cpu_reg s4 Edx + 0x1000) s4
      in set_reg Ecx (cpu_reg s5 Ecx + 1) s5)"

partial_function (option) map_pages :: "u32 \<Rightarrow> cpu \<Rightarrow> cpu option" where
  "map_pages table s =
     (let s1 = map_page table s in if sint (cpu_reg s1 Ecx) < 1024 then map_pages table s1 else Some s1)"

text \<open>\<^verbatim>\<open>_kernelstart\<close>, up to the jump to the higher half.\<close>

definition kernelstart :: "boot_symbols \<Rightarrow> cpu \<Rightarrow> cpu option" where
  "kernelstart sy s = do {
     s1 \<leftarrow> Some (s\<lparr>cpu_EFLAGS := cpu_EFLAGS s AND NOT 0x200\<rparr>);
     s2 \<leftarrow> Some (set_reg Esp (boot_stack_top sy) (set_reg Ebp (boot_stack_top sy) s1));
     s3 \<leftarrow> Some (push_reg Ebx (push_reg Eax s2));
     s4 \<leftarrow> map_pages (boot_page_table0 sy) (set_reg Edx 0 (set_reg Ebx 0 (set_reg Ecx 0 s3)));
     s5 \<leftarrow> map_pages (boot_page_table768 sy) (set_reg Edx KERNEL_PHYSICAL_LOAD_ADDRESS
            (set_reg Ebx KERNEL_VIRTUAL_LOAD_ADDRESS (set_reg Ecx 0 s4)));
     s6 \<leftarrow> Some (set_reg Eax (boot_page_table0 sy OR 0x003) s5);
     s7 \<leftarrow> Some (s6\<lparr>cpu_mem := store32 (boot_page_directory sy) (cpu_reg s6 Eax) (cpu_mem s6)\<rparr>);
     s8 \<leftarrow> Some (set_reg Eax (boot_page_table768 sy OR 0x003) s7);
     s9 \<leftarrow> Some (s8\<lparr>cpu_mem := store32 (boot_page_directory sy + 768 * 4) (cpu_reg s8 Eax) (cpu_mem s8)\<rparr>);
     s10 \<leftarrow> Some (s9\<lparr>cpu_CR3 := boot_page_directory sy\<rparr>);
     s11 \<leftarrow> Some (set_reg Eax (cpu_CR0 s10 OR 0x80000000) s10);
     s12 \<leftarrow> Some (s11\<lparr>cpu_CR0 := cpu_reg s11 Eax\<rparr>);
     s13 \<leftarrow> Some (set_reg Ebx (kernelstart_higherhalf sy) s12);
     Some (s13\<lparr>cpu_EIP := cpu_reg s13 Ebx\<rparr>)
   }"

text \<open>\<^verbatim>\<open>_kernelstart_higherhalf\<close>, up to the call of \<^verbatim>\<open>KMain\<close>, whose arguments are the two words on the stack.\<close>

definition higherhalf :: "boot_symbols \<Rightarrow> cpu \<Rightarrow> cpu option" where
  "higherhalf sy s = do {
     s1 \<leftarrow> Some (set_reg Esp (kernel_stack_top sy) (set_reg Ebp (kernel_stack_top sy) s));
     magic \<leftarrow> linear_load32 (boot_stack_top sy - 4) s1;
     s2 \<leftarrow> Some (set_reg Ebx magic s1);
     info \<leftarrow> linear_load32 (boot_stack_top sy - 8) s2;
     s3 \<leftarrow> Some (set_reg Edx info s2);
     s4 \<leftarrow> linear_push (cpu_reg s3 Edx) s3;
     linear_push (cpu_reg s4 Ebx) s4
   }"

definition KMain_arguments :: "cpu \<Rightarrow> (u32 \<times> u32) option" where
  "KMain_arguments s = do {
     multibootMagic \<leftarrow> linear_load32 (cpu_reg s Esp) s;
     multibootInfo \<leftarrow> linear_load32 (cpu_reg s Esp + 4) s;
     Some (multibootMagic, multibootInfo)
   }"

section \<open>The tables\<close>

lemma map_page_eq:
  "map_page table s = s\<lparr>cpu_reg := (cpu_reg s)(Eax := cpu_reg s Edx OR 3, Ebx := cpu_reg s Ebx + 0x1000,
     Edx := cpu_reg s Edx + 0x1000, Ecx := cpu_reg s Ecx + 1),
     cpu_mem := store32 (table + cpu_reg s Ecx * 4) (cpu_reg s Edx OR 3) (cpu_mem s)\<rparr>"
  by (simp add: map_page_def set_reg_def Let_def fun_eq_iff)

lemma sint_count: "n \<le> 1024 \<Longrightarrow> sint (of_nat n :: u32) = int n"
proof -
  assume n: "n \<le> 1024"
  then have "signed_take_bit 31 (int n) = int n" by (intro signed_take_bit_int_eq_self) simp_all
  with n show ?thesis by (simp add: sint_uint uint_nat unat_of_nat32)
qed

text \<open>The loop fills a table from its \<open>k\<close>-th entry on.\<close>

lemma map_pages_from:
  assumes "k < 1024" and "cpu_reg s Ecx = of_nat k" and "cpu_reg s Edx = p + of_nat k * 0x1000"
    and top: "unat table + 4096 \<le> 4294967296"
  shows "\<exists>regs m. map_pages table s = Some (s\<lparr>cpu_reg := regs, cpu_mem := m\<rparr>) \<and> regs Esp = cpu_reg s Esp \<and>
    (\<forall>i. k \<le> i \<and> i < 1024 \<longrightarrow> load32 m (table + 4 * of_nat i) = (p + of_nat i * 0x1000) OR 3) \<and>
    same_bytes ({..<4294967296} - {unat table + 4 * k..<unat table + 4096}) (cpu_mem s) m"
  using assms(1-3)
proof (induction "1023 - k" arbitrary: k s rule: less_induct)
  case less
  let ?e = "(p + of_nat k * 0x1000) OR 3" and ?s = "map_page table s"
  have at: "table + of_nat k * 4 = of_nat (unat table + 4 * k)" by (simp add: mult.commute)
  have ecx: "cpu_reg ?s Ecx = of_nat (Suc k)" "cpu_reg ?s Edx = p + of_nat (Suc k) * 0x1000"
    "cpu_reg ?s Esp = cpu_reg s Esp"
    using less.prems by (simp_all add: map_page_eq algebra_simps)
  have mem: "cpu_mem ?s = store32 (table + of_nat k * 4) ?e (cpu_mem s)"
    using less.prems by (simp add: map_page_eq)
  have frame: "same_bytes ({..<4294967296} - {unat table + 4 * k..<unat table + 4096}) (cpu_mem s) (cpu_mem ?s)"
    unfolding mem at by (rule same_bytes_store32) (use top less.prems(1) in auto)
  have upd: "?s\<lparr>cpu_reg := regs, cpu_mem := m\<rparr> = s\<lparr>cpu_reg := regs, cpu_mem := m\<rparr>" for regs m
    by (simp add: map_page_eq)
  have test: "sint (cpu_reg ?s Ecx) < 1024 \<longleftrightarrow> Suc k < 1024"
    unfolding ecx(1) using sint_count [of "Suc k"] less.prems(1) by simp
  show ?case
  proof (cases "Suc k < 1024")
    case True
    have shorter: "1023 - Suc k < 1023 - k" using True by simp
    obtain regs m where R: "map_pages table ?s = Some (?s\<lparr>cpu_reg := regs, cpu_mem := m\<rparr>)"
      "regs Esp = cpu_reg ?s Esp"
      "\<forall>i. Suc k \<le> i \<and> i < 1024 \<longrightarrow> load32 m (table + 4 * of_nat i) = (p + of_nat i * 0x1000) OR 3"
      "same_bytes ({..<4294967296} - {unat table + 4 * Suc k..<unat table + 4096}) (cpu_mem ?s) m"
      using less.hyps [OF shorter True ecx(1,2)] by blast
    have "same_bytes {unat table + 4 * k..<unat table + 4 * k + 4} (cpu_mem ?s) m"
      using top less.prems(1) by (intro same_bytes_mono [OF R(4)]) auto
    from load32_same [OF this] have "load32 m (table + 4 * of_nat k) = ?e" by (simp add: mem mult.commute)
    then have "load32 m (table + 4 * of_nat i) = (p + of_nat i * 0x1000) OR 3" if "k \<le> i" "i < 1024" for i
      using R(3) that by (cases "i = k") auto
    moreover have "same_bytes ({..<4294967296} - {unat table + 4 * k..<unat table + 4096}) (cpu_mem s) m"
      by (rule same_bytes_trans [OF frame]) (auto intro: same_bytes_mono [OF R(4)])
    moreover have "map_pages table s = Some (s\<lparr>cpu_reg := regs, cpu_mem := m\<rparr>)"
      using R(1) test True upd by (subst map_pages.simps) (simp add: Let_def)
    ultimately show ?thesis using R(2) ecx(3) by auto
  next
    case False
    then have k: "k = 1023" using less.prems(1) by simp
    have "map_pages table s = Some ?s" using test False by (subst map_pages.simps) (simp add: Let_def)
    moreover have "?s = s\<lparr>cpu_reg := cpu_reg ?s, cpu_mem := cpu_mem ?s\<rparr>" by (simp add: map_page_eq)
    moreover have "load32 (cpu_mem ?s) (table + 4 * of_nat i) = (p + of_nat i * 0x1000) OR 3" if "k \<le> i" "i < 1024" for i
    proof -
      have "i = k" using that k by simp
      then show ?thesis by (simp add: mem mult.commute)
    qed
    ultimately show ?thesis using frame ecx(3) by metis
  qed
qed

section \<open>The tables in memory\<close>

definition boot_tables :: "boot_symbols \<Rightarrow> mem \<Rightarrow> bool" where
  "boot_tables sy m \<longleftrightarrow>
     (\<forall>i<1024. load32 m (boot_page_directory sy + 4 * of_nat i) =
        (if i = 0 then boot_page_table0 sy OR 3 else if i = 768 then boot_page_table768 sy OR 3 else 0)) \<and>
     (\<forall>i<1024. load32 m (boot_page_table0 sy + 4 * of_nat i) = of_nat i * 0x1000 OR 3) \<and>
     (\<forall>i<1024. load32 m (boot_page_table768 sy + 4 * of_nat i) = (0x200000 + of_nat i * 0x1000) OR 3)"

text \<open>The layout of the linker script: the three pages in a row, then the boot stack, all below 2 MB.\<close>

definition boot_place :: "boot_symbols \<Rightarrow> bool" where
  "boot_place sy \<longleftrightarrow> page_aligned (boot_page_directory sy) \<and>
     boot_page_table0 sy = boot_page_directory sy + 4096 \<and> boot_page_table768 sy = boot_page_directory sy + 8192 \<and>
     unat (boot_page_directory sy) + 12288 + 16384 \<le> unat (boot_stack_top sy) \<and> unat (boot_stack_top sy) \<le> 0x200000"

definition table_bytes :: "boot_symbols \<Rightarrow> nat set" where
  "table_bytes sy = {unat (boot_page_directory sy)..<unat (boot_page_directory sy) + 12288}"

lemma entry_same:
  assumes "same_bytes A m m'" and "{unat t + 4 * i..<unat t + 4 * i + 4} \<subseteq> A"
  shows "load32 m' (t + 4 * of_nat i) = load32 m (t + 4 * of_nat i)"
  using load32_same [OF same_bytes_mono [OF assms]] by simp

lemma entry_outside:
  assumes "same_bytes ({..<4294967296} - {a..<b}) m m'" and "unat t + 4 * i + 4 \<le> a \<or> b \<le> unat t + 4 * i"
    and "unat t + 4 * i + 4 \<le> 4294967296"
  shows "load32 m' (t + 4 * of_nat i) = load32 m (t + 4 * of_nat i)"
  by (rule entry_same [OF assms(1)]) (use assms(2,3) in auto)

lemma boot_place_tables:
  assumes "boot_place sy"
  shows "unat (boot_page_table0 sy) = unat (boot_page_directory sy) + 4096"
    and "unat (boot_page_table768 sy) = unat (boot_page_directory sy) + 8192"
    and "unat (boot_page_directory sy) < 0x200000 - 28672 + 1"
    and "page_aligned (boot_page_table0 sy)" and "page_aligned (boot_page_table768 sy)"
proof -
  show le: "unat (boot_page_directory sy) < 0x200000 - 28672 + 1" using assms by (simp add: boot_place_def)
  show t: "unat (boot_page_table0 sy) = unat (boot_page_directory sy) + 4096"
    "unat (boot_page_table768 sy) = unat (boot_page_directory sy) + 8192"
    using assms le by (simp_all add: boot_place_def unat_add_no_wrap)
  have m: "(n + 8192) mod 4096 = n mod 4096" for n :: nat using mod_mult_self1 [of n 2 4096] by simp
  show "page_aligned (boot_page_table0 sy)" "page_aligned (boot_page_table768 sy)"
    using assms t m by (simp_all add: boot_place_def page_aligned_def)
qed

lemma boot_tables_same:
  assumes "boot_tables sy m" and "boot_place sy" and "same_bytes (table_bytes sy) m m'"
  shows "boot_tables sy m'"
  using assms(1) entry_same [OF assms(3)] boot_place_tables [OF assms(2)]
  by (simp add: boot_tables_def table_bytes_def subset_iff)

lemma aligned_address: "page_aligned a \<Longrightarrow> a AND NOT 0xFFF = a"
  using aligned_low_bits [of a] unfolding page_aligned_def
  by (intro bit_word_eqI) (simp only: entry_address_bits, blast)

text \<open>An aligned address with the two flags as an entry.\<close>

lemma flagged_entry:
  assumes "page_aligned a"
  shows "(a OR 3) AND NOT 0xFFF = a" and "bit (a OR 3) 0"
proof -
  have "a OR 3 = (a OR 1) OR 2" by (simp add: or.assoc)
  with aligned_address [OF assms] show "(a OR 3) AND NOT 0xFFF = a" using flag_address [of a] flag_address [of "a OR 1"] by metis
  show "bit (a OR 3) 0" by (simp add: bit_simps)
qed

text \<open>The walk of the boot tables: the first 4 MB are where they are, the 4 MB from 0xC0000000 on are at 2 MB.\<close>

definition boot_translation :: "u32 \<Rightarrow> u32 option" where
  "boot_translation va =
     (if va < 0x400000 then Some va
      else if 0xC0000000 \<le> va \<and> va < 0xC0400000 then Some (va - 0xC0000000 + 0x200000) else None)"

text \<open>The same page by page.\<close>

lemma page_and_offset: "of_nat (page_of va) * 4096 + va mod 0x1000 = va"
proof -
  have "of_nat (page_of va * 4096 + unat va mod 4096) = va" by (simp add: page_of_def)
  moreover have "va mod 0x1000 = of_nat (unat va mod 4096)"
    by (simp add: word_unat_eq_iff unat_mod_distrib unat_of_nat32)
  ultimately show ?thesis by (simp only: of_nat_add of_nat_mult of_nat_numeral)
qed

lemma boot_translation_pages:
  "map_option (\<lambda>frame. frame + va mod 0x1000) (range_map 786432 1024 0x200000 (range_map 0 1024 0 Map.empty) (page_of va)) =
    boot_translation va"
proof -
  consider "page_of va < 1024" | "786432 \<le> page_of va" "page_of va < 787456"
    | "1024 \<le> page_of va" "\<not> (786432 \<le> page_of va \<and> page_of va < 787456)" by linarith
  then show ?thesis
  proof cases
    case 1
    then have "va < 0x400000" by (simp add: page_of_def word_less_nat_alt)
    with 1 show ?thesis using page_and_offset [of va] by (simp add: range_map_def boot_translation_def)
  next
    case 2
    then have "0xC0000000 \<le> unat va" "unat va < 0xC0400000" unfolding page_of_def by linarith+
    then have "boot_translation va = Some (va - 0xC0000000 + 0x200000)"
      by (simp add: boot_translation_def word_less_nat_alt word_le_nat_alt)
    moreover have "0x200000 + of_nat (page_of va - 786432) * 4096 + va mod 0x1000 = va - 0xC0000000 + 0x200000"
      using 2(1) page_and_offset [of va] by (simp add: of_nat_diff algebra_simps)
    ultimately show ?thesis using 2 by (simp add: range_map_def)
  next
    case 3
    then have "\<not> unat va < 0x400000" "\<not> (0xC0000000 \<le> unat va \<and> unat va < 0xC0400000)"
      unfolding page_of_def by linarith+
    then have "boot_translation va = None" by (auto simp: boot_translation_def word_less_nat_alt word_le_nat_alt)
    with 3 show ?thesis by (auto simp: range_map_def)
  qed
qed

text \<open>The walk in terms of the page, and through a present directory entry to a present table entry.\<close>

lemma walk_indices:
  "va div 0x400000 = of_nat (page_of va div 1024)" "va div 0x1000 mod 0x400 = of_nat (page_of va mod 1024)"
proof -
  have "unat va div 4096 div 1024 < 4294967296" "unat va div 4096 mod 1024 < 4294967296"
    using mod_less_divisor [of 1024 "unat va div 4096"] unat_lt_2p32 [of va] by (simp_all del: unat_lt_2p32)
  then show "va div 0x400000 = of_nat (page_of va div 1024)" "va div 0x1000 mod 0x400 = of_nat (page_of va mod 1024)"
    by (simp_all add: page_of_def word_unat_eq_iff unat_div_distrib unat_mod_distrib unat_of_nat32 div_mult2_eq)
qed

lemma walk_present:
  assumes "page_aligned pd" and "load32 m (pd + 4 * of_nat (page_of va div 1024)) = t OR 3" and "page_aligned t"
    and "load32 m (t + 4 * of_nat (page_of va mod 1024)) = (p + of_nat (page_of va mod 1024) * 0x1000) OR 3"
    and "page_aligned p"
  shows "walk m pd va = Some (p + of_nat (page_of va mod 1024) * 0x1000 + va mod 0x1000)"
  using assms(2,4) flagged_entry [OF assms(3)] flagged_entry [OF aligned_page_address [OF assms(5), of "page_of va mod 1024"]]
  unfolding walk_def walk_indices aligned_address [OF assms(1)] by (simp add: Let_def)

lemma walk_absent:
  "page_aligned pd \<Longrightarrow> load32 m (pd + 4 * of_nat (page_of va div 1024)) = 0 \<Longrightarrow> walk m pd va = None"
  unfolding walk_def walk_indices by (simp only: aligned_address) (simp add: Let_def)

lemma walk_boot_tables:
  assumes "boot_tables sy m" and "boot_place sy"
  shows "walk m (boot_page_directory sy) va = boot_translation va"
proof -
  let ?d = "page_of va div 1024" and ?p = "page_of va mod 1024"
  note aligned = boot_place_tables(4,5) [OF assms(2)]
  have pd: "page_aligned (boot_page_directory sy)" using assms(2) by (simp add: boot_place_def)
  have "?d < 1024" "?p < 1024" using unat_lt_2p32 [of va] by (simp_all add: page_of_def del: unat_lt_2p32)
  then have dir: "load32 m (boot_page_directory sy + 4 * of_nat ?d) =
     (if ?d = 0 then boot_page_table0 sy OR 3 else if ?d = 768 then boot_page_table768 sy OR 3 else 0)"
    and t0: "load32 m (boot_page_table0 sy + 4 * of_nat ?p) = (0 + of_nat ?p * 0x1000) OR 3"
    and t768: "load32 m (boot_page_table768 sy + 4 * of_nat ?p) = (0x200000 + of_nat ?p * 0x1000) OR 3"
    using assms(1) unfolding boot_tables_def by auto
  consider "?d = 0" | "?d = 768" | "?d \<noteq> 0" "?d \<noteq> 768" by blast
  then show ?thesis
  proof cases
    case 1
    then have "page_of va < 1024" by simp
    with walk_present [OF pd _ aligned(1) t0] 1 dir show ?thesis
      by (simp add: page_aligned_def range_map_def flip: boot_translation_pages)
  next
    case 2
    then have "page_of va = 786432 + ?p" using div_mult_mod_eq [of "page_of va" 1024] by simp
    then obtain r where "page_of va = 786432 + r" "r < 1024" using \<open>?p < 1024\<close> by blast
    moreover from this have "(786432 + r) mod 1024 = r" using mod_mult_self2 [of r 1024 768] by (simp add: add.commute)
    ultimately have "page_of va = 786432 + r" "r < 1024" "(786432 + r) mod 1024 = r" by simp_all
    with walk_present [OF pd _ aligned(2) t768] 2 dir show ?thesis
      by (simp add: page_aligned_def range_map_def flip: boot_translation_pages)
  next
    case 3
    then have "1024 \<le> page_of va" "\<not> (786432 \<le> page_of va \<and> page_of va < 786432 + 1024)" by linarith+
    with walk_absent [OF pd] 3 dir show ?thesis by (auto simp: range_map_def simp flip: boot_translation_pages)
  qed
qed

section \<open>Up to the higher half\<close>

lemma fill_table:
  assumes "unat table + 4096 \<le> 4294967296"
  obtains r' m' where "map_pages table (set_reg Edx p (set_reg Ebx v (set_reg Ecx 0 (b\<lparr>cpu_reg := r, cpu_mem := m\<rparr>)))) =
      Some (b\<lparr>cpu_reg := r', cpu_mem := m'\<rparr>)"
    "\<And>i. i < 1024 \<Longrightarrow> load32 m' (table + 4 * of_nat i) = (p + of_nat i * 0x1000) OR 3"
    "same_bytes ({..<4294967296} - {unat table..<unat table + 4096}) m m'"
  using map_pages_from [of 0 "set_reg Edx p (set_reg Ebx v (set_reg Ecx 0 (b\<lparr>cpu_reg := r, cpu_mem := m\<rparr>)))" p table] assms
  by (auto simp: set_reg_def)

lemma word_at_store:
  assumes "x + 4 \<le> y \<or> y + 4 \<le> x" and "x + 4 \<le> 4294967296" and "y + 4 \<le> 4294967296"
  shows "load32 (store32 (of_nat x) v m) (of_nat y) = load32 m (of_nat y)"
  by (rule load32_same, rule same_bytes_store32) (use assms in auto)

text \<open>The two words that \<^verbatim>\<open>_kernelstart\<close> pushes for \<^verbatim>\<open>KMain\<close>.\<close>

definition saved_words :: "boot_symbols \<Rightarrow> mem \<Rightarrow> u32 \<times> u32" where
  "saved_words sy m = (load32 m (boot_stack_top sy - 4), load32 m (boot_stack_top sy - 8))"

lemma saved_words_same:
  assumes "same_bytes {unat (boot_stack_top sy) - 8..<unat (boot_stack_top sy)} m m'" and "8 \<le> unat (boot_stack_top sy)"
  shows "saved_words sy m' = saved_words sy m"
proof -
  let ?T = "unat (boot_stack_top sy)"
  have top: "boot_stack_top sy - 4 = of_nat (?T - 4)" "boot_stack_top sy - 8 = of_nat (?T - 8)"
    using assms(2) by (simp_all add: of_nat_diff)
  have "same_bytes {?T - 4..<?T - 4 + 4} m m'" "same_bytes {?T - 8..<?T - 8 + 4} m m'"
    using assms(2) by (auto intro!: same_bytes_mono [OF assms(1)])
  then show ?thesis unfolding saved_words_def top by (simp only: load32_same)
qed

text \<open>The last two stores of \<^verbatim>\<open>_kernelstart\<close>, to the directory, after both tables are filled.\<close>

lemma directory_written:
  assumes place: "boot_place sy" and zero: "\<And>i. i < 1024 \<Longrightarrow> load32 m (boot_page_directory sy + 4 * of_nat i) = 0"
    and table0: "\<And>i. i < 1024 \<Longrightarrow> load32 m (boot_page_table0 sy + 4 * of_nat i) = of_nat i * 0x1000 OR 3"
    and table768: "\<And>i. i < 1024 \<Longrightarrow> load32 m (boot_page_table768 sy + 4 * of_nat i) = (0x200000 + of_nat i * 0x1000) OR 3"
  defines "m' \<equiv> store32 (boot_page_directory sy + 3072) (boot_page_table768 sy OR 3)
    (store32 (boot_page_directory sy) (boot_page_table0 sy OR 3) m)"
  shows "boot_tables sy m'" and "same_bytes ({..<4294967296} - table_bytes sy) m m'"
proof -
  let ?P = "unat (boot_page_directory sy)"
  let ?A = "{..<4294967296} - {?P..<?P + 4} - {?P + 3072..<?P + 3076}"
  note P = boot_place_tables(1-3) [OF place]
  have same: "same_bytes ?A m m'"
    unfolding m'_def using same_bytes_store32 [of ?A ?P] same_bytes_store32 [of ?A "?P + 3072"] P(3)
    by (fastforce intro: same_bytes_trans)
  then show "same_bytes ({..<4294967296} - table_bytes sy) m m'" by (rule same_bytes_mono) (auto simp: table_bytes_def)
  have "load32 m' (boot_page_directory sy + 4 * of_nat i) =
      (if i = 0 then boot_page_table0 sy OR 3 else if i = 768 then boot_page_table768 sy OR 3 else 0)" if "i < 1024" for i
  proof -
    consider "i = 0" | "i = 768" | "i \<noteq> 0" "i \<noteq> 768" by blast
    then show ?thesis
    proof cases
      case 1
      then show ?thesis using word_at_store [of "?P + 3072" ?P] P(3) by (simp add: m'_def)
    next
      case 3
      then show ?thesis using entry_same [OF same, of "boot_page_directory sy" i] zero that P by (auto simp: subset_iff)
    qed (simp add: m'_def)
  qed
  moreover have "load32 m' (boot_page_table0 sy + 4 * of_nat i) = of_nat i * 0x1000 OR 3" if "i < 1024" for i
    using entry_same [OF same, of "boot_page_table0 sy" i] table0 that P by (auto simp: subset_iff)
  moreover have "load32 m' (boot_page_table768 sy + 4 * of_nat i) = (0x200000 + of_nat i * 0x1000) OR 3" if "i < 1024" for i
    using entry_same [OF same, of "boot_page_table768 sy" i] table768 that P by (auto simp: subset_iff)
  ultimately show "boot_tables sy m'" unfolding boot_tables_def by blast
qed

lemma kernelstart_ok:
  assumes place: "boot_place sy" and zero: "\<forall>i<1024. load32 (cpu_mem s) (boot_page_directory sy + 4 * of_nat i) = 0"
  obtains s' where "kernelstart sy s = Some s'" and "boot_tables sy (cpu_mem s')"
    and "saved_words sy (cpu_mem s') = (cpu_reg s Eax, cpu_reg s Ebx)" and "cpu_CR3 s' = boot_page_directory sy"
    and "cpu_CR0 s' = cpu_CR0 s OR 0x80000000" and "cpu_EFLAGS s' = cpu_EFLAGS s AND NOT 0x200"
    and "cpu_EIP s' = kernelstart_higherhalf sy"
proof -
  let ?P = "unat (boot_page_directory sy)" and ?T = "unat (boot_stack_top sy)"
  let ?b = "s\<lparr>cpu_EFLAGS := cpu_EFLAGS s AND NOT 0x200\<rparr>"
  let ?s3 = "push_reg Ebx (push_reg Eax (set_reg Esp (boot_stack_top sy) (set_reg Ebp (boot_stack_top sy) ?b)))"
  let ?m3 = "store32 (boot_stack_top sy - 8) (cpu_reg s Ebx) (store32 (boot_stack_top sy - 4) (cpu_reg s Eax) (cpu_mem s))"
  note U = boot_place_tables(1,2) [OF place]
  have bounds: "?P + 28672 \<le> ?T" "?T \<le> 0x200000" using place by (simp_all add: boot_place_def)
  have top: "boot_stack_top sy - 4 = of_nat (?T - 4)" "boot_stack_top sy - 8 = of_nat (?T - 8)"
    using bounds by (simp_all add: of_nat_diff)
  have s3: "?s3 = ?b\<lparr>cpu_reg := cpu_reg ?s3, cpu_mem := ?m3\<rparr>"
    by (simp add: push_reg_def push_word_def set_reg_def Let_def)
  have m3: "same_bytes ({..<4294967296} - {?T - 8..<?T}) (cpu_mem s) ?m3" unfolding top
    by (rule same_bytes_trans; rule same_bytes_store32) (use bounds in auto)
  have w3: "saved_words sy ?m3 = (cpu_reg s Eax, cpu_reg s Ebx)"
    unfolding saved_words_def top using word_at_store [of "?T - 8" "?T - 4"] bounds by simp
  have top0: "unat (boot_page_table0 sy) + 4096 \<le> 4294967296" "unat (boot_page_table768 sy) + 4096 \<le> 4294967296"
    using U bounds by simp_all
  obtain r4 m4 where 4: "map_pages (boot_page_table0 sy) (set_reg Edx 0 (set_reg Ebx 0 (set_reg Ecx 0
      (?b\<lparr>cpu_reg := cpu_reg ?s3, cpu_mem := ?m3\<rparr>)))) = Some (?b\<lparr>cpu_reg := r4, cpu_mem := m4\<rparr>)"
    "\<And>i. i < 1024 \<Longrightarrow> load32 m4 (boot_page_table0 sy + 4 * of_nat i) = (0 + of_nat i * 0x1000) OR 3"
    "same_bytes ({..<4294967296} - {unat (boot_page_table0 sy)..<unat (boot_page_table0 sy) + 4096}) ?m3 m4"
    by (rule fill_table [OF top0(1), where p = 0 and v = 0 and b = ?b and r = "cpu_reg ?s3" and m = ?m3]) blast
  obtain r5 m5 where 5: "map_pages (boot_page_table768 sy) (set_reg Edx 0x200000 (set_reg Ebx 0xC0000000 (set_reg Ecx 0
      (?b\<lparr>cpu_reg := r4, cpu_mem := m4\<rparr>)))) = Some (?b\<lparr>cpu_reg := r5, cpu_mem := m5\<rparr>)"
    "\<And>i. i < 1024 \<Longrightarrow> load32 m5 (boot_page_table768 sy + 4 * of_nat i) = (0x200000 + of_nat i * 0x1000) OR 3"
    "same_bytes ({..<4294967296} - {unat (boot_page_table768 sy)..<unat (boot_page_table768 sy) + 4096}) m4 m5"
    by (rule fill_table [OF top0(2), where p = "0x200000" and v = "0xC0000000" and b = ?b and r = r4 and m = m4]) blast
  let ?m7 = "store32 (boot_page_directory sy + 3072) (boot_page_table768 sy OR 3)
    (store32 (boot_page_directory sy) (boot_page_table0 sy OR 3) m5)"
  have m45: "same_bytes ({..<4294967296} - {?P + 4096..<?P + 12288}) ?m3 m5"
    by (rule same_bytes_trans [OF same_bytes_mono [OF 4(3)] same_bytes_mono [OF 5(3)]]) (use U in auto)
  note P = boot_place_tables(1,2) [OF place] bounds
  have "load32 m5 (boot_page_directory sy + 4 * of_nat i) = 0" if "i < 1024" for i
    using entry_outside [OF m45, of "boot_page_directory sy" i] entry_outside [OF m3, of "boot_page_directory sy" i] zero
      that P by simp
  moreover have "load32 m5 (boot_page_table0 sy + 4 * of_nat i) = of_nat i * 0x1000 OR 3" if "i < 1024" for i
    using entry_outside [OF 5(3), of "boot_page_table0 sy" i] 4(2) that P by simp
  ultimately have m7: "boot_tables sy ?m7" "same_bytes ({..<4294967296} - table_bytes sy) m5 ?m7"
    using directory_written [OF place _ _ 5(2)] by blast+
  have "same_bytes {?T - 8..<?T} ?m3 ?m7"
    by (rule same_bytes_trans [OF same_bytes_mono [OF m45] same_bytes_mono [OF m7(2)]]) (use bounds in \<open>auto simp: table_bytes_def\<close>)
  then have "saved_words sy ?m7 = saved_words sy ?m3" by (rule saved_words_same) (use bounds in simp)
  moreover have "\<exists>r. kernelstart sy s = Some (?b\<lparr>cpu_reg := r, cpu_mem := ?m7, cpu_CR3 := boot_page_directory sy,
     cpu_CR0 := cpu_CR0 s OR 0x80000000, cpu_EIP := kernelstart_higherhalf sy\<rparr>)"
    unfolding kernelstart_def Option.bind.bind_lunit 4(1) [folded s3] KERNEL_PHYSICAL_LOAD_ADDRESS_def
      KERNEL_VIRTUAL_LOAD_ADDRESS_def 5(1)
    by (rule exI [of _ "r5(Eax := cpu_CR0 s OR 0x80000000, Ebx := kernelstart_higherhalf sy)"]) (simp add: set_reg_def)
  ultimately show ?thesis using m7(1) w3 that by fastforce
qed

section \<open>In the higher half\<close>

text \<open>The state after the jump: paging goes through the boot tables.\<close>

definition boot_paging :: "boot_symbols \<Rightarrow> cpu \<Rightarrow> bool" where
  "boot_paging sy s \<longleftrightarrow> boot_place sy \<and> boot_tables sy (cpu_mem s) \<and> cpu_CR3 s = boot_page_directory sy"

lemma boot_paging_walk: "boot_paging sy s \<Longrightarrow> walk (cpu_mem s) (cpu_CR3 s) va = boot_translation va"
  by (simp add: boot_paging_def walk_boot_tables)

lemma boot_translation_low: "n < 0x400000 \<Longrightarrow> boot_translation (of_nat n) = Some (of_nat n)"
  by (simp add: boot_translation_def word_less_nat_alt unat_of_nat32)

lemma boot_translation_high: "n < 0x400000 \<Longrightarrow> boot_translation (0xC0000000 + of_nat n) = Some (0x200000 + of_nat n)"
  by (simp add: boot_translation_def word_less_nat_alt word_le_nat_alt unat_add_no_wrap unat_of_nat32)

lemma linear_load32_low:
  assumes "boot_paging sy s" and "n + 4 \<le> 0x400000"
  shows "linear_load32 (of_nat n) s = Some (load32 (cpu_mem s) (of_nat n))"
  using assms boot_translation_low [of n] boot_translation_low [of "n + 1"] boot_translation_low [of "n + 2"]
    boot_translation_low [of "n + 3"]
  by (simp add: linear_load32_def linear_load8_def boot_paging_walk load32_def add.commute)

lemma linear_load32_high:
  assumes "boot_paging sy s" and "n + 4 \<le> 0x400000"
  shows "linear_load32 (0xC0000000 + of_nat n) s = Some (load32 (cpu_mem s) (0x200000 + of_nat n))"
  using assms boot_translation_high [of n] boot_translation_high [of "n + 1"] boot_translation_high [of "n + 2"]
    boot_translation_high [of "n + 3"]
  by (simp add: linear_load32_def linear_load8_def boot_paging_walk load32_def add.commute add.left_commute)

lemma linear_store8_high:
  assumes "boot_paging sy s" and "n < 0x400000"
  shows "linear_store8 (0xC0000000 + of_nat n) v s = Some (s\<lparr>cpu_mem := (cpu_mem s)(0x200000 + of_nat n := v)\<rparr>)"
    and "boot_paging sy (s\<lparr>cpu_mem := (cpu_mem s)(0x200000 + of_nat n := v)\<rparr>)"
proof -
  show "linear_store8 (0xC0000000 + of_nat n) v s = Some (s\<lparr>cpu_mem := (cpu_mem s)(0x200000 + of_nat n := v)\<rparr>)"
    using assms by (simp add: linear_store8_def boot_paging_walk boot_translation_high)
  have "boot_place sy" using assms(1) by (simp add: boot_paging_def)
  then have "same_bytes (table_bytes sy) (cpu_mem s) (store8 (of_nat (0x200000 + n)) v (cpu_mem s))"
    using boot_place_tables(3) [of sy] assms(2) by (intro same_bytes_store8) (auto simp: table_bytes_def)
  then show "boot_paging sy (s\<lparr>cpu_mem := (cpu_mem s)(0x200000 + of_nat n := v)\<rparr>)"
    using assms(1) by (auto simp: boot_paging_def store8_def intro: boot_tables_same)
qed

lemma linear_store32_high:
  assumes "boot_paging sy s" and "n + 4 \<le> 0x400000"
  shows "linear_store32 (0xC0000000 + of_nat n) v s = Some (s\<lparr>cpu_mem := store32 (0x200000 + of_nat n) v (cpu_mem s)\<rparr>) \<and>
    boot_paging sy (s\<lparr>cpu_mem := store32 (0x200000 + of_nat n) v (cpu_mem s)\<rparr>)"
proof -
  have n: "n < 0x400000" "n + 1 < 0x400000" "n + 2 < 0x400000" "n + 3 < 0x400000" using assms(2) by simp_all
  note s0 = linear_store8_high [OF assms(1) n(1), of "ucast v"]
  note s1 = linear_store8_high [OF s0(2) n(2), of "ucast (drop_bit 8 v)"]
  note s2 = linear_store8_high [OF s1(2) n(3), of "ucast (drop_bit 16 v)"]
  note s3 = linear_store8_high [OF s2(2) n(4), of "ucast (drop_bit 24 v)"]
  show ?thesis using s0(1) s1(1) s2(1) s3
    by (simp add: linear_store32_def store32_def add.commute add.left_commute)
qed

text \<open>The kernel's stack is within the 4 MB from \<^verbatim>\<open>0xC0000000\<close> on.\<close>

definition kernel_stack_place :: "boot_symbols \<Rightarrow> bool" where
  "kernel_stack_place sy \<longleftrightarrow> 0xC0000008 \<le> unat (kernel_stack_top sy) \<and> unat (kernel_stack_top sy) \<le> 0xC0400000"

lemma kernel_stack_offset:
  assumes "kernel_stack_place sy"
  obtains n where "kernel_stack_top sy = 0xC0000000 + of_nat n" and "8 \<le> n" and "n \<le> 0x400000"
proof -
  obtain n where n: "unat (kernel_stack_top sy) = 0xC0000000 + n"
    using assms le_Suc_ex [of "0xC0000008" "unat (kernel_stack_top sy)"] le_Suc_ex [of "0xC0000000" "unat (kernel_stack_top sy)"]
    by (auto simp: kernel_stack_place_def)
  have "of_nat (unat (kernel_stack_top sy)) = kernel_stack_top sy" by simp
  then have "of_nat (0xC0000000 + n) = kernel_stack_top sy" unfolding n .
  with that [of n] show ?thesis using assms n by (simp add: kernel_stack_place_def)
qed

lemma boot_paging_set_reg [simp]: "boot_paging sy (set_reg r v s) = boot_paging sy s"
  by (simp add: boot_paging_def set_reg_def)

lemma set_reg_fields [simp]:
  "cpu_mem (set_reg r v s) = cpu_mem s" "cpu_reg (set_reg r v s) = (cpu_reg s)(r := v)" "cpu_CR0 (set_reg r v s) = cpu_CR0 s"
  "cpu_EFLAGS (set_reg r v s) = cpu_EFLAGS s"
  by (simp_all add: set_reg_def)

lemma linear_push_high:
  fixes s n v
  defines "s' \<equiv> (set_reg Esp (0xC0000000 + of_nat n) s)\<lparr>cpu_mem := store32 (0x200000 + of_nat n) v (cpu_mem s)\<rparr>"
  assumes "boot_paging sy s" and "cpu_reg s Esp - 4 = 0xC0000000 + of_nat n" and "n + 4 \<le> 0x400000"
  shows "linear_push v s = Some s'" and "boot_paging sy s'"
  using linear_store32_high [of sy "set_reg Esp (0xC0000000 + of_nat n) s" n v] assms(2,4)
  by (simp_all add: linear_push_def assms(3) s'_def Let_def)

lemma higherhalf_ok:
  assumes "boot_paging sy s" and "kernel_stack_place sy"
  obtains s' where "higherhalf sy s = Some s'" and "boot_paging sy s'"
    and "KMain_arguments s' = Some (saved_words sy (cpu_mem s))" and "cpu_CR0 s' = cpu_CR0 s" and "cpu_EFLAGS s' = cpu_EFLAGS s"
proof -
  let ?T = "unat (boot_stack_top sy)"
  have bounds: "8 \<le> ?T" "?T \<le> 0x200000" using assms by (simp_all add: boot_paging_def boot_place_def)
  have top: "boot_stack_top sy - 4 = of_nat (?T - 4)" "boot_stack_top sy - 8 = of_nat (?T - 8)"
    using bounds by (simp_all add: of_nat_diff)
  obtain n where n: "kernel_stack_top sy = 0xC0000000 + of_nat n" "8 \<le> n" "n \<le> 0x400000"
    by (rule kernel_stack_offset [OF assms(2)])
  have stack: "kernel_stack_top sy - 4 = 0xC0000000 + of_nat (n - 4)" "kernel_stack_top sy - 8 = 0xC0000000 + of_nat (n - 8)"
    using n(2) by (simp_all add: n(1) of_nat_diff)
  obtain magic info where w: "saved_words sy (cpu_mem s) = (magic, info)" by (cases "saved_words sy (cpu_mem s)")
  let ?s1 = "set_reg Esp (kernel_stack_top sy) (set_reg Ebp (kernel_stack_top sy) s)"
  let ?s3 = "set_reg Edx info (set_reg Ebx magic ?s1)"
  let ?s4 = "(set_reg Esp (0xC0000000 + of_nat (n - 4)) ?s3)\<lparr>cpu_mem := store32 (0x200000 + of_nat (n - 4)) info (cpu_mem ?s3)\<rparr>"
  let ?s5 = "(set_reg Esp (0xC0000000 + of_nat (n - 8)) ?s4)\<lparr>cpu_mem := store32 (0x200000 + of_nat (n - 8)) magic (cpu_mem ?s4)\<rparr>"
  have load: "linear_load32 (boot_stack_top sy - 4) s' = Some magic" "linear_load32 (boot_stack_top sy - 8) s' = Some info"
    if "boot_paging sy s'" "cpu_mem s' = cpu_mem s" for s'
    using linear_load32_low [OF that(1), of "?T - 4", folded top] linear_load32_low [OF that(1), of "?T - 8", folded top]
      that(2) bounds w by (simp_all add: saved_words_def)
  have p3: "boot_paging sy ?s3" using assms(1) by simp
  have "n - 4 + 4 \<le> 0x400000" "n - 8 + 4 \<le> 0x400000" using n(3) by simp_all
  note push4 = linear_push_high [OF p3 _ this(1), of info] and room = this
  have push1: "linear_push info ?s3 = Some ?s4" and p4: "boot_paging sy ?s4" using push4 stack(1) by simp_all
  have "cpu_reg ?s4 Esp - 4 = 0xC0000000 + of_nat (n - 8)" using n(2) by (simp add: of_nat_diff)
  note push8 = linear_push_high [OF p4 this room(2), of magic]
  have "higherhalf sy s = Some ?s5"
    unfolding higherhalf_def Option.bind.bind_lunit using load [of ?s1] load [of "set_reg Ebx magic ?s1"] assms(1) push1 push8(1)
    by simp
  moreover have "KMain_arguments ?s5 = Some (magic, info)"
  proof -
    have "0x200000 + of_nat (n - 4) = (of_nat (0x200000 + (n - 4)) :: u32)"
      "0x200000 + of_nat (n - 8) = (of_nat (0x200000 + (n - 8)) :: u32)" by simp_all
    then have info: "load32 (cpu_mem ?s5) (0x200000 + of_nat (n - 4)) = info"
      using word_at_store [of "0x200000 + (n - 8)" "0x200000 + (n - 4)"] n(2,3) by simp
    have second: "cpu_reg ?s5 Esp + 4 = 0xC0000000 + of_nat (n - 4)" using n(2) by (simp add: of_nat_diff)
    show ?thesis unfolding KMain_arguments_def second
      using linear_load32_high [OF push8(2) room(1)] linear_load32_high [OF push8(2) room(2)] info by simp
  qed
  ultimately show ?thesis using w push8(2) that by simp
qed

section \<open>The switch to the kernel's own tables\<close>

text \<open>
  For a kernel that is loaded at 2 MB and no larger than 4 MB, the mapping that \<^verbatim>\<open>InitVirtualMemoryManager\<close>
  builds and loads translates every address, mapped or not, as the boot page tables do.
\<close>

lemma kernel_tables_continue_boot_tables:
  assumes "boot_layout bi" and "KernelPhysicalStartAddress bi = KERNEL_PHYSICAL_LOAD_ADDRESS" and "kernel_pages bi \<le> 1024"
    and "vmm_place mu (snd (VMM_Init bi s0))" and "boot_tables sy m" and "boot_place sy"
  shows "\<exists>s. InitVirtualMemoryManager bi mu s0 = Some (True, s) \<and>
    last (cpu_trace s) = LoadPageDirectory (KernelVirtualToPhysicalAddress mu (addr_PageDirectory s)) \<and>
    (\<forall>va. map_option (\<lambda>frame. frame + va mod 0x1000) (vmm_mapping mu s (page_of va)) =
       walk m (boot_page_directory sy) va)"
proof (rule InitVirtualMemoryManager_ok [OF assms(1,4)])
  fix s
  assume s: "InitVirtualMemoryManager bi mu s0 = Some (True, s)" "vmm_mapping mu s = boot_mapping bi"
    "last (cpu_trace s) = LoadPageDirectory (KernelVirtualToPhysicalAddress mu (addr_PageDirectory s))"
  have "boot_mapping bi = range_map 786432 1024 0x200000 (range_map 0 1024 0 Map.empty)"
    using assms(2,3) by (simp add: boot_mapping_def KERNEL_PHYSICAL_LOAD_ADDRESS_def max_def)
  with s show ?thesis using walk_boot_tables [OF assms(5,6)] boot_translation_pages by simp
qed

section \<open>Properties\<close>

text \<open>What the bootloader hands over: paging off, and the directory of the image zero.\<close>

definition boot_ready :: "boot_symbols \<Rightarrow> cpu \<Rightarrow> bool" where
  "boot_ready sy s \<longleftrightarrow> boot_place sy \<and> kernel_stack_place sy \<and> \<not> bit (cpu_CR0 s) 31 \<and>
     list_all (\<lambda>i. load32 (cpu_mem s) (boot_page_directory sy + 4 * of_nat i) = 0) [0..<1024]"

lemma boot_code_ok:
  assumes "boot_ready sy s"
  obtains s1 s2 where "kernelstart sy s = Some s1" and "cpu_EIP s1 = kernelstart_higherhalf sy"
    and "higherhalf sy s1 = Some s2" and "bit (cpu_CR0 s2) 31" and "\<not> bit (cpu_EFLAGS s2) 9" and "boot_paging sy s2"
    and "KMain_arguments s2 = Some (cpu_reg s Eax, cpu_reg s Ebx)"
proof -
  have place: "boot_place sy" "kernel_stack_place sy"
    and zero: "\<forall>i<1024. load32 (cpu_mem s) (boot_page_directory sy + 4 * of_nat i) = 0"
    using assms by (simp_all add: boot_ready_def list_all_iff)
  obtain s1 where s1: "kernelstart sy s = Some s1" "boot_tables sy (cpu_mem s1)"
    "saved_words sy (cpu_mem s1) = (cpu_reg s Eax, cpu_reg s Ebx)" "cpu_CR3 s1 = boot_page_directory sy"
    "cpu_CR0 s1 = cpu_CR0 s OR 0x80000000" "cpu_EFLAGS s1 = cpu_EFLAGS s AND NOT 0x200"
    "cpu_EIP s1 = kernelstart_higherhalf sy"
    by (rule kernelstart_ok [OF place(1) zero])
  have "boot_paging sy s1" using s1 place by (simp add: boot_paging_def)
  then obtain s2 where s2: "higherhalf sy s1 = Some s2" "boot_paging sy s2"
    "KMain_arguments s2 = Some (saved_words sy (cpu_mem s1))" "cpu_CR0 s2 = cpu_CR0 s1" "cpu_EFLAGS s2 = cpu_EFLAGS s1"
    using place(2) by (rule higherhalf_ok)
  have "bit (0x80000000 :: u32) 31" "bit (0x200 :: u32) 9" by code_simp+
  then have "bit (cpu_CR0 s2) 31" "\<not> bit (cpu_EFLAGS s2) 9"
    unfolding s2(4,5) s1(5,6) bit_or_iff bit_and_iff bit_not_iff by simp_all
  with that [OF s1(1,7) s2(1)] s1(3) s2(2,3) show ?thesis by simp
qed

text \<open>
  C4: From the bootloader's jump on, \<^verbatim>\<open>_kernelstart\<close> always gets to the higher half: both loops over a page table
  end, paging is switched on with interrupts off, and the processor then translates exactly the first 4 MB to
  themselves and the 4 MB from \<^verbatim>\<open>0xC0000000\<close> on to the kernel's load address at 2 MB. The code there calls \<^verbatim>\<open>KMain\<close>,
  under the same translation, with the multiboot magic and the address of the multiboot information that
  the bootloader left in \<^verbatim>\<open>eax\<close> and \<^verbatim>\<open>ebx\<close>, although they were saved on another stack, before paging.
\<close>

theorem boot_code_calls_KMain:
  assumes "boot_ready sy s"
  shows "\<exists>s1 s2. kernelstart sy s = Some s1 \<and> cpu_EIP s1 = kernelstart_higherhalf sy \<and> higherhalf sy s1 = Some s2 \<and>
    bit (cpu_CR0 s2) 31 \<and> \<not> bit (cpu_EFLAGS s2) 9 \<and> (\<forall>va. walk (cpu_mem s2) (cpu_CR3 s2) va = boot_translation va) \<and>
    KMain_arguments s2 = Some (cpu_reg s Eax, cpu_reg s Ebx)"
proof (rule boot_code_ok [OF assms])
  fix s1 s2
  assume "kernelstart sy s = Some s1" "cpu_EIP s1 = kernelstart_higherhalf sy" "higherhalf sy s1 = Some s2"
    "bit (cpu_CR0 s2) 31" "\<not> bit (cpu_EFLAGS s2) 9" "boot_paging sy s2"
    "KMain_arguments s2 = Some (cpu_reg s Eax, cpu_reg s Ebx)"
  then show ?thesis using boot_paging_walk by blast
qed

text \<open>An image of the linker script's shape, and what the bootloader hands over.\<close>

definition boot_symbols_0 :: boot_symbols where
  "boot_symbols_0 = \<lparr>boot_page_directory = 0x101000, boot_page_table0 = 0x102000, boot_page_table768 = 0x103000,
     boot_stack_top = 0x109000, kernel_stack_top = 0xC0012000, kernelstart_higherhalf = 0xC0000000\<rparr>"

definition cpu_boot :: cpu where
  "cpu_boot = \<lparr>cpu_reg = (\<lambda>r. if r = Eax then 0x2BADB002 else if r = Ebx then 0x9500 else 0), cpu_DS = 0x10, cpu_ES = 0x10,
     cpu_FS = 0x10, cpu_GS = 0x10, cpu_CS = 8, cpu_EIP = 0x104000, cpu_EFLAGS = 0x202, cpu_CR0 = 0x11, cpu_CR3 = 0,
     cpu_GDTR = (39, 0), cpu_IDTR = (2047, 0), cpu_mem = (\<lambda>_. 0)\<rparr>"

lemma paging_off: "\<not> bit (cpu_CR0 cpu_boot) 31"
proof -
  have "\<not> bit (0x11 :: u32) 31" by code_simp
  then show ?thesis by (simp add: cpu_boot_def)
qed

theorem boot_code_calls_KMain_witness:
  "\<exists>s1 s2. kernelstart boot_symbols_0 cpu_boot = Some s1 \<and> higherhalf boot_symbols_0 s1 = Some s2 \<and>
     KMain_arguments s2 = Some (0x2BADB002, 0x9500) \<and> walk (cpu_mem s2) (cpu_CR3 s2) 0xC0000123 = Some 0x200123"
proof -
  have "boot_ready boot_symbols_0 cpu_boot"
    using paging_off by (simp add: boot_ready_def boot_place_def kernel_stack_place_def page_aligned_def boot_symbols_0_def cpu_boot_def
        list_all_iff load32_def)
  from boot_code_calls_KMain [OF this] show ?thesis
    by (auto simp: boot_translation_def cpu_boot_def)
qed

end
