(* ===== verification/LinkerScript.thy ===== *)
theory LinkerScript
  imports BootCode
begin

text \<open>
  \<^verbatim>\<open>Kernel/linker.ld\<close>: the addresses of the sections, from their sizes. The tables and the stack of
  \<^verbatim>\<open>Boot.asm\<close> are the only contents of \<^verbatim>\<open>.boot.data\<close> and \<^verbatim>\<open>.boot.bss\<close>; the sizes of the other sections are what the
  compiler makes of the code, a parameter.
\<close>

section \<open>The script\<close>

record section_sizes =
  size_boot_text :: nat
  size_text :: nat
  size_rodata :: nat
  size_data :: nat
  size_bss :: nat
  higherhalf_offset :: nat

definition page_up :: "nat \<Rightarrow> nat" where
  "page_up n = (n + 4095) div 4096 * 4096"

text \<open>The three words of the multiboot header, and the addresses in \<^verbatim>\<open>.boot.data\<close> and \<^verbatim>\<open>.boot.bss\<close>.\<close>

definition multiboot_header :: "u32 list" where
  "multiboot_header = (let MULTIBOOT_MAGIC = 0x1BADB002; MULTIBOOT_FLAGS = 0x00000001 OR 0x00000002
     in [MULTIBOOT_MAGIC, MULTIBOOT_FLAGS, - (MULTIBOOT_MAGIC + MULTIBOOT_FLAGS)])"

definition boot_data_tables :: nat where
  "boot_data_tables = page_up (page_up 0x100000 + 4 * length multiboot_header)"

definition boot_bss_end :: "section_sizes \<Rightarrow> nat" where
  "boot_bss_end z = page_up (page_up (boot_data_tables + 3 * 4096) + size_boot_text z) + 16384"

text \<open>The kernel's stack is the last thing of \<^verbatim>\<open>.bss\<close>, without an alignment of its own.\<close>

definition kernel_image_end :: "section_sizes \<Rightarrow> nat" where
  "kernel_image_end z =
     (let bss = page_up (page_up (page_up (page_up 0xC0000000 + size_text z) + size_rodata z) + size_data z)
      in bss + size_bss z + 4096)"

definition link_symbols :: "section_sizes \<Rightarrow> linker_symbols" where
  "link_symbols z =
     \<lparr>bootloader_physical_start = 0x100000, bootloader_physical_end = of_nat (boot_bss_end z),
      kernel_physical_start = (0xC0000000 - 0xC0000000) + 0x200000,
      kernel_physical_end = (of_nat (kernel_image_end z) - 0xC0000000) + 0x200000,
      kernel_virtual_start = 0xC0000000, kernel_virtual_end = of_nat (kernel_image_end z)\<rparr>"

definition link_boot_symbols :: "section_sizes \<Rightarrow> boot_symbols" where
  "link_boot_symbols z =
     \<lparr>boot_page_directory = of_nat boot_data_tables, boot_page_table0 = of_nat (boot_data_tables + 4096),
      boot_page_table768 = of_nat (boot_data_tables + 8192), boot_stack_top = of_nat (boot_bss_end z),
      kernel_stack_top = of_nat (kernel_image_end z),
      kernelstart_higherhalf = of_nat (page_up 0xC0000000 + higherhalf_offset z)\<rparr>"

section \<open>The addresses\<close>

lemma page_up_bounds: "n \<le> page_up n" "page_up n < n + 4096"
  using div_mult_mod_eq [of "n + 4095" 4096] mod_less_divisor [of 4096 "n + 4095"] unfolding page_up_def by linarith+

lemma page_up_start: "boot_data_tables = 0x101000" "page_up 0xC0000000 = 0xC0000000"
  by (simp_all add: boot_data_tables_def page_up_def multiboot_header_def Let_def)

text \<open>The header's words add up to zero, as the specification of multiboot asks.\<close>

lemma multiboot_header_sum: "sum_list multiboot_header = 0"
  by (simp add: multiboot_header_def Let_def)

text \<open>The boot code is below the kernel's load address, the image in the 4 MB that the boot tables map.\<close>

definition image_fits :: "section_sizes \<Rightarrow> bool" where
  "image_fits z \<longleftrightarrow> boot_bss_end z \<le> 0x200000 \<and> kernel_image_end z < 0xC0400000"

lemma image_bounds:
  assumes "image_fits z"
  shows "0x101000 + 12288 + 16384 \<le> boot_bss_end z" and "boot_bss_end z \<le> 0x200000"
    and "0xC0001000 \<le> kernel_image_end z" and "kernel_image_end z < 0xC0400000"
proof -
  show "boot_bss_end z \<le> 0x200000" "kernel_image_end z < 0xC0400000" using assms by (simp_all add: image_fits_def)
  show "0x101000 + 12288 + 16384 \<le> boot_bss_end z"
    using page_up_bounds(1) [of "boot_data_tables + 3 * 4096"]
      page_up_bounds(1) [of "page_up (boot_data_tables + 3 * 4096) + size_boot_text z"]
    unfolding boot_bss_end_def page_up_start by linarith
  show "0xC0001000 \<le> kernel_image_end z"
    using page_up_bounds(1) [of "0xC0000000 + size_text z"]
      page_up_bounds(1) [of "page_up (0xC0000000 + size_text z) + size_rodata z"]
      page_up_bounds(1) [of "page_up (page_up (0xC0000000 + size_text z) + size_rodata z) + size_data z"]
    unfolding kernel_image_end_def page_up_start Let_def by linarith
qed

lemma link_layout:
  assumes "image_fits z"
  shows "boot_place (link_boot_symbols z)" "kernel_stack_place (link_boot_symbols z)"
    "boot_layout (KMain_bootInfo (link_symbols z) mb)" "kernel_pages (KMain_bootInfo (link_symbols z) mb) \<le> 1024"
    "KernelPhysicalStartAddress (KMain_bootInfo (link_symbols z) mb) = KERNEL_PHYSICAL_LOAD_ADDRESS"
proof -
  note I = image_bounds [OF assms]
  show "boot_place (link_boot_symbols z)"
    using I(1,2) by (simp add: boot_place_def link_boot_symbols_def page_up_start page_aligned_def unat_of_nat32)
  show "kernel_stack_place (link_boot_symbols z)"
    using I(3,4) by (simp add: kernel_stack_place_def link_boot_symbols_def unat_of_nat32)
  obtain n where n: "kernel_image_end z = 0xC0000000 + n" "n < 0x400000"
    using le_Suc_ex [of "0xC0000000" "kernel_image_end z"] I(3,4) by auto
  have e: "kernel_physical_end (link_symbols z) = of_nat (0x200000 + n)" by (simp add: link_symbols_def n(1))
  then have "unat (kernel_physical_end (link_symbols z)) = 0x200000 + n" using n(2) by (simp add: unat_of_nat32 del: of_nat_add)
  then have "page_of (kernel_physical_end (link_symbols z)) \<le> 512 + 1024" "0x200000 \<le> kernel_physical_end (link_symbols z)"
    using n(2) by (simp_all add: page_of_def word_le_nat_alt)
  then show "boot_layout (KMain_bootInfo (link_symbols z) mb)"
    "kernel_pages (KMain_bootInfo (link_symbols z) mb) \<le> 1024"
    by (simp_all add: boot_layout_def kernel_pages_def KMain_bootInfo_def link_symbols_def page_aligned_def page_of_def)
  show "KernelPhysicalStartAddress (KMain_bootInfo (link_symbols z) mb) = KERNEL_PHYSICAL_LOAD_ADDRESS"
    by (simp add: KMain_bootInfo_def link_symbols_def KERNEL_PHYSICAL_LOAD_ADDRESS_def)
qed

section \<open>Properties\<close>

text \<open>What the bootloader hands over: paging off, and the image in memory, of which the page directory is zero.\<close>

definition image_loaded :: "section_sizes \<Rightarrow> cpu \<Rightarrow> bool" where
  "image_loaded z s \<longleftrightarrow> image_fits z \<and> \<not> bit (cpu_CR0 s) 31 \<and>
     list_all (\<lambda>i. load32 (cpu_mem s) (boot_page_directory (link_boot_symbols z) + 4 * of_nat i) = 0) [0..<1024]"

text \<open>
  C3: For every kernel whose sections fit into the 4 MB that the boot code maps, linked by the linker script:
  the boot code gets to \<^verbatim>\<open>KMain\<close> with the bootloader's two words, and the mapping that
  \<^verbatim>\<open>InitVirtualMemoryManager\<close> later builds from the script's symbols and loads translates every address,
  mapped or not, exactly as the boot page tables did. No address changes its meaning when the kernel
  switches from the one to the other.
\<close>

theorem kernel_keeps_boot_translation:
  assumes "image_loaded z s" and "vmm_place mu (snd (VMM_Init (KMain_bootInfo (link_symbols z) mb) s0))"
  shows "\<exists>s1 s2 v. kernelstart (link_boot_symbols z) s = Some s1 \<and> higherhalf (link_boot_symbols z) s1 = Some s2 \<and>
    KMain_arguments s2 = Some (cpu_reg s Eax, cpu_reg s Ebx) \<and>
    InitVirtualMemoryManager (KMain_bootInfo (link_symbols z) mb) mu s0 = Some (True, v) \<and>
    last (cpu_trace v) = LoadPageDirectory (KernelVirtualToPhysicalAddress mu (addr_PageDirectory v)) \<and>
    (\<forall>va. map_option (\<lambda>frame. frame + va mod 0x1000) (vmm_mapping mu v (page_of va)) = walk (cpu_mem s2) (cpu_CR3 s2) va)"
proof -
  have fits: "image_fits z" using assms(1) by (simp add: image_loaded_def)
  note L = link_layout [OF fits]
  have "boot_ready (link_boot_symbols z) s" using assms(1) L(1,2) by (simp add: boot_ready_def image_loaded_def)
  then obtain s1 s2 where s: "kernelstart (link_boot_symbols z) s = Some s1" "higherhalf (link_boot_symbols z) s1 = Some s2"
    "boot_paging (link_boot_symbols z) s2" "KMain_arguments s2 = Some (cpu_reg s Eax, cpu_reg s Ebx)"
    by (rule boot_code_ok) blast
  have "boot_tables (link_boot_symbols z) (cpu_mem s2)" "cpu_CR3 s2 = boot_page_directory (link_boot_symbols z)"
    using s(3) by (simp_all add: boot_paging_def)
  with s kernel_tables_continue_boot_tables [OF L(3,5,4) assms(2) _ L(1)] show ?thesis by metis
qed

definition sizes_0 :: section_sizes where
  "sizes_0 = \<lparr>size_boot_text = 200, size_text = 60000, size_rodata = 9000, size_data = 500, size_bss = 1200000,
     higherhalf_offset = 0\<rparr>"

theorem kernel_keeps_boot_translation_witness:
  "\<forall>mb. \<exists>s1 s2 v. kernelstart (link_boot_symbols sizes_0) cpu_boot = Some s1 \<and>
     higherhalf (link_boot_symbols sizes_0) s1 = Some s2 \<and> KMain_arguments s2 = Some (0x2BADB002, 0x9500) \<and>
     InitVirtualMemoryManager (KMain_bootInfo (link_symbols sizes_0) mb) mu_0 vmm_0 = Some (True, v)"
  (is "\<forall>mb. ?P mb")
proof
  fix mb
  have "image_loaded sizes_0 cpu_boot"
    using paging_off by (simp add: image_loaded_def image_fits_def boot_bss_end_def kernel_image_end_def page_up_def page_up_start sizes_0_def
        list_all_iff load32_def cpu_boot_def Let_def)
  moreover have "vmm_place mu_0 (snd (VMM_Init (KMain_bootInfo (link_symbols sizes_0) mb) vmm_0))"
    by (simp add: vmm_place_def VMM_Init_def vmm_0_def mu_0_def KMain_bootInfo_def link_symbols_def)
  ultimately show "?P mb"
    using kernel_keeps_boot_translation [of sizes_0 cpu_boot mu_0 mb vmm_0] by (auto simp: cpu_boot_def)
qed

end
