(* ===== verification/IsrStubs.thy ===== *)
theory IsrStubs
  imports X86 Processor
begin

text \<open>
  \<^verbatim>\<open>Arch/x86/ISR.asm\<close>: how an exception of the processor gets to \<^verbatim>\<open>x86ISRFaultHandler\<close>, and what the code
  after the call does. The processor pushes the flags, the code segment and the instruction pointer, for
  some exceptions also an error code; every stub pushes a zero and its number; \<^verbatim>\<open>_ISRHandler\<close> pushes the
  registers and passes the address of all that as an \<^verbatim>\<open>InterruptFrame\<close>. The stubs of the exceptions with an
  error code push a zero as well, so that their frames are shifted by a word.
\<close>

section \<open>The way in\<close>

text \<open>
  What the processor does for an exception in kernel code, through one of the kernel's interrupt gates: it
  also clears the flags TF, IF, NT, RF and VM. \<open>err\<close> is the error code of those exceptions that have one. The
  flags are pushed as they are: that the processor sets RF in the pushed copy for most faults is left out.
\<close>

definition processor_exception :: "u32 option \<Rightarrow> cpu \<Rightarrow> cpu" where
  "processor_exception err s =
     (let s1 = push_word (cpu_EIP s) (push_word (ucast (cpu_CS s)) (push_word (cpu_EFLAGS s) s));
          s2 = (case err of None \<Rightarrow> s1 | Some e \<Rightarrow> push_word e s1)
      in s2\<lparr>cpu_EFLAGS := cpu_EFLAGS s2 AND NOT 0x34300\<rparr>)"

text \<open>\<^verbatim>\<open>ISR0\<close> to \<^verbatim>\<open>ISR31\<close>, which differ in the number only.\<close>

definition ISR_stub :: "u32 \<Rightarrow> cpu \<Rightarrow> cpu" where
  "ISR_stub n s = push_word n (push_word 0 s)"

text \<open>\<^verbatim>\<open>_ISRHandler\<close> up to the call.\<close>

definition ISRHandler_entry :: "cpu \<Rightarrow> cpu" where
  "ISRHandler_entry s =
     (let s1 = pushad s;
          s2 = push_reg Eax (mov_ax (cpu_DS s1) s1);
          s3 = load_segments_ax (mov_ax 0x10 s2);
          s4 = push_reg Esp s3
      in s4\<lparr>cpu_EFLAGS := cpu_EFLAGS s4 AND NOT 0x400\<rparr>)"

text \<open>\<^verbatim>\<open>_ISRHandler\<close> after the call.\<close>

definition ISRHandler_exit :: "cpu \<Rightarrow> cpu" where
  "ISRHandler_exit s =
     (let s1 = pop_reg Eax s;
          s2 = load_segments_ax (pop_reg Eax s1);
          s3 = popad s2
      in iret (drop_words 2 s3))"

text \<open>The words at an address as the C++ code sees them.\<close>

definition frame_at :: "mem \<Rightarrow> u32 \<Rightarrow> InterruptFrame" where
  "frame_at m p =
     \<lparr>DS = load32 m p, EDI = load32 m (p + 4), ESI = load32 m (p + 8), EBP = load32 m (p + 12),
      IESP = load32 m (p + 16), EBX = load32 m (p + 20), EDX = load32 m (p + 24), ECX = load32 m (p + 28),
      EAX = load32 m (p + 32), InterruptNumber = load32 m (p + 36), ErrorCode = load32 m (p + 40),
      EIP = load32 m (p + 44), CS = load32 m (p + 48), EFLAGS = load32 m (p + 52), ESP = load32 m (p + 56),
      SS = load32 m (p + 60)\<rparr>"

text \<open>The state in which the handler is called, with the address of the frame on the stack.\<close>

definition exception_state :: "u32 \<Rightarrow> u32 option \<Rightarrow> cpu \<Rightarrow> cpu" where
  "exception_state n err s = ISRHandler_entry (ISR_stub n (processor_exception err s))"

section \<open>The frame\<close>

lemma frame_at_words:
  assumes "top_word s = cpu_reg s Esp + 4" and "stack_words 17 s = p # ws"
  shows "frame_at (cpu_mem s) (top_word s) =
    \<lparr>DS = ws ! 0, EDI = ws ! 1, ESI = ws ! 2, EBP = ws ! 3, IESP = ws ! 4, EBX = ws ! 5, EDX = ws ! 6, ECX = ws ! 7,
     EAX = ws ! 8, InterruptNumber = ws ! 9, ErrorCode = ws ! 10, EIP = ws ! 11, CS = ws ! 12, EFLAGS = ws ! 13,
     ESP = ws ! 14, SS = ws ! 15\<rparr>"
proof -
  have "load32 (cpu_mem s) (cpu_reg s Esp + 4 + 4 * of_nat i) = ws ! i" if "i < 16" for i
  proof -
    have "ws ! i = stack_words 17 s ! Suc i" by (simp add: assms(2))
    also have "\<dots> = load32 (cpu_mem s) (cpu_reg s Esp + 4 * of_nat (Suc i))" using that by (simp add: stack_words_nth)
    finally show ?thesis by (simp add: algebra_simps)
  qed
  from this [of 0] this [of 1] this [of 2] this [of 3] this [of 4] this [of 5] this [of 6] this [of 7] this [of 8]
    this [of 9] this [of 10] this [of 11] this [of 12] this [of 13] this [of 14] this [of 15]
  show ?thesis by (simp add: frame_at_def assms(1) add.assoc)
qed

lemma push_word_frame [simp]:
  "cpu_DS (push_word v s) = cpu_DS s" "cpu_ES (push_word v s) = cpu_ES s" "cpu_FS (push_word v s) = cpu_FS s"
  "cpu_GS (push_word v s) = cpu_GS s" "cpu_CS (push_word v s) = cpu_CS s" "cpu_EIP (push_word v s) = cpu_EIP s"
  "cpu_EFLAGS (push_word v s) = cpu_EFLAGS s" "r \<noteq> Esp \<Longrightarrow> cpu_reg (push_word v s) r = cpu_reg s r"
  "cpu_reg (push_word v s) Esp = cpu_reg s Esp - 4" "cpu_CR0 (push_word v s) = cpu_CR0 s"
  "cpu_CR3 (push_word v s) = cpu_CR3 s" "cpu_GDTR (push_word v s) = cpu_GDTR s" "cpu_IDTR (push_word v s) = cpu_IDTR s"
  by (simp_all add: push_word_def Let_def)

lemma stack_words_frame [simp]:
  "stack_words n (s\<lparr>cpu_EFLAGS := f\<rparr>) = stack_words n s"
  "stack_words n (load_segments_ax s) = stack_words n s"
  "stack_words n (mov_ax v s) = stack_words n s"
  by (simp_all add: stack_words_def load_segments_ax_def mov_ax_def set_reg_def Let_def)

lemma stack_words_push_numeral:
  "numeral k \<le> (1073741824 :: nat) \<Longrightarrow> stack_words (numeral k) (push_word v s) = v # stack_words (pred_numeral k) s"
proof -
  assume k: "numeral k \<le> (1073741824 :: nat)"
  have n: "numeral k = Suc (pred_numeral k)" by (rule numeral_eq_Suc)
  then have "4 * pred_numeral k + 4 \<le> 4294967296" using k by linarith
  from stack_words_push [OF this] show ?thesis unfolding n .
qed

text \<open>The words of the frame, in the order of memory.\<close>

lemma exception_state_words:
  "stack_words 17 (exception_state n err s) =
    [cpu_reg s Esp - (case err of None \<Rightarrow> 56 | Some e \<Rightarrow> 60), (cpu_reg s Eax AND 0xFFFF0000) OR ucast (cpu_DS s),
     cpu_reg s Edi, cpu_reg s Esi, cpu_reg s Ebp, cpu_reg s Esp - (case err of None \<Rightarrow> 20 | Some e \<Rightarrow> 24),
     cpu_reg s Ebx, cpu_reg s Edx, cpu_reg s Ecx, cpu_reg s Eax, n, 0] @
    (case err of None \<Rightarrow> [] | Some e \<Rightarrow> [e]) @
    [cpu_EIP s, ucast (cpu_CS s), cpu_EFLAGS s] @ stack_words (case err of None \<Rightarrow> 2 | Some e \<Rightarrow> 1) s"
  "cpu_reg (exception_state n err s) Esp = cpu_reg s Esp - (case err of None \<Rightarrow> 60 | Some e \<Rightarrow> 64)"
  by (cases err; simp add: exception_state_def ISRHandler_entry_def ISR_stub_def processor_exception_def pushad_def
      push_reg_def Let_def stack_words_push_numeral; simp add: mov_ax_def set_reg_def load_segments_ax_def)+

lemma exception_state_pointer: "top_word (exception_state n err s) = cpu_reg (exception_state n err s) Esp + 4"
proof -
  have "top_word (exception_state n err s) = stack_words 17 (exception_state n err s) ! 0"
    by (simp add: stack_words_nth top_word_def)
  moreover have "cpu_reg (exception_state n err s) Esp + 4 = cpu_reg s Esp - (case err of None \<Rightarrow> 56 | Some e \<Rightarrow> 60)"
    unfolding exception_state_words(2) by (cases err) simp_all
  ultimately show ?thesis by (simp add: exception_state_words(1))
qed

text \<open>The frame that the handler sees.\<close>

definition seen_frame :: "u32 \<Rightarrow> u32 option \<Rightarrow> cpu \<Rightarrow> InterruptFrame" where
  "seen_frame n err s = (let s' = exception_state n err s in frame_at (cpu_mem s') (top_word s'))"

lemma seen_frame_eq:
  "seen_frame n err s =
     \<lparr>DS = (cpu_reg s Eax AND 0xFFFF0000) OR ucast (cpu_DS s), EDI = cpu_reg s Edi, ESI = cpu_reg s Esi,
      EBP = cpu_reg s Ebp, IESP = cpu_reg s Esp - (case err of None \<Rightarrow> 20 | Some e \<Rightarrow> 24), EBX = cpu_reg s Ebx,
      EDX = cpu_reg s Edx, ECX = cpu_reg s Ecx, EAX = cpu_reg s Eax, InterruptNumber = n, ErrorCode = 0,
      EIP = (case err of None \<Rightarrow> cpu_EIP s | Some e \<Rightarrow> e),
      CS = (case err of None \<Rightarrow> ucast (cpu_CS s) | Some e \<Rightarrow> cpu_EIP s),
      EFLAGS = (case err of None \<Rightarrow> cpu_EFLAGS s | Some e \<Rightarrow> ucast (cpu_CS s)),
      ESP = (case err of None \<Rightarrow> load32 (cpu_mem s) (cpu_reg s Esp) | Some e \<Rightarrow> cpu_EFLAGS s),
      SS = (case err of None \<Rightarrow> load32 (cpu_mem s) (cpu_reg s Esp + 4) | Some e \<Rightarrow> load32 (cpu_mem s) (cpu_reg s Esp))\<rparr>"
proof -
  obtain p ws where w: "stack_words 17 (exception_state n err s) = p # ws"
    by (cases "stack_words 17 (exception_state n err s)") (simp_all add: exception_state_words)
  have "ws = tl (stack_words 17 (exception_state n err s))" by (simp add: w)
  with frame_at_words [OF exception_state_pointer w] show ?thesis
    by (cases err) (simp_all add: seen_frame_def exception_state_words stack_words_nth)
qed

section \<open>The exception on the screen\<close>

text \<open>The exception taken, and the handler called on the frame in memory.\<close>

definition take_exception ::
  "device \<Rightarrow> fault_literals \<Rightarrow> u32 \<Rightarrow> u32 \<Rightarrow> u32 \<Rightarrow> u32 option \<Rightarrow> cpu \<Rightarrow> console \<Rightarrow> (bool \<times> console) option" where
  "take_exception d lit tmp cr2 n err s c =
     (let s' = exception_state n err (s\<lparr>cpu_mem := con_bytes c\<rparr>)
      in x86ISRFaultHandler d lit tmp cr2 (frame_at (cpu_mem s') (top_word s')) (c\<lparr>con_bytes := cpu_mem s'\<rparr>))"

text \<open>The pushes write below the stack pointer only: 64 bytes at most.\<close>

lemma push_word_same:
  assumes "x + 4 \<le> unat (cpu_reg s Esp)"
  shows "same_bytes ({..<4294967296} - {x..<unat (cpu_reg s Esp)}) (cpu_mem s) (cpu_mem (push_word v s))"
    and "unat (cpu_reg (push_word v s) Esp) = unat (cpu_reg s Esp) - 4"
proof -
  let ?a = "unat (cpu_reg s Esp)"
  have a: "unat (cpu_reg s Esp - 4) = ?a - 4"
    using assms unat_sub_le [of 4 "cpu_reg s Esp"] by (simp add: word_le_nat_alt)
  then show "unat (cpu_reg (push_word v s) Esp) = ?a - 4" by simp
  have e: "of_nat (?a - 4) = cpu_reg s Esp - 4" by (simp flip: a)
  have "same_bytes ({..<4294967296} - {x..<?a}) (cpu_mem s) (store32 (of_nat (?a - 4)) v (cpu_mem s))"
    by (rule same_bytes_store32) (use assms unat_lt_2p32 [of "cpu_reg s Esp"] in \<open>auto simp del: unat_lt_2p32\<close>)
  then show "same_bytes ({..<4294967296} - {x..<?a}) (cpu_mem s) (cpu_mem (push_word v s))"
    unfolding e by (simp add: push_word_def Let_def)
qed

lemma pushes_same:
  assumes "x + 4 * length vs \<le> unat (cpu_reg s Esp)"
  shows "same_bytes ({..<4294967296} - {x..<unat (cpu_reg s Esp)}) (cpu_mem s) (cpu_mem (fold push_word vs s))"
    and "unat (cpu_reg (fold push_word vs s) Esp) = unat (cpu_reg s Esp) - 4 * length vs"
  using assms
proof (induction vs arbitrary: s)
  case (Cons v vs)
  have step: "x + 4 * length vs \<le> unat (cpu_reg (push_word v s) Esp)"
    and same: "same_bytes ({..<4294967296} - {x..<unat (cpu_reg s Esp)}) (cpu_mem s) (cpu_mem (push_word v s))"
    and esp: "unat (cpu_reg (push_word v s) Esp) = unat (cpu_reg s Esp) - 4"
    if "x + 4 * length (v # vs) \<le> unat (cpu_reg s Esp)" for s :: cpu
    using push_word_same [of x s v] that by simp_all
  { case 1
    have "same_bytes ({..<4294967296} - {x..<unat (cpu_reg s Esp)}) (cpu_mem (push_word v s))
        (cpu_mem (fold push_word vs (push_word v s)))"
      by (rule same_bytes_mono [OF Cons.IH(1) [OF step [OF 1]]]) (use esp [OF 1] in auto)
    from same_bytes_trans [OF same [OF 1] this] show ?case by simp }
  { case 2
    show ?case using Cons.IH(2) [OF step [OF 2]] esp [OF 2] by simp }
qed simp_all

lemma exception_state_pushes:
  obtains vs where "cpu_mem (exception_state n err s) = cpu_mem (fold push_word vs s)" and "length vs \<le> 16"
proof
  let ?o = "(case err of None \<Rightarrow> 20 | Some e \<Rightarrow> 24) :: u32"
  let ?vs = "[cpu_EFLAGS s, ucast (cpu_CS s), cpu_EIP s] @ (case err of None \<Rightarrow> [] | Some e \<Rightarrow> [e]) @
    [0, n, cpu_reg s Eax, cpu_reg s Ecx, cpu_reg s Edx, cpu_reg s Ebx, cpu_reg s Esp - ?o, cpu_reg s Ebp, cpu_reg s Esi,
     cpu_reg s Edi, (cpu_reg s Eax AND 0xFFFF0000) OR ucast (cpu_DS s), cpu_reg s Esp - (?o + 36)]"
  show "cpu_mem (exception_state n err s) = cpu_mem (fold push_word ?vs s)"
    by (cases err) (simp_all add: exception_state_def ISRHandler_entry_def ISR_stub_def processor_exception_def pushad_def
        push_reg_def push_word_def mov_ax_def load_segments_ax_def set_reg_def Let_def)
  show "length ?vs \<le> 16" by (cases err) simp_all
qed

definition exception_stack :: "cpu \<Rightarrow> nat set" where
  "exception_stack s = {unat (cpu_reg s Esp) - 64..<unat (cpu_reg s Esp)}"

lemma exception_state_same:
  assumes "64 \<le> unat (cpu_reg s Esp)"
  shows "same_bytes ({..<4294967296} - exception_stack s) (cpu_mem s) (cpu_mem (exception_state n err s))"
proof -
  obtain vs where vs: "cpu_mem (exception_state n err s) = cpu_mem (fold push_word vs s)" "length vs \<le> 16"
    by (rule exception_state_pushes)
  have "unat (cpu_reg s Esp) - 64 + 4 * length vs \<le> unat (cpu_reg s Esp)" using assms vs(2) by simp
  from pushes_same(1) [OF this] show ?thesis by (simp add: vs(1) exception_stack_def)
qed

text \<open>The literals that the handler prints for an exception, where the stack does not reach them.\<close>

definition fault_literals_used :: "fault_literals \<Rightarrow> u32 \<Rightarrow> (u32 \<times> u8 list) list" where
  "fault_literals_used lit n =
     (if n = 14 then [(msg_PageFault lit, page_fault_format), (msg_IsPresent lit, present_format)] else []) @
     [(ExceptionMessages lit (unat n), bytes_of (exception_messages ! unat n))]"

definition exception_ready :: "fault_literals \<Rightarrow> u32 \<Rightarrow> u32 \<Rightarrow> cpu \<Rightarrow> console \<Rightarrow> bool" where
  "exception_ready lit tmp n s c \<longleftrightarrow> console_wf c \<and> tmp_bytes tmp \<subseteq> other_bytes \<and> 64 \<le> unat (cpu_reg s Esp) \<and>
     exception_stack s \<inter> video_bytes = {} \<and>
     (\<forall>(p, t)\<in>set (fault_literals_used lit n). literal_at tmp (con_bytes c) p t \<and> string_bytes p t \<inter> exception_stack s = {})"

text \<open>The text of an exception: for a page fault two lines before the message, of which the second is constant.\<close>

definition exception_text :: "u32 \<Rightarrow> u32 \<Rightarrow> u8 list" where
  "exception_text cr2 n =
     (if n = 14 then bytes_of ''Page Fault For Address: 0x'' @ number_text cr2 16 @ [0x0A] @
        bytes_of ''IsPresent: 0'' @ [0x0A] else []) @
     bytes_of (exception_messages ! unat n)"

section \<open>The way out\<close>

text \<open>What a C function leaves alone, by the calling convention: the stack above its argument.\<close>

definition returns_to_caller :: "(cpu \<Rightarrow> cpu) \<Rightarrow> cpu \<Rightarrow> bool" where
  "returns_to_caller f s \<longleftrightarrow> cpu_reg (f s) Esp = cpu_reg s Esp \<and> tl (stack_words 16 (f s)) = tl (stack_words 16 s)"

lemma ISRHandler_exit_eq:
  assumes "\<And>i. i < 15 \<Longrightarrow> load32 (cpu_mem s) (cpu_reg s Esp + 4 * of_nat i) = ws ! i"
  shows "cpu_reg (ISRHandler_exit s) = (cpu_reg s)(Eax := ws ! 9, Ecx := ws ! 8, Edx := ws ! 7, Ebx := ws ! 6,
      Esp := cpu_reg s Esp + 60, Ebp := ws ! 4, Esi := ws ! 3, Edi := ws ! 2)"
    and "cpu_DS (ISRHandler_exit s) = ucast (ws ! 1)" and "cpu_ES (ISRHandler_exit s) = ucast (ws ! 1)"
    and "cpu_FS (ISRHandler_exit s) = ucast (ws ! 1)" and "cpu_GS (ISRHandler_exit s) = ucast (ws ! 1)"
    and "cpu_EIP (ISRHandler_exit s) = ws ! 12" and "cpu_CS (ISRHandler_exit s) = ucast (ws ! 13)"
    and "cpu_EFLAGS (ISRHandler_exit s) = ws ! 14"
proof -
  note w = assms [of 1] assms [of 2] assms [of 3] assms [of 4] assms [of 6] assms [of 7] assms [of 8] assms [of 9]
    assms [of 12] assms [of 13] assms [of 14]
  note defs = ISRHandler_exit_def Let_def popad_def pop_reg_def drop_words_def set_reg_def top_word_def
    load_segments_ax_def iret_def
  show "cpu_reg (ISRHandler_exit s) = (cpu_reg s)(Eax := ws ! 9, Ecx := ws ! 8, Edx := ws ! 7, Ebx := ws ! 6,
      Esp := cpu_reg s Esp + 60, Ebp := ws ! 4, Esi := ws ! 3, Edi := ws ! 2)"
    using w by (simp add: defs fun_eq_iff add.assoc)
  show "cpu_DS (ISRHandler_exit s) = ucast (ws ! 1)" "cpu_ES (ISRHandler_exit s) = ucast (ws ! 1)"
    "cpu_FS (ISRHandler_exit s) = ucast (ws ! 1)" "cpu_GS (ISRHandler_exit s) = ucast (ws ! 1)"
    "cpu_EIP (ISRHandler_exit s) = ws ! 12" "cpu_CS (ISRHandler_exit s) = ucast (ws ! 13)"
    "cpu_EFLAGS (ISRHandler_exit s) = ws ! 14"
    using w by (simp_all add: defs add.assoc)
qed

lemma saved_code_segment: "ucast (ucast (v :: u16) :: u32) = v"
  by (rule bit_word_eqI) (simp add: bit_simps)

lemma saved_segment: "ucast ((x AND 0xFFFF0000) OR ucast (v :: u16) :: u32) = v"
proof (rule bit_word_eqI)
  fix n assume n: "n < LENGTH(16)"
  have "\<not> bit (0xFFFF0000 :: u32) n"
  proof -
    have "(0xFFFF0000 :: u32) = push_bit 16 0xFFFF" by simp
    then show ?thesis using n by (simp only: bit_push_bit_iff) simp
  qed
  with n show "bit (ucast ((x AND 0xFFFF0000) OR ucast v :: u32) :: u16) n \<longleftrightarrow> bit v n" by (simp add: bit_simps)
qed

section \<open>Properties\<close>

text \<open>
  C30: An exception of the processor in kernel code always ends in a stop, after the message of its number,
  read from the frame that the stub and \<^verbatim>\<open>_ISRHandler\<close> have pushed. But the stub of every exception pushes a
  zero for the error code, also where the processor has pushed one: whatever the processor reports about a
  page fault, the line on the screen is \<^verbatim>\<open>IsPresent: 0\<close>, and the frame's instruction pointer is the error
  code of the processor instead of the address of the instruction.
\<close>

theorem exceptions_lose_error_code:
  assumes "exception_ready lit tmp n s c" and "n < 32"
  shows "(\<exists>c'. take_exception d lit tmp cr2 n err s c = Some (True, c') \<and>
      terminal_of c' = terminal_string (s_Color c) (exception_text cr2 n) (terminal_of c)) \<and>
    InterruptNumber (seen_frame n err s) = n \<and> ErrorCode (seen_frame n err s) = 0 \<and>
    EIP (seen_frame n err s) = (case err of None \<Rightarrow> cpu_EIP s | Some e \<Rightarrow> e)"
proof -
  let ?s = "s\<lparr>cpu_mem := con_bytes c\<rparr>"
  let ?f = "seen_frame n err ?s" and ?c = "c\<lparr>con_bytes := cpu_mem (exception_state n err ?s)\<rparr>"
  have ready: "console_wf c" "tmp_bytes tmp \<subseteq> other_bytes" "64 \<le> unat (cpu_reg ?s Esp)"
    "exception_stack ?s \<inter> video_bytes = {}" using assms(1) by (simp_all add: exception_ready_def exception_stack_def)
  note same = exception_state_same [OF ready(3), of n err]
  have "video_bytes \<subseteq> {..<4294967296}" by (auto simp: video_bytes_def)
  then have "video_bytes \<subseteq> {..<4294967296} - exception_stack ?s" using ready(4) by blast
  from same_bytes_mono [OF same this] have "same_bytes video_bytes (con_bytes c) (con_bytes ?c)" by simp
  then have view: "terminal_of ?c = terminal_of c" "console_wf ?c"
    using grid_same ready(1) by (simp_all add: terminal_of_def console_wf_def)
  have lits: "literal_at tmp (con_bytes ?c) p t" if "(p, t) \<in> set (fault_literals_used lit n)" for p t
  proof -
    have p: "c_string (con_bytes c) p t" "string_bytes p t \<subseteq> quiet_bytes tmp" "string_bytes p t \<inter> exception_stack ?s = {}"
      using assms(1) that by (auto simp: exception_ready_def literal_at_def exception_stack_def)
    then have "string_bytes p t \<subseteq> {..<4294967296} - exception_stack ?s" by (auto simp: quiet_bytes_def other_bytes_def)
    from c_string_same [OF _ same_bytes_mono [OF same this]] p show ?thesis by (simp add: literal_at_def)
  qed
  have num: "InterruptNumber ?f = n" "ErrorCode ?f = 0" by (simp_all add: seen_frame_eq)
  have "fault_memory lit tmp ?f (con_bytes ?c)"
    using ready(2) lits unfolding fault_memory_def num by (auto simp: fault_literals_used_def)
  moreover have "InterruptNumber ?f < 32" using assms(2) num by simp
  ultimately obtain c' where "x86ISRFaultHandler d lit tmp cr2 ?f ?c = Some (True, c')" "prints ?c (fault_text cr2 ?f) tmp c'"
    using fault_handler_prints [OF view(2)] by blast
  moreover have "fault_text cr2 ?f = exception_text cr2 n"
    using num by (simp add: fault_text_def exception_text_def number_text_def bytes_of_def seen_frame_eq)
  ultimately have "take_exception d lit tmp cr2 n err s c = Some (True, c') \<and>
      terminal_of c' = terminal_string (s_Color c) (exception_text cr2 n) (terminal_of c)"
    using view(1) by (simp add: take_exception_def seen_frame_def prints_def Let_def)
  then show ?thesis by (auto simp: seen_frame_eq)
qed

text \<open>The interrupted code of the example: the stack pointer is \<^verbatim>\<open>0x7000\<close>.\<close>

definition cpu_0 :: cpu where
  "cpu_0 = \<lparr>cpu_reg = (\<lambda>r. if r = Esp then 0x7000 else 0), cpu_DS = 0x10, cpu_ES = 0x10, cpu_FS = 0x10, cpu_GS = 0x10,
     cpu_CS = 8, cpu_EIP = 0xC0001234, cpu_EFLAGS = 0x202, cpu_CR0 = 0x80000001, cpu_CR3 = 0, cpu_GDTR = (39, 0),
     cpu_IDTR = (2047, 0), cpu_mem = (\<lambda>_. 0)\<rparr>"

theorem exceptions_lose_error_code_witness:
  "\<exists>c'. take_exception crtc_device literals_fault 0x8000 0xDEADBEEF 14 (Some 7) cpu_0 console_fault = Some (True, c') \<and>
     terminal_of c' = terminal_string LightBrown (exception_text 0xDEADBEEF 14) (terminal_of console_fault)"
proof -
  have msg: "exception_messages ! 14 = ''Page Fault''" by (simp add: exception_messages_def)
  have quiet: "string_bytes p s \<subseteq> quiet_bytes 0x8000 \<and> string_bytes p s \<inter> exception_stack cpu_0 = {}"
    if "unat p + length s < 0x6000" for p s
    using that by (auto simp: quiet_bytes_def string_bytes_def other_bytes_def video_bytes_def tmp_bytes_def
        exception_stack_def cpu_0_def)
  have "console_wf console_fault" using console_0_wf by (simp add: console_fault_def console_wf_def)
  moreover have "tmp_bytes 0x8000 \<subseteq> other_bytes" "exception_stack cpu_0 \<inter> video_bytes = {}"
    by (auto simp: tmp_bytes_def other_bytes_def video_bytes_def exception_stack_def cpu_0_def)
  moreover have "\<forall>(p, t)\<in>set (fault_literals_used literals_fault 14). literal_at 0x8000 (con_bytes console_fault) p t \<and>
      string_bytes p t \<inter> exception_stack cpu_0 = {}"
    using fault_strings quiet
    by (simp add: fault_literals_used_def literals_fault_def literal_at_def msg page_fault_format_def present_format_def bytes_of_def)
  ultimately have "exception_ready literals_fault 0x8000 14 cpu_0 console_fault"
    by (simp add: exception_ready_def cpu_0_def)
  from exceptions_lose_error_code [OF this, of crtc_device "0xDEADBEEF" "Some 7"] show ?thesis
    by (simp add: console_fault_def console_0_def)
qed

text \<open>
  If the function that is called returns by the calling convention, the code after the call undoes part of the
  way in. For an exception without an error code the general registers, the stack pointer, the flags, the code
  segment, the instruction pointer and \<^verbatim>\<open>ds\<close> are as they were interrupted; \<^verbatim>\<open>es\<close>, \<^verbatim>\<open>fs\<close> and \<^verbatim>\<open>gs\<close> are
  not restored but get the value of \<^verbatim>\<open>ds\<close>. For an exception with an error code the processor's word is not
  removed, so \<^verbatim>\<open>iret\<close> jumps to the error code, in the segment that the low half of the interrupted address
  names. The only handler in the repository, \<^verbatim>\<open>x86ISRFaultHandler\<close>, returns for no exception.
\<close>

theorem exception_return_restores:
  assumes "returns_to_caller f (exception_state n err s)"
  defines "s' \<equiv> ISRHandler_exit (f (exception_state n err s))"
  shows "(\<forall>r. r \<noteq> Esp \<longrightarrow> cpu_reg s' r = cpu_reg s r) \<and>
    cpu_DS s' = cpu_DS s \<and> cpu_ES s' = cpu_DS s \<and> cpu_FS s' = cpu_DS s \<and> cpu_GS s' = cpu_DS s \<and>
    (case err of
       None \<Rightarrow> cpu_reg s' Esp = cpu_reg s Esp \<and> cpu_EIP s' = cpu_EIP s \<and> cpu_CS s' = cpu_CS s \<and>
         cpu_EFLAGS s' = cpu_EFLAGS s
     | Some e \<Rightarrow> cpu_reg s' Esp = cpu_reg s Esp - 4 \<and> cpu_EIP s' = e \<and> cpu_CS s' = ucast (cpu_EIP s) \<and>
         cpu_EFLAGS s' = ucast (cpu_CS s))"
proof -
  let ?t = "exception_state n err s"
  let ?ws = "stack_words 16 (f ?t)"
  have esp: "cpu_reg (f ?t) Esp = cpu_reg ?t Esp" using assms(1) by (simp add: returns_to_caller_def)
  have ws: "?ws ! i = stack_words 17 ?t ! i" if "0 < i" "i < 16" for i
  proof -
    have "?ws ! i = tl ?ws ! (i - 1)" using that by (simp add: nth_tl)
    also have "\<dots> = stack_words 16 ?t ! i" using assms(1) that by (simp add: returns_to_caller_def nth_tl)
    finally show ?thesis using that by (simp add: stack_words_nth)
  qed
  have "load32 (cpu_mem (f ?t)) (cpu_reg (f ?t) Esp + 4 * of_nat i) = ?ws ! i" if "i < 15" for i
    using that by (simp add: stack_words_nth)
  note X = ISRHandler_exit_eq [OF this, folded s'_def]
  note W = ws [of 1] ws [of 2] ws [of 3] ws [of 4] ws [of 6] ws [of 7] ws [of 8] ws [of 9] ws [of 12] ws [of 13] ws [of 14]
  have "cpu_reg s' r = cpu_reg s r" if "r \<noteq> Esp" for r
    using that W by (cases r; cases err) (simp_all add: X exception_state_words)
  moreover have "cpu_DS s' = cpu_DS s \<and> cpu_ES s' = cpu_DS s \<and> cpu_FS s' = cpu_DS s \<and> cpu_GS s' = cpu_DS s"
    using W by (cases err) (simp_all add: X exception_state_words saved_segment)
  moreover have "case err of
       None \<Rightarrow> cpu_reg s' Esp = cpu_reg s Esp \<and> cpu_EIP s' = cpu_EIP s \<and> cpu_CS s' = cpu_CS s \<and> cpu_EFLAGS s' = cpu_EFLAGS s
     | Some e \<Rightarrow> cpu_reg s' Esp = cpu_reg s Esp - 4 \<and> cpu_EIP s' = e \<and> cpu_CS s' = ucast (cpu_EIP s) \<and>
         cpu_EFLAGS s' = ucast (cpu_CS s)"
    using W esp by (cases err) (simp_all add: X exception_state_words saved_code_segment)
  ultimately show ?thesis by blast
qed

theorem exception_return_restores_witness:
  "cpu_EIP (ISRHandler_exit (exception_state 3 None cpu_0)) = 0xC0001234 \<and>
   cpu_EIP (ISRHandler_exit (exception_state 14 (Some 7) cpu_0)) = 7"
proof -
  have "returns_to_caller id t" for t by (simp add: returns_to_caller_def)
  from exception_return_restores [OF this, of 3 None cpu_0] exception_return_restores [OF this, of 14 "Some 7" cpu_0]
  show ?thesis by (simp add: cpu_0_def)
qed

end
