(* ===== verification/AsmRoutines.thy ===== *)
theory AsmRoutines
  imports X86 PortIO VirtMem Processor
begin

text \<open>
  The assembly routines that C++ code calls: \<^verbatim>\<open>Arch/x86/IO.asm\<close>, \<^verbatim>\<open>GDT.asm\<close>, \<^verbatim>\<open>IDT.asm\<close>, \<^verbatim>\<open>Processor.asm\<close> and
  \<^verbatim>\<open>Memory/VirtualMemoryManager.asm\<close>, as functions from the state at the call to the state after the return.
  The lemmas compare them with what the C++ model takes them for, the functions of \<open>PortIO\<close> and the events
  of \<open>VirtMem\<close> and \<open>Processor\<close>, and with the calling convention.
\<close>

section \<open>Routines\<close>

text \<open>The first two and the last two instructions of all routines with arguments; \<^verbatim>\<open>[ebp+8]\<close> is argument 0.\<close>

definition enter_frame :: "cpu \<Rightarrow> cpu" where
  "enter_frame s = (let s1 = push_reg Ebp s in set_reg Ebp (cpu_reg s1 Esp) s1)"

definition leave_frame :: "cpu \<Rightarrow> cpu" where
  "leave_frame s = ret (pop_reg Ebp s)"

definition frame_argument :: "u32 \<Rightarrow> cpu \<Rightarrow> u32" where
  "frame_argument n s = load32 (cpu_mem s) (cpu_reg s Ebp + 8 + 4 * n)"

text \<open>\<^verbatim>\<open>in\<close> to the low part of \<^verbatim>\<open>eax\<close>.\<close>

definition mov_al :: "u8 \<Rightarrow> cpu \<Rightarrow> cpu" where
  "mov_al v s = set_reg Eax ((cpu_reg s Eax AND 0xFFFFFF00) OR ucast v) s"

definition asm_INSB :: "device \<Rightarrow> cpu \<Rightarrow> port_trace \<Rightarrow> cpu \<times> port_trace" where
  "asm_INSB d s t =
     (let s1 = enter_frame s;
          s2 = set_reg Eax (cpu_reg s1 Eax XOR cpu_reg s1 Eax) s1;
          s3 = set_reg Edx (frame_argument 0 s2) s2;
          dx = ucast (cpu_reg s3 Edx);
          al = dev_in8 d t dx
      in (leave_frame (mov_al al s3), In8 dx al # t))"

definition asm_OUTB :: "cpu \<Rightarrow> port_trace \<Rightarrow> cpu \<times> port_trace" where
  "asm_OUTB s t =
     (let s1 = enter_frame s;
          s2 = set_reg Eax (frame_argument 1 s1) s1;
          s3 = set_reg Edx (frame_argument 0 s2) s2
      in (leave_frame s3, Out8 (ucast (cpu_reg s3 Edx)) (ucast (cpu_reg s3 Eax)) # t))"

definition asm_INSW :: "device \<Rightarrow> cpu \<Rightarrow> port_trace \<Rightarrow> cpu \<times> port_trace" where
  "asm_INSW d s t =
     (let s1 = enter_frame s;
          s2 = set_reg Eax (cpu_reg s1 Eax XOR cpu_reg s1 Eax) s1;
          s3 = set_reg Edx (frame_argument 0 s2) s2;
          dx = ucast (cpu_reg s3 Edx);
          ax = dev_in16 d t dx
      in (leave_frame (mov_ax ax s3), In16 dx ax # t))"

definition asm_OUTW :: "cpu \<Rightarrow> port_trace \<Rightarrow> cpu \<times> port_trace" where
  "asm_OUTW s t =
     (let s1 = enter_frame s;
          s2 = set_reg Eax (frame_argument 1 s1) s1;
          s3 = set_reg Edx (frame_argument 0 s2) s2
      in (leave_frame s3, Out16 (ucast (cpu_reg s3 Edx)) (ucast (cpu_reg s3 Eax)) # t))"

definition asm_INSD :: "device \<Rightarrow> cpu \<Rightarrow> port_trace \<Rightarrow> cpu \<times> port_trace" where
  "asm_INSD d s t =
     (let s1 = enter_frame s;
          s2 = set_reg Eax (cpu_reg s1 Eax XOR cpu_reg s1 Eax) s1;
          s3 = set_reg Edx (frame_argument 0 s2) s2;
          dx = ucast (cpu_reg s3 Edx);
          eax = dev_in32 d t dx
      in (leave_frame (set_reg Eax eax s3), In32 dx eax # t))"

definition asm_OUTD :: "cpu \<Rightarrow> port_trace \<Rightarrow> cpu \<times> port_trace" where
  "asm_OUTD s t =
     (let s1 = enter_frame s;
          s2 = set_reg Eax (cpu_reg s1 Eax XOR cpu_reg s1 Eax) s1;
          s3 = set_reg Eax (frame_argument 1 s2) s2;
          s4 = set_reg Edx (frame_argument 0 s3) s3
      in (leave_frame s4, Out32 (ucast (cpu_reg s4 Edx)) (cpu_reg s4 Eax) # t))"

definition x86_EnablePaging :: "cpu \<Rightarrow> cpu" where
  "x86_EnablePaging s =
     (let s1 = enter_frame s;
          s2 = set_reg Eax (cpu_CR0 s1) s1;
          s3 = set_reg Eax (cpu_reg s2 Eax OR 0x80000000) s2
      in leave_frame (s3\<lparr>cpu_CR0 := cpu_reg s3 Eax\<rparr>))"

definition x86_DisablePaging :: "cpu \<Rightarrow> cpu" where
  "x86_DisablePaging s =
     (let s1 = enter_frame s;
          s2 = set_reg Eax (cpu_CR0 s1) s1;
          s3 = set_reg Eax (cpu_reg s2 Eax AND 0x7FFFFFFF) s2
      in leave_frame (s3\<lparr>cpu_CR0 := cpu_reg s3 Eax\<rparr>))"

definition x86_LoadPageDirectory :: "cpu \<Rightarrow> cpu" where
  "x86_LoadPageDirectory s =
     (let s1 = enter_frame s;
          s2 = set_reg Eax (frame_argument 0 s1) s1
      in leave_frame (s2\<lparr>cpu_CR3 := cpu_reg s2 Eax\<rparr>))"

definition asm_GDTLoad :: "cpu \<Rightarrow> cpu" where
  "asm_GDTLoad s =
     (let s1 = enter_frame s;
          s2 = set_reg Ebx (frame_argument 0 s1) s1
      in leave_frame (s2\<lparr>cpu_GDTR := table_register (cpu_mem s2) (cpu_reg s2 Ebx)\<rparr>))"

definition asm_IDTLoad :: "cpu \<Rightarrow> cpu" where
  "asm_IDTLoad s =
     (let s1 = enter_frame s;
          s2 = set_reg Ebx (frame_argument 0 s1) s1
      in leave_frame (s2\<lparr>cpu_IDTR := table_register (cpu_mem s2) (cpu_reg s2 Ebx)\<rparr>))"

definition asm_EnableInterrupts :: "cpu \<Rightarrow> cpu" where
  "asm_EnableInterrupts s = ret (s\<lparr>cpu_EFLAGS := cpu_EFLAGS s OR 0x200\<rparr>)"

definition asm_DisableInterrupts :: "cpu \<Rightarrow> cpu" where
  "asm_DisableInterrupts s = ret (s\<lparr>cpu_EFLAGS := cpu_EFLAGS s AND NOT 0x200\<rparr>)"

section \<open>The calling convention\<close>

text \<open>
  At the call the return address is on top of the stack, the arguments above it. After the return the
  stack pointer is behind the return address, \<open>kept\<close> registers are as before, and memory has changed at
  most in the word below the stack.
\<close>

definition call_argument :: "u32 \<Rightarrow> cpu \<Rightarrow> u32" where
  "call_argument n s = load32 (cpu_mem s) (cpu_reg s Esp + 4 + 4 * n)"

definition callee_saved :: "reg list" where
  "callee_saved = [Ebx, Ebp, Esi, Edi]"

definition returns_to :: "reg list \<Rightarrow> cpu \<Rightarrow> cpu \<Rightarrow> bool" where
  "returns_to kept s s' \<longleftrightarrow> cpu_EIP s' = top_word s \<and> cpu_reg s' Esp = cpu_reg s Esp + 4 \<and>
     list_all (\<lambda>r. cpu_reg s' r = cpu_reg s r) kept \<and>
     cpu_mem s' \<in> {cpu_mem s, store32 (cpu_reg s Esp - 4) (cpu_reg s Ebp) (cpu_mem s)}"

lemma pushed_word_apart:
  "load32 (store32 (a - 4) v m) a = load32 m a" "load32 (store32 (a - 4) v m) (a + 4) = load32 m (a + 4)"
  "load32 (store32 (a - 4) v m) (4 + a) = load32 m (a + 4)" "load32 (store32 (a - 4) v m) (8 + a) = load32 m (8 + a)"
  using load32_above_store32 [of 0 "a - 4" v m] load32_above_store32 [of 1 "a - 4" v m]
    load32_above_store32 [of 2 "a - 4" v m] by (simp_all add: algebra_simps)

lemma frame_defs_eq:
  "enter_frame s = s\<lparr>cpu_reg := (cpu_reg s)(Esp := cpu_reg s Esp - 4, Ebp := cpu_reg s Esp - 4),
     cpu_mem := store32 (cpu_reg s Esp - 4) (cpu_reg s Ebp) (cpu_mem s)\<rparr>"
  by (simp add: enter_frame_def push_reg_def push_word_def set_reg_def Let_def)

lemmas routine_defs = leave_frame_def frame_argument_def set_reg_def mov_al_def mov_ax_def pop_reg_def drop_words_def
  ret_def top_word_def call_argument_def returns_to_def callee_saved_def pushed_word_apart Let_def

text \<open>What a routine that reads a port gives back: the value in \<^verbatim>\<open>eax\<close>, the upper part zero, and the history.\<close>

definition port_result :: "cpu \<Rightarrow> cpu \<times> port_trace \<Rightarrow> ('a::len) word \<times> port_trace \<Rightarrow> bool" where
  "port_result s r w \<longleftrightarrow> returns_to callee_saved s (fst r) \<and> cpu_reg (fst r) Eax = ucast (fst w) \<and> snd r = snd w"

text \<open>
  The six port routines do what the C++ model takes them for: called with a port and a value on the stack,
  each does the access of its counterpart in \<open>PortIO\<close> and returns by the calling convention.
\<close>

lemma asm_in_results:
  "port_result s (asm_INSB d s t) (INSB d (ucast (call_argument 0 s)) t)"
  "port_result s (asm_INSW d s t) (INSW d (ucast (call_argument 0 s)) t)"
  "port_result s (asm_INSD d s t) (INSD d (call_argument 0 s) t)"
  by (simp_all add: port_result_def asm_INSB_def asm_INSW_def asm_INSD_def INSB_def INSW_def INSD_def frame_defs_eq routine_defs)

lemma asm_out_results:
  "returns_to callee_saved s (fst (asm_OUTB s t))"
  "snd (asm_OUTB s t) = OUTB (ucast (call_argument 0 s)) (ucast (call_argument 1 s)) t"
  "returns_to callee_saved s (fst (asm_OUTW s t))"
  "snd (asm_OUTW s t) = OUTW (ucast (call_argument 0 s)) (ucast (call_argument 1 s)) t"
  "port_result s (asm_OUTD s t) (OUTD (call_argument 0 s) (call_argument 1 s) t)"
  by (simp_all add: port_result_def asm_OUTB_def asm_OUTW_def asm_OUTD_def OUTB_def OUTW_def OUTD_def frame_defs_eq routine_defs)

section \<open>Control registers\<close>

text \<open>What an event of the virtual memory manager does to the control registers.\<close>

fun event_effect :: "cpu_event \<Rightarrow> u32 \<times> u32 \<Rightarrow> u32 \<times> u32" where
  "event_effect (InvlPg a) (cr0, cr3) = (cr0, cr3)"
| "event_effect (LoadPageDirectory a) (cr0, cr3) = (cr0, a)"
| "event_effect (SetPaging on) (cr0, cr3) = (if on then set_bit 31 cr0 else unset_bit 31 cr0, cr3)"

definition control_registers :: "cpu \<Rightarrow> u32 \<times> u32" where
  "control_registers s = (cpu_CR0 s, cpu_CR3 s)"

lemma paging_bit: "x OR 0x80000000 = set_bit 31 (x :: u32)" "x AND 0x7FFFFFFF = unset_bit 31 (x :: u32)"
proof -
  have b: "(0x80000000 :: u32) = push_bit 31 1" "(0x7FFFFFFF :: u32) = NOT (push_bit 31 1)" by simp_all
  show "x OR 0x80000000 = set_bit 31 x" unfolding b by (simp only: set_bit_eq_or)
  show "x AND 0x7FFFFFFF = unset_bit 31 x" unfolding b by (simp only: unset_bit_eq_and_not)
qed

lemma control_routines:
  "returns_to callee_saved s (x86_EnablePaging s)"
  "control_registers (x86_EnablePaging s) = event_effect (SetPaging True) (control_registers s)"
  "returns_to callee_saved s (x86_DisablePaging s)"
  "control_registers (x86_DisablePaging s) = event_effect (SetPaging False) (control_registers s)"
  "returns_to callee_saved s (x86_LoadPageDirectory s)"
  "control_registers (x86_LoadPageDirectory s) = event_effect (LoadPageDirectory (call_argument 0 s)) (control_registers s)"
  by (simp_all add: control_registers_def x86_EnablePaging_def x86_DisablePaging_def x86_LoadPageDirectory_def
      frame_defs_eq routine_defs paging_bit)

lemma table_routines:
  "returns_to [Ebp, Esi, Edi] s (asm_GDTLoad s)" "cpu_reg (asm_GDTLoad s) Ebx = call_argument 0 s"
  "cpu_GDTR (asm_GDTLoad s) = table_register (cpu_mem (asm_GDTLoad s)) (call_argument 0 s)"
  "returns_to [Ebp, Esi, Edi] s (asm_IDTLoad s)" "cpu_reg (asm_IDTLoad s) Ebx = call_argument 0 s"
  "cpu_IDTR (asm_IDTLoad s) = table_register (cpu_mem (asm_IDTLoad s)) (call_argument 0 s)"
  by (simp_all add: asm_GDTLoad_def asm_IDTLoad_def frame_defs_eq routine_defs)

lemma interrupt_routines:
  "returns_to callee_saved s (asm_EnableInterrupts s)" "returns_to callee_saved s (asm_DisableInterrupts s)"
  by (simp_all add: asm_EnableInterrupts_def asm_DisableInterrupts_def routine_defs)

section \<open>Properties\<close>

text \<open>
  C32: The routines behind the virtual memory manager change the control registers as its events say and keep
  what a routine must keep. Those that load the descriptor tables read limit and base where their argument
  points to, but leave that pointer in \<^verbatim>\<open>ebx\<close>, which by the calling convention belongs to the caller: they keep
  the convention only if \<^verbatim>\<open>ebx\<close> was the pointer before.
\<close>

theorem table_loads_clobber_ebx:
  "returns_to callee_saved s (x86_EnablePaging s) \<and>
   control_registers (x86_EnablePaging s) = event_effect (SetPaging True) (control_registers s) \<and>
   returns_to callee_saved s (x86_DisablePaging s) \<and>
   control_registers (x86_DisablePaging s) = event_effect (SetPaging False) (control_registers s) \<and>
   returns_to callee_saved s (x86_LoadPageDirectory s) \<and>
   control_registers (x86_LoadPageDirectory s) =
     event_effect (LoadPageDirectory (call_argument 0 s)) (control_registers s) \<and>
   cpu_GDTR (asm_GDTLoad s) = table_register (cpu_mem (asm_GDTLoad s)) (call_argument 0 s) \<and>
   cpu_IDTR (asm_IDTLoad s) = table_register (cpu_mem (asm_IDTLoad s)) (call_argument 0 s) \<and>
   (returns_to callee_saved s (asm_GDTLoad s) \<longleftrightarrow> cpu_reg s Ebx = call_argument 0 s) \<and>
   (returns_to callee_saved s (asm_IDTLoad s) \<longleftrightarrow> cpu_reg s Ebx = call_argument 0 s)"
proof -
  have "returns_to callee_saved s s' \<longleftrightarrow> cpu_reg s Ebx = call_argument 0 s"
    if "returns_to [Ebp, Esi, Edi] s s'" "cpu_reg s' Ebx = call_argument 0 s" for s'
    using that by (auto simp: returns_to_def callee_saved_def)
  note conv = this [OF table_routines(1,2)] this [OF table_routines(4,5)]
  show ?thesis by (intro conjI control_routines table_routines(3,6) conv)
qed

end
