(* ===== verification/Spec2Isabelle.thy ===== *)
theory Spec2Isabelle
  imports KernelMain MissingDrive DriverMessages ATADevice Dump KernelPages LittleMemory EstdArray LinkerScript IsrStubs
    AsmRoutines
begin

text \<open>
  EagleOS is a 32-bit x86 kernel written in C++. This library models the kernel's own logic and proves
  what its components promise, or exhibits the inputs on which the code does something else. All
  definitions are translated from the sources under \<^verbatim>\<open>src/Kernel\<close>; the names are those of the code, with
  the class as a prefix (\<open>PMM_AllocatePages\<close> is \<^verbatim>\<open>PhysicalMemoryManager::AllocatePages\<close>).

  The program. The bootloader jumps to \<^verbatim>\<open>Arch/x86/Boot.asm\<close>, which fills two page tables, switches paging on
  and calls \<^verbatim>\<open>KMain\<close> (\<^verbatim>\<open>Kernel.cpp\<close>). \<^verbatim>\<open>KMain\<close> copies the multiboot record into a \<^verbatim>\<open>BootInfo\<close> and calls \<^verbatim>\<open>InitKernel\<close>:
  the text screen, the processor (descriptor tables, interrupt gates, interrupt controller), the memory
  managers, and the first sector of an ATA disk into a buffer of the heap, with a message on the screen for
  each step. \<^verbatim>\<open>InitMemoryManager\<close> starts four managers in order. The physical memory manager keeps
  one bit per 4 KB frame in a \<^verbatim>\<open>Bitmap\<close>. The virtual memory manager owns the page directory and the page
  tables and maps pages to frames. The virtual memory allocator keeps a second bitmap over the kernel's
  address space; its \<^verbatim>\<open>AllocatePages\<close> takes pages from its own bitmap and frames from the physical manager
  and maps the one to the other. The heap takes its pages from the allocator and hands out byte blocks
  by first fit over headers stored in the memory itself; \<^verbatim>\<open>KMalloc\<close> and the operators \<^verbatim>\<open>new\<close> and
  \<^verbatim>\<open>delete\<close> forward to it.

  Conventions. A \<^verbatim>\<open>uint32_t\<close> is a \<open>u32\<close>, a 32-bit word whose arithmetic wraps. A C++ object is a record of its
  members, changed by passing it on; where the code reads objects as bytes, memory is a function from
  addresses to bytes. A result of type \<open>option\<close> is \<open>None\<close> where the code does not return or C++ leaves the
  behaviour undefined, so a theorem with \<open>Some\<close> also says that the call returns. A loop that may run for
  ever is a \<open>partial_function (option)\<close>, every other loop has a termination proof; no definition takes
  fuel. What is not the kernel's code is a parameter: the \<open>device\<close> behind the ports, a function of the
  history of port accesses; the addresses of string literals (\<open>lit\<close>), of local buffers (\<open>tmp\<close>) and of tables
  and sections (\<open>table_symbols\<close>, \<open>linker_symbols\<close>); the order in which C++ evaluates operands (\<open>order\<close>).

  The theories, from the ground up. Data and memory:
    \<^item> \<open>Prelude\<close>: fixed-width integers and the counting loop \<open>for_range\<close> with its invariant rule.
    \<^item> \<open>EstdAlgorithm\<close>: \<^verbatim>\<open>ESTD/Algorithm.h\<close> and \<^verbatim>\<open>ESTD/Bitwise.h\<close>.
    \<^item> \<open>Bitmap\<close>: \<^verbatim>\<open>ESTD/Bitmap.h\<close> and \<^verbatim>\<open>ESTD/Bitset.h\<close>. The state is the array of bytes; \<open>bits_of\<close> reads
      it as a list of booleans and every operation is proved to be an operation on that list (locales
      \<open>bit_array\<close> and \<open>run_store\<close>), the search for a free run included.
    \<^item> \<open>EstdArray\<close>: \<^verbatim>\<open>ESTD/Array.h\<close> and the constants of \<^verbatim>\<open>ESTD/Errno.h\<close>.
    \<^item> \<open>ByteMemory\<close>, \<open>CString\<close>: byte-addressed memory with little-endian loads and stores, and
      \<^verbatim>\<open>ESTD/CString.cpp\<close> on it.
    \<^item> \<open>Boot\<close>: \<^verbatim>\<open>Boot/*.h\<close> and the part of \<^verbatim>\<open>KMain\<close> that fills \<^verbatim>\<open>BootInfo\<close>.
  The memory managers:
    \<^item> \<open>PhysMem\<close>: \<^verbatim>\<open>Memory/PhysicalMemoryManager\<close>. Holds the locale \<open>page_allocator\<close>, the contract of
      anything that hands out runs of pages: a run granted was free before and is taken afterwards,
      nothing else changes, and a free gives back exactly its run. It is interpreted on this manager
      and, in \<open>VirtAlloc\<close>, on the allocator of address space.
    \<^item> \<open>MemoryUtil\<close>, \<open>PageEntry\<close>: \<^verbatim>\<open>Memory/MemoryUtil\<close>, \<^verbatim>\<open>PageDirectory\<close> and \<^verbatim>\<open>PageTable\<close> entries with their
      flag accessors; the locale \<open>page_entry\<close> states what an entry's accessors promise.
    \<^item> \<open>VirtMem\<close>: \<^verbatim>\<open>Memory/VirtualMemoryManager\<close>. \<open>vmm_mapping\<close> abstracts directory and tables to a partial
      function from page numbers to frame addresses; \<open>Map\<close>, \<open>Unmap\<close> and the ranges refine updates of
      it (locale \<open>page_mapper\<close>). Privileged instructions (\<^verbatim>\<open>invlpg\<close>, loads of \<^verbatim>\<open>cr3\<close> and \<^verbatim>\<open>cr0\<close>) are events
      of a trace.
    \<^item> \<open>VirtAlloc\<close>: \<^verbatim>\<open>Memory/VirtualMemoryAllocator\<close> over the record of the three global objects, with the
      invariant \<open>memory_inv\<close> that links bitmaps and mapping.
    \<^item> \<open>KernelPages\<close>: whole histories of calls of the page managers: no sequence of calls breaks them, and
      in the states \<open>grants_reach\<close> clients get and give back pages that nobody else holds.
    \<^item> \<open>Heap\<close>: \<^verbatim>\<open>Memory/Heap\<close>, headers and payloads as bytes of memory. \<open>chain\<close> reads the headers as the
      list of blocks, \<open>heap_wf\<close> is the invariant, \<open>heap_reach\<close> the states reachable by allocation, by
      writes of clients into their blocks, and by frees between blocks in use.
    \<^item> \<open>KMalloc\<close>: \<^verbatim>\<open>Memory/KMalloc\<close>, \<^verbatim>\<open>ESTD/StdLib\<close>, \<^verbatim>\<open>Strdup\<close> and \<^verbatim>\<open>Strndup\<close>. The locales \<open>byte_allocator\<close> and
      \<open>bounded_allocator\<close> are the contract clients of the heap rely on; they are interpreted on \<^verbatim>\<open>KMalloc\<close>.
    \<^item> \<open>HeapLinks\<close>: what the merging of free blocks can and cannot destroy. After any frees the links between
      headers still lead to headers, forwards to a later one and backwards to an earlier one (\<open>heap_headers\<close>).
    \<^item> \<open>EstdString\<close>, \<open>StringSum\<close>: \<^verbatim>\<open>ESTD/String\<close> and \<^verbatim>\<open>ESTD/StringUtil\<close> on the heap, and sums of strings with
      their temporary objects under every order of evaluation.
    \<^item> \<open>KernelInit\<close>, \<open>LittleMemory\<close>: the start-up of the managers in \<^verbatim>\<open>Kernel.cpp\<close>, with the memory for the heap
      and without, either because memory is too small or because its region is too large for the bitmap.
      \<open>pmm_reach\<close> are the states of the physical manager that clients reach afterwards.
  Devices, screen and processor:
    \<^item> \<open>PortIO\<close>, \<open>ATA\<close>: \<^verbatim>\<open>Arch/x86/IO.h\<close> and \<^verbatim>\<open>Drivers/Storage/ATA/ATA\<close>. \<open>ATADevice\<close>: \<^verbatim>\<open>ATADevice.h\<close>, the
      identification of a drive and the texts made of it. \<open>pio_drive\<close> states what a working drive answers to reads
      and writes of sectors, \<open>identify_ready\<close> (in \<open>KernelMain\<close>) what the master drive answers to \<^verbatim>\<open>IDENTIFY\<close>: both
      allow it any number of status reads before it is ready.
    \<^item> \<open>TypeConverter\<close>, \<open>VGA\<close>, \<open>KPrintf\<close>: \<^verbatim>\<open>ESTD/TypeConverter\<close>, \<^verbatim>\<open>Drivers/Graphics/VGA\<close>, \<^verbatim>\<open>Kern/KPrintf\<close> and
      \<^verbatim>\<open>Kern/KPanic\<close>. \<open>terminal_of\<close> abstracts the screen's memory and position to a terminal, which the output
      functions refine; \<open>format_text\<close> is the text of a format.
    \<^item> \<open>Processor\<close>: \<^verbatim>\<open>Arch/x86\<close>, the descriptor tables, the interrupt controller and the fault handler.
  The composition:
    \<^item> \<open>Report\<close>, \<open>Messages\<close>, \<open>DriverMessages\<close>: what a function prints, as the list of its calls of \<^verbatim>\<open>KPrintf\<close>, in
      the branches of the function. The managers' own theories leave the messages out.
    \<^item> \<open>Machine\<close>, \<open>Startup\<close>, \<open>KernelMain\<close>, \<open>MissingDrive\<close>: all objects, the screen, memory and the ports
      in one state, and the start-up on it with all messages, up to the sector of the disk on the screen,
      or up to the loop that waits for a missing drive.
    \<^item> \<open>Dump\<close>: the functions that print tables, memory map and heap, the heap after merging frees included.
    \<^item> \<open>Spec2Isabelle\<close> (this theory): the state the start-up of the managers ends in, and the pages of the heap and
      of other clients in all that follows.
  The assembly code and the linker script:
    \<^item> \<open>X86\<close>: registers, stack and the instructions used, as functions on the state.
    \<^item> \<open>BootCode\<close>: \<^verbatim>\<open>Boot.asm\<close>. \<open>walk\<close> is the processor's translation through tables in memory; the code's loops
      end, and what it leaves translates as \<open>boot_translation\<close>.
    \<^item> \<open>LinkerScript\<close>: \<^verbatim>\<open>linker.ld\<close>, addresses from sizes of sections; the kernel's own mapping continues the
      boot code's.
    \<^item> \<open>IsrStubs\<close>: \<^verbatim>\<open>ISR.asm\<close>, from an exception to the \<^verbatim>\<open>InterruptFrame\<close> that the fault handler gets, and back.
    \<^item> \<open>AsmRoutines\<close>: the routines that C++ calls, compared with the functions and events that stand for them
      in \<open>PortIO\<close>, \<open>VirtMem\<close> and \<open>Processor\<close>, and with the calling convention.

  What the lemmas show. For each component: an invariant of its state that every operation keeps
  (\<open>bitmap_wf\<close>, \<open>pmm_wf\<close>, \<open>vmm_wf\<close>, \<open>memory_inv\<close>, \<open>heap_wf\<close>, \<open>console_wf\<close>); the effect of every operation on an
  abstract view, failures included; that its loops end; and for components that work together the
  properties of whole runs. Where the code misses its purpose, a theorem says what it does instead: the
  merging of heap blocks, the exceptions with an error code, the start-up without 100 MB of known memory or without
  a drive, the truncated texts of the drive's identification.

  Bounds. Pages are numbered below \<open>2 ^ 20\<close>. The examples use a PC with 128 MB. The theorems about the
  start-up assume the addresses of the linker script and an available region that covers 16 MB to 116 MB and ends
  within the 512 MB of the bitmap. \<open>LittleMemory\<close> is the case that no accepted region reaches \<^verbatim>\<open>0x73F8000\<close>, 32 KB below
  116 MB: a small PC, or the one with 1024 MB that the target \<^verbatim>\<open>runqemu\<close> starts, whose region is refused. What is
  between the two cases is left open. Those about \<open>KPrintf\<close> assume literals away from the screen and from the buffer of \<^verbatim>\<open>IntToStr\<close>.

  Not modelled. Declarations and macros that no code uses have no counterpart, nor have \<^verbatim>\<open>ESTD/Types.h\<close> and the two
  address types, which are aliases of \<open>u32\<close>, nor the unused word of a memory region. Of C++ only what the code depends on is modelled: no alignment, no
  limits of the stack, and of undefined behaviour only reads and writes out of range of an array, a
  missing return value and the order of evaluation. Of the processor, the caches of translations, the
  arithmetic flags, the flag RF in the flags pushed for an exception, privilege checks and hardware interrupts are left
  out; the kernel installs no handler
  for an interrupt and never enables them. Multiboot's own record is read as given.
\<close>

section \<open>Properties across components\<close>

text \<open>What the start-up leaves of the physical manager: page 0 is taken, so no frame has address 0.\<close>

lemma PMM_AllocatePages_keeps_taken:
  assumes "pmm_wf p" and "page_taken p i"
  shows "page_taken (snd (PMM_AllocatePages n p)) i"
  using assms rs.bits_setr [OF pmm_wfD(1) [OF assms(1)]] rs.setr_refused [OF pmm_wfD(1) [OF assms(1)]]
  by (cases "unat (Bitmap_FindUnsetBits (pmm_Bitmap p) n) + unat n \<le> pmm_size p")
    (auto simp: PMM_AllocatePages_def Let_def)

lemma frames_addressable_from_zero:
  assumes "pmm_wf (g_KernelPMM mm)" and "pmm_StartAddress (g_KernelPMM mm) = 0" and "page_taken (g_KernelPMM mm) 0"
  shows "frames_addressable mm"
  unfolding frames_addressable_def
proof (intro allI impI)
  fix t
  assume t: "t < pmm_size (g_KernelPMM mm)" "\<not> page_taken (g_KernelPMM mm) t"
  then have "t < 1048576" "t \<noteq> 0" using pmm_wfD(3) [OF assms(1)] assms(3) by (simp, metis)
  then have "unat (of_nat t * 4096 :: u32) \<noteq> 0" by (simp add: page_address_unat)
  then show "frame_address mm t \<noteq> 0" using assms(2) by (auto simp: frame_address_def)
qed

lemma VMA_AllocatePages_pmm:
  "VMA_AllocatePages n k = Some (a, k') \<Longrightarrow>
    g_KernelPMM k' = g_KernelPMM k \<or> g_KernelPMM k' = snd (PMM_AllocatePages n (g_KernelPMM k))"
  by (auto simp: VMA_AllocatePages_def Let_def split: if_splits option.splits prod.splits)

lemma InitMemoryManager_frames:
  assumes "boot_memory bi (g_KernelPMM (k_managers k))" and "kernel_objects (k_managers k)"
    and "InitMemoryManager bi k = Some (True, k')" and "memory_inv (k_managers k')"
  shows "frames_addressable (k_managers k')" and "pmm_StartAddress (g_KernelPMM (k_managers k')) = 0"
proof -
  let ?p = "g_KernelPMM (k_managers k)"
  have p: "memory_from_zero bi" "bitmap_wf (pmm_Bitmap ?p)" "pmm_size ?p \<le> 2 ^ 20" "4096 \<le> pmm_size ?p"
    using assms(1,2) by (simp_all add: boot_memory_def kernel_objects_def)
  obtain q where q: "InitPhysicalMemoryManager bi ?p = (True, q)" "pmm_wf q" "pmm_StartAddress q = 0"
      "page_taken q 0"
    by (rule InitPhysicalMemoryManager_ok [OF p]) simp
  have "g_KernelPMM (k_managers k') = q \<or> (\<exists>n. g_KernelPMM (k_managers k') = snd (PMM_AllocatePages n q))"
    using assms(3) q(1) by (auto simp: InitMemoryManager_def InitKernelHeap_def InitKMalloc_def Heap_Init_def
      Let_def split: if_splits option.splits prod.splits dest!: VMA_AllocatePages_pmm)
  then show "pmm_StartAddress (g_KernelPMM (k_managers k')) = 0" and "frames_addressable (k_managers k')"
    using q PMM_AllocatePages_keeps_taken frames_addressable_from_zero memory_invD(1) [OF assms(4)] by auto
qed

text \<open>
  C1: The start-up of the memory managers succeeds on a PC with the layout of the linker script and an
  available region from 16 MB to 116 MB that the bitmap accepts. Afterwards the invariant that links the physical manager, the
  virtual manager and the allocator of kernel address space holds, no frame that can be handed out has
  address 0, and the kernel heap is empty and spans the 100 MB from \<^verbatim>\<open>0xC1000000\<close> on.
\<close>

theorem memory_managers_start_up:
  assumes "boot_layout bi" and "boot_memory bi (g_KernelPMM (k_managers k))"
    and "kernel_objects (k_managers k)"
  shows "\<exists>k'. InitMemoryManager bi k = Some (True, k') \<and> memory_inv (k_managers k') \<and>
    frames_addressable (k_managers k') \<and> heap_wf (g_KernelHeap k') (k_bytes k') [] \<and>
    m_StartAddress (g_KernelHeap k') = 0xC1000000 \<and> m_EndAddress (g_KernelHeap k') = 0xC7400000"
proof (rule InitMemoryManager_ok [OF assms])
  fix k'
  assume k': "InitMemoryManager bi k = Some (True, k')" "memory_inv (k_managers k')"
    "heap_wf (g_KernelHeap k') (k_bytes k') []" "m_StartAddress (g_KernelHeap k') = 0xC1000000"
    "m_EndAddress (g_KernelHeap k') = 0xC7400000"
  with InitMemoryManager_frames(1) [OF assms(2,3) k'(1,2)] show ?thesis by blast
qed

theorem memory_managers_start_up_witness:
  "\<exists>k'. InitMemoryManager boot_128 kernel_0 = Some (True, k') \<and> memory_inv (k_managers k')"
  using memory_managers_start_up [OF boot_128_layout boot_128_memory kernel_0_objects] by blast






end
